(* ===== verification/Py_Prelude.thy ===== *)
theory Py_Prelude
  imports Main "HOL-Library.AList" "HOL-Library.Char_ord" "HOL-Library.List_Lexorder"
begin

section \<open>What the tools use of Python: errors, dicts, sets, strings\<close>

text \<open>
  The tools under \<open>src/tools/\<close> are Python. This theory fixes how their values are read:

  \<^item> A raised exception is the value \<open>Inl e\<close> of a result; every function that can raise
    returns a result and every caller passes the error on (\<open>bind_r\<close>).
  \<^item> A \<open>str\<close> is a list of characters; a character stands for a code point below 256.
    Python orders strings by code points, which is the lexicographic order of the
    imported \<open>List_Lexorder\<close> and \<open>Char_ord\<close>.
  \<^item> A \<open>dict\<close> keeps insertion order, so it is an association list with distinct keys:
    \<open>d[k] = v\<close> is \<open>AList.update\<close>, \<open>d.pop(k, None)\<close> is \<open>AList.delete\<close> and
    \<open>d.get(k, x)\<close> is \<open>dict_get\<close>.
  \<^item> A \<open>set\<close> has no order the language promises, so it is a list that enumerates it in
    some order. Theorems quantify over the list, hence over every order in which Python
    may iterate; \<open>sorted(s)\<close> is \<open>sorted_set\<close>, which depends on the members only.
\<close>

subsection \<open>Errors and results\<close>

datatype error =
    KeyError
  | IndexError
  | TypeError
  | ValueError string
  | AssertionError string
  | RuntimeError string
  | BumpError string
  | SystemExit string
  | Refused string
  | ClosureError string
  | OSError string
  | AttributeError
  | CalledProcessError
  | StopIteration
  | Unmodelled

type_synonym 'a result = "error + 'a"

definition bind_r :: "'a result \<Rightarrow> ('a \<Rightarrow> 'b result) \<Rightarrow> 'b result" where
  "bind_r m f = (case m of Inl e \<Rightarrow> Inl e | Inr x \<Rightarrow> f x)"

lemma bind_r_simps [simp]:
  "bind_r (Inl e) f = Inl e"
  "bind_r (Inr x) f = f x"
  by (simp_all add: bind_r_def)

lemma bind_r_Inr: "bind_r m f = Inr y \<longleftrightarrow> (\<exists>x. m = Inr x \<and> f x = Inr y)"
  by (cases m) auto

lemma bind_r_cong [fundef_cong]:
  "m = m' \<Longrightarrow> (\<And>x. m' = Inr x \<Longrightarrow> f x = g x) \<Longrightarrow> bind_r m f = bind_r m' g"
  by (cases m') auto

fun map_r :: "('a \<Rightarrow> 'b result) \<Rightarrow> 'a list \<Rightarrow> 'b list result" where
  "map_r f [] = Inr []"
| "map_r f (x # xs) = bind_r (f x) (\<lambda>y. bind_r (map_r f xs) (\<lambda>ys. Inr (y # ys)))"

fun fold_r :: "('a \<Rightarrow> 's \<Rightarrow> 's result) \<Rightarrow> 'a list \<Rightarrow> 's \<Rightarrow> 's result" where
  "fold_r f [] s = Inr s"
| "fold_r f (x # xs) s = bind_r (f x s) (fold_r f xs)"

definition assert_r :: "error \<Rightarrow> bool \<Rightarrow> unit result" where
  "assert_r e b = (if b then Inr () else Inl e)"

lemma assert_r_simps [simp]:
  "assert_r e b = Inr u \<longleftrightarrow> b"
  "assert_r e b = Inl e' \<longleftrightarrow> \<not> b \<and> e' = e"
  by (auto simp: assert_r_def)

lemma map_r_Inr: "map_r f xs = Inr ys \<longleftrightarrow> list_all2 (\<lambda>x y. f x = Inr y) xs ys"
  by (induction xs arbitrary: ys) (auto simp: bind_r_Inr list_all2_Cons1)

lemma map_r_mem: "map_r f xs = Inr ys \<Longrightarrow> x \<in> set xs \<Longrightarrow> \<exists>y \<in> set ys. f x = Inr y"
  by (induction xs arbitrary: ys) (auto simp: bind_r_Inr)

lemma map_r_cong [fundef_cong]:
  "xs = ys \<Longrightarrow> (\<And>x. x \<in> set ys \<Longrightarrow> f x = g x) \<Longrightarrow> map_r f xs = map_r g ys"
  by (induction ys arbitrary: xs) auto

lemma map_r_source: "map_r f xs = Inr yss \<Longrightarrow> ys \<in> set yss \<Longrightarrow> \<exists>x \<in> set xs. f x = Inr ys"
  by (induction xs arbitrary: yss) (auto simp: bind_r_Inr)

lemma map_r_concat_mem:
  assumes "bind_r (map_r f xs) (\<lambda>ys. Inr (concat ys)) = Inr zs" and "z \<in> set zs"
  obtains x ys where "x \<in> set xs" "f x = Inr ys" "z \<in> set ys"
proof -
  from assms(1) obtain yss where yss: "map_r f xs = Inr yss" "zs = concat yss"
    by (cases "map_r f xs") auto
  with assms(2) obtain ys where "ys \<in> set yss" "z \<in> set ys" by auto
  with map_r_source [OF yss(1)] show ?thesis by (blast intro: that)
qed

lemma map_r_total: "(\<And>x. x \<in> set xs \<Longrightarrow> f x = Inr (g x)) \<Longrightarrow> map_r f xs = Inr (map g xs)"
  by (induction xs) auto

lemma fold_r_append: "fold_r f (xs @ ys) s = bind_r (fold_r f xs s) (fold_r f ys)"
proof (induction xs arbitrary: s)
  case Nil
  then show ?case by simp
next
  case (Cons x xs)
  then show ?case by (cases "f x s") auto
qed

lemma fold_r_invariant:
  assumes "fold_r f xs s = Inr t" and "I s"
    and "\<And>x s t. x \<in> set xs \<Longrightarrow> I s \<Longrightarrow> f x s = Inr t \<Longrightarrow> I t"
  shows "I t"
  using assms
proof (induction xs arbitrary: s)
  case Nil
  then show ?case by simp
next
  case (Cons x xs)
  from Cons.prems(1) obtain s' where s': "f x s = Inr s'" "fold_r f xs s' = Inr t"
    by (auto simp: bind_r_Inr)
  from s'(1) Cons.prems(2,3) have "I s'" by auto
  with s'(2) Cons.prems(3) show ?case by (auto intro: Cons.IH)
qed

lemma fold_r_total:
  assumes "I s" and "\<And>x s. x \<in> set xs \<Longrightarrow> I s \<Longrightarrow> \<exists>t. f x s = Inr t \<and> I t"
  shows "\<exists>t. fold_r f xs s = Inr t \<and> I t"
  using assms
proof (induction xs arbitrary: s)
  case Nil
  then show ?case by simp
next
  case (Cons x xs)
  from Cons.prems obtain s' where "f x s = Inr s'" "I s'" by auto
  with Cons.IH [of s'] Cons.prems(2) show ?case by simp
qed

subsection \<open>Dicts\<close>

type_synonym ('k, 'v) dict = "('k \<times> 'v) list"

named_theorems dict_simps \<open>lookup after an update of a dict\<close>

definition dict_get :: "('k, 'v) dict \<Rightarrow> 'k \<Rightarrow> 'v \<Rightarrow> 'v" where
  "dict_get d k v = (case map_of d k of None \<Rightarrow> v | Some w \<Rightarrow> w)"

definition dict_index :: "('k, 'v) dict \<Rightarrow> 'k \<Rightarrow> 'v result" where
  "dict_index d k = (case map_of d k of None \<Rightarrow> Inl KeyError | Some w \<Rightarrow> Inr w)"

definition dict_has :: "('k, 'v) dict \<Rightarrow> 'k \<Rightarrow> bool" where
  "dict_has d k = (map_of d k \<noteq> None)"

definition dict_setdefault :: "'k \<Rightarrow> 'v \<Rightarrow> ('k, 'v) dict \<Rightarrow> ('k, 'v) dict" where
  "dict_setdefault k v d = (if dict_has d k then d else AList.update k v d)"

lemma dict_has_iff: "dict_has d k \<longleftrightarrow> k \<in> fst ` set d"
  by (auto simp: dict_has_def map_of_eq_None_iff)

lemma map_of_update [simp, dict_simps]:
  "map_of (AList.update k v d) j = (if j = k then Some v else map_of d j)"
  by (simp add: update_conv')

lemma map_of_delete_if [dict_simps]:
  "map_of (AList.delete k d) j = (if j = k then None else map_of d j)"
  by (simp add: delete_conv')

lemma map_of_setdefault [dict_simps]:
  "map_of (dict_setdefault k v d) j =
     (if j = k \<and> map_of d k = None then Some v else map_of d j)"
  by (auto simp: dict_setdefault_def dict_has_def)

lemma dict_get_simps [simp]:
  "dict_get [] k v = v"
  "dict_get ((j, w) # d) k v = (if j = k then w else dict_get d k v)"
  by (auto simp: dict_get_def)

lemma dict_get_update [simp, dict_simps]:
  "dict_get (AList.update k w d) j v = (if j = k then w else dict_get d j v)"
  by (simp add: dict_get_def)

lemma distinct_keys_update [simp]:
  "distinct (map fst d) \<Longrightarrow> distinct (map fst (AList.update k v d))"
  by (rule distinct_update)

lemma distinct_keys_filter [simp]:
  "distinct (map fst d) \<Longrightarrow> distinct (map fst (filter P d))"
  by (induction d) auto

lemma map_of_filter_keys:
  "map_of (filter (\<lambda>(k, v). P k) d) j = (if P j then map_of d j else None)"
  by (induction d) auto

lemma map_of_map_self [simp]:
  "map_of (map (\<lambda>n. (n, f n)) ns) n = (if n \<in> set ns then Some (f n) else None)"
  by (induction ns) auto

text \<open>\<open>{k: v for ...}\<close>: a later pair with the same key replaces the value in place.\<close>

definition dict_of_pairs :: "('k \<times> 'v) list \<Rightarrow> ('k, 'v) dict" where
  "dict_of_pairs ps = fold (\<lambda>(k, v). AList.update k v) ps []"

lemma distinct_dict_of_pairs [simp]: "distinct (map fst (dict_of_pairs ps))"
proof -
  have "distinct (map fst d) \<Longrightarrow> distinct (map fst (fold (\<lambda>(k, v). AList.update k v) ps d))" for d
    by (induction ps arbitrary: d) auto
  then show ?thesis by (simp add: dict_of_pairs_def)
qed

lemma map_of_dict_of_pairs: "map_of (dict_of_pairs ps) k = map_of (rev ps) k"
proof -
  have "map_of (fold (\<lambda>(k, v). AList.update k v) ps d) k =
      (case map_of (rev ps) k of None \<Rightarrow> map_of d k | Some v \<Rightarrow> Some v)" for d
    by (induction ps arbitrary: d) (auto simp: map_add_def split: option.splits)
  from this [of "[]"] show ?thesis by (simp add: dict_of_pairs_def split: option.splits)
qed

lemma keys_dict_of_pairs [simp]: "fst ` set (dict_of_pairs ps) = fst ` set ps"
proof -
  have "fst ` set (fold (\<lambda>(k, v). AList.update k v) ps d) = fst ` set ps \<union> fst ` set d"
    for d :: "('a \<times> 'b) list"
  proof (induction ps arbitrary: d)
    case (Cons p ps)
    then show ?case by (cases p) (simp add: dom_update)
  qed simp
  from this [of "[]"] show ?thesis by (simp add: dict_of_pairs_def)
qed

lemma fold_update_distinct:
  assumes "distinct (map fst ps)" and "fst ` set ps \<inter> fst ` set d = {}"
  shows "fold (\<lambda>(k, v). AList.update k v) ps d = d @ ps"
  using assms
proof (induction ps arbitrary: d)
  case Nil
  then show ?case by simp
next
  case (Cons p ps)
  have new: "AList.update k v d = d @ [(k, v)]" if "k \<notin> fst ` set d" for k v d
    using that by (induction d) auto
  from Cons.prems have "fst p \<notin> fst ` set d" by auto
  then have "AList.update (fst p) (snd p) d = d @ [p]" using new [of "fst p" d "snd p"] by simp
  with Cons.IH [of "d @ [p]"] Cons.prems show ?case by (auto simp: case_prod_beta)
qed

lemma dict_of_distinct_pairs: "distinct (map fst ps) \<Longrightarrow> dict_of_pairs ps = ps"
  by (simp add: dict_of_pairs_def fold_update_distinct)

subsection \<open>Sets and dicts of sets\<close>

definition set_add :: "'a \<Rightarrow> 'a list \<Rightarrow> 'a list" where
  "set_add x s = (if x \<in> set s then s else s @ [x])"

definition set_inter :: "'a list \<Rightarrow> 'a list \<Rightarrow> 'a list" where
  "set_inter s t = filter (\<lambda>x. x \<in> set t) s"

definition set_minus :: "'a list \<Rightarrow> 'a list \<Rightarrow> 'a list" where
  "set_minus s t = filter (\<lambda>x. x \<notin> set t) s"

definition set_union :: "'a list \<Rightarrow> 'a list \<Rightarrow> 'a list" where
  "set_union s t = s @ filter (\<lambda>x. x \<notin> set s) t"

definition sorted_set :: "'a::linorder list \<Rightarrow> 'a list" where
  "sorted_set s = sort (remdups s)"

lemma set_ops [simp]:
  "set (set_add x s) = insert x (set s)"
  "set (set_inter s t) = set s \<inter> set t"
  "set (set_minus s t) = set s - set t"
  "set (set_union s t) = set s \<union> set t"
  "set (sorted_set l) = set l"
  by (auto simp: set_add_def set_inter_def set_minus_def set_union_def sorted_set_def)

lemma distinct_set_ops [simp]:
  "distinct s \<Longrightarrow> distinct (set_add x s)"
  "distinct s \<Longrightarrow> distinct (set_inter s t)"
  "distinct s \<Longrightarrow> distinct (set_minus s t)"
  "distinct s \<Longrightarrow> distinct t \<Longrightarrow> distinct (set_union s t)"
  "distinct (sorted_set l)"
  by (auto simp: set_add_def set_inter_def set_minus_def set_union_def sorted_set_def)

lemma sorted_sorted_set [simp]: "sorted (sorted_set l)"
  by (simp add: sorted_set_def)

text \<open>What \<open>sorted\<close> returns does not depend on the order in which the set is iterated.\<close>

lemma sorted_set_cong: "set s = set t \<Longrightarrow> sorted_set s = sorted_set t"
  by (rule sorted_distinct_set_unique) simp_all

lemma sorted_set_Nil [simp]: "sorted_set [] = []" "sorted_set s = [] \<longleftrightarrow> s = []"
  using set_ops(5) [of s] by (auto simp del: set_ops) (simp add: sorted_set_def)

text \<open>\<open>d.setdefault(k, set()).add(x)\<close>.\<close>

definition dict_add :: "'k \<Rightarrow> 'a \<Rightarrow> ('k, 'a list) dict \<Rightarrow> ('k, 'a list) dict" where
  "dict_add k x d = AList.update k (set_add x (dict_get d k [])) d"

lemma dict_get_dict_add [simp, dict_simps]:
  "set (dict_get (dict_add k x d) j []) =
     (if j = k then insert x (set (dict_get d j [])) else set (dict_get d j []))"
  by (simp add: dict_add_def)

lemma set_get_fold_dict_add:
  "set (dict_get (fold (\<lambda>k. dict_add k x) ks d) j []) =
     set (dict_get d j []) \<union> (if j \<in> set ks then {x} else {})"
  by (induction ks arbitrary: d) auto

lemma distinct_keys_dict_add [simp]:
  "distinct (map fst d) \<Longrightarrow> distinct (map fst (dict_add k x d))"
  by (simp add: dict_add_def)

lemma keys_dict_add [simp]: "fst ` set (dict_add k x d) = insert k (fst ` set d)"
  by (simp add: dict_add_def dom_update)

end
