(* ===== verification/Py_Strings.thy ===== *)
theory Py_Strings
  imports Py_Prelude
begin

section \<open>The string methods the tools call\<close>

text \<open>
  The \<open>str\<close> methods of Python that the tools use, on lists of characters:
  \<open>startswith\<close>, \<open>endswith\<close>, \<open>strip\<close>, \<open>split\<close>, \<open>rpartition\<close>,
  \<open>join\<close>, \<open>splitlines\<close>, \<open>in\<close>, and the decimal form of a number.
\<close>

fun starts_with :: "string \<Rightarrow> string \<Rightarrow> bool" where
  "starts_with [] s = True"
| "starts_with (p # ps) [] = False"
| "starts_with (p # ps) (c # cs) = (p = c \<and> starts_with ps cs)"

definition ends_with :: "string \<Rightarrow> string \<Rightarrow> bool" where
  "ends_with t s = starts_with (rev t) (rev s)"

lemma starts_with_iff: "starts_with p s \<longleftrightarrow> (\<exists>t. s = p @ t)"
  by (induction p s rule: starts_with.induct) auto

lemma starts_with_append [simp]: "starts_with p (p @ s)"
  by (simp add: starts_with_iff)

lemma ends_with_iff: "ends_with t s \<longleftrightarrow> (\<exists>r. s = r @ t)"
proof
  assume "ends_with t s"
  then obtain r where "rev s = rev t @ r" by (auto simp: ends_with_def starts_with_iff)
  then have "s = rev r @ t" by (metis rev_append rev_rev_ident)
  then show "\<exists>r. s = r @ t" ..
next
  assume "\<exists>r. s = r @ t"
  then show "ends_with t s" by (auto simp: ends_with_def starts_with_iff)
qed

text \<open>\<open>sub in s\<close>.\<close>

fun contains :: "string \<Rightarrow> string \<Rightarrow> bool" where
  "contains p [] = (p = [])"
| "contains p (c # cs) = (starts_with p (c # cs) \<or> contains p cs)"

lemma contains_iff: "contains p s \<longleftrightarrow> (\<exists>a b. s = a @ p @ b)"
proof (induction s)
  case Nil
  then show ?case by auto
next
  case (Cons c s)
  have "(\<exists>a b. c # s = a @ p @ b) \<longleftrightarrow> (\<exists>b. c # s = p @ b) \<or> (\<exists>a b. s = a @ p @ b)"
    by (metis append_Cons append_Nil list.exhaust list.inject)
  with Cons show ?case by (auto simp: starts_with_iff)
qed

text \<open>The white space \<open>str.strip\<close> removes, and the line boundaries of \<open>str.splitlines\<close>.\<close>

definition is_space :: "char \<Rightarrow> bool" where
  "is_space c = (let n = of_char c :: nat in
     (9 \<le> n \<and> n \<le> 13) \<or> (28 \<le> n \<and> n \<le> 32) \<or> n = 133 \<or> n = 160)"

definition is_line_end :: "char \<Rightarrow> bool" where
  "is_line_end c = (let n = of_char c :: nat in
     (10 \<le> n \<and> n \<le> 13) \<or> (28 \<le> n \<and> n \<le> 30) \<or> n = 133)"

definition lstrip :: "string \<Rightarrow> string" where
  "lstrip s = dropWhile is_space s"

definition rstrip :: "string \<Rightarrow> string" where
  "rstrip s = rev (dropWhile is_space (rev s))"

definition strip :: "string \<Rightarrow> string" where
  "strip s = rstrip (lstrip s)"

text \<open>\<open>s.split(c)\<close> for one character, and \<open>s.split(c, 1)[0]\<close>.\<close>

fun split_on :: "char \<Rightarrow> string \<Rightarrow> string list" where
  "split_on c [] = [[]]"
| "split_on c (x # xs) =
     (if x = c then [] # split_on c xs
      else (case split_on c xs of [] \<Rightarrow> [[x]] | w # ws \<Rightarrow> (x # w) # ws))"

definition before :: "char \<Rightarrow> string \<Rightarrow> string" where
  "before c s = takeWhile (\<lambda>x. x \<noteq> c) s"

lemma split_on_nonempty [simp]: "split_on c s \<noteq> []"
  by (cases s) (auto split: list.splits)

lemma hd_split_on: "hd (split_on c s) = before c s"
  by (induction s) (auto simp: before_def split: list.splits)

lemma split_on_no_sep: "c \<notin> set s \<Longrightarrow> split_on c s = [s]"
  by (induction s) auto

lemma split_on_parts: "p \<in> set (split_on c s) \<Longrightarrow> c \<notin> set p"
  by (induction c s arbitrary: p rule: split_on.induct) (fastforce split: if_splits list.splits)+

lemma split_on_append: "c \<notin> set a \<Longrightarrow> split_on c (a @ c # b) = a # split_on c b"
  by (induction a) (auto split: list.splits)

text \<open>
  \<open>s.rpartition(c)\<close>: what is before the last \<open>c\<close>, whether there is one, and what is
  after it; without a \<open>c\<close> the whole string is in the last place.
\<close>

definition rpartition :: "char \<Rightarrow> string \<Rightarrow> string \<times> string" where
  "rpartition c s =
     (if c \<in> set s
      then (rev (tl (dropWhile (\<lambda>x. x \<noteq> c) (rev s))), rev (takeWhile (\<lambda>x. x \<noteq> c) (rev s)))
      else ([], s))"

lemma rpartition_append: "c \<notin> set b \<Longrightarrow> rpartition c (a @ c # b) = (a, b)"
  by (auto simp: rpartition_def takeWhile_append dropWhile_append)

lemma rpartition_none: "c \<notin> set s \<Longrightarrow> rpartition c s = ([], s)"
  by (simp add: rpartition_def)

lemma rpartition_some: "c \<in> set s \<Longrightarrow> rpartition c s = (a, b) \<Longrightarrow> s = a @ c # b \<and> c \<notin> set b"
  using split_list_last [of c s] by (auto simp: rpartition_append)

text \<open>\<open>sep.join(parts)\<close>.\<close>

fun join :: "string \<Rightarrow> string list \<Rightarrow> string" where
  "join sep [] = []"
| "join sep [s] = s"
| "join sep (s # t # ts) = s @ sep @ join sep (t # ts)"

lemma split_on_join:
  "ss \<noteq> [] \<Longrightarrow> (\<And>s. s \<in> set ss \<Longrightarrow> c \<notin> set s) \<Longrightarrow> split_on c (join [c] ss) = ss"
  by (induction "[c]" ss rule: join.induct) (auto simp: split_on_no_sep split_on_append)

text \<open>\<open>s.splitlines()\<close>: a final line end opens no further line, and \<open>\\r\\n\<close> is one end.\<close>

function splitlines_from :: "string \<Rightarrow> string \<Rightarrow> string list" where
  "splitlines_from acc [] = (if acc = [] then [] else [rev acc])"
| "splitlines_from acc (c # cs) =
     (if is_line_end c
      then rev acc # splitlines_from []
        (case cs of [] \<Rightarrow> [] | d # ds \<Rightarrow> if c = CHR 0x0D \<and> d = CHR 0x0A then ds else cs)
      else splitlines_from (c # acc) cs)"
  by pat_completeness auto
termination
  by (relation "measure (\<lambda>(acc, s). length s)") (auto split: list.splits)

definition splitlines :: "string \<Rightarrow> string list" where
  "splitlines s = splitlines_from [] s"

text \<open>\<open>s.split()\<close>: the words between runs of white space.\<close>

function split_space :: "string \<Rightarrow> string list" where
  "split_space s =
     (let t = dropWhile is_space s in
      if t = [] then []
      else takeWhile (\<lambda>c. \<not> is_space c) t # split_space (dropWhile (\<lambda>c. \<not> is_space c) t))"
  by pat_completeness auto
termination
proof (relation "measure length")
  fix s t :: string assume t: "t = dropWhile is_space s" "t \<noteq> []"
  then have "\<not> is_space (hd t)" by (metis hd_dropWhile)
  with t(2) have "length (dropWhile (\<lambda>c. \<not> is_space c) t) < length t"
    by (cases t) (auto simp: le_imp_less_Suc length_dropWhile_le)
  also have "\<dots> \<le> length s" by (simp add: t(1) length_dropWhile_le)
  finally show "(dropWhile (\<lambda>c. \<not> is_space c) t, s) \<in> measure length" by simp
qed simp

declare split_space.simps [simp del]

text \<open>\<open>s.replace(a, b)\<close> for a non-empty \<open>a\<close>.\<close>

function replace_all :: "string \<Rightarrow> string \<Rightarrow> string \<Rightarrow> string" where
  "replace_all a b s =
     (if s = [] then []
      else if a \<noteq> [] \<and> starts_with a s then b @ replace_all a b (drop (length a) s)
      else hd s # replace_all a b (tl s))"
  by pat_completeness auto
termination
  by (relation "measure (\<lambda>(a, b, s). length s)") auto

declare replace_all.simps [simp del]

text \<open>The decimal form of a number, and \<open>str.isdigit\<close> on ASCII.\<close>

definition is_digit :: "char \<Rightarrow> bool" where
  "is_digit c = (48 \<le> (of_char c :: nat) \<and> (of_char c :: nat) \<le> 57)"

text \<open>\<open>\w\<close>.\<close>

definition word_char :: "char \<Rightarrow> bool" where
  "word_char c = (let n = of_char c :: nat in
     is_digit c \<or> (65 \<le> n \<and> n \<le> 90) \<or> (97 \<le> n \<and> n \<le> 122) \<or> n = 95 \<or>
     n \<in> {170, 178, 179, 181, 185, 186, 188, 189, 190} \<or> (192 \<le> n \<and> n \<noteq> 215 \<and> n \<noteq> 247))"

definition digit_val :: "char \<Rightarrow> nat" where
  "digit_val c = of_char c - 48"

fun show_nat :: "nat \<Rightarrow> string" where
  "show_nat n = (if n < 10 then [char_of (48 + n)]
                 else show_nat (n div 10) @ [char_of (48 + n mod 10)])"

declare show_nat.simps [simp del]

definition read_nat :: "string \<Rightarrow> nat" where
  "read_nat s = foldl (\<lambda>n c. 10 * n + digit_val c) 0 s"

definition show_int :: "int \<Rightarrow> string" where
  "show_int n = (if n < 0 then ''-'' @ show_nat (nat (- n)) else show_nat (nat n))"

lemma digit_char:
  assumes "n < 10"
  shows "is_digit (char_of (48 + n))" and "digit_val (char_of (48 + n)) = n"
  using assms by (auto simp: is_digit_def digit_val_def)

lemma show_nat_digits: "c \<in> set (show_nat n) \<Longrightarrow> is_digit c"
proof (induction n rule: show_nat.induct)
  case (1 n)
  then show ?case
    by (cases "n < 10") (auto simp: show_nat.simps [of n] digit_char)
qed

lemma show_nat_nonempty [simp]: "show_nat n \<noteq> []"
  by (simp add: show_nat.simps [of n])

lemma read_show_nat [simp]: "read_nat (show_nat n) = n"
proof (induction n rule: show_nat.induct)
  case (1 n)
  show ?case
  proof (cases "n < 10")
    case True
    then show ?thesis
      using digit_char(2) [of n] by (simp add: show_nat.simps [of n] read_nat_def)
  next
    case False
    with 1 have "read_nat (show_nat (n div 10)) = n div 10" by simp
    with False show ?thesis
      using digit_char(2) [of "n mod 10"] by (simp add: show_nat.simps [of n] read_nat_def)
  qed
qed

lemma show_nat_inj [simp]: "show_nat m = show_nat n \<longleftrightarrow> m = n"
  by (metis read_show_nat)

text \<open>\<open>int(s)\<close>: a sign, then at most 4300 digits with single underscores between them.\<close>

fun digit_run :: "bool \<Rightarrow> string \<Rightarrow> bool" where
  "digit_run after [] = after"
| "digit_run after (c # cs) = (if is_digit c then digit_run True cs else c = CHR ''_'' \<and> after \<and> digit_run False cs)"

definition unsigned :: "string \<Rightarrow> string" where
  "unsigned s = (case s of c # cs \<Rightarrow> if c \<in> {CHR ''+'', CHR ''-''} then cs else s | [] \<Rightarrow> [])"

definition py_int :: "string \<Rightarrow> int option" where
  "py_int s =
     (let t = strip s; digits = filter is_digit (unsigned t) in
      if digit_run False (unsigned t) \<and> length digits \<le> 4300
      then Some ((if starts_with ''-'' t then - 1 else 1) * int (read_nat digits)) else None)"

end
