(* ===== verification/Build_Graph.thy ===== *)
theory Build_Graph
  imports Py_Strings
begin

section \<open>The BuildRequires graph (\<open>tools/build_graph.py\<close>)\<close>

text \<open>
  \<open>capabilities\<close> reads the capability names out of one BuildRequires line, \<open>read_rows\<close>
  turns what \<open>prepare\<close> extracted with rpmspec into recipes, \<open>graph\<close> maps every
  BuildRequires capability to the factory packages that provide it, and \<open>dependents\<close> is
  the same edge set reversed. The solver (components, cycle breaking, waves) is in
  \<open>Scc_Tarjan\<close> and \<open>Build_Waves\<close>.
\<close>

subsection \<open>Capabilities of a BuildRequires line\<close>

text \<open>
  The regular expression CAPABILITY is a maximal non-empty run of characters that are
  neither white space nor one of \<open>()<>=!,\<close>, and then, if it is there, one
  parenthesised group with no parenthesis inside.
\<close>

definition cap_char :: "char \<Rightarrow> bool" where
  "cap_char c = (\<not> is_space c \<and> c \<notin> set ''()<>=!,'')"

definition paren_char :: "char \<Rightarrow> bool" where
  "paren_char c = (c = CHR ''('' \<or> c = CHR '')'')"

definition cap_group :: "string \<Rightarrow> string \<times> string" where
  "cap_group s = (case s of
      c # cs \<Rightarrow>
        (let body = takeWhile (\<lambda>x. \<not> paren_char x) cs; rest = dropWhile (\<lambda>x. \<not> paren_char x) cs
         in if c = CHR ''('' \<and> rest \<noteq> [] \<and> hd rest = CHR '')''
            then (c # body @ [CHR '')''], tl rest) else ([], s))
    | [] \<Rightarrow> ([], s))"

definition cap_match :: "string \<Rightarrow> (string \<times> string) option" where
  "cap_match s = (let run = takeWhile cap_char s; rest = dropWhile cap_char s
     in if run = [] then None else (case cap_group rest of (g, r) \<Rightarrow> Some (run @ g, r)))"

lemma cap_group_append: "cap_group s = (g, r) \<Longrightarrow> s = g @ r"
proof (cases s)
  case (Cons c cs)
  let ?body = "takeWhile (\<lambda>x. \<not> paren_char x) cs" and ?rest = "dropWhile (\<lambda>x. \<not> paren_char x) cs"
  assume gr: "cap_group s = (g, r)"
  show ?thesis
  proof (cases "c = CHR ''('' \<and> ?rest \<noteq> [] \<and> hd ?rest = CHR '')''")
    case True
    then have "cs = ?body @ CHR '')'' # tl ?rest"
      by (metis list.collapse takeWhile_dropWhile_id)
    with True gr Cons show ?thesis by (auto simp: cap_group_def Let_def)
  next
    case False
    with gr Cons show ?thesis by (auto simp: cap_group_def Let_def)
  qed
qed (simp add: cap_group_def)

lemma cap_match_append: "cap_match s = Some (t, r) \<Longrightarrow> s = t @ r \<and> t \<noteq> []"
proof -
  assume m: "cap_match s = Some (t, r)"
  obtain g r' where g: "cap_group (dropWhile cap_char s) = (g, r')" by fastforce
  then have "s = takeWhile cap_char s @ g @ r'"
    using cap_group_append takeWhile_dropWhile_id by metis
  with m g show ?thesis by (auto simp: cap_match_def Let_def split: if_splits)
qed

lemma cap_match_shorter: "cap_match s = Some (t, r) \<Longrightarrow> length r < length s"
  by (auto dest!: cap_match_append)

text \<open>\<open>CAPABILITY.findall\<close>: at each position a match or one step to the right.\<close>

function cap_findall :: "string \<Rightarrow> string list" where
  "cap_findall s = (case cap_match s of
      Some (t, r) \<Rightarrow> t # cap_findall r
    | None \<Rightarrow> (case s of [] \<Rightarrow> [] | c # cs \<Rightarrow> cap_findall cs))"
  by pat_completeness auto
termination
  by (relation "measure length") (auto dest: cap_match_shorter)

declare cap_findall.simps [simp del]

definition rich_operators :: "string list" where
  "rich_operators = [''and'', ''or'', ''if'', ''else'', ''with'', ''without'', ''unless'']"

definition version_start :: "string \<Rightarrow> bool" where
  "version_start s = (case s of [] \<Rightarrow> False | c # _ \<Rightarrow> is_digit c \<or> c = CHR ''%'')"

definition capabilities :: "string \<Rightarrow> string list" where
  "capabilities l =
     (let line = strip l in
      if line = [] then []
      else if starts_with ''('' line
      then filter (\<lambda>t. t \<notin> set rich_operators \<and> \<not> version_start t)
             (cap_findall (if ends_with '')'' line then butlast (tl line) else tl line))
      else (case cap_match line of Some (t, _) \<Rightarrow> [t] | None \<Rightarrow> []))"

subsection \<open>Recipes and the rows they are read from\<close>

record recipe =
  rname :: string
  buildrequires :: "string list"
  provides :: "string list"
  parsed :: bool
  parse_error :: string

text \<open>One package directory of the extraction: its name and the five files, each may be absent.\<close>

record row =
  row_dir :: string
  f_br :: "string option"
  f_provides :: "string option"
  f_names :: "string option"
  f_rc :: "string option"
  f_err :: "string option"

definition file_lines :: "string option \<Rightarrow> string list" where
  "file_lines f = (case f of None \<Rightarrow> [] | Some t \<Rightarrow> splitlines t)"

definition recipe_of_row :: "row \<Rightarrow> recipe" where
  "recipe_of_row r =
     (let codes = map strip (file_lines (f_rc r));
          provs = fold (\<lambda>line s. fold set_add (take 1 (capabilities line)) s)
                    (file_lines (f_provides r)) (remdups (file_lines (f_names r)))
      in \<lparr>rname = row_dir r,
          buildrequires = concat (map capabilities (file_lines (f_br r))),
          provides = filter (\<lambda>p. p \<noteq> []) provs,
          parsed = (codes \<noteq> [] \<and> list_all (\<lambda>c. c = ''0'') codes),
          parse_error = take 300 (join '' ''
            (filter (\<lambda>line. \<not> starts_with ''warning'' line) (file_lines (f_err r))))\<rparr>)"

definition read_rows :: "row list \<Rightarrow> (string, recipe) dict" where
  "read_rows rows =
     dict_of_pairs (map (\<lambda>r. (row_dir r, recipe_of_row r)) (sort_key row_dir rows))"

text \<open>What every reader of the recipes relies on: one recipe per name, filed under it.\<close>

definition wf_recipes :: "(string, recipe) dict \<Rightarrow> bool" where
  "wf_recipes rs \<longleftrightarrow> distinct (map fst rs) \<and> (\<forall>(k, r) \<in> set rs. rname r = k)"

lemma set_dict_of_pairs_subset: "set (dict_of_pairs ps) \<subseteq> set ps"
proof -
  have upd: "set (AList.update k v d) \<subseteq> insert (k, v) (set d)" for k :: 'a and v :: 'b and d
    by (induction d) auto
  have "set (fold (\<lambda>(k, v). AList.update k v) ps d) \<subseteq> set ps \<union> set d" for d :: "('a \<times> 'b) list"
  proof (induction ps arbitrary: d)
    case (Cons p ps)
    then show ?case using upd [of "fst p" "snd p" d] by (cases p) fastforce
  qed simp
  from this [of "[]"] show ?thesis by (simp add: dict_of_pairs_def)
qed

lemma wf_read_rows: "wf_recipes (read_rows rows)"
  using set_dict_of_pairs_subset [of "map (\<lambda>r. (row_dir r, recipe_of_row r)) (sort_key row_dir rows)"]
  by (auto simp: wf_recipes_def read_rows_def recipe_of_row_def Let_def)

lemma read_rows_keys: "fst ` set (read_rows rows) = row_dir ` set rows"
  by (simp add: read_rows_def image_image)

subsection \<open>Edges\<close>

type_synonym edges = "(string, string list) dict"

definition own_providers :: "(string, recipe) dict \<Rightarrow> edges" where
  "own_providers rs = fold (\<lambda>(_, r). fold (\<lambda>c. dict_add c (rname r)) (provides r)) rs []"

definition published_providers :: "(string, recipe) dict \<Rightarrow> edges \<Rightarrow> edges \<Rightarrow> edges" where
  "published_providers rs published prov =
     fold (\<lambda>(source, provided) p.
       if dict_has rs source then fold (\<lambda>c. dict_add c source) provided p else p) published prov"

definition needs_of :: "edges \<Rightarrow> recipe \<Rightarrow> string list" where
  "needs_of prov r =
     filter (\<lambda>n. n \<noteq> rname r)
       (fold (\<lambda>c needs. set_union needs (dict_get prov c [])) (buildrequires r) [])"

definition all_providers :: "(string, recipe) dict \<Rightarrow> edges option \<Rightarrow> edges" where
  "all_providers rs published =
     published_providers rs (case published of None \<Rightarrow> [] | Some p \<Rightarrow> p) (own_providers rs)"

definition graph :: "(string, recipe) dict \<Rightarrow> edges option \<Rightarrow> edges" where
  "graph rs published =
     dict_of_pairs (map (\<lambda>(_, r). (rname r, needs_of (all_providers rs published) r)) rs)"

definition dependents :: "edges \<Rightarrow> edges" where
  "dependents es = fold (\<lambda>(package, needs). fold (\<lambda>p. dict_add p package) needs) es []"

text \<open>\<open>load\<close>: the recipes of the rows and their graph.\<close>

definition load :: "row list \<Rightarrow> edges option \<Rightarrow> (string, recipe) dict \<times> edges" where
  "load rows published = (let rs = read_rows rows in (rs, graph rs published))"

subsection \<open>What the edges are\<close>

text \<open>
  The specification: a package provides a capability when its recipe declares it or its
  published binaries carry it, and \<open>needs\<close> relates a recipe to the providers of one of
  its BuildRequires.
\<close>

definition offers :: "(string, recipe) dict \<Rightarrow> edges \<Rightarrow> string \<Rightarrow> string \<Rightarrow> bool" where
  "offers rs published p c \<longleftrightarrow>
     (\<exists>r. (p, r) \<in> set rs \<and> (c \<in> set (provides r) \<or> (\<exists>caps. (p, caps) \<in> set published \<and> c \<in> set caps)))"

lemma fold_dict_add_pairs:
  "set (dict_get (fold (\<lambda>(s, cs) p. if P s then fold (\<lambda>c. dict_add c s) cs p else p) ps d) c []) =
     set (dict_get d c []) \<union> {s. P s \<and> (\<exists>cs. (s, cs) \<in> set ps \<and> c \<in> set cs)}"
proof (induction ps arbitrary: d)
  case Nil
  then show ?case by simp
next
  case (Cons p ps)
  obtain s cs where p: "p = (s, cs)" by (cases p)
  have "set (dict_get (if P s then fold (\<lambda>c. dict_add c s) cs d else d) c []) =
      set (dict_get d c []) \<union> (if P s \<and> c \<in> set cs then {s} else {})"
    by (simp add: set_get_fold_dict_add)
  with Cons [of "if P s then fold (\<lambda>c. dict_add c s) cs d else d"] show ?case
    by (auto simp: p split: if_splits)
qed

lemma own_providers_iff:
  assumes "wf_recipes rs"
  shows "p \<in> set (dict_get (own_providers rs) c []) \<longleftrightarrow> (\<exists>r. (p, r) \<in> set rs \<and> c \<in> set (provides r))"
proof -
  let ?ps = "map (\<lambda>(_, r). (rname r, provides r)) rs"
  have "own_providers rs =
      fold (\<lambda>(s, cs) p. if (\<lambda>_. True) s then fold (\<lambda>c. dict_add c s) cs p else p) ?ps []"
    by (simp add: own_providers_def fold_map comp_def case_prod_beta')
  then show ?thesis
    using assms fold_dict_add_pairs [of "\<lambda>_. True" ?ps "[]" c]
    by (force simp: wf_recipes_def)
qed

lemma providers_iff:
  assumes "wf_recipes rs"
  shows "p \<in> set (dict_get (all_providers rs (Some published)) c []) \<longleftrightarrow> offers rs published p c"
proof -
  have "p \<in> fst ` set rs \<longleftrightarrow> (\<exists>r. (p, r) \<in> set rs)" by force
  then show ?thesis
    using fold_dict_add_pairs [of "dict_has rs" published "own_providers rs" c]
    by (auto simp: all_providers_def published_providers_def own_providers_iff [OF assms]
        offers_def dict_has_iff)
qed

lemma set_needs_of:
  "set (needs_of prov r) = {n. n \<noteq> rname r \<and> (\<exists>c \<in> set (buildrequires r). n \<in> set (dict_get prov c []))}"
proof -
  have "set (fold (\<lambda>c needs. set_union needs (dict_get prov c [])) cs s) =
      set s \<union> (\<Union>c \<in> set cs. set (dict_get prov c []))" for cs s
    by (induction cs arbitrary: s) auto
  then show ?thesis by (auto simp: needs_of_def)
qed

lemma distinct_graph [simp]: "distinct (map fst (graph rs published))"
  by (simp add: graph_def)

lemma graph_map:
  assumes "wf_recipes rs"
  shows "graph rs published = map (\<lambda>(k, r). (k, needs_of (all_providers rs published) r)) rs"
proof -
  let ?needs = "needs_of (all_providers rs published)"
  have eq: "map (\<lambda>(_, r). (rname r, ?needs r)) rs = map (\<lambda>(k, r). (k, ?needs r)) rs"
    using assms by (auto simp: wf_recipes_def)
  have "map fst (map (\<lambda>(k, r). (k, ?needs r)) rs) = map fst rs"
    by (simp add: comp_def case_prod_beta')
  then have "distinct (map fst (map (\<lambda>(k, r). (k, ?needs r)) rs))"
    using assms by (simp only: wf_recipes_def)
  then show ?thesis unfolding graph_def eq by (rule dict_of_distinct_pairs)
qed

lemma graph_edge_iff:
  assumes wf: "wf_recipes rs"
  shows "m \<in> set (dict_get (graph rs (Some published)) n []) \<longleftrightarrow>
    m \<noteq> n \<and> (\<exists>r. (n, r) \<in> set rs \<and> (\<exists>c \<in> set (buildrequires r). offers rs published m c))"
proof -
  define prov where "prov = all_providers rs (Some published)"
  have lookup: "map_of (graph rs (Some published)) n = map_option (needs_of prov) (map_of rs n)"
    by (simp add: graph_map [OF wf] map_of_map prov_def)
  have mem: "map_of rs n = Some r \<longleftrightarrow> (n, r) \<in> set rs" for r
    using wf by (simp add: wf_recipes_def)
  have prov: "x \<in> set (dict_get prov c []) \<longleftrightarrow> offers rs published x c" for x c
    by (simp add: prov_def providers_iff [OF wf])
  show ?thesis
  proof (cases "map_of rs n")
    case None
    then have "(n, r) \<notin> set rs" for r using mem [of r] by simp
    with None lookup show ?thesis by (simp add: dict_get_def)
  next
    case (Some r)
    then have r: "(n, r) \<in> set rs" by (simp add: mem)
    have uniq: "(n, r') \<in> set rs \<longleftrightarrow> r' = r" for r' using Some mem [of r'] by auto
    have "rname r = n" using r wf by (auto simp: wf_recipes_def)
    moreover have "dict_get (graph rs (Some published)) n [] = needs_of prov r"
      using Some lookup by (simp add: dict_get_def)
    ultimately show ?thesis by (simp add: set_needs_of prov uniq)
  qed
qed

lemma graph_None: "graph rs None = graph rs (Some [])"
  by (simp add: graph_def all_providers_def)

lemma graph_edge_None_iff:
  assumes "wf_recipes rs"
  shows "m \<in> set (dict_get (graph rs None) n []) \<longleftrightarrow>
    m \<noteq> n \<and> (\<exists>r. (n, r) \<in> set rs \<and> (\<exists>c \<in> set (buildrequires r). offers rs [] m c))"
  by (simp add: graph_None graph_edge_iff [OF assms])

lemma graph_irreflexive: "wf_recipes rs \<Longrightarrow> n \<notin> set (dict_get (graph rs published) n [])"
  by (cases published) (simp_all add: graph_edge_iff graph_None)

lemma dependents_edges:
  "set (dict_get (dependents es) m []) = {n. \<exists>needs. (n, needs) \<in> set es \<and> m \<in> set needs}"
  using fold_dict_add_pairs [of "\<lambda>_. True" es "[]" m] by (simp only: dependents_def if_True) simp

lemma dependents_edge_iff:
  "n \<in> set (dict_get (dependents es) m []) \<longleftrightarrow> (\<exists>needs. (n, needs) \<in> set es \<and> m \<in> set needs)"
  by (simp only: dependents_edges mem_Collect_eq)

lemma mem_dict_get_distinct:
  assumes "distinct (map fst d)"
  shows "x \<in> set (dict_get d k []) \<longleftrightarrow> (\<exists>xs. (k, xs) \<in> set d \<and> x \<in> set xs)"
proof (cases "map_of d k")
  case None
  then have "(k, xs) \<notin> set d" for xs using assms map_of_is_SomeI by fastforce
  with None show ?thesis by (simp add: dict_get_def)
next
  case (Some xs)
  then have "(k, ys) \<in> set d \<longleftrightarrow> ys = xs" for ys
    using map_of_eq_Some_iff [OF assms, of k ys] by auto
  with Some show ?thesis by (simp add: dict_get_def)
qed

lemma dependents_converse:
  "distinct (map fst es) \<Longrightarrow>
     n \<in> set (dict_get (dependents es) m []) \<longleftrightarrow> m \<in> set (dict_get es n [])"
  by (simp only: dependents_edge_iff mem_dict_get_distinct)

end
