(* ===== verification/Scc_Tarjan.thy ===== *)
theory Scc_Tarjan
  imports Py_Prelude
begin

section \<open>Strongly connected components (\<open>build_graph.components\<close>)\<close>

text \<open>
  \<open>components\<close> is Tarjan's algorithm with an explicit work stack. The model keeps its
  variables as a record and its loops as they are: one iteration of \<open>while work\<close> is
  \<open>tarjan_step\<close>, the \<open>for child in children\<close> loop, which resumes an iterator, is
  \<open>scan\<close> and returns what the iterator still holds, and the inner \<open>while True\<close> that
  pops a component is \<open>pop_until\<close>. The stacks have their top first. A missing key and
  a pop from an empty list are errors of the model; the invariant shows they never occur.
  The loop terminates on every state (\<open>tarjan_loop\<close> has a termination proof).
\<close>

subsection \<open>State and operations\<close>

record 'a tarjan =
  index :: "'a \<Rightarrow> nat option"
  low :: "'a \<Rightarrow> nat option"
  stack :: "'a list"
  on_stack :: "'a list"
  comps :: "'a list list"
  counter :: nat
  work :: "('a \<times> 'a list) list"

definition tarjan_start :: "'a tarjan" where
  "tarjan_start = \<lparr>index = (\<lambda>_. None), low = (\<lambda>_. None), stack = [], on_stack = [],
     comps = [], counter = 0, work = []\<rparr>"

definition key_of :: "('a \<Rightarrow> 'b option) \<Rightarrow> 'a \<Rightarrow> 'b result" where
  "key_of m k = (case m k of None \<Rightarrow> Inl KeyError | Some v \<Rightarrow> Inr v)"

text \<open>\<open>sorted(edges.get(v, set()) & nodes)\<close>.\<close>

definition succs :: "'a::linorder list \<Rightarrow> ('a, 'a list) dict \<Rightarrow> 'a \<Rightarrow> 'a list" where
  "succs nodes es v = sorted_set (set_inter (dict_get es v []) nodes)"

definition enter :: "'a::linorder list \<Rightarrow> ('a, 'a list) dict \<Rightarrow> 'a \<Rightarrow> 'a tarjan \<Rightarrow> 'a tarjan" where
  "enter nodes es v s = s\<lparr>
     index := (index s)(v \<mapsto> counter s),
     low := (low s)(v \<mapsto> counter s),
     counter := Suc (counter s),
     stack := v # stack s,
     on_stack := set_add v (on_stack s),
     work := (v, succs nodes es v) # work s\<rparr>"

fun scan :: "'a tarjan \<Rightarrow> 'a \<Rightarrow> 'a list \<Rightarrow> ('a tarjan \<times> ('a \<times> 'a list) option) result" where
  "scan s node [] = Inr (s, None)"
| "scan s node (c # cs) =
     (case index s c of
        None \<Rightarrow> Inr (s, Some (c, cs))
      | Some i \<Rightarrow>
          if c \<in> set (on_stack s)
          then bind_r (key_of (low s) node)
                 (\<lambda>l. scan (s\<lparr>low := (low s)(node \<mapsto> min l i)\<rparr>) node cs)
          else scan s node cs)"

fun pop_until :: "'a \<Rightarrow> 'a list \<Rightarrow> ('a list \<times> 'a list) result" where
  "pop_until node [] = Inl IndexError"
| "pop_until node (m # st) =
     (if m = node then Inr ([m], st)
      else bind_r (pop_until node st) (\<lambda>(c, r). Inr (m # c, r)))"

definition close_component :: "'a \<Rightarrow> 'a tarjan \<Rightarrow> 'a tarjan result" where
  "close_component node s =
     bind_r (pop_until node (stack s)) (\<lambda>(c, r).
       Inr (s\<lparr>stack := r, on_stack := set_minus (on_stack s) c, comps := comps s @ [c]\<rparr>))"

definition lower_parent :: "'a \<Rightarrow> 'a tarjan \<Rightarrow> 'a tarjan result" where
  "lower_parent node s =
     (case work s of
        [] \<Rightarrow> Inr s
      | (parent, _) # _ \<Rightarrow>
          bind_r (key_of (low s) parent) (\<lambda>lp. bind_r (key_of (low s) node) (\<lambda>ln.
            Inr (s\<lparr>low := (low s)(parent \<mapsto> min lp ln)\<rparr>))))"

definition finish :: "'a \<Rightarrow> 'a tarjan \<Rightarrow> 'a tarjan result" where
  "finish node s =
     bind_r (lower_parent node s) (\<lambda>s.
       bind_r (key_of (low s) node) (\<lambda>l. bind_r (key_of (index s) node) (\<lambda>i.
         if l = i then close_component node s else Inr s)))"

definition tarjan_step ::
    "'a::linorder list \<Rightarrow> ('a, 'a list) dict \<Rightarrow> 'a tarjan \<Rightarrow> 'a tarjan result" where
  "tarjan_step nodes es s =
     (case work s of
        [] \<Rightarrow> Inr s
      | (node, cs) # rest \<Rightarrow>
          bind_r (scan s node cs) (\<lambda>(s', next).
            case next of
              Some (child, cs') \<Rightarrow> Inr (enter nodes es child (s'\<lparr>work := (node, cs') # rest\<rparr>))
            | None \<Rightarrow> finish node (s'\<lparr>work := rest\<rparr>)))"

subsection \<open>Termination of the loop\<close>

text \<open>
  What has not been indexed yet, among the nodes and the children still to be scanned,
  shrinks whenever a frame is pushed; otherwise a frame is popped.
\<close>

definition unseen :: "'a list \<Rightarrow> 'a tarjan \<Rightarrow> 'a set" where
  "unseen nodes s = (set nodes \<union> (\<Union>(v, cs) \<in> set (work s). set cs)) - dom (index s)"

lemma finite_unseen [simp]: "finite (unseen nodes s)"
  by (auto simp: unseen_def)

lemma set_succs: "set (succs nodes es v) = set (dict_get es v []) \<inter> set nodes"
  by (simp add: succs_def)

lemma scan_frame:
  "scan s node cs = Inr (s', next) \<Longrightarrow>
     index s' = index s \<and> work s' = work s \<and>
     (\<forall>c cs'. next = Some (c, cs') \<longrightarrow> index s c = None \<and> c \<in> set cs \<and> set cs' \<subseteq> set cs)"
proof (induction s node cs rule: scan.induct)
  case (1 s node)
  then show ?case by simp
next
  case (2 s node c cs)
  show ?case
  proof (cases "index s c")
    case None
    with 2 show ?thesis by auto
  next
    case (Some i)
    show ?thesis
    proof (cases "c \<in> set (on_stack s)")
      case True
      with Some 2 obtain l where l: "key_of (low s) node = Inr l"
        and sc: "scan (s\<lparr>low := (low s)(node \<mapsto> min l i)\<rparr>) node cs = Inr (s', next)"
        by (auto simp: bind_r_Inr)
      from "2.IH"(1) [OF Some True l sc] show ?thesis by auto
    next
      case False
      with Some 2 show ?thesis by auto
    qed
  qed
qed

lemma finish_frame:
  "finish node s = Inr s' \<Longrightarrow> index s' = index s \<and> work s' = work s"
  by (auto simp: finish_def lower_parent_def close_component_def bind_r_Inr
      split: list.splits if_splits prod.splits)

lemma tarjan_step_decreases:
  assumes "tarjan_step nodes es s = Inr s'" and "work s \<noteq> []"
  shows "unseen nodes s' \<subset> unseen nodes s \<or>
    unseen nodes s' \<subseteq> unseen nodes s \<and> length (work s') < length (work s)"
proof -
  from assms(2) obtain node cs rest where w: "work s = (node, cs) # rest"
    by (cases "work s") auto
  with assms(1) obtain s1 nxt where sc: "scan s node cs = Inr (s1, nxt)"
    by (auto simp: tarjan_step_def bind_r_Inr)
  note fr = scan_frame [OF sc]
  show ?thesis
  proof (cases nxt)
    case None
    with assms(1) w sc have "finish node (s1\<lparr>work := rest\<rparr>) = Inr s'"
      by (simp add: tarjan_step_def)
    from finish_frame [OF this] fr w show ?thesis by (auto simp: unseen_def)
  next
    case (Some p)
    obtain c cs' where p: "p = (c, cs')" by (cases p)
    with Some fr have c: "index s c = None" "c \<in> set cs" "set cs' \<subseteq> set cs" by auto
    have s': "s' = enter nodes es c (s1\<lparr>work := (node, cs') # rest\<rparr>)"
      using assms(1) w sc Some p by (simp add: tarjan_step_def)
    have "unseen nodes s' \<subseteq> unseen nodes s"
      using c(3) fr w by (auto simp: s' enter_def unseen_def set_succs)
    moreover have "c \<in> unseen nodes s"
      using c w by (auto simp: unseen_def)
    moreover have "c \<notin> unseen nodes s'"
      by (simp add: s' enter_def unseen_def)
    ultimately show ?thesis by blast
  qed
qed

text \<open>\<open>while work: ...\<close>.\<close>

function tarjan_loop ::
    "'a::linorder list \<Rightarrow> ('a, 'a list) dict \<Rightarrow> 'a tarjan \<Rightarrow> 'a tarjan result" where
  "tarjan_loop nodes es s =
     (if work s = [] then Inr s else bind_r (tarjan_step nodes es s) (tarjan_loop nodes es))"
  by pat_completeness auto
termination
proof (relation "inv_image (finite_psubset <*lex*> less_than)
    (\<lambda>(nodes, es, s). (unseen nodes s, length (work s)))")
  show "wf (inv_image (finite_psubset <*lex*> less_than)
      (\<lambda>(nodes :: 'a list, es :: ('a, 'a list) dict, s). (unseen nodes s, length (work s))))"
    by auto
next
  fix nodes :: "'a list" and es :: "('a, 'a list) dict" and s s' :: "'a tarjan"
  assume "work s \<noteq> []" and "tarjan_step nodes es s = Inr s'"
  from tarjan_step_decreases [OF this(2,1)]
  show "((nodes, es, s'), (nodes, es, s)) \<in> inv_image (finite_psubset <*lex*> less_than)
      (\<lambda>(nodes, es, s). (unseen nodes s, length (work s)))"
    by (auto simp: finite_psubset_def psubset_eq)
qed

declare tarjan_loop.simps [simp del]

text \<open>\<open>visit(root)\<close> and the loop over the nodes.\<close>

definition visit ::
    "'a::linorder list \<Rightarrow> ('a, 'a list) dict \<Rightarrow> 'a \<Rightarrow> 'a tarjan \<Rightarrow> 'a tarjan result" where
  "visit nodes es root s = tarjan_loop nodes es (enter nodes es root (s\<lparr>work := []\<rparr>))"

definition visit_new ::
    "'a::linorder list \<Rightarrow> ('a, 'a list) dict \<Rightarrow> 'a \<Rightarrow> 'a tarjan \<Rightarrow> 'a tarjan result" where
  "visit_new nodes es node s =
     (if index s node = None then visit nodes es node s else Inr s)"

definition components ::
    "'a::linorder list \<Rightarrow> ('a, 'a list) dict \<Rightarrow> 'a list list result" where
  "components nodes es =
     bind_r (fold_r (visit_new nodes es) (sorted_set nodes) tarjan_start) (\<lambda>s. Inr (comps s))"

end
