(* ===== verification/Scc_Correct.thy ===== *)
theory Scc_Correct
  imports Scc_Tarjan
begin

section \<open>The components are the strongly connected components\<close>

text \<open>
  The invariant of the work loop. Nodes on the work stack are called open. The parts are:
  numbering and stacks agree (\<open>num_ok\<close>, \<open>stack_ok\<close>, \<open>open_ok\<close>), every low value
  is the number of a reachable stack node (\<open>low_ok\<close>), scanned children are numbered
  (\<open>scan_ok\<close>), every stack node reaches an open node that is not younger (\<open>up_ok\<close>),
  every open node reaches the younger stack nodes (\<open>down_ok\<close>), the low value of an open
  node bounds from below where the scanned edges of its segment of the stack lead
  (\<open>cover_ok\<close>), and the emitted components are connected and closed in emission order
  (\<open>emitted_ok\<close>). Each operation of \<open>tarjan_step\<close> keeps all of them.
\<close>

subsection \<open>The invariant\<close>

definition num :: "'a tarjan \<Rightarrow> 'a \<Rightarrow> nat" where
  "num s v = the (index s v)"

definition low_num :: "'a tarjan \<Rightarrow> 'a \<Rightarrow> nat" where
  "low_num s v = the (low s v)"

definition opened :: "'a tarjan \<Rightarrow> 'a set" where
  "opened s = fst ` set (work s)"

definition pending :: "'a tarjan \<Rightarrow> 'a \<Rightarrow> 'a set" where
  "pending s v = \<Union> (set ` snd ` {f \<in> set (work s). fst f = v})"

definition done_nodes :: "'a tarjan \<Rightarrow> 'a set" where
  "done_nodes s = \<Union> (set ` set (comps s))"

definition num_ok :: "'a tarjan \<Rightarrow> bool" where
  "num_ok s \<longleftrightarrow> dom (index s) = set (stack s) \<union> done_nodes s \<and>
     set (stack s) \<inter> done_nodes s = {} \<and> dom (low s) = dom (index s) \<and>
     set (on_stack s) = set (stack s) \<and> (\<forall>v \<in> dom (index s). num s v < counter s)"

definition stack_ok :: "'a tarjan \<Rightarrow> bool" where
  "stack_ok s \<longleftrightarrow> sorted_wrt (\<lambda>x y. num s y < num s x) (stack s)"

definition open_ok :: "('a \<times> 'a) set \<Rightarrow> 'a tarjan \<Rightarrow> bool" where
  "open_ok E s \<longleftrightarrow> opened s \<subseteq> set (stack s) \<and>
     sorted_wrt (\<lambda>x y. num s y < num s x \<and> (y, x) \<in> E\<^sup>*) (map fst (work s))"

definition low_ok :: "('a \<times> 'a) set \<Rightarrow> 'a tarjan \<Rightarrow> bool" where
  "low_ok E s \<longleftrightarrow> (\<forall>v \<in> set (stack s). low_num s v \<le> num s v \<and>
     (\<exists>w \<in> set (stack s). num s w = low_num s v \<and> (v, w) \<in> E\<^sup>*))"

definition scan_ok :: "('a \<times> 'a) set \<Rightarrow> 'a tarjan \<Rightarrow> bool" where
  "scan_ok E s \<longleftrightarrow> (\<forall>(v, cs) \<in> set (work s). set cs \<subseteq> E `` {v}) \<and>
     (\<forall>v \<in> set (stack s). E `` {v} - pending s v \<subseteq> dom (index s))"

definition up_ok :: "('a \<times> 'a) set \<Rightarrow> 'a tarjan \<Rightarrow> bool" where
  "up_ok E s \<longleftrightarrow> (\<forall>x \<in> set (stack s). \<exists>g \<in> opened s. num s g \<le> num s x \<and> (x, g) \<in> E\<^sup>*)"

definition down_ok :: "('a \<times> 'a) set \<Rightarrow> 'a tarjan \<Rightarrow> bool" where
  "down_ok E s \<longleftrightarrow>
     (\<forall>g \<in> opened s. \<forall>x \<in> set (stack s). num s g \<le> num s x \<longrightarrow> (g, x) \<in> E\<^sup>*)"

text \<open>\<open>x\<close> belongs to the segment of \<open>g\<close>: \<open>g\<close> is the youngest open node not younger than \<open>x\<close>.\<close>

definition in_segment :: "'a tarjan \<Rightarrow> 'a \<Rightarrow> 'a \<Rightarrow> bool" where
  "in_segment s g x \<longleftrightarrow> g \<in> opened s \<and> num s g \<le> num s x \<and>
     (\<forall>h \<in> opened s. num s h \<le> num s x \<longrightarrow> num s h \<le> num s g)"

definition cover_ok :: "('a \<times> 'a) set \<Rightarrow> 'a tarjan \<Rightarrow> bool" where
  "cover_ok E s \<longleftrightarrow> (\<forall>g x w. x \<in> set (stack s) \<longrightarrow> in_segment s g x \<longrightarrow>
     (x, w) \<in> E \<longrightarrow> w \<notin> pending s x \<longrightarrow> w \<in> set (stack s) \<longrightarrow> low_num s g \<le> num s w)"

text \<open>Emitted: connected inside, and edges lead to the component itself or an earlier one.\<close>

definition connected :: "('a \<times> 'a) set \<Rightarrow> 'a list \<Rightarrow> bool" where
  "connected E c \<longleftrightarrow> c \<noteq> [] \<and> (\<forall>x \<in> set c. \<forall>y \<in> set c. (x, y) \<in> E\<^sup>*)"

fun emitted :: "('a \<times> 'a) set \<Rightarrow> 'a set \<Rightarrow> 'a list list \<Rightarrow> bool" where
  "emitted E done_set [] = True"
| "emitted E done_set (c # cs) =
     (connected E c \<and> distinct c \<and> set c \<inter> done_set = {} \<and>
      E `` set c \<subseteq> done_set \<union> set c \<and> emitted E (done_set \<union> set c) cs)"

definition tarjan_inv :: "'a set \<Rightarrow> ('a \<times> 'a) set \<Rightarrow> 'a tarjan \<Rightarrow> bool" where
  "tarjan_inv N E s \<longleftrightarrow> dom (index s) \<subseteq> N \<and> num_ok s \<and> stack_ok s \<and> open_ok E s \<and> low_ok E s \<and>
     scan_ok E s \<and> up_ok E s \<and> down_ok E s \<and> cover_ok E s \<and> emitted E {} (comps s)"

lemma emitted_append:
  "emitted E D (cs @ ds) \<longleftrightarrow> emitted E D cs \<and> emitted E (D \<union> \<Union> (set ` set cs)) ds"
  by (induction cs arbitrary: D) (auto simp: Un_assoc)

lemma tarjan_invD:
  assumes "tarjan_inv N E s"
  shows "num_ok s" "stack_ok s" "open_ok E s" "low_ok E s" "scan_ok E s" "up_ok E s"
    "down_ok E s" "cover_ok E s" "emitted E {} (comps s)" "dom (index s) \<subseteq> N"
  using assms by (auto simp: tarjan_inv_def)

lemma stack_distinct: "stack_ok s \<Longrightarrow> distinct (stack s)"
proof -
  have "sorted_wrt (\<lambda>x y. num s y < num s x) xs \<Longrightarrow> distinct xs" for xs
    by (induction xs) auto
  then show "stack_ok s \<Longrightarrow> distinct (stack s)" by (simp add: stack_ok_def)
qed

lemma stack_num_inj:
  assumes "stack_ok s" "x \<in> set (stack s)" "y \<in> set (stack s)" "num s x = num s y"
  shows "x = y"
proof -
  from assms(2,3) obtain i j where "i < length (stack s)" "stack s ! i = x"
    and "j < length (stack s)" "stack s ! j = y"
    by (auto simp: in_set_conv_nth)
  with assms(1,4) show ?thesis
    unfolding stack_ok_def by (metis less_irrefl linorder_neqE_nat sorted_wrt_nth_less)
qed

lemma pending_iff: "w \<in> pending s x \<longleftrightarrow> (\<exists>ds. (x, ds) \<in> set (work s) \<and> w \<in> set ds)"
  by (force simp: pending_def)

lemma pending_Cons:
  "work s = (v, cs) # rest \<Longrightarrow>
     pending s x = (if x = v then set cs else {}) \<union> {w. \<exists>ds. (x, ds) \<in> set rest \<and> w \<in> set ds}"
  by (auto simp: pending_iff)

lemma start_inv: "tarjan_inv N E tarjan_start"
  by (simp add: tarjan_inv_def tarjan_start_def num_ok_def stack_ok_def open_ok_def low_ok_def
      scan_ok_def up_ok_def down_ok_def cover_ok_def done_nodes_def opened_def)

subsection \<open>Scanning a numbered child\<close>

text \<open>The state after the child at the head of the top frame was looked at.\<close>

definition consume :: "'a \<Rightarrow> 'a \<Rightarrow> 'a list \<Rightarrow> ('a \<times> 'a list) list \<Rightarrow> 'a tarjan \<Rightarrow> 'a tarjan" where
  "consume v c cs rest s = s\<lparr>
     low := (if c \<in> set (on_stack s) then (low s)(v \<mapsto> min (low_num s v) (num s c)) else low s),
     work := (v, cs) # rest\<rparr>"

lemma top_unique:
  assumes "open_ok E s" "work s = (v, cs) # rest" "(v, ds) \<in> set rest"
  shows False
  using assms by (force simp: open_ok_def)

lemma consume_frame:
  assumes "work s = (v, c # cs) # rest"
  shows "index (consume v c cs rest s) = index s" "stack (consume v c cs rest s) = stack s"
    "comps (consume v c cs rest s) = comps s" "counter (consume v c cs rest s) = counter s"
    "on_stack (consume v c cs rest s) = on_stack s" "num (consume v c cs rest s) = num s"
    "opened (consume v c cs rest s) = opened s" "done_nodes (consume v c cs rest s) = done_nodes s"
    "map fst (work (consume v c cs rest s)) = map fst (work s)"
  using assms by (auto simp: consume_def opened_def done_nodes_def num_def)

lemma consume_pending:
  assumes "open_ok E s" "work s = (v, c # cs) # rest"
  shows "pending (consume v c cs rest s) x = (if x = v then set cs else pending s x)"
    and "pending s v = insert c (set cs)"
proof -
  have none: "{f \<in> set rest. fst f = v} = {}" using top_unique [OF assms] by auto
  have "{f \<in> set (work s). fst f = v} = {(v, c # cs)}" using none assms(2) by auto
  then show "pending s v = insert c (set cs)" by (simp add: pending_def)
  have "{f \<in> set (work (consume v c cs rest s)). fst f = x} =
      (if x = v then {(v, cs)} else {f \<in> set (work s). fst f = x})"
    using none assms(2) by (auto simp: consume_def)
  then show "pending (consume v c cs rest s) x = (if x = v then set cs else pending s x)"
    by (simp add: pending_def)
qed

lemma consume_low:
  "low_num (consume v c cs rest s) x =
     (if x = v \<and> c \<in> set (on_stack s) then min (low_num s v) (num s c) else low_num s x)"
  by (simp add: consume_def low_num_def)

lemma top_num_max:
  assumes "open_ok E s" "work s = (v, cs) # rest" "g \<in> opened s"
  shows "num s g \<le> num s v" and "g \<noteq> v \<Longrightarrow> num s g < num s v" and "(g, v) \<in> E\<^sup>*"
  using assms by (auto simp: open_ok_def opened_def dest: less_imp_le)

lemma in_segment_self:
  assumes "stack_ok s" "open_ok E s" "v \<in> opened s" "in_segment s g v"
  shows "g = v"
proof -
  have "num s g = num s v" using assms(3,4) by (auto simp: in_segment_def intro: antisym)
  moreover have "g \<in> set (stack s)" "v \<in> set (stack s)"
    using assms by (auto simp: in_segment_def open_ok_def)
  ultimately show ?thesis using stack_num_inj [OF assms(1)] by blast
qed

lemma consume_inv:
  assumes inv: "tarjan_inv N E s" and w: "work s = (v, c # cs) # rest" and c: "c \<in> dom (index s)"
  shows "tarjan_inv N E (consume v c cs rest s)"
proof -
  note I = tarjan_invD [OF inv]
  let ?t = "consume v c cs rest s"
  note fr = consume_frame [OF w]
  note pend = consume_pending [OF I(3) w]
  have v: "v \<in> opened s" "v \<in> set (stack s)"
    using w I(3) by (auto simp: opened_def open_ok_def)
  have on: "set (on_stack s) = set (stack s)" using I(1) by (simp add: num_ok_def)
  have vc: "(v, c) \<in> E" using I(5) w by (auto simp: scan_ok_def)
  have "dom (low ?t) = dom (index s)"
    using I(1) v by (auto simp: consume_def num_ok_def)
  then have num': "num_ok ?t" using I(1) fr by (simp add: num_ok_def)
  have low': "low_ok E ?t"
    unfolding low_ok_def fr
  proof
    fix x assume x: "x \<in> set (stack s)"
    then obtain y where y: "y \<in> set (stack s)" "num s y = low_num s x" "(x, y) \<in> E\<^sup>*"
      and le: "low_num s x \<le> num s x"
      using I(4) by (auto simp: low_ok_def)
    show "low_num ?t x \<le> num s x \<and>
        (\<exists>w \<in> set (stack s). num s w = low_num ?t x \<and> (x, w) \<in> E\<^sup>*)"
    proof (cases "x = v \<and> c \<in> set (stack s)")
      case True
      with vc y le show ?thesis by (auto simp: consume_low on min_def)
    next
      case False
      with y le show ?thesis by (auto simp: consume_low on)
    qed
  qed
  have scan': "scan_ok E ?t"
  proof -
    have "E `` {x} - pending ?t x \<subseteq> dom (index s)" if "x \<in> set (stack s)" for x
    proof -
      have "E `` {x} - pending s x \<subseteq> dom (index s)" using that I(5) by (simp add: scan_ok_def)
      moreover have "pending s x - pending ?t x \<subseteq> {c}" using pend by (auto split: if_splits)
      ultimately show ?thesis using c by blast
    qed
    moreover have "\<forall>(x, ds) \<in> set (work ?t). set ds \<subseteq> E `` {x}"
      using I(5) w by (auto simp: scan_ok_def consume_def)
    ultimately show ?thesis by (simp add: scan_ok_def fr)
  qed
  have cover': "cover_ok E ?t"
    unfolding cover_ok_def fr
  proof (intro allI impI)
    fix g x w'
    assume x: "x \<in> set (stack s)" and seg: "in_segment ?t g x" and e: "(x, w') \<in> E"
      and p: "w' \<notin> pending ?t x" and st: "w' \<in> set (stack s)"
    have seg': "in_segment s g x" using seg by (simp add: in_segment_def fr)
    have le: "low_num ?t g \<le> low_num s g" by (simp add: consume_low)
    show "low_num ?t g \<le> num s w'"
    proof (cases "x = v \<and> w' = c")
      case True
      then have "g = v" using in_segment_self [OF I(2,3) v(1)] seg' by simp
      with True st show ?thesis by (simp add: consume_low on)
    next
      case False
      then have "w' \<notin> pending s x" using p pend by (auto split: if_splits)
      then have "low_num s g \<le> num s w'"
        using I(8) x seg' e st by (auto simp: cover_ok_def)
      with le show ?thesis by simp
    qed
  qed
  show ?thesis
    using I num' low' scan' cover'
    by (simp add: tarjan_inv_def stack_ok_def open_ok_def up_ok_def down_ok_def fr)
qed

lemma scan_work:
  "scan (u\<lparr>work := w'\<rparr>) v ds = bind_r (scan u v ds) (\<lambda>(u', n). Inr (u'\<lparr>work := w'\<rparr>, n))"
proof (induction ds arbitrary: u)
  case (Cons d ds)
  have low: "scan (u\<lparr>work := w', low := l\<rparr>) v ds =
      bind_r (scan (u\<lparr>low := l\<rparr>) v ds) (\<lambda>(u', n). Inr (u'\<lparr>work := w'\<rparr>, n))" for l
  proof -
    have "u\<lparr>work := w', low := l\<rparr> = u\<lparr>low := l, work := w'\<rparr>" by (cases u) simp
    with Cons.IH [of "u\<lparr>low := l\<rparr>"] show ?thesis by (simp only:)
  qed
  show ?case
  proof (cases "index u d")
    case (Some j)
    then show ?thesis using Cons.IH [of u] low by (cases "low u v") (simp_all add: key_of_def)
  qed simp
qed simp

text \<open>The scan consumes numbered children; it stops at the first that is not numbered.\<close>

lemma scan_inv:
  assumes "tarjan_inv N E s" and "work s = (v, cs) # rest"
  shows "\<exists>s' nxt cs'. scan s v cs = Inr (s', nxt) \<and>
    tarjan_inv N E (s'\<lparr>work := (v, cs') # rest\<rparr>) \<and>
    (case nxt of None \<Rightarrow> cs' = []
     | Some (c, ds) \<Rightarrow> cs' = c # ds \<and> c \<notin> dom (index s'))"
  using assms
proof (induction cs arbitrary: s)
  case Nil
  then have eq: "s\<lparr>work := (v, []) # rest\<rparr> = s" by (cases s) simp
  show ?case
    by (rule exI [of _ s], rule exI [of _ None], rule exI [of _ "[]"]) (simp add: eq Nil)
next
  case (Cons c cs)
  show ?case
  proof (cases "index s c")
    case None
    from Cons.prems have eq: "s\<lparr>work := (v, c # cs) # rest\<rparr> = s" by (cases s) simp
    show ?thesis
      by (rule exI [of _ s], rule exI [of _ "Some (c, cs)"], rule exI [of _ "c # cs"])
        (simp add: eq Cons.prems None domIff)
  next
    case (Some i)
    let ?t = "consume v c cs rest s"
    have inv: "tarjan_inv N E ?t"
      using consume_inv [OF Cons.prems] Some by blast
    note I = tarjan_invD [OF Cons.prems(1)]
    have "v \<in> dom (low s)"
      using I(1,3) Cons.prems(2) by (auto simp: num_ok_def open_ok_def opened_def)
    then have key: "key_of (low s) v = Inr (low_num s v)"
      by (auto simp: key_of_def low_num_def)
    have i: "num s c = i" using Some by (simp add: num_def)
    have step: "scan s v (c # cs) = scan (?t\<lparr>work := work s\<rparr>) v cs"
      using Some key i by (simp add: consume_def)
    have "work ?t = (v, cs) # rest" by (simp add: consume_def)
    from Cons.IH [OF inv this] obtain s' nxt cs' where
      "scan ?t v cs = Inr (s', nxt)" "tarjan_inv N E (s'\<lparr>work := (v, cs') # rest\<rparr>)"
      "case nxt of None \<Rightarrow> cs' = [] | Some (c, ds) \<Rightarrow> cs' = c # ds \<and> c \<notin> dom (index s')"
      by blast
    then show ?thesis using step scan_work [where u = ?t and w' = "work s" and v = v and ds = cs]
      by (intro exI [of _ "s'\<lparr>work := work s\<rparr>"] exI [of _ nxt] exI [of _ cs']) (auto split: option.splits)
  qed
qed

subsection \<open>Entering a node\<close>

text \<open>Advancing past an unnumbered child and entering it are one step.\<close>

lemma enter_num: "num (enter nodes es c s) x = (if x = c then counter s else num s x)"
  by (simp add: enter_def num_def)

lemma enter_low: "low_num (enter nodes es c s) x = (if x = c then counter s else low_num s x)"
  by (simp add: enter_def low_num_def)

lemma enter_opened: "opened (enter nodes es c s) = insert c (opened s)"
  by (auto simp: enter_def opened_def)

text \<open>
  The frame of a state without the child that is entered. The stack may be empty (a root)
  or the child hangs below the top frame.
\<close>

lemma enter_inv:
  assumes inv: "tarjan_inv N E s" and c: "c \<notin> dom (index s)" "c \<in> N"
    and E: "E = {(u, w). w \<in> set (succs nodes es u)}"
    and w: "work s = [] \<and> t = s \<or> work s = (v, c # cs) # rest \<and> t = s\<lparr>work := (v, cs) # rest\<rparr>"
  shows "tarjan_inv N E (enter nodes es c t)"
proof -
  note I = tarjan_invD [OF inv]
  let ?u = "enter nodes es c t"
  have t: "index t = index s" "stack t = stack s" "comps t = comps s" "counter t = counter s"
    "low t = low s" "on_stack t = on_stack s" "opened t = opened s"
    using w by (elim disjE conjE; simp add: opened_def)+
  have nt: "num t = num s" "low_num t = low_num s"
    using t by (auto simp: num_def low_num_def)
  have cs: "c \<notin> set (stack s)" "c \<notin> opened s"
    using c I(1,3) by (auto simp: num_ok_def open_ok_def)
  have lt: "num s x < counter s" if "x \<in> set (stack s)" for x
    using I(1) that by (auto simp: num_ok_def)
  have op: "opened s \<subseteq> set (stack s)" using I(3) by (simp add: open_ok_def)
  have reach: "(g, c) \<in> E\<^sup>*" if "g \<in> opened s" for g
  proof -
    from that w have ws: "work s = (v, c # cs) # rest" by (auto simp: opened_def)
    then have "(v, c) \<in> E" using I(5) by (auto simp: scan_ok_def)
    with top_num_max(3) [OF I(3) ws that] show ?thesis by (rule rtrancl_into_rtrancl)
  qed
  have fields: "work ?u = (c, succs nodes es c) # work t" "stack ?u = c # stack s"
    "comps ?u = comps s" "index ?u = (index s)(c \<mapsto> counter s)"
    by (simp_all add: enter_def t)
  note pu = pending_Cons [OF fields(1)]
  have pt: "pending s x - {c} \<subseteq> pending t x" "x \<noteq> v \<Longrightarrow> pending s x \<subseteq> pending t x" for x
    using w pending_Cons [of s v "c # cs" rest x] pending_Cons [of t v cs rest x]
    by (elim disjE conjE; simp; blast)+
  have pend: "pending s x - {c} \<subseteq> pending ?u x" "x \<noteq> v \<Longrightarrow> pending s x \<subseteq> pending ?u x"
    "E `` {c} \<subseteq> pending ?u c" for x
    using pt [of x] by (auto simp: pu pending_iff E)
  have pend': "w' \<notin> pending ?u x \<Longrightarrow> w' \<notin> pending s x \<or> x = v \<and> w' = c" for x w'
    using pend(1,2) by blast
  have num': "num_ok ?u"
    using I(1) c t by (auto simp: num_ok_def enter_def done_nodes_def num_def less_Suc_eq)
  have stack': "stack_ok ?u"
    using I(2) lt cs by (auto simp: stack_ok_def enter_num nt t enter_def num_def
        intro: sorted_wrt_mono_rel [rotated])
  have open': "open_ok E ?u"
  proof -
    have "map fst (work t) = map fst (work s)" using w by auto
    then have "sorted_wrt (\<lambda>x y. num s y < num s x \<and> (y, x) \<in> E\<^sup>*) (map fst (work t))"
      using I(3) by (simp add: open_ok_def)
    then have "sorted_wrt (\<lambda>x y. num ?u y < num ?u x \<and> (y, x) \<in> E\<^sup>*) (map fst (work t))"
      by (rule sorted_wrt_mono_rel [rotated])
        (use cs t in \<open>auto simp: enter_num nt opened_def\<close>)
    moreover have members: "set (map fst (work t)) = opened s" using t by (simp add: opened_def)
    moreover have "map fst (work ?u) = c # map fst (work t)" by (simp add: enter_def)
    moreover have "num ?u y < num ?u c \<and> (y, c) \<in> E\<^sup>*" if "y \<in> opened s" for y
      using that op lt cs reach t by (auto simp: enter_num nt)
    ultimately have "sorted_wrt (\<lambda>x y. num ?u y < num ?u x \<and> (y, x) \<in> E\<^sup>*) (map fst (work ?u))"
      by (simp only: sorted_wrt.simps) blast
    moreover have "stack ?u = c # stack s" by (simp add: enter_def t)
    ultimately show ?thesis using op t by (auto simp: open_ok_def enter_opened)
  qed
  have low': "low_ok E ?u"
  proof -
    have "low_num ?u x \<le> num ?u x \<and>
        (\<exists>w \<in> set (stack ?u). num ?u w = low_num ?u x \<and> (x, w) \<in> E\<^sup>*)"
      if "x = c \<or> x \<in> set (stack s)" for x
    proof (cases "x = c")
      case True
      then show ?thesis by (simp add: fields enter_num enter_low)
    next
      case False
      with that I(4) obtain w where "low_num s x \<le> num s x" "w \<in> set (stack s)"
        "num s w = low_num s x" "(x, w) \<in> E\<^sup>*" by (auto simp: low_ok_def)
      with False cs show ?thesis by (auto simp: fields enter_num enter_low nt)
    qed
    then show ?thesis by (auto simp: low_ok_def fields)
  qed
  have scan': "scan_ok E ?u"
  proof -
    have "E `` {x} - pending ?u x \<subseteq> dom (index ?u)" if "x \<in> set (stack ?u)" for x
    proof (cases "x = c")
      case True
      with pend(3) show ?thesis by blast
    next
      case False
      with that t have "E `` {x} - pending s x \<subseteq> dom (index s)"
        using I(5) by (auto simp: scan_ok_def enter_def)
      moreover have "dom (index ?u) = insert c (dom (index s))" by (auto simp: enter_def t)
      ultimately show ?thesis using pend'[of _ x] by blast
    qed
    moreover have "\<forall>(x, ds) \<in> set (work ?u). set ds \<subseteq> E `` {x}"
    proof -
      have "\<forall>(x, ds) \<in> set (work t). set ds \<subseteq> E `` {x}"
        using I(5) w by (elim disjE conjE) (simp_all add: scan_ok_def)
      moreover have "set (succs nodes es c) \<subseteq> E `` {c}" by (auto simp: E)
      ultimately show ?thesis by (simp add: fields)
    qed
    ultimately show ?thesis by (simp add: scan_ok_def)
  qed
  have up': "up_ok E ?u"
  proof -
    have "\<exists>g \<in> opened ?u. num ?u g \<le> num ?u x \<and> (x, g) \<in> E\<^sup>*" if "x \<in> set (stack s)" for x
    proof -
      from I(6) that obtain g where g: "g \<in> opened s" "num s g \<le> num s x" "(x, g) \<in> E\<^sup>*"
        by (auto simp: up_ok_def)
      moreover have "g \<noteq> c" "x \<noteq> c" using g(1) that cs by auto
      ultimately show ?thesis by (auto simp: enter_opened enter_num nt t)
    qed
    then show ?thesis by (auto simp: up_ok_def enter_opened t) (auto simp: fields)
  qed
  have down': "down_ok E ?u"
    unfolding down_ok_def
  proof (intro ballI impI)
    fix g x assume g: "g \<in> opened ?u" and x: "x \<in> set (stack ?u)" and le: "num ?u g \<le> num ?u x"
    from g x have "g = c \<or> g \<in> opened s" "x = c \<or> x \<in> set (stack s)"
      by (auto simp: enter_opened t) (auto simp: enter_def t)
    then consider "x = c" | "g = c" "x \<in> set (stack s)" "x \<noteq> c" | "g \<in> opened s" "x \<in> set (stack s)"
      "g \<noteq> c" "x \<noteq> c" using cs by blast
    then show "(g, x) \<in> E\<^sup>*"
    proof cases
      case 1
      with g reach show ?thesis by (auto simp: enter_opened t)
    next
      case 2
      with le lt [of x] show ?thesis by (simp add: enter_num nt t)
    next
      case 3
      with le I(7) show ?thesis by (auto simp: down_ok_def enter_num nt)
    qed
  qed
  have cover': "cover_ok E ?u"
    unfolding cover_ok_def
  proof (intro allI impI)
    fix g x w'
    assume x: "x \<in> set (stack ?u)" and seg: "in_segment ?u g x" and e: "(x, w') \<in> E"
      and p: "w' \<notin> pending ?u x" and st: "w' \<in> set (stack ?u)"
    have xc: "x \<noteq> c" using p e pend(3) by auto
    with x have x: "x \<in> set (stack s)" by (auto simp: enter_def t)
    have gc: "g \<noteq> c"
      using seg lt [OF x] xc by (auto simp: in_segment_def enter_num nt t)
    have seg': "in_segment s g x"
      using seg gc xc cs by (auto simp: in_segment_def enter_opened enter_num nt t split: if_splits)
    have g: "g \<in> set (stack s)" using seg' op by (auto simp: in_segment_def)
    show "low_num ?u g \<le> num ?u w'"
    proof (cases "w' = c")
      case True
      have "low_num s g \<le> num s g" using I(4) g by (simp add: low_ok_def)
      with True gc lt [OF g] show ?thesis by (simp add: enter_low enter_num nt t)
    next
      case False
      with st have "w' \<in> set (stack s)" by (auto simp: enter_def t)
      moreover have "w' \<notin> pending s x" using pend' [OF p] False by blast
      ultimately have "low_num s g \<le> num s w'"
        using I(8) x seg' e by (auto simp: cover_ok_def)
      with False gc show ?thesis by (simp add: enter_low enter_num nt)
    qed
  qed
  have "dom (index ?u) \<subseteq> N" and "emitted E {} (comps ?u)"
    using I(9,10) c t by (auto simp: enter_def)
  with num' stack' open' low' scan' up' down' cover' show ?thesis
    by (simp add: tarjan_inv_def)
qed

subsection \<open>Leaving a node\<close>

text \<open>The frame of \<open>v\<close> is popped and its low value handed to the frame below.\<close>

definition retire :: "'a \<Rightarrow> ('a \<times> 'a list) list \<Rightarrow> 'a tarjan \<Rightarrow> 'a tarjan" where
  "retire v rest s = s\<lparr>work := rest,
     low := (case rest of [] \<Rightarrow> low s
       | (p, _) # _ \<Rightarrow> (low s)(p \<mapsto> min (low_num s p) (low_num s v)))\<rparr>"

lemma retire_frame:
  "index (retire v rest s) = index s" "stack (retire v rest s) = stack s"
  "comps (retire v rest s) = comps s" "counter (retire v rest s) = counter s"
  "on_stack (retire v rest s) = on_stack s" "num (retire v rest s) = num s"
  "work (retire v rest s) = rest" "done_nodes (retire v rest s) = done_nodes s"
  by (simp_all add: retire_def num_def fun_eq_iff done_nodes_def)

lemma retire_low:
  "low_num (retire v rest s) x =
     (if rest \<noteq> [] \<and> x = fst (hd rest) then min (low_num s x) (low_num s v) else low_num s x)"
  by (auto simp: retire_def low_num_def split: list.splits)

lemma top_frame:
  assumes inv: "tarjan_inv N E s" and w: "work s = (v, []) # rest"
  shows "v \<in> opened s" "v \<in> set (stack s)"
    "opened (retire v rest s) = opened s - {v}" "\<forall>x \<in> opened s - {v}. num s x < num s v"
    "\<And>x. num s v \<le> num s x \<Longrightarrow> pending s x = {}"
    "pending (retire v rest s) = pending s"
    "\<And>x. num s v \<le> num s x \<Longrightarrow> in_segment s v x"
proof -
  note I = tarjan_invD [OF inv]
  note top = top_num_max [OF I(3) w]
  show v: "v \<in> opened s" using w by (simp add: opened_def)
  then show "v \<in> set (stack s)" using I(3) by (auto simp: open_ok_def)
  have "v \<notin> fst ` set rest" using top_unique [OF I(3) w] by auto
  then show "opened (retire v rest s) = opened s - {v}"
    using w by (auto simp: opened_def retire_frame)
  show "\<forall>x \<in> opened s - {v}. num s x < num s v" using top(2) by blast
  show "pending s x = {}" if "num s v \<le> num s x" for x
  proof (cases "x \<in> opened s")
    case True
    with that top(2) have "x = v" by (meson leD)
    with top_unique [OF I(3) w] w show ?thesis by (auto simp: pending_iff)
  next
    case False
    then show ?thesis by (force simp: pending_iff opened_def)
  qed
  show "pending (retire v rest s) = pending s"
    using w by (auto simp: fun_eq_iff set_eq_iff pending_iff retire_frame)
  show "in_segment s v x" if "num s v \<le> num s x" for x
    using that v top(1) by (auto simp: in_segment_def)
qed

lemma lower_parent_retire:
  assumes inv: "tarjan_inv N E s" and w: "work s = (v, []) # rest"
  shows "lower_parent v (s\<lparr>work := rest\<rparr>) = Inr (retire v rest s)"
    and "key_of (low (retire v rest s)) v = Inr (low_num s v)"
    and "key_of (index (retire v rest s)) v = Inr (num s v)"
proof -
  note I = tarjan_invD [OF inv]
  have dom: "x \<in> dom (low s)" "x \<in> dom (index s)" if "x \<in> opened s" for x
    using that I(1,3) by (auto simp: num_ok_def open_ok_def)
  have key: "key_of (low s) x = Inr (low_num s x)" if "x \<in> opened s" for x
    using dom(1) [OF that] by (auto simp: key_of_def low_num_def)
  have v: "v \<in> opened s" using w by (simp add: opened_def)
  show "lower_parent v (s\<lparr>work := rest\<rparr>) = Inr (retire v rest s)"
  proof (cases rest)
    case Nil
    then show ?thesis by (cases s) (simp add: lower_parent_def retire_def)
  next
    case (Cons q rest')
    obtain p ds where q: "q = (p, ds)" by (cases q)
    have "p \<in> opened s" using w Cons q by (simp add: opened_def)
    then show ?thesis using v by (simp add: lower_parent_def retire_def Cons q key)
  qed
  have "low (retire v rest s) v = low s v"
  proof (cases rest)
    case (Cons q rest')
    have "v \<noteq> fst q" using top_unique [OF I(3) w, of "snd q"] Cons by auto
    then show ?thesis by (cases q) (simp add: retire_def Cons)
  qed (simp add: retire_def)
  then show "key_of (low (retire v rest s)) v = Inr (low_num s v)"
    using key [OF v] by (simp add: key_of_def)
  show "key_of (index (retire v rest s)) v = Inr (num s v)"
    using dom(2) [OF v] by (auto simp: key_of_def num_def retire_frame)
qed

text \<open>A node whose low value is smaller than its number stays on the stack.\<close>

lemma stay_inv:
  assumes inv: "tarjan_inv N E s" and w: "work s = (v, []) # rest" and lt: "low_num s v < num s v"
  shows "tarjan_inv N E (retire v rest s)"
proof -
  note I = tarjan_invD [OF inv]
  note T = top_frame [OF inv w]
  let ?u = "retire v rest s"
  from I(4) T(2) obtain y where y: "y \<in> set (stack s)" "num s y = low_num s v" "(v, y) \<in> E\<^sup>*"
    by (auto simp: low_ok_def)
  from I(6) y(1) obtain h where h: "h \<in> opened s" "num s h \<le> num s y" "(y, h) \<in> E\<^sup>*"
    by (auto simp: up_ok_def)
  have hv: "h \<noteq> v" using h(2) y(2) lt by auto
  then obtain p ds rest' where r: "rest = (p, ds) # rest'"
    using h(1) w by (cases rest) (auto simp: opened_def)
  have p: "p \<in> opened s" "p \<noteq> v" "(p, v) \<in> E\<^sup>*" "p \<in> set (stack s)"
    using w r I(3) top_num_max(3) [OF I(3) w] by (auto simp: opened_def open_ok_def)
  have low: "low_num ?u x = (if x = p then min (low_num s p) (low_num s v) else low_num s x)" for x
    by (simp add: retire_low r)
  have p_max: "num s g \<le> num s p" if "g \<in> opened s - {v}" for g
    using that I(3) w r by (auto simp: open_ok_def opened_def dest: less_imp_le)
  have "dom (low ?u) = dom (index s)"
    using I(1) p(4) by (auto simp: retire_def r num_ok_def)
  then have num': "num_ok ?u" using I(1) by (simp add: num_ok_def retire_frame)
  have open': "open_ok E ?u"
    using I(3) w T(3) by (auto simp: open_ok_def retire_frame)
  have low': "low_ok E ?u"
    unfolding low_ok_def retire_frame
  proof
    fix x assume x: "x \<in> set (stack s)"
    with I(4) obtain z where z: "low_num s x \<le> num s x" "z \<in> set (stack s)"
      "num s z = low_num s x" "(x, z) \<in> E\<^sup>*" by (auto simp: low_ok_def)
    show "low_num ?u x \<le> num s x \<and>
        (\<exists>w \<in> set (stack s). num s w = low_num ?u x \<and> (x, w) \<in> E\<^sup>*)"
    proof (cases "x = p \<and> low_num s v < low_num s p")
      case True
      moreover have "(p, y) \<in> E\<^sup>*" using p(3) y(3) by (rule rtrancl_trans)
      ultimately show ?thesis using y z by (auto simp: low)
    next
      case False
      with z show ?thesis by (auto simp: low min_def)
    qed
  qed
  have scan': "scan_ok E ?u"
    using I(5) w T(6) by (simp add: scan_ok_def retire_frame)
  have up': "up_ok E ?u"
    unfolding up_ok_def retire_frame T(3)
  proof
    fix x assume "x \<in> set (stack s)"
    with I(6) obtain g where g: "g \<in> opened s" "num s g \<le> num s x" "(x, g) \<in> E\<^sup>*"
      by (auto simp: up_ok_def)
    show "\<exists>g \<in> opened s - {v}. num s g \<le> num s x \<and> (x, g) \<in> E\<^sup>*"
    proof (cases "g = v")
      case True
      with g(3) y(3) h(3) have "(x, h) \<in> E\<^sup>*" by (meson rtrancl_trans)
      moreover have "num s h \<le> num s x" using True g(2) h(2) y(2) lt by simp
      ultimately show ?thesis using h(1) hv by blast
    next
      case False
      with g show ?thesis by blast
    qed
  qed
  have cover': "cover_ok E ?u"
    unfolding cover_ok_def retire_frame T(6)
  proof (intro allI impI)
    fix g x w'
    assume x: "x \<in> set (stack s)" and seg: "in_segment ?u g x" and e: "(x, w') \<in> E"
      "w' \<notin> pending s x" "w' \<in> set (stack s)"
    have g: "g \<in> opened s - {v}" "num s g \<le> num s x"
      "\<And>k. k \<in> opened s - {v} \<Longrightarrow> num s k \<le> num s x \<Longrightarrow> num s k \<le> num s g"
      using seg by (auto simp: in_segment_def retire_frame T(3))
    show "low_num ?u g \<le> num s w'"
    proof (cases "num s v \<le> num s x")
      case True
      have "num s p < num s v" using T(4) p by blast
      then have "num s g = num s p" using g p p_max True by (intro antisym) auto
      moreover have "g \<in> set (stack s)" using g(1) I(3) by (auto simp: open_ok_def)
      ultimately have "g = p" using stack_num_inj [OF I(2) _ p(4)] by blast
      moreover have "low_num s v \<le> num s w'"
        using I(8) x T(7) [OF True] e by (auto simp: cover_ok_def)
      ultimately show ?thesis by (simp add: low)
    next
      case False
      with g have "in_segment s g x" by (auto simp: in_segment_def)
      then have "low_num s g \<le> num s w'" using I(8) x e by (auto simp: cover_ok_def)
      then show ?thesis by (auto simp: low)
    qed
  qed
  show ?thesis
    using I num' open' low' scan' up' cover'
    by (simp add: tarjan_inv_def stack_ok_def down_ok_def retire_frame T(3))
qed

subsection \<open>Closing a component\<close>

lemma pop_until_split:
  "v \<in> set st \<Longrightarrow> \<exists>c r. pop_until v st = Inr (c @ [v], r) \<and> st = c @ v # r"
proof (induction st)
  case (Cons m st)
  show ?case
  proof (cases "m = v")
    case True
    then show ?thesis by (intro exI [of _ "[]"] exI [of _ st]) simp
  next
    case False
    with Cons obtain c r where "pop_until v st = Inr (c @ [v], r)" "st = c @ v # r" by auto
    with False show ?thesis by (intro exI [of _ "m # c"] exI [of _ r]) simp
  qed
qed simp

lemma close_inv:
  assumes inv: "tarjan_inv N E s" and w: "work s = (v, []) # rest" and eq: "low_num s v = num s v"
  shows "\<exists>s'. close_component v (retire v rest s) = Inr s' \<and> tarjan_inv N E s'"
proof -
  note I = tarjan_invD [OF inv]
  note T = top_frame [OF inv w]
  from pop_until_split [OF T(2)] obtain c r where pop: "pop_until v (stack s) = Inr (c @ [v], r)"
    and st: "stack s = c @ v # r" by blast
  let ?c = "c @ [v]"
  let ?u = "(retire v rest s)\<lparr>stack := r, on_stack := set_minus (on_stack s) ?c,
    comps := comps s @ [?c]\<rparr>"
  have close: "close_component v (retire v rest s) = Inr ?u"
    by (simp add: close_component_def retire_frame pop)
  have fr: "index ?u = index s" "stack ?u = r" "comps ?u = comps s @ [?c]" "counter ?u = counter s"
    "num ?u = num s" "work ?u = rest" "opened ?u = opened s - {v}" "pending ?u = pending s"
    "done_nodes ?u = done_nodes s \<union> set ?c" "dom (low ?u) = dom (low (retire v rest s))"
    using T(3,6) by (auto simp: retire_frame num_def fun_eq_iff opened_def done_nodes_def pending_def)
  have high: "num s v \<le> num s x" if "x \<in> set ?c" for x
    using that I(2) by (auto simp: stack_ok_def st sorted_wrt_append dest: less_imp_le)
  have less: "num s x < num s v" if "x \<in> set r" for x
    using that I(2) by (auto simp: stack_ok_def st sorted_wrt_append)
  have dist: "distinct (stack s)" using stack_distinct [OF I(2)] .
  have mem: "x \<in> set (stack s) \<longleftrightarrow> x \<in> set ?c \<or> x \<in> set r" for x by (auto simp: st)
  have low_u: "low_num ?u x = low_num s x" if "x \<in> set r" for x
  proof -
    have "low_num s x \<le> num s x" using I(4) that mem by (auto simp: low_ok_def)
    with less [OF that] eq have "min (low_num s x) (low_num s v) = low_num s x" by simp
    then have "low_num (retire v rest s) x = low_num s x" by (auto simp: retire_low)
    then show ?thesis by (simp add: low_num_def)
  qed
  have below: "g \<noteq> v" if "num s g \<le> num s x" "x \<in> set r" for g x
    using that less [OF that(2)] by auto
  have keep: "opened s - {v} \<subseteq> set r"
  proof
    fix x assume x: "x \<in> opened s - {v}"
    then have "x \<in> set (stack s)" "num s x < num s v" using I(3) T(4) by (auto simp: open_ok_def)
    then show "x \<in> set r" using mem high by (meson leD)
  qed
  have conn: "connected E ?c"
  proof -
    have "(v, x) \<in> E\<^sup>*" if "x \<in> set ?c" for x
      using I(7) T(1) that mem high by (auto simp: down_ok_def)
    moreover have "(x, v) \<in> E\<^sup>*" if "x \<in> set ?c" for x
    proof -
      from that mem have "x \<in> set (stack s)" by blast
      with I(6) obtain g where "g \<in> opened s" "(x, g) \<in> E\<^sup>*" by (auto simp: up_ok_def)
      with top_num_max(3) [OF I(3) w] show ?thesis by (meson rtrancl_trans)
    qed
    ultimately have "(x, y) \<in> E\<^sup>*" if "x \<in> set ?c" "y \<in> set ?c" for x y
      using that by (blast intro: rtrancl_trans)
    then show ?thesis by (simp add: connected_def)
  qed
  have closed: "E `` set ?c \<subseteq> done_nodes s \<union> set ?c"
  proof
    fix y assume "y \<in> E `` set ?c"
    then obtain x where x: "x \<in> set ?c" "(x, y) \<in> E" by blast
    have xs: "x \<in> set (stack s)" using x mem by blast
    have p: "pending s x = {}" using T(5) high [OF x(1)] by blast
    have "E `` {x} - pending s x \<subseteq> dom (index s)" using I(5) xs by (simp add: scan_ok_def)
    with p x(2) have "y \<in> dom (index s)" by blast
    moreover have "y \<notin> set r"
    proof
      assume y: "y \<in> set r"
      then have "y \<in> set (stack s)" using mem by blast
      then have "low_num s v \<le> num s y"
        using I(8) [unfolded cover_ok_def, rule_format, OF xs T(7) [OF high [OF x(1)]] x(2)] p
        by simp
      with less [OF y] eq show False by simp
    qed
    moreover have "dom (index s) = set (stack s) \<union> done_nodes s" using I(1) by (simp add: num_ok_def)
    ultimately show "y \<in> done_nodes s \<union> set ?c" using mem [of y] by blast
  qed
  have disj: "set ?c \<inter> done_nodes s = {}" using I(1) by (auto simp: num_ok_def st)
  have "emitted E {} (comps ?u)"
    using I(9) conn closed disj dist by (simp add: emitted_append fr done_nodes_def [symmetric] st)
  moreover have "num_ok ?u"
  proof -
    have "dom (low (retire v rest s)) = dom (index s)"
      using I(1,3) w by (auto simp: retire_def num_ok_def open_ok_def opened_def split: list.splits)
    moreover have "dom (index s) = set r \<union> (done_nodes s \<union> set ?c)"
      using I(1) by (auto simp: num_ok_def st)
    moreover have "set r \<inter> (done_nodes s \<union> set ?c) = {}"
      using I(1) dist by (auto simp: num_ok_def st)
    moreover have "set (on_stack ?u) = set r"
      using I(1) dist by (auto simp: num_ok_def st)
    moreover have "\<forall>x \<in> dom (index s). num s x < counter s"
      using I(1) by (simp add: num_ok_def)
    ultimately show ?thesis unfolding num_ok_def fr by blast
  qed
  moreover have "stack_ok ?u" using I(2) by (simp add: stack_ok_def fr st sorted_wrt_append)
  moreover have "open_ok E ?u" using I(3) keep w by (simp add: open_ok_def fr)
  moreover have "low_ok E ?u"
    unfolding low_ok_def fr
  proof
    fix x assume x: "x \<in> set r"
    with I(4) mem obtain y where y: "y \<in> set (stack s)" "num s y = low_num s x" "(x, y) \<in> E\<^sup>*"
      "low_num s x \<le> num s x" by (auto simp: low_ok_def)
    then have "num s y < num s v" using less [OF x] by simp
    with y(1) mem high have "y \<in> set r" by (meson leD)
    with y show "low_num ?u x \<le> num s x \<and>
        (\<exists>w \<in> set r. num s w = low_num ?u x \<and> (x, w) \<in> E\<^sup>*)" by (auto simp: low_u [OF x])
  qed
  moreover have "scan_ok E ?u"
    using I(5) w mem by (auto simp: scan_ok_def fr)
  moreover have "up_ok E ?u"
    using I(6) mem below by (fastforce simp: up_ok_def fr)
  moreover have "down_ok E ?u" using I(7) mem by (simp add: down_ok_def fr)
  moreover have "cover_ok E ?u"
    unfolding cover_ok_def fr
  proof (intro allI impI)
    fix g x w'
    assume x: "x \<in> set r" and seg: "in_segment ?u g x" and e: "(x, w') \<in> E"
      "w' \<notin> pending s x" "w' \<in> set r"
    have "in_segment s g x"
      using seg below x by (auto simp: in_segment_def fr)
    then have "low_num s g \<le> num s w'" using I(8) x e mem by (auto simp: cover_ok_def)
    moreover have "g \<in> set r" using seg keep by (auto simp: in_segment_def fr)
    ultimately show "low_num ?u g \<le> num s w'" by (simp add: low_u)
  qed
  moreover have "dom (index ?u) \<subseteq> N" using I(10) by (simp add: fr)
  ultimately have "tarjan_inv N E ?u" by (simp add: tarjan_inv_def)
  with close show ?thesis by blast
qed

subsection \<open>The loops\<close>

lemma finish_inv:
  assumes inv: "tarjan_inv N E s" and w: "work s = (v, []) # rest"
  shows "\<exists>s'. finish v (s\<lparr>work := rest\<rparr>) = Inr s' \<and> tarjan_inv N E s'"
proof -
  note R = lower_parent_retire [OF inv w]
  have "low_num s v \<le> num s v"
    using tarjan_invD(4) [OF inv] top_frame(2) [OF inv w] by (auto simp: low_ok_def)
  then consider "low_num s v = num s v" | "low_num s v < num s v" by linarith
  then show ?thesis
  proof cases
    case 1
    with close_inv [OF inv w] show ?thesis by (simp add: finish_def R)
  next
    case 2
    with stay_inv [OF inv w] show ?thesis by (simp add: finish_def R)
  qed
qed

definition edge_rel :: "'a::linorder list \<Rightarrow> ('a, 'a list) dict \<Rightarrow> ('a \<times> 'a) set" where
  "edge_rel nodes es = {(u, w). w \<in> set (succs nodes es u)}"

lemma tarjan_step_inv:
  assumes inv: "tarjan_inv (set nodes) (edge_rel nodes es) s"
  shows "\<exists>s'. tarjan_step nodes es s = Inr s' \<and> tarjan_inv (set nodes) (edge_rel nodes es) s'"
proof (cases "work s")
  case Nil
  with inv show ?thesis by (simp add: tarjan_step_def)
next
  case (Cons f rest)
  obtain v cs where f: "f = (v, cs)" by (cases f)
  note w = Cons [unfolded f]
  let ?E = "edge_rel nodes es"
  from scan_inv [OF inv w] obtain s1 nxt cs' where
    sc: "scan s v cs = Inr (s1, nxt)" and inv1: "tarjan_inv (set nodes) ?E (s1\<lparr>work := (v, cs') # rest\<rparr>)"
    and nxt: "case nxt of None \<Rightarrow> cs' = [] | Some (c, ds) \<Rightarrow> cs' = c # ds \<and> c \<notin> dom (index s1)"
    by blast
  show ?thesis
  proof (cases nxt)
    case None
    with nxt finish_inv [OF inv1] sc w show ?thesis by (simp add: tarjan_step_def)
  next
    case (Some p)
    obtain c ds where p: "p = (c, ds)" by (cases p)
    with Some nxt have c: "cs' = c # ds" "c \<notin> dom (index s1)" by auto
    let ?s = "s1\<lparr>work := (v, cs') # rest\<rparr>"
    have "c \<in> ?E `` {v}"
      using tarjan_invD(5) [OF inv1] c(1) by (auto simp: scan_ok_def)
    then have "c \<in> set nodes" by (simp add: edge_rel_def set_succs)
    moreover have "s1\<lparr>work := (v, ds) # rest\<rparr> = ?s\<lparr>work := (v, ds) # rest\<rparr>" by simp
    ultimately have "tarjan_inv (set nodes) ?E (enter nodes es c (s1\<lparr>work := (v, ds) # rest\<rparr>))"
      using c by (intro enter_inv [OF inv1]) (auto simp: edge_rel_def)
    with sc w Some p show ?thesis by (simp add: tarjan_step_def)
  qed
qed

lemma tarjan_loop_inv:
  "tarjan_inv (set nodes) (edge_rel nodes es) s \<Longrightarrow>
     \<exists>s'. tarjan_loop nodes es s = Inr s' \<and> tarjan_inv (set nodes) (edge_rel nodes es) s' \<and>
       work s' = [] \<and> dom (index s) \<subseteq> dom (index s')"
proof (induction nodes es s rule: tarjan_loop.induct)
  case (1 nodes es s)
  show ?case
  proof (cases "work s = []")
    case True
    with 1 show ?thesis by (simp add: tarjan_loop.simps)
  next
    case False
    from tarjan_step_inv [OF "1.prems"] obtain s1 where s1: "tarjan_step nodes es s = Inr s1"
      "tarjan_inv (set nodes) (edge_rel nodes es) s1" by blast
    have "dom (index s) \<subseteq> dom (index s1)"
      using s1(1) False by (auto simp: tarjan_step_def bind_r_Inr enter_def split: list.splits
          option.splits dest!: scan_frame finish_frame)
    with "1.IH" [OF False s1(1) s1(2)] False s1(1) show ?thesis
      by (subst tarjan_loop.simps) auto
  qed
qed

lemma visit_new_inv:
  assumes "tarjan_inv (set nodes) (edge_rel nodes es) s" and "work s = []" and "v \<in> set nodes"
  shows "\<exists>s'. visit_new nodes es v s = Inr s' \<and> tarjan_inv (set nodes) (edge_rel nodes es) s' \<and>
    work s' = [] \<and> insert v (dom (index s)) \<subseteq> dom (index s')"
proof (cases "index s v")
  case None
  have s: "s\<lparr>work := []\<rparr> = s" using assms(2) by (cases s) simp
  have "tarjan_inv (set nodes) (edge_rel nodes es) (enter nodes es v s)"
    by (rule enter_inv [OF assms(1)]) (use None assms in \<open>auto simp: edge_rel_def\<close>)
  from tarjan_loop_inv [OF this] None show ?thesis
    by (auto simp: visit_new_def visit_def s) (auto simp: enter_def)
next
  case (Some i)
  with assms show ?thesis by (auto simp: visit_new_def)
qed

text \<open>Sorting out every node leaves nothing open and every node in a component.\<close>

lemma visit_all:
  assumes "tarjan_inv (set nodes) (edge_rel nodes es) s" and "work s = []" and "set vs \<subseteq> set nodes"
  shows "\<exists>s'. fold_r (visit_new nodes es) vs s = Inr s' \<and>
    tarjan_inv (set nodes) (edge_rel nodes es) s' \<and> work s' = [] \<and>
    set vs \<union> dom (index s) \<subseteq> dom (index s')"
  using assms
proof (induction vs arbitrary: s)
  case Nil
  then show ?case by simp
next
  case (Cons v vs)
  then have "v \<in> set nodes" by simp
  from visit_new_inv [OF Cons.prems(1,2) this] obtain s1 where s1: "visit_new nodes es v s = Inr s1"
    "tarjan_inv (set nodes) (edge_rel nodes es) s1" "work s1 = []"
    "insert v (dom (index s)) \<subseteq> dom (index s1)" by blast
  from Cons.prems(3) have "set vs \<subseteq> set nodes" by simp
  from Cons.IH [OF s1(2,3) this] obtain s2 where s2: "fold_r (visit_new nodes es) vs s1 = Inr s2"
    "tarjan_inv (set nodes) (edge_rel nodes es) s2" "work s2 = []"
    "set vs \<union> dom (index s1) \<subseteq> dom (index s2)" by blast
  from s1(4) s2(4) have "set (v # vs) \<union> dom (index s) \<subseteq> dom (index s2)"
    unfolding list.set by blast
  moreover have "fold_r (visit_new nodes es) (v # vs) s = Inr s2" using s1(1) s2(1) by simp
  ultimately show ?case using s2(2,3) by blast
qed

theorem components_emitted:
  "\<exists>cs. components nodes es = Inr cs \<and> \<Union> (set ` set cs) = set nodes \<and>
     emitted (edge_rel nodes es) {} cs"
proof -
  note visit_all [OF start_inv [of "set nodes" "edge_rel nodes es"], of "sorted_set nodes"]
  then have "\<exists>s. fold_r (visit_new nodes es) (sorted_set nodes) tarjan_start = Inr s \<and>
      tarjan_inv (set nodes) (edge_rel nodes es) s \<and> work s = [] \<and> set nodes \<subseteq> dom (index s)"
    by (simp add: tarjan_start_def)
  then obtain s where s: "fold_r (visit_new nodes es) (sorted_set nodes) tarjan_start = Inr s"
    "tarjan_inv (set nodes) (edge_rel nodes es) s" "work s = []" "set nodes \<subseteq> dom (index s)"
    by blast
  note I = tarjan_invD [OF s(2)]
  have "set (stack s) = {}"
    using I(6) s(3) by (auto simp: up_ok_def opened_def)
  then have "dom (index s) = done_nodes s" using I(1) by (simp add: num_ok_def)
  with I(10) s(4) have "\<Union> (set ` set (comps s)) = set nodes" by (simp add: done_nodes_def)
  moreover have "components nodes es = Inr (comps s)" by (simp add: components_def s(1))
  ultimately show ?thesis using I(9) by blast
qed

subsection \<open>What a caller may rely on\<close>

text \<open>Two nodes are strongly connected when each is reachable from the other.\<close>

definition mutual :: "('a \<times> 'a) set \<Rightarrow> 'a \<Rightarrow> 'a \<Rightarrow> bool" where
  "mutual E x y \<longleftrightarrow> (x, y) \<in> E\<^sup>* \<and> (y, x) \<in> E\<^sup>*"

lemma emitted_outside: "emitted E D cs \<Longrightarrow> c \<in> set cs \<Longrightarrow> set c \<inter> D = {}"
  by (induction cs arbitrary: D) auto

lemma emitted_disjoint:
  "emitted E D cs \<Longrightarrow> i < j \<Longrightarrow> j < length cs \<Longrightarrow> set (cs ! i) \<inter> set (cs ! j) = {}"
proof (induction cs arbitrary: D i j)
  case (Cons c cs)
  from Cons.prems(2) obtain k where k: "j = Suc k" by (cases j) auto
  with Cons.prems(3) have "cs ! k \<in> set cs" by simp
  with Cons.prems(1) have "set (cs ! k) \<inter> (D \<union> set c) = {}" by (intro emitted_outside) auto
  with Cons.IH [of "D \<union> set c" "i - 1" k] Cons.prems k show ?case by (cases i) auto
qed simp

lemma emitted_edges:
  "emitted E D cs \<Longrightarrow> i < length cs \<Longrightarrow>
     E `` set (cs ! i) \<subseteq> D \<union> \<Union> (set ` set (take (Suc i) cs))"
proof (induction cs arbitrary: D i)
  case (Cons c cs)
  show ?case
  proof (cases i)
    case 0
    with Cons.prems show ?thesis by auto
  next
    case (Suc k)
    with Cons.IH [of "D \<union> set c" k] Cons.prems show ?thesis by auto
  qed
qed simp

lemma emitted_blocks:
  "emitted E D cs \<Longrightarrow> c \<in> set cs \<Longrightarrow> connected E c \<and> distinct c"
  by (induction cs arbitrary: D) auto

text \<open>Reachability never leads from a component to a later one.\<close>

lemma emitted_reach:
  assumes em: "emitted E {} cs" and i: "i < length cs" "x \<in> set (cs ! i)" and xy: "(x, y) \<in> E\<^sup>*"
  shows "\<exists>j \<le> i. y \<in> set (cs ! j)"
  using xy
proof induction
  case base
  with i show ?case by blast
next
  case (step y z)
  then obtain j where j: "j \<le> i" "y \<in> set (cs ! j)" by blast
  with i have jl: "j < length cs" by simp
  from emitted_edges [OF em jl] j(2) step(2) have "z \<in> \<Union> (set ` set (take (Suc j) cs))" by blast
  then obtain c where c: "c \<in> set (take (Suc j) cs)" "z \<in> set c" by blast
  then obtain k where "k < Suc j" "cs ! k = c" by (auto simp: in_set_conv_nth)
  with c j(1) show ?case by (intro exI [of _ k]) auto
qed

theorem components_mutual:
  assumes cs: "components nodes es = Inr cs" and c: "c \<in> set cs" "x \<in> set c"
  shows "y \<in> set c \<longleftrightarrow> y \<in> set nodes \<and> mutual (edge_rel nodes es) x y"
proof
  let ?E = "edge_rel nodes es"
  from components_emitted [of nodes es] cs have em: "emitted ?E {} cs"
    and cover: "\<Union> (set ` set cs) = set nodes" by auto
  show "y \<in> set nodes \<and> mutual ?E x y" if "y \<in> set c"
    using that c cover emitted_blocks [OF em c(1)] by (auto simp: connected_def mutual_def)
  assume y: "y \<in> set nodes \<and> mutual ?E x y"
  from c(1) obtain i where i: "i < length cs" "cs ! i = c" by (auto simp: in_set_conv_nth)
  from y cover obtain d where "d \<in> set cs" "y \<in> set d" by auto
  then obtain j where j: "j < length cs" "y \<in> set (cs ! j)"
    by (auto simp: in_set_conv_nth [of d])
  from y have xy: "(x, y) \<in> ?E\<^sup>*" "(y, x) \<in> ?E\<^sup>*" by (simp_all add: mutual_def)
  have dis: "a = b" if "a < length cs" "b < length cs" "z \<in> set (cs ! a)" "z \<in> set (cs ! b)" for a b z
    using emitted_disjoint [OF em] that by (metis disjoint_iff linorder_neqE_nat)
  from emitted_reach [OF em i(1) _ xy(1)] i c(2) obtain j' where "j' \<le> i" "y \<in> set (cs ! j')" by auto
  with dis j i(1) have "j \<le> i" by (metis le_less_trans)
  moreover from emitted_reach [OF em j xy(2)] obtain i' where "i' \<le> j" "x \<in> set (cs ! i')" by auto
  with dis j(1) i c(2) have "i \<le> j" by (metis le_less_trans)
  ultimately show "y \<in> set c" using i j by simp
qed

end
