(* ===== verification/Build_Waves.thy ===== *)
theory Build_Waves
  imports Build_Graph Scc_Correct
begin

section \<open>Breaking cycles and solving waves (\<open>build_graph.break_cycles\<close>, \<open>waves\<close>)\<close>

text \<open>
  \<open>break_cycles\<close> restricts the edges to the build set and drops, inside every strongly
  connected component, the edges the configured stages do not order; \<open>waves\<close> gives every
  package the length of the longest path below it. \<open>break_cycles\<close> uses its component
  solver through the contract \<open>scc_solver\<close>, which \<open>components\<close> is proved to meet. The
  memoised recursion \<open>depth\<close> keeps its trail, so it is total: a repeated node is the
  AssertionError of the code, which the theorems show is never raised on a graph without
  self edges. Python's recursion limit is not modelled.
\<close>

subsection \<open>Cutting the cycles\<close>

definition stage_in :: "(string, int) dict \<Rightarrow> string \<Rightarrow> int" where
  "stage_in stages n = dict_get stages n 0"

definition cut_member :: "(string, int) dict \<Rightarrow> string list \<Rightarrow> string \<Rightarrow> edges \<Rightarrow> edges result" where
  "cut_member stages component node restricted =
     bind_r (dict_index restricted node) (\<lambda>providers.
       Inr (AList.update node
         (filter (\<lambda>p. p \<notin> set component \<or> stage_in stages p < stage_in stages node) providers)
         restricted))"

definition level_groups :: "(string, int) dict \<Rightarrow> string list \<Rightarrow> string list list" where
  "level_groups stages component =
     filter (\<lambda>members. 1 < length members)
       (map snd (fold (\<lambda>node. dict_add (stage_in stages node) node) component []))"

definition break_component ::
    "(string, int) dict \<Rightarrow> string list \<Rightarrow> edges \<times> string list list \<Rightarrow> (edges \<times> string list list) result" where
  "break_component stages component = (\<lambda>(restricted, unordered).
     if length component = 1 then Inr (restricted, unordered)
     else bind_r (fold_r (cut_member stages component) component restricted) (\<lambda>r.
       Inr (r, unordered @ level_groups stages component)))"

definition restrict_edges :: "string list \<Rightarrow> edges \<Rightarrow> edges" where
  "restrict_edges nodes es = map (\<lambda>n. (n, set_inter (dict_get es n []) nodes)) nodes"

text \<open>The second component is what the code appends to \<open>unordered\<close>; a caller passing None drops it.\<close>

definition break_cycles_with ::
    "(string list \<Rightarrow> edges \<Rightarrow> string list list result) \<Rightarrow> string list \<Rightarrow> edges \<Rightarrow>
     (string, int) dict \<Rightarrow> (edges \<times> string list list) result" where
  "break_cycles_with solve nodes es stages =
     bind_r (solve nodes (restrict_edges nodes es)) (\<lambda>cs.
       fold_r (break_component stages) cs (restrict_edges nodes es, []))"

definition break_cycles ::
    "string list \<Rightarrow> edges \<Rightarrow> (string, int) dict \<Rightarrow> (edges \<times> string list list) result" where
  "break_cycles = break_cycles_with components"

subsection \<open>Longest paths\<close>

text \<open>\<open>depth\<close>, and the generator that maps it over the providers, threading the memo.\<close>

definition max_of :: "nat list \<Rightarrow> nat" where
  "max_of ds = fold max ds 0"

lemma card_trail_less:
  assumes "dict_index d k = Inr v" and "k \<notin> set trail"
  shows "card (set (map fst d) - insert k (set trail)) < card (set (map fst d) - set trail)"
proof -
  have "k \<in> set (map fst d)"
    using assms(1) by (auto simp: dict_index_def split: option.splits dest!: map_of_SomeD) force
  with assms(2) show ?thesis by (intro psubset_card_mono) auto
qed

function depth :: "edges \<Rightarrow> string \<Rightarrow> string list \<Rightarrow> (string, nat) dict \<Rightarrow> (nat \<times> (string, nat) dict) result"
  and depths :: "edges \<Rightarrow> string list \<Rightarrow> string list \<Rightarrow> (string, nat) dict \<Rightarrow> (nat list \<times> (string, nat) dict) result"
where
  "depth restricted node trail wave =
     (case map_of wave node of
        Some w \<Rightarrow> Inr (w, wave)
      | None \<Rightarrow>
          if node \<in> set trail then Inl (AssertionError (join '' -> '' (trail @ [node])))
          else bind_r (dict_index restricted node) (\<lambda>providers.
            bind_r (depths restricted providers (trail @ [node]) wave) (\<lambda>(ds, wave').
              let w = (if providers = [] then 0 else 1 + max_of ds)
              in Inr (w, AList.update node w wave'))))"
| "depths restricted [] trail wave = Inr ([], wave)"
| "depths restricted (p # ps) trail wave =
     bind_r (depth restricted p trail wave) (\<lambda>(d, wave').
       bind_r (depths restricted ps trail wave') (\<lambda>(ds, wave''). Inr (d # ds, wave'')))"
  by pat_completeness auto

termination
  by (relation "inv_image (less_than <*lex*> less_than)
      (\<lambda>x. case x of
         Inl (restricted, node, trail, wave) \<Rightarrow> (card (set (map fst restricted) - set trail), 0)
       | Inr (restricted, ps, trail, wave) \<Rightarrow>
           (card (set (map fst restricted) - set trail), Suc (length ps)))")
    (auto dest: card_trail_less)

declare depth.simps [simp del]

definition waves ::
    "string list \<Rightarrow> edges \<Rightarrow> (string, int) dict \<Rightarrow> ((string, nat) dict \<times> string list list) result" where
  "waves build es stages =
     (let nodes = remdups build in
      bind_r (break_cycles nodes es stages) (\<lambda>(restricted, unordered).
        bind_r (fold_r (\<lambda>node wave. bind_r (depth restricted node [] wave) (\<lambda>(_, w). Inr w))
                 (sorted_set nodes) [])
          (\<lambda>wave. Inr (wave, unordered))))"

subsection \<open>The contract of the component solver\<close>

locale scc_solver =
  fixes solve :: "string list \<Rightarrow> edges \<Rightarrow> string list list result"
  assumes solved: "\<exists>cs. solve nodes es = Inr cs \<and> \<Union> (set ` set cs) = set nodes"
    and blocks: "solve nodes es = Inr cs \<Longrightarrow> c \<in> set cs \<Longrightarrow> x \<in> set c \<Longrightarrow>
      y \<in> set c \<longleftrightarrow> y \<in> set nodes \<and> mutual (edge_rel nodes es) x y"
    and distinct_block: "solve nodes es = Inr cs \<Longrightarrow> c \<in> set cs \<Longrightarrow> distinct c"

interpretation tarjan: scc_solver components
proof
  fix nodes :: "string list" and es cs c x y
  show "\<exists>cs. components nodes es = Inr cs \<and> \<Union> (set ` set cs) = set nodes"
    using components_emitted [of nodes es] by blast
  show "components nodes es = Inr cs \<Longrightarrow> c \<in> set cs \<Longrightarrow> x \<in> set c \<Longrightarrow>
      y \<in> set c \<longleftrightarrow> y \<in> set nodes \<and> mutual (edge_rel nodes es) x y"
    by (rule components_mutual)
  show "components nodes es = Inr cs \<Longrightarrow> c \<in> set cs \<Longrightarrow> distinct c"
    using components_emitted [of nodes es] by (auto dest: emitted_blocks)
qed

text \<open>Cutting filters the provider lists; applying it to a component twice changes nothing.\<close>

definition cut_keeps :: "(string, int) dict \<Rightarrow> string list \<Rightarrow> string \<Rightarrow> string \<Rightarrow> bool" where
  "cut_keeps stages c n p \<longleftrightarrow> p \<notin> set c \<or> stage_in stages p < stage_in stages n"

lemma cut_members:
  "set vs \<subseteq> fst ` set r \<Longrightarrow> \<exists>r'. fold_r (cut_member stages c) vs r = Inr r' \<and>
     (\<forall>n. map_of r' n = (if n \<in> set vs then map_option (filter (cut_keeps stages c n)) (map_of r n)
       else map_of r n)) \<and> fst ` set r' = fst ` set r"
proof (induction vs arbitrary: r)
  case Nil
  then show ?case by simp
next
  case (Cons v vs)
  then obtain ps where ps: "map_of r v = Some ps"
    by (metis insert_subset list.simps(15) map_of_eq_None_iff not_Some_eq)
  let ?r = "AList.update v (filter (cut_keeps stages c v) ps) r"
  have step: "cut_member stages c v r = Inr ?r"
    using ps by (simp add: cut_member_def dict_index_def cut_keeps_def [abs_def])
  have keys: "fst ` set ?r = fst ` set r"
    using Cons.prems by (auto simp: dom_update)
  with Cons.prems have "set vs \<subseteq> fst ` set ?r" by simp
  from Cons.IH [OF this] obtain r' where r': "fold_r (cut_member stages c) vs ?r = Inr r'"
    "\<forall>n. map_of r' n = (if n \<in> set vs then map_option (filter (cut_keeps stages c n)) (map_of ?r n)
       else map_of ?r n)" "fst ` set r' = fst ` set ?r" by blast
  then show ?case using step keys ps
    by (intro exI [of _ r']) (auto simp: comp_def)
qed

definition all_keep :: "(string, int) dict \<Rightarrow> string list list \<Rightarrow> string \<Rightarrow> string \<Rightarrow> bool" where
  "all_keep stages cs n p \<longleftrightarrow>
     (\<forall>c \<in> set cs. length c \<noteq> 1 \<longrightarrow> n \<in> set c \<longrightarrow> cut_keeps stages c n p)"

lemma break_components:
  "\<Union> (set ` set cs) \<subseteq> fst ` set r \<Longrightarrow>
     \<exists>r'. fold_r (break_component stages) cs (r, u) =
        Inr (r', u @ concat (map (level_groups stages) (filter (\<lambda>c. length c \<noteq> 1) cs))) \<and>
       (\<forall>n. map_of r' n = map_option (filter (all_keep stages cs n)) (map_of r n)) \<and>
       fst ` set r' = fst ` set r"
proof (induction cs arbitrary: r u)
  case Nil
  have "all_keep stages [] n p" for n p by (simp add: all_keep_def)
  then show ?case by (simp add: option.map_ident)
next
  case (Cons c cs)
  show ?case
  proof (cases "length c = 1")
    case True
    then have "all_keep stages (c # cs) = all_keep stages cs"
      by (auto simp: all_keep_def fun_eq_iff)
    with Cons.IH [of r u] Cons.prems True show ?thesis by (auto simp: break_component_def)
  next
    case False
    from cut_members [of c r stages c] Cons.prems obtain r1 where
      r1: "fold_r (cut_member stages c) c r = Inr r1"
      "\<forall>n. map_of r1 n = (if n \<in> set c then map_option (filter (cut_keeps stages c n)) (map_of r n)
         else map_of r n)" "fst ` set r1 = fst ` set r" by auto
    let ?u = "u @ level_groups stages c"
    from Cons.prems r1(3) have "\<Union> (set ` set cs) \<subseteq> fst ` set r1" by auto
    from Cons.IH [OF this, of ?u] obtain r' where r': "fold_r (break_component stages) cs (r1, ?u) =
        Inr (r', ?u @ concat (map (level_groups stages) (filter (\<lambda>c. length c \<noteq> 1) cs)))"
      "\<forall>n. map_of r' n = map_option (filter (all_keep stages cs n)) (map_of r1 n)"
      "fst ` set r' = fst ` set r1" by blast
    have "map_of r' n = map_option (filter (all_keep stages (c # cs) n)) (map_of r n)" for n
      using r'(2) r1(2) False
      by (cases "map_of r n") (auto simp: all_keep_def intro!: filter_cong)
    moreover have "break_component stages c (r, u) = Inr (r1, ?u)"
      using r1(1) False by (simp add: break_component_def)
    ultimately show ?thesis using r' r1(3) False
      by (intro exI [of _ r']) (simp only: fold_r.simps bind_r_simps, simp)
  qed
qed

text \<open>
  What is kept, as a specification: the edges inside the build set that either leave their
  strongly connected component or lead to an earlier configured stage.
\<close>

definition inside :: "string list \<Rightarrow> edges \<Rightarrow> (string \<times> string) set" where
  "inside nodes es = {(n, p). n \<in> set nodes \<and> p \<in> set nodes \<and> p \<in> set (dict_get es n [])}"

definition kept :: "string list \<Rightarrow> edges \<Rightarrow> (string, int) dict \<Rightarrow> (string \<times> string) set" where
  "kept nodes es stages =
     {(n, p) \<in> inside nodes es. mutual (inside nodes es) n p \<longrightarrow> stage_in stages p < stage_in stages n}"

definition no_self_edge :: "string list \<Rightarrow> edges \<Rightarrow> bool" where
  "no_self_edge nodes es \<longleftrightarrow> list_all (\<lambda>n. n \<notin> set (dict_get es n [])) nodes"

lemma dict_get_restrict:
  "dict_get (restrict_edges nodes es) n [] = (if n \<in> set nodes then set_inter (dict_get es n []) nodes else [])"
  by (simp add: restrict_edges_def dict_get_def)

lemma edge_rel_restrict: "edge_rel nodes (restrict_edges nodes es) = inside nodes es"
  by (auto simp: edge_rel_def inside_def set_succs dict_get_restrict split: if_splits)

lemma restrict_keys: "fst ` set (restrict_edges nodes es) = set nodes"
  by (auto simp: restrict_edges_def image_image)

lemma mutual_trans: "mutual E x y \<Longrightarrow> mutual E y z \<Longrightarrow> mutual E x z"
  by (auto simp: mutual_def)

lemma kept_trancl:
  assumes "(x, y) \<in> (kept nodes es stages)\<^sup>+" and "mutual (inside nodes es) x y"
  shows "stage_in stages y < stage_in stages x"
  using assms
proof (induction rule: trancl_induct)
  case (base y)
  then show ?case by (auto simp: kept_def)
next
  case (step y z)
  have sub: "kept nodes es stages \<subseteq> inside nodes es" by (auto simp: kept_def)
  have xy: "(x, y) \<in> (inside nodes es)\<^sup>*" and yz: "(y, z) \<in> inside nodes es"
    using step.hyps sub by (auto dest: trancl_into_rtrancl rtrancl_mono [OF sub, THEN subsetD])
  then have "mutual (inside nodes es) x y" "mutual (inside nodes es) y z"
    using step.prems by (auto simp: mutual_def intro: rtrancl_trans converse_rtrancl_into_rtrancl)
  with step show ?case by (force simp: kept_def)
qed

lemma kept_acyclic: "acyclic (kept nodes es stages)"
  using kept_trancl [of x x nodes es stages for x] by (auto simp: acyclic_def mutual_def)

lemma kept_finite: "finite (kept nodes es stages)"
proof (rule finite_subset)
  show "kept nodes es stages \<subseteq> set nodes \<times> set nodes" by (auto simp: kept_def inside_def)
qed simp

text \<open>The groups of one component: the members of each configured stage that has several.\<close>

lemma level_groups_iff:
  assumes "distinct c" and "x \<noteq> y"
  shows "(\<exists>g \<in> set (level_groups stages c). x \<in> set g \<and> y \<in> set g) \<longleftrightarrow>
    x \<in> set c \<and> y \<in> set c \<and> stage_in stages x = stage_in stages y"
proof -
  let ?levels = "fold (\<lambda>n. dict_add (stage_in stages n) n) c []"
  have gen: "set (dict_get (fold (\<lambda>n. dict_add (stage_in stages n) n) xs d) l []) =
      set (dict_get d l []) \<union> {n \<in> set xs. stage_in stages n = l}" for xs l and d :: "(int, string list) dict"
    by (induction xs arbitrary: d) auto
  have "distinct (map fst (fold (\<lambda>n. dict_add (stage_in stages n) n) xs d))"
    if "distinct (map fst d)" for xs and d :: "(int, string list) dict"
    using that by (induction xs arbitrary: d) auto
  then have keys: "distinct (map fst ?levels)" by simp
  have group: "set g = {n \<in> set c. stage_in stages n = l}" if "(l, g) \<in> set ?levels" for l g
  proof -
    have "dict_get ?levels l [] = g" using that keys by (simp add: dict_get_def)
    with gen [of c "[]" l] show ?thesis by simp
  qed
  show ?thesis
  proof
    assume "\<exists>g \<in> set (level_groups stages c). x \<in> set g \<and> y \<in> set g"
    then obtain l g where "(l, g) \<in> set ?levels" "x \<in> set g" "y \<in> set g"
      by (auto simp: level_groups_def)
    with group show "x \<in> set c \<and> y \<in> set c \<and> stage_in stages x = stage_in stages y" by auto
  next
    assume xy: "x \<in> set c \<and> y \<in> set c \<and> stage_in stages x = stage_in stages y"
    let ?l = "stage_in stages x"
    have mem: "x \<in> set (dict_get ?levels ?l [])" "y \<in> set (dict_get ?levels ?l [])"
      using gen [of c "[]" ?l] xy by auto
    then obtain g where g: "(?l, g) \<in> set ?levels" "x \<in> set g"
      using mem_dict_get_distinct [OF keys] by blast
    with group [OF g(1)] xy have y: "y \<in> set g" by auto
    have "1 < card (set g)" using g(2) y assms(2) by (auto simp: card_gt_0_iff Suc_lessI card_1_singleton_iff
        intro!: Suc_lessI dest!: sym [of "Suc 0"])
    then have "1 < length g" using card_length [of g] by simp
    with g y show "\<exists>g \<in> set (level_groups stages c). x \<in> set g \<and> y \<in> set g"
      by (force simp: level_groups_def)
  qed
qed

text \<open>The laws of the solver carry the client: what \<open>break_cycles\<close> keeps.\<close>

context scc_solver begin

lemma keep_iff:
  assumes cs: "solve nodes es = Inr cs" and n: "n \<in> set nodes" "p \<in> set nodes" "n \<noteq> p"
  shows "all_keep stages cs n p \<longleftrightarrow>
    (mutual (edge_rel nodes es) n p \<longrightarrow> stage_in stages p < stage_in stages n)"
proof
  assume k: "all_keep stages cs n p"
  show "mutual (edge_rel nodes es) n p \<longrightarrow> stage_in stages p < stage_in stages n"
  proof
    assume m: "mutual (edge_rel nodes es) n p"
    from solved [of nodes es] cs n(1) obtain c where c: "c \<in> set cs" "n \<in> set c" by auto
    with blocks [OF cs c] n(2) m have "p \<in> set c" by blast
    moreover have "length c \<noteq> 1"
      using \<open>p \<in> set c\<close> c(2) n(3) by (auto simp: length_Suc_conv)
    ultimately show "stage_in stages p < stage_in stages n"
      using k c by (auto simp: all_keep_def cut_keeps_def)
  qed
next
  assume "mutual (edge_rel nodes es) n p \<longrightarrow> stage_in stages p < stage_in stages n"
  then show "all_keep stages cs n p"
    using blocks [OF cs] by (auto simp: all_keep_def cut_keeps_def)
qed

lemma break_with:
  assumes "no_self_edge nodes es"
  shows "\<exists>r u. break_cycles_with solve nodes es stages = Inr (r, u) \<and> fst ` set r = set nodes \<and>
    (\<forall>n. set (dict_get r n []) = kept nodes es stages `` {n})"
proof -
  let ?r = "restrict_edges nodes es"
  from solved [of nodes ?r] obtain cs where cs: "solve nodes ?r = Inr cs"
    "\<Union> (set ` set cs) = set nodes" by blast
  from break_components [of cs ?r stages "[]"] cs(2) obtain r u where
    r: "fold_r (break_component stages) cs (?r, []) = Inr (r, u)"
    "\<forall>n. map_of r n = map_option (filter (all_keep stages cs n)) (map_of ?r n)"
    "fst ` set r = fst ` set ?r"
    by (auto simp: restrict_keys)
  have "set (dict_get r n []) = kept nodes es stages `` {n}" for n
  proof -
    have "set (dict_get r n []) = {p \<in> set (dict_get ?r n []). all_keep stages cs n p}"
      using r(2) by (cases "map_of ?r n") (auto simp: dict_get_def)
    also have "\<dots> = {p. (n, p) \<in> inside nodes es \<and> all_keep stages cs n p}"
      by (auto simp: dict_get_restrict inside_def)
    also have "\<dots> = kept nodes es stages `` {n}"
    proof -
      have "n \<noteq> p" if "(n, p) \<in> inside nodes es" for p
        using that assms by (auto simp: inside_def no_self_edge_def list_all_iff)
      then show ?thesis
        using keep_iff [OF cs(1)] by (auto simp: kept_def edge_rel_restrict) (auto simp: inside_def)
    qed
    finally show ?thesis .
  qed
  with r cs show ?thesis by (auto simp: break_cycles_with_def restrict_keys)
qed

lemma unordered_groups:
  assumes "break_cycles_with solve nodes es stages = Inr (r, u)" and "x \<noteq> y"
  shows "(\<exists>g \<in> set u. x \<in> set g \<and> y \<in> set g) \<longleftrightarrow>
    x \<in> set nodes \<and> y \<in> set nodes \<and> mutual (inside nodes es) x y \<and> stage_in stages x = stage_in stages y"
proof -
  let ?r = "restrict_edges nodes es"
  from solved [of nodes ?r] obtain cs where cs: "solve nodes ?r = Inr cs"
    "\<Union> (set ` set cs) = set nodes" by blast
  from break_components [of cs ?r stages "[]"] cs(2) obtain r' where
    "fold_r (break_component stages) cs (?r, []) =
       Inr (r', concat (map (level_groups stages) (filter (\<lambda>c. length c \<noteq> 1) cs)))"
    by (auto simp: restrict_keys)
  with assms(1) cs have u: "u = concat (map (level_groups stages) (filter (\<lambda>c. length c \<noteq> 1) cs))"
    by (simp add: break_cycles_with_def)
  have "(\<exists>g \<in> set u. x \<in> set g \<and> y \<in> set g) \<longleftrightarrow>
      (\<exists>c \<in> set cs. length c \<noteq> 1 \<and> (\<exists>g \<in> set (level_groups stages c). x \<in> set g \<and> y \<in> set g))"
    by (auto simp: u)
  also have "\<dots> \<longleftrightarrow> (\<exists>c \<in> set cs. length c \<noteq> 1 \<and> x \<in> set c \<and> y \<in> set c \<and> stage_in stages x = stage_in stages y)"
    using level_groups_iff [OF distinct_block [OF cs(1)] assms(2)] by blast
  also have "\<dots> \<longleftrightarrow> (\<exists>c \<in> set cs. x \<in> set c \<and> y \<in> set c) \<and> stage_in stages x = stage_in stages y"
  proof -
    have "length c \<noteq> 1" if "x \<in> set c" "y \<in> set c" for c
      using that assms(2) by (auto simp: length_Suc_conv)
    then show ?thesis by blast
  qed
  also have "(\<exists>c \<in> set cs. x \<in> set c \<and> y \<in> set c) \<longleftrightarrow>
      x \<in> set nodes \<and> y \<in> set nodes \<and> mutual (inside nodes es) x y"
  proof
    show "x \<in> set nodes \<and> y \<in> set nodes \<and> mutual (inside nodes es) x y"
      if "\<exists>c \<in> set cs. x \<in> set c \<and> y \<in> set c"
      using that blocks [OF cs(1)] cs(2) by (auto simp: edge_rel_restrict)
    assume xy: "x \<in> set nodes \<and> y \<in> set nodes \<and> mutual (inside nodes es) x y"
    with cs(2) obtain c where "c \<in> set cs" "x \<in> set c" by blast
    with blocks [OF cs(1) this] xy show "\<exists>c \<in> set cs. x \<in> set c \<and> y \<in> set c"
      by (auto simp: edge_rel_restrict)
  qed
  finally show ?thesis by blast
qed

end

subsection \<open>The memoised recursion computes longest paths\<close>

definition longest :: "(string \<times> string) set \<Rightarrow> string \<Rightarrow> nat" where
  "longest R n = Max {k. \<exists>m. (n, m) \<in> R ^^ k}"

lemma path_lengths:
  "{k. \<exists>m. (n, m) \<in> R ^^ k} = insert 0 (Suc ` (\<Union>p \<in> R `` {n}. {k. \<exists>m. (p, m) \<in> R ^^ k}))"
  (is "?L = ?R")
proof
  show "?L \<subseteq> ?R"
  proof
    fix k assume "k \<in> ?L"
    then obtain m where "(n, m) \<in> R ^^ k" by blast
    then show "k \<in> ?R"
    proof (cases k)
      case (Suc j)
      with \<open>(n, m) \<in> R ^^ k\<close> obtain p where "(n, p) \<in> R" "(p, m) \<in> R ^^ j"
        by (blast dest: relpow_Suc_D2)
      with Suc show ?thesis by blast
    qed simp
  qed
  show "?R \<subseteq> ?L" by (auto intro: relpow_Suc_I2 simp del: relpow.simps) (metis relpow_0_I)
qed

lemma finite_path_lengths:
  assumes "finite R" and "acyclic R"
  shows "finite {k. \<exists>m. (n, m) \<in> R ^^ k}"
proof -
  have "wf (R\<inverse>)" using assms by (intro finite_acyclic_wf) (simp_all add: acyclic_converse)
  then show ?thesis
  proof (induction n)
    case (less n)
    have "finite (R `` {n})" using assms(1) by (rule finite_Image)
    then show ?case using less by (subst path_lengths) auto
  qed
qed

lemma longest_rec:
  assumes "finite R" and "acyclic R"
  shows "longest R n = (if R `` {n} = {} then 0 else Suc (Max (longest R ` R `` {n})))"
proof (cases "R `` {n} = {}")
  case True
  then show ?thesis by (simp add: longest_def path_lengths [of n R])
next
  case False
  let ?P = "\<lambda>p. {k. \<exists>m. (p, m) \<in> R ^^ k}"
  have fin: "finite (?P p)" for p using finite_path_lengths [OF assms] .
  have ne: "?P p \<noteq> {}" for p using path_lengths [of p R] by auto
  have finR: "finite (R `` {n})" using assms(1) by (rule finite_Image)
  let ?U = "\<Union>p \<in> R `` {n}. ?P p"
  have U: "finite ?U" "?U \<noteq> {}" using fin ne finR False by auto
  have "longest R n = Max (insert 0 (Suc ` ?U))" by (simp add: longest_def path_lengths [of n R])
  also have "\<dots> = Suc (Max ?U)"
    using U by (simp add: mono_Max_commute [symmetric] mono_Suc)
  also have "Max ?U = Max (longest R ` R `` {n})"
  proof (rule Max_eq_if)
    show "\<forall>a \<in> ?U. \<exists>b \<in> longest R ` R `` {n}. a \<le> b"
      using fin unfolding longest_def by (auto intro!: bexI Max_ge)
    show "\<forall>b \<in> longest R ` R `` {n}. \<exists>a \<in> ?U. b \<le> a"
      using Max_in [OF fin ne] unfolding longest_def by blast
  qed (use U finR in auto)
  finally show ?thesis using False by simp
qed

lemma max_of_Max: "ds \<noteq> [] \<Longrightarrow> max_of ds = Max (set ds)"
  by (cases ds) (simp_all add: max_of_def Max.set_eq_fold del: list.set)

definition memo_ok :: "(string \<times> string) set \<Rightarrow> (string, nat) dict \<Rightarrow> bool" where
  "memo_ok R wave \<longleftrightarrow> (\<forall>n w. map_of wave n = Some w \<longrightarrow> w = longest R n)"

lemma memo_ok_update: "memo_ok R wave \<Longrightarrow> w = longest R n \<Longrightarrow> memo_ok R (AList.update n w wave)"
  by (auto simp: memo_ok_def)

text \<open>A solved graph: its lookup agrees with \<open>R\<close>, which is finite, acyclic and inside the keys.\<close>

definition solved_graph :: "(string \<times> string) set \<Rightarrow> edges \<Rightarrow> bool" where
  "solved_graph R r \<longleftrightarrow> finite R \<and> acyclic R \<and> R \<subseteq> UNIV \<times> fst ` set r \<and>
     (\<forall>n. set (dict_get r n []) = R `` {n})"

lemma depth_longest:
  "solved_graph R r \<Longrightarrow> memo_ok R wave \<Longrightarrow> n \<in> fst ` set r \<Longrightarrow> \<forall>t \<in> set trail. (t, n) \<in> R\<^sup>+ \<Longrightarrow>
     \<exists>wave'. depth r n trail wave = Inr (longest R n, wave') \<and> memo_ok R wave' \<and>
       n \<in> fst ` set wave' \<and> fst ` set wave \<subseteq> fst ` set wave' \<and>
       fst ` set wave' \<subseteq> fst ` set r \<union> fst ` set wave"
  "solved_graph R r \<Longrightarrow> memo_ok R wave \<Longrightarrow> set ps \<subseteq> fst ` set r \<Longrightarrow>
     \<forall>t \<in> set trail. \<forall>p \<in> set ps. (t, p) \<in> R\<^sup>+ \<Longrightarrow>
     \<exists>wave'. depths r ps trail wave = Inr (map (longest R) ps, wave') \<and> memo_ok R wave' \<and>
       fst ` set wave \<subseteq> fst ` set wave' \<and> fst ` set wave' \<subseteq> fst ` set r \<union> fst ` set wave"
proof (induction r n trail wave and r ps trail wave rule: depth_depths.induct)
  case (1 r n trail wave)
  show ?case
  proof (cases "map_of wave n")
    case (Some w)
    with 1 show ?thesis
      by (auto simp: depth.simps memo_ok_def insert_absorb dest: map_of_SomeD)
        (force dest: map_of_SomeD)+
  next
    case None
    from "1.prems"(1) have R: "finite R" "acyclic R" "\<And>n. set (dict_get r n []) = R `` {n}"
      "R \<subseteq> UNIV \<times> fst ` set r" by (auto simp: solved_graph_def)
    have nt: "n \<notin> set trail" using "1.prems"(4) R(2) by (auto simp: acyclic_def)
    from "1.prems"(3) obtain ps where ps: "map_of r n = Some ps"
      by (metis map_of_eq_None_iff not_Some_eq)
    have set_ps: "set ps = R `` {n}" using R(3) [of n] ps by (simp add: dict_get_def)
    have idx: "dict_index r n = Inr ps" using ps by (simp add: dict_index_def)
    have "\<forall>t \<in> set (trail @ [n]). \<forall>p \<in> set ps. (t, p) \<in> R\<^sup>+"
      using "1.prems"(4) set_ps by (auto intro: trancl_into_trancl)
    moreover have "set ps \<subseteq> fst ` set r" using set_ps R(4) by auto
    ultimately obtain wave' where w': "depths r ps (trail @ [n]) wave = Inr (map (longest R) ps, wave')"
      "memo_ok R wave'" "fst ` set wave \<subseteq> fst ` set wave'"
      "fst ` set wave' \<subseteq> fst ` set r \<union> fst ` set wave"
      using "1.IH" [OF None nt idx "1.prems"(1,2)] by blast
    have l: "(if ps = [] then 0 else 1 + max_of (map (longest R) ps)) = longest R n"
      using set_ps by (subst longest_rec [OF R(1,2)]) (auto simp: max_of_Max)
    have "depth r n trail wave = Inr (longest R n, AList.update n (longest R n) wave')"
      using None nt idx w'(1) l by (simp add: depth.simps Let_def)
    with w' "1.prems"(3) show ?thesis
      by (intro exI [of _ "AList.update n (longest R n) wave'"])
        (auto simp: memo_ok_update dom_update)
  qed
next
  case (2 r trail wave)
  then show ?case by simp
next
  case (3 r p ps trail wave)
  have "p \<in> fst ` set r" "\<forall>t \<in> set trail. (t, p) \<in> R\<^sup>+" using "3.prems"(3,4) by auto
  with "3.IH"(1) [OF "3.prems"(1,2)] obtain w1 where w1: "depth r p trail wave = Inr (longest R p, w1)"
    "memo_ok R w1" "fst ` set wave \<subseteq> fst ` set w1" "fst ` set w1 \<subseteq> fst ` set r \<union> fst ` set wave"
    by blast
  have "set ps \<subseteq> fst ` set r" "\<forall>t \<in> set trail. \<forall>p \<in> set ps. (t, p) \<in> R\<^sup>+"
    using "3.prems"(3,4) by auto
  with "3.IH"(2) [OF w1(1) refl "3.prems"(1) w1(2)] obtain w2 where
    w2: "depths r ps trail w1 = Inr (map (longest R) ps, w2)"
    "memo_ok R w2" "fst ` set w1 \<subseteq> fst ` set w2" "fst ` set w2 \<subseteq> fst ` set r \<union> fst ` set w1" by blast
  have "fst ` set wave \<subseteq> fst ` set w2" "fst ` set w2 \<subseteq> fst ` set r \<union> fst ` set wave"
    using w1(3,4) w2(3,4) by - (rule subset_trans, assumption+, rule subset_trans, assumption, simp)
  moreover have "depths r (p # ps) trail wave = Inr (map (longest R) (p # ps), w2)"
    using w1(1) w2(1) by simp
  ultimately show ?case using w2(2) by blast
qed

lemma waves_longest:
  assumes "no_self_edge build es"
  shows "\<exists>wave u. waves build es stages = Inr (wave, u) \<and> fst ` set wave = set build \<and>
    (\<forall>n \<in> set build. map_of wave n = Some (longest (kept build es stages) n))"
proof -
  let ?nodes = "remdups build"
  have same: "no_self_edge ?nodes es = no_self_edge build es" "kept ?nodes es = kept build es"
    by (simp_all add: no_self_edge_def list_all_iff kept_def inside_def fun_eq_iff)
  let ?K = "kept build es stages"
  from tarjan.break_with [of ?nodes es stages] assms obtain r u where
    r: "break_cycles ?nodes es stages = Inr (r, u)" "fst ` set r = set build"
    "\<And>n. set (dict_get r n []) = ?K `` {n}"
    by (auto simp: same break_cycles_def)
  have sg: "solved_graph ?K r"
    using r kept_acyclic kept_finite by (auto simp: solved_graph_def kept_def inside_def)
  let ?step = "\<lambda>node wave. bind_r (depth r node [] wave) (\<lambda>(_, w). Inr w)"
  have "\<exists>wave'. fold_r ?step vs wave = Inr wave' \<and> memo_ok ?K wave' \<and>
      set vs \<union> fst ` set wave \<subseteq> fst ` set wave' \<and> fst ` set wave' \<subseteq> set build"
    if "memo_ok ?K wave" "set vs \<subseteq> set build" "fst ` set wave \<subseteq> set build" for vs wave
    using that
  proof (induction vs arbitrary: wave)
    case Nil
    then show ?case by simp
  next
    case (Cons v vs)
    from Cons.prems(2) have v: "v \<in> fst ` set r" by (simp add: r(2))
    obtain w1 where
      w1: "depth r v [] wave = Inr (longest ?K v, w1)" "memo_ok ?K w1" "v \<in> fst ` set w1"
      "fst ` set wave \<subseteq> fst ` set w1" "fst ` set w1 \<subseteq> fst ` set r \<union> fst ` set wave"
      using depth_longest(1) [OF sg Cons.prems(1) v, of "[]"] by simp blast
    have "set vs \<subseteq> set build" "fst ` set w1 \<subseteq> set build"
      using Cons.prems(2,3) w1(5) unfolding r(2) by (simp, blast)
    from Cons.IH [OF w1(2) this] obtain w2 where w2: "fold_r ?step vs w1 = Inr w2" "memo_ok ?K w2"
      "set vs \<union> fst ` set w1 \<subseteq> fst ` set w2" "fst ` set w2 \<subseteq> set build" by blast
    have "fold_r ?step (v # vs) wave = Inr w2" using w1(1) w2(1) by simp
    moreover have "set (v # vs) \<union> fst ` set wave \<subseteq> fst ` set w2"
      using w1(3,4) w2(3) by simp (metis subsetD subset_trans)
    ultimately show ?case using w2(2,4) by (intro exI [of _ w2] conjI)
  qed
  from this [of "[]" "sorted_set ?nodes"] obtain wave where w:
    "fold_r ?step (sorted_set ?nodes) [] = Inr wave" "memo_ok ?K wave"
    "set build \<subseteq> fst ` set wave" "fst ` set wave \<subseteq> set build" by (auto simp: memo_ok_def)
  have "map_of wave n = Some (longest ?K n)" if "n \<in> set build" for n
  proof -
    from that w(3) obtain d where "map_of wave n = Some d"
      by (metis subsetD map_of_eq_None_iff not_Some_eq)
    with w(2) show ?thesis by (simp add: memo_ok_def)
  qed
  with w r show ?thesis
    by (intro exI [of _ wave] exI [of _ u]) (auto simp: waves_def Let_def)
qed

lemma longest_less: "(n, m) \<in> kept build es stages \<Longrightarrow>
    longest (kept build es stages) m < longest (kept build es stages) n"
  by (subst (2) longest_rec [OF kept_finite kept_acyclic])
    (auto simp: kept_finite finite_Image less_Suc_eq_le intro!: Max_ge)

text \<open>No assignment that puts providers strictly earlier gives a package a smaller wave.\<close>

lemma longest_least:
  assumes "\<And>n m. (n, m) \<in> kept build es stages \<Longrightarrow> f m < f n"
  shows "longest (kept build es stages) n \<le> f n"
proof -
  let ?K = "kept build es stages"
  have "wf (?K\<inverse>)"
    using kept_finite kept_acyclic by (intro finite_acyclic_wf) (simp_all add: acyclic_converse)
  then show ?thesis
  proof (induction n)
    case (less n)
    have "Max (longest ?K ` ?K `` {n}) < f n" if "?K `` {n} \<noteq> {}"
    proof (subst Max_less_iff)
      show "\<forall>a \<in> longest ?K ` ?K `` {n}. a < f n"
        using less assms by (auto intro: le_less_trans)
    qed (use that kept_finite in \<open>auto intro: finite_Image\<close>)
    then show ?case by (subst longest_rec [OF kept_finite kept_acyclic]) (auto simp: Suc_le_eq)
  qed
qed

subsection \<open>Properties\<close>

text \<open>
  C3: \<open>components\<close> returns on every input, without a KeyError or a pop from an empty
  stack, and what it returns is exactly the strongly connected components: the blocks cover
  the nodes, two nodes share a block precisely when each reaches the other, and the blocks come
  in reverse topological order, so that an edge leads to the same block or to an earlier one.
\<close>

theorem components_are_sccs:
  "\<exists>cs. components nodes es = Inr cs \<and> \<Union> (set ` set cs) = set nodes \<and>
     (\<forall>c x y. c \<in> set cs \<and> x \<in> set c \<longrightarrow>
        (y \<in> set c \<longleftrightarrow> y \<in> set nodes \<and> mutual (edge_rel nodes es) x y)) \<and>
     (\<forall>i x y. i < length cs \<and> x \<in> set (cs ! i) \<and> (x, y) \<in> edge_rel nodes es \<longrightarrow>
        (\<exists>j \<le> i. y \<in> set (cs ! j)))"
proof -
  from components_emitted [of nodes es] obtain cs where cs: "components nodes es = Inr cs"
    "\<Union> (set ` set cs) = set nodes" "emitted (edge_rel nodes es) {} cs" by blast
  have "\<exists>j \<le> i. y \<in> set (cs ! j)"
    if "i < length cs" "x \<in> set (cs ! i)" "(x, y) \<in> edge_rel nodes es" for i x y
    by (rule emitted_reach [OF cs(3) that(1,2)]) (use that(3) in auto)
  moreover have "y \<in> set c \<longleftrightarrow> y \<in> set nodes \<and> mutual (edge_rel nodes es) x y"
    if "c \<in> set cs \<and> x \<in> set c" for c x y
    using components_mutual [OF cs(1), of c x y] that by simp
  ultimately show ?thesis using cs(1,2) by (intro exI [of _ cs] conjI allI impI) auto
qed

lemma components_are_sccs_witness:
  "components [1, 2, 3] [(1, [2]), (2, [1, 3])] = Inr [[3], [2, 1::nat]] \<and>
     mutual (edge_rel [1, 2, 3] [(1, [2]), (2, [1, 3 :: nat])]) 2 1"
proof -
  have c: "components [1, 2, 3] [(1, [2]), (2, [1, 3])] = Inr [[3], [2, 1::nat]]" by code_simp
  with components_are_sccs [of "[1, 2, 3 :: nat]" "[(1, [2]), (2, [1, 3])]"]
  have all: "c \<in> set [[3], [2, 1::nat]] \<and> x \<in> set c \<longrightarrow>
      (y \<in> set c \<longleftrightarrow> y \<in> set [1, 2, 3 :: nat] \<and>
        mutual (edge_rel [1, 2, 3] [(1, [2]), (2, [1, 3])]) x y)" for c x y
    by (auto simp only: sum.inject)
  from all [of "[2, 1]" 2 1] have "mutual (edge_rel [1, 2, 3] [(1, [2]), (2, [1, 3 :: nat])]) 2 1"
    by simp
  with c show ?thesis by simp
qed

text \<open>
  C2: on a graph without self edges \<open>waves\<close> never raises; every package of the build set
  gets the length of the longest chain of kept dependencies below it, and nothing else gets a
  wave. The kept dependencies are those inside the build set that do not run around a cycle
  against the configured stages.
\<close>

theorem waves_are_longest_paths:
  assumes "no_self_edge build es"
  shows "\<exists>wave u. waves build es stages = Inr (wave, u) \<and> fst ` set wave = set build \<and>
    (\<forall>n. n \<in> set build \<longrightarrow> map_of wave n = Some (longest (kept build es stages) n))"
proof -
  from waves_longest [OF assms, of stages] obtain wave u where
    "waves build es stages = Inr (wave, u)" "fst ` set wave = set build"
    "\<forall>n \<in> set build. map_of wave n = Some (longest (kept build es stages) n)" by (elim exE conjE)
  then show ?thesis by (intro exI [of _ wave] exI [of _ u]) simp
qed

definition example_edges :: edges where
  "example_edges = [(''a'', [''b'']), (''b'', [''a'', ''c'']), (''c'', [])]"

definition example_stages :: "(string, int) dict" where
  "example_stages = [(''a'', 1), (''b'', 2)]"

lemma example_waves:
  "no_self_edge [''a'', ''b'', ''c''] example_edges"
  "waves [''a'', ''b'', ''c''] example_edges example_stages =
     Inr ([(''a'', 0), (''c'', 0), (''b'', 1)], [])"
  by code_simp+

lemma waves_are_longest_paths_witness:
  "longest (kept [''a'', ''b'', ''c''] example_edges example_stages) ''b'' = 1"
  using waves_are_longest_paths [OF example_waves(1), of example_stages]
  by (simp add: example_waves(2))

lemma kept_earlier:
  assumes "no_self_edge build es" and "waves build es stages = Inr (wave, u)" and "(n, p) \<in> kept build es stages"
  shows "\<exists>wp wn. map_of wave p = Some wp \<and> map_of wave n = Some wn \<and> wp < wn"
proof -
  note less = longest_less [OF assms(3)]
  from assms(3) have "n \<in> set build" "p \<in> set build" by (auto simp: kept_def inside_def)
  moreover from waves_longest [OF assms(1), of stages] assms(2)
  have "\<forall>n \<in> set build. map_of wave n = Some (longest (kept build es stages) n)" by auto
  ultimately show ?thesis using less by auto
qed

text \<open>
  C1: the waves put dependencies first. When a package of the build set needs another one, the
  provider is in a strictly earlier wave, unless the two depend on each other in a cycle
  whose configured stages do not put the provider first.
\<close>

theorem providers_build_first:
  assumes "no_self_edge build es" and "waves build es stages = Inr (wave, u)"
    and "n \<in> set build" "p \<in> set build" "p \<in> set (dict_get es n [])"
    and "mutual (inside build es) n p \<Longrightarrow> stage_in stages p < stage_in stages n"
  shows "\<exists>wp wn. map_of wave p = Some wp \<and> map_of wave n = Some wn \<and> wp < wn"
  by (rule kept_earlier [OF assms(1,2)]) (use assms(3-6) in \<open>auto simp: kept_def inside_def\<close>)

lemma providers_build_first_witness:
  "\<exists>wp wn. map_of [(''a'', 0), (''c'', 0), (''b'', 1::nat)] ''a'' = Some wp \<and>
     map_of [(''a'', 0), (''c'', 0), (''b'', 1)] ''b'' = Some wn \<and> wp < wn"
  by (rule providers_build_first [OF example_waves])
    (simp_all add: example_edges_def stage_in_def example_stages_def)

text \<open>
  no other schedule is shorter: any numbering of the packages that puts kept providers
  strictly before their consumers is pointwise at least the solved waves.
\<close>

theorem waves_are_least:
  assumes "no_self_edge build es" and "waves build es stages = Inr (wave, u)"
    and "\<And>n p. (n, p) \<in> kept build es stages \<Longrightarrow> f p < f n"
    and "map_of wave n = Some w"
  shows "w \<le> f n"
proof -
  from waves_longest [OF assms(1), of stages] assms(2)
  have "fst ` set wave = set build"
    and all: "\<forall>n \<in> set build. map_of wave n = Some (longest (kept build es stages) n)" by auto
  moreover have "n \<in> fst ` set wave" using assms(4) by (auto dest: map_of_SomeD intro: rev_image_eqI)
  ultimately have "w = longest (kept build es stages) n" using assms(4) by auto
  with longest_least [of build es stages f n] assms(3) show ?thesis by simp
qed

lemma example_kept:
  "(n, p) \<in> kept [''a'', ''b'', ''c''] example_edges example_stages \<Longrightarrow> n = ''b'' \<and> p \<noteq> ''b''"
proof -
  let ?I = "inside [''a'', ''b'', ''c''] example_edges"
  assume k: "(n, p) \<in> kept [''a'', ''b'', ''c''] example_edges example_stages"
  have I: "?I = {(''a'', ''b''), (''b'', ''a''), (''b'', ''c'')}"
    by (auto simp: inside_def example_edges_def split: if_splits)
  then have "mutual ?I ''a'' ''b''" unfolding mutual_def by blast
  then have "(''a'', ''b'') \<notin> kept [''a'', ''b'', ''c''] example_edges example_stages"
    by (simp add: kept_def stage_in_def example_stages_def)
  moreover have "(n, p) \<in> ?I" using k by (simp add: kept_def)
  ultimately show ?thesis using k unfolding I by auto
qed

lemma waves_are_least_witness: "(1::nat) \<le> (\<lambda>n. if n = ''b'' then 5 else 3) ''b''"
  by (rule waves_are_least [OF example_waves]) (auto dest: example_kept)

text \<open>
  what \<open>waves\<close> reports as unordered is exact: two packages appear together in a
  reported group precisely when both are in the build set, they depend on each other in a
  cycle, and the configuration puts them in the same stage.
\<close>

theorem unordered_groups_exact:
  assumes "waves build es stages = Inr (wave, u)" and "x \<noteq> y"
  shows "(\<exists>g. g \<in> set u \<and> x \<in> set g \<and> y \<in> set g) \<longleftrightarrow>
    x \<in> set build \<and> y \<in> set build \<and> mutual (inside build es) x y \<and>
    stage_in stages x = stage_in stages y"
proof -
  from assms(1) obtain r where "break_cycles_with components (remdups build) es stages = Inr (r, u)"
    by (auto simp: waves_def Let_def bind_r_Inr break_cycles_def)
  from tarjan.unordered_groups [OF this assms(2)] show ?thesis
    by (simp add: inside_def Bex_def)
qed

lemma unordered_groups_exact_witness:
  "mutual (inside [''a'', ''b''] [(''a'', [''b'']), (''b'', [''a''])]) ''a'' ''b''"
proof -
  have "waves [''a'', ''b''] [(''a'', [''b'']), (''b'', [''a''])] [] =
      Inr ([(''a'', 0), (''b'', 0)], [[''b'', ''a'']])" by code_simp
  from unordered_groups_exact [OF this, of "''a''" "''b''"] show ?thesis by simp
qed

end
