(* ===== verification/Py_Json.thy ===== *)
theory Py_Json
  imports Py_Strings
begin

section \<open>JSON values and their text (\<open>json.dumps\<close>)\<close>

text \<open>
  The values \<open>json.loads\<close> returns, less floats, which no file the tools read as a model
  input contains. \<open>py_eq\<close> is Python's \<open>==\<close> on them: dicts compare without regard to the
  order of their keys, and a bool equals the integer it is a subclass of. \<open>dumps\<close> is the
  text \<open>json.dumps\<close> writes for given separators, keys in dict order; \<open>sort_keys=True\<close> is
  \<open>canonical\<close> first. Its text determines the value (\<open>dumps_inj\<close>).
\<close>

datatype json =
    JNull
  | JBool bool
  | JInt int
  | JStr string
  | JList "json list"
  | JObj "(string \<times> json) list"

text \<open>\<open>bool(v)\<close>.\<close>

fun truthy :: "json \<Rightarrow> bool" where
  "truthy JNull = False"
| "truthy (JBool b) = b"
| "truthy (JInt n) = (n \<noteq> 0)"
| "truthy (JStr s) = (s \<noteq> [])"
| "truthy (JList xs) = (xs \<noteq> [])"
| "truthy (JObj kvs) = (kvs \<noteq> [])"

text \<open>\<open>str(v)\<close> of a scalar; the repr of lists and dicts is not modelled.\<close>

fun py_str :: "json \<Rightarrow> string result" where
  "py_str JNull = Inr ''None''"
| "py_str (JBool b) = Inr (if b then ''True'' else ''False'')"
| "py_str (JInt n) = Inr (show_int n)"
| "py_str (JStr s) = Inr s"
| "py_str (JList _) = Inl Unmodelled"
| "py_str (JObj _) = Inl Unmodelled"

definition as_int :: "json \<Rightarrow> int option" where
  "as_int v = (case v of JInt n \<Rightarrow> Some n | JBool b \<Rightarrow> Some (if b then 1 else 0) | _ \<Rightarrow> None)"

lemma size_json_value: "(k, v) \<in> set kvs \<Longrightarrow> size v \<le> size_list (size_prod (\<lambda>_. 0) size) kvs"
  by (induction kvs) auto

lemma size_json_zip: "(x, y) \<in> set (zip xs ys) \<Longrightarrow> size x \<le> size_list size xs"
  by (auto dest!: set_zip_leftD intro: size_list_estimation')

text \<open>\<open>==\<close>.\<close>

function py_eq :: "json \<Rightarrow> json \<Rightarrow> bool" where
  "py_eq a b = (case (a, b) of
      (JNull, JNull) \<Rightarrow> True
    | (JStr s, JStr t) \<Rightarrow> s = t
    | (JList xs, JList ys) \<Rightarrow>
        length xs = length ys \<and> list_all (\<lambda>(x, y). py_eq x y) (zip xs ys)
    | (JObj kvs, JObj ws) \<Rightarrow>
        length kvs = length ws \<and>
        list_all (\<lambda>(k, v). case map_of ws k of None \<Rightarrow> False | Some w \<Rightarrow> py_eq v w) kvs
    | _ \<Rightarrow> (case (as_int a, as_int b) of (Some m, Some n) \<Rightarrow> m = n | _ \<Rightarrow> False))"
  by pat_completeness auto
termination
  by (relation "measure (\<lambda>(a, b). size a)")
    (auto simp: less_Suc_eq_le intro: size_json_zip size_json_value dest: set_zip_leftD)

declare py_eq.simps [simp del]

lemma py_eq_simps [simp]:
  "py_eq (JStr s) (JStr t) \<longleftrightarrow> s = t"
  "py_eq JNull JNull"
  "py_eq (JInt m) (JInt n) \<longleftrightarrow> m = n"
  "py_eq (JBool b) (JBool c) \<longleftrightarrow> b = c"
  by (simp_all add: py_eq.simps as_int_def)

fun wf_json :: "json \<Rightarrow> bool" where
  "wf_json (JList xs) = list_all wf_json xs"
| "wf_json (JObj kvs) = (distinct (map fst kvs) \<and> list_all (\<lambda>p. wf_json (snd p)) kvs)"
| "wf_json _ = True"

lemma py_eq_refl: "wf_json a \<Longrightarrow> py_eq a a"
proof (induction a)
  case (JList xs)
  then have "list_all (\<lambda>(x, y). py_eq x y) (zip xs xs)"
    by (auto simp: list_all_iff zip_same)
  then show ?case by (subst py_eq.simps) simp
next
  case (JObj kvs)
  then have "list_all (\<lambda>(k, v). case map_of kvs k of None \<Rightarrow> False | Some w \<Rightarrow> py_eq v w) kvs"
    by (auto simp: list_all_iff split: option.splits) (force dest: map_of_SomeD eq_key_imp_eq_value)
  then show ?case by (subst py_eq.simps) simp
qed (simp_all add: py_eq.simps as_int_def)

subsection \<open>The text\<close>

definition hex_digit :: "nat \<Rightarrow> char" where
  "hex_digit n = (if n < 10 then char_of (48 + n) else char_of (87 + n))"

text \<open>\<open>ensure_ascii\<close>: printable ASCII stands for itself, everything else is escaped.\<close>

definition esc :: "char \<Rightarrow> string" where
  "esc c = (let n = of_char c :: nat in
     if n = 34 then [CHR 0x5C, CHR 0x22]
     else if n = 92 then [CHR 0x5C, CHR 0x5C]
     else if n = 10 then [CHR 0x5C, CHR ''n'']
     else if n = 13 then [CHR 0x5C, CHR ''r'']
     else if n = 9 then [CHR 0x5C, CHR ''t'']
     else if n = 12 then [CHR 0x5C, CHR ''f'']
     else if n = 8 then [CHR 0x5C, CHR ''b'']
     else if 32 \<le> n \<and> n \<le> 126 then [c]
     else [CHR 0x5C, CHR ''u'', CHR ''0'', CHR ''0'', hex_digit (n div 16), hex_digit (n mod 16)])"

definition quote_str :: "string \<Rightarrow> string" where
  "quote_str s = CHR 0x22 # concat (map esc s) @ [CHR 0x22]"

fun dumps :: "string \<Rightarrow> string \<Rightarrow> json \<Rightarrow> string" where
  "dumps isep ksep JNull = ''null''"
| "dumps isep ksep (JBool b) = (if b then ''true'' else ''false'')"
| "dumps isep ksep (JInt n) = show_int n"
| "dumps isep ksep (JStr s) = quote_str s"
| "dumps isep ksep (JList xs) = ''['' @ join isep (map (dumps isep ksep) xs) @ '']''"
| "dumps isep ksep (JObj kvs) =
     ''{'' @ join isep (map (\<lambda>(k, v). quote_str k @ ksep @ dumps isep ksep v) kvs) @ ''}''"

definition dumps_default :: "json \<Rightarrow> string" where
  "dumps_default = dumps '', '' '': ''"

text \<open>\<open>sort_keys=True\<close>, at every level.\<close>

fun canonical :: "json \<Rightarrow> json" where
  "canonical (JList xs) = JList (map canonical xs)"
| "canonical (JObj kvs) = JObj (sort_key fst (map (\<lambda>(k, v). (k, canonical v)) kvs))"
| "canonical v = v"

definition dumps_canonical :: "json \<Rightarrow> string" where
  "dumps_canonical v = dumps '','' '':'' (canonical v)"

subsection \<open>The text determines the value\<close>

definition esc_len :: "string \<Rightarrow> nat" where
  "esc_len s = (case s of [] \<Rightarrow> 0 | c # t \<Rightarrow>
     if c \<noteq> CHR 0x5C then 1 else if take 1 t = ''u'' then 6 else 2)"

definition hex_val :: "char \<Rightarrow> nat" where
  "hex_val c = (let n = of_char c in if n < 58 then n - 48 else n - 87)"

definition unesc :: "string \<Rightarrow> char" where
  "unesc s = (if length s = 1 then s ! 0
     else if length s = 6 then char_of (16 * hex_val (s ! 4) + hex_val (s ! 5))
     else if s ! 1 = CHR ''n'' then CHR 0x0A
     else if s ! 1 = CHR ''r'' then CHR 0x0D
     else if s ! 1 = CHR ''t'' then CHR 0x09
     else if s ! 1 = CHR ''f'' then CHR 0x0C
     else if s ! 1 = CHR ''b'' then CHR 0x08
     else s ! 1)"

lemma hex_val_digit: "n < 16 \<Longrightarrow> hex_val (hex_digit n) = n"
  by (auto simp: hex_val_def hex_digit_def Let_def)

lemma char_code: "of_char c = (n::nat) \<Longrightarrow> c = char_of n"
  by (metis char_of_char)

lemma esc_plain: "32 \<le> (of_char c :: nat) \<Longrightarrow> (of_char c :: nat) \<le> 126 \<Longrightarrow> of_char c \<noteq> (34::nat) \<Longrightarrow>
    of_char c \<noteq> (92::nat) \<Longrightarrow> esc c = [c]"
  by (simp add: esc_def)

lemma esc_code: "unesc (esc c) = c \<and> esc_len (esc c) = length (esc c) \<and> esc c \<noteq> [] \<and> hd (esc c) \<noteq> CHR 0x22"
proof -
  define n where "n = (of_char c :: nat)"
  have n: "n < 256" by (simp add: n_def)
  have c: "c = char_of n" by (simp add: n_def)
  consider "n \<in> {34, 92, 10, 13, 9, 12, 8}" | "32 \<le> n" "n \<le> 126" "n \<noteq> 34" "n \<noteq> 92"
    | "n \<notin> {34, 92, 10, 13, 9, 12, 8}" "n < 32 \<or> 126 < n" by force
  then show ?thesis
  proof cases
    case 1
    then have mem: "c \<in> set (map char_of [34, 92, 10, 13, 9, 12, 8 :: nat])" by (auto simp: c)
    have "list_all (\<lambda>c. unesc (esc c) = c \<and> esc_len (esc c) = length (esc c) \<and> esc c \<noteq> [] \<and>
        hd (esc c) \<noteq> CHR 0x22) (map char_of [34, 92, 10, 13, 9, 12, 8 :: nat])" by code_simp
    with mem show ?thesis unfolding list_all_iff by blast
  next
    case 2
    then have "c \<noteq> CHR 0x5C" "c \<noteq> CHR 0x22" by (auto simp: n_def)
    with 2 show ?thesis by (simp add: esc_plain n_def unesc_def esc_len_def)
  next
    case 3
    then have e: "esc c = [CHR 0x5C, CHR ''u'', CHR ''0'', CHR ''0'', hex_digit (n div 16), hex_digit (n mod 16)]"
      by (auto simp: esc_def n_def [symmetric] Let_def)
    have "unesc (esc c) = char_of (16 * (n div 16) + n mod 16)"
      using n by (simp add: e unesc_def hex_val_digit less_mult_imp_div_less)
    then have "unesc (esc c) = c" by (simp add: c)
    moreover have "esc_len (esc c) = 6" by (simp add: e esc_len_def)
    moreover have "hd (esc c) \<noteq> CHR 0x22" by (simp add: e)
    ultimately show ?thesis by (simp add: e)
  qed
qed

lemma esc_len_append: "esc_len (esc c @ r) = length (esc c)"
proof -
  have e: "esc_len (esc c) = length (esc c)" "esc c \<noteq> []" using esc_code [of c] by auto
  then obtain x t where x: "esc c = x # t" by (cases "esc c") auto
  show ?thesis
  proof (cases "x = CHR 0x5C")
    case True
    with e x obtain y u where "t = y # u" by (cases t) (auto simp: esc_len_def)
    with e x True show ?thesis by (simp add: esc_len_def split: if_splits)
  next
    case False
    with e x show ?thesis by (auto simp: esc_len_def)
  qed
qed

lemma esc_append_inj: "esc c @ r = esc d @ s \<Longrightarrow> c = d \<and> r = s"
proof -
  assume eq: "esc c @ r = esc d @ s"
  then have "length (esc c) = length (esc d)" by (metis esc_len_append)
  with eq have "esc c = esc d" "r = s" by auto
  then show "c = d \<and> r = s" using esc_code by metis
qed

lemma quote_inj: "quote_str a @ r = quote_str b @ s \<Longrightarrow> a = b \<and> r = s"
proof -
  have hd: "concat (map esc (d # b)) @ t \<noteq> CHR 0x22 # s" for d b t s
    using esc_code [of d] by (cases "esc d") auto
  have "concat (map esc a) @ CHR 0x22 # r = concat (map esc b) @ CHR 0x22 # s \<Longrightarrow> a = b \<and> r = s"
  proof (induction a arbitrary: b)
    case Nil
    then show ?case using hd [of _ _ "CHR 0x22 # s" r] by (cases b) auto
  next
    case (Cons c a)
    show ?case
    proof (cases b)
      case Nil
      with Cons.prems hd [of c a "CHR 0x22 # r" s] show ?thesis by simp
    next
      case (Cons d b')
      with Cons.prems have "esc c @ (concat (map esc a) @ CHR 0x22 # r) =
          esc d @ (concat (map esc b') @ CHR 0x22 # s)" by simp
      from esc_append_inj [OF this] Cons.IH [of b'] Cons show ?thesis by simp
    qed
  qed
  then show "quote_str a @ r = quote_str b @ s \<Longrightarrow> a = b \<and> r = s" by (simp add: quote_str_def)
qed

definition no_digit :: "string \<Rightarrow> bool" where
  "no_digit r \<longleftrightarrow> r = [] \<or> \<not> is_digit (hd r)"

lemma digits_inj:
  "\<forall>c \<in> set a. is_digit c \<Longrightarrow> \<forall>c \<in> set b. is_digit c \<Longrightarrow> no_digit r \<Longrightarrow> no_digit s \<Longrightarrow>
     a @ r = b @ s \<Longrightarrow> a = b \<and> r = s"
proof (induction a arbitrary: b)
  case Nil
  then show ?case by (cases b) (auto simp: no_digit_def)
next
  case (Cons c a)
  then show ?case by (cases b) (auto simp: no_digit_def)
qed

lemma show_int_inj:
  assumes "no_digit r" "no_digit s" "show_int m @ r = show_int n @ s"
  shows "m = n \<and> r = s"
proof -
  have dig: "\<forall>c \<in> set (show_nat k). is_digit c" for k using show_nat_digits by blast
  have minus: "CHR ''-'' # x \<noteq> show_nat k @ y" for x k y
  proof
    assume "CHR ''-'' # x = show_nat k @ y"
    then have "hd (show_nat k) = CHR ''-''" by (cases "show_nat k") auto
    moreover have "is_digit (hd (show_nat k))" using dig [of k] hd_in_set by fastforce
    ultimately show False by (simp add: is_digit_def)
  qed
  show ?thesis
  proof (cases "m < 0"; cases "n < 0")
    assume "m < 0" "n < 0"
    with assms(3) have "show_nat (nat (- m)) @ r = show_nat (nat (- n)) @ s" by (simp add: show_int_def)
    from digits_inj [OF dig dig assms(1,2) this] \<open>m < 0\<close> \<open>n < 0\<close> show ?thesis by auto
  next
    assume "\<not> m < 0" "\<not> n < 0"
    with assms(3) have "show_nat (nat m) @ r = show_nat (nat n) @ s" by (simp add: show_int_def)
    from digits_inj [OF dig dig assms(1,2) this] \<open>\<not> m < 0\<close> \<open>\<not> n < 0\<close> show ?thesis by auto
  qed (use assms(3) minus minus [symmetric] in \<open>auto simp: show_int_def\<close>)
qed


lemma show_int_hd: "\<exists>c t. show_int n = c # t \<and> (is_digit c \<or> c = CHR ''-'')"
proof (cases "n < 0")
  case False
  then obtain c t where "show_nat (nat n) = c # t" by (cases "show_nat (nat n)") auto
  moreover from this have "is_digit c" using show_nat_digits [of c "nat n"] by simp
  ultimately show ?thesis using False by (simp add: show_int_def)
qed (simp add: show_int_def)

text \<open>The first character tells the constructor.\<close>

definition jtag :: "json \<Rightarrow> nat" where
  "jtag v = (case v of JNull \<Rightarrow> 0 | JBool b \<Rightarrow> if b then 1 else 2 | JInt _ \<Rightarrow> 3 | JStr _ \<Rightarrow> 4
     | JList _ \<Rightarrow> 5 | JObj _ \<Rightarrow> 6)"

definition hd_tag :: "char \<Rightarrow> nat" where
  "hd_tag c = (if c = CHR ''n'' then 0 else if c = CHR ''t'' then 1 else if c = CHR ''f'' then 2
     else if c = CHR 0x22 then 4 else if c = CHR ''['' then 5 else if c = CHR ''{'' then 6
     else if is_digit c \<or> c = CHR ''-'' then 3 else 7)"

lemma hd_tag_number: "is_digit c \<or> c = CHR ''-'' \<Longrightarrow> hd_tag c = 3"
  by (elim disjE) (auto simp: hd_tag_def is_digit_def)

lemma dumps_tag: "\<exists>c t. dumps isep ksep v = c # t \<and> hd_tag c = jtag v"
proof (cases v)
  case (JInt n)
  from show_int_hd [of n] obtain c t where "show_int n = c # t" "is_digit c \<or> c = CHR ''-''" by blast
  with JInt hd_tag_number [of c] show ?thesis by (simp add: jtag_def)
qed (simp_all add: jtag_def hd_tag_def quote_str_def)

lemma dumps_same_tag: "dumps isep ksep a @ r = dumps isep ksep b @ s \<Longrightarrow> jtag a = jtag b"
  using dumps_tag [of isep ksep a] dumps_tag [of isep ksep b] by auto

text \<open>Separated sequences: a printer that can be told apart from what follows lifts to lists.\<close>

definition closing :: "char \<Rightarrow> bool" where
  "closing c \<longleftrightarrow> c \<in> set '',]}''"

lemma closing_tag: "closing c \<Longrightarrow> hd_tag c = 7"
  by (auto simp: closing_def hd_tag_def is_digit_def)

lemma jtag_less: "jtag v < 7"
  by (cases v) (simp_all add: jtag_def)

lemma closing_no_digit: "closing c \<Longrightarrow> no_digit (c # r)"
  by (auto simp: closing_def no_digit_def is_digit_def)

lemma join_inj:
  assumes pr: "\<And>x y r s. x \<in> set xs \<Longrightarrow> y \<in> set ys \<Longrightarrow> no_digit r \<Longrightarrow> no_digit s \<Longrightarrow>
      f x @ r = f y @ s \<Longrightarrow> x = y \<and> r = s"
    and ne: "\<And>x. x \<in> set xs \<union> set ys \<Longrightarrow> \<exists>c t. f x = c # t \<and> \<not> closing c"
    and cl: "closing c" "c \<noteq> CHR '',''"
    and eq: "join (CHR '','' # isep) (map f xs) @ c # r = join (CHR '','' # isep) (map f ys) @ c # s"
  shows "xs = ys \<and> r = s"
  using pr ne eq
proof (induction xs arbitrary: ys)
  case Nil
  show ?case
  proof (cases ys)
    case (Cons y zs)
    with Nil.prems(2) [of y] obtain d t where d: "f y = d # t" "\<not> closing d" by auto
    then have "\<exists>u. join (CHR '','' # isep) (map f ys) = d # u"
      using Cons by (cases zs) auto
    with Nil.prems(3) d cl(1) show ?thesis by auto
  qed (use Nil in simp)
next
  case (Cons x xs)
  let ?sep = "CHR '','' # isep"
  obtain d t where d: "f x = d # t" "\<not> closing d" using Cons.prems(2) [of x] by auto
  have hd: "\<exists>u. join ?sep (map f (x # xs)) = d # u" using d by (cases xs) auto
  show ?case
  proof (cases ys)
    case Nil
    with Cons.prems(3) hd d cl(1) show ?thesis by auto
  next
    case (Cons y zs)
    have split: "join ?sep (map f (v # vs)) @ c # q =
        f v @ (if vs = [] then c # q else ?sep @ join ?sep (map f vs) @ c # q)" for v vs q
      by (cases vs) auto
    let ?tail = "\<lambda>vs q. if vs = [] then c # q else ?sep @ join ?sep (map f vs) @ c # q"
    have nd: "no_digit (?tail vs q)" for vs q
      using cl closing_no_digit [of c] closing_no_digit [of "CHR '',''"] by (auto simp: closing_def)
    from Cons.prems(3) Cons have "f x @ ?tail xs r = f y @ ?tail zs s" by (simp only: split)
    from Cons.prems(1) [OF _ _ nd nd this] Cons have xy: "x = y" "?tail xs r = ?tail zs s" by auto
    show ?thesis
    proof (cases "xs = []"; cases "zs = []")
      assume "xs \<noteq> []" "zs \<noteq> []"
      with xy(2) have "join ?sep (map f xs) @ c # r = join ?sep (map f zs) @ c # s" by simp
      from Cons.IH [OF _ _ this] Cons.prems(1,2) Cons xy(1) show ?thesis by auto
    qed (use xy cl(2) Cons in auto)
  qed
qed

lemma dumps_prefix_inj:
  "no_digit r \<Longrightarrow> no_digit s \<Longrightarrow>
     dumps (CHR '','' # isep) ksep a @ r = dumps (CHR '','' # isep) ksep b @ s \<Longrightarrow> a = b \<and> r = s"
proof (induction a arbitrary: b r s)
  case JNull
  with dumps_same_tag [OF JNull(3)] show ?case by (cases b) (auto simp: jtag_def split: if_splits)
next
  case (JBool x)
  with dumps_same_tag [OF JBool(3)] show ?case by (cases b) (auto simp: jtag_def split: if_splits)
next
  case (JInt n)
  from dumps_same_tag [OF JInt(3)] obtain m where "b = JInt m"
    by (cases b) (auto simp: jtag_def split: if_splits)
  with JInt show_int_inj [of r s n m] show ?case by simp
next
  case (JStr t)
  from dumps_same_tag [OF JStr(3)] obtain u where "b = JStr u"
    by (cases b) (auto simp: jtag_def split: if_splits)
  with JStr quote_inj [of t r u s] show ?case by simp
next
  case (JList xs)
  from dumps_same_tag [OF JList.prems(3)] obtain ys where b: "b = JList ys"
    by (cases b) (auto simp: jtag_def split: if_splits)
  let ?d = "dumps (CHR '','' # isep) ksep"
  have ne: "\<exists>c t. ?d x = c # t \<and> \<not> closing c" for x
    using dumps_tag [of "CHR '','' # isep" ksep x] closing_tag jtag_less [of x] by fastforce
  from JList.prems(3) b have eq: "join (CHR '','' # isep) (map ?d xs) @ CHR '']'' # r =
      join (CHR '','' # isep) (map ?d ys) @ CHR '']'' # s" by simp
  have "xs = ys \<and> r = s"
    by (rule join_inj [OF _ ne _ _ eq]) (use JList.IH in \<open>auto simp: closing_def\<close>)
  with b show ?case by simp
next
  case (JObj kvs)
  from dumps_same_tag [OF JObj.prems(3)] obtain ws where b: "b = JObj ws"
    by (cases b) (auto simp: jtag_def split: if_splits)
  let ?d = "\<lambda>(k, v). quote_str k @ ksep @ dumps (CHR '','' # isep) ksep v"
  have ne: "\<exists>c t. ?d x = c # t \<and> \<not> closing c" for x
    by (cases x) (auto simp: quote_str_def closing_def)
  from JObj.prems(3) b have eq: "join (CHR '','' # isep) (map ?d kvs) @ CHR ''}'' # r =
      join (CHR '','' # isep) (map ?d ws) @ CHR ''}'' # s" by simp
  have member: "x = y \<and> p = q"
    if "x \<in> set kvs" "no_digit p" "no_digit q" "?d x @ p = ?d y @ q" for x y p q
  proof -
    obtain k v l w where xy: "x = (k, v)" "y = (l, w)" by (cases x, cases y)
    with that(4) have "quote_str k @ (ksep @ dumps (CHR '','' # isep) ksep v @ p) =
        quote_str l @ (ksep @ dumps (CHR '','' # isep) ksep w @ q)" by simp
    from quote_inj [OF this] have k: "k = l"
      "dumps (CHR '','' # isep) ksep v @ p = dumps (CHR '','' # isep) ksep w @ q" by simp_all
    from JObj.IH [of x v, OF _ _ that(2,3) k(2)] that(1) xy have "v = w \<and> p = q" by simp
    with k xy show ?thesis by simp
  qed
  have "kvs = ws \<and> r = s"
    by (rule join_inj [OF _ ne _ _ eq]) (use member in \<open>auto simp: closing_def\<close>)
  with b show ?case by simp
qed

lemma dumps_default_inj [simp]: "dumps_default a = dumps_default b \<longleftrightarrow> a = b"
  using dumps_prefix_inj [of "[]" "[]" " '' ''" "'': ''" a b]
  by (auto simp: dumps_default_def no_digit_def)

lemma dumps_canonical_inj: "dumps_canonical a = dumps_canonical b \<longleftrightarrow> canonical a = canonical b"
  using dumps_prefix_inj [of "[]" "[]" "[]" "'':''" "canonical a" "canonical b"]
  by (auto simp: dumps_canonical_def no_digit_def)

end
