(* ===== verification/Inventory.thy ===== *)
theory Inventory
  imports Py_Json "HOL-Library.Multiset"
begin

section \<open>The package inventory (\<open>package_inventory.py\<close>, \<open>packit_workflow.py\<close>, \<open>source_lock_order.py\<close>)\<close>

text \<open>
  The one parse of \<open>config/upstream-sources.json\<close> and the contract it enforces, the
  feeds a lock may name, the recipe directories, the package names of \<open>.packit.yaml\<close>
  with the matrix chunks handed to GitHub, and the name order of the lock file. A file is its
  text or its parsed JSON; a directory is a record of what the code looks at in it. Messages of
  errors are cut where the code appends the repr of a value.
\<close>

subsection \<open>Lock entries\<close>

text \<open>
  One entry of the lock: its name, which every reader takes with \<open>entry["name"]\<close>, and its
  other keys.
\<close>

record entry =
  ename :: string
  efields :: "(string, json) dict"

definition field :: "entry \<Rightarrow> string \<Rightarrow> json option" where
  "field e k = map_of (efields e) k"

text \<open>\<open>entry.get(k)\<close>, where an absent key and a null are both None.\<close>

definition field_or_none :: "entry \<Rightarrow> string \<Rightarrow> json" where
  "field_or_none e k = (case field e k of None \<Rightarrow> JNull | Some v \<Rightarrow> v)"

text \<open>\<open>entry.get("stage") or 0\<close>; the contract below leaves only integers there.\<close>

definition entry_stage :: "entry \<Rightarrow> int" where
  "entry_stage e = (case as_int (field_or_none e ''stage'') of Some n \<Rightarrow> n | None \<Rightarrow> 0)"

subsection \<open>Release feeds\<close>

definition segment :: "string \<Rightarrow> string \<times> string" where
  "segment s = (takeWhile (\<lambda>c. c \<noteq> CHR ''/'') s, dropWhile (\<lambda>c. c \<noteq> CHR ''/'') s)"

definition github_repo :: "string \<Rightarrow> string \<Rightarrow> (string \<times> string) option" where
  "github_repo tail url =
     (if starts_with ''https://github.com/'' url then
        (case segment (drop 19 url) of (owner, r1) \<Rightarrow>
           (case r1 of [] \<Rightarrow> None
            | _ # r2 \<Rightarrow> (case segment r2 of (repo, r3) \<Rightarrow>
                if owner \<noteq> [] \<and> repo \<noteq> [] \<and> starts_with tail r3 then Some (owner, repo) else None)))
      else None)"

text \<open>The shortest non-empty path, free of line ends, before \<open>/-/archive/\<close> or \<open>/-/releases/\<close>.\<close>

fun gitlab_path :: "string \<Rightarrow> string \<Rightarrow> string option" where
  "gitlab_path acc s =
     (if acc \<noteq> [] \<and> (starts_with ''/-/archive/'' s \<or> starts_with ''/-/releases/'' s)
      then Some (rev acc)
      else (case s of [] \<Rightarrow> None
            | c # cs \<Rightarrow> if c = CHR 0x0A then None else gitlab_path (c # acc) cs))"

declare gitlab_path.simps [simp del]

definition gitlab_repo :: "string \<Rightarrow> (string \<times> string) option" where
  "gitlab_repo url =
     (let rest = (if starts_with ''https://'' url then Some (drop 8 url)
                  else if starts_with ''http://'' url then Some (drop 7 url) else None)
      in case rest of None \<Rightarrow> None
         | Some r \<Rightarrow> (case segment r of (host, r1) \<Rightarrow>
             (case r1 of [] \<Rightarrow> None
              | _ # r2 \<Rightarrow> if contains ''gitlab'' host
                  then map_option (\<lambda>p. (host, p)) (gitlab_path [] r2) else None)))"

type_synonym feed = "(string, string) dict"

definition parse_feed_url :: "string \<Rightarrow> feed option" where
  "parse_feed_url url =
     (case github_repo ''/releases/download/'' url of
        Some (owner, repo) \<Rightarrow> Some [(''forge'', ''github''), (''endpoint'', ''releases''),
          (''owner'', owner), (''repo'', repo)]
      | None \<Rightarrow>
     (case github_repo ''/archive/'' url of
        Some (owner, repo) \<Rightarrow> Some [(''forge'', ''github''), (''endpoint'', ''tags''),
          (''owner'', owner), (''repo'', repo)]
      | None \<Rightarrow>
     (case gitlab_repo url of
        Some (host, path) \<Rightarrow> Some [(''forge'', ''gitlab''), (''endpoint'', ''tags''),
          (''host'', host), (''path'', path)]
      | None \<Rightarrow> None)))"

definition gnome_module :: "string \<Rightarrow> string option" where
  "gnome_module url =
     (if starts_with ''https://download.gnome.org/sources/'' url then
        (case segment (drop 35 url) of (m, r) \<Rightarrow> if m \<noteq> [] \<and> r \<noteq> [] then Some m else None)
      else None)"

text \<open>\<open>/?$\<close>: an optional slash, and \<open>$\<close> also matches before a final line end.\<close>

definition anitya_project :: "string \<Rightarrow> string option" where
  "anitya_project url =
     (if starts_with ''https://release-monitoring.org/project/'' url then
        (let s = drop 39 url; n = takeWhile is_digit s; r = dropWhile is_digit s in
         if n \<noteq> [] \<and> r \<in> set [[], ''/'', [CHR 0x0A], [CHR ''/'', CHR 0x0A]] then Some n else None)
      else None)"

definition parse_explicit_feed :: "string \<Rightarrow> feed option" where
  "parse_explicit_feed url =
     (case parse_feed_url url of
        Some f \<Rightarrow> Some f
      | None \<Rightarrow>
     (case gnome_module url of
        Some m \<Rightarrow> Some [(''forge'', ''gnome''), (''module'', m)]
      | None \<Rightarrow>
     (case anitya_project url of
        Some n \<Rightarrow> Some [(''forge'', ''anitya''), (''id'', n)]
      | None \<Rightarrow> None)))"

subsection \<open>The source locks\<close>

definition known_stages :: "int list" where
  "known_stages = [0..10]"

definition build_lanes :: "string list" where
  "build_lanes = [''container'']"

definition check_lookaside :: "entry \<Rightarrow> unit result" where
  "check_lookaside e =
     assert_r (ValueError (''unknown lookaside for '' @ ename e))
       (case field e ''lookaside'' of None \<Rightarrow> True
        | Some v \<Rightarrow> v = JStr ''fedora'' \<or> v = JStr ''rpmfusion-free'')"

definition check_stage :: "entry \<Rightarrow> unit result" where
  "check_stage e =
     assert_r (ValueError (''unknown stage for '' @ ename e))
       (case field e ''stage'' of None \<Rightarrow> True
        | Some v \<Rightarrow> (case as_int v of None \<Rightarrow> False | Some n \<Rightarrow> n \<in> set known_stages))"

text \<open>\<open>lane not in BUILD_LANES\<close> raises TypeError for a list or a dict, which cannot be hashed.\<close>

definition check_lane :: "entry \<Rightarrow> unit result" where
  "check_lane e =
     (case field_or_none e ''build_lane'' of
        JNull \<Rightarrow> Inr ()
      | JList _ \<Rightarrow> Inl TypeError
      | JObj _ \<Rightarrow> Inl TypeError
      | JStr lane \<Rightarrow>
          bind_r (assert_r (ValueError (''unknown build_lane for '' @ ename e)) (lane \<in> set build_lanes))
            (\<lambda>_. assert_r (ValueError (ename e @ '': build_lane needs a build_lane_reason''))
              (case field e ''build_lane_reason'' of Some (JStr r) \<Rightarrow> strip r \<noteq> [] | _ \<Rightarrow> False))
      | _ \<Rightarrow> Inl (ValueError (''unknown build_lane for '' @ ename e)))"

definition check_feed :: "entry \<Rightarrow> unit result" where
  "check_feed e =
     (case field_or_none e ''feed'' of
        JNull \<Rightarrow> Inr ()
      | JStr url \<Rightarrow> assert_r (ValueError (''unparseable feed for '' @ ename e)) (parse_explicit_feed url \<noteq> None)
      | _ \<Rightarrow> Inl TypeError)"

definition check_entry :: "entry \<Rightarrow> unit result" where
  "check_entry e =
     bind_r (check_lookaside e) (\<lambda>_. bind_r (check_stage e) (\<lambda>_. bind_r (check_lane e) (\<lambda>_. check_feed e)))"

definition add_lock :: "entry \<Rightarrow> (string, entry) dict \<Rightarrow> (string, entry) dict result" where
  "add_lock e locks =
     (if dict_has locks (ename e) then Inl (ValueError (''duplicate source lock: '' @ ename e))
      else bind_r (check_entry e) (\<lambda>_. Inr (AList.update (ename e) e locks)))"

definition load_source_locks :: "entry list \<Rightarrow> (string, entry) dict result" where
  "load_source_locks packages = fold_r add_lock packages []"

subsection \<open>Package names of \<open>.packit.yaml\<close>\<close>

definition name_start :: "char \<Rightarrow> bool" where
  "name_start c = (let n = of_char c :: nat in
     (48 \<le> n \<and> n \<le> 57) \<or> (65 \<le> n \<and> n \<le> 90) \<or> (97 \<le> n \<and> n \<le> 122))"

definition name_char :: "char \<Rightarrow> bool" where
  "name_char c = (name_start c \<or> c \<in> set ''+._-'')"

text \<open>
  \<open>PACKAGE_KEY.fullmatch\<close>: two spaces, a name, a colon, and nothing else (a line of
  \<open>splitlines\<close> has no line end left for \<open>$\<close>).
\<close>

definition package_key :: "string \<Rightarrow> string option" where
  "package_key line =
     (if starts_with ''  '' line \<and> ends_with '':'' line \<and> 4 \<le> length line then
        (let name = butlast (drop 2 line) in
         if name_start (hd name) \<and> list_all name_char name then Some name else None)
      else None)"

text \<open>\<open>text.split(sep, 1)\<close>: what follows the first occurrence of \<open>sep\<close>, if there is one.\<close>

fun after_first :: "string \<Rightarrow> string \<Rightarrow> string option" where
  "after_first sep s =
     (if starts_with sep s then Some (drop (length sep) s)
      else (case s of [] \<Rightarrow> None | _ # cs \<Rightarrow> after_first sep cs))"

declare after_first.simps [simp del]

definition package_names :: "string \<Rightarrow> string list result" where
  "package_names text =
     (case after_first (''packages:'' @ [CHR 0x0A]) text of
        None \<Rightarrow> Inl IndexError
      | Some packages \<Rightarrow> Inr (List.map_filter package_key (splitlines packages)))"

text \<open>\<open>[names[i : i + size] for i in range(0, len(names), size)]\<close>.\<close>

function chunks_of :: "nat \<Rightarrow> 'a list \<Rightarrow> 'a list list" where
  "chunks_of n xs = (if xs = [] \<or> n = 0 then [] else take n xs # chunks_of n (drop n xs))"
  by pat_completeness auto
termination
  by (relation "measure (\<lambda>(_, xs). length xs)") auto

declare chunks_of.simps [simp del]

lemma chunks_of_spec:
  "0 < n \<Longrightarrow> concat (chunks_of n xs) = xs \<and> (\<forall>c \<in> set (chunks_of n xs). c \<noteq> [] \<and> length c \<le> n)"
proof (induction n xs rule: chunks_of.induct)
  case (1 n xs)
  then show ?case
    by (cases "xs = []") (simp_all add: chunks_of.simps [of n "[]"] chunks_of.simps [of n xs])
qed

lemma chunks_of_Nil [simp]: "chunks_of n [] = []"
  by (simp add: chunks_of.simps)

definition matrix_chunk :: nat where
  "matrix_chunk = 250"

definition json_names :: "string list \<Rightarrow> string" where
  "json_names names = dumps_default (JList (map JStr names))"

lemma json_names_inj [simp]: "json_names xs = json_names ys \<longleftrightarrow> xs = ys"
  by (auto simp: json_names_def inj_map_eq_map inj_def)

definition package_chunks :: "string list \<Rightarrow> int \<Rightarrow> string list result" where
  "package_chunks names n =
     (if n < 1 then Inl (ValueError ''chunk size must be positive'')
      else Inr (map json_names (chunks_of (nat n) names)))"

subsection \<open>Recipe directories\<close>

text \<open>
  A directory under \<open>packages/\<close>: its name, the names of its spec files, and the parsed
  provenance file, None when it is absent, unreadable or not JSON.
\<close>

record pkg_dir =
  dname :: string
  dspecs :: "string list"
  dprov :: "json option"

definition spec_per_package :: "pkg_dir list \<Rightarrow> (string, string) dict result" where
  "spec_per_package dirs =
     fold_r (\<lambda>d specs.
       if length (dspecs d) \<noteq> 1
       then Inl (ValueError (''expected exactly one spec in '' @ dname d))
       else if dict_has specs (dname d)
       then Inl (ValueError (''duplicate spec directory: '' @ dname d))
       else Inr (AList.update (dname d) (hd (sort (dspecs d))) specs))
       (sort_key dname dirs) []"

text \<open>A provenance that is JSON but no object has no \<open>.get\<close>.\<close>

definition add_provenance :: "pkg_dir \<Rightarrow> (string, string) dict \<Rightarrow> (string, string) dict result" where
  "add_provenance d prov =
     (case dprov d of
        None \<Rightarrow> Inr prov
      | Some (JObj kvs) \<Rightarrow>
          (case map_of kvs ''branch'' of
             Some (JStr branch) \<Rightarrow> Inr (AList.update (dname d) branch prov)
           | _ \<Rightarrow> Inr prov)
      | Some _ \<Rightarrow> Inl AttributeError)"

definition recipe_provenance :: "pkg_dir list \<Rightarrow> (string, string) dict result" where
  "recipe_provenance dirs = fold_r add_provenance (sort_key dname dirs) []"

record package_record =
  pname :: string
  pspec :: string
  pstage :: int
  source_locked :: bool
  packit_configured :: bool
  provenance_branch :: "string option"

definition lock_stage :: "(string, entry) dict \<Rightarrow> string \<Rightarrow> int" where
  "lock_stage locks name =
     (case map_of locks name of None \<Rightarrow> 0
      | Some e \<Rightarrow> (case field e ''stage'' of None \<Rightarrow> 0
          | Some v \<Rightarrow> (case as_int v of None \<Rightarrow> 0 | Some n \<Rightarrow> n)))"

definition inventory :: "pkg_dir list \<Rightarrow> entry list \<Rightarrow> string \<Rightarrow> package_record list result" where
  "inventory dirs packages packit =
     bind_r (spec_per_package dirs) (\<lambda>specs.
     bind_r (load_source_locks packages) (\<lambda>locks.
     bind_r (package_names packit) (\<lambda>names.
     bind_r (recipe_provenance dirs) (\<lambda>prov.
       Inr (map (\<lambda>(name, spec). \<lparr>pname = name, pspec = spec, pstage = lock_stage locks name,
                 source_locked = dict_has locks name, packit_configured = name \<in> set names,
                 provenance_branch = map_of prov name\<rparr>) specs)))))"

subsection \<open>The name order of the lock (\<open>source_lock_order.py\<close>)\<close>

definition lock_order_key :: "json \<Rightarrow> string result" where
  "lock_order_key v =
     (case v of
        JObj kvs \<Rightarrow> (case map_of kvs ''name'' of
            Some (JStr n) \<Rightarrow> Inr n
          | _ \<Rightarrow> Inl (ValueError ''source lock entry has no name''))
      | _ \<Rightarrow> Inl (ValueError ''source lock entry has no name''))"

definition in_lock_order :: "json list \<Rightarrow> json list result" where
  "in_lock_order packages =
     bind_r (map_r lock_order_key packages) (\<lambda>keys.
       Inr (map snd (sort_key fst (zip keys packages))))"

fun first_misordered :: "json list \<Rightarrow> (string \<times> string) option result" where
  "first_misordered (a # b # rest) =
     bind_r (lock_order_key b) (\<lambda>later. bind_r (lock_order_key a) (\<lambda>earlier.
       if later < earlier then Inr (Some (earlier, later)) else first_misordered (b # rest)))"
| "first_misordered _ = Inr None"

text \<open>\<open>sort_lock\<close>: None when nothing moves, otherwise the packages the file is rewritten with.\<close>

definition sort_lock :: "json list \<Rightarrow> json list option result" where
  "sort_lock packages =
     bind_r (in_lock_order packages) (\<lambda>ordered.
     bind_r (map_r lock_order_key ordered) (\<lambda>new.
     bind_r (map_r lock_order_key packages) (\<lambda>old.
       Inr (if new = old then None else Some ordered))))"

subsection \<open>What the contract gives\<close>

lemma fold_add_lock:
  "fold_r add_lock es locks = Inr ls \<longleftrightarrow>
     distinct (map ename es) \<and> ename ` set es \<inter> fst ` set locks = {} \<and>
     list_all (\<lambda>e. check_entry e = Inr ()) es \<and> ls = locks @ map (\<lambda>e. (ename e, e)) es"
proof (induction es arbitrary: locks)
  case Nil
  then show ?case by auto
next
  case (Cons e es)
  have new: "AList.update k v d = d @ [(k, v)]" if "k \<notin> fst ` set d"
    for k and v :: entry and d :: "(string, entry) dict"
    using that by (induction d) auto
  show ?case
  proof (cases "ename e \<in> fst ` set locks")
    case True
    then show ?thesis by (simp add: add_lock_def dict_has_iff)
  next
    case False
    with new [OF this, of e] Cons.IH [of "locks @ [(ename e, e)]"] show ?thesis
      by (cases "check_entry e") (auto simp: add_lock_def dict_has_iff)
  qed
qed

lemma map_r_lock_keys:
  "map_r lock_order_key packages = Inr keys \<Longrightarrow> length keys = length packages \<and>
     (\<forall>i < length packages. lock_order_key (packages ! i) = Inr (keys ! i))"
  by (auto simp: map_r_Inr list_all2_conv_all_nth)

text \<open>The key of an entry whose key is known to exist.\<close>

definition key_or :: "json \<Rightarrow> string" where
  "key_or v = (case lock_order_key v of Inr n \<Rightarrow> n | Inl _ \<Rightarrow> [])"

lemma lock_keys_map: "map_r lock_order_key packages = Inr keys \<Longrightarrow> keys = map key_or packages"
  by (induction packages arbitrary: keys) (auto simp: bind_r_Inr key_or_def)

lemma sort_key_zip: "map snd (sort_key fst (zip (map f xs) xs)) = sort_key f xs"
proof -
  have "zip (map f xs) xs = map (\<lambda>x. (f x, x)) xs" by (induction xs) auto
  moreover have "sort_key fst (map (\<lambda>x. (f x, x)) xs) = map (\<lambda>x. (f x, x)) (sort_key f xs)"
  proof (induction xs)
    case (Cons x xs)
    have "insort_key fst (f x, x) (map (\<lambda>x. (f x, x)) ys) = map (\<lambda>x. (f x, x)) (insort_key f x ys)"
      for ys by (induction ys) auto
    with Cons show ?case by simp
  qed simp
  ultimately show ?thesis by (simp add: comp_def)
qed

lemma in_lock_order_sort:
  "map_r lock_order_key packages = Inr keys \<Longrightarrow> in_lock_order packages = Inr (sort_key key_or packages)"
  using lock_keys_map [of packages keys] by (simp add: in_lock_order_def sort_key_zip)

lemma map_r_keys_subset:
  "map_r lock_order_key packages = Inr keys \<Longrightarrow> set qs \<subseteq> set packages \<Longrightarrow>
     map_r lock_order_key qs = Inr (map key_or qs)"
proof -
  assume k: "map_r lock_order_key packages = Inr keys" and sub: "set qs \<subseteq> set packages"
  have "lock_order_key q = Inr (key_or q)" if "q \<in> set packages" for q
    using k that by (auto simp: map_r_Inr list_all2_conv_all_nth in_set_conv_nth key_or_def)
  with sub have "lock_order_key q = Inr (key_or q)" if "q \<in> set qs" for q using that by blast
  then show ?thesis by (rule map_r_total)
qed

lemma sorted_wrt_adjacent: "sorted (map key_or (a # b # xs)) \<longleftrightarrow> key_or a \<le> key_or b \<and> sorted (map key_or (b # xs))"
  by (auto intro: order_trans)

lemma first_misordered_None:
  "map_r lock_order_key packages = Inr keys \<Longrightarrow>
     first_misordered packages = Inr None \<longleftrightarrow> sorted (map key_or packages)"
proof (induction packages arbitrary: keys rule: first_misordered.induct)
  case (1 a b rest)
  then obtain ka kb ks where k: "lock_order_key a = Inr ka" "lock_order_key b = Inr kb"
    "map_r lock_order_key (b # rest) = Inr (kb # ks)" by (auto simp: bind_r_Inr)
  then have "ka = key_or a" "kb = key_or b" by (simp_all add: key_or_def)
  with k "1.IH" [OF k(2,1) _ k(3)] show ?case
    by (simp only: sorted_wrt_adjacent first_misordered.simps bind_r_simps) auto
qed simp_all


subsection \<open>Properties\<close>

text \<open>
  the lock file is accepted exactly when no name occurs twice and every entry keeps the
  contract (lookaside, stage, build lane with its reason, feed); the locks are then the entries
  under their names, in file order, and nothing is dropped or merged.
\<close>

theorem load_source_locks_exact:
  "load_source_locks es = Inr locks \<longleftrightarrow>
     distinct (map ename es) \<and> list_all (\<lambda>e. check_entry e = Inr ()) es \<and>
     locks = map (\<lambda>e. (ename e, e)) es"
  by (auto simp: load_source_locks_def fold_add_lock)

text \<open>
  sorting the lock keeps the very same entries, puts them in an order the check accepts and
  is idempotent; and the check passes exactly when the rewrite would not touch the file.
\<close>

theorem lock_order_restored:
  assumes "map_r lock_order_key packages = Inr keys"
  shows "\<exists>ordered. in_lock_order packages = Inr ordered \<and> mset ordered = mset packages \<and>
    first_misordered ordered = Inr None \<and> sort_lock ordered = Inr None \<and>
    (first_misordered packages = Inr None \<longleftrightarrow> sort_lock packages = Inr None)"
proof -
  let ?o = "sort_key key_or packages"
  note o = in_lock_order_sort [OF assms]
  note ko = map_r_keys_subset [OF assms, of ?o, simplified] map_r_keys_subset [OF assms, of packages, simplified]
  have keys: "map key_or ?o = sort (map key_or packages)"
    by (rule properties_for_sort [symmetric]) simp_all
  have s: "sort_lock ps = Inr (if sort (map key_or ps) = map key_or ps then None else Some (sort_key key_or ps))"
    if "map_r lock_order_key ps = Inr (map key_or ps)" for ps
  proof -
    have "map_r lock_order_key (sort_key key_or ps) = Inr (map key_or (sort_key key_or ps))"
      using map_r_keys_subset [OF that, of "sort_key key_or ps"] by simp
    moreover have "map key_or (sort_key key_or ps) = sort (map key_or ps)"
      by (rule properties_for_sort [symmetric]) simp_all
    ultimately show ?thesis using that by (simp add: sort_lock_def in_lock_order_sort [OF that])
  qed
  have sorted: "sort ks = ks \<longleftrightarrow> sorted ks" for ks :: "string list"
    by (metis sorted_sort sort_key_id_if_sorted list.map_ident)
  have "sort_lock ?o = Inr None" by (subst s [OF ko(1)]) (simp add: keys sorted)
  moreover have "first_misordered ?o = Inr None" using first_misordered_None [OF ko(1)] by simp
  moreover have "first_misordered packages = Inr None \<longleftrightarrow> sort_lock packages = Inr None"
    using first_misordered_None [OF assms] by (simp add: s [OF ko(2)] sorted)
  ultimately show ?thesis using o by simp
qed

definition example_lock :: "json list" where
  "example_lock = [JObj [(''name'', JStr ''b'')], JObj [(''stage'', JInt 1), (''name'', JStr ''a'')]]"

lemma lock_order_restored_witness:
  "first_misordered example_lock \<noteq> Inr None \<and> sort_lock example_lock \<noteq> Inr None"
proof -
  have k: "map_r lock_order_key example_lock = Inr [''b'', ''a'']" by code_simp
  have "first_misordered example_lock = Inr (Some (''b'', ''a''))" by code_simp
  with lock_order_restored [OF k] show ?thesis by auto
qed

text \<open>
  the matrix chunks are a split of the package names: printed and joined in order they are
  the whole list, no chunk is empty, and none has more names than the size asked for.
\<close>

theorem package_chunks_split:
  assumes "1 \<le> n"
  shows "\<exists>cs. package_chunks names n = Inr (map json_names cs) \<and> concat cs = names \<and>
    list_all (\<lambda>c. c \<noteq> [] \<and> int (length c) \<le> n) cs"
proof -
  have "0 < nat n" using assms by simp
  from chunks_of_spec [OF this, of names] have "concat (chunks_of (nat n) names) = names"
    "\<forall>c \<in> set (chunks_of (nat n) names). c \<noteq> [] \<and> length c \<le> nat n" by auto
  with assms show ?thesis
    by (intro exI [of _ "chunks_of (nat n) names"]) (auto simp: package_chunks_def list_all_iff)
qed

lemma package_chunks_split_witness:
  "\<exists>cs. package_chunks [''a'', ''b'', ''c''] 2 = Inr (map json_names cs) \<and> concat cs = [''a'', ''b'', ''c'']"
  using package_chunks_split [of 2 "[''a'', ''b'', ''c'']"] by auto

end
