(* ===== verification/Dist_Bump.thy ===== *)
theory Dist_Bump
  imports Inventory
begin

section \<open>The release a recipe builds as (\<open>dist_bump.py\<close>)\<close>

text \<open>
  \<open>spec_release\<close> takes the literal release out of a spec, \<open>suffix\<close> the \<open>.N\<close> counter a
  lock entry records against it. A spec is its text.
\<close>

text \<open>
  \<open>^Release:\s*(\S+)\<close> with MULTILINE: at the start of the text or after a line feed; the
  white space may run over line ends, as \<open>\s\<close> does.
\<close>

definition release_here :: "string \<Rightarrow> string option" where
  "release_here s =
     (if starts_with ''Release:'' s then
        (let w = takeWhile (\<lambda>c. \<not> is_space c) (dropWhile is_space (drop 8 s))
         in if w = [] then None else Some w)
      else None)"

fun release_search :: "bool \<Rightarrow> string \<Rightarrow> string option" where
  "release_search bol [] = None"
| "release_search bol (c # cs) =
     (case (if bol then release_here (c # cs) else None) of
        Some w \<Rightarrow> Some w
      | None \<Rightarrow> release_search (c = CHR 0x0A) cs)"

definition spec_release :: "string \<Rightarrow> string option result" where
  "spec_release spec =
     (case release_search True spec of
        None \<Rightarrow> Inl (BumpError ''spec has no Release: line'')
      | Some w \<Rightarrow> (let lit = before CHR ''%'' w in Inr (if lit = [] then None else Some lit)))"

definition suffix :: "entry \<Rightarrow> string \<Rightarrow> string result" where
  "suffix e release =
     (case field_or_none e ''dist_bump'' of
        JNull \<Rightarrow> Inr []
      | JObj bump \<Rightarrow>
          (case (map_of bump ''count'', map_of bump ''baseline'') of
             (Some n, Some baseline) \<Rightarrow>
               bind_r (py_str baseline) (\<lambda>b.
                 if b \<noteq> release then Inr [] else bind_r (py_str n) (\<lambda>s. Inr (''.'' @ s)))
           | _ \<Rightarrow> Inl (BumpError ''dist_bump must be {count, baseline}''))
      | _ \<Rightarrow> Inl (BumpError ''dist_bump must be {count, baseline}''))"

text \<open>\<open>main\<close>: the suffix of one package, from the locks and the texts of its specs in name order.\<close>

definition bump_main :: "(string, entry) dict \<Rightarrow> (string \<Rightarrow> string list) \<Rightarrow> string \<Rightarrow> string result" where
  "bump_main locks specs name =
     (case map_of locks name of
        None \<Rightarrow> Inr []
      | Some e \<Rightarrow>
          if field_or_none e ''dist_bump'' = JNull then Inr []
          else (case specs name of
                  [] \<Rightarrow> Inl (BumpError (name @ '' records a dist_bump but has no spec''))
                | spec # _ \<Rightarrow>
                    bind_r (spec_release spec) (\<lambda>r. case r of
                      None \<Rightarrow> Inr [] | Some release \<Rightarrow> suffix e release)))"

text \<open>A spec that records its release on a line of its own reads back as that release.\<close>

lemma release_here_value:
  assumes "w \<noteq> []" "\<forall>c \<in> set w. \<not> is_space c" "s = [] \<or> is_space (hd s)"
  shows "release_here (''Release:'' @ ''  '' @ w @ s) = Some w"
proof -
  have sp: "is_space CHR '' ''" by (simp add: is_space_def)
  have dw: "dropWhile is_space (''  '' @ w @ s) = w @ s"
    using assms sp by (cases w) auto
  have tk: "takeWhile (\<lambda>c. \<not> is_space c) (w @ s) = w"
    using assms(2,3) by (cases s) (auto simp: takeWhile_append)
  show ?thesis using assms(1) dw tk by (simp add: release_here_def)
qed

lemma suffix_no_bump: "field_or_none e ''dist_bump'' = JNull \<Longrightarrow> suffix e release = Inr []"
  by (simp add: suffix_def)

lemma suffix_bump:
  assumes "field e ''dist_bump'' = Some (JObj bump)" "map_of bump ''count'' = Some (JInt n)"
    "map_of bump ''baseline'' = Some (JStr baseline)"
  shows "suffix e release = Inr (if baseline = release then ''.'' @ show_int n else [])"
  using assms by (simp add: suffix_def field_or_none_def)

end
