(* ===== verification/Primary_Xml.thy ===== *)
theory Primary_Xml
  imports Py_Strings
begin

section \<open>Reading \<open>primary.xml\<close> (\<open>rebuild_plan.py\<close>)\<close>

text \<open>
  What the planner learns from a repository listing: the published source packages with
  their version and release, the runtime dependents of every source, the capabilities a
  repository provides, and the published packages whose sonames moved away. The XML parser is
  the standard library's: the functions below start from the element tree it returns, while
  \<open>published_from_primary\<close>, which is a regular expression over the bytes, works on the text.
\<close>

subsection \<open>Element trees\<close>

datatype xml = Elem (xtag: string) (xattrs: "(string, string) dict") (xtext: "string option") (xkids: "xml list")

fun iter_tag :: "string \<Rightarrow> xml \<Rightarrow> xml list" where
  "iter_tag tag (Elem t a x kids) =
     (if t = tag then [Elem t a x kids] else []) @ concat (map (iter_tag tag) kids)"

definition find_kid :: "string \<Rightarrow> xml \<Rightarrow> xml option" where
  "find_kid tag e = List.find (\<lambda>k. xtag k = tag) (xkids e)"

definition kids_named :: "string \<Rightarrow> xml \<Rightarrow> xml list" where
  "kids_named tag e = filter (\<lambda>k. xtag k = tag) (xkids e)"

text \<open>\<open>findtext\<close>: None without the child, the empty string for a child without text.\<close>

definition find_text :: "string \<Rightarrow> xml \<Rightarrow> string option" where
  "find_text tag e = map_option (\<lambda>k. case xtext k of None \<Rightarrow> [] | Some s \<Rightarrow> s) (find_kid tag e)"

definition or_empty :: "string option \<Rightarrow> string" where
  "or_empty s = (case s of None \<Rightarrow> [] | Some t \<Rightarrow> t)"

definition common_tag :: "string \<Rightarrow> string" where
  "common_tag t = ''{http://linux.duke.edu/metadata/common}'' @ t"

definition rpm_tag :: "string \<Rightarrow> string" where
  "rpm_tag t = ''{http://linux.duke.edu/metadata/rpm}'' @ t"

subsection \<open>Source names\<close>

definition source_name :: "string \<Rightarrow> string option" where
  "source_name sourcerpm =
     (if \<not> ends_with ''.src.rpm'' sourcerpm then None
      else let nevr = take (length sourcerpm - 8) sourcerpm;
               name = fst (rpartition CHR ''-'' (fst (rpartition CHR ''-'' nevr)))
           in if name = [] then None else Some name)"

definition packages_of :: "xml \<Rightarrow> xml list" where
  "packages_of root = iter_tag (common_tag ''package'') root"

definition format_of :: "xml \<Rightarrow> xml option" where
  "format_of package = find_kid (common_tag ''format'') package"

definition source_of :: "xml \<Rightarrow> string option" where
  "source_of fmt = source_name (or_empty (find_text (rpm_tag ''sourcerpm'') fmt))"

text \<open>The name attributes under \<open>provides\<close> or \<open>requires\<close>, and the files a package lists.\<close>

definition entries_of :: "string \<Rightarrow> xml \<Rightarrow> string list" where
  "entries_of what fmt =
     map (\<lambda>entry. dict_get (xattrs entry) ''name'' [])
       (concat (map (kids_named (rpm_tag ''entry'')) (kids_named (rpm_tag what) fmt)))"

definition files_of :: "xml \<Rightarrow> string list" where
  "files_of fmt = map (\<lambda>f. or_empty (xtext f)) (kids_named (common_tag ''file'') fmt)"

text \<open>The packages that have a format and a source, with both.\<close>

definition sourced :: "xml \<Rightarrow> (string \<times> xml \<times> xml) list" where
  "sourced root =
     concat (map (\<lambda>package. case format_of package of
        None \<Rightarrow> []
      | Some fmt \<Rightarrow> (case source_of fmt of None \<Rightarrow> [] | Some s \<Rightarrow> [(s, package, fmt)]))
      (packages_of root))"

subsection \<open>What is published\<close>

text \<open>
  The regular expression is anchored by its literals: the text between the tags is the
  longest run without \<open><\<close>, it must end in \<open>.src.rpm\<close> with something before it, and the
  closing tag must follow. \<open>finditer\<close> goes on after a match, otherwise one byte further.
  Bytes are ASCII here, as in the names the build system allows.
\<close>

definition sourcerpm_match :: "string \<Rightarrow> (string \<times> string) option" where
  "sourcerpm_match s =
     (if starts_with ''<rpm:sourcerpm>'' s then
        (let body = takeWhile (\<lambda>c. c \<noteq> CHR ''<'') (drop 15 s);
             rest = dropWhile (\<lambda>c. c \<noteq> CHR ''<'') (drop 15 s)
         in if ends_with ''.src.rpm'' body \<and> 8 < length body \<and> starts_with ''</rpm:sourcerpm>'' rest
            then Some (take (length body - 8) body, drop 16 rest) else None)
      else None)"

lemma sourcerpm_match_shorter: "sourcerpm_match s = Some (n, r) \<Longrightarrow> length r < length s"
proof -
  assume "sourcerpm_match s = Some (n, r)"
  then have r: "r = drop 16 (dropWhile (\<lambda>c. c \<noteq> CHR ''<'') (drop 15 s))" and "s \<noteq> []"
    by (auto simp: sourcerpm_match_def Let_def split: if_splits)
  have "length r \<le> length (drop 15 s)"
    unfolding r by (metis diff_le_self dual_order.trans length_drop length_dropWhile_le)
  with \<open>s \<noteq> []\<close> show ?thesis by (cases s) auto
qed

function sourcerpm_findall :: "string \<Rightarrow> string list" where
  "sourcerpm_findall s = (case sourcerpm_match s of
      Some (n, r) \<Rightarrow> n # sourcerpm_findall r
    | None \<Rightarrow> (case s of [] \<Rightarrow> [] | c # cs \<Rightarrow> sourcerpm_findall cs))"
  by pat_completeness auto
termination
  by (relation "measure length") (auto dest: sourcerpm_match_shorter)

declare sourcerpm_findall.simps [simp del]

definition add_published :: "string \<Rightarrow> (string, string \<times> string) dict \<Rightarrow> (string, string \<times> string) dict" where
  "add_published nevr published =
     (case rpartition CHR ''-'' nevr of (nv, remainder) \<Rightarrow>
       (case rpartition CHR ''-'' nv of (name, version) \<Rightarrow>
         if name = [] then published else AList.update name (version, remainder) published))"

definition published_from_primary :: "string \<Rightarrow> (string, string \<times> string) dict" where
  "published_from_primary primary = fold add_published (sourcerpm_findall primary) []"

subsection \<open>Runtime dependents\<close>

definition provided_by :: "xml \<Rightarrow> (string, string list) dict" where
  "provided_by root =
     fold (\<lambda>(source, _, fmt) p.
       fold (\<lambda>c. dict_add c source) (entries_of ''provides'' fmt @ files_of fmt) p)
       (sourced root) []"

definition requires_list :: "xml \<Rightarrow> (string \<times> string list) list" where
  "requires_list root = map (\<lambda>(source, _, fmt). (source, remdups (entries_of ''requires'' fmt))) (sourced root)"

definition dependents_from_primary :: "xml \<Rightarrow> (string, string list) dict" where
  "dependents_from_primary root =
     fold (\<lambda>(source, needed) d.
       fold (\<lambda>capability d.
         fold (\<lambda>provider d. if provider \<noteq> source then dict_add provider source d else d)
           (dict_get (provided_by root) capability []) d) needed d)
       (requires_list root) []"

subsection \<open>What is provided\<close>

definition excluded_external :: "(string \<times> string) list" where
  "excluded_external = [(''libicu'', ''77.'')]"

definition is_excluded :: "(string \<times> string) list \<Rightarrow> xml \<Rightarrow> bool" where
  "is_excluded excluded package =
     (let name = or_empty (find_text (common_tag ''name'') package);
          ver = (case find_kid (common_tag ''version'') package of
                   None \<Rightarrow> [] | Some v \<Rightarrow> dict_get (xattrs v) ''ver'' [])
      in list_ex (\<lambda>(n, prefix). name = n \<and> starts_with prefix ver) excluded)"

definition provides_from_primary :: "(string \<times> string) list \<Rightarrow> xml \<Rightarrow> string list" where
  "provides_from_primary excluded root =
     fold (\<lambda>package provided. case format_of package of
         None \<Rightarrow> provided
       | Some fmt \<Rightarrow>
           if is_excluded excluded package then provided
           else set_union provided (remdups (entries_of ''provides'' fmt @ files_of fmt)))
       (packages_of root) []"

definition add_provided :: "string \<Rightarrow> string list \<Rightarrow> (string, string list) dict \<Rightarrow> (string, string list) dict" where
  "add_provided source caps result =
     AList.update source (filter (\<lambda>c. c \<noteq> []) (set_union (dict_get result source []) (remdups caps))) result"

definition provides_by_source :: "xml \<Rightarrow> (string, string list) dict" where
  "provides_by_source root =
     fold (\<lambda>(source, package, fmt) result.
       add_provided source
         ((case find_text (common_tag ''name'') package of None \<Rightarrow> [] | Some n \<Rightarrow> [n])
            @ entries_of ''provides'' fmt @ files_of fmt) result)
       (sourced root) []"

subsection \<open>Moved sonames\<close>

text \<open>
  SONAME: a run without parentheses and white space that is a base ending in \<open>.so\<close>, a
  dot and a non-empty version, the base as short as possible; then nothing or parenthesised
  groups up to the end.
\<close>

fun so_base :: "string \<Rightarrow> string \<Rightarrow> string option" where
  "so_base acc s =
     (if acc \<noteq> [] \<and> starts_with ''.so.'' s \<and> 4 < length s then Some (rev acc @ ''.so'')
      else (case s of [] \<Rightarrow> None | c # cs \<Rightarrow> so_base (c # acc) cs))"

declare so_base.simps [simp del]

definition soname_run :: "char \<Rightarrow> bool" where
  "soname_run c = (c \<noteq> CHR ''('' \<and> c \<noteq> CHR '')'' \<and> \<not> is_space c)"

definition groups_ok :: "string \<Rightarrow> bool" where
  "groups_ok r =
     (let r' = (if ends_with [CHR 0x0A] r then butlast r else r)
      in r' = [] \<or> starts_with ''('' r' \<and> ends_with '')'' r' \<and> CHR 0x0A \<notin> set r')"

definition soname_base :: "string \<Rightarrow> string option" where
  "soname_base capability =
     (if groups_ok (dropWhile soname_run capability)
      then so_base [] (takeWhile soname_run capability) else None)"

definition skipped_requires :: "string \<Rightarrow> bool" where
  "skipped_requires c = (c = [] \<or> starts_with ''rpmlib('' c \<or> starts_with ''('' c \<or> starts_with ''/'' c)"

definition moved_soname :: "string list \<Rightarrow> string \<Rightarrow> bool" where
  "moved_soname provided c =
     (case soname_base c of None \<Rightarrow> False
      | Some base \<Rightarrow> base \<in> set (List.map_filter soname_base provided))"

definition stale_from_primary :: "xml \<Rightarrow> string list \<Rightarrow> (string, string list) dict" where
  "stale_from_primary root external =
     (let provided = set_union (provides_from_primary excluded_external root) external in
      fold (\<lambda>(source, _, fmt) stale.
        fold (\<lambda>c stale.
          if skipped_requires c \<or> c \<in> set provided \<or> \<not> moved_soname provided c then stale
          else dict_add source c stale) (entries_of ''requires'' fmt) stale)
        (sourced root) [])"

subsection \<open>Who depends on whom\<close>

text \<open>\<open>provides_cap root p c\<close>: a package built from source \<open>p\<close> provides \<open>c\<close>.\<close>

definition provides_cap :: "xml \<Rightarrow> string \<Rightarrow> string \<Rightarrow> bool" where
  "provides_cap root p c \<longleftrightarrow>
     (\<exists>package fmt. (p, package, fmt) \<in> set (sourced root) \<and>
        (c \<in> set (entries_of ''provides'' fmt) \<or> c \<in> set (files_of fmt)))"

definition requires_cap :: "xml \<Rightarrow> string \<Rightarrow> string \<Rightarrow> bool" where
  "requires_cap root p c \<longleftrightarrow>
     (\<exists>package fmt. (p, package, fmt) \<in> set (sourced root) \<and> c \<in> set (entries_of ''requires'' fmt))"

lemma provided_by_iff: "p \<in> set (dict_get (provided_by root) c []) \<longleftrightarrow> provides_cap root p c"
proof -
  have gen: "set (dict_get (fold (\<lambda>(source, _, fmt) p.
       fold (\<lambda>c. dict_add c source) (entries_of ''provides'' fmt @ files_of fmt) p) ss d) c []) =
     set (dict_get d c []) \<union> {p. \<exists>package fmt. (p, package, fmt) \<in> set ss \<and>
        (c \<in> set (entries_of ''provides'' fmt) \<or> c \<in> set (files_of fmt))}" for ss d
  proof (induction ss arbitrary: d)
    case (Cons s ss)
    then show ?case
      by (cases s) (simp add: set_get_fold_dict_add del: fold_append, auto)
  qed simp
  show ?thesis unfolding provided_by_def gen provides_cap_def by simp
qed

lemma fold_dependents:
  "set (dict_get (fold (\<lambda>provider d. if provider \<noteq> source then dict_add provider source d else d) ps d) j []) =
     set (dict_get d j []) \<union> (if j \<in> set ps \<and> j \<noteq> source then {source} else {})"
  by (induction ps arbitrary: d) auto

lemma fold_needed:
  "set (dict_get (fold (\<lambda>c d. fold (\<lambda>provider d. if provider \<noteq> source then dict_add provider source d else d)
       (f c) d) needed d) j []) =
     set (dict_get d j []) \<union> (if j \<noteq> source \<and> (\<exists>c \<in> set needed. j \<in> set (f c)) then {source} else {})"
  by (induction needed arbitrary: d) (auto simp: fold_dependents)

lemma dependents_from_primary_iff:
  "n \<in> set (dict_get (dependents_from_primary root) p []) \<longleftrightarrow>
     n \<noteq> p \<and> (\<exists>c. requires_cap root n c \<and> provides_cap root p c)"
proof -
  let ?f = "\<lambda>c. dict_get (provided_by root) c []"
  have "set (dict_get (fold (\<lambda>(source, needed) d. fold (\<lambda>c d.
        fold (\<lambda>provider d. if provider \<noteq> source then dict_add provider source d else d) (?f c) d) needed d) rs d) p []) =
      set (dict_get d p []) \<union> {n. n \<noteq> p \<and> (\<exists>needed. (n, needed) \<in> set rs \<and> (\<exists>c \<in> set needed. p \<in> set (?f c)))}"
    for rs d
  proof (induction rs arbitrary: d)
    case (Cons r rs)
    then show ?case by (cases r) (auto simp: fold_needed split: if_splits)
  qed simp
  then show ?thesis
    by (auto simp: dependents_from_primary_def requires_list_def provided_by_iff requires_cap_def) force+
qed

subsection \<open>Stale packages\<close>

lemma stale_from_primary_iff:
  "c \<in> set (dict_get (stale_from_primary root external) p []) \<longleftrightarrow>
     requires_cap root p c \<and> \<not> skipped_requires c \<and>
     c \<notin> set (provides_from_primary excluded_external root) \<union> set external \<and>
     (\<exists>base d. soname_base c = Some base \<and> soname_base d = Some base \<and>
        d \<in> set (provides_from_primary excluded_external root) \<union> set external)"
proof -
  let ?prov = "set_union (provides_from_primary excluded_external root) external"
  let ?skip = "\<lambda>c. skipped_requires c \<or> c \<in> set ?prov \<or> \<not> moved_soname ?prov c"
  have inner: "set (dict_get (fold (\<lambda>c stale. if ?skip c then stale else dict_add source c stale) cs d) j []) =
      set (dict_get d j []) \<union> (if j = source then {c \<in> set cs. \<not> ?skip c} else {})" for source cs d j
    by (induction cs arbitrary: d) auto
  have gen: "set (dict_get (fold (\<lambda>(source, _, fmt) stale. fold (\<lambda>c stale. if ?skip c then stale else dict_add source c stale)
       (entries_of ''requires'' fmt) stale) ss d) j []) =
     set (dict_get d j []) \<union> {c. (\<exists>package fmt. (j, package, fmt) \<in> set ss \<and>
        c \<in> set (entries_of ''requires'' fmt)) \<and> \<not> ?skip c}" for ss d j
  proof (induction ss arbitrary: d)
    case (Cons s ss)
    obtain a b fmt where "s = (a, b, fmt)" by (cases s)
    with Cons show ?case
      by (simp add: inner del: set_ops) blast
  qed simp
  have "set (dict_get (stale_from_primary root external) p []) =
      {c. requires_cap root p c \<and> \<not> ?skip c}"
    unfolding stale_from_primary_def Let_def gen requires_cap_def by simp
  moreover have "moved_soname ?prov c \<longleftrightarrow>
      (\<exists>base d. soname_base c = Some base \<and> soname_base d = Some base \<and> d \<in> set ?prov)"
    by (auto simp: moved_soname_def map_filter_def split: option.splits) force+
  ultimately show ?thesis by (simp only: mem_Collect_eq set_ops) blast
qed

subsection \<open>Reading back a listing\<close>

definition sourcerpm_line :: "string \<times> string \<times> string \<Rightarrow> string" where
  "sourcerpm_line = (\<lambda>(n, v, r).
     ''<rpm:sourcerpm>'' @ n @ ''-'' @ v @ ''-'' @ r @ ''.src.rpm'' @ ''</rpm:sourcerpm>'' @ [CHR 0x0A])"

definition good_nevr :: "string \<times> string \<times> string \<Rightarrow> bool" where
  "good_nevr = (\<lambda>(n, v, r). n \<noteq> [] \<and> CHR ''<'' \<notin> set (n @ v @ r) \<and> CHR ''-'' \<notin> set (v @ r))"

lemma sourcerpm_findall_line:
  assumes "good_nevr (n, v, r)"
  shows "sourcerpm_findall (sourcerpm_line (n, v, r) @ s) = (n @ ''-'' @ v @ ''-'' @ r) # sourcerpm_findall s"
proof -
  let ?b = "n @ ''-'' @ v @ ''-'' @ r @ ''.src.rpm''"
  let ?tail = "''</rpm:sourcerpm>'' @ [CHR 0x0A] @ s"
  have no: "CHR ''<'' \<notin> set ?b" using assms by (auto simp: good_nevr_def)
  have d: "drop 15 (sourcerpm_line (n, v, r) @ s) = ?b @ ?tail"
    by (simp add: sourcerpm_line_def)
  have tk: "takeWhile (\<lambda>c. c \<noteq> CHR ''<'') (?b @ ?tail) = ?b"
    using no by (subst takeWhile_append2) auto
  have dw: "dropWhile (\<lambda>c. c \<noteq> CHR ''<'') (?b @ ?tail) = ?tail"
    using no by (subst dropWhile_append2) auto
  have e: "ends_with ''.src.rpm'' ?b" unfolding ends_with_iff by (intro exI [of _ "n @ ''-'' @ v @ ''-'' @ r"]) simp
  have "take (length ?b - 8) ?b = n @ ''-'' @ v @ ''-'' @ r" by simp
  then have m: "sourcerpm_match (sourcerpm_line (n, v, r) @ s) =
      Some (n @ ''-'' @ v @ ''-'' @ r, CHR 0x0A # s)"
    using e by (simp only: sourcerpm_match_def d tk dw Let_def) (simp add: sourcerpm_line_def)
  have nl: "sourcerpm_findall (CHR 0x0A # s) = sourcerpm_findall s"
    by (subst sourcerpm_findall.simps) (simp add: sourcerpm_match_def)
  show ?thesis by (subst sourcerpm_findall.simps) (simp add: m nl)
qed

lemma add_published_nevr:
  "good_nevr (n, v, r) \<Longrightarrow> add_published (n @ ''-'' @ v @ ''-'' @ r) d = AList.update n (v, r) d"
  using rpartition_append [of "CHR ''-''" r "n @ ''-'' @ v"] rpartition_append [of "CHR ''-''" v n]
  by (simp add: add_published_def good_nevr_def)

lemma published_lines:
  "list_all good_nevr ns \<Longrightarrow>
     published_from_primary (concat (map sourcerpm_line ns)) = dict_of_pairs (map (\<lambda>(n, v, r). (n, (v, r))) ns)"
proof -
  have "list_all good_nevr ns \<Longrightarrow>
      sourcerpm_findall (concat (map sourcerpm_line ns)) = map (\<lambda>(n, v, r). n @ ''-'' @ v @ ''-'' @ r) ns"
  proof (induction ns)
    case Nil
    show ?case by (simp add: sourcerpm_findall.simps sourcerpm_match_def)
  next
    case (Cons x ns)
    then show ?case by (cases x) (simp add: sourcerpm_findall_line)
  qed
  moreover have "list_all good_nevr ns \<Longrightarrow>
      fold add_published (map (\<lambda>(n, v, r). n @ ''-'' @ v @ ''-'' @ r) ns) d =
      fold (\<lambda>(k, v). AList.update k v) (map (\<lambda>(n, v, r). (n, (v, r))) ns) d" for d
    by (induction ns arbitrary: d) (auto simp: add_published_nevr [simplified])
  ultimately show "list_all good_nevr ns \<Longrightarrow> ?thesis" by (simp add: published_from_primary_def dict_of_pairs_def)
qed

subsection \<open>Properties\<close>

text \<open>
  the dependents read from the published binaries are the runtime edges: a source is a
  dependent of another one exactly when they differ and one of its packages requires a
  capability that a package of the other provides or a file it ships.
\<close>

theorem runtime_dependents_exact:
  "n \<in> set (dict_get (dependents_from_primary root) p []) \<longleftrightarrow>
     n \<noteq> p \<and> (\<exists>c. requires_cap root n c \<and> provides_cap root p c)"
  by (rule dependents_from_primary_iff)

text \<open>
  a published package is stale for a capability exactly when one of its packages requires
  it, it is not one of the kinds the listing cannot judge, neither the factory nor the consumer's
  other repository provides it, and one of them provides another version of the same soname.
\<close>

theorem stale_exact:
  "c \<in> set (dict_get (stale_from_primary root external) p []) \<longleftrightarrow>
     requires_cap root p c \<and> \<not> skipped_requires c \<and>
     c \<notin> set (provides_from_primary excluded_external root) \<union> set external \<and>
     (\<exists>base d. soname_base c = Some base \<and> soname_base d = Some base \<and>
        d \<in> set (provides_from_primary excluded_external root) \<union> set external)"
  by (rule stale_from_primary_iff)



end
