(* ===== verification/Rebuild_Plan.thy ===== *)
theory Rebuild_Plan
  imports Dist_Bump Primary_Xml
begin

section \<open>What a rebuild has to build (\<open>rebuild_plan.py\<close>)\<close>

text \<open>
  The selection of recipes, the reverse dependency closure, the comparison with the published
  NEVR, and the per-wave lists handed to the workflow. The spec files of a package are the
  texts in name order, None for one that cannot be read.
\<close>

subsection \<open>Reverse closure\<close>

type_synonym depmap = "(string, string list) dict"

definition all_dependents :: "depmap \<Rightarrow> string list" where
  "all_dependents deps = concat (map snd deps)"

definition push_dependents ::
    "string list \<Rightarrow> nat \<Rightarrow> string list \<Rightarrow> string list \<times> (string \<times> nat) list \<Rightarrow> string list \<times> (string \<times> nat) list" where
  "push_dependents names hops ds s =
     fold (\<lambda>d (closure, frontier).
       if d \<notin> set closure \<and> d \<notin> set names then (closure @ [d], (d, hops) # frontier)
       else (closure, frontier)) ds s"

lemma push_dependents_spec:
  "\<exists>more. push_dependents names hops ds (closure, frontier) =
       (closure @ more, map (\<lambda>d. (d, hops)) (rev more) @ frontier) \<and>
     set more = set ds - set names - set closure"
proof (induction ds arbitrary: closure frontier)
  case Nil
  then show ?case by (simp add: push_dependents_def)
next
  case (Cons d ds)
  show ?case
  proof (cases "d \<notin> set closure \<and> d \<notin> set names")
    case True
    from Cons.IH [of "closure @ [d]" "(d, hops) # frontier"] obtain more where
      "push_dependents names hops ds (closure @ [d], (d, hops) # frontier) =
         ((closure @ [d]) @ more, map (\<lambda>d. (d, hops)) (rev more) @ (d, hops) # frontier)"
      "set more = set ds - set names - set (closure @ [d])" by blast
    with True show ?thesis
      by (intro exI [of _ "d # more"]) (auto simp: push_dependents_def)
  next
    case False
    then have "push_dependents names hops (d # ds) (closure, frontier) =
        push_dependents names hops ds (closure, frontier)" by (auto simp: push_dependents_def)
    moreover have "set (d # ds) - set names - set closure = set ds - set names - set closure"
      using False by auto
    ultimately show ?thesis using Cons.IH [of closure frontier] by simp
  qed
qed

lemma dict_get_all: "set (dict_get deps k []) \<subseteq> set (all_dependents deps)"
  by (auto simp: dict_get_def all_dependents_def split: option.splits)
    (metis map_of_SomeD snd_conv)

text \<open>\<open>while frontier\<close>: the top of the stack is the head of the list.\<close>

function closure_loop ::
    "depmap \<Rightarrow> string list \<Rightarrow> nat option \<Rightarrow> (string \<times> nat) list \<Rightarrow> string list \<Rightarrow> string list" where
  "closure_loop deps names depth frontier closure =
     (case frontier of
        [] \<Rightarrow> closure
      | (current, hops) # rest \<Rightarrow>
          if (case depth of None \<Rightarrow> False | Some k \<Rightarrow> k \<le> hops)
          then closure_loop deps names depth rest closure
          else (case push_dependents names (Suc hops) (dict_get deps current []) (closure, rest) of
                  (closure', frontier') \<Rightarrow> closure_loop deps names depth frontier' closure'))"
  by pat_completeness auto
termination
proof (relation "inv_image (less_than <*lex*> less_than)
    (\<lambda>(deps, names, depth, frontier, closure).
       (card (set (all_dependents deps) - set closure), length frontier))", goal_cases)
  case (3 deps names depth frontier closure x rest current hops closure' frontier')
  from push_dependents_spec [of names "Suc hops" "dict_get deps current []" closure rest]
  obtain more where m: "push_dependents names (Suc hops) (dict_get deps current []) (closure, rest) =
       (closure @ more, map (\<lambda>d. (d, Suc hops)) (rev more) @ rest)"
     "set more = set (dict_get deps current []) - set names - set closure" by blast
  show ?case
  proof (cases "more = []")
    case True
    with 3 m show ?thesis by auto
  next
    case False
    then have "set (all_dependents deps) - set (closure @ more) \<subset> set (all_dependents deps) - set closure"
      using m(2) dict_get_all [of deps current] by (cases more) auto
    then have "card (set (all_dependents deps) - set (closure @ more)) < card (set (all_dependents deps) - set closure)"
      by (simp add: psubset_card_mono)
    with 3 m show ?thesis by auto
  qed
qed auto

declare closure_loop.simps [simp del]

definition reverse_closure :: "string list \<Rightarrow> depmap \<Rightarrow> nat option \<Rightarrow> string list" where
  "reverse_closure names deps depth = closure_loop deps names depth (map (\<lambda>n. (n, 0)) names) []"

subsection \<open>The published NEVR\<close>

definition normalize_version :: "string \<Rightarrow> string" where
  "normalize_version v = map (\<lambda>c. if c = CHR ''~'' then CHR ''.'' else c) v"

text \<open>\<open>\.hum\d+\.bfin(?P<bump>(?:\.\d+)?)$\<close>; \<open>$\<close> also matches before a final line feed.\<close>

definition at_end :: "string \<Rightarrow> bool" where
  "at_end s = (s = [] \<or> s = [CHR 0x0A])"

definition release_tail :: "string \<Rightarrow> string option" where
  "release_tail s =
     (let d = takeWhile is_digit (drop 4 s); r = dropWhile is_digit (drop 4 s); b = drop 5 r in
      if starts_with ''.hum'' s \<and> d \<noteq> [] \<and> starts_with ''.bfin'' r then
        (if at_end b then Some []
         else if starts_with ''.'' b \<and> takeWhile is_digit (tl b) \<noteq> [] \<and> at_end (dropWhile is_digit (tl b))
         then Some (CHR ''.'' # takeWhile is_digit (tl b)) else None)
      else None)"

text \<open>PUBLISHED_RELEASE: the base is as long as possible and holds no line feed.\<close>

fun published_release_from :: "string \<Rightarrow> string \<Rightarrow> (string \<times> string) option" where
  "published_release_from acc s =
     (case (case s of [] \<Rightarrow> None
            | c # cs \<Rightarrow> if c = CHR 0x0A then None else published_release_from (c # acc) cs) of
        Some x \<Rightarrow> Some x
      | None \<Rightarrow> if acc = [] then None else map_option (\<lambda>b. (rev acc, b)) (release_tail s))"

declare published_release_from.simps [simp del]

definition published_release :: "string \<Rightarrow> (string \<times> string) option" where
  "published_release s = published_release_from [] s"

type_synonym specs = "string \<Rightarrow> string option list"

definition expected_release :: "specs \<Rightarrow> entry \<Rightarrow> string option result" where
  "expected_release specs e =
     (case specs (ename e) of
        [] \<Rightarrow> Inr None
      | None # _ \<Rightarrow> Inr None
      | Some text # _ \<Rightarrow>
          (case spec_release text of
             Inl _ \<Rightarrow> Inr None
           | Inr None \<Rightarrow> Inr None
           | Inr (Some release) \<Rightarrow> bind_r (suffix e release) (\<lambda>s. Inr (Some (release @ s)))))"

definition entry_version :: "entry \<Rightarrow> string result" where
  "entry_version e =
     (case field e ''version'' of None \<Rightarrow> Inr [] | Some (JStr v) \<Rightarrow> Inr v | Some _ \<Rightarrow> Inl AttributeError)"

type_synonym published = "(string, string \<times> string) dict"

definition is_published :: "specs \<Rightarrow> entry \<Rightarrow> published \<Rightarrow> bool result" where
  "is_published specs e published =
     (case map_of published (ename e) of
        None \<Rightarrow> Inr False
      | Some (published_version, release) \<Rightarrow>
          bind_r (entry_version e) (\<lambda>v.
            if normalize_version published_version \<noteq> normalize_version v then Inr False
            else bind_r (expected_release specs e) (\<lambda>expected.
              case expected of
                None \<Rightarrow> Inr True
              | Some x \<Rightarrow> (case published_release release of
                    None \<Rightarrow> Inr False
                  | Some (base, bump) \<Rightarrow> Inr (base @ bump = x)))))"

text \<open>Names whose entry differs between two inventories, as Python's \<open>!=\<close> compares dicts.\<close>

definition same_entry :: "entry \<Rightarrow> entry \<Rightarrow> bool" where
  "same_entry a b \<longleftrightarrow> ename a = ename b \<and> py_eq (JObj (efields a)) (JObj (efields b))"

definition changed_entries :: "entry list \<Rightarrow> entry list \<Rightarrow> string list" where
  "changed_entries before_entries after_entries =
     (let old = dict_of_pairs (map (\<lambda>e. (ename e, e)) before_entries) in
      remdups (map ename (filter (\<lambda>e. case map_of old (ename e) of
          None \<Rightarrow> True | Some o_e \<Rightarrow> \<not> same_entry o_e e) after_entries)))"

subsection \<open>The plan\<close>

record plan_inputs =
  published_nevr :: published
  changed_names :: "string list"
  full_run :: bool
  factory_repo :: string
  stale_names :: "string list"
  trust_state :: bool

definition trust_published :: "plan_inputs \<Rightarrow> bool" where
  "trust_published p \<longleftrightarrow> factory_repo p \<noteq> [] \<and> published_nevr p \<noteq> []"

definition selected :: "specs \<Rightarrow> plan_inputs \<Rightarrow> entry \<Rightarrow> bool result" where
  "selected specs p e =
     (if full_run p \<or> ename e \<in> set (changed_names p) \<or> ename e \<in> set (stale_names p) \<or> \<not> trust_published p
      then Inr True
      else if trust_state p then Inr False
      else bind_r (is_published specs e (published_nevr p)) (\<lambda>b. Inr (\<not> b)))"

fun filter_r :: "('a \<Rightarrow> bool result) \<Rightarrow> 'a list \<Rightarrow> 'a list result" where
  "filter_r f [] = Inr []"
| "filter_r f (x # xs) =
     bind_r (f x) (\<lambda>b. bind_r (filter_r f xs) (\<lambda>ys. Inr (if b then x # ys else ys)))"

definition plan ::
    "entry list \<Rightarrow> specs \<Rightarrow> plan_inputs \<Rightarrow> depmap \<Rightarrow> nat option \<Rightarrow> entry list result" where
  "plan packages specs p deps depth =
     bind_r (filter_r (selected specs p) packages) (\<lambda>build.
       if deps = [] then Inr build
       else (let building = remdups (map ename build);
                 dragged = reverse_closure building deps depth
             in Inr (filter (\<lambda>e. ename e \<in> set building \<or> ename e \<in> set dragged) packages)))"

definition cacheable :: "entry list \<Rightarrow> string list \<Rightarrow> string list \<Rightarrow> string list" where
  "cacheable build changed stale =
     filter (\<lambda>n. n \<notin> set (set_union changed stale)) (map ename build)"

definition prunable_sources :: "published \<Rightarrow> string list \<Rightarrow> string list" where
  "prunable_sources published owned = sorted_set (set_inter (map fst published) owned)"

subsection \<open>Waves and their chunks\<close>

definition stages_count :: nat where
  "stages_count = 14"

definition early_publications :: nat where
  "early_publications = 4"

definition wave_of :: "(string, nat) dict option \<Rightarrow> entry \<Rightarrow> int" where
  "wave_of waves e =
     (case waves of
        Some w \<Rightarrow> (case map_of w (ename e) of Some n \<Rightarrow> int n | None \<Rightarrow> entry_stage e)
      | None \<Rightarrow> entry_stage e)"

definition stage_names :: "(string, nat) dict option \<Rightarrow> entry list \<Rightarrow> nat \<Rightarrow> string list" where
  "stage_names waves build k = map ename (filter (\<lambda>e. wave_of waves e = int k) build)"

definition occupied_stages :: "(string, nat) dict option \<Rightarrow> entry list \<Rightarrow> nat list" where
  "occupied_stages waves build = filter (\<lambda>k. stage_names waves build k \<noteq> []) [0..<stages_count]"

definition early_waves :: "(string, nat) dict option \<Rightarrow> entry list \<Rightarrow> nat list" where
  "early_waves waves build = filter (\<lambda>k. k < early_publications) (butlast (occupied_stages waves build))"

definition stage_outputs :: "entry list \<Rightarrow> (string, nat) dict option \<Rightarrow> (string, string) dict" where
  "stage_outputs build waves =
     [(''build_list'', json_names (map ename build))] @
     concat (map (\<lambda>k.
       [(''stage'' @ show_nat k, json_names (stage_names waves build k)),
        (''stage'' @ show_nat k @ ''_chunks'',
         json_names (map json_names (chunks_of matrix_chunk (stage_names waves build k))))])
       [0..<stages_count]) @
     map (\<lambda>k. (''through'' @ show_nat k,
         json_names (map ename (filter (\<lambda>e. wave_of waves e \<le> int k) build)))) [0..<early_publications] @
     [(''early_waves'', json_names (map show_nat (early_waves waves build)))]"

definition overflow :: "entry list \<Rightarrow> (string, nat) dict option \<Rightarrow> string list" where
  "overflow build waves = sort (map ename (filter (\<lambda>e. int stages_count \<le> wave_of waves e) build))"

definition restrict_inventory :: "entry list \<Rightarrow> string list \<Rightarrow> entry list result" where
  "restrict_inventory packages only =
     (if only = [] then Inr packages
      else let unknown = sorted_set (set_minus only (map ename packages)) in
        if unknown \<noteq> [] then Inl (ValueError (''not in the inventory: '' @ join '', '' unknown))
        else Inr (filter (\<lambda>e. ename e \<in> set only) packages))"

subsection \<open>What the closure contains\<close>

definition dep_rel :: "depmap \<Rightarrow> (string \<times> string) set" where
  "dep_rel deps = {(k, d). d \<in> set (dict_get deps k [])}"

text \<open>
  The worklist: what was pushed is a name or in the closure, and whatever is no longer on
  the stack has had its dependents pushed.
\<close>

definition worklist_ok :: "depmap \<Rightarrow> string list \<Rightarrow> (string \<times> nat) list \<Rightarrow> string list \<Rightarrow> bool" where
  "worklist_ok deps names frontier closure \<longleftrightarrow>
     set closure \<inter> set names = {} \<and> fst ` set frontier \<subseteq> set names \<union> set closure \<and>
     (\<forall>x \<in> set names \<union> set closure. x \<notin> fst ` set frontier \<longrightarrow>
        dep_rel deps `` {x} \<subseteq> set names \<union> set closure) \<and>
     (\<forall>x \<in> set closure. \<exists>n \<in> set names. (n, x) \<in> (dep_rel deps)\<^sup>+)"

lemma worklist_push:
  assumes ok: "worklist_ok deps names ((current, hops) # rest) closure"
    and new: "set new = set (dict_get deps current []) - set names - set closure"
  shows "worklist_ok deps names (map (\<lambda>d. (d, h)) (rev new) @ rest) (closure @ new)"
proof -
  let ?R = "dep_rel deps"
  have img: "?R `` {current} = set (dict_get deps current [])" by (auto simp: dep_rel_def)
  have cur: "current \<in> set names \<union> set closure" using ok by (auto simp: worklist_ok_def)
  have "\<exists>n \<in> set names. (n, x) \<in> ?R\<^sup>+" if "x \<in> set (closure @ new)" for x
  proof (cases "x \<in> set closure")
    case True
    with ok show ?thesis by (simp add: worklist_ok_def)
  next
    case False
    with that new have edge: "(current, x) \<in> ?R" by (auto simp: dep_rel_def)
    show ?thesis
    proof (cases "current \<in> set names")
      case False
      with cur ok obtain n where "n \<in> set names" "(n, current) \<in> ?R\<^sup>+"
        by (auto simp: worklist_ok_def)
      with edge show ?thesis by (blast intro: trancl_into_trancl)
    qed (use edge in blast)
  qed
  moreover have "?R `` {x} \<subseteq> set names \<union> set (closure @ new)"
    if "x \<in> set names \<union> set (closure @ new)" "x \<notin> fst ` set (map (\<lambda>d. (d, h)) (rev new) @ rest)" for x
  proof (cases "x = current")
    case True
    with img new show ?thesis by auto
  next
    case False
    with that have "x \<in> set names \<union> set closure" "x \<notin> fst ` set ((current, hops) # rest)"
      by (auto simp: image_Un image_image)
    with ok show ?thesis by (auto simp: worklist_ok_def)
  qed
  moreover have "set (closure @ new) \<inter> set names = {}"
    using ok new by (auto simp: worklist_ok_def)
  moreover have "fst ` set (map (\<lambda>d. (d, h)) (rev new) @ rest) \<subseteq> set names \<union> set (closure @ new)"
    using ok by (auto simp: worklist_ok_def)
  ultimately show ?thesis unfolding worklist_ok_def by blast
qed

lemma closure_loop_None:
  "worklist_ok deps names frontier closure \<Longrightarrow> depth = None \<Longrightarrow>
     worklist_ok deps names [] (closure_loop deps names depth frontier closure)"
proof (induction deps names depth frontier closure rule: closure_loop.induct)
  case (1 deps names depth frontier closure)
  show ?case
  proof (cases frontier)
    case Nil
    with 1 show ?thesis by (simp add: closure_loop.simps)
  next
    case (Cons f rest)
    obtain current hops where f: "f = (current, hops)" by (cases f)
    from push_dependents_spec [of names "Suc hops" "dict_get deps current []" closure rest]
    obtain new where m: "push_dependents names (Suc hops) (dict_get deps current []) (closure, rest) =
         (closure @ new, map (\<lambda>d. (d, Suc hops)) (rev new) @ rest)"
       "set new = set (dict_get deps current []) - set names - set closure" by blast
    have "worklist_ok deps names (map (\<lambda>d. (d, Suc hops)) (rev new) @ rest) (closure @ new)"
      by (rule worklist_push) (use 1 Cons f m in auto)
    with "1.IH"(2) [OF Cons f [symmetric] _ m(1) [symmetric]] 1(4) Cons f m show ?thesis
      by (subst closure_loop.simps) simp
  qed
qed

lemma reverse_closure_None:
  "set (reverse_closure names deps None) = (dep_rel deps)\<^sup>+ `` set names - set names"
proof -
  let ?R = "dep_rel deps" and ?c = "reverse_closure names deps None"
  have "worklist_ok deps names (map (\<lambda>n. (n, 0)) names) []"
    by (auto simp: worklist_ok_def image_image)
  from closure_loop_None [OF this refl] have ok: "worklist_ok deps names [] ?c"
    by (simp add: reverse_closure_def)
  have closed: "y \<in> set names \<union> set ?c" if "(x, y) \<in> ?R\<^sup>+" "x \<in> set names" for x y
    using that by (induction rule: trancl_induct) (use ok in \<open>auto simp: worklist_ok_def\<close>)
  show ?thesis
  proof
    show "set ?c \<subseteq> ?R\<^sup>+ `` set names - set names"
      using ok by (auto simp: worklist_ok_def)
    show "?R\<^sup>+ `` set names - set names \<subseteq> set ?c" using closed by blast
  qed
qed

text \<open>One hop: what is on the stack with a hop count is skipped.\<close>

definition hop_ok :: "depmap \<Rightarrow> string list \<Rightarrow> (string \<times> nat) list \<Rightarrow> string list \<Rightarrow> bool" where
  "hop_ok deps names frontier closure \<longleftrightarrow>
     (\<forall>(x, h) \<in> set frontier. h = 0 \<longrightarrow> x \<in> set names) \<and>
     set closure \<subseteq> dep_rel deps `` set names - set names \<and>
     (\<forall>n \<in> set names. (n, 0) \<in> set frontier \<or> dep_rel deps `` {n} \<subseteq> set names \<union> set closure)"

lemma closure_loop_one:
  "hop_ok deps names frontier closure \<Longrightarrow> depth = Some 1 \<Longrightarrow>
     hop_ok deps names [] (closure_loop deps names depth frontier closure)"
proof (induction deps names depth frontier closure rule: closure_loop.induct)
  case (1 deps names depth frontier closure)
  show ?case
  proof (cases frontier)
    case Nil
    with 1 show ?thesis by (simp add: closure_loop.simps)
  next
    case (Cons f rest)
    obtain current hops where f: "f = (current, hops)" by (cases f)
    show ?thesis
    proof (cases "hops = 0")
      case True
      from push_dependents_spec [of names "Suc hops" "dict_get deps current []" closure rest]
      obtain new where m: "push_dependents names (Suc hops) (dict_get deps current []) (closure, rest) =
           (closure @ new, map (\<lambda>d. (d, Suc hops)) (rev new) @ rest)"
         "set new = set (dict_get deps current []) - set names - set closure" by blast
      have img: "dep_rel deps `` {current} = set (dict_get deps current [])" by (auto simp: dep_rel_def)
      have cur: "current \<in> set names" using 1(3) Cons f True by (auto simp: hop_ok_def)
      have "set (closure @ new) \<subseteq> dep_rel deps `` set names - set names"
        using 1(3) cur img m(2) by (auto simp: hop_ok_def)
      moreover have "(n, 0) \<in> set (map (\<lambda>d. (d, Suc hops)) (rev new) @ rest) \<or>
          dep_rel deps `` {n} \<subseteq> set names \<union> set (closure @ new)" if "n \<in> set names" for n
      proof (cases "n = current")
        case True
        with img m(2) show ?thesis by auto
      next
        case False
        with that 1(3) Cons f show ?thesis by (auto simp: hop_ok_def)
      qed
      ultimately have "hop_ok deps names (map (\<lambda>d. (d, Suc hops)) (rev new) @ rest) (closure @ new)"
        using 1(3) Cons f by (auto simp: hop_ok_def)
      with "1.IH"(2) [OF Cons f [symmetric] _ m(1) [symmetric]] 1(4) Cons f m True show ?thesis
        by (subst closure_loop.simps) simp
    next
      case False
      then have "hop_ok deps names rest closure" using 1(3) Cons f by (auto simp: hop_ok_def)
      with "1.IH"(1) [OF Cons f [symmetric]] 1(4) Cons f False show ?thesis
        by (subst closure_loop.simps) simp
    qed
  qed
qed

lemma reverse_closure_one:
  "set (reverse_closure names deps (Some 1)) = dep_rel deps `` set names - set names"
proof -
  have "hop_ok deps names (map (\<lambda>n. (n, 0)) names) []" by (auto simp: hop_ok_def)
  from closure_loop_one [OF this refl] have "hop_ok deps names [] (reverse_closure names deps (Some 1))"
    by (simp add: reverse_closure_def)
  then show ?thesis unfolding hop_ok_def by auto
qed

subsection \<open>The contract the planner needs of a closure depth\<close>

text \<open>
  A depth the planner may use: the direct dependents of what is built are dragged along, and
  nothing is dragged without a chain of dependencies.
\<close>

locale closure_depth =
  fixes depth :: "nat option"
  assumes drags: "n \<in> set names \<Longrightarrow> (n, d) \<in> dep_rel deps \<Longrightarrow>
      d \<in> set names \<union> set (reverse_closure names deps depth)"
    and dragged: "d \<in> set (reverse_closure names deps depth) \<Longrightarrow>
      \<exists>n \<in> set names. (n, d) \<in> (dep_rel deps)\<^sup>+"

interpretation direct: closure_depth "Some 1"
  by unfold_locales (auto simp: reverse_closure_one simp del: One_nat_def)

interpretation transitive: closure_depth None
  by unfold_locales (simp_all only: reverse_closure_None, blast+)

lemma filter_r_Inr:
  "filter_r f xs = Inr ys \<longleftrightarrow> list_all (\<lambda>x. \<exists>b. f x = Inr b) xs \<and> ys = filter (\<lambda>x. f x = Inr True) xs"
proof (induction xs arbitrary: ys)
  case (Cons x xs)
  show ?case
  proof (cases "f x")
    case (Inr b)
    then have "filter_r f (x # xs) = Inr ys \<longleftrightarrow>
        (\<exists>zs. filter_r f xs = Inr zs \<and> ys = (if b then x # zs else zs))" by (auto simp: bind_r_Inr)
    also have "\<dots> \<longleftrightarrow> list_all (\<lambda>x. \<exists>b. f x = Inr b) xs \<and>
        ys = (if b then x # filter (\<lambda>x. f x = Inr True) xs else filter (\<lambda>x. f x = Inr True) xs)"
      by (simp only: Cons.IH) blast
    finally show ?thesis using Inr by simp
  qed simp
qed auto

lemma plan_build:
  assumes "plan packages specs p deps depth = Inr build"
  shows "build = filter (\<lambda>e. selected specs p e = Inr True \<or>
      ename e \<in> ename ` {x \<in> set packages. selected specs p x = Inr True} \<and> deps \<noteq> [] \<or>
      deps \<noteq> [] \<and> ename e \<in> set (reverse_closure (remdups (map ename
        (filter (\<lambda>x. selected specs p x = Inr True) packages))) deps depth)) packages"
  using assms
  by (auto simp: plan_def bind_r_Inr filter_r_Inr Let_def intro!: filter_cong split: if_splits)

context closure_depth begin

text \<open>What is left out of the build was selected by no rule and consumes nothing selected.\<close>

lemma skipped:
  assumes plan: "plan packages specs p deps depth = Inr build"
    and e: "e \<in> set packages" "e \<notin> set build"
  shows "selected specs p e \<noteq> Inr True"
    and "x \<in> set packages \<Longrightarrow> selected specs p x = Inr True \<Longrightarrow> (ename x, ename e) \<notin> dep_rel deps"
proof -
  note b = plan_build [OF plan]
  show "selected specs p e \<noteq> Inr True" using e b by auto
  let ?names = "remdups (map ename (filter (\<lambda>x. selected specs p x = Inr True) packages))"
  assume x: "x \<in> set packages" "selected specs p x = Inr True"
  show "(ename x, ename e) \<notin> dep_rel deps"
  proof
    assume dep: "(ename x, ename e) \<in> dep_rel deps"
    then have "deps \<noteq> []" by (auto simp: dep_rel_def)
    moreover have "ename x \<in> set ?names" using x by auto
    from drags [OF this dep] have "ename e \<in> set ?names \<or> ename e \<in> set (reverse_closure ?names deps depth)"
      by auto
    ultimately show False using e b by auto
  qed
qed

text \<open>What is built was selected, shares the name of a selected entry, or depends on one.\<close>

lemma built_reason:
  assumes plan: "plan packages specs p deps depth = Inr build" and e: "e \<in> set build"
  shows "e \<in> set packages \<and> (\<exists>x \<in> set packages. selected specs p x = Inr True \<and>
    (ename e = ename x \<or> (ename x, ename e) \<in> (dep_rel deps)\<^sup>+))"
proof -
  let ?names = "remdups (map ename (filter (\<lambda>x. selected specs p x = Inr True) packages))"
  from e plan_build [OF plan] have pk: "e \<in> set packages"
    and "selected specs p e = Inr True \<or> ename e \<in> ename ` {x \<in> set packages. selected specs p x = Inr True} \<or>
      ename e \<in> set (reverse_closure ?names deps depth)" by auto
  then consider "selected specs p e = Inr True"
    | x where "x \<in> set packages" "selected specs p x = Inr True" "ename e = ename x"
    | "ename e \<in> set (reverse_closure ?names deps depth)" by auto
  then show ?thesis
  proof cases
    case 3
    from dragged [OF this] obtain n where "n \<in> set ?names" "(n, ename e) \<in> (dep_rel deps)\<^sup>+" by blast
    with pk show ?thesis by auto
  qed (use pk in auto)
qed

end

subsection \<open>Reading the disttag back\<close>

definition is_number :: "string \<Rightarrow> bool" where
  "is_number n \<longleftrightarrow> n \<noteq> [] \<and> list_all is_digit n"

definition is_bump :: "string \<Rightarrow> bool" where
  "is_bump b \<longleftrightarrow> b = [] \<or> (\<exists>n. b = CHR ''.'' # n \<and> is_number n)"

text \<open>What the build names a package: release, buildroot tag, factory tag, counter.\<close>

definition built_release :: "string \<Rightarrow> string \<Rightarrow> string \<Rightarrow> string" where
  "built_release release tag bump = release @ ''.hum'' @ tag @ ''.bfin'' @ bump"

lemma digits_then_dot:
  assumes "list_all is_digit n"
  shows "takeWhile is_digit (n @ CHR ''.'' # r) = n" "dropWhile is_digit (n @ CHR ''.'' # r) = CHR ''.'' # r"
    "takeWhile is_digit n = n" "dropWhile is_digit n = []"
proof -
  have "\<not> is_digit CHR ''.''" by (simp add: is_digit_def)
  then show "takeWhile is_digit (n @ CHR ''.'' # r) = n" "dropWhile is_digit (n @ CHR ''.'' # r) = CHR ''.'' # r"
    using assms by (auto simp: list_all_iff)
  show "takeWhile is_digit n = n" "dropWhile is_digit n = []"
    using assms by (auto simp: list_all_iff takeWhile_eq_all_conv)
qed

lemma release_tail_built:
  assumes "is_number tag" "is_bump bump"
  shows "release_tail (''.hum'' @ tag @ ''.bfin'' @ bump) = Some bump"
proof -
  have tag: "tag \<noteq> []" "list_all is_digit tag" using assms(1) by (auto simp: is_number_def)
  have tk: "takeWhile is_digit (tag @ ''.bfin'' @ bump) = tag"
    "dropWhile is_digit (tag @ ''.bfin'' @ bump) = ''.bfin'' @ bump"
    using digits_then_dot(1,2) [OF tag(2), of "''bfin'' @ bump"] by simp_all
  show ?thesis
  proof (cases bump)
    case Nil
    with tk tag show ?thesis by (simp add: release_tail_def Let_def at_end_def)
  next
    case (Cons c n)
    with assms(2) have n: "c = CHR ''.''" "n \<noteq> []" "list_all is_digit n"
      by (auto simp: is_bump_def is_number_def)
    have "takeWhile is_digit n = n" "dropWhile is_digit n = []"
      by (rule digits_then_dot(3,4) [OF n(3)])+
    with tk tag Cons n show ?thesis
      by (simp add: release_tail_def Let_def at_end_def del: takeWhile_eq_all_conv)
  qed
qed

lemma release_tail_hum: "\<not> starts_with ''.hum'' s \<Longrightarrow> release_tail s = None"
  by (simp only: release_tail_def Let_def) simp

lemma no_hum_from: "\<not> contains ''.hum'' s \<Longrightarrow> published_release_from acc s = None"
proof (induction s arbitrary: acc)
  case Nil
  then show ?case by (subst published_release_from.simps) (simp add: release_tail_hum)
next
  case (Cons c s)
  then have "published_release_from (c # acc) s = None" by simp
  moreover have "release_tail (c # s) = None" using Cons.prems by (intro release_tail_hum) auto
  ultimately show ?case by (subst published_release_from.simps) simp
qed

lemma published_release_built:
  assumes "is_number tag" "is_bump bump" "release \<noteq> []" "CHR 0x0A \<notin> set release"
  shows "published_release (built_release release tag bump) = Some (release, bump)"
proof -
  let ?X = "''.hum'' @ tag @ ''.bfin'' @ bump"
  have digits: "\<forall>c \<in> set tag. c \<noteq> CHR ''h''" "\<forall>c \<in> set bump. c \<noteq> CHR ''h''"
  proof -
    have h: "\<not> is_digit CHR ''h''" by (simp add: is_digit_def)
    show "\<forall>c \<in> set tag. c \<noteq> CHR ''h''" using assms(1) h by (auto simp: is_number_def list_all_iff)
    show "\<forall>c \<in> set bump. c \<noteq> CHR ''h''" using assms(2) h by (auto simp: is_bump_def is_number_def list_all_iff)
  qed
  have no_h: "CHR ''h'' \<notin> set (''um'' @ tag @ ''.bfin'' @ bump)" using digits by auto
  have "\<not> contains ''.hum'' (''hum'' @ tag @ ''.bfin'' @ bump)"
  proof
    assume "contains ''.hum'' (''hum'' @ tag @ ''.bfin'' @ bump)"
    then obtain a b where ab: "CHR ''h'' # (''um'' @ tag @ ''.bfin'' @ bump) = a @ ''.hum'' @ b"
      by (auto simp: contains_iff)
    then show False
    proof (cases a)
      case (Cons c a')
      with ab have "''um'' @ tag @ ''.bfin'' @ bump = a' @ ''.hum'' @ b" by simp
      then have "CHR ''h'' \<in> set (''um'' @ tag @ ''.bfin'' @ bump)" by (metis Un_iff list.set_intros set_append)
      with no_h show ?thesis by blast
    qed simp
  qed
  then have inner: "published_release_from acc (''hum'' @ tag @ ''.bfin'' @ bump) = None" for acc
    by (rule no_hum_from)
  have at_tail: "published_release_from acc ?X = Some (rev acc, bump)" if "acc \<noteq> []" for acc
    using inner [of "CHR ''.'' # acc"] that release_tail_built [OF assms(1,2)]
    by (subst published_release_from.simps) simp
  have "published_release_from acc (r @ ?X) = Some (rev acc @ r, bump)"
    if "acc \<noteq> [] \<or> r \<noteq> []" "CHR 0x0A \<notin> set r" for acc r
    using that
  proof (induction r arbitrary: acc)
    case Nil
    then show ?case using at_tail by simp
  next
    case (Cons c r)
    then have "published_release_from (c # acc) (r @ ?X) = Some (rev (c # acc) @ r, bump)" by simp
    with Cons.prems show ?case by (subst published_release_from.simps) auto
  qed
  from this [of "[]" release] assms(3,4) show ?thesis
    by (simp add: published_release_def built_release_def)
qed

subsection \<open>Delivery of the waves\<close>

lemma mset_levels:
  "mset (concat (map (\<lambda>k. map g (filter (\<lambda>e. f e = int k) xs)) [0..<n])) =
     mset (map g (filter (\<lambda>e. 0 \<le> f e \<and> f e < int n) xs))"
proof (induction n)
  case (Suc n)
  have "mset (map g (filter (\<lambda>e. 0 \<le> f e \<and> f e < int (Suc n)) xs)) =
      mset (map g (filter (\<lambda>e. 0 \<le> f e \<and> f e < int n) xs)) + mset (map g (filter (\<lambda>e. f e = int n) xs))"
    by (induction xs) auto
  with Suc show ?case by simp
qed simp

lemma stage_names_all:
  assumes "list_all (\<lambda>e. 0 \<le> wave_of waves e) build" and "overflow build waves = []"
  shows "mset (concat (map (stage_names waves build) [0..<stages_count])) = mset (map ename build)"
proof -
  have "map ename (filter (\<lambda>e. int stages_count \<le> wave_of waves e) build) = []"
    using assms(2) by (metis overflow_def mset_sort mset_zero_iff)
  then have "filter (\<lambda>e. 0 \<le> wave_of waves e \<and> wave_of waves e < int stages_count) build = build"
    using assms(1) by (auto simp: filter_id_conv list_all_iff filter_empty_conv not_le)
  with mset_levels [of ename "wave_of waves" build stages_count] show ?thesis
    by (simp add: stage_names_def [abs_def])
qed

definition stage_key :: "nat \<Rightarrow> string" where
  "stage_key k = ''stage'' @ show_nat k"

definition chunks_key :: "nat \<Rightarrow> string" where
  "chunks_key k = ''stage'' @ show_nat k @ ''_chunks''"

lemma stage_keys [simp]:
  "stage_key j = stage_key k \<longleftrightarrow> j = k" "chunks_key j = chunks_key k \<longleftrightarrow> j = k"
  "stage_key j \<noteq> chunks_key k" "chunks_key k \<noteq> stage_key j"
proof -
  show "stage_key j \<noteq> chunks_key k"
  proof
    assume "stage_key j = chunks_key k"
    then have "CHR ''_'' \<in> set (show_nat j)" by (simp add: stage_key_def chunks_key_def)
    then show False using show_nat_digits [of "CHR ''_''" j] by (simp add: is_digit_def)
  qed
  then show "chunks_key k \<noteq> stage_key j" by metis
qed (simp_all add: stage_key_def chunks_key_def)

lemma map_of_stages:
  "map_of (concat (map (\<lambda>k. [(stage_key k, x k), (chunks_key k, y k)]) ks)) (stage_key j) =
     (if j \<in> set ks then Some (x j) else None)"
  "map_of (concat (map (\<lambda>k. [(stage_key k, x k), (chunks_key k, y k)]) ks)) (chunks_key j) =
     (if j \<in> set ks then Some (y j) else None)"
  by (induction ks) auto

lemma stage_outputs_lookup:
  assumes "k < stages_count"
  shows "map_of (stage_outputs build waves) (stage_key k) = Some (json_names (stage_names waves build k))"
    and "map_of (stage_outputs build waves) (chunks_key k) =
      Some (json_names (map json_names (chunks_of matrix_chunk (stage_names waves build k))))"
proof -
  let ?f = "\<lambda>k. json_names (stage_names waves build k)"
  let ?g = "\<lambda>k. json_names (map json_names (chunks_of matrix_chunk (stage_names waves build k)))"
  let ?mid = "concat (map (\<lambda>k. [(stage_key k, ?f k), (chunks_key k, ?g k)]) [0..<stages_count])"
  obtain rest where out: "stage_outputs build waves = (''build_list'', json_names (map ename build)) # ?mid @ rest"
    by (simp add: stage_outputs_def stage_key_def chunks_key_def)
  have "stage_key k \<noteq> ''build_list''" "chunks_key k \<noteq> ''build_list''"
    by (simp_all add: stage_key_def chunks_key_def)
  then show "map_of (stage_outputs build waves) (stage_key k) = Some (?f k)"
    "map_of (stage_outputs build waves) (chunks_key k) = Some (?g k)"
    using assms by (simp_all add: out map_add_def map_of_stages)
qed

lemma early_wave_iff:
  "k \<in> set (early_waves waves build) \<longleftrightarrow>
     k < early_publications \<and> stage_names waves build k \<noteq> [] \<and>
     (\<exists>j. k < j \<and> j < stages_count \<and> stage_names waves build j \<noteq> [])"
proof -
  let ?o = "occupied_stages waves build"
  have sorted: "sorted_wrt (<) ?o" by (simp add: occupied_stages_def sorted_wrt_filter)
  have mem: "k \<in> set ?o \<longleftrightarrow> k < stages_count \<and> stage_names waves build k \<noteq> []" for k
    by (auto simp: occupied_stages_def)
  have "k \<in> set (butlast xs) \<longleftrightarrow> k \<in> set xs \<and> (\<exists>j \<in> set xs. k < j)" if "sorted_wrt (<) xs" for xs :: "nat list"
    using that
  proof (induction xs rule: rev_induct)
    case (snoc x xs)
    then show ?case by (auto simp: sorted_wrt_append)
  qed simp
  from this [OF sorted] show ?thesis
    by (auto simp: early_waves_def mem)
qed

subsection \<open>Properties\<close>

lemma plan_selects:
  assumes "plan packages specs p deps depth = Inr build" and "e \<in> set packages"
  shows "\<exists>b. selected specs p e = Inr b"
  using assms by (auto simp: plan_def bind_r_Inr filter_r_Inr list_all_iff)


definition lib_entry :: entry where
  "lib_entry = \<lparr>ename = ''lib'', efields = [(''version'', JStr ''1'')]\<rparr>"

definition app_entry :: entry where
  "app_entry = \<lparr>ename = ''app'', efields = [(''version'', JStr ''2'')]\<rparr>"

definition doc_entry :: entry where
  "doc_entry = \<lparr>ename = ''doc'', efields = [(''version'', JStr ''3'')]\<rparr>"

definition example_inputs :: plan_inputs where
  "example_inputs = \<lparr>published_nevr = [(''lib'', (''1'', ''1.hum1.bfin'')), (''app'', (''2'', ''1.hum1.bfin'')),
     (''doc'', (''3'', ''1.hum1.bfin''))], changed_names = [''lib''], full_run = False,
     factory_repo = ''file:///repo/'', stale_names = [], trust_state = True\<rparr>"

lemma example_plan:
  "plan [lib_entry, app_entry, doc_entry] (\<lambda>_. []) example_inputs [(''lib'', [''app''])] (Some 1) =
     Inr [lib_entry, app_entry]"
  by code_simp


text \<open>
  with the transitive closure the build is closed: whatever depends on a package that is
  built and is in the inventory is built in the same run.
\<close>

theorem transitive_plan_closed:
  assumes "plan packages specs p deps None = Inr build"
    and "x \<in> set build" and "e \<in> set packages" and "(ename x, ename e) \<in> dep_rel deps"
  shows "e \<in> set build"
proof -
  let ?names = "remdups (map ename (filter (\<lambda>x. selected specs p x = Inr True) packages))"
  have "deps \<noteq> []" using assms(4) by (auto simp: dep_rel_def)
  note b = plan_build [OF assms(1)]
  have all: "set (reverse_closure ?names deps None) = (dep_rel deps)\<^sup>+ `` set ?names - set ?names"
    by (rule reverse_closure_None)
  have "ename x \<in> set ?names \<or> ename x \<in> set (reverse_closure ?names deps None)"
    using assms(2) b by auto
  then have "ename e \<in> (dep_rel deps)\<^sup>+ `` set ?names"
    using assms(4) unfolding all by (auto intro: trancl_into_trancl)
  then have "ename e \<in> set ?names \<or> ename e \<in> set (reverse_closure ?names deps None)"
    unfolding all by blast
  with assms(3) b \<open>deps \<noteq> []\<close> show ?thesis by auto
qed

lemma transitive_plan_closed_witness: "app_entry \<in> set [lib_entry, app_entry, doc_entry]"
proof -
  have "plan [lib_entry, app_entry, doc_entry] (\<lambda>_. []) example_inputs
      [(''lib'', [''app'']), (''app'', [''doc''])] None = Inr [lib_entry, app_entry, doc_entry]" by code_simp
  from transitive_plan_closed [OF this, of lib_entry app_entry] show ?thesis
    by (simp add: lib_entry_def app_entry_def dep_rel_def)
qed

text \<open>
  nothing is built without a reason: every package of the plan is one a rule selects or
  depends, through a chain of dependencies, on one.
\<close>

theorem built_has_reason:
  assumes "plan packages specs p deps depth = Inr build" and "depth = None \<or> depth = Some 1"
    and "e \<in> set build"
  shows "e \<in> set packages \<and> (\<exists>x \<in> set packages. selected specs p x = Inr True \<and>
    (ename e = ename x \<or> (ename x, ename e) \<in> (dep_rel deps)\<^sup>+))"
proof (cases depth)
  case None
  with assms(1) have "plan packages specs p deps None = Inr build" by simp
  from transitive.built_reason [OF this assms(3)] show ?thesis .
next
  case (Some k)
  with assms(1,2) have "plan packages specs p deps (Some 1) = Inr build" by simp
  from direct.built_reason [OF this assms(3)] show ?thesis .
qed

lemma built_has_reason_witness:
  "\<exists>x \<in> set [lib_entry, app_entry, doc_entry]. selected (\<lambda>_. []) example_inputs x = Inr True \<and>
     (''app'' = ename x \<or> (ename x, ''app'') \<in> (dep_rel [(''lib'', [''app''])])\<^sup>+)"
  using built_has_reason [OF example_plan, of app_entry] by (simp add: app_entry_def)

text \<open>
  the NEVR comparison: against a build this factory made from some release and counter, a
  recipe whose release is readable counts as published exactly when the versions agree up to
  the tilde and release and counter, written one after the other, are the expected ones.
\<close>

theorem is_published_exact:
  assumes "map_of published (ename e) = Some (version, built_release release buildroot bump)"
    and "is_number buildroot" "is_bump bump" "release \<noteq> []" "CHR 0x0A \<notin> set release"
    and "entry_version e = Inr v" and "expected_release specs e = Inr (Some x)"
  shows "is_published specs e published =
    Inr (normalize_version version = normalize_version v \<and> release @ bump = x)"
  using assms published_release_built [OF assms(2-5)] by (simp add: is_published_def)

definition bumped_entry :: entry where
  "bumped_entry = \<lparr>ename = ''p'', efields = [(''version'', JStr ''51.beta''),
     (''dist_bump'', JObj [(''count'', JInt 1), (''baseline'', JStr ''1'')])]\<rparr>"

definition spec_with :: "string \<Rightarrow> specs" where
  "spec_with release = (\<lambda>_. [Some (''Release: '' @ release @ ''%{?dist}'')])"

lemma is_published_exact_witness:
  "is_published (spec_with ''1'') bumped_entry [(''p'', (''51~beta'', ''1.hum1.bfin.1''))] = Inr True"
proof -
  have e: "expected_release (spec_with ''1'') bumped_entry = Inr (Some ''1.1'')" by code_simp
  have v: "entry_version bumped_entry = Inr ''51.beta''" by code_simp
  have n: "is_number ''1''" "is_bump ''.1''"
    by (simp_all add: is_number_def is_bump_def is_digit_def)
  have m: "map_of [(''p'', (''51~beta'', ''1.hum1.bfin.1''))] (ename bumped_entry) =
      Some (''51~beta'', built_release ''1'' ''1'' ''.1'')" by (simp add: bumped_entry_def built_release_def)
  from is_published_exact [OF m n _ _ v e] show ?thesis by (simp add: normalize_version_def)
qed

text \<open>
  the comparison writes release and counter one after the other, so it cannot tell a
  release that moved from \<open>1\<close> to \<open>1.1\<close> from the first rebuild of release \<open>1\<close>: the
  recipe below builds \<open>1.1\<close> without a counter, and the published second build of \<open>1\<close>
  makes it count as published, although the two builds have different releases.
\<close>

theorem moved_release_counts_as_published:
  "expected_release (spec_with ''1.1'') bumped_entry = Inr (Some ''1.1'') \<and>
   suffix bumped_entry ''1.1'' = Inr [] \<and> suffix bumped_entry ''1'' = Inr ''.1'' \<and>
   built_release ''1'' ''1'' ''.1'' \<noteq> built_release ''1.1'' ''1'' [] \<and>
   is_published (spec_with ''1.1'') bumped_entry [(''p'', (''51.beta'', built_release ''1'' ''1'' ''.1''))] = Inr True"
  by code_simp

text \<open>
  C19: the waves deliver the build: when no package asks for a wave without a job, the chunks of
  the fourteen stage outputs hold every selected package exactly once, and no chunk is empty or
  larger than a job matrix may be.
\<close>

theorem stages_deliver_build:
  assumes "overflow build waves = []" and "list_all (\<lambda>e. 0 \<le> wave_of waves e) build"
  shows "\<exists>cs. (\<forall>k. k < 14 \<longrightarrow> map_of (stage_outputs build waves) (chunks_key k) =
        Some (json_names (map json_names (cs k))) \<and>
        list_all (\<lambda>c. c \<noteq> [] \<and> length c \<le> 250) (cs k)) \<and>
    mset (concat (concat (map cs [0..<14]))) = mset (map ename build)"
proof -
  let ?cs = "\<lambda>k. chunks_of matrix_chunk (stage_names waves build k)"
  have "(0::nat) < matrix_chunk" by (simp add: matrix_chunk_def)
  then have c: "concat (?cs k) = stage_names waves build k"
    "list_all (\<lambda>c. c \<noteq> [] \<and> length c \<le> 250) (?cs k)" for k
    using chunks_of_spec [of matrix_chunk "stage_names waves build k"]
    by (simp_all add: list_all_iff matrix_chunk_def)
  have "concat (concat (map ?cs ks)) = concat (map (stage_names waves build) ks)" for ks
    by (induction ks) (simp_all add: c(1))
  then have "mset (concat (concat (map ?cs [0..<14]))) = mset (map ename build)"
    using stage_names_all [OF assms(2,1)] by (simp add: stages_count_def)
  with c(2) stage_outputs_lookup(2) show ?thesis
    by (intro exI [of _ ?cs]) (simp add: stages_count_def)
qed

lemma stages_deliver_build_witness:
  "\<exists>cs. mset (concat (concat (map cs [0..<14]))) = mset [''lib'', ''app'']"
  using stages_deliver_build [of "[lib_entry, app_entry]" "Some [(''lib'', 0), (''app'', 1)]"]
  by (auto simp: overflow_def wave_of_def stages_count_def lib_entry_def app_entry_def)

text \<open>
  an early publication is announced for a wave exactly when it is one of the first four,
  builds something, and a later wave builds something too.
\<close>

theorem early_publication_exact:
  "k \<in> set (early_waves waves build) \<longleftrightarrow>
     k < 4 \<and> stage_names waves build k \<noteq> [] \<and>
     (\<exists>j. k < j \<and> j < 14 \<and> stage_names waves build j \<noteq> [])"
  using early_wave_iff [of k waves build] by (simp add: early_publications_def stages_count_def)

text \<open>
  the canary's restriction keeps exactly the named packages in inventory order, and refuses
  a name the inventory does not have instead of dropping it.
\<close>

theorem restrict_keeps_named:
  "restrict_inventory packages only =
     (if only = [] then Inr packages
      else if set only \<subseteq> ename ` set packages then Inr (filter (\<lambda>e. ename e \<in> set only) packages)
      else Inl (ValueError (''not in the inventory: '' @
        join '', '' (sorted_set (filter (\<lambda>n. n \<notin> ename ` set packages) only)))))"
proof -
  have "set_minus only (map ename packages) = filter (\<lambda>n. n \<notin> ename ` set packages) only"
    by (simp add: set_minus_def)
  moreover have "set only \<subseteq> ename ` set packages \<longleftrightarrow> filter (\<lambda>n. n \<notin> ename ` set packages) only = []"
    by (auto simp: filter_empty_conv)
  ultimately show ?thesis by (simp add: restrict_inventory_def Let_def)
qed

end
