(* ===== verification/Cache_Key.thy ===== *)
theory Cache_Key
  imports Inventory
begin

section \<open>The build cache key (\<open>package_cache_key.py\<close>)\<close>

text \<open>
  What is hashed for a recipe, a build root and a cache entry. The hash function
  (SHA-256, as hex digits) belongs to the standard library and is a parameter; the theorems are
  about the byte streams it is given, which is where the code decides what a key depends on.
\<close>

subsection \<open>The recipe digest\<close>

definition nul :: char where
  "nul = CHR 0x00"

text \<open>A recipe directory: relative paths and contents of the files below it.\<close>

type_synonym tree = "(string \<times> string) list"

definition file_bytes :: "string \<times> string \<Rightarrow> string" where
  "file_bytes f = fst f @ [nul] @ snd f @ [nul]"

definition recipe_stream :: "tree \<Rightarrow> string" where
  "recipe_stream files = concat (map file_bytes (sort_key fst files))"

definition recipe_digest :: "(string \<Rightarrow> string) \<Rightarrow> tree \<Rightarrow> string result" where
  "recipe_digest sha256 files =
     (if files = [] then Inl (ValueError ''no files under'') else Inr (sha256 (recipe_stream files)))"

subsection \<open>The resolved root and the key\<close>

definition normalise_root :: "string list \<Rightarrow> string list" where
  "normalise_root nevras = sorted_set (filter (\<lambda>s. s \<noteq> []) (map strip nevras))"

record key_inputs =
  kpackage :: string
  krecipe :: string
  kbuildroot :: string
  kroot :: "string list"
  kdisttag :: string
  ksalt :: string

definition key_fields :: "key_inputs \<Rightarrow> (string, json) dict" where
  "key_fields k =
     [(''schema'', JStr ''2''), (''package'', JStr (kpackage k)), (''recipe'', JStr (krecipe k)),
      (''buildroot'', JStr (kbuildroot k)), (''root'', JList (map JStr (normalise_root (kroot k)))),
      (''disttag'', JStr (kdisttag k))] @
     (if ksalt k = [] then [] else [(''salt'', JStr (ksalt k))])"

definition key_payload :: "key_inputs \<Rightarrow> string" where
  "key_payload k = dumps_canonical (JObj (key_fields k))"

definition cache_key :: "(string \<Rightarrow> string) \<Rightarrow> key_inputs \<Rightarrow> string" where
  "cache_key sha256 k = take 32 (sha256 (key_payload k))"

text \<open>
  \<open>main\<close>: a missing recipe directory (None) or an empty resolved root is refused with exit
  status 1, otherwise the key is printed.
\<close>

definition key_main ::
    "(string \<Rightarrow> string) \<Rightarrow> (string \<Rightarrow> tree option) \<Rightarrow> string \<Rightarrow> string \<Rightarrow> string \<Rightarrow> string \<Rightarrow> string \<Rightarrow> (int + string) result" where
  "key_main sha256 trees package buildroot disttag salt resolved =
     (case trees package of
        None \<Rightarrow> Inr (Inl 1)
      | Some files \<Rightarrow>
          (let nevras = splitlines resolved in
           if normalise_root nevras = [] then Inr (Inl 1)
           else bind_r (recipe_digest sha256 files) (\<lambda>recipe.
             Inr (Inr (cache_key sha256 \<lparr>kpackage = package, krecipe = recipe, kbuildroot = buildroot,
               kroot = nevras, kdisttag = disttag, ksalt = salt\<rparr>)))))"

subsection \<open>What the streams determine\<close>

lemma file_bytes_inj:
  assumes "nul \<notin> set p" "nul \<notin> set c" "nul \<notin> set q" "nul \<notin> set d"
    and "file_bytes (p, c) @ r = file_bytes (q, d) @ s"
  shows "p = q \<and> c = d \<and> r = s"
proof -
  have cut: "a = b \<and> x = y" if "nul \<notin> set a" "nul \<notin> set b" "a @ nul # x = b @ nul # y" for a b x y
    using that
  proof (induction a arbitrary: b)
    case Nil
    then show ?case by (cases b) auto
  next
    case (Cons u a)
    then show ?case by (cases b) auto
  qed
  from assms(5) have "p @ nul # (c @ nul # r) = q @ nul # (d @ nul # s)" by (simp add: file_bytes_def)
  from cut [OF assms(1,3) this] have "p = q" "c @ nul # r = d @ nul # s" by auto
  with cut [OF assms(2,4)] show ?thesis by blast
qed

definition nul_free :: "tree \<Rightarrow> bool" where
  "nul_free files \<longleftrightarrow> list_all (\<lambda>(p, c). nul \<notin> set p \<and> nul \<notin> set c) files"

lemma streams_inj:
  "nul_free fs \<Longrightarrow> nul_free gs \<Longrightarrow> concat (map file_bytes fs) = concat (map file_bytes gs) \<Longrightarrow> fs = gs"
proof (induction fs arbitrary: gs)
  case Nil
  then show ?case by (cases gs) (auto simp: file_bytes_def)
next
  case (Cons f fs)
  then obtain g gs' where gs: "gs = g # gs'" by (cases gs) (auto simp: file_bytes_def)
  obtain p c q d where fg: "f = (p, c)" "g = (q, d)" by (cases f, cases g)
  have eq: "p = q \<and> c = d \<and> concat (map file_bytes fs) = concat (map file_bytes gs')"
    by (rule file_bytes_inj) (use Cons.prems gs fg in \<open>auto simp: nul_free_def\<close>)
  with Cons.IH [of gs'] Cons.prems gs fg show ?case by (simp add: nul_free_def)
qed

lemma normalise_root_eq:
  "normalise_root xs = normalise_root ys \<longleftrightarrow>
     set (map strip xs) - {[]} = set (map strip ys) - {[]}"
proof -
  have s: "set (normalise_root zs) = set (map strip zs) - {[]}" for zs
    by (auto simp: normalise_root_def)
  show ?thesis
  proof
    assume "normalise_root xs = normalise_root ys"
    then have "set (normalise_root xs) = set (normalise_root ys)" by simp
    then show "set (map strip xs) - {[]} = set (map strip ys) - {[]}" by (simp only: s)
  next
    assume "set (map strip xs) - {[]} = set (map strip ys) - {[]}"
    then show "normalise_root xs = normalise_root ys"
      unfolding normalise_root_def by (intro sorted_set_cong) auto
  qed
qed

lemma canonical_lookup:
  assumes "distinct (map fst a)" "distinct (map fst b)" "canonical (JObj a) = canonical (JObj b)"
  shows "map_option canonical (map_of a k) = map_option canonical (map_of b k)"
proof -
  let ?c = "map (\<lambda>(k, v). (k, canonical v))"
  have "set (sort_key fst (?c a)) = set (sort_key fst (?c b))" using assms(3) by simp
  then have "set (?c a) = set (?c b)" by simp
  moreover have "distinct (map fst (?c d))" if "distinct (map fst d)" for d
    using that by (simp add: comp_def case_prod_beta')
  ultimately have "map_of (?c a) = map_of (?c b)"
    using assms(1,2) by (intro map_of_inject_set [THEN iffD2]) auto
  moreover have "map_of (?c d) k = map_option canonical (map_of d k)" for d
    by (induction d) auto
  ultimately show ?thesis by metis
qed

lemma key_fields_distinct: "distinct (map fst (key_fields k))"
  by (simp add: key_fields_def)

lemma key_payload_eq:
  "key_payload k = key_payload l \<longleftrightarrow>
     kpackage k = kpackage l \<and> krecipe k = krecipe l \<and> kbuildroot k = kbuildroot l \<and>
     normalise_root (kroot k) = normalise_root (kroot l) \<and> kdisttag k = kdisttag l \<and> ksalt k = ksalt l"
proof
  assume "key_payload k = key_payload l"
  then have c: "canonical (JObj (key_fields k)) = canonical (JObj (key_fields l))"
    by (simp add: key_payload_def dumps_canonical_inj)
  note at = canonical_lookup [OF key_fields_distinct key_fields_distinct c]
  have js: "map (canonical \<circ> JStr) xs = map JStr xs" for xs by (induction xs) auto
  have "map JStr xs = map JStr ys \<longleftrightarrow> xs = ys" for xs ys by (simp add: inj_map_eq_map inj_def)
  then show "kpackage k = kpackage l \<and> krecipe k = krecipe l \<and> kbuildroot k = kbuildroot l \<and>
     normalise_root (kroot k) = normalise_root (kroot l) \<and> kdisttag k = kdisttag l \<and> ksalt k = ksalt l"
    using at [of "''package''"] at [of "''recipe''"] at [of "''buildroot''"] at [of "''root''"]
      at [of "''disttag''"] at [of "''salt''"] js
    by (auto simp: key_fields_def split: if_splits)
next
  assume "kpackage k = kpackage l \<and> krecipe k = krecipe l \<and> kbuildroot k = kbuildroot l \<and>
     normalise_root (kroot k) = normalise_root (kroot l) \<and> kdisttag k = kdisttag l \<and> ksalt k = ksalt l"
  then show "key_payload k = key_payload l" by (simp add: key_payload_def key_fields_def)
qed

subsection \<open>Properties\<close>

text \<open>
  two cache keys are computed from the same bytes exactly when the package, the recipe
  digest, the build root image, the disttag and the canary salt agree and the resolved roots are
  the same set of NEVRAs, whatever order and spacing they were reported in. So an input that
  matters cannot be missing from the key, and one that does not cannot change it.
\<close>

theorem key_payload_exact:
  "key_payload k = key_payload l \<longleftrightarrow>
     kpackage k = kpackage l \<and> krecipe k = krecipe l \<and> kbuildroot k = kbuildroot l \<and>
     set (map strip (kroot k)) - {[]} = set (map strip (kroot l)) - {[]} \<and>
     kdisttag k = kdisttag l \<and> ksalt k = ksalt l"
  by (simp add: key_payload_eq normalise_root_eq)

text \<open>
  the bytes hashed for a recipe determine its files, names and contents, as long as no file
  contains a NUL byte; a renamed, added or edited file is then always another stream.
\<close>

theorem recipe_stream_determines_files:
  assumes "nul_free fs" "nul_free gs" and "recipe_stream fs = recipe_stream gs"
  shows "mset fs = mset gs"
proof -
  have "nul_free (sort_key fst fs)" "nul_free (sort_key fst gs)"
    using assms(1,2) by (auto simp: nul_free_def list_all_iff)
  from streams_inj [OF this] assms(3) have "sort_key fst fs = sort_key fst gs"
    by (simp add: recipe_stream_def)
  then show ?thesis by (metis mset_sort)
qed

lemma recipe_stream_determines_files_witness:
  "mset [(''b'', ''y''), (''a'', ''x'')] = mset [(''a'', ''x''), (''b'', ''y'')]"
  by (rule recipe_stream_determines_files) (simp_all add: nul_free_def nul_def recipe_stream_def)

text \<open>
  With a NUL byte it does not: one file holding a NUL and two plain files are hashed as the
  same bytes, so two different recipes can share a digest whatever the hash function is.
\<close>

theorem recipe_digest_ambiguous:
  "\<exists>fs gs. mset fs \<noteq> mset gs \<and> recipe_digest sha256 fs = recipe_digest sha256 gs"
proof (intro exI conjI)
  let ?fs = "[(''a'', ''x'' @ [nul] @ ''b'' @ [nul] @ ''y'')]" and ?gs = "[(''a'', ''x''), (''b'', ''y'')]"
  show "mset ?fs \<noteq> mset ?gs" by simp
  show "recipe_digest sha256 ?fs = recipe_digest sha256 ?gs"
    by (simp add: recipe_digest_def recipe_stream_def file_bytes_def)
qed

end
