(* ===== verification/Json_Parse.thy ===== *)
theory Json_Parse
  imports Py_Json
begin

section \<open>\<open>json.loads\<close>\<close>

text \<open>
  The parser of Python's \<open>json\<close> module on texts of characters below 256, and the printed forms
  the tools use: one line with either separators, and \<open>indent=2\<close>. A float, and an escaped
  character from 256 on, is the error Unmodelled. The recursion is bounded by the length of
  the text, of which every nested value consumes a character. The relation \<open>spells\<close> says
  which texts spell a value with white space wherever it may stand; both printers spell, and
  what is spelled is read back.
\<close>

subsection \<open>The parser\<close>

definition decode_error :: error where
  "decode_error = ValueError ''JSONDecodeError''"

definition json_ws :: "char \<Rightarrow> bool" where
  "json_ws c = (c = CHR '' '' \<or> c = CHR 0x09 \<or> c = CHR 0x0A \<or> c = CHR 0x0D)"

definition skip_ws :: "string \<Rightarrow> string" where
  "skip_ws s = dropWhile json_ws s"

definition hex_code :: "char \<Rightarrow> nat option" where
  "hex_code c = (let n = of_char c :: nat in
     if 48 \<le> n \<and> n \<le> 57 then Some (n - 48)
     else if 97 \<le> n \<and> n \<le> 102 then Some (n - 87)
     else if 65 \<le> n \<and> n \<le> 70 then Some (n - 55) else None)"

definition plain_escape :: "char \<Rightarrow> char option" where
  "plain_escape c =
     (if c = CHR 0x22 \<or> c = CHR 0x5C \<or> c = CHR ''/'' then Some c
      else if c = CHR ''n'' then Some (CHR 0x0A)
      else if c = CHR ''r'' then Some (CHR 0x0D)
      else if c = CHR ''t'' then Some (CHR 0x09)
      else if c = CHR ''f'' then Some (CHR 0x0C)
      else if c = CHR ''b'' then Some (CHR 0x08)
      else None)"

definition cons_r :: "'a \<Rightarrow> ('a list \<times> 'b) result \<Rightarrow> ('a list \<times> 'b) result" where
  "cons_r x m = bind_r m (\<lambda>(xs, r). Inr (x # xs, r))"

text \<open>The rest of a string after its opening quote.\<close>

fun parse_string :: "string \<Rightarrow> (string \<times> string) result" where
  "parse_string [] = Inl decode_error"
| "parse_string (c # cs) =
     (if c = CHR 0x22 then Inr ([], cs)
      else if c = CHR 0x5C then
        (case cs of
           [] \<Rightarrow> Inl decode_error
         | d # ds \<Rightarrow>
             if d = CHR ''u'' then
               (case ds of
                  p # q # a # b # rs \<Rightarrow>
                    (case (hex_code p, hex_code q, hex_code a, hex_code b) of
                       (Some i, Some j, Some k, Some l) \<Rightarrow>
                         if i = 0 \<and> j = 0 then cons_r (char_of (16 * k + l)) (parse_string rs)
                         else Inl Unmodelled
                     | _ \<Rightarrow> Inl decode_error)
                | _ \<Rightarrow> Inl decode_error)
             else (case plain_escape d of
                 None \<Rightarrow> Inl decode_error
               | Some e \<Rightarrow> cons_r e (parse_string ds)))
      else if (of_char c :: nat) < 32 then Inl decode_error
      else cons_r c (parse_string cs))"

definition natural :: "string \<Rightarrow> (nat \<times> string) option" where
  "natural s = (case s of
      [] \<Rightarrow> None
    | c # cs \<Rightarrow>
        if c = CHR ''0'' then Some (0, cs)
        else if is_digit c then Some (read_nat (takeWhile is_digit s), dropWhile is_digit s)
        else None)"

definition parse_number :: "string \<Rightarrow> (json \<times> string) result" where
  "parse_number s =
     (let negative = starts_with ''-'' s in
      case natural (if negative then tl s else s) of
        None \<Rightarrow> Inl (if starts_with ''NaN'' s \<or> starts_with ''Infinity'' s \<or> starts_with ''-Infinity'' s
                    then Unmodelled else decode_error)
      | Some (n, r) \<Rightarrow>
          if r \<noteq> [] \<and> hd r \<in> {CHR ''.'', CHR ''e'', CHR ''E''} then Inl Unmodelled
          else Inr (JInt (if negative then - int n else int n), r))"

function parse_value :: "nat \<Rightarrow> string \<Rightarrow> (json \<times> string) result"
and parse_items :: "nat \<Rightarrow> string \<Rightarrow> (json list \<times> string) result"
and parse_members :: "nat \<Rightarrow> string \<Rightarrow> ((string \<times> json) list \<times> string) result" where
  "parse_value 0 s = Inl Unmodelled"
| "parse_value (Suc n) s =
     (case s of
        [] \<Rightarrow> Inl decode_error
      | c # cs \<Rightarrow>
          if c = CHR 0x22 then bind_r (parse_string cs) (\<lambda>(t, r). Inr (JStr t, r))
          else if c = CHR ''['' then
            (if starts_with '']'' (skip_ws cs) then Inr (JList [], tl (skip_ws cs))
             else bind_r (parse_items n (skip_ws cs)) (\<lambda>(xs, r). Inr (JList xs, r)))
          else if c = CHR ''{'' then
            (if starts_with ''}'' (skip_ws cs) then Inr (JObj [], tl (skip_ws cs))
             else bind_r (parse_members n (skip_ws cs)) (\<lambda>(kvs, r). Inr (JObj (dict_of_pairs kvs), r)))
          else if starts_with ''null'' s then Inr (JNull, drop 4 s)
          else if starts_with ''true'' s then Inr (JBool True, drop 4 s)
          else if starts_with ''false'' s then Inr (JBool False, drop 5 s)
          else parse_number s)"
| "parse_items 0 s = Inl Unmodelled"
| "parse_items (Suc n) s =
     bind_r (parse_value (Suc n) s) (\<lambda>(v, r).
       case skip_ws r of
         [] \<Rightarrow> Inl decode_error
       | c # cs \<Rightarrow>
           if c = CHR '']'' then Inr ([v], cs)
           else if c = CHR '','' then cons_r v (parse_items n (skip_ws cs))
           else Inl decode_error)"
| "parse_members 0 s = Inl Unmodelled"
| "parse_members (Suc n) s =
     (if \<not> starts_with [CHR 0x22] s then Inl decode_error
      else bind_r (parse_string (tl s)) (\<lambda>(k, r).
        if \<not> starts_with '':'' (skip_ws r) then Inl decode_error
        else bind_r (parse_value (Suc n) (skip_ws (tl (skip_ws r)))) (\<lambda>(v, r').
          case skip_ws r' of
            [] \<Rightarrow> Inl decode_error
          | c # cs \<Rightarrow>
              if c = CHR ''}'' then Inr ([(k, v)], cs)
              else if c = CHR '','' then cons_r (k, v) (parse_members n (skip_ws cs))
              else Inl decode_error)))"
  by pat_completeness auto
termination
  by (relation "measure (\<lambda>x. case x of Inl (n, _) \<Rightarrow> 2 * n
      | Inr (Inl (n, _)) \<Rightarrow> Suc (2 * n) | Inr (Inr (n, _)) \<Rightarrow> Suc (2 * n))") auto

definition loads :: "string \<Rightarrow> json result" where
  "loads s = bind_r (parse_value (Suc (length s)) (skip_ws s)) (\<lambda>(v, r).
     if skip_ws r = [] then Inr v else Inl decode_error)"

subsection \<open>\<open>json.dumps(v, indent=2)\<close>\<close>

definition indented :: "nat \<Rightarrow> string" where
  "indented level = CHR 0x0A # replicate (2 * level) (CHR '' '')"

fun dumps_at :: "nat \<Rightarrow> json \<Rightarrow> string" where
  "dumps_at level (JList xs) =
     (if xs = [] then ''[]''
      else ''['' @ indented (Suc level) @ join ('','' @ indented (Suc level)) (map (dumps_at (Suc level)) xs) @
        indented level @ '']'')"
| "dumps_at level (JObj kvs) =
     (if kvs = [] then ''{}''
      else ''{'' @ indented (Suc level) @
        join ('','' @ indented (Suc level)) (map (\<lambda>(k, v). quote_str k @ '': '' @ dumps_at (Suc level) v) kvs) @
        indented level @ ''}'')"
| "dumps_at level v = dumps '', '' '': '' v"

definition dumps_indent :: "json \<Rightarrow> string" where
  "dumps_indent v = dumps_at 0 v"

subsection \<open>Access to parsed documents\<close>

text \<open>\<open>v[k]\<close> as the tools use it: a missing key or a value that is no mapping.\<close>

definition item :: "json \<Rightarrow> string \<Rightarrow> json result" where
  "item v k = (case v of
      JObj kvs \<Rightarrow> (case map_of kvs k of None \<Rightarrow> Inl KeyError | Some w \<Rightarrow> Inr w)
    | _ \<Rightarrow> Inl TypeError)"

text \<open>\<open>v.get(k, d)\<close>.\<close>

definition get_or :: "json \<Rightarrow> string \<Rightarrow> json \<Rightarrow> json result" where
  "get_or v k d = (case v of
      JObj kvs \<Rightarrow> Inr (case map_of kvs k of None \<Rightarrow> d | Some w \<Rightarrow> w)
    | _ \<Rightarrow> Inl AttributeError)"

definition items_of :: "json \<Rightarrow> (string, json) dict result" where
  "items_of v = (case v of JObj kvs \<Rightarrow> Inr kvs | _ \<Rightarrow> Inl AttributeError)"

text \<open>Iterating a list, the characters of a string or the keys of a mapping.\<close>

definition iterate :: "json \<Rightarrow> json list result" where
  "iterate v = (case v of
      JList xs \<Rightarrow> Inr xs
    | JStr s \<Rightarrow> Inr (map (\<lambda>c. JStr [c]) s)
    | JObj kvs \<Rightarrow> Inr (map (\<lambda>(k, _). JStr k) kvs)
    | _ \<Rightarrow> Inl TypeError)"

text \<open>\<open>x in v\<close> for a string \<open>x\<close>: a member, a key, or a substring.\<close>

definition within :: "string \<Rightarrow> json \<Rightarrow> bool result" where
  "within x v = (case v of
      JList xs \<Rightarrow> Inr (JStr x \<in> set xs)
    | JStr s \<Rightarrow> Inr (contains x s)
    | JObj kvs \<Rightarrow> Inr (dict_has kvs x)
    | _ \<Rightarrow> Inl TypeError)"

subsection \<open>The texts of a value\<close>

definition ws :: "string \<Rightarrow> bool" where
  "ws w = list_all json_ws w"

inductive spells :: "string \<Rightarrow> json \<Rightarrow> bool"
and spells_items :: "string \<Rightarrow> json list \<Rightarrow> bool"
and spells_members :: "string \<Rightarrow> (string \<times> json) list \<Rightarrow> bool" where
  "spells ''null'' JNull"
| "spells ''true'' (JBool True)"
| "spells ''false'' (JBool False)"
| "spells (show_int n) (JInt n)"
| "spells (quote_str s) (JStr s)"
| "ws w \<Longrightarrow> spells (''['' @ w @ '']'') (JList [])"
| "ws w \<Longrightarrow> spells_items t vs \<Longrightarrow> spells (''['' @ w @ t) (JList vs)"
| "ws w \<Longrightarrow> spells (''{'' @ w @ ''}'') (JObj [])"
| "ws w \<Longrightarrow> spells_members t kvs \<Longrightarrow> distinct (map fst kvs) \<Longrightarrow> spells (''{'' @ w @ t) (JObj kvs)"
| "spells s v \<Longrightarrow> ws w \<Longrightarrow> spells_items (s @ w @ '']'') [v]"
| "spells s v \<Longrightarrow> ws w \<Longrightarrow> ws w' \<Longrightarrow> spells_items t vs \<Longrightarrow>
     spells_items (s @ w @ '','' @ w' @ t) (v # vs)"
| "ws w \<Longrightarrow> ws w' \<Longrightarrow> ws w'' \<Longrightarrow> spells s v \<Longrightarrow>
     spells_members (quote_str k @ w @ '':'' @ w' @ s @ w'' @ ''}'') [(k, v)]"
| "ws w \<Longrightarrow> ws w' \<Longrightarrow> ws w'' \<Longrightarrow> ws w''' \<Longrightarrow> spells s v \<Longrightarrow> spells_members t kvs \<Longrightarrow>
     spells_members (quote_str k @ w @ '':'' @ w' @ s @ w'' @ '','' @ w''' @ t) ((k, v) # kvs)"

lemmas spells_intros = spells_spells_items_spells_members.intros

subsection \<open>What is spelled is read back\<close>

lemma hex_code_digit: "n < 16 \<Longrightarrow> hex_code (hex_digit n) = Some n"
  by (auto simp: hex_code_def hex_digit_def Let_def)

lemma escaped_chars:
  "char_of (34 :: nat) = CHR 0x22" "char_of (92 :: nat) = CHR 0x5C" "char_of (10 :: nat) = CHR 0x0A"
  "char_of (13 :: nat) = CHR 0x0D" "char_of (9 :: nat) = CHR 0x09" "char_of (12 :: nat) = CHR 0x0C"
  "char_of (8 :: nat) = CHR 0x08"
  by code_simp+

lemma parse_string_esc: "parse_string (esc c @ t) = cons_r c (parse_string t)"
proof -
  define n where "n = (of_char c :: nat)"
  have c: "c = char_of n" by (simp add: n_def)
  have n: "n < 256" by (simp add: n_def)
  consider "n = 34" | "n = 92" | "n = 10" | "n = 13" | "n = 9" | "n = 12" | "n = 8"
    | "n \<notin> {34, 92}" "32 \<le> n" "n \<le> 126"
    | "n \<notin> {34, 92, 10, 13, 9, 12, 8}" "n < 32 \<or> 126 < n" by fastforce
  then show ?thesis
  proof cases
    case 8
    then have "esc c = [c]" by (simp add: esc_def n_def)
    moreover from 8 have "c \<noteq> CHR 0x22" "c \<noteq> CHR 0x5C" by (auto simp: n_def)
    ultimately show ?thesis using 8 by (simp add: n_def)
  next
    case 9
    then have "esc c = [CHR 0x5C, CHR ''u'', CHR ''0'', CHR ''0'', hex_digit (n div 16), hex_digit (n mod 16)]"
      by (auto simp: esc_def n_def Let_def)
    moreover have "hex_code (CHR ''0'') = Some 0" by (simp add: hex_code_def)
    moreover have "n div 16 < 16" using n by simp
    ultimately show ?thesis by (simp add: hex_code_digit c)
  qed (simp_all add: c esc_def plain_escape_def escaped_chars)
qed

lemma parse_string_quote: "parse_string (concat (map esc s) @ CHR 0x22 # r) = Inr (s, r)"
  by (induction s) (simp_all add: parse_string_esc cons_r_def)

lemma skip_ws_append: "ws w \<Longrightarrow> skip_ws (w @ s) = skip_ws s"
  by (induction w) (auto simp: ws_def skip_ws_def)

lemma skip_ws_stop: "\<not> json_ws c \<Longrightarrow> skip_ws (c # s) = c # s"
  by (simp add: skip_ws_def)

lemma not_ws [simp]:
  "\<not> json_ws (CHR '']'')" "\<not> json_ws (CHR ''}'')" "\<not> json_ws (CHR '','')" "\<not> json_ws (CHR '':'')"
  "\<not> json_ws (CHR 0x22)"
  by (simp_all add: json_ws_def)

definition delim :: "string \<Rightarrow> bool" where
  "delim r \<longleftrightarrow> r = [] \<or> json_ws (hd r) \<or> hd r \<in> {CHR '','', CHR '']'', CHR ''}''}"

lemma delim_ws: "ws w \<Longrightarrow> delim r \<Longrightarrow> delim (w @ r)"
  by (cases w) (auto simp: ws_def delim_def)

lemma delim_simps [simp]: "delim (CHR '','' # r)" "delim (CHR '']'' # r)" "delim (CHR ''}'' # r)" "delim []"
  by (simp_all add: delim_def)

lemma delim_number: "delim r \<Longrightarrow> no_digit r \<and> \<not> (r \<noteq> [] \<and> hd r \<in> {CHR ''.'', CHR ''e'', CHR ''E''})"
  by (auto simp: delim_def no_digit_def json_ws_def is_digit_def)

lemma show_nat_zero: "hd (show_nat n) = CHR ''0'' \<Longrightarrow> n = 0"
proof (induction n rule: show_nat.induct)
  case (1 n)
  then show ?case
    using digit_char(2) [of n] by (cases "n < 10") (auto simp: show_nat.simps [of n] digit_val_def)
qed

lemma takeWhile_show_nat:
  "no_digit r \<Longrightarrow> takeWhile is_digit (show_nat n @ r) = show_nat n \<and> dropWhile is_digit (show_nat n @ r) = r"
  by (cases r) (auto simp: no_digit_def takeWhile_append dropWhile_append dest: show_nat_digits)

lemma natural_show_nat: "no_digit r \<Longrightarrow> natural (show_nat n @ r) = Some (n, r)"
proof -
  assume r: "no_digit r"
  obtain c cs where c: "show_nat n = c # cs" by (cases "show_nat n") auto
  show ?thesis
  proof (cases "c = CHR ''0''")
    case True
    with show_nat_zero [of n] c have "n = 0" by simp
    with c True show ?thesis by (simp add: natural_def show_nat.simps [of 0])
  next
    case False
    moreover have "is_digit c" using show_nat_digits [of c n] c by simp
    moreover have "takeWhile is_digit (c # cs @ r) = show_nat n" "dropWhile is_digit (c # cs @ r) = r"
      using takeWhile_show_nat [OF r, of n] c by simp_all
    ultimately show ?thesis unfolding natural_def c append_Cons
      using c read_show_nat [of n] by simp
  qed
qed

lemma parse_number_show: "delim r \<Longrightarrow> parse_number (show_int m @ r) = Inr (JInt m, r)"
proof -
  assume "delim r"
  then have r: "no_digit r" "\<not> (r \<noteq> [] \<and> hd r \<in> {CHR ''.'', CHR ''e'', CHR ''E''})"
    using delim_number by blast+
  have "\<not> starts_with ''-'' (show_nat n @ r)" for n
    by (cases "show_nat n") (use show_nat_digits [of "CHR ''-''" n] in \<open>auto simp: is_digit_def\<close>)
  with r(2) show ?thesis
    by (simp add: parse_number_def show_int_def natural_show_nat [OF r(1)] Let_def del: de_Morgan_conj)
qed

lemma spells_hd:
  assumes "spells s v"
  shows "\<exists>c t. s = c # t \<and> \<not> json_ws c \<and> c \<noteq> CHR '']'' \<and> c \<noteq> CHR ''}''"
  using assms
proof cases
  case (4 n)
  obtain c t where "show_int n = c # t" "is_digit c \<or> c = CHR ''-''" using show_int_hd by blast
  with 4 show ?thesis by (auto simp: json_ws_def is_digit_def)
qed (auto simp: json_ws_def quote_str_def)

lemma spells_start:
  assumes "spells s v"
  shows "skip_ws (s @ x) = s @ x" and "\<not> starts_with '']'' (s @ x)" and "\<not> starts_with ''}'' (s @ x)"
  using spells_hd [OF assms] by (auto simp: skip_ws_stop)

lemma quote_start: "skip_ws (quote_str k @ x) = quote_str k @ x" "starts_with [CHR 0x22] (quote_str k @ x)"
    "tl (quote_str k @ x) = concat (map esc k) @ CHR 0x22 # x" "\<not> starts_with ''}'' (quote_str k @ x)"
  by (simp_all add: quote_str_def skip_ws_stop)

lemma spelled_nonempty: "spells_items t vs \<Longrightarrow> t \<noteq> []" "spells_members u kvs \<Longrightarrow> u \<noteq> []"
  by (auto elim!: spells_items.cases spells_members.cases simp: quote_str_def)

lemma skip_ws_more: "skip_ws t = t \<Longrightarrow> t \<noteq> [] \<Longrightarrow> skip_ws (t @ r) = t @ r"
  unfolding skip_ws_def dropWhile_eq_self_iff by (cases t) auto

lemma parse_spelled:
  "spells s v \<Longrightarrow> (\<forall>n r. length s \<le> n \<longrightarrow> delim r \<longrightarrow> parse_value n (s @ r) = Inr (v, r))"
  "spells_items t vs \<Longrightarrow> (\<forall>n r. length t \<le> n \<longrightarrow> parse_items n (t @ r) = Inr (vs, r)) \<and>
     \<not> starts_with '']'' t \<and> skip_ws t = t"
  "spells_members t kvs \<Longrightarrow> (\<forall>n r. length t \<le> n \<longrightarrow> parse_members n (t @ r) = Inr (kvs, r)) \<and>
     \<not> starts_with ''}'' t \<and> skip_ws t = t"
proof (induction rule: spells_spells_items_spells_members.inducts)
  case 1
  show ?case by (intro allI impI, case_tac n) auto
next
  case 2
  show ?case by (intro allI impI, case_tac n) auto
next
  case 3
  show ?case by (intro allI impI, case_tac n) auto
next
  case (4 m)
  show ?case
  proof (intro allI impI)
    fix n r
    assume "length (show_int m) \<le> n" and r: "delim r"
    obtain c t where c: "show_int m = c # t" "is_digit c \<or> c = CHR ''-''" using show_int_hd by blast
    with \<open>length (show_int m) \<le> n\<close> obtain k where k: "n = Suc k" by (cases n) auto
    from c(2) have "c \<noteq> CHR 0x22" "c \<noteq> CHR ''[''" "c \<noteq> CHR ''{''" "c \<noteq> CHR ''n''" "c \<noteq> CHR ''t''" "c \<noteq> CHR ''f''"
      by (auto simp: is_digit_def)
    with c(1) k parse_number_show [OF r, of m] show "parse_value n (show_int m @ r) = Inr (JInt m, r)"
      by simp
  qed
next
  case (5 s)
  have "parse_value (Suc k) (quote_str s @ r) = Inr (JStr s, r)" for k r
    by (simp add: quote_str_def parse_string_quote)
  moreover have "quote_str s \<noteq> []" by (simp add: quote_str_def)
  ultimately show ?case by (metis Suc_le_D length_greater_0_conv less_eq_Suc_le)
next
  case (6 w)
  show ?case
  proof (intro allI impI)
    fix n r
    assume "length (''['' @ w @ '']'') \<le> n"
    then obtain k where "n = Suc k" by (cases n) auto
    with 6 show "parse_value n ((''['' @ w @ '']'') @ r) = Inr (JList [], r)"
      by (simp add: skip_ws_append skip_ws_stop)
  qed
next
  case (7 w t vs)
  show ?case
  proof (intro allI impI)
    fix n r
    assume n: "length (''['' @ w @ t) \<le> n"
    then obtain k where k: "n = Suc k" "length t \<le> k" by (cases n) auto
    with 7 have "parse_items k (t @ r) = Inr (vs, r)" by blast
    moreover have "t \<noteq> []" using 7 by (auto elim: spells_items.cases)
    then have "skip_ws (t @ r) = t @ r" "\<not> starts_with '']'' (t @ r)"
      using 7 by (cases t; auto simp: skip_ws_def dropWhile_eq_Cons_conv split: if_splits)+
    ultimately show "parse_value n ((''['' @ w @ t) @ r) = Inr (JList vs, r)"
      using k(1) 7 by (simp add: skip_ws_append)
  qed
next
  case (8 w)
  show ?case
  proof (intro allI impI)
    fix n r
    assume "length (''{'' @ w @ ''}'') \<le> n"
    then obtain k where "n = Suc k" by (cases n) auto
    with 8 show "parse_value n ((''{'' @ w @ ''}'') @ r) = Inr (JObj [], r)"
      by (simp add: skip_ws_append skip_ws_stop)
  qed
next
  case (9 w t kvs)
  show ?case
  proof (intro allI impI)
    fix n r
    assume n: "length (''{'' @ w @ t) \<le> n"
    then obtain k where k: "n = Suc k" "length t \<le> k" by (cases n) auto
    with 9 have "parse_members k (t @ r) = Inr (kvs, r)" by blast
    moreover have "t \<noteq> []" using 9 by (auto elim: spells_members.cases simp: quote_str_def)
    then have "skip_ws (t @ r) = t @ r" "\<not> starts_with ''}'' (t @ r)"
      using 9 by (cases t; auto simp: skip_ws_def dropWhile_eq_Cons_conv split: if_splits)+
    ultimately show "parse_value n ((''{'' @ w @ t) @ r) = Inr (JObj kvs, r)"
      using k(1) 9 by (simp add: skip_ws_append dict_of_distinct_pairs)
  qed
next
  case (10 s v w)
  have "parse_items n ((s @ w @ '']'') @ r) = Inr ([v], r)" if "length (s @ w @ '']'') \<le> n" for n r
  proof -
    from that obtain k where "n = Suc k" "length s \<le> Suc k" by (cases n) auto
    with 10 show ?thesis by (simp add: delim_ws skip_ws_append skip_ws_stop del: parse_value.simps)
  qed
  with spells_start [OF 10(1)] show ?case by simp
next
  case (11 s v w w' t vs)
  have "parse_items n ((s @ w @ '','' @ w' @ t) @ r) = Inr (v # vs, r)"
    if "length (s @ w @ '','' @ w' @ t) \<le> n" for n r
  proof -
    from that obtain k where "n = Suc k" "length s \<le> Suc k" "length t \<le> k" by (cases n) auto
    with 11 spelled_nonempty(1) [OF 11(4)] show ?thesis
      by (simp add: delim_ws skip_ws_append skip_ws_stop skip_ws_more cons_r_def del: parse_value.simps)
  qed
  with spells_start [OF 11(1)] show ?case by simp
next
  case (12 w w' w'' s v k)
  have "parse_members n ((quote_str k @ w @ '':'' @ w' @ s @ w'' @ ''}'') @ r) = Inr ([(k, v)], r)"
    if "length (quote_str k @ w @ '':'' @ w' @ s @ w'' @ ''}'') \<le> n" for n r
  proof -
    from that obtain m where "n = Suc m" "length s \<le> Suc m" by (cases n) auto
    with 12 spells_start [OF 12(4)] show ?thesis
      by (simp add: delim_ws skip_ws_append skip_ws_stop quote_start parse_string_quote del: parse_value.simps)
  qed
  with quote_start show ?case by simp
next
  case (13 w w' w'' w''' s v t kvs k)
  have "parse_members n ((quote_str k @ w @ '':'' @ w' @ s @ w'' @ '','' @ w''' @ t) @ r) = Inr ((k, v) # kvs, r)"
    if "length (quote_str k @ w @ '':'' @ w' @ s @ w'' @ '','' @ w''' @ t) \<le> n" for n r
  proof -
    from that obtain m where "n = Suc m" "length s \<le> Suc m" "length t \<le> m" by (cases n) auto
    with 13 spells_start [OF 13(5)] spelled_nonempty(2) [OF 13(6)] show ?thesis
      by (simp add: delim_ws skip_ws_append skip_ws_stop skip_ws_more quote_start parse_string_quote cons_r_def
          del: parse_value.simps)
  qed
  with quote_start show ?case by simp
qed

subsection \<open>The bound on the recursion is never met\<close>

lemma length_skip_ws: "length (skip_ws s) \<le> length s"
  by (simp add: skip_ws_def length_dropWhile_le)

lemma parse_string_shorter: "parse_string s = Inr (t, r) \<Longrightarrow> length r < length s"
proof (induction s arbitrary: t rule: parse_string.induct)
  case (2 c cs)
  then show ?case
    by (auto simp: cons_r_def bind_r_Inr split: if_splits list.splits option.splits prod.splits) fastforce+
qed simp

lemma parse_number_shorter: "parse_number s = Inr (v, r) \<Longrightarrow> length r < length s"
  by (cases s)
    (auto simp: parse_number_def natural_def Let_def length_dropWhile_le less_Suc_eq_le le_SucI
      split: option.splits if_splits list.splits)

lemma skip_ws_shorter: "skip_ws r = c # cs \<Longrightarrow> length cs < length r"
  using length_skip_ws [of r] by simp

lemma tl_skip_ws_shorter: "starts_with (c # p) (skip_ws s) \<Longrightarrow> length (tl (skip_ws s)) < length s"
  by (cases "skip_ws s") (auto dest: skip_ws_shorter)

lemma parse_shorter:
  "parse_value n s = Inr (v, r) \<Longrightarrow> length r < length s"
  "parse_items n s = Inr (vs, r) \<Longrightarrow> length r < length s"
  "parse_members n s = Inr (kvs, r) \<Longrightarrow> length r < length s"
proof (induction n s and n s and n s arbitrary: v r and vs r and kvs r
    rule: parse_value_parse_items_parse_members.induct)
  case (2 n s)
  show ?case
  proof (cases s)
    case Nil
    with 2 show ?thesis by simp
  next
    case (Cons c cs)
    have "length (skip_ws cs) \<le> length cs" by (rule length_skip_ws)
    with 2 Cons show ?thesis
      apply (simp add: bind_r_Inr split: if_splits prod.splits)
      apply (auto dest!: parse_string_shorter)[1]
      apply (force dest: tl_skip_ws_shorter)[1]
      apply (clarsimp; fastforce)
      apply (force dest: tl_skip_ws_shorter)[1]
      apply (clarsimp; fastforce)
      apply force
      apply force
      apply force
      apply (force dest: parse_number_shorter)
      done
  qed
next
  case (4 n s)
  from 4(3) obtain u q where q: "parse_value (Suc n) s = Inr (u, q)" by (auto simp: bind_r_Inr)
  with 4(1) have qs: "length q < length s" by blast
  from 4(3) q obtain c cs where c: "skip_ws q = c # cs" by (auto split: list.splits)
  then have cs: "length cs < length q" by (rule skip_ws_shorter)
  from 4(3) q c consider "r = cs" | xs where "c = CHR '',''" "parse_items n (skip_ws cs) = Inr (xs, r)"
    by (auto simp: cons_r_def bind_r_Inr split: if_splits simp del: parse_value.simps)
  then show ?case
  proof cases
    case 2
    with 4(2) [OF q refl c] have "length r < length (skip_ws cs)" by simp
    with length_skip_ws [of cs] qs cs show ?thesis by linarith
  qed (use qs cs in simp)
next
  case (6 n s)
  from 6(3) have s: "starts_with [CHR 0x22] s" by (auto split: if_splits)
  from 6(3) s obtain k p where p: "parse_string (tl s) = Inr (k, p)" by (auto simp: bind_r_Inr)
  from 6(3) s p have colon: "starts_with '':'' (skip_ws p)" by (auto split: if_splits)
  with 6(3) s p obtain u q where q: "parse_value (Suc n) (skip_ws (tl (skip_ws p))) = Inr (u, q)"
    by (auto simp: bind_r_Inr simp del: parse_value.simps)
  have "length q < length (skip_ws (tl (skip_ws p)))" using 6(1) s p colon q by blast
  also have "\<dots> \<le> length (tl (skip_ws p))" by (rule length_skip_ws)
  also have "\<dots> \<le> length p" using length_skip_ws [of p] by simp
  finally have qs: "length q < length s" using parse_string_shorter [OF p] by simp
  from 6(3) s p colon q obtain c cs where c: "skip_ws q = c # cs"
    by (auto split: list.splits simp del: parse_value.simps)
  then have cs: "length cs < length q" by (rule skip_ws_shorter)
  from 6(3) s p colon q c consider "r = cs" | xs where "c = CHR '',''" "parse_members n (skip_ws cs) = Inr (xs, r)"
    by (auto simp: cons_r_def bind_r_Inr split: if_splits simp del: parse_value.simps)
  then show ?case
  proof cases
    case 2
    have "length r < length (skip_ws cs)" using 6(2) s p colon q c 2 by fastforce
    with length_skip_ws [of cs] qs cs show ?thesis by linarith
  qed (use qs cs in simp)
qed simp_all

text \<open>A parsed document has distinct keys.\<close>

lemma snd_dict_of_pairs: "snd ` set (dict_of_pairs ps) \<subseteq> snd ` set ps"
proof
  fix v
  assume "v \<in> snd ` set (dict_of_pairs ps)"
  then obtain k where "(k, v) \<in> set (dict_of_pairs ps)" by auto
  then have "map_of (dict_of_pairs ps) k = Some v" by simp
  then have "map_of (rev ps) k = Some v" by (simp add: map_of_dict_of_pairs)
  then have "(k, v) \<in> set ps" using map_of_SomeD by fastforce
  then show "v \<in> snd ` set ps" by force
qed

lemma wf_json_dict_of_pairs: "\<forall>v \<in> snd ` set kvs. wf_json v \<Longrightarrow> wf_json (JObj (dict_of_pairs kvs))"
proof -
  assume "\<forall>v \<in> snd ` set kvs. wf_json v"
  then have "\<forall>v \<in> snd ` set (dict_of_pairs kvs). wf_json v" using snd_dict_of_pairs [of kvs] by blast
  then show ?thesis by (auto simp: list_all_iff)
qed

lemma parse_number_wf: "parse_number s = Inr (v, r) \<Longrightarrow> wf_json v"
  by (auto simp: parse_number_def Let_def split: option.splits if_splits)

lemma parse_wf:
  "parse_value n s = Inr (v, r) \<Longrightarrow> wf_json v"
  "parse_items n s = Inr (vs, r) \<Longrightarrow> list_all wf_json vs"
  "parse_members n s = Inr (kvs, r) \<Longrightarrow> \<forall>v \<in> snd ` set kvs. wf_json v"
proof (induction n s and n s and n s arbitrary: v r and vs r and kvs r
    rule: parse_value_parse_items_parse_members.induct)
  case (2 n s)
  show ?case
  proof (cases s)
    case Nil
    with 2 show ?thesis by simp
  next
    case (Cons c cs)
    have items: "list_all wf_json vs" if "c = CHR ''[''" "\<not> starts_with '']'' (skip_ws cs)"
      "parse_items n (skip_ws cs) = Inr (vs, r)" for vs r
      using that by (intro 2(1) [OF Cons]) auto
    have members: "wf_json (JObj (dict_of_pairs kvs))" if "c = CHR ''{''" "\<not> starts_with ''}'' (skip_ws cs)"
      "parse_members n (skip_ws cs) = Inr (kvs, r)" for kvs r
      using that by (intro wf_json_dict_of_pairs 2(2) [OF Cons]) auto
    from 2(3) Cons consider "v \<in> {JNull, JList [], JObj [], JBool True, JBool False} \<or> (\<exists>t. v = JStr t)"
      | vs where "v = JList vs" "c = CHR ''[''" "\<not> starts_with '']'' (skip_ws cs)" "parse_items n (skip_ws cs) = Inr (vs, r)"
      | kvs where "v = JObj (dict_of_pairs kvs)" "c = CHR ''{''" "\<not> starts_with ''}'' (skip_ws cs)"
        "parse_members n (skip_ws cs) = Inr (kvs, r)"
      | "parse_number s = Inr (v, r)"
      by (auto simp: bind_r_Inr split: if_splits)
    then show ?thesis
    proof cases
      case 2
      with items [of vs r] show ?thesis by simp
    next
      case 3
      with members [of kvs r] show ?thesis by simp
    qed (auto dest: parse_number_wf)
  qed
next
  case (4 n s)
  from 4(3) obtain u q where q: "parse_value (Suc n) s = Inr (u, q)" by (auto simp: bind_r_Inr)
  with 4(1) have u: "wf_json u" by blast
  from 4(3) q obtain c cs where c: "skip_ws q = c # cs" by (auto split: list.splits)
  from 4(3) q c consider "vs = [u]" | xs where "c = CHR '',''" "parse_items n (skip_ws cs) = Inr (xs, r)" "vs = u # xs"
    by (auto simp: cons_r_def bind_r_Inr split: if_splits simp del: parse_value.simps)
  then show ?case
  proof cases
    case 2
    have "list_all wf_json xs" using 2 by (intro 4(2) [OF q refl c]) auto
    with 2 u show ?thesis by simp
  qed (use u in simp)
next
  case (6 n s)
  from 6(3) have s: "starts_with [CHR 0x22] s" by (auto split: if_splits)
  from 6(3) s obtain k p where p: "parse_string (tl s) = Inr (k, p)" by (auto simp: bind_r_Inr)
  from 6(3) s p have colon: "starts_with '':'' (skip_ws p)" by (auto split: if_splits)
  with 6(3) s p obtain u q where q: "parse_value (Suc n) (skip_ws (tl (skip_ws p))) = Inr (u, q)"
    by (auto simp: bind_r_Inr simp del: parse_value.simps)
  have u: "wf_json u" using 6(1) s p colon q by blast
  from 6(3) s p colon q obtain c cs where c: "skip_ws q = c # cs"
    by (auto split: list.splits simp del: parse_value.simps)
  from 6(3) s p colon q c consider "kvs = [(k, u)]"
    | xs where "c = CHR '',''" "parse_members n (skip_ws cs) = Inr (xs, r)" "kvs = (k, u) # xs"
    by (auto simp: cons_r_def bind_r_Inr split: if_splits simp del: parse_value.simps)
  then show ?case
  proof cases
    case 2
    have "\<forall>v \<in> snd ` set xs. wf_json v" using 2 s colon by (intro 6(2) [OF _ p refl _ q refl c]) auto
    with 2 u show ?thesis by simp
  qed (use u in simp)
qed simp_all

lemma loads_wf: "loads s = Inr v \<Longrightarrow> wf_json v"
  by (auto simp: loads_def bind_r_Inr split: if_splits dest: parse_wf(1) simp del: parse_value.simps)

lemma parse_bound:
  "length s < n \<Longrightarrow> length s < m \<Longrightarrow> parse_value n s = parse_value m s"
  "length s < n \<Longrightarrow> length s < m \<Longrightarrow> parse_items n s = parse_items m s"
  "length s < n \<Longrightarrow> length s < m \<Longrightarrow> parse_members n s = parse_members m s"
proof (induction n s and n s and n s arbitrary: m and m and m
    rule: parse_value_parse_items_parse_members.induct)
  case (2 n s)
  from 2(4) obtain m' where m: "m = Suc m'" by (cases m) auto
  show ?case
  proof (cases s)
    case (Cons c cs)
    have "length (skip_ws cs) \<le> length cs" by (rule length_skip_ws)
    then have n: "length (skip_ws cs) < n" "length (skip_ws cs) < m'" using 2 Cons m by auto
    have "c = CHR ''['' \<Longrightarrow> \<not> starts_with '']'' (skip_ws cs) \<Longrightarrow>
        parse_items n (skip_ws cs) = parse_items m' (skip_ws cs)"
      using n by (intro 2(1) [OF Cons]) simp_all
    moreover have "c = CHR ''{'' \<Longrightarrow> \<not> starts_with ''}'' (skip_ws cs) \<Longrightarrow>
        parse_members n (skip_ws cs) = parse_members m' (skip_ws cs)"
      using n by (intro 2(2) [OF Cons]) simp_all
    ultimately show ?thesis using Cons m by simp
  qed (simp add: m)
next
  case (4 n s)
  from 4(4) obtain m' where m: "m = Suc m'" by (cases m) auto
  have eq: "parse_value (Suc n) s = parse_value (Suc m') s" using 4 m by blast
  show ?case
  proof (cases "parse_value (Suc n) s")
    case (Inr x)
    obtain u q where x: "x = (u, q)" by (cases x)
    have "parse_items n (skip_ws cs) = parse_items m' (skip_ws cs)" if c: "skip_ws q = CHR '','' # cs" for cs
    proof -
      have "length q < length s" using parse_shorter(1) Inr x by blast
      then have "length (skip_ws cs) < n" "length (skip_ws cs) < m'"
        using skip_ws_shorter [OF c] length_skip_ws [of cs] 4(3,4) m by linarith+
      then show ?thesis by (intro 4(2) [OF Inr [unfolded x] refl c]) simp_all
    qed
    with Inr x eq m show ?thesis by (simp del: parse_value.simps split: list.split)
  qed (use eq m in \<open>simp del: parse_value.simps\<close>)
next
  case (6 n s)
  from 6(4) obtain m' where m: "m = Suc m'" by (cases m) auto
  show ?case
  proof (cases "starts_with [CHR 0x22] s \<and> (\<exists>k p. parse_string (tl s) = Inr (k, p) \<and> starts_with '':'' (skip_ws p))")
    case True
    then obtain k p where s: "starts_with [CHR 0x22] s" and p: "parse_string (tl s) = Inr (k, p)"
      and colon: "starts_with '':'' (skip_ws p)" by blast
    let ?t = "skip_ws (tl (skip_ws p))"
    have "length ?t \<le> length (tl (skip_ws p))" by (rule length_skip_ws)
    also have "\<dots> \<le> length p" using length_skip_ws [of p] by simp
    finally have t: "length ?t < length s" using parse_string_shorter [OF p] by simp
    have eq: "parse_value (Suc n) ?t = parse_value (Suc m') ?t"
      using s colon t 6(3,4) m by (intro 6(1) [OF _ p refl]) simp_all
    show ?thesis
    proof (cases "parse_value (Suc n) ?t")
      case (Inr x)
      obtain u q where x: "x = (u, q)" by (cases x)
      have "parse_members n (skip_ws cs) = parse_members m' (skip_ws cs)" if c: "skip_ws q = CHR '','' # cs" for cs
      proof -
        have "length q < length ?t" using parse_shorter(1) Inr x by blast
        then have "length (skip_ws cs) < n" "length (skip_ws cs) < m'"
          using skip_ws_shorter [OF c] length_skip_ws [of cs] t 6(3,4) m by linarith+
        then show ?thesis using s colon by (intro 6(2) [OF _ p refl _ Inr [unfolded x] refl c]) simp_all
      qed
      with Inr x eq m p show ?thesis by (simp del: parse_value.simps split: list.split)
    qed (use eq m p in \<open>simp del: parse_value.simps\<close>)
  next
    case False
    then show ?thesis by (cases "parse_string (tl s)") (auto simp: m simp del: parse_value.simps)
  qed
qed simp_all

subsection \<open>What the printers print is spelled\<close>

lemma spells_items_join:
  assumes "vs \<noteq> []" "ws w" "ws w'" "\<And>v. v \<in> set vs \<Longrightarrow> spells (f v) v"
  shows "spells_items (join ('','' @ w) (map f vs) @ w' @ '']'') vs"
  using assms(1,4)
proof (induction vs rule: list_nonempty_induct)
  case (single v)
  then show ?case using assms(3) by (auto intro: spells_intros)
next
  case (cons v vs)
  then have "spells_items (f v @ [] @ '','' @ w @ join ('','' @ w) (map f vs) @ w' @ '']'') (v # vs)"
    using assms(2) by (intro spells_intros) (auto simp: ws_def)
  then show ?case using cons(1) by (cases vs) auto
qed

lemma spells_members_join:
  assumes "kvs \<noteq> []" "ws w" "ws w'" "ws u" "\<And>k v. (k, v) \<in> set kvs \<Longrightarrow> spells (f v) v"
  shows "spells_members (join ('','' @ w) (map (\<lambda>(k, v). quote_str k @ '':'' @ u @ f v) kvs) @ w' @ ''}'') kvs"
  using assms(1,5)
proof (induction kvs rule: list_nonempty_induct)
  case (single p)
  then have "spells (f (snd p)) (snd p)" by (metis list.set_intros(1) prod.collapse)
  then have "spells_members (quote_str (fst p) @ [] @ '':'' @ u @ f (snd p) @ w' @ ''}'') [(fst p, snd p)]"
    using assms(3,4) by (intro spells_intros) (auto simp: ws_def)
  then show ?case by (auto simp: case_prod_beta)
next
  case (cons p kvs)
  then have "spells (f (snd p)) (snd p)" by (metis list.set_intros(1) prod.collapse)
  then have "spells_members (quote_str (fst p) @ [] @ '':'' @ u @ f (snd p) @ [] @ '','' @ w @
      join ('','' @ w) (map (\<lambda>(k, v). quote_str k @ '':'' @ u @ f v) kvs) @ w' @ ''}'') ((fst p, snd p) # kvs)"
    using assms(2,4) cons by (intro spells_intros) (auto simp: ws_def)
  then show ?case using cons(1) by (cases p; cases kvs) auto
qed

lemma spells_dumps:
  assumes "ws w" "ws u"
  shows "wf_json v \<Longrightarrow> spells (dumps ('','' @ w) ('':'' @ u) v) v"
proof (induction v)
  case (JBool b)
  then show ?case by (cases b) (auto intro: spells_intros)
next
  case (JList vs)
  show ?case
  proof (cases "vs = []")
    case True
    then show ?thesis using spells_intros(6) [of "[]"] by (simp add: ws_def)
  next
    case False
    then have "spells_items (join ('','' @ w) (map (dumps ('','' @ w) ('':'' @ u)) vs) @ [] @ '']'') vs"
      using JList assms(1) by (intro spells_items_join) (auto simp: ws_def list_all_iff)
    then show ?thesis using spells_intros(7) [of "[]"] by (simp add: ws_def)
  qed
next
  case (JObj kvs)
  show ?case
  proof (cases "kvs = []")
    case True
    then show ?thesis using spells_intros(8) [of "[]"] by (simp add: ws_def)
  next
    case False
    then have "spells_members (join ('','' @ w)
        (map (\<lambda>(k, v). quote_str k @ '':'' @ u @ dumps ('','' @ w) ('':'' @ u) v) kvs) @ [] @ ''}'') kvs"
      using JObj assms by (intro spells_members_join) (auto simp: ws_def list_all_iff)
    then show ?thesis using spells_intros(9) [of "[]"] JObj.prems by (simp add: ws_def)
  qed
qed (auto intro: spells_intros)

lemma ws_space: "ws '' ''"
  by (simp add: ws_def json_ws_def)

lemma ws_indented: "ws (indented n)"
  by (auto simp: ws_def indented_def json_ws_def list_all_iff)

lemma spells_dumps_at: "wf_json v \<Longrightarrow> spells (dumps_at n v) v"
proof (induction v arbitrary: n)
  case (JBool b)
  then show ?case by (cases b) (auto intro: spells_intros)
next
  case (JList vs)
  show ?case
  proof (cases "vs = []")
    case True
    then show ?thesis using spells_intros(6) [of "[]"] by (simp add: ws_def)
  next
    case False
    then have "spells_items (join ('','' @ indented (Suc n)) (map (dumps_at (Suc n)) vs) @ indented n @ '']'') vs"
      using JList by (intro spells_items_join) (auto simp: ws_indented list_all_iff)
    then show ?thesis using spells_intros(7) [OF ws_indented] False by simp
  qed
next
  case (JObj kvs)
  show ?case
  proof (cases "kvs = []")
    case True
    then show ?thesis using spells_intros(8) [of "[]"] by (simp add: ws_def)
  next
    case False
    then have "spells_members (join ('','' @ indented (Suc n))
        (map (\<lambda>(k, v). quote_str k @ '':'' @ '' '' @ dumps_at (Suc n) v) kvs) @ indented n @ ''}'') kvs"
      using JObj by (intro spells_members_join) (auto simp: ws_indented ws_space list_all_iff)
    then show ?thesis using spells_intros(9) [OF ws_indented] False JObj.prems by simp
  qed
qed (auto intro: spells_intros)

lemma loads_spelled: "spells s v \<Longrightarrow> ws w \<Longrightarrow> loads (s @ w) = Inr v"
proof -
  assume s: "spells s v" and w: "ws w"
  then have "delim w" using delim_ws [of w "[]"] by simp
  then have "parse_value (Suc (length (s @ w))) (s @ w) = Inr (v, w)"
    by (intro parse_spelled(1) [OF s, rule_format]) simp_all
  moreover have "skip_ws w = []" using skip_ws_append [OF w, of "[]"] by (simp add: skip_ws_def)
  ultimately show ?thesis by (simp add: loads_def spells_start [OF s])
qed

lemma loads_dumps: "wf_json v \<Longrightarrow> loads (dumps_default v) = Inr v"
  using loads_spelled [OF spells_dumps [of "'' ''" "'' ''" v], of "[]"]
  by (simp add: dumps_default_def ws_def json_ws_def)

lemma loads_dumps_compact: "wf_json v \<Longrightarrow> loads (dumps '','' '':'' v) = Inr v"
  using loads_spelled [OF spells_dumps [of "[]" "[]" v], of "[]"] by (simp add: ws_def)

lemma loads_dumps_indent: "wf_json v \<Longrightarrow> loads (dumps_indent v @ [CHR 0x0A]) = Inr v"
  using loads_spelled [OF spells_dumps_at, of v "[CHR 0x0A]"] by (simp add: dumps_indent_def ws_def json_ws_def)

end
