(* ===== verification/Factory_State.thy ===== *)
theory Factory_State
  imports Cache_Key Json_Parse
begin

section \<open>What the published repository was built from (\<open>factory_state.py\<close>)\<close>

text \<open>
  The state label of the published image: \<open>inputs\<close>, the digest each published build was
  made from, and \<open>failed\<close>, the packages whose latest attempt at a digest failed. The
  digests are computed with a hash function that is a parameter.
\<close>

subsection \<open>Digests\<close>

text \<open>A shared input file: its relative path and its bytes, None when it is absent.\<close>

definition shared_inputs :: "string list" where
  "shared_inputs = [''config/buildroot-image'', ''config/hummingbird.repo'']"

definition shared_stream :: "(string \<Rightarrow> string option) \<Rightarrow> string" where
  "shared_stream files = concat (map (\<lambda>relative.
     relative @ [nul] @ (case files relative of None \<Rightarrow> ''<absent>'' | Some bytes \<Rightarrow> bytes) @ [nul]) shared_inputs)"

definition shared_digest :: "(string \<Rightarrow> string) \<Rightarrow> (string \<Rightarrow> string option) \<Rightarrow> string" where
  "shared_digest sha256 files = sha256 (shared_stream files)"

definition entry_json :: "entry \<Rightarrow> json" where
  "entry_json e = JObj ((''name'', JStr (ename e)) # efields e)"

definition input_digest ::
    "(string \<Rightarrow> string) \<Rightarrow> (string \<Rightarrow> tree) \<Rightarrow> entry \<Rightarrow> string \<Rightarrow> string result" where
  "input_digest sha256 trees e shared =
     bind_r (recipe_digest sha256 (trees (ename e))) (\<lambda>recipe.
       Inr (take 16 (sha256 (recipe @ dumps_canonical (entry_json e) @ shared))))"

type_synonym digests = "(string, string) dict"

definition current_digests ::
    "(string \<Rightarrow> string) \<Rightarrow> (string \<Rightarrow> string option) \<Rightarrow> (string \<Rightarrow> tree) \<Rightarrow> (string, entry) dict \<Rightarrow> digests result" where
  "current_digests sha256 files trees locks =
     map_r (\<lambda>(name, e). bind_r (input_digest sha256 trees e (shared_digest sha256 files)) (\<lambda>d. Inr (name, d)))
       (sort_key fst locks)"

subsection \<open>The recorded state\<close>

record fstate =
  inputs :: "(string, json) dict"
  failed :: "(string, json) dict"

definition label_name :: string where
  "label_name = ''org.projectbluefin.factory.state''"

text \<open>\<open>dict(v)\<close> of what the label holds; a list of pairs would be accepted by Python too.\<close>

definition dict_of_json :: "json option \<Rightarrow> (string, json) dict result" where
  "dict_of_json v =
     (case v of None \<Rightarrow> Inr [] | Some (JObj kvs) \<Rightarrow> Inr kvs | Some (JList []) \<Rightarrow> Inr []
      | Some (JList _) \<Rightarrow> Inl Unmodelled | Some (JStr []) \<Rightarrow> Inr [] | Some (JStr _) \<Rightarrow> Inl (ValueError ''dict'')
      | Some _ \<Rightarrow> Inl TypeError)"

text \<open>The labels of an image are a parsed document, null where there is no image.\<close>

definition parse_labels :: "json \<Rightarrow> fstate option result" where
  "parse_labels labels =
     (if \<not> truthy labels then Inr None
      else case labels of
        JObj ls \<Rightarrow>
          (case map_of ls label_name of
             None \<Rightarrow> Inr None
           | Some raw \<Rightarrow>
               if \<not> truthy raw then Inr None
               else (case raw of
                   JStr text \<Rightarrow>
                     bind_r (loads text) (\<lambda>state. case state of
                       JObj kvs \<Rightarrow>
                         bind_r (dict_of_json (map_of kvs ''inputs'')) (\<lambda>i.
                         bind_r (dict_of_json (map_of kvs ''failed'')) (\<lambda>f.
                           Inr (Some \<lparr>inputs = i, failed = f\<rparr>)))
                     | _ \<Rightarrow> Inl AttributeError)
                 | _ \<Rightarrow> Inl TypeError))
      | _ \<Rightarrow> Inl AttributeError)"

text \<open>\<open>changed\<close>: what changed, and what is held back because it failed at this exact digest.\<close>

definition moved_names :: "fstate \<Rightarrow> digests \<Rightarrow> string list" where
  "moved_names s digests = map fst (filter (\<lambda>(n, d). map_of (inputs s) n \<noteq> Some (JStr d)) digests)"

definition state_changed :: "fstate \<Rightarrow> digests \<Rightarrow> bool \<Rightarrow> string list \<times> string list" where
  "state_changed s digests retry =
     (let mv = moved_names s digests;
          failing = filter (\<lambda>n. dict_has digests n) (map fst (failed s)) in
      if retry then (set_union mv failing, [])
      else let held = filter (\<lambda>n. map_of (failed s) n = map_option JStr (map_of digests n)) mv
           in (set_minus mv held, held))"

subsection \<open>The state a publish records\<close>

definition trust_one :: "digests \<Rightarrow> string \<Rightarrow> (string, json) dict \<Rightarrow> (string, json) dict" where
  "trust_one digests n i =
     (case map_of digests n of None \<Rightarrow> i | Some d \<Rightarrow> dict_setdefault n (JStr d) i)"

definition replace_one ::
    "digests \<Rightarrow> string \<Rightarrow> (string, json) dict \<times> (string, json) dict \<Rightarrow>
     ((string, json) dict \<times> (string, json) dict) result" where
  "replace_one digests n s =
     bind_r (dict_index digests n) (\<lambda>d. Inr (AList.update n (JStr d) (fst s), AList.delete n (snd s)))"

definition fail_one :: "digests \<Rightarrow> string \<Rightarrow> (string, json) dict \<Rightarrow> (string, json) dict" where
  "fail_one digests n f = (case map_of digests n of None \<Rightarrow> f | Some d \<Rightarrow> AList.update n (JStr d) f)"

definition known_sorted :: "digests \<Rightarrow> (string, json) dict \<Rightarrow> (string, json) dict" where
  "known_sorted digests d = filter (\<lambda>(k, v). dict_has digests k) (sort_key fst d)"

record outcome =
  o_trusted :: "string list"
  o_replaced :: "string list"
  o_failed :: "string list"
  o_pruned :: "string list"

definition merge_state :: "fstate option \<Rightarrow> digests \<Rightarrow> outcome \<Rightarrow> fstate result" where
  "merge_state seed digests out =
     (let i0 = (case seed of None \<Rightarrow> [] | Some s \<Rightarrow> inputs s);
          f0 = (case seed of None \<Rightarrow> [] | Some s \<Rightarrow> failed s);
          i1 = fold (trust_one digests) (o_trusted out) i0 in
      bind_r (fold_r (replace_one digests) (o_replaced out) (i1, f0)) (\<lambda>(i2, f1).
        let f2 = fold (fail_one digests) (o_failed out) f1;
            i3 = fold AList.delete (o_pruned out) i2;
            f3 = fold AList.delete (o_pruned out) f2
        in Inr \<lparr>inputs = known_sorted digests i3, failed = known_sorted digests f3\<rparr>))"

definition state_json :: "fstate \<Rightarrow> json" where
  "state_json s = JObj [(''inputs'', JObj (inputs s)), (''failed'', JObj (failed s))]"

text \<open>\<open>main\<close>: the label value of a publish, from the texts it is called with.\<close>

definition name_list :: "(string, json) dict \<Rightarrow> string \<Rightarrow> string list result" where
  "name_list d k = (case dict_get d k (JList []) of
      JList xs \<Rightarrow> map_r (\<lambda>v. case v of JStr n \<Rightarrow> Inr n | _ \<Rightarrow> Inl Unmodelled) xs
    | _ \<Rightarrow> Inl Unmodelled)"

definition object_of :: "json \<Rightarrow> (string, json) dict result" where
  "object_of v = (case v of JObj kvs \<Rightarrow> Inr kvs | _ \<Rightarrow> Inl AttributeError)"

definition merge_main :: "digests \<Rightarrow> string \<Rightarrow> string \<Rightarrow> string \<Rightarrow> string \<Rightarrow> string result" where
  "merge_main digests seed_labels plan_text report_text pruned_text =
     bind_r (bind_r (loads (if seed_labels = [] then ''null'' else seed_labels)) parse_labels) (\<lambda>seed.
     bind_r (loads plan_text) (\<lambda>plan.
     bind_r (loads report_text) (\<lambda>report.
     bind_r (bind_r (object_of plan) (\<lambda>d. name_list d ''trusted'')) (\<lambda>trusted.
     bind_r (object_of report) (\<lambda>r.
     bind_r (name_list r ''replaced'') (\<lambda>replaced.
     bind_r (name_list r ''bootstrapped'') (\<lambda>bootstrapped.
     bind_r (name_list r ''failed'') (\<lambda>failing.
     bind_r (loads pruned_text) (\<lambda>pruned_json.
     bind_r (name_list [(''pruned'', pruned_json)] ''pruned'') (\<lambda>pruned.
     bind_r (merge_state seed digests
         \<lparr>o_trusted = trusted, o_replaced = replaced @ bootstrapped, o_failed = failing, o_pruned = pruned\<rparr>) (\<lambda>s.
       Inr (dumps_canonical (state_json s)))))))))))))"

subsection \<open>What a publish records, name by name\<close>

lemma map_of_delete_fold:
  "map_of (fold AList.delete ps d) n = (if n \<in> set ps then None else map_of d n)"
  by (induction ps arbitrary: d) (auto simp: delete_conv')

lemma distinct_delete_fold: "distinct (map fst d) \<Longrightarrow> distinct (map fst (fold AList.delete ps d))"
  by (induction ps arbitrary: d) (auto intro: distinct_delete)

lemma distinct_setdefault: "distinct (map fst d) \<Longrightarrow> distinct (map fst (dict_setdefault k v d))"
  by (simp add: dict_setdefault_def)

lemma trust_fold:
  "map_of (fold (trust_one digests) ts i) n =
     (case map_of i n of Some v \<Rightarrow> Some v
      | None \<Rightarrow> if n \<in> set ts then map_option JStr (map_of digests n) else None)"
proof (induction ts arbitrary: i)
  case Nil
  then show ?case by (cases "map_of i n") auto
next
  case (Cons t ts)
  then show ?case
    by (cases "map_of digests t"; cases "map_of i n") (auto simp: trust_one_def map_of_setdefault)
qed

lemma trust_fold_distinct:
  "distinct (map fst i) \<Longrightarrow> distinct (map fst (fold (trust_one digests) ts i))"
  by (induction ts arbitrary: i) (auto simp: trust_one_def distinct_setdefault split: option.splits)

lemma replace_fold:
  "set rs \<subseteq> fst ` set digests \<Longrightarrow> distinct (map fst i) \<Longrightarrow> distinct (map fst f) \<Longrightarrow>
     \<exists>i' f'. fold_r (replace_one digests) rs (i, f) = Inr (i', f') \<and>
       distinct (map fst i') \<and> distinct (map fst f') \<and>
       (\<forall>n. map_of i' n = (if n \<in> set rs then map_option JStr (map_of digests n) else map_of i n)) \<and>
       (\<forall>n. map_of f' n = (if n \<in> set rs then None else map_of f n))"
proof (induction rs arbitrary: i f)
  case Nil
  then show ?case by simp
next
  case (Cons r rs)
  then obtain d where d: "map_of digests r = Some d"
    by (metis insert_subset list.simps(15) map_of_eq_None_iff not_Some_eq)
  have "distinct (map fst (AList.update r (JStr d) i))" "distinct (map fst (AList.delete r f))"
    using Cons.prems by (simp_all add: distinct_delete)
  from Cons.IH [OF _ this] Cons.prems(1) obtain i' f' where *:
    "fold_r (replace_one digests) rs (AList.update r (JStr d) i, AList.delete r f) = Inr (i', f')"
    "distinct (map fst i')" "distinct (map fst f')"
    "\<forall>n. map_of i' n = (if n \<in> set rs then map_option JStr (map_of digests n) else map_of (AList.update r (JStr d) i) n)"
    "\<forall>n. map_of f' n = (if n \<in> set rs then None else map_of (AList.delete r f) n)" by auto
  have "replace_one digests r (i, f) = Inr (AList.update r (JStr d) i, AList.delete r f)"
    using d by (simp add: replace_one_def dict_index_def)
  with * d show ?case by (intro exI [of _ i'] exI [of _ f']) (auto simp: delete_conv')
qed

lemma replace_fold_missing:
  "\<not> set rs \<subseteq> fst ` set digests \<Longrightarrow> fold_r (replace_one digests) rs s = Inl KeyError"
proof (induction rs arbitrary: s)
  case (Cons r rs)
  show ?case
  proof (cases "map_of digests r")
    case None
    then show ?thesis by (simp add: replace_one_def dict_index_def)
  next
    case (Some d)
    then have "r \<in> fst ` set digests" by (metis map_of_eq_None_iff option.distinct(1))
    with Cons Some show ?thesis by (simp add: replace_one_def dict_index_def)
  qed
qed simp

lemma fail_fold:
  "map_of (fold (fail_one digests) fs f) n =
     (case map_of digests n of None \<Rightarrow> map_of f n
      | Some d \<Rightarrow> if n \<in> set fs then Some (JStr d) else map_of f n)"
  by (induction fs arbitrary: f) (auto simp: fail_one_def split: option.splits)

lemma fail_fold_distinct:
  "distinct (map fst f) \<Longrightarrow> distinct (map fst (fold (fail_one digests) fs f))"
  by (induction fs arbitrary: f) (auto simp: fail_one_def split: option.splits)

lemma known_sorted_map:
  assumes "distinct (map fst d)"
  shows "map_of (known_sorted digests d) n = (if dict_has digests n then map_of d n else None)"
proof -
  have keys: "distinct (map fst (sort_key fst d))"
    using assms by (metis distinct_map distinct_sort set_sort)
  then have "map_of (sort_key fst d) = map_of d"
    using assms by (simp add: map_of_inject_set)
  then show ?thesis unfolding known_sorted_def by (simp add: map_of_filter_keys)
qed

lemma known_sorted_distinct: "distinct (map fst d) \<Longrightarrow> distinct (map fst (known_sorted digests d))"
proof -
  assume "distinct (map fst d)"
  then have "distinct (map fst (sort_key fst d))" by (metis distinct_map distinct_sort set_sort)
  then show "distinct (map fst (known_sorted digests d))"
    unfolding known_sorted_def by (rule distinct_keys_filter)
qed

definition wf_state :: "fstate \<Rightarrow> bool" where
  "wf_state s \<longleftrightarrow> distinct (map fst (inputs s)) \<and> distinct (map fst (failed s))"

definition seed_inputs :: "fstate option \<Rightarrow> string \<Rightarrow> json option" where
  "seed_inputs seed n = (case seed of None \<Rightarrow> None | Some s \<Rightarrow> map_of (inputs s) n)"

definition seed_failed :: "fstate option \<Rightarrow> string \<Rightarrow> json option" where
  "seed_failed seed n = (case seed of None \<Rightarrow> None | Some s \<Rightarrow> map_of (failed s) n)"

text \<open>The new entries of one package, as a function of what happened to it.\<close>

definition new_input :: "fstate option \<Rightarrow> digests \<Rightarrow> outcome \<Rightarrow> string \<Rightarrow> json option" where
  "new_input seed digests out n =
     (if n \<in> set (o_pruned out) \<or> \<not> dict_has digests n then None
      else if n \<in> set (o_replaced out) then map_option JStr (map_of digests n)
      else (case seed_inputs seed n of Some v \<Rightarrow> Some v
        | None \<Rightarrow> if n \<in> set (o_trusted out) then map_option JStr (map_of digests n) else None))"

definition new_failed :: "fstate option \<Rightarrow> digests \<Rightarrow> outcome \<Rightarrow> string \<Rightarrow> json option" where
  "new_failed seed digests out n =
     (if n \<in> set (o_pruned out) \<or> \<not> dict_has digests n then None
      else if n \<in> set (o_failed out) then map_option JStr (map_of digests n)
      else if n \<in> set (o_replaced out) then None
      else seed_failed seed n)"

lemma merge_lookup:
  assumes "set (o_replaced out) \<subseteq> fst ` set digests" and "\<And>s. seed = Some s \<Longrightarrow> wf_state s"
  shows "\<exists>s. merge_state seed digests out = Inr s \<and> wf_state s \<and>
    (\<forall>n. map_of (inputs s) n = new_input seed digests out n) \<and>
    (\<forall>n. map_of (failed s) n = new_failed seed digests out n)"
proof -
  define i0 where "i0 = (case seed of None \<Rightarrow> [] | Some s \<Rightarrow> inputs s)"
  define f0 where "f0 = (case seed of None \<Rightarrow> [] | Some s \<Rightarrow> failed s)"
  have d0: "distinct (map fst i0)" "distinct (map fst f0)"
    using assms(2) by (auto simp: i0_def f0_def wf_state_def split: option.splits)
  have s0: "map_of i0 n = seed_inputs seed n" "map_of f0 n = seed_failed seed n" for n
    by (simp_all add: i0_def f0_def seed_inputs_def seed_failed_def split: option.splits)
  let ?i1 = "fold (trust_one digests) (o_trusted out) i0"
  from replace_fold [OF assms(1) trust_fold_distinct [OF d0(1)] d0(2)]
  obtain i2 f1 where r: "fold_r (replace_one digests) (o_replaced out) (?i1, f0) = Inr (i2, f1)"
    "distinct (map fst i2)" "distinct (map fst f1)"
    "\<And>n. map_of i2 n = (if n \<in> set (o_replaced out) then map_option JStr (map_of digests n) else map_of ?i1 n)"
    "\<And>n. map_of f1 n = (if n \<in> set (o_replaced out) then None else map_of f0 n)" by blast
  let ?i3 = "fold AList.delete (o_pruned out) i2"
  let ?f3 = "fold AList.delete (o_pruned out) (fold (fail_one digests) (o_failed out) f1)"
  let ?s = "\<lparr>inputs = known_sorted digests ?i3, failed = known_sorted digests ?f3\<rparr>"
  have d3: "distinct (map fst ?i3)" "distinct (map fst ?f3)"
    using r(2,3) by (simp_all add: distinct_delete_fold fail_fold_distinct)
  have "merge_state seed digests out = Inr ?s"
    using r(1) by (simp add: merge_state_def Let_def i0_def f0_def)
  moreover have "wf_state ?s"
    using d3 by (simp add: wf_state_def known_sorted_distinct)
  moreover have "map_of (inputs ?s) n = new_input seed digests out n" for n
    by (simp add: known_sorted_map [OF d3(1)] map_of_delete_fold r(4) trust_fold s0 new_input_def)
  moreover have "map_of (failed ?s) n = new_failed seed digests out n" for n
    by (auto simp: known_sorted_map [OF d3(2)] map_of_delete_fold fail_fold r(5) s0 new_failed_def
        dict_has_def split: option.splits)
  ultimately show ?thesis by blast
qed

lemma moved_iff:
  assumes "distinct (map fst digests)"
  shows "n \<in> set (moved_names s digests) \<longleftrightarrow>
    (\<exists>d. map_of digests n = Some d \<and> map_of (inputs s) n \<noteq> Some (JStr d))"
proof -
  have "n \<in> set (moved_names s digests) \<longleftrightarrow> (\<exists>d. (n, d) \<in> set digests \<and> map_of (inputs s) n \<noteq> Some (JStr d))"
    by (force simp: moved_names_def)
  also have "\<dots> \<longleftrightarrow> (\<exists>d. map_of digests n = Some d \<and> map_of (inputs s) n \<noteq> Some (JStr d))"
    using assms by (simp only: map_of_eq_Some_iff)
  finally show ?thesis .
qed

lemma state_changed_sets:
  "set (fst (state_changed s digests False)) = {n \<in> set (moved_names s digests).
     map_of (failed s) n \<noteq> map_option JStr (map_of digests n)}"
  "set (snd (state_changed s digests False)) = {n \<in> set (moved_names s digests).
     map_of (failed s) n = map_option JStr (map_of digests n)}"
  "set (fst (state_changed s digests True)) = set (moved_names s digests) \<union>
     {n \<in> fst ` set (failed s). dict_has digests n}"
  by (auto simp: state_changed_def Let_def)

lemma state_changed_push:
  assumes "distinct (map fst digests)"
  shows "n \<in> set (fst (state_changed s digests False)) \<longleftrightarrow>
      (\<exists>d. map_of digests n = Some d \<and> map_of (inputs s) n \<noteq> Some (JStr d) \<and> map_of (failed s) n \<noteq> Some (JStr d))"
    and "n \<in> set (snd (state_changed s digests False)) \<longleftrightarrow>
      (\<exists>d. map_of digests n = Some d \<and> map_of (inputs s) n \<noteq> Some (JStr d) \<and> map_of (failed s) n = Some (JStr d))"
  unfolding state_changed_sets mem_Collect_eq moved_iff [OF assms]
  by (cases "map_of digests n"; simp)+

lemma state_changed_retry:
  assumes "distinct (map fst digests)"
  shows "n \<in> set (fst (state_changed s digests True)) \<longleftrightarrow> dict_has digests n \<and>
      (map_of (inputs s) n \<noteq> map_option JStr (map_of digests n) \<or> map_of (failed s) n \<noteq> None)"
proof -
  have "n \<in> fst ` set (failed s) \<longleftrightarrow> map_of (failed s) n \<noteq> None" by (simp add: map_of_eq_None_iff)
  then show ?thesis
    unfolding state_changed_sets mem_Collect_eq Un_iff moved_iff [OF assms] dict_has_def
    by (cases "map_of digests n") simp_all
qed

subsection \<open>Properties\<close>

text \<open>
  what a publish records: for every package of the inventory that is not pruned, its new
  digest when the run replaced it, otherwise the entry of the seed, otherwise its digest when
  prepare trusted it; and it is recorded as failed at its digest when the run failed on it,
  cleared when the run replaced it, and kept as it was otherwise. Nothing else is recorded.
\<close>

theorem merge_records_outcome:
  assumes "set (o_replaced out) \<subseteq> fst ` set digests" and "\<And>s. seed = Some s \<Longrightarrow> wf_state s"
  shows "\<exists>s. merge_state seed digests out = Inr s \<and> wf_state s \<and>
    (\<forall>n. map_of (inputs s) n = new_input seed digests out n) \<and>
    (\<forall>n. map_of (failed s) n = new_failed seed digests out n)"
  by (rule merge_lookup [OF assms])

definition example_state :: fstate where
  "example_state = \<lparr>inputs = [(''a'', JStr ''1''), (''b'', JStr ''1'')], failed = [(''c'', JStr ''1'')]\<rparr>"

definition example_digests :: digests where
  "example_digests = [(''a'', ''1''), (''b'', ''2''), (''c'', ''1''), (''d'', ''1'')]"

definition example_outcome :: outcome where
  "example_outcome = \<lparr>o_trusted = [''a''], o_replaced = [''b''], o_failed = [''d''], o_pruned = []\<rparr>"

lemma example_wf: "wf_state example_state"
  by (simp add: wf_state_def example_state_def)

lemma merge_records_outcome_witness:
  "\<exists>s. merge_state (Some example_state) example_digests example_outcome = Inr s \<and>
     map_of (inputs s) ''b'' = Some (JStr ''2'') \<and> map_of (failed s) ''c'' = Some (JStr ''1'')"
proof -
  have "set (o_replaced example_outcome) \<subseteq> fst ` set example_digests"
    by (simp add: example_outcome_def example_digests_def)
  from merge_records_outcome [OF this, of "Some example_state"] example_wf
  obtain s where "merge_state (Some example_state) example_digests example_outcome = Inr s"
    "\<forall>n. map_of (inputs s) n = new_input (Some example_state) example_digests example_outcome n"
    "\<forall>n. map_of (failed s) n = new_failed (Some example_state) example_digests example_outcome n" by auto
  then show ?thesis
    by (auto simp: new_input_def new_failed_def seed_failed_def dict_has_def example_state_def
        example_digests_def example_outcome_def)
qed

text \<open>The label is read back by the next run.\<close>

definition string_values :: "(string, json) dict \<Rightarrow> bool" where
  "string_values d = (\<forall>v \<in> snd ` set d. \<exists>s. v = JStr s)"

definition digest_state :: "fstate \<Rightarrow> bool" where
  "digest_state s \<longleftrightarrow> wf_state s \<and> string_values (inputs s) \<and> string_values (failed s)"

lemma string_values_map_of:
  "distinct (map fst d) \<Longrightarrow> string_values d \<longleftrightarrow> (\<forall>n v. map_of d n = Some v \<longrightarrow> (\<exists>s. v = JStr s))"
  unfolding string_values_def by (metis (no_types, lifting) imageE image_eqI map_of_SomeD map_of_is_SomeI prod.collapse snd_conv)

lemma canonical_strings: "string_values d \<Longrightarrow> map (\<lambda>(k, v). (k, canonical v)) d = d"
  by (induction d) (auto simp: string_values_def)

lemma known_sorted_sorted: "sorted (map fst (known_sorted digests d))"
  unfolding known_sorted_def by (rule sorted_filter) simp

lemma new_input_string:
  "(\<And>s. seed = Some s \<Longrightarrow> digest_state s) \<Longrightarrow> new_input seed digests out n = Some v \<Longrightarrow> \<exists>s. v = JStr s"
  "(\<And>s. seed = Some s \<Longrightarrow> digest_state s) \<Longrightarrow> new_failed seed digests out n = Some v \<Longrightarrow> \<exists>s. v = JStr s"
  by (auto simp: new_input_def new_failed_def seed_inputs_def seed_failed_def digest_state_def wf_state_def
      string_values_map_of split: if_splits option.splits)

lemma merge_digest_state:
  assumes "merge_state seed digests out = Inr s" and "\<And>s. seed = Some s \<Longrightarrow> digest_state s"
  shows "digest_state s \<and> sorted (map fst (inputs s)) \<and> sorted (map fst (failed s))"
proof -
  have "set (o_replaced out) \<subseteq> fst ` set digests"
  proof (rule ccontr)
    assume "\<not> set (o_replaced out) \<subseteq> fst ` set digests"
    from replace_fold_missing [OF this] assms(1) show False by (simp add: merge_state_def Let_def)
  qed
  with merge_lookup [of out digests seed] assms have s: "wf_state s"
    "\<forall>n. map_of (inputs s) n = new_input seed digests out n"
    "\<forall>n. map_of (failed s) n = new_failed seed digests out n" by (auto simp: digest_state_def)
  with new_input_string [OF assms(2)] have "digest_state s"
    by (simp add: digest_state_def wf_state_def string_values_map_of)
  moreover from assms(1) have "sorted (map fst (inputs s))" "sorted (map fst (failed s))"
    by (auto simp: merge_state_def Let_def bind_r_Inr known_sorted_sorted)
  ultimately show ?thesis by simp
qed

lemma wf_json_strings: "distinct (map fst d) \<Longrightarrow> string_values d \<Longrightarrow> wf_json (JObj d)"
  by (fastforce simp: string_values_def list_all_iff)

lemma loads_state:
  assumes "digest_state s" "sorted (map fst (inputs s))" "sorted (map fst (failed s))"
  shows "loads (dumps_canonical (state_json s)) = Inr (JObj [(''failed'', JObj (failed s)), (''inputs'', JObj (inputs s))])"
proof -
  have "canonical (state_json s) = JObj [(''failed'', JObj (failed s)), (''inputs'', JObj (inputs s))]"
    using assms by (simp add: state_json_def digest_state_def canonical_strings sort_key_id_if_sorted)
  moreover have "wf_json (JObj [(''failed'', JObj (failed s)), (''inputs'', JObj (inputs s))])"
    using assms(1) wf_json_strings by (simp add: digest_state_def wf_state_def)
  ultimately show ?thesis unfolding dumps_canonical_def by (simp only: loads_dumps_compact)
qed

text \<open>
  the label of a published image carries the whole state: what a publish prints as the
  label is read back from the labels of the image as exactly the merged state, provided the
  state it started from held digests.
\<close>

theorem label_carries_state:
  assumes "merge_state seed digests out = Inr s" and "\<And>s. seed = Some s \<Longrightarrow> digest_state s"
  shows "parse_labels (JObj [(label_name, JStr (dumps_canonical (state_json s)))]) = Inr (Some s)"
proof -
  have "dumps_canonical (state_json s) \<noteq> []"
    using dumps_tag [of "'',''" "'':''" "canonical (state_json s)"] by (auto simp: dumps_canonical_def)
  with loads_state [of s] merge_digest_state [OF assms] show ?thesis
    by (simp add: parse_labels_def dict_of_json_def)
qed

lemma label_carries_state_witness:
  "\<exists>s. merge_state (Some example_state) example_digests example_outcome = Inr s \<and>
     parse_labels (JObj [(label_name, JStr (dumps_canonical (state_json s)))]) = Inr (Some s)"
proof -
  have "digest_state example_state"
    by (simp add: digest_state_def wf_state_def string_values_def example_state_def)
  moreover obtain s where s: "merge_state (Some example_state) example_digests example_outcome = Inr s"
    using merge_lookup [of example_outcome example_digests "Some example_state"] example_wf
    by (auto simp: example_outcome_def example_digests_def)
  ultimately show ?thesis using label_carries_state [OF s] by auto
qed

text \<open>
  what a push selects: exactly the packages whose digest is neither the one of their
  published build nor the one their last attempt failed at; those with the latter are held, and
  the scheduled run takes up everything that moved or failed.
\<close>

theorem changed_exact:
  assumes "distinct (map fst digests)"
  shows "(n \<in> set (fst (state_changed s digests False)) \<longleftrightarrow>
      (\<exists>d. map_of digests n = Some d \<and> map_of (inputs s) n \<noteq> Some (JStr d) \<and> map_of (failed s) n \<noteq> Some (JStr d))) \<and>
    (n \<in> set (snd (state_changed s digests False)) \<longleftrightarrow>
      (\<exists>d. map_of digests n = Some d \<and> map_of (inputs s) n \<noteq> Some (JStr d) \<and> map_of (failed s) n = Some (JStr d))) \<and>
    (n \<in> set (fst (state_changed s digests True)) \<longleftrightarrow>
      dict_has digests n \<and> (map_of (inputs s) n \<noteq> map_option JStr (map_of digests n) \<or> map_of (failed s) n \<noteq> None))"
  using state_changed_push [OF assms] state_changed_retry [OF assms] by blast

lemma changed_exact_witness:
  "''b'' \<in> set (fst (state_changed example_state example_digests False)) \<and>
   ''c'' \<in> set (snd (state_changed example_state example_digests False))"
proof -
  have d: "distinct (map fst example_digests)" by (simp add: example_digests_def)
  from changed_exact [OF d, of "''b''" example_state] changed_exact [OF d, of "''c''" example_state]
  show ?thesis by (simp add: example_digests_def example_state_def)
qed



end
