(* ===== verification/Publish_Gate.thy ===== *)
theory Publish_Gate
  imports Rebuild_Plan Json_Parse
begin

section \<open>The incremental publish (\<open>publish_gate.py\<close>)\<close>

text \<open>
  The decision over the job outcomes, the decision over the files, its application to the
  repository, the failures read off the artifact list, and the report with the marker a later
  run reads back. An RPM is its path below the seed or the build directory, and its source name is
  what \<open>rpm -qp\<close> printed; file contents are arbitrary values. The check that the
  workflow files encode the same rule is in \<open>Gate_Workflow\<close>.
\<close>

subsection \<open>May the tag move?\<close>

record run_outcome =
  r_stages :: "string list"
  r_precedence :: string
  r_resolved :: bool
  r_fork_pr :: bool
  r_replaced :: int
  r_pruned :: int

definition publish_allowed :: "run_outcome \<Rightarrow> bool" where
  "publish_allowed r =
     (if r_fork_pr r then False
      else if r_precedence r \<noteq> ''success'' then False
      else if \<not> r_resolved r then False
      else 0 < r_replaced r + r_pruned r)"

subsection \<open>Which files the run changes\<close>

type_synonym rpms = "(string, string) dict"

record assembly =
  a_replaced :: "string list"
  a_failed :: "string list"
  a_kept :: "string list"
  a_absent :: "string list"
  a_losers :: "string list"
  a_remove :: "string list"
  a_add :: "string list"

definition accepted_sources :: "rpms \<Rightarrow> string list \<Rightarrow> string list" where
  "accepted_sources built losers = set_minus (remdups (map snd built)) losers"

definition assemble :: "rpms \<Rightarrow> rpms \<Rightarrow> string list \<Rightarrow> string list \<Rightarrow> assembly" where
  "assemble seed built build_list losers =
     (let accepted = accepted_sources built losers;
          failed = sorted_set (set_minus build_list accepted);
          seeded = map snd seed
      in \<lparr>a_replaced = sorted_set accepted,
          a_failed = failed,
          a_kept = filter (\<lambda>n. n \<in> set seeded) failed,
          a_absent = filter (\<lambda>n. n \<notin> set seeded) failed,
          a_losers = sorted_set (set_inter losers build_list),
          a_remove = sort (map fst (filter (\<lambda>(p, s). s \<in> set accepted) seed)),
          a_add = sort (map fst (filter (\<lambda>(p, s). s \<in> set accepted) built))\<rparr>)"

definition base_name :: "string \<Rightarrow> string" where
  "base_name path = (if CHR ''/'' \<in> set path then snd (rpartition CHR ''/'' path) else path)"

definition is_bootstrap_rpm :: "string \<Rightarrow> bool" where
  "is_bootstrap_rpm path = contains ''-0.bootstrap.'' (base_name path)"

definition publishable :: "rpms \<Rightarrow> rpms" where
  "publishable built = filter (\<lambda>(p, s). \<not> is_bootstrap_rpm p) built"

text \<open>
  \<open>apply\<close>: unlink what is removed, then copy what is added to the same relative path; a
  file that is not there raises.
\<close>

definition unlink :: "string \<Rightarrow> (string, 'f) dict \<Rightarrow> (string, 'f) dict result" where
  "unlink path repo = (if dict_has repo path then Inr (AList.delete path repo) else Inl KeyError)"

definition copy_in :: "(string, 'f) dict \<Rightarrow> string \<Rightarrow> (string, 'f) dict \<Rightarrow> (string, 'f) dict result" where
  "copy_in built path repo = bind_r (dict_index built path) (\<lambda>f. Inr (AList.update path f repo))"

definition apply_assembly ::
    "assembly \<Rightarrow> (string, 'f) dict \<Rightarrow> (string, 'f) dict \<Rightarrow> (string, 'f) dict result" where
  "apply_assembly a repo built =
     bind_r (fold_r unlink (a_remove a) repo) (fold_r (copy_in built) (a_add a))"

subsection \<open>The assemble command\<close>

definition bootstrapped :: "string list \<Rightarrow> rpms \<Rightarrow> string list" where
  "bootstrapped build_list everything =
     sort (filter (\<lambda>n. ends_with ''-bootstrap'' n \<and> list_ex (\<lambda>(p, s). is_bootstrap_rpm p) everything) build_list)"

definition assembly_report :: "assembly \<Rightarrow> (string, string list) dict" where
  "assembly_report a =
     [(''replaced'', a_replaced a), (''failed'', a_failed a), (''kept_previous'', a_kept a),
      (''absent'', a_absent a), (''precedence_losers'', a_losers a)]"

definition cli_assemble ::
    "rpms \<Rightarrow> rpms \<Rightarrow> string list \<Rightarrow> string list \<Rightarrow> assembly \<times> (string, string list) dict" where
  "cli_assemble seed everything build_list losers =
     (let boot = bootstrapped build_list everything;
          a = assemble seed (publishable everything) (filter (\<lambda>n. n \<notin> set boot) build_list) losers
      in (a, assembly_report a @ [(''bootstrapped'', boot)]))"

subsection \<open>Failures from the artifact list\<close>

text \<open>\<open>^rpm-s\d+-(?P<package>.+)$\<close>; the name holds no line feed except one at the very end.\<close>

definition rpm_artifact :: "string \<Rightarrow> string option" where
  "rpm_artifact name =
     (let s = drop 5 name; d = takeWhile is_digit s; r = dropWhile is_digit s;
          p = (if ends_with [CHR 0x0A] r then butlast (tl r) else tl r) in
      if starts_with ''rpm-s'' name \<and> d \<noteq> [] \<and> starts_with ''-'' r \<and> p \<noteq> [] \<and> CHR 0x0A \<notin> set p
      then Some p else None)"

definition failures_from_artifacts :: "string list \<Rightarrow> string list \<Rightarrow> string \<Rightarrow> string list \<Rightarrow> string list" where
  "failures_from_artifacts build_list names prefix losers =
     (let built = List.map_filter (\<lambda>n. if starts_with prefix n then rpm_artifact (drop (length prefix) n) else None) names
      in sorted_set (set_union (set_minus build_list built) (set_inter losers build_list)))"

subsection \<open>The report\<close>

definition line :: "string list \<Rightarrow> string" where
  "line parts = concat parts"

definition code_name :: "string \<Rightarrow> string" where
  "code_name n = ''`'' @ n @ ''`''"

definition nl :: string where
  "nl = [CHR 0x0A]"

definition summary_state :: "assembly \<Rightarrow> string \<Rightarrow> string" where
  "summary_state a n =
     (if n \<in> set (a_losers a) then ''previous build (this build lost precedence)''
      else if n \<in> set (a_kept a) then ''previous build'' else ''nothing: never published'')"

definition summary :: "assembly \<Rightarrow> string" where
  "summary a =
     join nl (
       [''### Incremental publish'', [],
        ''Replaced '' @ show_nat (length (a_replaced a)) @ '' source package(s)'' @
          (if a_replaced a \<noteq> [] \<and> length (a_replaced a) \<le> 40
           then '': '' @ join '', '' (map code_name (a_replaced a)) else ''.'')] @
       (if a_failed a = [] then [] else
          [[], ''**'' @ show_nat (length (a_failed a)) @ '' package(s) failed and were not replaced:**'', [],
           ''| package | what consumers get |'', ''| --- | --- |''] @
          map (\<lambda>n. ''| '' @ code_name n @ '' | '' @ summary_state a n @ '' |'') (a_failed a)))
     @ nl"

text \<open>The publish report as the job receives it; None when the publish job wrote none.\<close>

definition report_list :: "(string, string list) dict option \<Rightarrow> string \<Rightarrow> string list" where
  "report_list rep key = dict_get (case rep of None \<Rightarrow> [] | Some r \<Rightarrow> r) key []"

definition render_state :: "(string, string list) dict option \<Rightarrow> string \<Rightarrow> string" where
  "render_state rep n =
     (if n \<in> set (report_list rep ''precedence_losers'') then ''previous build (this build lost precedence)''
      else if n \<in> set (report_list rep ''kept_previous'') then ''previous build''
      else if n \<in> set (report_list rep ''absent'') then ''nothing: never published''
      else ''previous build, if one was published'')"

definition publish_line :: "string \<Rightarrow> (string, string list) dict option \<Rightarrow> string \<Rightarrow> string" where
  "publish_line publish_result rep digest =
     (if digest \<noteq> [] then ''Published '' @ code_name digest @ '', replacing '' @
          show_nat (length (report_list rep ''replaced'')) @ '' source package(s).''
      else if publish_result = ''success'' then ''Nothing new to publish; the published image is unchanged.''
      else if publish_result = ''failure'' then
        ''**Not published.** The candidate failed a publish gate -- most likely '' @
        ''the Hummingbird-only consumer transaction -- so the published image '' @
        ''is unchanged and every package below, and every package that did '' @
        ''build, waits for the next run.''
      else ''**Not published** (publish job: '' @
        (if publish_result = [] then ''did not run'' else publish_result) @ '').'')"

definition marker_line :: "string list \<Rightarrow> string" where
  "marker_line failed = ''<!-- failed: '' @ json_names failed @ '' -->''"

definition report_body :: "string list \<Rightarrow> string \<Rightarrow> (string, string list) dict option \<Rightarrow> string \<Rightarrow> string \<Rightarrow> string list" where
  "report_body failed publish_result rep digest run_url =
     [''### Factory run report'', [], ''Run: '' @ run_url, [], publish_line publish_result rep digest, []] @
     (if failed = [] then [''Every selected package built.'']
      else [''**'' @ show_nat (length failed) @ '' package(s) failed this run:**'', [],
            ''| package | what consumers get |'', ''| --- | --- |''] @
           map (\<lambda>n. ''| '' @ code_name n @ '' | '' @ render_state rep n @ '' |'') failed)"

definition render_report :: "string list \<Rightarrow> string \<Rightarrow> (string, string list) dict option \<Rightarrow> string \<Rightarrow> string \<Rightarrow> string" where
  "render_report failed publish_result rep digest run_url =
     join nl (report_body failed publish_result rep digest run_url @ [[], marker_line failed]) @ nl"

text \<open>\<open>re.search(r"<!-- failed: (\[.*?\]) -->", body)\<close>: the first place, the shortest list text.\<close>

fun lazy_list :: "string \<Rightarrow> string \<Rightarrow> string option" where
  "lazy_list acc s =
     (if starts_with ''] -->'' s then Some (''['' @ rev acc @ '']'')
      else (case s of [] \<Rightarrow> None | c # cs \<Rightarrow> if c = CHR 0x0A then None else lazy_list (c # acc) cs))"

declare lazy_list.simps [simp del]

fun marker_text :: "string \<Rightarrow> string option" where
  "marker_text s =
     (case (if starts_with ''<!-- failed: ['' s then lazy_list [] (drop 14 s) else None) of
        Some t \<Rightarrow> Some t
      | None \<Rightarrow> (case s of [] \<Rightarrow> None | _ # cs \<Rightarrow> marker_text cs))"

declare marker_text.simps [simp del]

definition failed_marker :: "string option \<Rightarrow> json option result" where
  "failed_marker body =
     (case marker_text (case body of None \<Rightarrow> [] | Some b \<Rightarrow> b) of
        None \<Rightarrow> Inr None | Some t \<Rightarrow> bind_r (loads t) (\<lambda>v. Inr (Some v)))"

text \<open>\<open>int(wave)\<close> of a decimal wave; the workflow passes nothing else.\<close>

definition artifact_pattern :: "string \<Rightarrow> string \<Rightarrow> string result" where
  "artifact_pattern wave prefix =
     (if wave = [] then Inr (prefix @ ''rpm-*'')
      else if \<not> list_all is_digit wave then Inl (ValueError ''invalid literal for int'')
      else let last_wave = read_nat wave in
        if last_wave = 0 then Inr (prefix @ ''rpm-s0-*'')
        else Inr (prefix @ ''rpm-s{'' @ join '','' (map show_nat [0..<Suc last_wave]) @ ''}-*''))"

subsection \<open>What the candidate repository holds\<close>

lemma unlink_fold:
  "distinct ps \<Longrightarrow> set ps \<subseteq> fst ` set repo \<Longrightarrow>
     \<exists>repo'. fold_r unlink ps repo = Inr repo' \<and>
       (\<forall>p. map_of repo' p = (if p \<in> set ps then None else map_of repo p))"
proof (induction ps arbitrary: repo)
  case Nil
  then show ?case by simp
next
  case (Cons q ps)
  have "set (map fst (AList.delete q repo)) = set (map fst repo) - {q}"
    by (auto simp: delete_keys)
  then have keys: "set ps \<subseteq> fst ` set (AList.delete q repo)"
    using Cons.prems by auto
  have "distinct ps" using Cons.prems by simp
  from Cons.IH [OF this keys] obtain repo' where "fold_r unlink ps (AList.delete q repo) = Inr repo'"
    "\<forall>p. map_of repo' p = (if p \<in> set ps then None else map_of (AList.delete q repo) p)" by blast
  moreover have "unlink q repo = Inr (AList.delete q repo)"
    using Cons.prems by (auto simp: unlink_def dict_has_iff)
  ultimately show ?case by (intro exI [of _ repo']) (auto simp: delete_conv')
qed

lemma copy_fold:
  "set ps \<subseteq> fst ` set built \<Longrightarrow>
     \<exists>repo'. fold_r (copy_in built) ps repo = Inr repo' \<and>
       (\<forall>p. map_of repo' p = (if p \<in> set ps then map_of built p else map_of repo p))"
proof (induction ps arbitrary: repo)
  case Nil
  then show ?case by simp
next
  case (Cons q ps)
  then obtain f where f: "map_of built q = Some f"
    by (metis insert_subset list.simps(15) map_of_eq_None_iff not_Some_eq)
  from Cons.prems have "set ps \<subseteq> fst ` set built" by simp
  from Cons.IH [OF this, of "AList.update q f repo"] obtain repo' where
    "fold_r (copy_in built) ps (AList.update q f repo) = Inr repo'"
    "\<forall>p. map_of repo' p = (if p \<in> set ps then map_of built p else map_of (AList.update q f repo) p)" by blast
  moreover have "copy_in built q repo = Inr (AList.update q f repo)"
    using f by (simp add: copy_in_def dict_index_def)
  ultimately show ?case using f by (intro exI [of _ repo']) auto
qed

lemma set_accepted: "set (accepted_sources built losers) = snd ` set built - set losers"
  by (simp add: accepted_sources_def)

lemma mem_sources:
  "distinct (map fst d) \<Longrightarrow> p \<in> set (map fst (filter (\<lambda>(p, s). s \<in> A) d)) \<longleftrightarrow> (\<exists>s. map_of d p = Some s \<and> s \<in> A)"
  by (auto simp: image_iff)

lemma candidate:
  assumes d: "distinct (map fst seed)" "distinct (map fst built)"
    and keys: "fst ` set seed \<subseteq> fst ` set repo" "fst ` set built \<subseteq> fst ` set files"
  shows "\<exists>repo'. apply_assembly (assemble seed built build_list losers) repo files = Inr repo' \<and>
    (\<forall>p. map_of repo' p =
      (if \<exists>s. map_of built p = Some s \<and> s \<in> set (accepted_sources built losers) then map_of files p
       else if \<exists>s. map_of seed p = Some s \<and> s \<in> set (accepted_sources built losers) then None
       else map_of repo p))"
proof -
  let ?A = "set (accepted_sources built losers)"
  let ?a = "assemble seed built build_list losers"
  have rem: "a_remove ?a = sort (map fst (filter (\<lambda>(p, s). s \<in> ?A) seed))"
    and add: "a_add ?a = sort (map fst (filter (\<lambda>(p, s). s \<in> ?A) built))"
    by (simp_all add: assemble_def Let_def)
  have "distinct (a_remove ?a)" unfolding rem distinct_sort using d(1) by (rule distinct_keys_filter)
  moreover have "set (a_remove ?a) \<subseteq> fst ` set repo" unfolding rem using keys(1) by auto
  ultimately obtain repo1 where r1: "fold_r unlink (a_remove ?a) repo = Inr repo1"
    "\<And>p. map_of repo1 p = (if p \<in> set (a_remove ?a) then None else map_of repo p)"
    using unlink_fold by blast
  have "set (a_add ?a) \<subseteq> fst ` set files" unfolding add using keys(2) by auto
  from copy_fold [OF this, of repo1] obtain repo2 where
    r2: "fold_r (copy_in files) (a_add ?a) repo1 = Inr repo2"
    "\<And>p. map_of repo2 p = (if p \<in> set (a_add ?a) then map_of files p else map_of repo1 p)" by blast
  have "apply_assembly ?a repo files = Inr repo2"
    using r1(1) r2(1) by (simp add: apply_assembly_def)
  moreover have add_iff: "p \<in> set (a_add ?a) \<longleftrightarrow> (\<exists>s. map_of built p = Some s \<and> s \<in> ?A)" for p
    unfolding add set_sort by (rule mem_sources [OF d(2)])
  moreover have rem_iff: "p \<in> set (a_remove ?a) \<longleftrightarrow> (\<exists>s. map_of seed p = Some s \<and> s \<in> ?A)" for p
    unfolding rem set_sort by (rule mem_sources [OF d(1)])
  ultimately show ?thesis
    by (intro exI [of _ repo2] conjI allI) (simp_all only: r2(2) r1(2) add_iff rem_iff)
qed

subsection \<open>The marker\<close>

lemma lazy_list_plain:
  "CHR '']'' \<notin> set x \<Longrightarrow> CHR 0x0A \<notin> set x \<Longrightarrow>
     lazy_list acc (x @ ''] -->'' @ r) = Some (''['' @ rev acc @ x @ '']'')"
proof (induction x arbitrary: acc)
  case Nil
  then show ?case by (simp add: lazy_list.simps)
next
  case (Cons c x)
  have "lazy_list (c # acc) (x @ ''] -->'' @ r) = Some (''['' @ rev (c # acc) @ x @ '']'')"
    using Cons by simp
  with Cons.prems show ?case by (subst lazy_list.simps) auto
qed

lemma marker_text_skip:
  "CHR ''<'' \<notin> set pre \<Longrightarrow> marker_text (pre @ s) = marker_text s"
proof (induction pre)
  case (Cons c pre)
  then have "\<not> starts_with ''<!-- failed: ['' ((c # pre) @ s)" by auto
  with Cons show ?case by (subst marker_text.simps) auto
qed simp

definition plain_name :: "string \<Rightarrow> bool" where
  "plain_name n \<longleftrightarrow> list_all (\<lambda>c. c \<notin> set ''<]'' \<and> 32 \<le> (of_char c :: nat) \<and> (of_char c :: nat) \<le> 126 \<and>
     c \<noteq> CHR 0x22 \<and> c \<noteq> CHR 0x5C) n"

lemma quote_plain:
  assumes "plain_name n"
  shows "quote_str n = CHR 0x22 # n @ [CHR 0x22]"
proof -
  have "concat (map esc n) = n"
    using assms
  proof (induction n)
    case (Cons c n)
    have "of_char c \<noteq> (34::nat)" "of_char c \<noteq> (92::nat)"
      using Cons.prems of_char_eq_iff [where 'a = nat, of c "CHR 0x22"]
        of_char_eq_iff [where 'a = nat, of c "CHR 0x5C"] by (simp_all add: plain_name_def)
    with Cons esc_plain [of c] show ?case by (simp add: plain_name_def)
  qed simp
  then show ?thesis by (simp add: quote_str_def)
qed

lemma json_names_text: "\<exists>x. json_names ns = ''['' @ x @ '']''"
  by (simp add: json_names_def dumps_default_def)

lemma json_names_plain:
  assumes "list_all plain_name ns" and "json_names ns = ''['' @ x @ '']''"
  shows "CHR '']'' \<notin> set x" "CHR 0x0A \<notin> set x"
proof -
  have x: "x = join '', '' (map quote_str ns)"
    using assms(2) by (simp add: json_names_def dumps_default_def comp_def)
  have "set (join sep qs) \<subseteq> set sep \<union> \<Union> (set ` set qs)" for sep qs
    by (induction sep qs rule: join.induct) auto
  from this [of "'', ''" "map quote_str ns"]
  have sub: "set x \<subseteq> set '', '' \<union> \<Union> (set ` quote_str ` set ns)" unfolding x by simp
  have quoted: "c \<noteq> CHR '']'' \<and> c \<noteq> CHR 0x0A" if "n \<in> set ns" "c \<in> set (quote_str n)" for n c
  proof -
    have p: "plain_name n" using assms(1) that(1) by (simp add: list_all_iff)
    from that(2) quote_plain [OF p] have "c = CHR 0x22 \<or> c \<in> set n" by auto
    then show ?thesis
    proof
      assume "c \<in> set n"
      with p have "c \<notin> set ''<]''" "32 \<le> (of_char c :: nat)" by (auto simp: plain_name_def list_all_iff)
      then show ?thesis by auto
    qed simp
  qed
  have "CHR '']'' \<notin> set '', ''" "CHR 0x0A \<notin> set '', ''" by simp_all
  with sub quoted show "CHR '']'' \<notin> set x" "CHR 0x0A \<notin> set x" by blast+
qed

lemma no_angle_join: "CHR ''<'' \<notin> set sep \<Longrightarrow> (\<And>s. s \<in> set ss \<Longrightarrow> CHR ''<'' \<notin> set s) \<Longrightarrow> CHR ''<'' \<notin> set (join sep ss)"
  by (induction sep ss rule: join.induct) auto

lemma no_angle_nat: "CHR ''<'' \<notin> set (show_nat n)"
  using show_nat_digits [of "CHR ''<''" n] by (auto simp: is_digit_def)

lemma report_body_plain:
  assumes "list_all plain_name failed" "CHR ''<'' \<notin> set (publish_result @ digest @ run_url)"
    and "s \<in> set (report_body failed publish_result rep digest run_url)"
  shows "CHR ''<'' \<notin> set s"
proof -
  have "CHR ''<'' \<notin> set n" if "n \<in> set failed" for n
    using assms(1) that by (auto simp: plain_name_def list_all_iff)
  then show ?thesis
    using assms(2,3) no_angle_nat
    by (auto simp: report_body_def publish_line_def code_name_def render_state_def split: if_splits)
qed

lemma join_two: "xs \<noteq> [] \<Longrightarrow> join sep (xs @ [a, b]) = join sep xs @ sep @ a @ sep @ b"
  by (induction sep xs rule: join.induct) auto

lemma marker_of_report:
  assumes "list_all plain_name failed" "CHR ''<'' \<notin> set (publish_result @ digest @ run_url)"
  shows "marker_text (render_report failed publish_result rep digest run_url) = Some (json_names failed)"
proof -
  let ?b = "report_body failed publish_result rep digest run_url"
  obtain x where x: "json_names failed = ''['' @ x @ '']''" using json_names_text by blast
  note pl = json_names_plain [OF assms(1) x]
  have "?b \<noteq> []" by (simp add: report_body_def)
  then have body: "render_report failed publish_result rep digest run_url =
      (join nl ?b @ nl @ nl) @ marker_line failed @ nl"
    by (simp add: render_report_def join_two)
  have "CHR ''<'' \<notin> set (join nl ?b)"
    by (rule no_angle_join) (use report_body_plain [OF assms] in \<open>auto simp: nl_def\<close>)
  then have "CHR ''<'' \<notin> set (join nl ?b @ nl @ nl)" by (simp add: nl_def)
  from marker_text_skip [OF this] have "marker_text (render_report failed publish_result rep digest run_url) =
      marker_text (marker_line failed @ nl)" by (simp only: body)
  also have "\<dots> = Some (json_names failed)"
    using lazy_list_plain [OF pl, of "[]" nl] by (subst marker_text.simps) (simp add: marker_line_def x)
  finally show ?thesis .
qed

subsection \<open>Artifacts\<close>

definition artifact_name :: "string \<Rightarrow> nat \<Rightarrow> string \<Rightarrow> string" where
  "artifact_name prefix stage n = prefix @ ''rpm-s'' @ show_nat stage @ ''-'' @ n"

lemma rpm_artifact_name:
  assumes "n \<noteq> []" "CHR 0x0A \<notin> set n"
  shows "rpm_artifact (''rpm-s'' @ show_nat stage @ ''-'' @ n) = Some n"
proof -
  have dash: "\<not> is_digit CHR ''-''" by (simp add: is_digit_def)
  have tk: "takeWhile is_digit (show_nat stage @ ''-'' @ n) = show_nat stage"
    "dropWhile is_digit (show_nat stage @ ''-'' @ n) = ''-'' @ n"
    using show_nat_digits dash by (simp_all add: takeWhile_append dropWhile_append)
  have "\<not> ends_with [CHR 0x0A] (''-'' @ n)"
  proof
    assume "ends_with [CHR 0x0A] (''-'' @ n)"
    then obtain r where "''-'' @ n = r @ [CHR 0x0A]" by (auto simp only: ends_with_iff)
    then have "CHR 0x0A \<in> set (''-'' @ n)" by (metis in_set_conv_decomp)
    with assms(2) show False by simp
  qed
  with tk assms show ?thesis by (simp add: rpm_artifact_def Let_def)
qed

lemma failures_iff:
  "n \<in> set (failures_from_artifacts build_list names prefix losers) \<longleftrightarrow>
     n \<in> set build_list \<and>
     (n \<in> set losers \<or> (\<forall>a \<in> set names. \<not> (starts_with prefix a \<and> rpm_artifact (drop (length prefix) a) = Some n)))"
proof -
  let ?f = "\<lambda>a. if starts_with prefix a then rpm_artifact (drop (length prefix) a) else None"
  have "n \<in> set (List.map_filter ?f names) \<longleftrightarrow>
      (\<exists>a \<in> set names. starts_with prefix a \<and> rpm_artifact (drop (length prefix) a) = Some n)"
    by (auto simp: map_filter_def split: if_splits) force+
  then show ?thesis by (auto simp: failures_from_artifacts_def Let_def)
qed

subsection \<open>Properties\<close>

text \<open>
  the candidate repository is exactly what the rule says. A built RPM of an accepted source
  is in it, an RPM of the seed that belongs to an accepted source and is not built again is gone,
  and every other file of the seed is there unchanged; so a package that failed or lost
  precedence keeps its previous build, and one that was never published stays absent.
\<close>

theorem candidate_exact:
  assumes "distinct (map fst seed)" "distinct (map fst built)"
    and "fst ` set seed \<subseteq> fst ` set repo" "fst ` set built \<subseteq> fst ` set files"
  shows "\<exists>repo'. apply_assembly (assemble seed built build_list losers) repo files = Inr repo' \<and>
    (\<forall>p. map_of repo' p =
      (if \<exists>s. map_of built p = Some s \<and> s \<in> set (accepted_sources built losers) then map_of files p
       else if \<exists>s. map_of seed p = Some s \<and> s \<in> set (accepted_sources built losers) then None
       else map_of repo p))"
  by (rule candidate [OF assms])

lemma candidate_exact_witness:
  "\<exists>repo'. apply_assembly (assemble [(''a1'', ''a''), (''b1'', ''b'')] [(''a2'', ''a''), (''c1'', ''c'')]
       [''a'', ''b'', ''c''] [''c'']) [(''a1'', 1), (''b1'', 2 :: nat)] [(''a2'', 3), (''c1'', 4)] = Inr repo' \<and>
     map_of repo' ''a1'' = None \<and> map_of repo' ''a2'' = Some 3 \<and> map_of repo' ''b1'' = Some 2 \<and>
     map_of repo' ''c1'' = None"
proof -
  let ?seed = "[(''a1'', ''a''), (''b1'', ''b'')]" and ?built = "[(''a2'', ''a''), (''c1'', ''c'')]"
  let ?repo = "[(''a1'', 1), (''b1'', 2 :: nat)]" and ?files = "[(''a2'', 3), (''c1'', 4 :: nat)]"
  have d: "distinct (map fst ?seed)" "distinct (map fst ?built)"
    "fst ` set ?seed \<subseteq> fst ` set ?repo" "fst ` set ?built \<subseteq> fst ` set ?files" by simp_all
  have acc: "accepted_sources ?built [''c''] = [''a'']" by code_simp
  from candidate_exact [OF d, of "[''a'', ''b'', ''c'']" "[''c'']"] obtain repo' where
    "apply_assembly (assemble ?seed ?built [''a'', ''b'', ''c''] [''c'']) ?repo ?files = Inr repo'"
    and all: "\<forall>p. map_of repo' p =
      (if \<exists>s. map_of ?built p = Some s \<and> s \<in> set [''a''] then map_of ?files p
       else if \<exists>s. map_of ?seed p = Some s \<and> s \<in> set [''a''] then None
       else map_of ?repo p)" unfolding acc by blast
  moreover have "map_of repo' ''a1'' = None" "map_of repo' ''a2'' = Some 3" "map_of repo' ''b1'' = Some 2"
    "map_of repo' ''c1'' = None"
    using all [rule_format, of "''a1''"] all [rule_format, of "''a2''"] all [rule_format, of "''b1''"]
      all [rule_format, of "''c1''"] by simp_all
  ultimately show ?thesis by blast
qed

text \<open>
  the report accounts for every selected package: it is replaced or failed and never both;
  a failed one either keeps a previous build or is absent, according to the seed; and what is
  replaced is what built and did not lose precedence.
\<close>

theorem report_accounts_for_all:
  "let a = assemble seed built build_list losers in
   set build_list \<subseteq> set (a_replaced a) \<union> set (a_failed a) \<and>
   set (a_replaced a) \<inter> set (a_failed a) = {} \<and>
   set (a_kept a) \<union> set (a_absent a) = set (a_failed a) \<and> set (a_kept a) \<inter> set (a_absent a) = {} \<and>
   set (a_kept a) = set (a_failed a) \<inter> snd ` set seed \<and>
   set (a_replaced a) = snd ` set built - set losers \<and>
   set (a_failed a) = set build_list - (snd ` set built - set losers)"
  by (auto simp: assemble_def Let_def accepted_sources_def)

text \<open>
  the two ways of naming failures agree: when every accepted or losing source uploaded its
  artifact and nothing else did, the list read off the artifacts is the list the publish computes.
\<close>

theorem failure_lists_agree:
  assumes "\<And>n. n \<in> set build_list \<Longrightarrow> n \<in> snd ` set built \<longleftrightarrow>
      (\<exists>a \<in> set names. starts_with prefix a \<and> rpm_artifact (drop (length prefix) a) = Some n)"
  shows "failures_from_artifacts build_list names prefix losers = a_failed (assemble seed built build_list losers)"
proof -
  have "set (failures_from_artifacts build_list names prefix losers) =
      set build_list - (snd ` set built - set losers)"
  proof (rule set_eqI)
    fix n
    show "n \<in> set (failures_from_artifacts build_list names prefix losers) \<longleftrightarrow>
        n \<in> set build_list - (snd ` set built - set losers)"
      using assms [of n] unfolding failures_iff by blast
  qed
  also have "\<dots> = set (a_failed (assemble seed built build_list losers))"
    by (auto simp: assemble_def Let_def accepted_sources_def)
  finally have "set (failures_from_artifacts build_list names prefix losers) =
      set (a_failed (assemble seed built build_list losers))" .
  then show ?thesis
    by (intro sorted_distinct_set_unique)
      (simp_all add: failures_from_artifacts_def assemble_def Let_def)
qed

lemma failure_lists_agree_witness:
  "failures_from_artifacts [''a'', ''b''] [''x-rpm-s0-a''] ''x-'' [] =
     a_failed (assemble [] [(''a.rpm'', ''a'')] [''a'', ''b''] [])"
proof (rule failure_lists_agree)
  have "rpm_artifact (drop (length ''x-'') ''x-rpm-s0-a'') = Some ''a''"
    by code_simp
  then show "n \<in> snd ` set [(''a.rpm'', ''a'')] \<longleftrightarrow>
      (\<exists>a \<in> set [''x-rpm-s0-a'']. starts_with ''x-'' a \<and> rpm_artifact (drop (length ''x-'') a) = Some n)"
    if "n \<in> set [''a'', ''b'']" for n using that by auto
qed

lemma loads_names: "loads (json_names ns) = Inr (JList (map JStr ns))"
  unfolding json_names_def by (rule loads_dumps) (simp add: list_all_iff)

text \<open>
  the marker reads back: a later run finds in a report exactly the failed list the report
  was rendered for, whatever else the report says.
\<close>

theorem marker_roundtrip:
  assumes "list_all plain_name failed" "CHR ''<'' \<notin> set (publish_result @ digest @ run_url)"
  shows "failed_marker (Some (render_report failed publish_result rep digest run_url)) =
    Inr (Some (JList (map JStr failed)))"
  using marker_of_report [OF assms] by (simp add: failed_marker_def loads_names)

lemma marker_roundtrip_witness:
  "failed_marker (Some (render_report [''fish''] ''failure'' None [] ''https://example'')) =
     Inr (Some (JList [JStr ''fish'']))"
  using marker_roundtrip [of "[''fish'']" "''failure''" "[]" "''https://example''" None]
  by (simp add: plain_name_def)

text \<open>
  One bootstrap build hides the failure of another: as soon as any bootstrap RPM was built,
  every selected bootstrap recipe counts as built, so one that failed is in no failure list.
\<close>

theorem one_bootstrap_hides_another:
  "let (a, report) = cli_assemble [] [(''x86_64/m-1-0.bootstrap.x86_64.rpm'', ''m'')]
       [''m-bootstrap'', ''n-bootstrap''] []
   in a_failed a = [] \<and> dict_get report ''bootstrapped'' [] = [''m-bootstrap'', ''n-bootstrap''] \<and>
      failures_from_artifacts [''m-bootstrap'', ''n-bootstrap''] [''rpm-s0-m-bootstrap''] [] [] = [''n-bootstrap'']"
  by code_simp

end
