(* ===== verification/Gate_Workflow.thy ===== *)
theory Gate_Workflow
  imports Publish_Gate "HOL-Library.Product_Lexorder"
begin

section \<open>The workflow says the same thing (\<open>publish_gate.assert_gate_enforced\<close>)\<close>

text \<open>
  The check reads two workflow files. YAML is parsed by a third-party package, so the check
  starts from the parsed document, a tree of mappings, lists and scalars as in \<open>Py_Json\<close>; a
  bare \<open>on:\<close> is the boolean key True in YAML 1.1, which is written as the key \<open>True\<close> here.
  A failed check is the AssertionError of the code; a message that ends in the repr of a
  value stops before it.
\<close>

subsection \<open>Helpers\<close>

definition require :: "string \<Rightarrow> bool \<Rightarrow> unit result" where
  "require message b = assert_r (AssertionError message) b"

text \<open>\<open>try: document["jobs"][name] except (KeyError, TypeError)\<close>.\<close>

definition job_of :: "string \<Rightarrow> json \<Rightarrow> string \<Rightarrow> json result" where
  "job_of file workflow name =
     (case bind_r (item workflow ''jobs'') (\<lambda>jobs. item jobs name) of
        Inl _ \<Rightarrow> Inl (AssertionError (file @ '' has no '' @ name @ '' job''))
      | Inr job \<Rightarrow> Inr job)"

text \<open>\<open>re.sub(r"\s+", " ", gate).strip()\<close>.\<close>

lemma length_dropWhile_Suc [termination_simp]: "length (dropWhile P xs) < Suc (length xs)"
  by (simp add: le_imp_less_Suc length_dropWhile_le)

fun collapse :: "string \<Rightarrow> string" where
  "collapse [] = []"
| "collapse (c # cs) =
     (if is_space c then CHR '' '' # collapse (dropWhile is_space cs) else c # collapse cs)"

definition normalized :: "string \<Rightarrow> string" where
  "normalized gate = strip (collapse gate)"

definition condition_of :: "json \<Rightarrow> string result" where
  "condition_of job = bind_r (get_or job ''if'' (JStr [])) (\<lambda>v. bind_r (py_str v) (\<lambda>s. Inr (normalized s)))"

text \<open>A text in single quotes.\<close>

definition quoted :: "string \<Rightarrow> string" where
  "quoted s = CHR 0x27 # s @ [CHR 0x27]"

subsection \<open>Waves\<close>

definition waves_of_gate :: "string list" where
  "waves_of_gate = map (\<lambda>k. ''rebuild'' @ show_nat k) [0..<14]"

text \<open>\<open>^rebuild(\d+)$\<close> and \<open>^publish(\d+)$\<close>.\<close>

definition numbered :: "string \<Rightarrow> string \<Rightarrow> nat option" where
  "numbered prefix name =
     (let s = drop (length prefix) name; d = takeWhile is_digit s in
      if starts_with prefix name \<and> d \<noteq> [] \<and> at_end (dropWhile is_digit s) then Some (read_nat d) else None)"

definition rebuild_stages :: "json \<Rightarrow> string list result" where
  "rebuild_stages workflow =
     bind_r (get_or workflow ''jobs'' JNull) (\<lambda>jobs.
     bind_r (if truthy jobs then iterate jobs else Inr []) (\<lambda>names.
     bind_r (map_r (\<lambda>v. case v of
           JStr n \<Rightarrow> Inr (map_option (\<lambda>k. (k, n)) (numbered ''rebuild'' n))
         | _ \<Rightarrow> Inl TypeError) names) (\<lambda>matched.
       Inr (map snd (sort (List.map_filter id matched))))))"

definition publish_uses :: string where
  "publish_uses = ''./.github/workflows/publish-repository.yml''"

subsection \<open>The checks on \<open>rebuild-rpms.yml\<close>\<close>

text \<open>The \<open>needs\<close> of a job, where one name may stand for a list.\<close>

definition needs_of_job :: "json \<Rightarrow> json result" where
  "needs_of_job job =
     bind_r (get_or job ''needs'' (JList [])) (\<lambda>needs.
       Inr (case needs of JStr s \<Rightarrow> JList [JStr s] | _ \<Rightarrow> needs))"

fun for_each :: "('a \<Rightarrow> unit result) \<Rightarrow> 'a list \<Rightarrow> unit result" where
  "for_each f [] = Inr ()"
| "for_each f (x # xs) = bind_r (f x) (\<lambda>_. for_each f xs)"

definition check_waves_needed :: "json \<Rightarrow> string list \<Rightarrow> unit result" where
  "check_waves_needed needs stages =
     bind_r (map_r (\<lambda>stage. within stage needs) stages) (\<lambda>there.
       require ''publish job must depend on every rebuild wave; missing '' (list_all id there))"

definition check_publication_job :: "string list \<Rightarrow> string \<times> json \<Rightarrow> unit result" where
  "check_publication_job stages = (\<lambda>(name, job).
     bind_r (get_or job ''uses'' JNull) (\<lambda>uses.
       if uses \<noteq> JStr publish_uses then Inr ()
       else bind_r (condition_of job) (\<lambda>condition.
         bind_r (for_each (\<lambda>stage. require (name @ '' must not depend on '' @ stage @ [CHR 0x27] @
               ''s result; a failed package keeps its previous build instead'')
             (\<not> contains (''needs.'' @ stage @ ''.result'') condition)) stages) (\<lambda>_.
         bind_r (require (name @ '' must run after a failed wave, so its if: needs !cancelled()'') (contains ''!cancelled()'' condition)) (\<lambda>_.
           require (name @ '' must require prepare to succeed'')
             (contains (''needs.prepare.result == '' @ quoted ''success'') condition))))))"

definition check_early_job :: "string \<times> json \<Rightarrow> unit result" where
  "check_early_job = (\<lambda>(name, job).
     case numbered ''publish'' name of
       None \<Rightarrow> Inr ()
     | Some wave \<Rightarrow>
         bind_r (bind_r (get_or job ''needs'' (JList [])) iterate) (\<lambda>early_needs.
         bind_r (map_r (\<lambda>need. case need of JStr n \<Rightarrow> Inr (numbered ''rebuild'' n) | _ \<Rightarrow> Inl TypeError) early_needs) (\<lambda>ks.
         bind_r (require (name @ '' must not wait for later waves '')
             (list_all (\<lambda>k. case k of None \<Rightarrow> True | Some m \<Rightarrow> m \<le> wave) ks)) (\<lambda>_.
         bind_r (get_or job ''with'' (JObj [])) (\<lambda>inputs.
         bind_r (get_or inputs ''final'' JNull) (\<lambda>final.
         bind_r (if final \<noteq> JBool False then Inr False
             else bind_r (bind_r (get_or inputs ''wave'' JNull) py_str) (\<lambda>w. Inr (w = show_nat wave))) (\<lambda>early.
         bind_r (require (name @ '' must be an early publication of wave '' @ show_nat wave) early) (\<lambda>_.
         bind_r (bind_r (get_or inputs ''build_list'' JNull) py_str) (\<lambda>b.
           require (name @ '' must cover exactly waves 0..'' @ show_nat wave)
             (contains (''needs.prepare.outputs.through'' @ show_nat wave) b))))))))))"

definition triggers_of :: "json \<Rightarrow> json result" where
  "triggers_of workflow = bind_r (get_or workflow ''True'' (JObj [])) (\<lambda>d. get_or workflow ''on'' d)"

definition check_report :: "json \<Rightarrow> unit result" where
  "check_report workflow =
     bind_r (job_of ''rebuild-rpms.yml'' workflow ''report'') (\<lambda>report.
     bind_r (condition_of report) (\<lambda>gate.
     bind_r (require (''report must not run on always(): a cancelled run has no failures '' @
       ''to name and would report the whole build list as failed'') (\<not> contains ''always()'' gate)) (\<lambda>_.
     bind_r (require (''report must run after a failed wave or publish, '' @
       ''so its if: needs !cancelled()'') (contains ''!cancelled()'' gate)) (\<lambda>_.
       for_each (\<lambda>need. bind_r (get_or report ''needs'' (JList [])) (\<lambda>needs. bind_r (within need needs) (\<lambda>b.
           require (''report job must wait for '' @ need) b)))
         ([''prepare'', ''publish''] @ waves_of_gate)))))"

subsection \<open>The checks on \<open>publish-repository.yml\<close>\<close>

fun step_index :: "string list \<Rightarrow> string \<Rightarrow> string \<Rightarrow> nat result" where
  "step_index [] fragment what = Inl (AssertionError (''publish job must '' @ what))"
| "step_index (n # ns) fragment what =
     (if contains fragment n then Inr 0
      else bind_r (step_index ns fragment what) (\<lambda>i. Inr (Suc i)))"

definition check_step_order :: "json \<Rightarrow> unit result" where
  "check_step_order publish =
     bind_r (bind_r (get_or publish ''steps'' (JList [])) iterate) (\<lambda>steps.
     bind_r (map_r (\<lambda>s. bind_r (get_or s ''name'' (JStr [])) py_str) steps) (\<lambda>names.
     bind_r (step_index names ''Verify and seed repository'' ''seed from the verified previous image'') (\<lambda>seed.
     bind_r (step_index names ''Replace the packages this run built'' ''replace only what this run built'') (\<lambda>assemble_step.
     bind_r (step_index names ''Hummingbird-only consumer transaction''
         ''validate the Hummingbird-only consumer transaction'') (\<lambda>validate.
     bind_r (step_index names ''Publish the repository as an OCI image'' ''publish the repository as an OCI image'') (\<lambda>publish_step.
     bind_r (require (''publish must seed, then replace what this run built, then validate '' @
         ''the Hummingbird-only transaction, then publish -- in that order'')
         (seed < assemble_step \<and> assemble_step < validate \<and> validate < publish_step)) (\<lambda>_.
     bind_r (bind_r (get_or (steps ! assemble_step) ''run'' (JStr [])) py_str) (\<lambda>run.
     bind_r (require ''the replacement must be decided by publish_gate.py assemble''
         (contains ''tools/publish_gate.py assemble'' run)) (\<lambda>_.
     bind_r (within ''if'' (steps ! validate)) (\<lambda>skippable.
     bind_r (require ''the transaction validation must not be skippable'' (\<not> skippable)) (\<lambda>_.
     bind_r (bind_r (get_or (steps ! publish_step) ''if'' (JStr [])) py_str) (\<lambda>gate.
     bind_r (require ''the image may publish only when the transaction validated''
         (contains (''steps.validate.outcome == '' @ quoted ''success'') gate)) (\<lambda>_.
     bind_r (bind_r (get_or (steps ! validate) ''continue-on-error'' (JStr ''false'')) py_str) (\<lambda>go_on.
       require ''only an early publication may continue past a failed transaction''
         (go_on = ''false'' \<or> go_on = ''${{ !inputs.final }}'')))))))))))))))"

definition check_publication :: "json \<Rightarrow> unit result" where
  "check_publication publish_workflow =
     bind_r (job_of ''publish-repository.yml'' publish_workflow ''publish'') (\<lambda>publish.
     bind_r (needs_of_job publish) (\<lambda>needs.
     bind_r (within ''precedence'' needs) (\<lambda>there.
     bind_r (require ''publish job must depend on precedence'' there) (\<lambda>_.
     bind_r (condition_of publish) (\<lambda>gate.
     bind_r (require ''publish gate must require precedence to succeed''
         (contains (''needs.precedence.result == '' @ quoted ''success'') gate)) (\<lambda>_.
     bind_r (require ''publish must run after a failed wave, so its if: needs !cancelled()'' (contains ''!cancelled()'' gate)) (\<lambda>_.
       check_step_order publish)))))))"

definition assert_gate_enforced :: "json \<Rightarrow> json \<Rightarrow> unit result" where
  "assert_gate_enforced workflow publish_workflow =
     bind_r (job_of ''rebuild-rpms.yml'' workflow ''publish'') (\<lambda>publish.
     bind_r (get_or publish ''uses'' JNull) (\<lambda>uses.
     bind_r (require (''rebuild-rpms.yml'' @ [CHR 0x27] @ ''s publish job must call '' @ publish_uses) (uses = JStr publish_uses)) (\<lambda>_.
     bind_r (bind_r (get_or publish ''with'' (JObj [])) (\<lambda>w. get_or w ''final'' JNull)) (\<lambda>final.
     bind_r (require (''rebuild-rpms.yml'' @ [CHR 0x27] @ ''s publish job must be the final publication'') (final = JBool True)) (\<lambda>_.
     bind_r (condition_of publish) (\<lambda>gate.
     bind_r (rebuild_stages workflow) (\<lambda>stages.
     bind_r (require ''rebuild-rpms.yml declares no rebuild waves'' (stages \<noteq> [])) (\<lambda>_.
     bind_r (require ''rebuild-rpms.yml declares waves '' (stages = waves_of_gate)) (\<lambda>_.
     bind_r (needs_of_job publish) (\<lambda>needs.
     bind_r (check_waves_needed needs stages) (\<lambda>_.
     bind_r (bind_r (item workflow ''jobs'') items_of) (\<lambda>jobs.
     bind_r (for_each (check_publication_job stages) jobs) (\<lambda>_.
     bind_r (for_each check_early_job jobs) (\<lambda>_.
     bind_r (triggers_of workflow) (\<lambda>triggers.
     bind_r (within ''pull_request'' triggers) (\<lambda>pr.
     bind_r (require ''publish gate must exclude fork pull requests''
         (\<not> pr \<or> contains ''pull_request.head.repo.full_name'' gate)) (\<lambda>_.
     bind_r (check_report workflow) (\<lambda>_. check_publication publish_workflow))))))))))))))))))"

subsection \<open>What an accepted pair of workflows guarantees\<close>

lemma for_each_Inr: "for_each f xs = Inr u \<longleftrightarrow> (\<forall>x \<in> set xs. f x = Inr ())"
  by (induction xs) (auto simp: bind_r_Inr)

lemma require_Inr [simp]: "require m b = Inr u \<longleftrightarrow> b"
  by (simp add: require_def)

lemma map_filter_id_set: "set (List.map_filter id ys) = {y. Some y \<in> set ys}"
  by (induction ys) (auto simp: List.map_filter_simps split: option.splits)

lemma jobs_of_Inr:
  "bind_r (item workflow ''jobs'') items_of = Inr jobs \<longleftrightarrow>
     (\<exists>kvs. workflow = JObj kvs \<and> map_of kvs ''jobs'' = Some (JObj jobs))"
  by (cases workflow) (auto simp: item_def items_of_def bind_r_Inr split: option.splits json.splits)

lemma matched_names:
  "snd ` {y. Some y \<in> set (map (\<lambda>(n, j). map_option (\<lambda>k. (k, n)) (f n)) jobs)} =
     {n \<in> fst ` set jobs. f n \<noteq> None}"
proof -
  have "Some (k, n) = map_option (\<lambda>k. (k, m)) (f m) \<longleftrightarrow> m = n \<and> f n = Some k" for k n m
    by (cases "f m") auto
  then have "(\<exists>k. Some (k, n) \<in> set (map (\<lambda>(n, j). map_option (\<lambda>k. (k, n)) (f n)) jobs)) \<longleftrightarrow>
      n \<in> fst ` set jobs \<and> f n \<noteq> None" for n
    by (auto simp: image_iff split_beta)
  moreover have "n \<in> snd ` {y. Some y \<in> A} \<longleftrightarrow> (\<exists>k. Some (k, n) \<in> A)" for n and A :: "('b \<times> 'a) option set"
    by (auto simp: image_iff)
  ultimately show ?thesis by (intro set_eqI) (simp del: set_map)
qed

lemma rebuild_stages_set:
  assumes "map_of kvs ''jobs'' = Some (JObj jobs)" and "rebuild_stages (JObj kvs) = Inr stages"
  shows "set stages = {n \<in> fst ` set jobs. numbered ''rebuild'' n \<noteq> None}"
proof -
  define ms where "ms = map (\<lambda>(n, j). map_option (\<lambda>k. (k, n)) (numbered ''rebuild'' n)) jobs"
  have "map_r (\<lambda>v. case v of JStr n \<Rightarrow> Inr (map_option (\<lambda>k. (k, n)) (numbered ''rebuild'' n))
         | _ \<Rightarrow> Inl TypeError) (map (\<lambda>(k, _). JStr k) jobs) = Inr ms"
    unfolding ms_def by (induction jobs) auto
  with assms have "stages = map snd (sort (List.map_filter id ms))"
    by (cases jobs) (auto simp: rebuild_stages_def get_or_def iterate_def ms_def)
  then have "set stages = snd ` {y. Some y \<in> set ms}"
    by (simp add: map_filter_id_set)
  also have "\<dots> = {n \<in> fst ` set jobs. numbered ''rebuild'' n \<noteq> None}"
    unfolding ms_def by (rule matched_names)
  finally show ?thesis .
qed

text \<open>
  When the two workflows pass the check, the jobs of the rebuild workflow whose name is
  \<open>rebuild\<close> and a number are exactly the fourteen waves the publish decisions assume; every
  job that publishes runs after a failed wave, requires the prepare job to have succeeded and
  does not read the result of any wave; and no early publication waits for a later wave.
\<close>

theorem publications_ignore_waves:
  assumes "assert_gate_enforced (JObj kvs) publish_workflow = Inr ()"
  shows "\<exists>jobs. map_of kvs ''jobs'' = Some (JObj jobs) \<and>
    {n \<in> fst ` set jobs. numbered ''rebuild'' n \<noteq> None} = set waves_of_gate \<and>
    (\<forall>(name, job) \<in> set jobs. get_or job ''uses'' JNull = Inr (JStr publish_uses) \<longrightarrow>
      (\<exists>condition. condition_of job = Inr condition \<and>
        contains ''!cancelled()'' condition \<and>
        contains (''needs.prepare.result == '' @ quoted ''success'') condition \<and>
        (\<forall>stage \<in> set waves_of_gate. \<not> contains (''needs.'' @ stage @ ''.result'') condition))) \<and>
    (\<forall>(name, job) \<in> set jobs. \<forall>k needs. numbered ''publish'' name = Some k \<and>
      get_or job ''needs'' (JList []) = Inr (JList needs) \<longrightarrow>
      (\<forall>m \<in> set needs. \<exists>n. m = JStr n \<and> (\<forall>w. numbered ''rebuild'' n = Some w \<longrightarrow> w \<le> k)))"
proof -
  from assms obtain stages jobs where
    stages: "rebuild_stages (JObj kvs) = Inr stages" "stages = waves_of_gate"
    and jobs: "bind_r (item (JObj kvs) ''jobs'') items_of = Inr jobs"
    and publications: "for_each (check_publication_job stages) jobs = Inr ()"
    and early: "for_each check_early_job jobs = Inr ()"
    unfolding assert_gate_enforced_def bind_r_Inr [of _ _ "()"] by auto
  from jobs have m: "map_of kvs ''jobs'' = Some (JObj jobs)" by (simp add: jobs_of_Inr)
  show ?thesis
  proof (intro exI [of _ jobs] conjI m, goal_cases)
    case 1
    show ?case
      using rebuild_stages_set [OF m stages(1)] stages(2) by simp
  next
    case 2
    from publications stages(2) show ?case
      by (fastforce simp: for_each_Inr check_publication_job_def bind_r_Inr)
  next
    case 3
    have "\<exists>n. m = JStr n \<and> (\<forall>w. numbered ''rebuild'' n = Some w \<longrightarrow> w \<le> k)"
      if job: "(name, job) \<in> set jobs" and k: "numbered ''publish'' name = Some k"
      and needs: "get_or job ''needs'' (JList []) = Inr (JList needs)" and m: "m \<in> set needs"
      for name job k needs m
    proof -
    from early job have "check_early_job (name, job) = Inr ()" by (auto simp: for_each_Inr)
    with k needs obtain ks where
      ks: "map_r (\<lambda>need. case need of JStr n \<Rightarrow> Inr (numbered ''rebuild'' n) | _ \<Rightarrow> Inl TypeError) needs = Inr ks"
        "list_all (\<lambda>x. case x of None \<Rightarrow> True | Some w \<Rightarrow> w \<le> k) ks"
      by (auto simp: check_early_job_def iterate_def bind_r_Inr)
    from map_r_mem [OF ks(1) m] obtain x where "x \<in> set ks"
      "(case m of JStr n \<Rightarrow> Inr (numbered ''rebuild'' n) | _ \<Rightarrow> Inl TypeError) = Inr x" by blast
    with ks(2) show ?thesis
      by (cases m) (auto simp: list_all_iff)
    qed
    then show ?case by blast
  qed
qed

text \<open>A pair of workflows of the shape the repository has, with one early publication.\<close>

definition sample_job :: "string \<Rightarrow> (string \<times> json) list \<Rightarrow> string \<Rightarrow> json \<Rightarrow> string \<times> json" where
  "sample_job name inputs condition needs =
     (name, JObj [(''uses'', JStr publish_uses), (''with'', JObj inputs), (''if'', JStr condition), (''needs'', needs)])"

definition sample_condition :: string where
  "sample_condition = ''!cancelled()'' @ '' && '' @ ''needs.prepare.result == '' @ quoted ''success''"

definition sample_workflow :: "(string \<times> json) list" where
  "sample_workflow =
     [(''True'', JObj [(''schedule'', JNull)]),
      (''jobs'', JObj (map (\<lambda>w. (w, JObj [])) waves_of_gate @
        [sample_job ''publish3'' [(''final'', JBool False), (''wave'', JInt 3),
             (''build_list'', JStr ''needs.prepare.outputs.through3'')]
           sample_condition (JList (map JStr (take 4 waves_of_gate))),
         sample_job ''publish'' [(''final'', JBool True)] sample_condition (JList (map JStr waves_of_gate)),
         (''report'', JObj [(''if'', JStr ''!cancelled()''),
           (''needs'', JList (map JStr ([''prepare'', ''publish''] @ waves_of_gate)))])]))]"

definition sample_publication :: json where
  "sample_publication = JObj [(''jobs'', JObj [(''publish'', JObj
     [(''needs'', JStr ''precedence''),
      (''if'', JStr (''!cancelled() && needs.precedence.result == '' @ quoted ''success'')),
      (''steps'', JList
        [JObj [(''name'', JStr ''Verify and seed repository'')],
         JObj [(''name'', JStr ''Replace the packages this run built''), (''run'', JStr ''tools/publish_gate.py assemble'')],
         JObj [(''name'', JStr ''Hummingbird-only consumer transaction''), (''continue-on-error'', JStr ''${{ !inputs.final }}'')],
         JObj [(''name'', JStr ''Publish the repository as an OCI image''),
               (''if'', JStr (''steps.validate.outcome == '' @ quoted ''success''))]])])])]"

lemma sample_accepted: "assert_gate_enforced (JObj sample_workflow) sample_publication = Inr ()"
  by code_simp

text \<open>The same publication with a step that may be skipped is refused.\<close>

definition skippable_publication :: json where
  "skippable_publication = JObj [(''jobs'', JObj [(''publish'', JObj
     [(''needs'', JStr ''precedence''),
      (''if'', JStr (''!cancelled() && needs.precedence.result == '' @ quoted ''success'')),
      (''steps'', JList
        [JObj [(''name'', JStr ''Verify and seed repository'')],
         JObj [(''name'', JStr ''Replace the packages this run built''), (''run'', JStr ''tools/publish_gate.py assemble'')],
         JObj [(''name'', JStr ''Hummingbird-only consumer transaction''), (''if'', JBool True)],
         JObj [(''name'', JStr ''Publish the repository as an OCI image''),
               (''if'', JStr (''steps.validate.outcome == '' @ quoted ''success''))]])])])]"

lemma sample_refused:
  "assert_gate_enforced (JObj sample_workflow) skippable_publication =
     Inl (AssertionError ''the transaction validation must not be skippable'')"
  by code_simp

theorem publications_ignore_waves_witness:
  "\<exists>jobs. map_of sample_workflow ''jobs'' = Some (JObj jobs) \<and>
    {n \<in> fst ` set jobs. numbered ''rebuild'' n \<noteq> None} = set waves_of_gate"
  using publications_ignore_waves [OF sample_accepted] by blast

lemma step_index_Inr:
  "step_index ns fragment what = Inr i \<longleftrightarrow>
     i < length ns \<and> contains fragment (ns ! i) \<and> (\<forall>j < i. \<not> contains fragment (ns ! j))"
proof (induction ns arbitrary: i)
  case (Cons n ns)
  then show ?case by (cases i) (auto simp: bind_r_Inr less_Suc_eq_0_disj)
qed simp

text \<open>
  In an accepted publication workflow the publish job has four steps in this order: it
  seeds from the previous image, replaces what the run built through \<open>publish_gate.py
  assemble\<close>, validates the consumer transaction, publishes the image. The validation has no
  condition that could skip it, the image step requires it to have succeeded, and the only
  value other than a plain \<open>false\<close> it may give for carrying on is the one of early publications.
\<close>

theorem validated_before_published:
  assumes "assert_gate_enforced workflow publish_workflow = Inr ()"
  shows "\<exists>publish steps names i j k l.
    job_of ''publish-repository.yml'' publish_workflow ''publish'' = Inr publish \<and>
    bind_r (get_or publish ''steps'' (JList [])) iterate = Inr steps \<and>
    map_r (\<lambda>s. bind_r (get_or s ''name'' (JStr [])) py_str) steps = Inr names \<and>
    i < j \<and> j < k \<and> k < l \<and> l < length steps \<and>
    contains ''Verify and seed repository'' (names ! i) \<and>
    contains ''Hummingbird-only consumer transaction'' (names ! k) \<and>
    contains ''Publish the repository as an OCI image'' (names ! l) \<and>
    (\<exists>run. bind_r (get_or (steps ! j) ''run'' (JStr [])) py_str = Inr run \<and>
       contains ''tools/publish_gate.py assemble'' run) \<and>
    within ''if'' (steps ! k) = Inr False \<and>
    (\<exists>g. bind_r (get_or (steps ! k) ''continue-on-error'' (JStr ''false'')) py_str = Inr g \<and>
       g \<in> {''false'', ''${{ !inputs.final }}''}) \<and>
    (\<exists>condition. bind_r (get_or (steps ! l) ''if'' (JStr [])) py_str = Inr condition \<and>
       contains (''steps.validate.outcome == '' @ quoted ''success'') condition)"
proof -
  from assms have "check_publication publish_workflow = Inr ()"
    unfolding assert_gate_enforced_def bind_r_Inr [of _ _ "()"] by auto
  then obtain publish where publish: "job_of ''publish-repository.yml'' publish_workflow ''publish'' = Inr publish"
    and "check_step_order publish = Inr ()"
    unfolding check_publication_def bind_r_Inr [of _ _ "()"] by auto
  then obtain steps names i j k l run gate go_on where
    steps: "bind_r (get_or publish ''steps'' (JList [])) iterate = Inr steps"
    and names: "map_r (\<lambda>s. bind_r (get_or s ''name'' (JStr [])) py_str) steps = Inr names"
    and i: "contains ''Verify and seed repository'' (names ! i)"
    and k: "contains ''Hummingbird-only consumer transaction'' (names ! k)"
    and l: "l < length names" "contains ''Publish the repository as an OCI image'' (names ! l)"
    and order: "i < j" "j < k" "k < l"
    and run: "bind_r (get_or (steps ! j) ''run'' (JStr [])) py_str = Inr run"
      "contains ''tools/publish_gate.py assemble'' run"
    and skippable: "within ''if'' (steps ! k) = Inr False"
    and gate: "bind_r (get_or (steps ! l) ''if'' (JStr [])) py_str = Inr gate"
      "contains (''steps.validate.outcome == '' @ quoted ''success'') gate"
    and go_on: "bind_r (get_or (steps ! k) ''continue-on-error'' (JStr ''false'')) py_str = Inr go_on"
      "go_on = ''false'' \<or> go_on = ''${{ !inputs.final }}''"
    unfolding check_step_order_def bind_r_Inr [of _ _ "()"] require_Inr step_index_Inr by auto
  from names have "length names = length steps" by (auto simp: map_r_Inr dest: list_all2_lengthD)
  with l(1) have "l < length steps" by simp
  have "go_on \<in> {''false'', ''${{ !inputs.final }}''}" using go_on(2) by blast
  from publish steps names order \<open>l < length steps\<close> i k l(2) run skippable go_on(1) this gate
  show ?thesis by blast
qed

theorem validated_before_published_witness:
  "\<exists>publish steps names i j k l.
    job_of ''publish-repository.yml'' sample_publication ''publish'' = Inr publish \<and>
    bind_r (get_or publish ''steps'' (JList [])) iterate = Inr steps \<and>
    i < j \<and> j < k \<and> k < l \<and> l < length steps \<and> within ''if'' (steps ! k) = Inr False"
  using validated_before_published [OF sample_accepted] by blast

end
