(* ===== verification/Bump_Gate.thy ===== *)
theory Bump_Gate
  imports Publish_Gate
begin

section \<open>May the daily bump merge itself (\<open>bump_gate.py\<close>)\<close>

text \<open>
  The plan of a bump pull request, the verdict over its build, the packages to hold when some of
  them failed, the comment with its marker, and the trim that takes held packages out of the
  pull request. A revision is the map from paths to file texts of its tree; the changed paths
  are what \<open>git diff --name-only\<close> printed and are an argument.
\<close>

subsection \<open>The files\<close>

type_synonym rev_tree = "(string, string) dict"

definition lock_path :: string where
  "lock_path = ''config/upstream-sources.json''"

definition holds_path :: string where
  "holds_path = ''config/bump-holds.json''"

definition review_only_path :: string where
  "review_only_path = ''config/bump-review-only.txt''"

definition multimedia_report :: string where
  "multimedia_report = ''reports/multimedia-closure.json''"

definition disallowed :: "string list \<Rightarrow> string list" where
  "disallowed paths = sort (filter (\<lambda>p. p \<noteq> [] \<and> p \<notin> {lock_path, holds_path, multimedia_report} \<and>
     \<not> starts_with ''packages/'' p) paths)"

definition valid_hold :: "json \<Rightarrow> bool" where
  "valid_hold hold = (case hold of
      JObj kvs \<Rightarrow>
        (case map_of kvs ''version'' of Some (JStr v) \<Rightarrow> v \<noteq> [] | _ \<Rightarrow> False) \<and>
        (case dict_get kvs ''run'' (JStr []) of JStr _ \<Rightarrow> True | _ \<Rightarrow> False)
    | _ \<Rightarrow> False)"

definition parse_holds :: "string option \<Rightarrow> (string, json) dict result" where
  "parse_holds text =
     (case text of
        None \<Rightarrow> Inr []
      | Some t \<Rightarrow>
          if strip t = [] then Inr []
          else bind_r (loads t) (\<lambda>document.
            case (case document of JObj kvs \<Rightarrow> map_of kvs ''holds'' | _ \<Rightarrow> None) of
              Some (JObj holds) \<Rightarrow>
                if list_all (\<lambda>(_, hold). valid_hold hold) holds then Inr holds
                else Inl (ValueError (holds_path @ '': hold needs a version string''))
            | _ \<Rightarrow> Inl (ValueError (holds_path @ '': expected an object with a holds object''))))"

definition parse_review_only :: "string option \<Rightarrow> string list" where
  "parse_review_only text =
     remdups (filter (\<lambda>s. s \<noteq> []) (map (\<lambda>line. strip (before (CHR ''#'') line))
       (splitlines (case text of None \<Rightarrow> [] | Some t \<Rightarrow> t))))"

definition dump_holds :: "(string, json) dict \<Rightarrow> string" where
  "dump_holds holds = dumps_indent (JObj [(''holds'', JObj (sort_key fst holds))]) @ nl"

text \<open>\<open>entry["name"]\<close> of an inventory entry; a name is a string.\<close>

definition entry_name :: "json \<Rightarrow> string result" where
  "entry_name e = bind_r (item e ''name'') (\<lambda>v. case v of JStr n \<Rightarrow> Inr n | _ \<Rightarrow> Inl Unmodelled)"

definition lock_entries :: "json option \<Rightarrow> json list result" where
  "lock_entries document =
     (case document of
        None \<Rightarrow> Inr []
      | Some d \<Rightarrow> if truthy d then bind_r (get_or d ''packages'' (JList [])) iterate else Inr [])"

definition locks_by_name :: "json option \<Rightarrow> (string, json) dict result" where
  "locks_by_name document =
     bind_r (lock_entries document) (\<lambda>es.
     bind_r (map_r entry_name es) (\<lambda>ns. Inr (dict_of_pairs (zip ns es))))"

definition moved :: "(string, json) dict \<Rightarrow> (string, json) dict \<Rightarrow> string list" where
  "moved base head = map fst (filter (\<lambda>(n, e).
     case map_of base n of None \<Rightarrow> True | Some b \<Rightarrow> \<not> py_eq b e) head)"

text \<open>The recipe of a path below \<open>packages/\<close>.\<close>

definition recipe_of :: "string \<Rightarrow> string option" where
  "recipe_of path =
     (let parts = split_on (CHR ''/'') path in
      if hd parts = ''packages'' \<and> 2 < length parts then Some (parts ! 1) else None)"

definition bumped :: "(string, json) dict \<Rightarrow> (string, json) dict \<Rightarrow> string list \<Rightarrow> string list" where
  "bumped base head paths = sorted_set
     (moved base head @ filter (\<lambda>n. \<not> dict_has head n) (map fst base) @ List.map_filter recipe_of paths)"

subsection \<open>The plan\<close>

text \<open>What \<open>plan\<close> prints, or why it exits 1.\<close>

datatype planned = Packages "string list" | Holds_Only | Stopped string

definition lock_at :: "rev_tree \<Rightarrow> json option result" where
  "lock_at t = (case map_of t lock_path of
      None \<Rightarrow> Inr None
    | Some s \<Rightarrow> bind_r (loads s) (\<lambda>v. Inr (if v = JNull then None else Some v)))"

definition same_lock :: "json option \<Rightarrow> json option \<Rightarrow> bool" where
  "same_lock a b = (case (a, b) of (None, None) \<Rightarrow> True | (Some x, Some y) \<Rightarrow> py_eq x y | _ \<Rightarrow> False)"

definition cli_plan :: "rev_tree \<Rightarrow> rev_tree \<Rightarrow> string list \<Rightarrow> planned result" where
  "cli_plan base_tree head_tree paths =
     (if disallowed paths \<noteq> [] then Inr (Stopped ''a bump may change only the lock and the recipes'')
      else case parse_holds (map_of head_tree holds_path) of
        Inl (ValueError e) \<Rightarrow> Inr (Stopped ''the holds file does not parse'')
      | Inl e \<Rightarrow> Inl e
      | Inr _ \<Rightarrow>
          bind_r (lock_at head_tree) (\<lambda>head_lock.
          bind_r (lock_at base_tree) (\<lambda>base_lock.
          bind_r (locks_by_name head_lock) (\<lambda>head.
          bind_r (locks_by_name base_lock) (\<lambda>base.
            let guarded = set_inter (moved base head) (parse_review_only (map_of head_tree review_only_path));
                names = bumped base head paths;
                changed = filter (\<lambda>p. p \<noteq> []) paths
            in Inr (
              if guarded \<noteq> [] then Stopped ''upstream bytes land only through a human-reviewed pull request''
              else if \<exists>n \<in> set names. \<not> dict_has head n then Stopped ''not in the head inventory''
              else if names = [] then
                (if holds_path \<in> set changed \<and> set changed \<subseteq> {holds_path, lock_path} \<and>
                    same_lock head_lock base_lock then Holds_Only
                 else Stopped ''the diff changes no recipe; nothing to gate'')
              else Packages names))))))"

definition planned_text :: "planned \<Rightarrow> string option" where
  "planned_text p = (case p of
      Packages ns \<Rightarrow> Some (dumps '','' '':'' (JObj [(''packages'', JList (map JStr ns)), (''holds_only'', JBool False)]))
    | Holds_Only \<Rightarrow> Some (dumps '','' '':'' (JObj [(''packages'', JList []), (''holds_only'', JBool True)]))
    | Stopped _ \<Rightarrow> None)"

subsection \<open>The verdict\<close>

record verdict =
  v_ok :: bool
  v_failed :: "string list"
  v_reasons :: "string list"

text \<open>A JSON array of names; a text \<open>loads\<close> has no value for counts as malformed.\<close>

definition names_of :: "string \<Rightarrow> string list option" where
  "names_of raw =
     (case loads (if raw = [] then ''null'' else raw) of
        Inr (JList vs) \<Rightarrow>
          if list_all (\<lambda>v. case v of JStr _ \<Rightarrow> True | _ \<Rightarrow> False) vs
          then Some (map (\<lambda>v. case v of JStr n \<Rightarrow> n | _ \<Rightarrow> []) vs) else None
      | _ \<Rightarrow> None)"

definition names_or_empty :: "string list option \<Rightarrow> string list" where
  "names_or_empty ns = (case ns of None \<Rightarrow> [] | Some x \<Rightarrow> x)"

definition listing :: "string list \<Rightarrow> string" where
  "listing ns = join '', '' (map code_name ns)"

definition concluded :: "string \<Rightarrow> string" where
  "concluded outcome = code_name (if outcome = [] then ''unknown'' else outcome)"

definition verdict_reasons :: "string \<Rightarrow> string \<Rightarrow> string \<Rightarrow> string \<Rightarrow> string list" where
  "verdict_reasons bumped_raw build_list_raw failed_raw outcome =
     (let wanted = names_of bumped_raw; build_list = names_of build_list_raw; failing = names_of failed_raw;
          names = sorted_set (set_inter (names_or_empty failing) (names_or_empty wanted));
          other = sorted_set (set_minus (names_or_empty failing) (names_or_empty wanted));
          missing = sorted_set (set_minus (names_or_empty wanted) (names_or_empty build_list)) in
      (if names_or_empty wanted = []
       then [''no bumped packages were named, so there is nothing the build proved''] else []) @
      (if outcome \<noteq> ''success'' then [''the build job concluded '' @ concluded outcome @ '', not `success`''] else []) @
      (if build_list = None then [''the build did not report which packages it selected''] else []) @
      (if failing = None then [''the build did not report which packages failed''] else []) @
      (if names \<noteq> [] then [''bumped packages failed to build: '' @ listing names] else []) @
      (if other \<noteq> [] then [''other packages failed in the same run: '' @ listing other] else []) @
      (if names_or_empty wanted \<noteq> [] \<and> build_list \<noteq> None \<and> missing \<noteq> []
       then [''bumped packages were not selected, so nothing built them: '' @ listing missing] else []))"

definition gate_verdict :: "string \<Rightarrow> string \<Rightarrow> string \<Rightarrow> string \<Rightarrow> verdict" where
  "gate_verdict bumped_raw build_list_raw failed_raw outcome =
     (let reasons = verdict_reasons bumped_raw build_list_raw failed_raw outcome in
      \<lparr>v_ok = (reasons = []), v_failed = sort (names_or_empty (names_of failed_raw)), v_reasons = reasons\<rparr>)"

definition holds_only_verdict :: "string \<Rightarrow> string \<Rightarrow> verdict" where
  "holds_only_verdict bumped_raw outcome =
     (let reasons =
        (if names_of bumped_raw \<noteq> Some [] then [''a holds-only change must name no bumped packages''] else []) @
        (if outcome \<noteq> ''skipped'' then [''a holds-only change builds nothing, but the build job concluded '' @
           concluded outcome] else []) in
      \<lparr>v_ok = (reasons = []), v_failed = [], v_reasons = reasons\<rparr>)"

definition holdable :: "string \<Rightarrow> string \<Rightarrow> string \<Rightarrow> string \<Rightarrow> string list" where
  "holdable bumped_raw build_list_raw failed_raw outcome =
     (case (names_of bumped_raw, names_of build_list_raw, names_of failed_raw) of
        (Some wanted, Some build_list, Some failing) \<Rightarrow>
          if wanted = [] \<or> outcome \<notin> {''success'', ''failure''} \<or> \<not> set wanted \<subseteq> set build_list \<or>
             failing = [] \<or> \<not> set failing \<subseteq> set wanted then []
          else sorted_set failing
      | _ \<Rightarrow> [])"

subsection \<open>The comment and its marker\<close>

definition marker :: "string \<Rightarrow> string list \<Rightarrow> string" where
  "marker sha failing = ''<!-- bump-gate: sha='' @ sha @ '' failed='' @
     dumps '','' '':'' (JList (map JStr (sort failing))) @ '' -->''"

text \<open>\<open>MARKER\<close> at one place: the sha, the list text and the rest of the text.\<close>

fun lazy_span :: "string \<Rightarrow> string \<Rightarrow> (string \<times> string) option" where
  "lazy_span acc s =
     (if starts_with ''] -->'' s then Some (''['' @ rev acc @ '']'', drop 5 s)
      else (case s of [] \<Rightarrow> None | c # cs \<Rightarrow> if c = CHR 0x0A then None else lazy_span (c # acc) cs))"

declare lazy_span.simps [simp del]

definition is_hex :: "char \<Rightarrow> bool" where
  "is_hex c = (is_digit c \<or> (97 \<le> (of_char c :: nat) \<and> (of_char c :: nat) \<le> 102))"

definition marker_open :: string where
  "marker_open = ''<!-- bump-gate: sha=''"

definition marker_at :: "string \<Rightarrow> (string \<times> string \<times> string) option" where
  "marker_at s =
     (let h = takeWhile is_hex (drop (length marker_open) s);
          r = dropWhile is_hex (drop (length marker_open) s) in
      if starts_with marker_open s \<and> h \<noteq> [] \<and> starts_with '' failed=['' r
      then map_option (\<lambda>(text, rest). (h, text, rest)) (lazy_span [] (drop 9 r)) else None)"

lemma lazy_span_shorter: "lazy_span acc s = Some (t, r) \<Longrightarrow> length r < length s"
proof (induction acc s rule: lazy_span.induct)
  case (1 acc s)
  show ?case
  proof (cases "starts_with ''] -->'' s")
    case True
    then have "s \<noteq> []" by (cases s) auto
    with True 1(2) show ?thesis by (subst (asm) lazy_span.simps) (cases s; auto)
  next
    case False
    with 1(2) obtain c cs where "s = c # cs" "c \<noteq> CHR 0x0A" "lazy_span (c # acc) cs = Some (t, r)"
      by (subst (asm) lazy_span.simps) (auto split: list.splits if_splits)
    with 1(1) [of c cs] False show ?thesis by simp
  qed
qed

lemma marker_at_shorter: "marker_at s = Some (h, t, r) \<Longrightarrow> length r < length s"
proof -
  assume "marker_at s = Some (h, t, r)"
  then have "lazy_span [] (drop 9 (dropWhile is_hex (drop (length marker_open) s))) = Some (t, r)"
    by (auto simp: marker_at_def Let_def split: if_splits)
  from lazy_span_shorter [OF this] length_dropWhile_le [of is_hex "drop (length marker_open) s"]
  show ?thesis by simp
qed

text \<open>\<open>MARKER.finditer\<close>: the matches from left to right, none overlapping an earlier one.\<close>

function markers :: "string \<Rightarrow> (string \<times> string) list" where
  "markers s =
     (case marker_at s of
        Some (h, t, r) \<Rightarrow> (h, t) # markers r
      | None \<Rightarrow> (case s of [] \<Rightarrow> [] | _ # cs \<Rightarrow> markers cs))"
  by pat_completeness auto
termination
  by (relation "measure length") (auto dest: marker_at_shorter)

declare markers.simps [simp del]

definition sorted_names :: "json \<Rightarrow> string list result" where
  "sorted_names v =
     (case v of JList vs \<Rightarrow> bind_r (map_r (\<lambda>x. case x of JStr n \<Rightarrow> Inr n | _ \<Rightarrow> Inl Unmodelled) vs) (\<lambda>ns. Inr (sort ns))
      | _ \<Rightarrow> Inl Unmodelled)"

fun posted_in :: "string \<Rightarrow> string list \<Rightarrow> (string \<times> string) list \<Rightarrow> bool result" where
  "posted_in sha failing [] = Inr False"
| "posted_in sha failing ((h, t) # ms) =
     bind_r (bind_r (loads t) sorted_names) (\<lambda>ns.
       if h = sha \<and> ns = sort failing then Inr True else posted_in sha failing ms)"

definition already_posted :: "string \<Rightarrow> string \<Rightarrow> string list \<Rightarrow> bool result" where
  "already_posted text sha failing = posted_in sha failing (markers text)"

definition after_text :: "string list \<Rightarrow> string" where
  "after_text held =
     (if held \<noteq> [] then
        ''Nothing was merged or published. The gate is holding '' @ listing held @ '' in '' @
        code_name holds_path @ '' at the version that failed, taking those packages out of this pull '' @
        ''request, and gating the rest again on a new commit. A held version is not proposed again; a '' @
        ''newer upstream release retries it, and deleting its entry (in a pull request that also fixes '' @
        ''the recipe) releases it sooner.''
      else ''Nothing was merged or published. The next daily bump retries the gate; a fix to a failing '' @
        ''recipe goes in its own pull request, and this one can then be gated again by dispatching '' @
        ''`bump-upstream-gate.yml` on `bump/upstream-sources` with this pull request number.'')"

definition comment :: "verdict \<Rightarrow> string \<Rightarrow> string \<Rightarrow> string list \<Rightarrow> string" where
  "comment v sha run_url held =
     join nl ([''The bump gate did not merge this pull request at '' @ code_name (take 12 sha) @ ''.'', []] @
       map (\<lambda>r. ''- '' @ r) (v_reasons v) @
       [[], ''Build: '' @ run_url, [], after_text held, [], marker sha (v_failed v)]) @ nl"

text \<open>\<open>decide\<close>: exit 0, or exit 1 with the comment, the failed list and the packages to hold.\<close>

definition cli_decide ::
    "bool \<Rightarrow> string \<Rightarrow> string \<Rightarrow> string \<Rightarrow> string \<Rightarrow> string \<Rightarrow> string \<Rightarrow> (string \<times> string \<times> string) option" where
  "cli_decide holds_only bumped_raw build_list_raw failed_raw outcome sha run_url =
     (let v = (if holds_only then holds_only_verdict bumped_raw outcome
               else gate_verdict bumped_raw build_list_raw failed_raw outcome);
          held = (if holds_only then [] else holdable bumped_raw build_list_raw failed_raw outcome) in
      if v_ok v then None
      else Some (comment v sha run_url held, json_names (v_failed v), json_names held))"

subsection \<open>The trim\<close>

text \<open>\<open>git rm -r\<close> and \<open>git checkout base --\<close> of one recipe directory.\<close>

definition below :: "string \<Rightarrow> string \<Rightarrow> bool" where
  "below name path = starts_with (''packages/'' @ name @ ''/'') path"

definition restore_dir :: "rev_tree \<Rightarrow> string \<Rightarrow> rev_tree \<Rightarrow> rev_tree" where
  "restore_dir base_tree name files =
     filter (\<lambda>(p, _). \<not> below name p) files @ filter (\<lambda>(p, _). below name p) base_tree"

fun kept_entries :: "string list \<Rightarrow> (string, json) dict \<Rightarrow> json list \<Rightarrow> json list result" where
  "kept_entries held base_entries [] = Inr []"
| "kept_entries held base_entries (e # es) =
     bind_r (entry_name e) (\<lambda>n.
     bind_r (kept_entries held base_entries es) (\<lambda>rest. Inr (
       if n \<notin> set held then e # rest
       else (case map_of base_entries n of Some b \<Rightarrow> b # rest | None \<Rightarrow> rest))))"

definition hold_of :: "string \<Rightarrow> json \<Rightarrow> json result" where
  "hold_of run_url entry =
     bind_r (item entry ''version'') (\<lambda>v. Inr (JObj [(''version'', v), (''run'', JStr run_url)]))"

definition trim :: "rev_tree \<Rightarrow> rev_tree \<Rightarrow> string list \<Rightarrow> string \<Rightarrow> (rev_tree \<times> (string, json) dict) result" where
  "trim base_tree head_tree held run_url =
     bind_r (lock_at head_tree) (\<lambda>lock.
     case lock of
       None \<Rightarrow> Inl (ValueError (''head has no '' @ lock_path))
     | Some head_lock \<Rightarrow>
       bind_r (bind_r (lock_at base_tree) locks_by_name) (\<lambda>base_entries.
       bind_r (locks_by_name (Some head_lock)) (\<lambda>head_entries.
       bind_r (assert_r (ValueError ''cannot hold what the head lock does not carry'')
           (list_all (dict_has head_entries) held)) (\<lambda>_.
       bind_r (bind_r (get_or head_lock ''packages'' (JList [])) iterate) (\<lambda>es.
       bind_r (kept_entries held base_entries es) (\<lambda>packages.
       bind_r (items_of head_lock) (\<lambda>fields.
       let written = AList.update lock_path (dumps_indent (JObj (AList.update ''packages'' (JList packages) fields)) @ nl)
             head_tree;
           restored = fold (restore_dir base_tree) held written in
       bind_r (parse_holds (map_of restored holds_path)) (\<lambda>holds0.
       bind_r (fold_r (\<lambda>n holds. bind_r (dict_index head_entries n) (\<lambda>e. bind_r (hold_of run_url e) (\<lambda>h.
           Inr (AList.update n h holds)))) held holds0) (\<lambda>holds.
         Inr (AList.update holds_path (dump_holds holds) restored, holds))))))))))"

subsection \<open>Merging and holding\<close>

lemma verdict_reasons_empty:
  "verdict_reasons b l f r = [] \<longleftrightarrow>
     (\<exists>w ls. names_of b = Some w \<and> w \<noteq> [] \<and> names_of l = Some ls \<and> names_of f = Some [] \<and>
       r = ''success'' \<and> set w \<subseteq> set ls)"
proof -
  have "set_inter x y = [] \<and> set_minus x y = [] \<longleftrightarrow> x = []" for x y :: "string list"
    by (induction x) (auto simp: set_inter_def set_minus_def)
  moreover have "set_minus x y = [] \<longleftrightarrow> set x \<subseteq> set y" for x y :: "string list"
    by (auto simp: set_minus_def filter_empty_conv)
  ultimately show ?thesis
    by (cases "names_of b"; cases "names_of l"; cases "names_of f")
      (auto simp: verdict_reasons_def Let_def names_or_empty_def)
qed

lemma merge_iff:
  "cli_decide False b l f r sha url = None \<longleftrightarrow>
     (\<exists>w ls. names_of b = Some w \<and> w \<noteq> [] \<and> names_of l = Some ls \<and> names_of f = Some [] \<and>
       r = ''success'' \<and> set w \<subseteq> set ls)"
  unfolding verdict_reasons_empty [symmetric] by (simp add: cli_decide_def gate_verdict_def Let_def)

text \<open>
  C37: the gate merges a bump exactly when the build succeeded, reported both lists, selected
  every bumped package, of which there is one, and no package at all failed; a missing or
  malformed report never merges.
\<close>

theorem merges_exactly:
  "cli_decide False b l f r sha url = None \<longleftrightarrow>
     (\<exists>w ls. names_of b = Some w \<and> w \<noteq> [] \<and> names_of l = Some ls \<and> names_of f = Some [] \<and>
       r = ''success'' \<and> set w \<subseteq> set ls)"
  by (rule merge_iff)

text \<open>
  what is held is accounted for: the packages held are the failed ones, in order and once
  each, exactly when the build ran to a verdict, reported both lists, selected every bumped
  package and only bumped packages failed.
\<close>

theorem holdable_exact:
  "sorted (holdable b l f r) \<and> distinct (holdable b l f r) \<and>
   (\<forall>n. n \<in> set (holdable b l f r) \<longleftrightarrow>
     (\<exists>w ls fs. names_of b = Some w \<and> names_of l = Some ls \<and> names_of f = Some fs \<and>
       (r = ''success'' \<or> r = ''failure'') \<and> set w \<subseteq> set ls \<and> set fs \<subseteq> set w \<and> n \<in> set fs))"
proof (intro conjI allI)
  show "sorted (holdable b l f r)" "distinct (holdable b l f r)"
    by (simp_all add: holdable_def split: option.split)
  show "n \<in> set (holdable b l f r) \<longleftrightarrow>
     (\<exists>w ls fs. names_of b = Some w \<and> names_of l = Some ls \<and> names_of f = Some fs \<and>
       (r = ''success'' \<or> r = ''failure'') \<and> set w \<subseteq> set ls \<and> set fs \<subseteq> set w \<and> n \<in> set fs)" for n
    by (cases "names_of b"; cases "names_of l"; cases "names_of f") (auto simp: holdable_def)
qed

text \<open>
  when every bumped package failed and nothing else did, all of them are held: the trimmed
  pull request then changes no recipe and only records the holds.
\<close>

theorem all_may_be_held:
  assumes "names_of b = Some w" "names_of l = Some ls" "set w \<subseteq> set ls"
  shows "set (holdable b l b ''failure'') = set w"
  using assms by (auto simp: holdable_def)

lemma all_may_be_held_witness:
  "set (holdable (json_names [''a'']) (json_names [''a'']) (json_names [''a'']) ''failure'') = {''a''}"
proof -
  have "names_of (json_names [''a'']) = Some [''a'']" by code_simp
  from all_may_be_held [OF this this] show ?thesis by simp
qed

lemma disallowed_Nil:
  "disallowed paths = [] \<longleftrightarrow>
     (\<forall>p \<in> set paths. p = [] \<or> p \<in> {lock_path, holds_path, multimedia_report} \<or> starts_with ''packages/'' p)"
proof -
  have "disallowed paths = [] \<longleftrightarrow> set (disallowed paths) = {}" by simp
  also have "\<dots> \<longleftrightarrow> (\<forall>p \<in> set paths. p = [] \<or> p \<in> {lock_path, holds_path, multimedia_report} \<or>
      starts_with ''packages/'' p)" by (auto simp: disallowed_def)
  finally show ?thesis .
qed

lemma locks_by_name_distinct: "locks_by_name d = Inr locks \<Longrightarrow> distinct (map fst locks)"
  by (auto simp: locks_by_name_def bind_r_Inr)

lemma bumped_member:
  "n \<in> set (bumped base head paths) \<longleftrightarrow>
     n \<in> set (moved base head) \<or> (n \<in> fst ` set base \<and> \<not> dict_has head n) \<or> (\<exists>p \<in> set paths. recipe_of p = Some n)"
  unfolding bumped_def by (force simp: map_filter_def)

lemma entry_moved_iff:
  assumes "distinct (map fst head)"
  shows "n \<in> set (moved base head) \<longleftrightarrow>
    (\<exists>e. map_of head n = Some e \<and> (\<forall>b. map_of base n = Some b \<longrightarrow> \<not> py_eq b e))"
proof -
  have "n \<in> set (moved base head) \<longleftrightarrow>
      (\<exists>e. (n, e) \<in> set head \<and> (\<forall>b. map_of base n = Some b \<longrightarrow> \<not> py_eq b e))"
    unfolding moved_def by (force split: option.splits)
  then show ?thesis unfolding map_of_eq_Some_iff [OF assms] .
qed

text \<open>
  a plan that names packages carries nothing but recipes: every changed path is the lock,
  the holds, the closure report or below \<open>packages/\<close>; the entry of no package on the
  review-only list of the head moved; every package whose entry or recipe directory changed, or
  whose entry is gone, is named; and all of them are in the inventory of the head.
\<close>

theorem plan_carries_only_recipes:
  assumes "cli_plan base_tree head_tree paths = Inr (Packages ns)"
  shows "\<exists>head_lock base_lock head base.
    lock_at head_tree = Inr head_lock \<and> lock_at base_tree = Inr base_lock \<and>
    locks_by_name head_lock = Inr head \<and> locks_by_name base_lock = Inr base \<and>
    (\<forall>p \<in> set paths. p = [] \<or> p \<in> {lock_path, holds_path, multimedia_report} \<or> starts_with ''packages/'' p) \<and>
    (\<forall>n \<in> set (parse_review_only (map_of head_tree review_only_path)). \<forall>e. map_of head n = Some e \<longrightarrow>
       (\<exists>b. map_of base n = Some b \<and> py_eq b e)) \<and>
    ns \<noteq> [] \<and> set ns \<subseteq> fst ` set head \<and>
    (\<forall>n. n \<in> set ns \<longleftrightarrow>
       (\<exists>e. map_of head n = Some e \<and> (\<forall>b. map_of base n = Some b \<longrightarrow> \<not> py_eq b e)) \<or>
       (\<exists>p \<in> set paths. recipe_of p = Some n))"
proof -
  from assms have allowed: "disallowed paths = []" by (auto simp: cli_plan_def split: if_splits)
  from assms allowed obtain holds where "parse_holds (map_of head_tree holds_path) = Inr holds"
    by (auto simp: cli_plan_def split: sum.splits error.splits)
  with assms allowed obtain head_lock base_lock head base where
    locks: "lock_at head_tree = Inr head_lock" "lock_at base_tree = Inr base_lock"
      "locks_by_name head_lock = Inr head" "locks_by_name base_lock = Inr base"
    and guarded: "set_inter (moved base head) (parse_review_only (map_of head_tree review_only_path)) = []"
    and known: "\<forall>n \<in> set (bumped base head paths). dict_has head n"
    and ns: "ns = bumped base head paths" "ns \<noteq> []"
    by (auto simp: cli_plan_def bind_r_Inr Let_def split: if_splits)
  note d = locks_by_name_distinct [OF locks(3)]
  have "set (moved base head) \<inter> set (parse_review_only (map_of head_tree review_only_path)) = {}"
    using guarded by (metis list.set(1) set_ops(2))
  then have reviewed: "\<forall>n \<in> set (parse_review_only (map_of head_tree review_only_path)). \<forall>e. map_of head n = Some e \<longrightarrow>
       (\<exists>b. map_of base n = Some b \<and> py_eq b e)" using entry_moved_iff [OF d] by blast
  have sub: "set ns \<subseteq> fst ` set head" using known ns(1) by (auto simp: dict_has_iff)
  have iff: "\<forall>n. n \<in> set ns \<longleftrightarrow>
      (\<exists>e. map_of head n = Some e \<and> (\<forall>b. map_of base n = Some b \<longrightarrow> \<not> py_eq b e)) \<or>
      (\<exists>p \<in> set paths. recipe_of p = Some n)"
  proof
    fix n
    have "n \<in> set ns \<longleftrightarrow> n \<in> set (moved base head) \<or> (\<exists>p \<in> set paths. recipe_of p = Some n)"
      using known [rule_format, of n] bumped_member [of n base head paths] unfolding ns(1) by blast
    then show "n \<in> set ns \<longleftrightarrow>
        (\<exists>e. map_of head n = Some e \<and> (\<forall>b. map_of base n = Some b \<longrightarrow> \<not> py_eq b e)) \<or>
        (\<exists>p \<in> set paths. recipe_of p = Some n)" unfolding entry_moved_iff [OF d] .
  qed
  show ?thesis
    by (rule exI [of _ head_lock], rule exI [of _ base_lock], rule exI [of _ head], rule exI [of _ base],
        intro conjI locks allowed [unfolded disallowed_Nil] reviewed ns(2) sub iff)
qed

definition sample_entry :: "string \<Rightarrow> string \<Rightarrow> json" where
  "sample_entry n v = JObj [(''name'', JStr n), (''version'', JStr v)]"

definition sample_tree :: "(string \<times> string) list \<Rightarrow> rev_tree" where
  "sample_tree nvs = (lock_path, dumps_default (JObj [(''packages'', JList (map (\<lambda>(n, v). sample_entry n v) nvs))])) #
     map (\<lambda>(n, v). (''packages/'' @ n @ ''/'' @ n @ ''.spec'', v)) nvs"

lemma sample_plan:
  "cli_plan (sample_tree [(''a'', ''1''), (''b'', ''1'')]) (sample_tree [(''a'', ''2''), (''b'', ''1'')])
     [lock_path, ''packages/a/a.spec''] = Inr (Packages [''a''])"
  by code_simp

lemma plan_carries_only_recipes_witness:
  "\<exists>head. locks_by_name (Some (JObj [(''packages'', JList [sample_entry ''a'' ''2'', sample_entry ''b'' ''1''])])) =
     Inr head \<and> ''a'' \<in> fst ` set head"
proof -
  have "lock_at (sample_tree [(''a'', ''2''), (''b'', ''1'')]) =
      Inr (Some (JObj [(''packages'', JList [sample_entry ''a'' ''2'', sample_entry ''b'' ''1''])]))"
    by code_simp
  with plan_carries_only_recipes [OF sample_plan] show ?thesis by fastforce
qed

subsection \<open>What a trim leaves\<close>

lemma map_of_restore_fold:
  assumes "distinct (map fst files)" "distinct (map fst base_tree)"
  shows "distinct (map fst (fold (restore_dir base_tree) held files)) \<and>
    (\<forall>p. map_of (fold (restore_dir base_tree) held files) p =
      (if \<exists>n \<in> set held. below n p then map_of base_tree p else map_of files p))"
  using assms(1)
proof (induction held arbitrary: files)
  case Nil
  then show ?case by simp
next
  case (Cons n held)
  let ?f = "restore_dir base_tree n files"
  have "fst ` set (filter (\<lambda>(p, _). \<not> below n p) files) \<inter> fst ` set (filter (\<lambda>(p, _). below n p) base_tree) = {}"
    by auto
  then have d: "distinct (map fst ?f)" using Cons.prems assms(2)
    by (simp add: restore_dir_def distinct_keys_filter)
  have "map_of ?f p = (if below n p then map_of base_tree p else map_of files p)" for p
    using map_of_filter_keys [of "\<lambda>p. \<not> below n p" files p] map_of_filter_keys [of "below n" base_tree p]
    by (auto simp: restore_dir_def map_add_def split: option.split)
  with Cons.IH [OF d] show ?case by auto
qed

lemma map_of_rev_zip:
  "map_of (rev (zip (n # ns) (e # es))) m =
     (case map_of (rev (zip ns es)) m of Some v \<Rightarrow> Some v | None \<Rightarrow> if m = n then Some e else None)"
  by (auto simp: map_add_def split: option.split)

lemma kept_entries_map:
  assumes base: "\<And>n b. map_of base_entries n = Some b \<Longrightarrow> entry_name b = Inr n"
  shows "map_r entry_name es = Inr ns \<Longrightarrow> kept_entries held base_entries es = Inr packages \<Longrightarrow>
    \<exists>ns'. map_r entry_name packages = Inr ns' \<and>
      (\<forall>m. map_of (rev (zip ns' packages)) m =
        (if m \<in> set held then if m \<in> set ns then map_of base_entries m else None
         else map_of (rev (zip ns es)) m))"
proof (induction es arbitrary: ns packages)
  case Nil
  then show ?case by auto
next
  case (Cons e es)
  from Cons.prems(1) obtain n ms where n: "entry_name e = Inr n" "map_r entry_name es = Inr ms" "ns = n # ms"
    by (auto simp: bind_r_Inr)
  from Cons.prems(2) n(1) obtain rest where rest: "kept_entries held base_entries es = Inr rest"
    "packages = (if n \<notin> set held then e # rest
       else (case map_of base_entries n of Some b \<Rightarrow> b # rest | None \<Rightarrow> rest))"
    by (auto simp: bind_r_Inr)
  from Cons.IH [OF n(2) rest(1)] obtain ns' where IH: "map_r entry_name rest = Inr ns'"
    "\<And>m. map_of (rev (zip ns' rest)) m =
        (if m \<in> set held then if m \<in> set ms then map_of base_entries m else None
         else map_of (rev (zip ms es)) m)" by blast
  show ?case
  proof (cases "n \<in> set held")
    case False
    then have "map_r entry_name packages = Inr (n # ns')" using n rest(2) IH(1) by simp
    moreover have "map_of (rev (zip (n # ns') (e # rest))) m =
        (if m \<in> set held then if m \<in> set ns then map_of base_entries m else None
         else map_of (rev (zip ns (e # es))) m)" for m
      unfolding n(3) map_of_rev_zip IH(2) using False by (auto split: option.split)
    ultimately show ?thesis using rest(2) False by auto
  next
    case True
    show ?thesis
    proof (cases "map_of base_entries n")
      case None
      have "map_of (rev (zip ns' rest)) m =
        (if m \<in> set held then if m \<in> set ns then map_of base_entries m else None
         else map_of (rev (zip ns (e # es))) m)" for m
        unfolding n(3) map_of_rev_zip IH(2) using True None by (auto split: option.split)
      with IH(1) rest(2) True None show ?thesis by auto
    next
      case (Some b)
      then have "map_r entry_name packages = Inr (n # ns')" using base [OF Some] rest(2) IH(1) True by simp
      moreover have "map_of (rev (zip (n # ns') (b # rest))) m =
        (if m \<in> set held then if m \<in> set ns then map_of base_entries m else None
         else map_of (rev (zip ns (e # es))) m)" for m
        unfolding n(3) map_of_rev_zip IH(2) using True Some by (auto split: option.split)
      ultimately show ?thesis using rest(2) True Some by auto
    qed
  qed
qed

lemma locks_by_name_entries:
  assumes "locks_by_name d = Inr locks" "map_of locks n = Some e"
  shows "entry_name e = Inr n \<and> (\<exists>es. lock_entries d = Inr es \<and> e \<in> set es)"
proof -
  from assms(1) obtain es ns where es: "lock_entries d = Inr es" "map_r entry_name es = Inr ns"
    "locks = dict_of_pairs (zip ns es)" by (auto simp: locks_by_name_def bind_r_Inr)
  from assms(2) es(3) have "(n, e) \<in> set (zip ns es)"
    using map_of_SomeD by (fastforce simp: map_of_dict_of_pairs)
  then obtain i where "i < length ns" "i < length es" "ns ! i = n" "es ! i = e" by (auto simp: set_zip)
  with es(1,2) show ?thesis by (auto simp: map_r_Inr list_all2_conv_all_nth)
qed

lemma paths_outside [simp]: "\<not> below n lock_path" "\<not> below n holds_path" "lock_path \<noteq> holds_path"
  by (simp_all add: below_def lock_path_def holds_path_def)

lemma lock_at_Some: "lock_at t = Inr (Some d) \<Longrightarrow> wf_json d"
  by (auto simp: lock_at_def bind_r_Inr dest: loads_wf split: option.splits if_splits)

lemma wf_json_update: "wf_json (JObj d) \<Longrightarrow> wf_json v \<Longrightarrow> wf_json (JObj (AList.update k v d))"
proof -
  assume "wf_json (JObj d)" "wf_json v"
  moreover have "list_all (\<lambda>p. wf_json (snd p)) d \<Longrightarrow> wf_json v \<Longrightarrow> list_all (\<lambda>p. wf_json (snd p)) (AList.update k v d)"
    by (induction d) auto
  ultimately show ?thesis by simp
qed

lemma packages_wf: "lock_entries (Some d) = Inr es \<Longrightarrow> wf_json d \<Longrightarrow> list_all wf_json es"
proof -
  assume es: "lock_entries (Some d) = Inr es" and d: "wf_json d"
  show ?thesis
  proof (cases "truthy d")
    case True
    with es obtain kvs where "d = JObj kvs" "iterate (dict_get kvs ''packages'' (JList [])) = Inr es"
      by (auto simp: lock_entries_def get_or_def dict_get_def bind_r_Inr split: json.splits option.splits)
    moreover from this d have "wf_json (dict_get kvs ''packages'' (JList []))"
      by (auto simp: dict_get_def list_all_iff split: option.split dest: map_of_SomeD)
    ultimately show ?thesis
      by (auto simp: iterate_def list_all_iff split: json.splits)
  qed (use es in \<open>auto simp: lock_entries_def\<close>)
qed

lemma kept_entries_wf:
  assumes "\<And>n b. map_of base_entries n = Some b \<Longrightarrow> wf_json b"
  shows "kept_entries held base_entries es = Inr packages \<Longrightarrow> list_all wf_json es \<Longrightarrow> list_all wf_json packages"
  by (induction es arbitrary: packages)
    (auto simp: bind_r_Inr assms split: if_splits option.splits)

lemma hold_fold:
  "fold_r (\<lambda>n holds. bind_r (dict_index head n) (\<lambda>e. bind_r (hold_of url e) (\<lambda>h. Inr (AList.update n h holds)))) held hs = Inr hs' \<Longrightarrow>
     (\<forall>n \<in> set held. \<exists>e v. map_of head n = Some e \<and> item e ''version'' = Inr v \<and>
        map_of hs' n = Some (JObj [(''version'', v), (''run'', JStr url)])) \<and>
     (\<forall>n. n \<notin> set held \<longrightarrow> map_of hs' n = map_of hs n)"
proof (induction held arbitrary: hs)
  case Nil
  then show ?case by simp
next
  case (Cons n held)
  from Cons.prems obtain e v where e: "map_of head n = Some e" "item e ''version'' = Inr v"
    and rest: "fold_r (\<lambda>n holds. bind_r (dict_index head n) (\<lambda>e. bind_r (hold_of url e) (\<lambda>h. Inr (AList.update n h holds))))
      held (AList.update n (JObj [(''version'', v), (''run'', JStr url)]) hs) = Inr hs'"
    by (auto simp: bind_r_Inr dict_index_def hold_of_def split: option.splits)
  from Cons.IH [OF rest] e show ?case by (cases "n \<in> set held") auto
qed

lemma moved_kept:
  assumes "distinct (map fst head)" "distinct (map fst after)"
    and after: "\<And>n. map_of after n = (if n \<in> set held then map_of base n else map_of head n)"
    and "\<And>n b. map_of base n = Some b \<Longrightarrow> wf_json b"
  shows "set (moved base after) = set (moved base head) - set held"
proof (rule set_eqI)
  fix n
  show "n \<in> set (moved base after) \<longleftrightarrow> n \<in> set (moved base head) - set held"
    unfolding Diff_iff entry_moved_iff [OF assms(1)] entry_moved_iff [OF assms(2)] after
    using assms(4) [of n] py_eq_refl by auto
qed

text \<open>
  a trim leaves a strict part of the bump: the lock it writes reads back with the base entry
  of every held package (none if the base has none) and the head entry of every other one, so
  that the packages whose entry still differs from the base are the ones that differed before,
  less the held; the files below the held recipes are those of the base, every other file but
  the holds is that of the head; and each held package is recorded with the version that failed.
\<close>

theorem trim_takes_out_held:
  assumes "trim base_tree head_tree held url = Inr (files, holds)"
    and "distinct (map fst base_tree)" and "distinct (map fst head_tree)"
  shows "\<exists>head_lock base_lock head base new after.
    lock_at head_tree = Inr (Some head_lock) \<and> lock_at base_tree = Inr base_lock \<and>
    locks_by_name (Some head_lock) = Inr head \<and> locks_by_name base_lock = Inr base \<and>
    lock_at files = Inr (Some new) \<and> locks_by_name (Some new) = Inr after \<and>
    (\<forall>n. map_of after n = (if n \<in> set held then map_of base n else map_of head n)) \<and>
    set (moved base after) = set (moved base head) - set held \<and>
    (\<forall>p. p \<notin> {lock_path, holds_path} \<longrightarrow>
      map_of files p = (if \<exists>n \<in> set held. below n p then map_of base_tree p else map_of head_tree p)) \<and>
    map_of files holds_path = Some (dump_holds holds) \<and>
    (\<forall>n \<in> set held. \<exists>e v. map_of head n = Some e \<and> item e ''version'' = Inr v \<and>
      map_of holds n = Some (JObj [(''version'', v), (''run'', JStr url)]))"
proof -
  from assms(1) obtain head_lock base_lock base head es packages fields holds0 where
    hl: "lock_at head_tree = Inr (Some head_lock)" and bl: "lock_at base_tree = Inr base_lock"
    and base: "locks_by_name base_lock = Inr base" and head: "locks_by_name (Some head_lock) = Inr head"
    and held: "list_all (dict_has head) held"
    and es: "bind_r (get_or head_lock ''packages'' (JList [])) iterate = Inr es"
    and packages: "kept_entries held base es = Inr packages"
    and fields: "items_of head_lock = Inr fields"
    and files: "files = AList.update holds_path (dump_holds holds) (fold (restore_dir base_tree) held
      (AList.update lock_path (dumps_indent (JObj (AList.update ''packages'' (JList packages) fields)) @ nl) head_tree))"
    and holds: "fold_r (\<lambda>n holds. bind_r (dict_index head n) (\<lambda>e. bind_r (hold_of url e) (\<lambda>h. Inr (AList.update n h holds))))
      held holds0 = Inr holds"
    unfolding trim_def by (auto simp: bind_r_Inr Let_def split: option.splits)
  let ?doc = "JObj (AList.update ''packages'' (JList packages) fields)"
  from fields have d: "head_lock = JObj fields" by (auto simp: items_of_def split: json.splits)
  have pk: "lock_entries (Some head_lock) = Inr es"
    using es d by (cases fields) (auto simp: lock_entries_def get_or_def iterate_def)
  have wf: "wf_json head_lock" using hl by (rule lock_at_Some)
  have bwf: "wf_json b" and bname: "entry_name b = Inr n" if b: "map_of base n = Some b" for n b
  proof -
    from locks_by_name_entries [OF base b] obtain bs where bs: "lock_entries base_lock = Inr bs" "b \<in> set bs"
      and "entry_name b = Inr n" by blast
    then show "entry_name b = Inr n" by simp
    from bs obtain l where "base_lock = Some l" by (auto simp: lock_entries_def split: option.splits)
    with bs bl show "wf_json b" using packages_wf [of l bs] lock_at_Some [of base_tree l]
      by (auto simp: list_all_iff)
  qed
  have "list_all wf_json packages"
    using kept_entries_wf [OF bwf packages packages_wf [OF pk wf]] .
  then have docwf: "wf_json ?doc" using wf unfolding d by (intro wf_json_update) simp_all
  have df: "distinct (map fst (AList.update lock_path (dumps_indent ?doc @ nl) head_tree))"
    using assms(3) by simp
  note restored = map_of_restore_fold [OF df assms(2), of held]
  have "map_of files lock_path = Some (dumps_indent ?doc @ nl)"
    using restored by (auto simp: files)
  then have new: "lock_at files = Inr (Some ?doc)"
    using loads_dumps_indent [OF docwf] by (simp add: lock_at_def nl_def)
  from head pk obtain ns where ns: "map_r entry_name es = Inr ns" "head = dict_of_pairs (zip ns es)"
    by (auto simp: locks_by_name_def bind_r_Inr)
  from kept_entries_map [OF bname ns(1) packages] obtain ns' where ns': "map_r entry_name packages = Inr ns'"
    "\<And>m. map_of (rev (zip ns' packages)) m = (if m \<in> set held then if m \<in> set ns then map_of base m else None
       else map_of (rev (zip ns es)) m)" by blast
  have "lock_entries (Some ?doc) = Inr packages"
    by (cases fields) (auto simp: lock_entries_def get_or_def iterate_def)
  with ns'(1) have after: "locks_by_name (Some ?doc) = Inr (dict_of_pairs (zip ns' packages))"
    by (simp add: locks_by_name_def)
  have "length ns = length es" using ns(1) by (auto simp: map_r_Inr dest: list_all2_lengthD)
  then have "fst ` set head = set ns"
    unfolding ns(2) keys_dict_of_pairs using map_fst_zip [of ns es] by (metis list.set_map)
  with held have "set held \<subseteq> set ns" by (auto simp: list_all_iff dict_has_iff)
  then have afters: "map_of (dict_of_pairs (zip ns' packages)) m = (if m \<in> set held then map_of base m else map_of head m)" for m
    unfolding ns(2) map_of_dict_of_pairs ns'(2) by auto
  have mv: "set (moved base (dict_of_pairs (zip ns' packages))) = set (moved base head) - set held"
    using locks_by_name_distinct [OF head] distinct_dict_of_pairs afters bwf by (rule moved_kept)
  have rest: "\<forall>p. p \<notin> {lock_path, holds_path} \<longrightarrow>
      map_of files p = (if \<exists>n \<in> set held. below n p then map_of base_tree p else map_of head_tree p)"
    using restored by (auto simp: files)
  have hp: "map_of files holds_path = Some (dump_holds holds)" by (simp add: files)
  show ?thesis
    by (rule exI [of _ head_lock], rule exI [of _ base_lock], rule exI [of _ head], rule exI [of _ base],
        rule exI [of _ ?doc], rule exI [of _ "dict_of_pairs (zip ns' packages)"],
        intro conjI hl bl head base new after mv rest hp allI afters)
      (use hold_fold [OF holds] in blast)
qed

lemma trim_takes_out_held_witness:
  "\<exists>files holds new after. trim (sample_tree [(''a'', ''1''), (''b'', ''1'')]) (sample_tree [(''a'', ''2''), (''b'', ''2'')])
      [''a''] ''url'' = Inr (files, holds) \<and>
    lock_at files = Inr (Some new) \<and> locks_by_name (Some new) = Inr after \<and>
    map_of files ''packages/a/a.spec'' = Some ''1'' \<and> map_of files ''packages/b/b.spec'' = Some ''2''"
proof -
  let ?b = "sample_tree [(''a'', ''1''), (''b'', ''1'')]" and ?h = "sample_tree [(''a'', ''2''), (''b'', ''2'')]"
  have "(case trim ?b ?h [''a''] ''url'' of Inr _ \<Rightarrow> True | Inl _ \<Rightarrow> False)" by code_simp
  then obtain files holds where t: "trim ?b ?h [''a''] ''url'' = Inr (files, holds)"
    by (auto split: sum.splits)
  have d: "distinct (map fst ?b)" "distinct (map fst ?h)" by code_simp+
  have "below ''a'' ''packages/a/a.spec''" "\<not> below ''a'' ''packages/b/b.spec''" by code_simp+
  moreover have "map_of ?b ''packages/a/a.spec'' = Some ''1''" "map_of ?h ''packages/b/b.spec'' = Some ''2''"
    "''packages/a/a.spec'' \<notin> {lock_path, holds_path}" "''packages/b/b.spec'' \<notin> {lock_path, holds_path}" by code_simp+
  ultimately show ?thesis using trim_takes_out_held [OF t d] t by auto
qed

subsection \<open>A verdict is posted once\<close>

lemma lazy_span_plain:
  "CHR '']'' \<notin> set x \<Longrightarrow> CHR 0x0A \<notin> set x \<Longrightarrow>
     lazy_span acc (x @ ''] -->'' @ r) = Some (''['' @ rev acc @ x @ '']'', r)"
proof (induction x arbitrary: acc)
  case Nil
  then show ?case by (simp add: lazy_span.simps)
next
  case (Cons c x)
  have "lazy_span (c # acc) (x @ ''] -->'' @ r) = Some (''['' @ rev (c # acc) @ x @ '']'', r)"
    using Cons by simp
  with Cons.prems show ?case by (subst lazy_span.simps) auto
qed

lemma markers_skip: "CHR ''<'' \<notin> set pre \<Longrightarrow> markers (pre @ s) = markers s"
proof (induction pre)
  case (Cons c pre)
  then have "marker_at ((c # pre) @ s) = None" by (auto simp: marker_at_def marker_open_def)
  with Cons show ?case by (subst markers.simps) auto
qed simp

lemma plain_name_chars: "plain_name n \<Longrightarrow> CHR '']'' \<notin> set n \<and> CHR 0x0A \<notin> set n \<and> CHR ''<'' \<notin> set n"
  by (induction n) (auto simp: plain_name_def)

lemma compact_names_plain:
  assumes "list_all plain_name ns"
  obtains x where "dumps '','' '':'' (JList (map JStr ns)) = ''['' @ x @ '']''"
    and "CHR '']'' \<notin> set x" and "CHR 0x0A \<notin> set x"
proof -
  have "set (join sep qs) \<subseteq> set sep \<union> \<Union> (set ` set qs)" for sep qs
    by (induction sep qs rule: join.induct) auto
  from this [of "'',''" "map quote_str ns"]
  have "set (join '','' (map quote_str ns)) \<subseteq> {CHR '',''} \<union> \<Union> (set ` quote_str ` set ns)" by simp
  moreover have "CHR '']'' \<notin> set (quote_str n) \<and> CHR 0x0A \<notin> set (quote_str n)" if "n \<in> set ns" for n
  proof -
    have "plain_name n" using assms that by (simp add: list_all_iff)
    from quote_plain [OF this] plain_name_chars [OF this] show ?thesis by simp
  qed
  ultimately have "CHR '']'' \<notin> set (join '','' (map quote_str ns))" "CHR 0x0A \<notin> set (join '','' (map quote_str ns))"
    by fastforce+
  then show ?thesis by (intro that [of "join '','' (map quote_str ns)"]) (simp_all add: comp_def)
qed

lemma markers_marker:
  assumes "sha \<noteq> []" "list_all is_hex sha" "list_all plain_name ns" "CHR ''<'' \<notin> set post"
  shows "markers (marker sha ns @ post) = [(sha, dumps '','' '':'' (JList (map JStr (sort ns))))]"
proof -
  have "list_all plain_name (sort ns)" using assms(3) by (simp add: list_all_iff)
  then obtain x where x: "dumps '','' '':'' (JList (map JStr (sort ns))) = ''['' @ x @ '']''"
    "CHR '']'' \<notin> set x" "CHR 0x0A \<notin> set x" by (rule compact_names_plain)
  have m: "marker sha ns @ post = marker_open @ sha @ '' failed=['' @ x @ ''] -->'' @ post"
    unfolding marker_def x(1) by (simp add: marker_open_def)
  have "takeWhile is_hex (sha @ '' failed=['' @ x @ ''] -->'' @ post) = sha"
    "dropWhile is_hex (sha @ '' failed=['' @ x @ ''] -->'' @ post) = '' failed=['' @ x @ ''] -->'' @ post"
    using assms(2) by (auto simp: takeWhile_append dropWhile_append list_all_iff is_hex_def is_digit_def)
  then have "marker_at (marker sha ns @ post) = Some (sha, ''['' @ x @ '']'', post)"
    unfolding m marker_at_def using assms(1) lazy_span_plain [OF x(2,3), of "[]" post] by (simp add: Let_def)
  moreover have "markers post = []"
    using markers_skip [OF assms(4), of "[]"] by (simp add: markers.simps [of "[]"] marker_at_def marker_open_def)
  ultimately show ?thesis using x(1) by (subst markers.simps) simp
qed

text \<open>
  a verdict is posted once: the comment written for a verdict is recognised as posted for
  the same commit and the same failed packages, in any order, and for no other.
\<close>

theorem posted_once:
  assumes "sha \<noteq> []" "list_all is_hex sha" "list_all plain_name (v_failed v @ held)"
    and "CHR ''<'' \<notin> set run_url" and "\<And>r. r \<in> set (v_reasons v) \<Longrightarrow> CHR ''<'' \<notin> set r"
  shows "already_posted (comment v sha run_url held) sha' failed' =
    Inr (sha' = sha \<and> sort failed' = sort (v_failed v))"
proof -
  let ?ls = "[''The bump gate did not merge this pull request at '' @ code_name (take 12 sha) @ ''.'', []] @
      map (\<lambda>r. ''- '' @ r) (v_reasons v) @ [[], ''Build: '' @ run_url, [], after_text held]"
  have c: "comment v sha run_url held = (join nl ?ls @ nl @ nl) @ marker sha (v_failed v) @ nl"
    using join_two [of ?ls nl "[]" "marker sha (v_failed v)"] by (simp add: comment_def)
  have not_hex: "\<not> is_hex (CHR ''<'')" by code_simp
  have no: "CHR ''<'' \<notin> set (take 12 sha)"
    using assms(2) in_set_takeD [of _ 12 sha] not_hex unfolding list_all_iff by blast
  have held: "CHR ''<'' \<notin> set n" if "n \<in> set held" for n
    using assms(3) that plain_name_chars [of n] by (simp add: list_all_iff)
  have "CHR ''<'' \<notin> set (listing held)"
    unfolding listing_def by (rule no_angle_join) (use held in \<open>auto simp: code_name_def\<close>)
  then have "CHR ''<'' \<notin> set (after_text held)"
    by (auto simp: after_text_def code_name_def holds_path_def)
  then have "CHR ''<'' \<notin> set (join nl ?ls)"
    using no assms(4,5) by (intro no_angle_join) (auto simp: nl_def code_name_def)
  then have pre: "CHR ''<'' \<notin> set (join nl ?ls @ nl @ nl)" by (simp add: nl_def)
  have "CHR ''<'' \<notin> set nl" "list_all plain_name (v_failed v)" using assms(3) by (simp_all add: nl_def)
  note last = markers_marker [OF assms(1,2) this(2,1)]
  have "markers (comment v sha run_url held) = [(sha, dumps '','' '':'' (JList (map JStr (sort (v_failed v)))))]"
    unfolding c markers_skip [OF pre] by (rule last)
  moreover have "loads (dumps '','' '':'' (JList (map JStr (sort (v_failed v))))) = Inr (JList (map JStr (sort (v_failed v))))"
    by (rule loads_dumps_compact) (simp add: list_all_iff)
  moreover have "map_r (\<lambda>x. case x of JStr n \<Rightarrow> Inr n | _ \<Rightarrow> Inl Unmodelled) (map JStr ns) = Inr ns" for ns
    by (induction ns) auto
  moreover have "sort (sort (v_failed v)) = sort (v_failed v)" by (simp add: sort_key_id_if_sorted)
  ultimately show ?thesis by (auto simp: already_posted_def sorted_names_def)
qed

lemma posted_once_witness:
  "already_posted (comment \<lparr>v_ok = False, v_failed = [''b'', ''a''], v_reasons = [''x'']\<rparr> ''0a1'' ''url'' []) ''0a1''
     [''a'', ''b''] = Inr True"
proof -
  have "list_all is_hex ''0a1''" "list_all plain_name [''b'', ''a'']" "sort [''a'', ''b''] = sort [''b'', ''a'']"
    by code_simp+
  then show ?thesis
    using posted_once [of "''0a1''" "\<lparr>v_ok = False, v_failed = [''b'', ''a''], v_reasons = [''x'']\<rparr>" "[]" "''url''"
        "''0a1''" "[''a'', ''b'']"] by simp
qed

end
