(* ===== verification/Rebuild_Matrix.thy ===== *)
theory Rebuild_Matrix
  imports Rebuild_Plan Build_Waves Factory_State
begin

section \<open>One run of the planner (\<open>rebuild_matrix.py\<close>)\<close>

text \<open>
  \<open>main\<close> composes the parts: it compares the inventory with the recorded state or with the
  diff, asks the plan what to build, solves the waves, gives every build a reason and writes the
  outputs of the job. What it reads from outside is the record \<open>matrix_env\<close>: the parsed
  inventory and listings (None where the read failed), the state label, the extraction of the
  build graph, what git printed, and the environment variables.
\<close>

subsection \<open>What changed since the base commit\<close>

definition hex40 :: "string \<Rightarrow> bool" where
  "hex40 s = (length s = 40 \<and> list_all (\<lambda>c. is_digit c \<or> c \<in> set ''abcdef'') s)"

text \<open>\<open>^packages/([^/]+)/\<close>.\<close>

definition recipe_path :: "string \<Rightarrow> string option" where
  "recipe_path path =
     (let r = drop 9 path; n = takeWhile (\<lambda>c. c \<noteq> CHR ''/'') r in
      if starts_with ''packages/'' path \<and> n \<noteq> [] \<and> length n < length r then Some n else None)"

definition inventory_path :: string where
  "inventory_path = ''config/upstream-sources.json''"

text \<open>The inventory at the base, None when it does not exist there or does not parse.\<close>

definition changed_inventory :: "entry list option \<Rightarrow> entry list \<Rightarrow> string list \<Rightarrow> string list" where
  "changed_inventory before_entries after_entries paths =
     (if inventory_path \<notin> set paths then []
      else case before_entries of None \<Rightarrow> [] | Some b \<Rightarrow> changed_entries b after_entries)"

text \<open>The paths are None when git cannot diff from the base.\<close>

definition changed_recipes ::
    "string \<Rightarrow> string list option \<Rightarrow> entry list option \<Rightarrow> entry list \<Rightarrow> string list" where
  "changed_recipes base_sha diff before_entries after_entries =
     (if \<not> hex40 base_sha \<or> list_all (\<lambda>c. c = CHR ''0'') base_sha then []
      else case diff of
        None \<Rightarrow> []
      | Some paths \<Rightarrow>
          set_union (remdups (List.map_filter recipe_path paths))
            (changed_inventory before_entries after_entries paths))"

subsection \<open>The baseurl of the Hummingbird repository file\<close>

text \<open>\<open>^baseurl=(\S+)\<close> in multi-line mode, and \<open>rstrip("/") + "/"\<close>.\<close>

fun first_baseurl :: "string list \<Rightarrow> string option" where
  "first_baseurl [] = None"
| "first_baseurl (l # ls) =
     (let v = takeWhile (\<lambda>c. \<not> is_space c) (drop 8 l) in
      if starts_with ''baseurl='' l \<and> v \<noteq> [] then Some v else first_baseurl ls)"

definition hummingbird_baseurl :: "string \<Rightarrow> string result" where
  "hummingbird_baseurl text =
     (case first_baseurl (split_on (CHR 0x0A) text) of
        None \<Rightarrow> Inl (ValueError ''has no baseurl'')
      | Some v \<Rightarrow> Inr (rev (dropWhile (\<lambda>c. c = CHR ''/'') (rev v)) @ ''/''))"

subsection \<open>The run\<close>

record matrix_env =
  m_locks :: "entry list"
  m_only :: "string list"
  m_owned :: "string list"
  m_full :: bool
  m_repo :: string
  m_event :: string
  m_primary :: "(string \<times> xml) option"
  m_external :: "xml option"
  m_labels :: "string option"
  m_rows :: "row list option"
  m_base_sha :: string
  m_diff :: "string list option"
  m_before :: "entry list option"
  m_specs :: specs

record matrix_run =
  r_mode :: string
  r_build :: "entry list"
  r_reasons :: "(string, string) dict"
  r_solved :: "(string, nat) dict option"
  r_held :: "string list"
  r_total :: nat
  r_unordered :: "string list list"
  r_outputs :: "(string, string) dict"

text \<open>\<open>load_state\<close>; a missing label file is no state.\<close>

definition load_state :: "string option \<Rightarrow> fstate option result" where
  "load_state labels_file =
     (case labels_file of
        None \<Rightarrow> Inr None
      | Some text \<Rightarrow>
          let t = strip text in bind_r (loads (if t = [] then ''null'' else t)) parse_labels)"

text \<open>The listing of the factory repository, when one is named and could be read.\<close>

definition read_primary :: "matrix_env \<Rightarrow> (string \<times> xml) option" where
  "read_primary env =
     (if m_repo env = [] then None
      else case m_primary env of
        Some (text, root) \<Rightarrow> if text = [] then None else Some (text, root)
      | None \<Rightarrow> None)"

definition load_graph :: "matrix_env \<Rightarrow> edges option" where
  "load_graph env =
     map_option (\<lambda>rows. snd (load rows (map_option (\<lambda>(_, root). provides_by_source root) (read_primary env))))
       (m_rows env)"

definition find_dependents :: "matrix_env \<Rightarrow> edges option \<Rightarrow> depmap" where
  "find_dependents env es =
     (if m_full env then []
      else case es of
        Some e \<Rightarrow> dependents e
      | None \<Rightarrow> (case read_primary env of None \<Rightarrow> [] | Some (_, root) \<Rightarrow> dependents_from_primary root))"

text \<open>Stale builds, which cannot be told without the Hummingbird listing.\<close>

definition find_stale :: "matrix_env \<Rightarrow> (string, string list) dict" where
  "find_stale env =
     (if m_full env then []
      else case (read_primary env, m_external env) of
        (Some (_, root), Some external) \<Rightarrow>
          stale_from_primary root (provides_from_primary excluded_external external)
      | _ \<Rightarrow> [])"

text \<open>What changed, what is held, whether the state was trusted, and the name of the mode.\<close>

definition detect_changes ::
    "matrix_env \<Rightarrow> digests \<Rightarrow> (string list \<times> string list \<times> bool) result" where
  "detect_changes env digests =
     bind_r (if m_repo env = [] then Inr None else load_state (m_labels env)) (\<lambda>state.
       Inr (case state of
         Some s \<Rightarrow>
           (case state_changed s digests (m_event env \<noteq> ''push'') of (changed, held) \<Rightarrow> (changed, held, True))
       | None \<Rightarrow>
           (changed_recipes (m_base_sha env) (m_diff env) (m_before env) (m_locks env), [], False)))"

text \<open>Why a package is built.\<close>

definition reason_for ::
    "matrix_env \<Rightarrow> (string, string list) dict \<Rightarrow> string list \<Rightarrow> string list \<Rightarrow> string list \<Rightarrow>
     edges option \<Rightarrow> string \<Rightarrow> string" where
  "reason_for env stale changed direct building es name =
     (if m_full env then ''full rebuild''
      else if dict_has stale name then
        ''published build requires '' @ join '', '' (take 3 (sorted_set (dict_get stale name []))) @
        '', which nothing provides''
      else if name \<in> set changed then ''changed since the published build''
      else if name \<notin> set direct then
        (let providers = (case es of None \<Rightarrow> []
             | Some e \<Rightarrow> if e = [] then [] else sorted_set (set_inter (dict_get e name []) building)) in
         if providers \<noteq> [] then ''BuildRequires '' @ join '', '' providers
         else ''depends on something being rebuilt'')
      else ''not published at this version'')"

definition matrix_outputs ::
    "entry list \<Rightarrow> (string, nat) dict option \<Rightarrow> string list \<Rightarrow> string list \<Rightarrow> published \<Rightarrow> string list \<Rightarrow>
     string list \<Rightarrow> string list \<Rightarrow> (string, string) dict" where
  "matrix_outputs build solved changed stale published owned names held =
     stage_outputs build solved @
     [(''cacheable'', json_names (cacheable build changed stale)),
      (''prune_sources'', json_names (prunable_sources published owned)),
      (''trusted'', json_names (sorted_set (set_minus (set_minus names (map ename build)) held))),
      (''container_lane'', json_names (sorted_set (map ename
         (filter (\<lambda>e. field e ''build_lane'' = Some (JStr ''container'')) build))))]"

definition solve_waves ::
    "edges option \<Rightarrow> string list \<Rightarrow> entry list \<Rightarrow> ((string, nat) dict option \<times> string list list) result" where
  "solve_waves es building packages =
     (case es of
        None \<Rightarrow> Inr (None, [])
      | Some e \<Rightarrow> bind_r (waves building e (dict_of_pairs (map (\<lambda>p. (ename p, entry_stage p)) packages)))
          (\<lambda>(wave, unordered). Inr (Some wave, unordered)))"

definition inputs_of :: "matrix_env \<Rightarrow> string list \<Rightarrow> bool \<Rightarrow> plan_inputs" where
  "inputs_of env changed trust =
     \<lparr>published_nevr = (case read_primary env of None \<Rightarrow> [] | Some (text, _) \<Rightarrow> published_from_primary text),
      changed_names = changed, full_run = m_full env, factory_repo = m_repo env,
      stale_names = map fst (find_stale env), trust_state = trust\<rparr>"

definition rebuild_matrix :: "matrix_env \<Rightarrow> digests \<Rightarrow> matrix_run result" where
  "rebuild_matrix env all_digests =
     bind_r (restrict_inventory (m_locks env) (m_only env)) (\<lambda>packages.
     let names = map ename packages;
         digests = filter (\<lambda>(n, _). n \<in> set names) all_digests in
     bind_r (detect_changes env digests) (\<lambda>(changed, held, trust).
     let es = load_graph env; stale = find_stale env; p = inputs_of env changed trust in
     bind_r (plan packages (m_specs env) p (find_dependents env es)
         (if es \<noteq> None then Some 1 else None)) (\<lambda>build.
     bind_r (plan packages (m_specs env) p [] None) (\<lambda>direct.
     let building = map ename build in
     bind_r (solve_waves es building packages) (\<lambda>(solved, unordered).
     let late = overflow build solved in
     if late \<noteq> [] then Inl (SystemExit (''no job exists for wave '' @ show_nat stages_count @
       '' or later; the BuildRequires chain through '' @ join '', '' late @ '' is deeper than rebuild-rpms.yml'' @
       [CHR 0x27] @ ''s '' @ show_nat stages_count @ '' waves''))
     else Inr
       \<lparr>r_mode = (if trust then ''state'' else ''diff''),
        r_build = build,
        r_reasons = map (\<lambda>e. (ename e, reason_for env stale changed (map ename direct) building es (ename e)))
          (filter (\<lambda>e. ename e \<in> set building) packages),
        r_solved = solved, r_held = held, r_total = length names, r_unordered = unordered,
        r_outputs = matrix_outputs build solved changed (map fst stale) (published_nevr p) (m_owned env) names held\<rparr>)))))"

text \<open>The lines appended to the job's output file.\<close>

definition output_lines :: "(string, string) dict \<Rightarrow> string" where
  "output_lines outputs = concat (map (\<lambda>(k, v). k @ ''='' @ v @ [CHR 0x0A]) outputs)"

subsection \<open>The step summary\<close>

text \<open>\<open>sorted(build, key=lambda e: (wave, name))\<close>: stable, by name within a wave.\<close>

definition by_wave :: "(string, nat) dict option \<Rightarrow> entry list \<Rightarrow> entry list" where
  "by_wave solved build = sort_key (wave_of solved) (sort_key ename build)"

definition plan_summary ::
    "string \<Rightarrow> entry list \<Rightarrow> (string, string) dict \<Rightarrow> (string, nat) dict option \<Rightarrow> string list \<Rightarrow> nat \<Rightarrow> string" where
  "plan_summary mode build reasons solved held n_total =
     join [CHR 0x0A]
       ([''### Build plan'', [],
         show_nat (length build) @ '' of '' @ show_nat n_total @ '' packages; change detection: **'' @ mode @
           ''**; waves: **'' @ (if solved \<noteq> None then ''solved from BuildRequires'' else ''config stage'') @ ''**.'', []] @
        (if build = [] then []
         else [''| wave | package | why |'', ''| ---: | --- | --- |''] @
           map (\<lambda>e. ''| '' @ show_int (wave_of solved e) @ '' | `'' @ ename e @ ''` | '' @
             dict_get reasons (ename e) [] @ '' |'') (by_wave solved build)) @
        (if held = [] then []
         else [[], ''Held (failed at these exact inputs; retried by the scheduled run): '' @
           join '', '' (map (\<lambda>n. ''`'' @ n @ ''`'') (sorted_set held))])) @ [CHR 0x0A, CHR 0x0A]"

subsection \<open>The graph of a run\<close>

lemma load_no_self: "n \<notin> set (dict_get (snd (load rows published)) n [])"
proof
  let ?rs = "read_rows rows"
  assume "n \<in> set (dict_get (snd (load rows published)) n [])"
  then obtain ns where ns: "map_of (graph ?rs published) n = Some ns" "n \<in> set ns"
    by (auto simp: load_def Let_def dict_get_def split: option.splits)
  then obtain r where "rname r = n" "ns = needs_of (all_providers ?rs published) r"
    unfolding graph_def map_of_dict_of_pairs by (force dest: map_of_SomeD)
  with ns(2) show False by (simp add: needs_of_def)
qed

lemma load_graph_no_self: "load_graph env = Some es \<Longrightarrow> no_self_edge build es"
  using load_no_self by (auto simp: load_graph_def no_self_edge_def list_all_iff)

text \<open>
  the planner always solves the waves: whatever the extraction and the listing say, the
  graph it loads has no self edge, so that breaking the cycles and assigning the depths returns.
\<close>

theorem planner_solves_waves:
  "\<exists>solved unordered. solve_waves (load_graph env) building packages = Inr (solved, unordered)"
proof (cases "load_graph env")
  case (Some es)
  obtain wave u where "waves building es (dict_of_pairs (map (\<lambda>p. (ename p, entry_stage p)) packages)) = Inr (wave, u)"
    using waves_longest [OF load_graph_no_self [OF Some, of building]] by blast
  with Some show ?thesis by (simp add: solve_waves_def)
qed (simp add: solve_waves_def)

text \<open>What a run that was not refused did.\<close>

lemma rebuild_matrix_Inr:
  assumes "rebuild_matrix env ds = Inr r"
  obtains packages changed trust direct where
    "restrict_inventory (m_locks env) (m_only env) = Inr packages"
    "detect_changes env (filter (\<lambda>(n, _). n \<in> ename ` set packages) ds) = Inr (changed, r_held r, trust)"
    "plan packages (m_specs env) (inputs_of env changed trust) (find_dependents env (load_graph env))
       (if load_graph env \<noteq> None then Some 1 else None) = Inr (r_build r)"
    "plan packages (m_specs env) (inputs_of env changed trust) [] None = Inr direct"
    "solve_waves (load_graph env) (map ename (r_build r)) packages = Inr (r_solved r, r_unordered r)"
    "overflow (r_build r) (r_solved r) = []" "r_mode r = (if trust then ''state'' else ''diff'')"
    "r_outputs r = matrix_outputs (r_build r) (r_solved r) changed (map fst (find_stale env))
       (published_nevr (inputs_of env changed trust)) (m_owned env) (map ename packages) (r_held r)"
  using assms by (auto simp: rebuild_matrix_def bind_r_Inr Let_def split: if_splits prod.splits)

lemma trusted_output:
  "map_of (matrix_outputs build solved changed stale published owned names held) ''trusted'' =
     Some (json_names (sorted_set (set_minus (set_minus names (map ename build)) held)))"
proof -
  have "''trusted'' \<notin> fst ` set (stage_outputs build solved)"
    by (auto simp: stage_outputs_def)
  then have "map_of (stage_outputs build solved) ''trusted'' = None" by (simp add: map_of_eq_None_iff)
  then show ?thesis by (simp add: matrix_outputs_def map_add_def)
qed

lemma stage_output:
  "k < stages_count \<Longrightarrow> map_of (matrix_outputs build solved changed stale published owned names held) (stage_key k) =
     Some (json_names (stage_names solved build k))"
  using stage_outputs_lookup(1) [of k build solved]
  by (simp add: matrix_outputs_def stage_key_def map_add_def)


lemma changed_selected:
  "plan packages specs p deps hops = Inr build \<Longrightarrow> e \<in> set packages \<Longrightarrow> ename e \<in> set (changed_names p) \<Longrightarrow>
     e \<in> set build"
  using plan_build [of packages specs p deps hops build] by (auto simp: selected_def)

lemma unchanged_current:
  assumes "state_changed s ds retry = (changed, held)" "n \<notin> set changed" "n \<notin> set held" "map_of ds n = Some d"
  shows "map_of (inputs s) n = Some (JStr d)"
proof (rule ccontr)
  assume "map_of (inputs s) n \<noteq> Some (JStr d)"
  then have "n \<in> set (moved_names s ds)"
    using map_of_SomeD [OF assms(4)] by (force simp: moved_names_def)
  with assms(1-3) show False by (auto simp: state_changed_def Let_def split: if_splits)
qed

text \<open>
  C8: what a run declares trusted is current: with a recorded state, the list the publish will
  record as up to date names packages of the inventory that are neither built nor held, and the
  state says that the published build of each was made from its current digest.
\<close>

theorem trusted_is_current:
  assumes "rebuild_matrix env ds = Inr r" and "r_mode r = ''state''"
  shows "\<exists>s ts. load_state (m_labels env) = Inr (Some s) \<and>
    map_of (r_outputs r) ''trusted'' = Some (json_names ts) \<and>
    (\<forall>n \<in> set ts. n \<in> ename ` set (m_locks env) \<and> n \<notin> ename ` set (r_build r) \<and> n \<notin> set (r_held r) \<and>
      (\<forall>d. map_of ds n = Some d \<longrightarrow> map_of (inputs s) n = Some (JStr d)))"
proof -
  from assms(1) obtain packages changed trust where
    only: "restrict_inventory (m_locks env) (m_only env) = Inr packages"
    and detected: "detect_changes env (filter (\<lambda>(n, _). n \<in> ename ` set packages) ds) = Inr (changed, r_held r, trust)"
    and plan: "plan packages (m_specs env) (inputs_of env changed trust) (find_dependents env (load_graph env))
       (if load_graph env \<noteq> None then Some 1 else None) = Inr (r_build r)"
    and mode: "r_mode r = (if trust then ''state'' else ''diff'')"
    and out: "r_outputs r = matrix_outputs (r_build r) (r_solved r) changed (map fst (find_stale env))
       (published_nevr (inputs_of env changed trust)) (m_owned env) (map ename packages) (r_held r)"
    by (rule rebuild_matrix_Inr)
  from mode assms(2) have trust by (auto split: if_splits)
  with detected obtain s where s: "load_state (m_labels env) = Inr (Some s)"
    by (auto simp: detect_changes_def bind_r_Inr split: if_splits option.splits)
  with detected \<open>trust\<close> have ch: "state_changed s (filter (\<lambda>(n, _). n \<in> ename ` set packages) ds) (m_event env \<noteq> ''push'') = (changed, r_held r)"
    by (cases "state_changed s (filter (\<lambda>(n, _). n \<in> ename ` set packages) ds) (m_event env \<noteq> ''push'')")
      (auto simp: detect_changes_def split: if_splits)
  have sub: "set packages \<subseteq> set (m_locks env)"
    using only by (auto simp: restrict_inventory_def Let_def split: if_splits)
  have "n \<in> ename ` set (m_locks env) \<and> n \<notin> ename ` set (r_build r) \<and> n \<notin> set (r_held r) \<and>
      (\<forall>d. map_of ds n = Some d \<longrightarrow> map_of (inputs s) n = Some (JStr d))"
    if n: "n \<in> ename ` set packages" "n \<notin> ename ` set (r_build r)" "n \<notin> set (r_held r)" for n
  proof -
    from n(1) obtain e where e: "e \<in> set packages" "ename e = n" by auto
    have "n \<notin> set changed"
    proof
      assume "n \<in> set changed"
      then have "e \<in> set (r_build r)" using changed_selected [OF plan e(1)] e(2) by (simp add: inputs_of_def)
      with e(2) n(2) show False by auto
    qed
    moreover have "map_of (filter (\<lambda>(n, _). n \<in> ename ` set packages) ds) n = map_of ds n"
      using map_of_filter_keys [of "\<lambda>n. n \<in> ename ` set packages" ds n] n(1) by simp
    ultimately have "map_of ds n = Some d \<longrightarrow> map_of (inputs s) n = Some (JStr d)" for d
      using unchanged_current [OF ch _ n(3)] by simp
    with n e sub show ?thesis by auto
  qed
  then show ?thesis
    using s unfolding out trusted_output
    by (intro exI [of _ s] exI [of _ "sorted_set (set_minus (set_minus (map ename packages) (map ename (r_build r))) (r_held r))"])
      auto
qed

subsection \<open>A run\<close>

text \<open>Two recipes, one of which needs the other; the state knows the digest of the consumer only.\<close>

definition sample_row :: "string \<Rightarrow> string \<Rightarrow> string \<Rightarrow> row" where
  "sample_row name requires offered =
     \<lparr>row_dir = name, f_br = Some requires, f_provides = Some offered, f_names = Some name, f_rc = Some ''0'', f_err = None\<rparr>"

definition sample_env :: matrix_env where
  "sample_env = \<lparr>m_locks = [lib_entry, app_entry, doc_entry], m_only = [], m_owned = [], m_full = False, m_repo = ''file:///repo'',
     m_event = ''push'', m_primary = Some (sourcerpm_line (''lib'', ''1'', ''1.hum1.bfin''), Elem ''metadata'' [] None []),
     m_external = None,
     m_labels = Some (dumps_default (JObj [(label_name, JStr (dumps_canonical (state_json
        \<lparr>inputs = [(''app'', JStr ''a''), (''doc'', JStr ''d'')], failed = []\<rparr>)))])),
     m_rows = Some [sample_row ''lib'' '''' ''liblib'', sample_row ''app'' ''liblib'' ''app'', sample_row ''doc'' '''' ''doc''],
     m_base_sha = [], m_diff = None, m_before = None, m_specs = (\<lambda>_. [])\<rparr>"

definition sample_digests :: digests where
  "sample_digests = [(''app'', ''a''), (''doc'', ''d''), (''lib'', ''l'')]"

lemma sample_run:
  "\<exists>r. rebuild_matrix sample_env sample_digests = Inr r \<and> r_mode r = ''state'' \<and>
     map ename (r_build r) = [''lib'', ''app''] \<and>
     map_of (r_outputs r) ''trusted'' = Some (json_names [''doc''])"
proof -
  have "(case rebuild_matrix sample_env sample_digests of
      Inr r \<Rightarrow> r_mode r = ''state'' \<and> map ename (r_build r) = [''lib'', ''app''] \<and>
        map_of (r_outputs r) ''trusted'' = Some (json_names [''doc''])
    | Inl _ \<Rightarrow> False)" by code_simp
  then show ?thesis by (auto split: sum.splits)
qed

lemma trusted_is_current_witness:
  "\<exists>s ts. load_state (m_labels sample_env) = Inr (Some s) \<and> ts = [''doc''] \<and>
     map_of (inputs s) ''doc'' = Some (JStr ''d'')"
proof -
  obtain r where r: "rebuild_matrix sample_env sample_digests = Inr r" "r_mode r = ''state''"
    "map_of (r_outputs r) ''trusted'' = Some (json_names [''doc''])" using sample_run by (elim exE conjE) (rule that)
  from trusted_is_current [OF r(1,2)] obtain s ts where s: "load_state (m_labels sample_env) = Inr (Some s)"
    and ts: "map_of (r_outputs r) ''trusted'' = Some (json_names ts)"
    and current: "\<forall>n \<in> set ts. n \<in> ename ` set (m_locks sample_env) \<and> n \<notin> ename ` set (r_build r) \<and>
      n \<notin> set (r_held r) \<and>
      (\<forall>d. map_of sample_digests n = Some d \<longrightarrow> map_of (inputs s) n = Some (JStr d))"
    by (elim exE conjE) (rule that)
  from ts r(3) have "ts = [''doc'']" by simp
  moreover have "map_of sample_digests ''doc'' = Some ''d''" by (simp add: sample_digests_def)
  ultimately show ?thesis using s current by (intro exI [of _ s] exI [of _ ts]) simp
qed


end
