(* ===== verification/Canary_Relevance.thy ===== *)
theory Canary_Relevance
  imports Json_Parse
begin

section \<open>Must the canary run (\<open>canary.py\<close>)\<close>

text \<open>
  The canary rebuilds a fixed set of packages through the whole pipeline. This theory holds the
  decision whether a pull request or a merge group can change what it proves: the changed files,
  the inventory at the two revisions and the diff of the other inventory files. What \<open>gh\<close> and
  \<open>git\<close> print is an argument, a function from the argument list to the text or the error.
\<close>

subsection \<open>\<open>repr\<close>\<close>

definition printable :: "char \<Rightarrow> bool" where
  "printable c = (let n = of_char c :: nat in (32 \<le> n \<and> n < 127) \<or> (161 \<le> n \<and> n \<noteq> 173))"

definition repr_char :: "char \<Rightarrow> char \<Rightarrow> string" where
  "repr_char q c =
     (if c = q \<or> c = CHR 0x5C then [CHR 0x5C, c]
      else if c = CHR 0x0A then CHR 0x5C # ''n''
      else if c = CHR 0x0D then CHR 0x5C # ''r''
      else if c = CHR 0x09 then CHR 0x5C # ''t''
      else if printable c then [c]
      else CHR 0x5C # ''x'' @ [hex_digit (of_char c div 16), hex_digit (of_char c mod 16)])"

definition repr_str :: "string \<Rightarrow> string" where
  "repr_str s =
     (let q = (if CHR 0x27 \<in> set s \<and> CHR 0x22 \<notin> set s then CHR 0x22 else CHR 0x27) in
      q # concat (map (repr_char q) s) @ [q])"

definition repr_list :: "string list \<Rightarrow> string" where
  "repr_list xs = ''['' @ join '', '' (map repr_str xs) @ '']''"

subsection \<open>Paths\<close>

definition pipeline_paths :: "string list" where
  "pipeline_paths = [''.github/workflows/'', ''.github/actions/'', ''tools/'', ''config/'', ''Containerfile'']"

definition in_pipeline :: "string \<Rightarrow> bool" where
  "in_pipeline path = list_ex (\<lambda>p. starts_with p path) pipeline_paths"

definition touches_pipeline :: "string list \<Rightarrow> bool" where
  "touches_pipeline paths = list_ex (\<lambda>path. path \<noteq> [] \<and> in_pipeline path) paths"

definition sources_lock :: string where
  "sources_lock = ''config/upstream-sources.json''"

definition data_files :: "string list" where
  "data_files = [sources_lock, ''config/factory-build-backlog.toml'', ''config/fedora-primary-sources.txt'']"

definition perturbed_recipes :: "string list" where
  "perturbed_recipes = [''python-typing-inspection'']"

subsection \<open>The inventory\<close>

text \<open>The rows of a lock with their names; a name that is no string but can be a key is not modelled.\<close>

definition lock_rows :: "json \<Rightarrow> (string \<times> json) list result" where
  "lock_rows v =
     bind_r (bind_r (item v ''packages'') iterate) (\<lambda>rows.
     map_r (\<lambda>row. bind_r (item row ''name'') (\<lambda>n. case n of
         JStr s \<Rightarrow> Inr (s, row)
       | JList _ \<Rightarrow> Inl TypeError
       | JObj _ \<Rightarrow> Inl TypeError
       | _ \<Rightarrow> Inl Unmodelled)) rows)"

definition other_fields :: "json \<Rightarrow> json result" where
  "other_fields v = bind_r (items_of v) (\<lambda>kvs. Inr (JObj (filter (\<lambda>(k, _). k \<noteq> ''packages'') kvs)))"

definition sources_touch_existing :: "json \<Rightarrow> json \<Rightarrow> bool result" where
  "sources_touch_existing base head =
     (case bind_r (lock_rows base) (\<lambda>base_rows. bind_r (lock_rows head) (\<lambda>head_rows.
           bind_r (other_fields base) (\<lambda>other_before. bind_r (other_fields head) (\<lambda>other_after.
             Inr (base_rows, head_rows, other_before, other_after))))) of
        Inl Unmodelled \<Rightarrow> Inl Unmodelled
      | Inl _ \<Rightarrow> Inr True
      | Inr (base_rows, head_rows, other_before, other_after) \<Rightarrow>
          let before = dict_of_pairs base_rows; after = dict_of_pairs head_rows in
          Inr (length before \<noteq> length base_rows \<or> length after \<noteq> length head_rows \<or>
            \<not> py_eq other_before other_after \<or>
            list_ex (\<lambda>(n, row). case map_of after n of None \<Rightarrow> True | Some r \<Rightarrow> \<not> py_eq r row) before))"

subsection \<open>Diffs\<close>

text \<open>The characters that continue a package name.\<close>

definition package_char :: "char \<Rightarrow> bool" where
  "package_char c = (word_char c \<or> c \<in> set ''.+-'')"

text \<open>The name stands in the text with no such character on either side; \<open>free\<close> says so for the left.\<close>

fun names_in :: "string \<Rightarrow> bool \<Rightarrow> string \<Rightarrow> bool" where
  "names_in name free s =
     (free \<and> starts_with name s \<and>
        (case drop (length name) s of [] \<Rightarrow> True | c # _ \<Rightarrow> \<not> package_char c) \<or>
      (case s of [] \<Rightarrow> False | c # cs \<Rightarrow> names_in name (\<not> package_char c) cs))"

declare names_in.simps [simp del]

definition changed_lines :: "string \<Rightarrow> string list" where
  "changed_lines patch = map tl (filter (\<lambda>l.
     (l = [] \<or> hd l \<in> {CHR ''+'', CHR ''-''}) \<and> \<not> starts_with ''+++'' l \<and> \<not> starts_with ''---'' l)
     (splitlines patch))"

definition patch_mentions :: "string \<Rightarrow> string list \<Rightarrow> bool" where
  "patch_mentions patch names =
     list_ex (\<lambda>line. list_ex (\<lambda>name. names_in name True line) names) (changed_lines patch)"

subsection \<open>The decision\<close>

record changed_file =
  cf_name :: "string option"
  cf_previous :: "string option"
  cf_patch :: "string option"

definition file_paths :: "changed_file \<Rightarrow> string list" where
  "file_paths f = remdups (filter (\<lambda>p. p \<noteq> []) (List.map_filter id [cf_name f, cf_previous f]))"

definition path_relevant ::
    "string list \<Rightarrow> json option \<Rightarrow> json option \<Rightarrow> changed_file \<Rightarrow> string \<Rightarrow> bool result" where
  "path_relevant canary base head f path =
     (if \<not> in_pipeline path then Inr False
      else if path \<notin> set data_files then Inr True
      else if path = sources_lock then
        (case (base, head) of
           (Some b, Some h) \<Rightarrow> sources_touch_existing b h
         | _ \<Rightarrow> Inr True)
      else Inr (case cf_patch f of None \<Rightarrow> True | Some p \<Rightarrow> patch_mentions p canary))"

fun any_r :: "('a \<Rightarrow> bool result) \<Rightarrow> 'a list \<Rightarrow> bool result" where
  "any_r f [] = Inr False"
| "any_r f (x # xs) = bind_r (f x) (\<lambda>b. if b then Inr True else any_r f xs)"

definition pipeline_relevant ::
    "changed_file list \<Rightarrow> string list \<Rightarrow> json option \<Rightarrow> json option \<Rightarrow> bool result" where
  "pipeline_relevant files canary base head =
     any_r (\<lambda>f. any_r (path_relevant canary base head f) (file_paths f)) files"

subsection \<open>A pull request\<close>

type_synonym tool = "string list \<Rightarrow> string result"

text \<open>\<open>_json_stream\<close>: the values of a text one after the other, lists flattened.\<close>

definition drop_space :: "string \<Rightarrow> string" where
  "drop_space s = dropWhile is_space s"

function json_stream :: "string \<Rightarrow> json list result" where
  "json_stream s =
     (if drop_space s = [] then Inr []
      else case parse_value (Suc (length s)) (drop_space s) of
        Inl e \<Rightarrow> Inl e
      | Inr (v, r) \<Rightarrow> bind_r (json_stream r) (\<lambda>rest.
          Inr ((case v of JList xs \<Rightarrow> xs | _ \<Rightarrow> [v]) @ rest)))"
  by pat_completeness auto
termination
proof (relation "measure length")
  fix s v x r and y :: "json \<times> string"
  assume "parse_value (Suc (length s)) (drop_space s) = Inr y" "(x, r) = y"
  then have "length r < length (drop_space s)" using parse_shorter(1) by blast
  also have "\<dots> \<le> length s" by (simp add: drop_space_def length_dropWhile_le)
  finally show "(r, s) \<in> measure length" by simp
qed simp

declare json_stream.simps [simp del]

text \<open>An entry of the files API; a value that is no string there is not modelled.\<close>

definition string_field :: "json \<Rightarrow> string \<Rightarrow> string option result" where
  "string_field v k = bind_r (get_or v k JNull) (\<lambda>w. case w of
     JNull \<Rightarrow> Inr None | JStr s \<Rightarrow> Inr (Some s) | _ \<Rightarrow> Inl Unmodelled)"

definition file_of_json :: "json \<Rightarrow> changed_file result" where
  "file_of_json v =
     bind_r (string_field v ''filename'') (\<lambda>n.
     bind_r (string_field v ''previous_filename'') (\<lambda>p.
     bind_r (string_field v ''patch'') (\<lambda>d. Inr \<lparr>cf_name = n, cf_previous = p, cf_patch = d\<rparr>)))"

definition touches_lock :: "changed_file list \<Rightarrow> bool" where
  "touches_lock files = list_ex (\<lambda>f. Some sources_lock \<in> {cf_name f, cf_previous f}) files"

text \<open>Two documents, or none when either cannot be read or parsed; a null document is None.\<close>

definition two_documents :: "string result \<Rightarrow> string result \<Rightarrow> (json option \<times> json option) result" where
  "two_documents a b =
     (case bind_r (bind_r a loads) (\<lambda>x. bind_r (bind_r b loads) (\<lambda>y. Inr (x, y))) of
        Inr (x, y) \<Rightarrow> Inr (if x = JNull then None else Some x, if y = JNull then None else Some y)
      | Inl e \<Rightarrow> if e = CalledProcessError \<or> e = decode_error then Inr (None, None) else Inl e)"

text \<open>A sha that is no string is not modelled.\<close>

definition sha_at :: "json \<Rightarrow> string list \<Rightarrow> string result" where
  "sha_at v path = bind_r (fold_r (\<lambda>k w. item w k) path v) (\<lambda>w.
     case w of JStr s \<Rightarrow> Inr s | _ \<Rightarrow> Inl Unmodelled)"

definition pr_relevant :: "tool \<Rightarrow> string \<Rightarrow> int \<Rightarrow> string list \<Rightarrow> bool result" where
  "pr_relevant gh repository pr canary =
     (let repos = ''repos/'' @ repository in
      bind_r (bind_r (gh [''api'', ''--paginate'', repos @ ''/pulls/'' @ show_int pr @ ''/files'']) json_stream) (\<lambda>vs.
      bind_r (map_r file_of_json vs) (\<lambda>files.
      bind_r (if \<not> touches_lock files then Inr (None, None)
        else bind_r (bind_r (gh [''api'', repos @ ''/pulls/'' @ show_int pr]) loads) (\<lambda>meta.
          bind_r (sha_at meta [''head'', ''sha'']) (\<lambda>head.
          bind_r (sha_at meta [''base'', ''sha'']) (\<lambda>base.
          bind_r (bind_r (gh [''api'', repos @ ''/compare/'' @ base @ ''...'' @ head]) loads) (\<lambda>compare.
          bind_r (sha_at compare [''merge_base_commit'', ''sha'']) (\<lambda>merge_base.
            let content = (\<lambda>ref. gh [''api'', ''-H'', ''Accept: application/vnd.github.raw'',
              repos @ ''/contents/'' @ sources_lock @ ''?ref='' @ ref])
            in two_documents (content merge_base) (content head))))))) (\<lambda>(base, head).
        pipeline_relevant files (canary @ perturbed_recipes) base head))))"

subsection \<open>A merge group\<close>

definition hex_char :: "char \<Rightarrow> bool" where
  "hex_char c = (is_digit c \<or> c \<in> set ''abcdef'')"

text \<open>\<open>$\<close> also matches before one final line feed.\<close>

definition chomp :: "string \<Rightarrow> string" where
  "chomp s = (if s \<noteq> [] \<and> last s = CHR 0x0A then butlast s else s)"

definition full_sha :: "string \<Rightarrow> bool" where
  "full_sha s = (length (chomp s) = 40 \<and> list_all hex_char (chomp s))"

text \<open>\<open>QUEUE_REF\<close>, read from the end: a sha, a dash, the number, \<open>/pr-\<close> and the branch before it.\<close>

definition queue_pr :: "string \<Rightarrow> nat option" where
  "queue_pr ref =
     (let s = (if starts_with ''refs/heads/'' ref then drop 11 ref else ref);
          r = rev (chomp (drop 18 s));
          sha = take 40 r; after_sha = drop 40 r;
          number = rev (takeWhile is_digit (tl after_sha));
          before_number = dropWhile is_digit (tl after_sha);
          branch = drop 4 before_number in
      if starts_with ''gh-readonly-queue/'' s \<and> length sha = 40 \<and> list_all hex_char sha \<and>
         starts_with ''-'' after_sha \<and> number \<noteq> [] \<and> hd number \<noteq> CHR ''0'' \<and>
         starts_with (rev ''/pr-'') before_number \<and> branch \<noteq> [] \<and> CHR 0x0A \<notin> set branch
      then Some (read_nat number) else None)"

text \<open>The fields of \<open>git diff --name-status -z\<close>.\<close>

fun range_fields :: "string list \<Rightarrow> changed_file list result" where
  "range_fields [] = Inr []"
| "range_fields (status # rest) =
     (if status = [] then Inr []
      else if hd status \<in> {CHR ''R'', CHR ''C''} then
        (case rest of
           old # new # more_fields \<Rightarrow> bind_r (range_fields more_fields) (\<lambda>fs.
             Inr (\<lparr>cf_name = Some new, cf_previous = Some old, cf_patch = None\<rparr> # fs))
         | _ \<Rightarrow> Inl IndexError)
      else (case rest of
          path # more_fields \<Rightarrow> bind_r (range_fields more_fields) (\<lambda>fs.
            Inr (\<lparr>cf_name = Some path, cf_previous = None, cf_patch = None\<rparr> # fs))
        | _ \<Rightarrow> Inl IndexError))"

definition range_files :: "tool \<Rightarrow> string \<Rightarrow> string \<Rightarrow> changed_file list result" where
  "range_files git base head =
     bind_r (git [''diff'', ''--name-status'', ''-z'', ''-M'', base, head]) (\<lambda>out.
       range_fields (split_on (CHR 0x00) out))"

definition with_patch :: "tool \<Rightarrow> string \<Rightarrow> string \<Rightarrow> changed_file \<Rightarrow> changed_file result" where
  "with_patch git base head f =
     (case cf_name f of
        Some n \<Rightarrow>
          if n \<in> set data_files \<and> n \<noteq> sources_lock then
            bind_r (git [''diff'', ''--text'', ''--no-color'', base, head, ''--'', n]) (\<lambda>p.
              Inr (f\<lparr>cf_patch := Some p\<rparr>))
          else Inr f
      | None \<Rightarrow> Inr f)"

definition range_relevant :: "tool \<Rightarrow> string \<Rightarrow> string \<Rightarrow> string list \<Rightarrow> bool result" where
  "range_relevant git base head canary =
     bind_r (range_files git base head) (\<lambda>files0.
     bind_r (map_r (with_patch git base head) files0) (\<lambda>files.
     bind_r (if touches_lock files
         then two_documents (git [''show'', base @ '':'' @ sources_lock]) (git [''show'', head @ '':'' @ sources_lock])
         else Inr (None, None)) (\<lambda>(b, h).
       pipeline_relevant files (canary @ perturbed_recipes) b h)))"

definition merge_group_proof ::
    "tool \<Rightarrow> tool \<Rightarrow> string \<Rightarrow> string \<Rightarrow> string \<Rightarrow> string list \<Rightarrow> (bool \<times> string) result" where
  "merge_group_proof gh git repository head_ref head_sha canary =
     (case queue_pr head_ref of
        None \<Rightarrow> Inr (False, ''cannot name the pull request from merge group ref '' @ repr_str head_ref)
      | Some pr \<Rightarrow>
          if \<not> full_sha head_sha then Inr (False, ''not a full merge group commit: '' @ repr_str head_sha)
          else
            bind_r (bind_r (gh [''api'', ''repos/'' @ repository @ ''/pulls/'' @ show_nat pr]) loads) (\<lambda>meta.
            bind_r (sha_at meta [''head'', ''sha'']) (\<lambda>pr_head.
            bind_r (git [''fetch'', ''--no-tags'', ''--depth=1'', ''origin'', ''refs/pull/'' @ show_nat pr @ ''/head'']) (\<lambda>_.
            bind_r (bind_r (git [''rev-parse'', ''FETCH_HEAD'']) (\<lambda>s. Inr (strip s))) (\<lambda>fetched.
            if fetched \<noteq> pr_head then
              Inr (False, ''pull request #'' @ show_nat pr @ '' head moved ('' @ take 12 pr_head @
                '' in the API, '' @ take 12 fetched @ '' fetched)'')
            else bind_r (range_relevant git pr_head head_sha canary) (\<lambda>relevant. Inr (
              if relevant then (False, ''the pipeline in this merge group differs from pull request #'' @
                show_nat pr @ '' head '' @ take 12 pr_head @ '': main or another member changed a pipeline path. '' @
                ''Update the branch so Canary proves the merged pipeline, then queue it again'')
              else (True, ''pull request #'' @ show_nat pr @ [CHR 0x27] @ ''s Canary proved '' @ take 12 pr_head @
                '', and nothing pipeline-relevant differs between that commit and this merge group''))))))))"

text \<open>The namespace of the first pass: the files that decide how a package is compiled.\<close>

definition build_path :: "string list" where
  "build_path = [''.github/workflows/build-stage.yml'', ''.github/actions/load-buildroot/action.yml'',
     ''.github/actions/load-factory-repo/action.yml'', ''config/hummingbird.repo'', ''tools/source_pipeline.py'',
     ''tools/dist_bump.py'', ''tools/package_cache_key.py'', ''tools/build_container.sh'',
     ''tools/hermetic_build.sh'', ''tools/mock_config.py'']"

definition salt :: "(string \<Rightarrow> string) \<Rightarrow> (string \<Rightarrow> string) \<Rightarrow> string" where
  "salt sha256 bytes_of =
     ''canary-'' @ take 16 (sha256 (concat (map (\<lambda>p. p @ [CHR 0x00] @ bytes_of p @ [CHR 0x00]) build_path)))"

subsection \<open>Facts about names, files and the inventory\<close>

definition stands_alone :: "string \<Rightarrow> string \<Rightarrow> bool" where
  "stands_alone name s = (\<exists>a b. s = a @ name @ b \<and>
     (a = [] \<or> \<not> package_char (last a)) \<and> (b = [] \<or> \<not> package_char (hd b)))"

lemma names_in_iff:
  "names_in name free s \<longleftrightarrow> (\<exists>a b. s = a @ name @ b \<and>
     (if a = [] then free else \<not> package_char (last a)) \<and> (b = [] \<or> \<not> package_char (hd b)))"
proof (induction s arbitrary: free)
  case Nil
  then show ?case by (subst names_in.simps) (auto simp: starts_with_iff)
next
  case (Cons c s)
  let ?P = "\<lambda>free t a b. t = a @ name @ b \<and>
     (if a = [] then free else \<not> package_char (last a)) \<and> (b = [] \<or> \<not> package_char (hd b))"
  have here: "(free \<and> starts_with name (c # s) \<and>
      (case drop (length name) (c # s) of [] \<Rightarrow> True | x # _ \<Rightarrow> \<not> package_char x)) \<longleftrightarrow>
      (\<exists>b. ?P free (c # s) [] b)" (is "?now \<longleftrightarrow> ?later")
  proof
    assume now: ?now
    then obtain b where b: "c # s = name @ b" by (auto simp: starts_with_iff)
    with now have "b = [] \<or> \<not> package_char (hd b)" by (cases b) auto
    with now b show ?later by auto
  next
    assume ?later
    then obtain b where "free" "c # s = name @ b" "b = [] \<or> \<not> package_char (hd b)" by auto
    then show ?now by (cases b) (auto simp: starts_with_iff)
  qed
  have there: "(\<exists>a b. ?P (\<not> package_char c) s a b) \<longleftrightarrow> (\<exists>a b. ?P free (c # s) (c # a) b)"
    by auto
  have "(\<exists>a b. ?P free (c # s) a b) \<longleftrightarrow>
      (\<exists>b. ?P free (c # s) [] b) \<or> (\<exists>a b. ?P free (c # s) (c # a) b)" (is "?all = ?split")
  proof
    assume ?all
    then obtain a b where ab: "?P free (c # s) a b" by blast
    show ?split
    proof (cases a)
      case Nil
      with ab show ?thesis by blast
    next
      case (Cons x xs)
      with ab have "x = c" by simp
      with Cons ab show ?thesis by blast
    qed
  qed blast
  with here there Cons.IH show ?case by (subst names_in.simps) simp
qed

lemma names_in_alone: "names_in name True s \<longleftrightarrow> stands_alone name s"
  by (auto simp: names_in_iff stands_alone_def)

lemma any_r_False: "any_r f xs = Inr False \<longleftrightarrow> (\<forall>x \<in> set xs. f x = Inr False)"
  by (induction xs) (auto simp: bind_r_Inr)

definition entries_kept :: "json \<Rightarrow> json \<Rightarrow> bool" where
  "entries_kept b h = (\<exists>brows hrows. lock_rows b = Inr brows \<and> lock_rows h = Inr hrows \<and>
     (\<forall>(n, row) \<in> set brows. \<exists>r. (n, r) \<in> set hrows \<and> py_eq r row))"

lemma distinct_of_length:
  assumes "length (dict_of_pairs ps) = length ps"
  shows "distinct (map fst ps)"
proof -
  have "card (fst ` set ps) = length ps"
    by (metis assms distinct_card distinct_dict_of_pairs keys_dict_of_pairs length_map list.set_map)
  then show ?thesis by (metis card_distinct length_map list.set_map)
qed

lemma untouched_kept:
  assumes "sources_touch_existing b h = Inr False"
  shows "entries_kept b h"
proof -
  from assms obtain brows hrows x y where rows: "lock_rows b = Inr brows" "lock_rows h = Inr hrows"
    and len: "length (dict_of_pairs brows) = length brows"
      "length (dict_of_pairs hrows) = length hrows"
    and same: "\<And>n row. (n, row) \<in> set (dict_of_pairs brows) \<Longrightarrow>
      \<exists>r. map_of (dict_of_pairs hrows) n = Some r \<and> py_eq r row"
    by (fastforce simp: sources_touch_existing_def bind_r_Inr Let_def list_ex_iff
        split: sum.splits error.splits option.splits)
  have "dict_of_pairs brows = brows" "dict_of_pairs hrows = hrows"
    using len by (simp_all add: dict_of_distinct_pairs distinct_of_length)
  with same have "\<forall>(n, row) \<in> set brows. \<exists>r. (n, r) \<in> set hrows \<and> py_eq r row"
    by (metis (no_types, lifting) case_prodI2 map_of_SomeD)
  with rows show ?thesis unfolding entries_kept_def by blast
qed

lemma irrelevant_path:
  assumes "path_relevant canary base head f path = Inr False" and "in_pipeline path"
  shows "path \<in> set data_files"
    and "path = sources_lock \<Longrightarrow> \<exists>b h. base = Some b \<and> head = Some h \<and> entries_kept b h"
    and "path \<noteq> sources_lock \<Longrightarrow> \<exists>patch. cf_patch f = Some patch \<and>
      (\<forall>line \<in> set (changed_lines patch). \<forall>name \<in> set canary. \<not> stands_alone name line)"
  using assms
  by (auto simp: path_relevant_def patch_mentions_def list_ex_iff names_in_alone
      split: if_splits option.splits dest: untouched_kept)


definition sample_change :: changed_file where
  "sample_change = \<lparr>cf_name = Some ''config/factory-build-backlog.toml'', cf_previous = None,
     cf_patch = Some ''+glibc''\<rparr>"


subsection \<open>Facts about merge groups\<close>

definition queue_form :: "string \<Rightarrow> nat \<Rightarrow> bool" where
  "queue_form ref n = (\<exists>front branch digits sha end_line.
     ref = front @ ''gh-readonly-queue/'' @ branch @ ''/pr-'' @ digits @ ''-'' @ sha @ end_line \<and>
     front \<in> {[], ''refs/heads/''} \<and> branch \<noteq> [] \<and> CHR 0x0A \<notin> set branch \<and>
     digits \<noteq> [] \<and> list_all is_digit digits \<and> hd digits \<noteq> CHR ''0'' \<and> n = read_nat digits \<and>
     length sha = 40 \<and> list_all hex_char sha \<and> end_line \<in> {[], [CHR 0x0A]})"

lemma chomp_cases: "\<exists>e \<in> {[], [CHR 0x0A]}. s = chomp s @ e"
proof (cases "s \<noteq> [] \<and> last s = CHR 0x0A")
  case True
  then have "s = butlast s @ [CHR 0x0A]" by (metis append_butlast_last_id)
  with True show ?thesis by (simp add: chomp_def)
qed (auto simp: chomp_def)

lemma chomp_append: "e \<in> {[], [CHR 0x0A]} \<Longrightarrow> s = [] \<or> last s \<noteq> CHR 0x0A \<Longrightarrow> chomp (s @ e) = s"
  by (auto simp: chomp_def)

lemma if_Some_iff: "(if P then Some x else None) = Some y \<longleftrightarrow> P \<and> y = x"
  by auto

text \<open>The number read from a merge queue reference is the one its form gives, and there is
  one exactly when the reference has that form.\<close>

theorem queue_pr_exact: "queue_pr ref = Some n \<longleftrightarrow> queue_form ref n"
proof
  assume found: "queue_pr ref = Some n"
  define s where "s = (if starts_with ''refs/heads/'' ref then drop 11 ref else ref)"
  define r where "r = rev (chomp (drop 18 s))"
  define rest where "rest = tl (drop 40 r)"
  define digits where "digits = rev (takeWhile is_digit rest)"
  define branch where "branch = drop 4 (dropWhile is_digit rest)"
  have cond: "(if starts_with ''gh-readonly-queue/'' s \<and> length (take 40 r) = 40 \<and> list_all hex_char (take 40 r) \<and>
      starts_with ''-'' (drop 40 r) \<and> digits \<noteq> [] \<and> hd digits \<noteq> CHR ''0'' \<and>
      starts_with (rev ''/pr-'') (dropWhile is_digit rest) \<and> branch \<noteq> [] \<and> CHR 0x0A \<notin> set branch
      then Some (read_nat digits) else None) = Some n"
    using found unfolding queue_pr_def Let_def s_def r_def rest_def digits_def branch_def .
  have queue: "starts_with ''gh-readonly-queue/'' s"
    and sha: "length (take 40 r) = 40" "list_all hex_char (take 40 r)"
    and dash: "starts_with ''-'' (drop 40 r)"
    and digits: "digits \<noteq> []" "hd digits \<noteq> CHR ''0''" "n = read_nat digits"
    and slash: "starts_with (rev ''/pr-'') (dropWhile is_digit rest)"
    and branch: "branch \<noteq> []" "CHR 0x0A \<notin> set branch"
    using cond unfolding if_Some_iff by blast+
  have "r = take 40 r @ drop 40 r" by simp
  also have "drop 40 r = CHR ''-'' # rest" using dash by (auto simp: starts_with_iff rest_def)
  also have "rest = rev digits @ dropWhile is_digit rest" by (simp add: digits_def)
  also have "dropWhile is_digit rest = rev ''/pr-'' @ branch"
    using slash by (auto simp: starts_with_iff branch_def)
  finally have "chomp (drop 18 s) = rev branch @ ''/pr-'' @ digits @ ''-'' @ rev (take 40 r)"
    unfolding r_def by (simp add: rev_swap)
  moreover obtain e where e: "e \<in> {[], [CHR 0x0A]}" "drop 18 s = chomp (drop 18 s) @ e"
    using chomp_cases by blast
  moreover obtain t where "s = ''gh-readonly-queue/'' @ t" using queue by (auto simp: starts_with_iff)
  ultimately have s: "s = ''gh-readonly-queue/'' @ rev branch @ ''/pr-'' @ digits @ ''-'' @ rev (take 40 r) @ e"
    by simp
  define front where "front = (if starts_with ''refs/heads/'' ref then ''refs/heads/'' else [])"
  have "ref = front @ s" by (auto simp: s_def front_def starts_with_iff)
  then have ref: "ref = front @ ''gh-readonly-queue/'' @ rev branch @ ''/pr-'' @ digits @ ''-'' @ rev (take 40 r) @ e"
    using s by simp
  have front: "front \<in> {[], ''refs/heads/''}" by (simp add: front_def)
  have all: "list_all is_digit digits"
    unfolding digits_def list_all_iff set_rev by (blast dest: set_takeWhileD)
  have rev_sha: "length (rev (take 40 r)) = 40" "list_all hex_char (rev (take 40 r))"
    using sha unfolding list_all_iff set_rev by simp_all
  have rev_branch: "rev branch \<noteq> []" "CHR 0x0A \<notin> set (rev branch)" using branch by simp_all
  show "queue_form ref n"
    unfolding queue_form_def
    by (rule exI [of _ front], rule exI [of _ "rev branch"], rule exI [of _ digits],
        rule exI [of _ "rev (take 40 r)"], rule exI [of _ e])
      (intro conjI ref front rev_branch digits all rev_sha e(1))
next
  assume "queue_form ref n"
  then obtain front branch digits sha e where
    ref: "ref = front @ ''gh-readonly-queue/'' @ branch @ ''/pr-'' @ digits @ ''-'' @ sha @ e"
    and front: "front \<in> {[], ''refs/heads/''}" and branch: "branch \<noteq> []" "CHR 0x0A \<notin> set branch"
    and digits: "digits \<noteq> []" "list_all is_digit digits" "hd digits \<noteq> CHR ''0''" "n = read_nat digits"
    and sha: "length sha = 40" "list_all hex_char sha" and e: "e \<in> {[], [CHR 0x0A]}"
    unfolding queue_form_def by blast
  define body where "body = branch @ ''/pr-'' @ digits @ ''-'' @ sha"
  have s: "(if starts_with ''refs/heads/'' ref then drop 11 ref else ref) = ''gh-readonly-queue/'' @ body @ e"
  proof (cases "front = []")
    case True
    then show ?thesis by (simp add: ref body_def)
  next
    case False
    with front have "front = ''refs/heads/''" by simp
    then show ?thesis by (simp add: ref body_def)
  qed
  have "\<not> hex_char (CHR 0x0A)" by (simp add: hex_char_def is_digit_def)
  moreover have "last sha \<in> set sha" using sha(1) by (intro last_in_set) auto
  ultimately have "last sha \<noteq> CHR 0x0A" using sha(2) unfolding list_all_iff by metis
  then have "chomp (body @ e) = body"
    using sha e by (intro chomp_append) (auto simp: body_def)
  then have r: "rev (chomp (drop 18 (''gh-readonly-queue/'' @ body @ e))) =
      rev sha @ CHR ''-'' # rev digits @ rev ''/pr-'' @ rev branch"
    by (simp add: body_def)
  have "takeWhile is_digit (rev digits @ rev ''/pr-'' @ rev branch) = rev digits"
    "dropWhile is_digit (rev digits @ rev ''/pr-'' @ rev branch) = rev ''/pr-'' @ rev branch"
    using digits(2) by (auto simp: takeWhile_append dropWhile_append list_all_iff is_digit_def)
  then show "queue_pr ref = Some n"
    unfolding queue_pr_def s Let_def r
    using sha digits branch by (simp add: list_all_iff)
qed

lemma with_patch_paths: "with_patch git base head f = Inr f' \<Longrightarrow> file_paths f' = file_paths f"
  by (auto simp: with_patch_def file_paths_def bind_r_Inr split: option.splits if_splits)

lemma range_irrelevant:
  assumes "range_relevant git base head canary = Inr False"
  shows "\<exists>files. range_files git base head = Inr files \<and>
    (\<forall>f \<in> set files. \<forall>path \<in> set (file_paths f). in_pipeline path \<longrightarrow> path \<in> set data_files)"
proof -
  from assms obtain files patched b h where files: "range_files git base head = Inr files"
    and patched: "map_r (with_patch git base head) files = Inr patched"
    and calm: "pipeline_relevant patched (canary @ perturbed_recipes) b h = Inr False"
    unfolding range_relevant_def bind_r_Inr by (elim exE conjE) (auto split: prod.splits)
  have "path \<in> set data_files" if "f \<in> set files" "path \<in> set (file_paths f)" "in_pipeline path" for f path
  proof -
    from map_r_mem [OF patched that(1)] obtain f' where f': "f' \<in> set patched" "with_patch git base head f = Inr f'"
      by blast
    have "path_relevant (canary @ perturbed_recipes) b h f' path = Inr False"
      using calm f' that(2) by (simp add: pipeline_relevant_def any_r_False with_patch_paths)
    then show ?thesis using irrelevant_path(1) that(3) by blast
  qed
  with files show ?thesis by blast
qed

text \<open>C20: A merge group is called proven only for a full commit whose queue reference names a pull
  request whose head, as the API gives it and as it was fetched, differs from the group commit in no
  file of the pipeline but the inventory files.\<close>

theorem group_proof_sound:
  assumes "merge_group_proof gh git repository ref sha canary = Inr (True, reason)"
  shows "\<exists>pr meta pr_head fetched files. queue_pr ref = Some pr \<and> full_sha sha \<and>
    gh [''api'', ''repos/'' @ repository @ ''/pulls/'' @ show_nat pr] = Inr meta \<and>
    bind_r (loads meta) (\<lambda>v. sha_at v [''head'', ''sha'']) = Inr pr_head \<and>
    git [''rev-parse'', ''FETCH_HEAD''] = Inr fetched \<and> strip fetched = pr_head \<and>
    range_files git pr_head sha = Inr files \<and>
    (\<forall>f \<in> set files. \<forall>path \<in> set (file_paths f). in_pipeline path \<longrightarrow> path \<in> set data_files)"
proof -
  from assms obtain pr where pr: "queue_pr ref = Some pr" and full: "full_sha sha"
    unfolding merge_group_proof_def by (auto split: option.splits if_splits)
  from assms obtain meta v pr_head fetched where
    meta: "gh [''api'', ''repos/'' @ repository @ ''/pulls/'' @ show_nat pr] = Inr meta" "loads meta = Inr v"
    and head: "sha_at v [''head'', ''sha''] = Inr pr_head"
    and fetched: "git [''rev-parse'', ''FETCH_HEAD''] = Inr fetched" "strip fetched = pr_head"
    and calm: "range_relevant git pr_head sha canary = Inr False"
    unfolding merge_group_proof_def pr option.case bind_r_Inr if_P [OF full]
    by (auto simp: full bind_r_Inr split: if_splits)
  from range_irrelevant [OF calm] pr full meta head fetched show ?thesis by auto
qed

definition sample_gh :: tool where
  "sample_gh args = Inr (dumps_default (JObj [(''head'', JObj [(''sha'', JStr ''abc'')])]))"

definition sample_git :: tool where
  "sample_git args = Inr (if args = [''rev-parse'', ''FETCH_HEAD''] then ''abc'' @ [CHR 0x0A] else [])"

definition sample_sha :: string where
  "sample_sha = replicate 40 (CHR ''a'')"

theorem group_proof_sound_witness:
  "\<exists>pr meta pr_head fetched files. queue_pr (''gh-readonly-queue/main/pr-7-'' @ sample_sha) = Some pr \<and>
    full_sha sample_sha \<and>
    sample_gh [''api'', ''repos/'' @ ''a/b'' @ ''/pulls/'' @ show_nat pr] = Inr meta \<and>
    bind_r (loads meta) (\<lambda>v. sha_at v [''head'', ''sha'']) = Inr pr_head \<and>
    sample_git [''rev-parse'', ''FETCH_HEAD''] = Inr fetched \<and> strip fetched = pr_head \<and>
    range_files sample_git pr_head sample_sha = Inr files"
proof -
  have "\<exists>reason. merge_group_proof sample_gh sample_git ''a/b''
      (''gh-readonly-queue/main/pr-7-'' @ sample_sha) sample_sha [''bash''] = Inr (True, reason)"
    (is "\<exists>reason. ?m = _")
  proof -
    have "(case ?m of Inr (b, _) \<Rightarrow> b | _ \<Rightarrow> False)" by code_simp
    then show ?thesis by (auto split: sum.splits)
  qed
  then show ?thesis using group_proof_sound by blast
qed

end
