(* ===== verification/Canary_Verify.thy ===== *)
theory Canary_Verify
  imports Canary_Relevance Primary_Xml
begin

section \<open>What the canary proved (\<open>canary.py\<close>)\<close>

text \<open>
  The assertions over the jobs of a canary run: which package each pass compiled, restored or
  failed, and whether that is what the cache, the planner, the hermetic lane and the early
  publication promise. A job is the JSON object of the workflow API, read as the source reads it.
\<close>

subsection \<open>The image\<close>

text \<open>\<open>v or {}\<close>.\<close>

definition or_object :: "json \<Rightarrow> json" where
  "or_object v = (if truthy v then v else JObj [])"

definition as_string :: "error \<Rightarrow> json \<Rightarrow> string result" where
  "as_string e v = (case v of JStr s \<Rightarrow> Inr s | _ \<Rightarrow> Inl e)"

definition list_of :: "json \<Rightarrow> json list result" where
  "list_of v = (case v of JList xs \<Rightarrow> Inr xs | _ \<Rightarrow> Inl Unmodelled)"

definition size_of_layer :: "json \<Rightarrow> int result" where
  "size_of_layer layer = bind_r (item layer ''size'') (\<lambda>v. case as_int v of
     Some n \<Rightarrow> Inr n | None \<Rightarrow> Inl Unmodelled)"

definition check_layers :: "json \<Rightarrow> string list result" where
  "check_layers manifest =
     bind_r (bind_r (get_or manifest ''layers'' (JList [])) list_of) (\<lambda>layers.
       case layers of
         [a, b] \<Rightarrow> bind_r (size_of_layer a) (\<lambda>m. bind_r (size_of_layer b) (\<lambda>n.
           Inr (if n \<le> m then [''the leading layer is not the small metadata one''] else [])))
       | _ \<Rightarrow> Inr [''expected 2 layers (repodata, then repository), found '' @ show_nat (length layers)])"

text \<open>\<open>primary_sources\<close>: the first file of the directory whose name holds \<open>primary.xml\<close>; the
  two decompressors are arguments.\<close>

definition primary_sources ::
    "(string \<Rightarrow> string result) \<Rightarrow> (string \<Rightarrow> string result) \<Rightarrow> (string, string) dict \<Rightarrow> string \<Rightarrow> string list result" where
  "primary_sources gunzip zstd files shown =
     (case sort (filter (contains ''primary.xml'') (map fst files)) of
        [] \<Rightarrow> Inl (ValueError (''no primary.xml in '' @ shown))
      | name # _ \<Rightarrow>
          bind_r (dict_index files name) (\<lambda>raw.
          bind_r (if ends_with ''.gz'' name then gunzip raw else if ends_with ''.zst'' name then zstd raw else Inr raw)
            (\<lambda>text. Inr (map fst (published_from_primary text)))))"

definition state_label :: string where
  "state_label = ''org.projectbluefin.factory.state''"

text \<open>The label holds the JSON text of the recorded state.\<close>

definition check_state :: "json \<Rightarrow> string list \<Rightarrow> string list result" where
  "check_state config expected =
     bind_r (bind_r (get_or config ''config'' JNull) (\<lambda>c. get_or (or_object c) ''Labels'' JNull)) (\<lambda>labels.
     bind_r (get_or (or_object labels) state_label JNull) (\<lambda>raw.
       if \<not> truthy raw then Inr [''the image carries no '' @ state_label @ '' label'']
       else bind_r (as_string TypeError raw) (\<lambda>text.
         bind_r (bind_r (loads text) (\<lambda>v. get_or v ''inputs'' (JObj []))) (\<lambda>inputs.
         bind_r (bind_r (iterate inputs) (map_r (as_string Unmodelled))) (\<lambda>recorded.
           Inr (if set recorded \<noteq> set expected
             then [''the state label records '' @ repr_list (sorted_set recorded) @ '', expected '' @
               repr_list (sorted_set expected)]
             else []))))))"

text \<open>\<open>blob\<close> fetches the configuration, \<open>reader\<close> is the consumer's own metadata reader.\<close>

definition verify_image ::
    "json \<Rightarrow> (json \<Rightarrow> json result) \<Rightarrow> string option \<Rightarrow> string list result \<Rightarrow> string list \<Rightarrow> bool \<Rightarrow> string list result" where
  "verify_image manifest blob refusal found_sources expected expect_state =
     bind_r (check_layers manifest) (\<lambda>layer_problems.
     bind_r (if expect_state
         then bind_r (bind_r (bind_r (item manifest ''config'') (\<lambda>c. item c ''digest'')) blob) (\<lambda>config.
           check_state config expected)
         else Inr []) (\<lambda>state_problems.
     let problems = layer_problems @ state_problems in
     case refusal of
       Some why \<Rightarrow> Inr (problems @ [concat [''Utah'', [CHR 0x27], ''s metadata reader refused the image: '', why]])
     | None \<Rightarrow> bind_r found_sources (\<lambda>found. Inr (problems @
         (if set found \<noteq> set expected
          then [''repository carries '' @ repr_list (sorted_set found) @ '', expected exactly '' @
            repr_list (sorted_set expected)]
          else [])))))"

subsection \<open>Names of build jobs\<close>

text \<open>The last \<open>/ build (\<close> whose parenthesis holds a package; \<open>.*\<close> does not pass a line feed.\<close>

fun build_tail :: "string \<Rightarrow> string option" where
  "build_tail [] = None"
| "build_tail (c # cs) =
     (case (if c = CHR 0x0A then None else build_tail cs) of
        Some p \<Rightarrow> Some p
      | None \<Rightarrow>
          let p = drop 9 (c # cs) in
          if starts_with ''/ build ('' (c # cs) \<and> p \<noteq> [] \<and> CHR '')'' \<notin> set p then Some p else None)"

definition rebuild_tail :: "string \<Rightarrow> (nat \<times> string) option" where
  "rebuild_tail s =
     (let rest = drop 10 s; digits = takeWhile is_digit rest; body = chomp (dropWhile is_digit rest) in
      if starts_with '' / rebuild'' s \<and> digits \<noteq> [] \<and> starts_with '' '' body \<and> last body = CHR '')''
      then map_option (\<lambda>p. (read_nat digits, p)) (build_tail (butlast (tl body)))
      else None)"

text \<open>\<open>BUILD_JOB\<close>: the pass and the package.\<close>

definition build_job :: "string \<Rightarrow> (string \<times> string) option" where
  "build_job s =
     (let digits = takeWhile is_digit (drop 4 s) in
      if starts_with ''pass'' s \<and> digits \<noteq> []
      then map_option (\<lambda>(_, p). (''pass'' @ digits, p)) (rebuild_tail (dropWhile is_digit (drop 4 s)))
      else None)"

text \<open>The job of one pass, its wave and its package; the pass's name has no regex characters.\<close>

definition pass_job :: "string \<Rightarrow> string \<Rightarrow> (nat \<times> string) option" where
  "pass_job name s = (if starts_with name s then rebuild_tail (drop (length name) s) else None)"

subsection \<open>Outcomes\<close>

definition build_step :: string where
  "build_step = ''Build the verified source with its RPM recipe''"

definition hermetic_step :: string where
  "hermetic_step = ''Build offline from the lock (hermetic)''"

definition restore_step :: string where
  "restore_step = ''Restore package RPM cache''"

definition job_name :: "json \<Rightarrow> string result" where
  "job_name job = bind_r (get_or job ''name'' (JStr [])) (as_string TypeError)"

definition job_steps :: "json \<Rightarrow> (string, string option) dict result" where
  "job_steps job =
     bind_r (bind_r (get_or job ''steps'' (JList [])) iterate) (\<lambda>steps.
     bind_r (map_r (\<lambda>step. bind_r (bind_r (item step ''name'') (as_string Unmodelled)) (\<lambda>n.
       bind_r (string_field step ''conclusion'') (\<lambda>c. Inr (n, c)))) steps) (\<lambda>pairs. Inr (dict_of_pairs pairs)))"

definition conclusion_of :: "(string, string option) dict \<Rightarrow> string \<Rightarrow> string option" where
  "conclusion_of steps name = (case map_of steps name of None \<Rightarrow> None | Some c \<Rightarrow> c)"

definition none_str :: "string option \<Rightarrow> string" where
  "none_str c = (case c of None \<Rightarrow> ''None'' | Some s \<Rightarrow> s)"

definition job_outcome :: "string option \<Rightarrow> (string, string option) dict \<Rightarrow> string" where
  "job_outcome conclusion steps =
     (let unbuilt = [None, Some ''skipped''];
          first = conclusion_of steps build_step;
          build = (if first \<in> set unbuilt \<and> conclusion_of steps hermetic_step \<notin> set unbuilt
                   then conclusion_of steps hermetic_step else first);
          restore = conclusion_of steps restore_step in
      if conclusion \<noteq> Some ''success'' then ''failed''
      else if build = Some ''success'' then ''compiled''
      else if build = Some ''skipped'' \<and> restore = Some ''success'' then ''cache hit''
      else ''unclear (build '' @ none_str build @ '', restore '' @ none_str restore @ '')'')"

type_synonym outcomes = "(string, (string, string) dict) dict"

definition add_outcome :: "string \<Rightarrow> string \<Rightarrow> string \<Rightarrow> outcomes \<Rightarrow> outcomes" where
  "add_outcome name package outcome d =
     AList.update name (AList.update package outcome (dict_get d name [])) d"

definition job_outcomes :: "json \<Rightarrow> outcomes \<Rightarrow> outcomes result" where
  "job_outcomes job d =
     bind_r (job_name job) (\<lambda>n. case build_job n of
         None \<Rightarrow> Inr d
       | Some (p, package) \<Rightarrow>
           bind_r (job_steps job) (\<lambda>steps.
           bind_r (string_field job ''conclusion'') (\<lambda>c.
             Inr (add_outcome p package (job_outcome c steps) d))))"

definition build_outcomes :: "json list \<Rightarrow> outcomes result" where
  "build_outcomes jobs = fold_r job_outcomes jobs []"

definition outcome_of :: "outcomes \<Rightarrow> string \<Rightarrow> string \<Rightarrow> string option" where
  "outcome_of d name package = map_of (dict_get d name []) package"

subsection \<open>The cache\<close>

definition rpms_of :: "json \<Rightarrow> json result" where
  "rpms_of lock = bind_r (get_or lock ''buildroot'' (JObj [])) (\<lambda>b. get_or b ''rpms'' (JList []))"

definition nevra :: "json \<Rightarrow> string result" where
  "nevra r =
     bind_r (get_or r ''epoch'' JNull) (\<lambda>epoch.
     bind_r (if truthy epoch then bind_r (py_str epoch) (\<lambda>s. Inr (s @ '':'')) else Inr []) (\<lambda>e.
     bind_r (bind_r (item r ''name'') py_str) (\<lambda>n.
     bind_r (bind_r (item r ''version'') py_str) (\<lambda>v.
     bind_r (bind_r (item r ''release'') py_str) (\<lambda>rel.
     bind_r (bind_r (item r ''arch'') py_str) (\<lambda>a.
       Inr (n @ ''-'' @ e @ v @ ''-'' @ rel @ ''.'' @ a)))))))"

definition lock_nevras :: "json \<Rightarrow> string list result" where
  "lock_nevras lock = bind_r (bind_r (bind_r (rpms_of lock) iterate) (map_r nevra)) (\<lambda>ns. Inr (sort ns))"

type_synonym pass_locks = "(string, (string, json) dict) dict"

definition lock_of :: "pass_locks option \<Rightarrow> string \<Rightarrow> string \<Rightarrow> json option" where
  "lock_of locks name package =
     (case locks of None \<Rightarrow> None | Some d \<Rightarrow> map_of (dict_get d name []) package)"

definition set_problem :: "outcomes \<Rightarrow> string \<times> string list \<Rightarrow> string list" where
  "set_problem outcomes = (\<lambda>(name, expected).
     let seen = map fst (dict_get outcomes name []) in
     if set seen \<noteq> set expected
     then [name @ '' built '' @ repr_list (sort seen) @ '', expected '' @ repr_list (sorted_set expected)]
     else [])"

definition moved_note :: "string \<Rightarrow> string \<Rightarrow> string list \<Rightarrow> string list \<Rightarrow> string" where
  "moved_note name package ones ns =
     (let added = map (\<lambda>n. ''+'' @ n) (filter (\<lambda>n. n \<notin> set ones) ns);
          removed = map (\<lambda>n. ''-'' @ n) (filter (\<lambda>n. n \<notin> set ns) ones) in
      name @ '': '' @ package @ '' recompiled due to buildroot NEVRA changes ('' @
        join '', '' (take 5 (added @ removed)) @ '')'')"

definition no_hit :: "string \<Rightarrow> string \<Rightarrow> string \<Rightarrow> string" where
  "no_hit name package outcome = name @ '': '' @ package @ '' was '' @ outcome @ '', not a cache hit''"

text \<open>The problems and the tolerated compiles of one package in one pass.\<close>

definition hit_verdict ::
    "outcomes \<Rightarrow> pass_locks option \<Rightarrow> string \<times> string \<Rightarrow> (string list \<times> string list) result" where
  "hit_verdict outcomes locks = (\<lambda>(package, name).
     case outcome_of outcomes name package of
       None \<Rightarrow> Inr ([], [])
     | Some outcome \<Rightarrow>
         if outcome = ''cache hit'' then Inr ([], [])
         else (case (lock_of locks ''pass1'' package, lock_of locks name package) of
             (Some one, Some now) \<Rightarrow>
               if outcome \<noteq> ''compiled'' then Inr ([no_hit name package outcome], [])
               else bind_r (lock_nevras one) (\<lambda>ones. bind_r (lock_nevras now) (\<lambda>ns.
                 Inr (if ones \<noteq> ns then ([], [moved_note name package ones ns])
                      else ([no_hit name package outcome], []))))
           | _ \<Rightarrow> Inr ([no_hit name package outcome], [])))"

definition perturbed_problem :: "outcomes \<Rightarrow> string \<Rightarrow> string list" where
  "perturbed_problem outcomes perturbed =
     (case outcome_of outcomes ''pass3'' perturbed of
        None \<Rightarrow> []
      | Some outcome \<Rightarrow>
          if outcome = ''compiled'' then []
          else [''pass3: '' @ perturbed @ '' was '' @ outcome @ ''; its recipe changed, so it must compile''])"

definition checked_pairs :: "string list \<Rightarrow> (string \<times> string) list" where
  "checked_pairs canary = concat (map (\<lambda>package. [(package, ''pass2''), (package, ''pass3'')]) (sorted_set canary))"

definition cache_problems ::
    "outcomes \<Rightarrow> string list \<Rightarrow> string \<Rightarrow> pass_locks option \<Rightarrow> (string list \<times> string list) result" where
  "cache_problems outcomes canary perturbed locks =
     bind_r (map_r (hit_verdict outcomes locks) (checked_pairs canary)) (\<lambda>verdicts.
       Inr (concat (map (set_problem outcomes) [(''pass2'', canary), (''pass3'', canary @ [perturbed])]) @
              concat (map fst verdicts) @ perturbed_problem outcomes perturbed,
            concat (map snd verdicts)))"

subsection \<open>The other passes\<close>

definition show_outcome :: "outcomes \<Rightarrow> string \<Rightarrow> string \<Rightarrow> string" where
  "show_outcome d name package = none_str (outcome_of d name package)"

text \<open>\<open>str(a.get(k, ""))\<close>.\<close>

definition text_field :: "json \<Rightarrow> string \<Rightarrow> string result" where
  "text_field v k = bind_r (get_or v k (JStr [])) py_str"

definition flaky_problems :: "json list \<Rightarrow> string \<Rightarrow> string \<Rightarrow> json list \<Rightarrow> string list result" where
  "flaky_problems jobs name package annotations =
     bind_r (build_outcomes jobs) (\<lambda>outcomes.
     bind_r (map_r (\<lambda>a. bind_r (text_field a ''title'') (\<lambda>t. bind_r (text_field a ''message'') (\<lambda>m.
       Inr (t @ '' '' @ m)))) annotations) (\<lambda>messages. Inr (
       (if outcome_of outcomes name package \<noteq> Some ''compiled''
        then [name @ '': '' @ package @ '' was '' @ show_outcome outcomes name package @ ''; it must compile to retry %check'']
        else []) @
       (if \<not> list_ex (\<lambda>m. contains ''flaky %check retry'' m \<and> contains package m) messages
        then [name @ '': no '' @ repr_str ''flaky %check retry'' @ '' annotation for '' @ package] else []) @
       (if \<not> list_ex (\<lambda>m. starts_with ''flaky %check '' m \<and> contains ''passed on retry'' m) messages
        then [name @ '': no '' @ repr_str ''passed on retry'' @ '' annotation for '' @ package] else []))))"

text \<open>The waves a pass built its packages in; a dict of package to number prints as \<open>repr\<close>.\<close>

definition job_waves :: "string \<Rightarrow> json list \<Rightarrow> (string, int) dict result" where
  "job_waves name jobs =
     fold_r (\<lambda>job waves. bind_r (job_name job) (\<lambda>n. Inr (case pass_job name n of
         None \<Rightarrow> waves
       | Some (w, package) \<Rightarrow> AList.update package (int w) waves))) jobs []"

definition repr_waves :: "(string, int) dict \<Rightarrow> string" where
  "repr_waves d = ''{'' @ join '', '' (map (\<lambda>(p, w). repr_str p @ '': '' @ show_int w) d) @ ''}''"

definition same_dict :: "('k, 'v) dict \<Rightarrow> ('k, 'v) dict \<Rightarrow> bool" where
  "same_dict d e = (length d = length e \<and> list_all (\<lambda>(k, v). map_of e k = Some v) d)"

definition incremental_problems ::
    "json list \<Rightarrow> string list option \<Rightarrow> (string, int) dict \<Rightarrow> string \<Rightarrow> string list result" where
  "incremental_problems jobs build_list expected name =
     bind_r (job_waves name jobs) (\<lambda>waves. Inr (
       (if sort (case build_list of None \<Rightarrow> [] | Some xs \<Rightarrow> xs) \<noteq> sort (map fst expected)
        then [name @ '' selected '' @ (case build_list of None \<Rightarrow> ''None'' | Some xs \<Rightarrow> repr_list xs) @
          '', expected '' @ repr_list (sort (map fst expected))]
        else []) @
       (if \<not> same_dict waves expected
        then [name @ '' built in waves '' @ repr_waves waves @ '', expected '' @ repr_waves expected] else [])))"

definition built_problems :: "(string, string) dict \<Rightarrow> string list \<Rightarrow> string \<Rightarrow> string list" where
  "built_problems outcomes expected name =
     (if set (map fst outcomes) \<noteq> set expected
      then [name @ '' built '' @ repr_list (sort (map fst outcomes)) @ '', expected '' @ repr_list (sorted_set expected)]
      else []) @
     concat (map (\<lambda>package.
       if map_of outcomes package \<in> {Some ''compiled'', Some ''cache hit''} then []
       else [name @ '': '' @ package @ '' was '' @ none_str (map_of outcomes package)]) (sorted_set expected))"

subsection \<open>Downloaded locks\<close>

text \<open>\<open>lock-s<N>-<package>\<close>: the package, to the end of the line.\<close>

definition artifact_here :: "string \<Rightarrow> string option" where
  "artifact_here s =
     (let rest = drop 6 s; digits = takeWhile is_digit rest; t = dropWhile is_digit rest;
          package = takeWhile (\<lambda>c. c \<noteq> CHR 0x0A) (tl t) in
      if starts_with ''lock-s'' s \<and> digits \<noteq> [] \<and> starts_with ''-'' t \<and> package \<noteq> [] \<and>
         drop (length package) (tl t) \<in> {[], [CHR 0x0A]}
      then Some package else None)"

text \<open>\<open>LOCK_ARTIFACT.search\<close>: the first place that matches.\<close>

fun lock_artifact :: "string \<Rightarrow> string option" where
  "lock_artifact [] = None"
| "lock_artifact (c # cs) =
     (case artifact_here (c # cs) of Some p \<Rightarrow> Some p | None \<Rightarrow> lock_artifact cs)"

text \<open>\<open>PASS_LOCK_ARTIFACT\<close>: the name of the pass and the package.\<close>

definition pass_artifact :: "string \<Rightarrow> (string \<times> string) option" where
  "pass_artifact s =
     (let digits = takeWhile is_digit (tl s); rest = dropWhile is_digit (tl s) in
      if starts_with ''p'' s \<and> digits \<noteq> [] \<and> starts_with ''-'' rest
      then map_option (\<lambda>p. (''pass'' @ digits, p)) (artifact_here (tl rest))
      else map_option (\<lambda>p. (''pass1'', p)) (artifact_here s))"

text \<open>A directory tree: the parts of each file's path below it and the file's text.\<close>

type_synonym file_tree = "(string list \<times> string) list"

definition lock_files :: "file_tree \<Rightarrow> file_tree" where
  "lock_files tree = sort_key fst (filter (\<lambda>(parts, _). parts \<noteq> [] \<and> last parts = ''buildroot_lock.json'') tree)"

definition read_locks :: "file_tree \<Rightarrow> (string, json) dict result" where
  "read_locks tree =
     fold_r (\<lambda>(parts, text) locks. case lock_artifact (hd parts) of
         None \<Rightarrow> Inr locks
       | Some package \<Rightarrow> bind_r (loads text) (\<lambda>v. Inr (AList.update package v locks))) (lock_files tree) []"

definition read_pass_locks :: "file_tree \<Rightarrow> pass_locks result" where
  "read_pass_locks tree =
     fold_r (\<lambda>(parts, text) locks. case pass_artifact (hd parts) of
         None \<Rightarrow> Inr locks
       | Some (name, package) \<Rightarrow> bind_r (loads text) (\<lambda>v.
           Inr (AList.update name (AList.update package v (dict_get locks name [])) locks))) (lock_files tree) []"

subsection \<open>The hermetic lane\<close>

definition lock_problems :: "string \<Rightarrow> (string, json) dict \<Rightarrow> string \<Rightarrow> string list result" where
  "lock_problems name locks package =
     (case map_of locks package of
        None \<Rightarrow> Inr [name @ '': no buildroot_lock.json for '' @ package]
      | Some lock \<Rightarrow>
          if lock = JNull then Inr [name @ '': no buildroot_lock.json for '' @ package]
          else bind_r (rpms_of lock) (\<lambda>rpms.
          bind_r (bind_r (get_or lock ''bootstrap'' JNull) (\<lambda>b. get_or (or_object b) ''pull_digest'' JNull)) (\<lambda>pin. Inr (
            (if \<not> truthy rpms then [concat [name, '': '', package, [CHR 0x27], ''s lock records no packages'']] else []) @
            (if \<not> truthy pin
             then [concat [name, '': '', package, [CHR 0x27], ''s lock does not pin the bootstrap image'']] else [])))))"

definition staged_rpm :: "string \<Rightarrow> json \<Rightarrow> bool result" where
  "staged_rpm provider r =
     bind_r (bind_r (get_or r ''name'' (JStr [])) (as_string AttributeError)) (\<lambda>n.
       if \<not> starts_with provider n then Inr False
       else bind_r (text_field r ''url'') (\<lambda>u. Inr (starts_with ''file:///work/prior/'' u)))"

definition stage_problem :: "string \<Rightarrow> (string, json) dict \<Rightarrow> string \<times> string \<Rightarrow> string list result" where
  "stage_problem name locks = (\<lambda>(consumer, provider).
     bind_r (rpms_of (case map_of locks consumer of None \<Rightarrow> JObj [] | Some lock \<Rightarrow> or_object lock)) (\<lambda>rpms.
     bind_r (bind_r (iterate rpms) (map_r (staged_rpm provider))) (\<lambda>staged.
       Inr (if True \<in> set staged then []
         else [concat [name, '': '', consumer, [CHR 0x27], ''s lock does not take '', provider, '' from the earlier stage'']]))))"

definition hermetic_problems ::
    "(string, string) dict \<Rightarrow> (string, json) dict \<Rightarrow> string list \<Rightarrow> (string, string) dict \<Rightarrow> string \<Rightarrow> string list result" where
  "hermetic_problems outcomes locks canary dependencies name =
     bind_r (map_r (lock_problems name locks) (sorted_set canary)) (\<lambda>locked.
     bind_r (map_r (stage_problem name locks) dependencies) (\<lambda>staged.
       Inr (map (replace_all ''pass6'' name) (built_problems outcomes canary ''pass6'') @ concat locked @ concat staged)))"

subsection \<open>Early publication\<close>

definition early_publish_problems :: "json list \<Rightarrow> string \<Rightarrow> nat \<Rightarrow> string list result" where
  "early_publish_problems jobs name wave =
     bind_r (map_r (\<lambda>job. bind_r (bind_r (get_or job ''name'' (JStr [])) (as_string Unmodelled)) (\<lambda>n. Inr (n, job))) jobs)
       (\<lambda>pairs. let by_name = dict_of_pairs pairs in
       case map_of by_name (name @ '' / publish'' @ show_nat wave @ '' / publish'') of
         None \<Rightarrow> Inr [name @ '': no early publication after wave '' @ show_nat wave]
       | Some early \<Rightarrow>
           bind_r (job_steps early) (\<lambda>steps.
           bind_r (case map_of by_name (name @ '' / publish / publish'') of
               None \<Rightarrow> Inr False
             | Some final \<Rightarrow>
                 bind_r (bind_r (get_or early ''completed_at'' (JStr [])) (as_string TypeError)) (\<lambda>done_at.
                 bind_r (bind_r (get_or final ''started_at'' (JStr ''~'')) (as_string TypeError)) (\<lambda>started.
                   Inr (started < done_at)))) (\<lambda>late. Inr (
             (if conclusion_of steps ''Publish the repository as an OCI image'' \<noteq> Some ''success''
              then [name @ '': the wave-'' @ show_nat wave @ '' publication pushed no image''] else []) @
             (if late then [name @ '': the wave-'' @ show_nat wave @ '' publication did not finish before the final one'']
              else [])))))"

subsection \<open>The report\<close>

definition tolerated_heading :: string where
  "tolerated_heading =
     ''**Tolerated compiles** (buildroot NEVRAs moved since pass1, so the cache key legitimately changed):''"

definition outcome_rows :: "string \<times> (string, string) dict \<Rightarrow> string list" where
  "outcome_rows = (\<lambda>(name, packages). map (\<lambda>package.
     ''| '' @ name @ '' | `'' @ package @ ''` | '' @ dict_get packages package [] @ '' |'') (sort (map fst packages)))"

definition cache_summary :: "outcomes \<Rightarrow> string list \<Rightarrow> string list \<Rightarrow> string" where
  "cache_summary outcomes problems tolerated =
     (let head = [''### Canary cache'', [], ''| pass | package | outcome |'', ''| --- | --- | --- |''] @
            concat (map (\<lambda>name. outcome_rows (name, dict_get outcomes name [])) (sort (map fst outcomes))) @ [[]];
          bullets = map (\<lambda>x. ''- '' @ x);
          body = (if problems \<noteq> [] then [''**Failed:**'', []] @ bullets problems @
              (if tolerated \<noteq> [] then [[], tolerated_heading, []] @ bullets tolerated else [])
            else if tolerated \<noteq> [] then [tolerated_heading, []] @ bullets tolerated @
              [[], ''Every other pass2/pass3 build was a cache hit; pass3 compiled the perturbed package.'']
            else [''pass2 compiled nothing; pass3 compiled only the perturbed package.''])
      in join [CHR 0x0A] (head @ body) @ [CHR 0x0A])"

subsection \<open>The commands\<close>

text \<open>What a command prints to its two streams, one entry per \<open>print\<close>, and its exit status.\<close>

record run_output =
  out_status :: nat
  out_stdout :: "string list"
  out_stderr :: "string list"

definition reported :: "string \<Rightarrow> string list \<Rightarrow> string list \<Rightarrow> string list \<Rightarrow> run_output" where
  "reported title printed notices problems =
     \<lparr>out_status = (if problems = [] then 0 else 1), out_stdout = printed,
       out_stderr = notices @ map (\<lambda>p. ''::error title='' @ title @ ''::'' @ p) problems\<rparr>"

definition json_values :: "string \<Rightarrow> json list result" where
  "json_values text = bind_r (loads text) list_of"

definition json_strings :: "string \<Rightarrow> string list result" where
  "json_strings text = bind_r (bind_r (loads text) iterate) (map_r (as_string Unmodelled))"

definition touches_main :: "string \<Rightarrow> run_output" where
  "touches_main stdin =
     \<lparr>out_status = (if touches_pipeline (splitlines stdin) then 0 else 1), out_stdout = [], out_stderr = []\<rparr>"

definition pr_main :: "tool \<Rightarrow> string \<Rightarrow> int \<Rightarrow> string \<Rightarrow> run_output result" where
  "pr_main gh repository pr names =
     bind_r (json_strings names) (\<lambda>canary.
     bind_r (pr_relevant gh repository pr canary) (\<lambda>relevant.
       Inr \<lparr>out_status = (if relevant then 0 else 1), out_stdout = [], out_stderr = []\<rparr>))"

definition merge_group_main :: "tool \<Rightarrow> tool \<Rightarrow> string \<Rightarrow> string \<Rightarrow> string \<Rightarrow> string \<Rightarrow> run_output result" where
  "merge_group_main gh git repository head_ref head_sha names =
     bind_r (json_strings names) (\<lambda>canary.
     bind_r (merge_group_proof gh git repository head_ref head_sha canary) (\<lambda>(proven, reason). Inr (
       if proven then \<lparr>out_status = 0, out_stdout = [reason], out_stderr = []\<rparr>
       else reported ''canary merge group'' [] [] [reason])))"

definition flaky_job :: "string \<Rightarrow> string \<Rightarrow> json list \<Rightarrow> json option result" where
  "flaky_job name package jobs =
     fold_r (\<lambda>job found. case found of
         Some j \<Rightarrow> Inr found
       | None \<Rightarrow> bind_r (job_name job) (\<lambda>n.
           Inr (if build_job n = Some (name, package) then Some job else None))) jobs None"

definition flaky_main :: "tool \<Rightarrow> string \<Rightarrow> string \<Rightarrow> string \<Rightarrow> string \<Rightarrow> run_output result" where
  "flaky_main gh repository jobs_text name package =
     bind_r (json_values jobs_text) (\<lambda>jobs.
     bind_r (flaky_job name package jobs) (\<lambda>found.
     bind_r (case found of
         None \<Rightarrow> Inr []
       | Some job \<Rightarrow> bind_r (bind_r (item job ''id'') py_str) (\<lambda>i. bind_r
           (gh [''api'', ''repos/'' @ repository @ ''/check-runs/'' @ i @ ''/annotations'']) json_values))
       (\<lambda>annotations.
     bind_r (flaky_problems jobs name package annotations) (\<lambda>problems.
       Inr (reported ''canary flaky check'' (if problems = []
         then [name @ '': '' @ package @ '' failed %check once, was retried, and built''] else []) [] problems)))))"

definition int_items :: "json \<Rightarrow> (string, int) dict result" where
  "int_items v = bind_r (items_of v) (map_r (\<lambda>(k, w). case w of JInt n \<Rightarrow> Inr (k, n) | _ \<Rightarrow> Inl Unmodelled))"

definition incremental_main :: "string \<Rightarrow> string \<Rightarrow> string \<Rightarrow> run_output result" where
  "incremental_main jobs_text list_text expect_text =
     bind_r (json_values jobs_text) (\<lambda>jobs.
     bind_r (bind_r (loads (if list_text = [] then ''null'' else list_text)) (\<lambda>v.
       if v = JNull then Inr None
       else bind_r (bind_r (iterate v) (map_r (as_string Unmodelled))) (\<lambda>xs. Inr (Some xs)))) (\<lambda>build_list.
     bind_r (bind_r (loads expect_text) int_items) (\<lambda>expected.
     bind_r (incremental_problems jobs build_list expected ''pass5'') (\<lambda>problems.
       Inr (reported ''canary incremental'' [''### Canary incremental selection'' @ [CHR 0x0A],
         if problems = [] then ''Selected exactly the change and its reverse dependency, in solved waves.''
         else join [CHR 0x0A] (map (\<lambda>p. ''- '' @ p) problems)] [] problems)))))"

definition dependency_of :: "string \<Rightarrow> (string \<times> string) result" where
  "dependency_of s =
     (if CHR ''='' \<in> set s then Inr (before CHR ''='' s, tl (dropWhile (\<lambda>c. c \<noteq> CHR ''='') s))
      else Inl (ValueError ''dictionary update sequence element''))"

definition hermetic_main :: "string \<Rightarrow> string \<Rightarrow> file_tree \<Rightarrow> string \<Rightarrow> string list \<Rightarrow> run_output result" where
  "hermetic_main jobs_text name tree names dependency_args =
     bind_r (bind_r (json_values jobs_text) build_outcomes) (\<lambda>all_outcomes.
     let outcomes = dict_get all_outcomes name [] in
     bind_r (read_locks tree) (\<lambda>locks.
     bind_r (map_r dependency_of dependency_args) (\<lambda>pairs.
     bind_r (json_strings names) (\<lambda>canary.
     bind_r (hermetic_problems outcomes locks canary (dict_of_pairs pairs) name) (\<lambda>problems.
     bind_r (map_r (\<lambda>package. bind_r (dict_index locks package) (\<lambda>lock.
         bind_r (bind_r (bind_r (item lock ''buildroot'') (\<lambda>b. item b ''rpms'')) iterate) (\<lambda>rpms.
           Inr (''- `'' @ package @ ''`: '' @ none_str (map_of outcomes package) @ '', '' @
             show_nat (length rpms) @ '' locked packages'')))) (sort (map fst locks))) (\<lambda>lines.
       Inr (reported ''canary hermetic'' ((''### Canary hermetic lane'' @ [CHR 0x0A]) # lines) [] problems)))))))"

definition built_main :: "string \<Rightarrow> string \<Rightarrow> string \<Rightarrow> run_output result" where
  "built_main jobs_text name names =
     bind_r (bind_r (json_values jobs_text) build_outcomes) (\<lambda>all_outcomes.
     let outcomes = dict_get all_outcomes name [] in
     bind_r (json_strings names) (\<lambda>canary.
       Inr (reported (''canary '' @ name)
         ((''### Canary '' @ name @ [CHR 0x0A]) #
           map (\<lambda>package. ''- `'' @ package @ ''`: '' @ dict_get outcomes package []) (sort (map fst outcomes)))
         [] (built_problems outcomes canary name))))"

definition early_main :: "string \<Rightarrow> string \<Rightarrow> nat \<Rightarrow> run_output result" where
  "early_main jobs_text name wave =
     bind_r (json_values jobs_text) (\<lambda>jobs.
     bind_r (early_publish_problems jobs name wave) (\<lambda>problems.
       Inr (reported ''canary early publish'' (if problems = []
         then [name @ '': wave '' @ show_nat wave @ '' published on its own, before the final publication'']
         else []) [] problems)))"

definition cache_main :: "string \<Rightarrow> string \<Rightarrow> string \<Rightarrow> file_tree option \<Rightarrow> run_output result" where
  "cache_main jobs_text names perturbed tree =
     bind_r (bind_r (json_values jobs_text) build_outcomes) (\<lambda>outcomes.
     bind_r (case tree of None \<Rightarrow> Inr None | Some t \<Rightarrow> bind_r (read_pass_locks t) (\<lambda>l. Inr (Some l))) (\<lambda>locks.
     bind_r (json_strings names) (\<lambda>canary.
     bind_r (cache_problems outcomes canary perturbed locks) (\<lambda>(problems, tolerated).
       Inr (reported ''canary cache'' [cache_summary outcomes problems tolerated]
         (map (\<lambda>note. ''::notice title=canary cache::'' @ note) tolerated) problems)))))"

subsection \<open>Facts about outcomes\<close>

definition build_passed :: "(string, string option) dict \<Rightarrow> bool" where
  "build_passed steps = (conclusion_of steps build_step = Some ''success'' \<or>
     conclusion_of steps build_step \<in> {None, Some ''skipped''} \<and> conclusion_of steps hermetic_step = Some ''success'')"

definition build_skipped :: "(string, string option) dict \<Rightarrow> bool" where
  "build_skipped steps = (conclusion_of steps build_step = Some ''skipped'' \<and>
     conclusion_of steps hermetic_step \<in> {None, Some ''skipped''})"

lemma outcome_compiled:
  "job_outcome c steps = ''compiled'' \<longleftrightarrow> c = Some ''success'' \<and> build_passed steps"
  by (auto simp: job_outcome_def build_passed_def Let_def)

lemma outcome_hit:
  "job_outcome c steps = ''cache hit'' \<longleftrightarrow> c = Some ''success'' \<and> build_skipped steps \<and>
     conclusion_of steps restore_step = Some ''success''"
  by (auto simp: job_outcome_def build_skipped_def Let_def)

text \<open>A job of the pass that built the package and concluded, and its steps.\<close>

definition ran :: "json \<Rightarrow> string \<Rightarrow> string \<Rightarrow> string option \<Rightarrow> (string, string option) dict \<Rightarrow> bool" where
  "ran job p package c steps = (\<exists>n. job_name job = Inr n \<and> build_job n = Some (p, package) \<and>
     job_steps job = Inr steps \<and> string_field job ''conclusion'' = Inr c)"

lemma outcome_of_add:
  "outcome_of (add_outcome p package x d) q k = (if q = p \<and> k = package then Some x else outcome_of d q k)"
  by (simp add: outcome_of_def add_outcome_def)

lemma job_outcomes_cases:
  assumes "job_outcomes job d = Inr d'"
  obtains (other) "d' = d" "\<And>n. job_name job = Inr n \<Longrightarrow> build_job n = None"
    | (build) p package c steps where "ran job p package c steps"
        "d' = add_outcome p package (job_outcome c steps) d"
  using assms unfolding job_outcomes_def bind_r_Inr ran_def
  by (elim exE conjE) (auto simp: bind_r_Inr split: option.splits)

lemma outcomes_from:
  assumes "fold_r job_outcomes jobs d = Inr d'" and "outcome_of d' p k = Some x"
  shows "outcome_of d p k = Some x \<or> (\<exists>job \<in> set jobs. \<exists>c steps. ran job p k c steps \<and> x = job_outcome c steps)"
  using assms
proof (induction jobs arbitrary: d)
  case Nil
  then show ?case by simp
next
  case (Cons job jobs)
  from Cons.prems(1) obtain d1 where d1: "job_outcomes job d = Inr d1" "fold_r job_outcomes jobs d1 = Inr d'"
    by (auto simp: bind_r_Inr)
  from Cons.IH [OF d1(2) Cons.prems(2)] show ?case
  proof
    assume d1p: "outcome_of d1 p k = Some x"
    from d1(1) show ?thesis
    proof (cases rule: job_outcomes_cases)
      case other
      with d1p show ?thesis by simp
    next
      case (build q package c steps)
      with d1p show ?thesis by (auto simp: outcome_of_add split: if_splits)
    qed
  qed auto
qed

lemma outcomes_kept:
  assumes "fold_r job_outcomes jobs d = Inr d'" and "outcome_of d p k \<noteq> None"
  shows "outcome_of d' p k \<noteq> None"
proof (rule fold_r_invariant [where I = "\<lambda>d. outcome_of d p k \<noteq> None", OF assms])
  fix job s t assume "outcome_of s p k \<noteq> None" "job_outcomes job s = Inr t"
  from this(2,1) show "outcome_of t p k \<noteq> None"
    by (cases rule: job_outcomes_cases) (auto simp: outcome_of_add)
qed

lemma outcomes_seen:
  assumes "fold_r job_outcomes jobs d = Inr d'" and "job \<in> set jobs"
    and "job_name job = Inr n" "build_job n = Some (p, k)"
  shows "outcome_of d' p k \<noteq> None"
  using assms(1,2)
proof (induction jobs arbitrary: d)
  case (Cons j jobs)
  from Cons.prems(1) obtain d1 where d1: "job_outcomes j d = Inr d1" "fold_r job_outcomes jobs d1 = Inr d'"
    by (auto simp: bind_r_Inr)
  show ?case
  proof (cases "job = j")
    case True
    from d1(1) have "outcome_of d1 p k \<noteq> None"
      by (cases rule: job_outcomes_cases) (use True assms(3,4) in \<open>auto simp: outcome_of_add ran_def\<close>)
    with outcomes_kept [OF d1(2)] show ?thesis .
  next
    case False
    with Cons.prems(2) Cons.IH [OF d1(2)] show ?thesis by simp
  qed
qed simp

subsection \<open>Facts about the cache verdict\<close>

text \<open>The buildroot of the package moved between the first pass and this one.\<close>

definition buildroot_moved :: "pass_locks option \<Rightarrow> string \<Rightarrow> string \<Rightarrow> bool" where
  "buildroot_moved locks name package = (\<exists>one now ones ns.
     lock_of locks ''pass1'' package = Some one \<and> lock_of locks name package = Some now \<and>
     lock_nevras one = Inr ones \<and> lock_nevras now = Inr ns \<and> ones \<noteq> ns)"

lemma hit_verdict_clean:
  assumes "hit_verdict outcomes locks (package, name) = Inr ([], tol)" and "outcome_of outcomes name package = Some x"
  shows "x = ''cache hit'' \<or> x = ''compiled'' \<and> buildroot_moved locks name package"
  using assms unfolding hit_verdict_def buildroot_moved_def
  by (auto simp: bind_r_Inr split: if_splits option.splits)

lemma set_problem_clean:
  assumes "set_problem outcomes (name, expected) = []"
  shows "outcome_of outcomes name k \<noteq> None \<longleftrightarrow> k \<in> set expected"
proof -
  have "fst ` set (dict_get outcomes name []) = set expected"
    using assms by (auto simp: set_problem_def Let_def split: if_splits)
  then show ?thesis by (auto simp: outcome_of_def map_of_eq_None_iff)
qed

lemma cache_clean:
  assumes "cache_problems outcomes canary perturbed locks = Inr ([], tol)"
  shows "set_problem outcomes (''pass2'', canary) = []"
    and "set_problem outcomes (''pass3'', canary @ [perturbed]) = []"
    and "perturbed_problem outcomes perturbed = []"
    and "package \<in> set canary \<Longrightarrow> name \<in> {''pass2'', ''pass3''} \<Longrightarrow>
      \<exists>tol. hit_verdict outcomes locks (package, name) = Inr ([], tol)"
proof -
  from assms obtain verdicts where v: "map_r (hit_verdict outcomes locks) (checked_pairs canary) = Inr verdicts"
    and clean: "set_problem outcomes (''pass2'', canary) = []" "set_problem outcomes (''pass3'', canary @ [perturbed]) = []"
      "perturbed_problem outcomes perturbed = []" "\<forall>w \<in> set verdicts. fst w = []"
    by (auto simp: cache_problems_def bind_r_Inr)
  show "set_problem outcomes (''pass2'', canary) = []"
    "set_problem outcomes (''pass3'', canary @ [perturbed]) = []"
    "perturbed_problem outcomes perturbed = []" by (fact clean)+
  assume "package \<in> set canary" "name \<in> {''pass2'', ''pass3''}"
  then have "(package, name) \<in> set (checked_pairs canary)" by (auto simp: checked_pairs_def)
  from map_r_mem [OF v this] clean(4) show "\<exists>tol. hit_verdict outcomes locks (package, name) = Inr ([], tol)"
    by (metis prod.collapse)
qed


definition sample_build_job :: "string \<Rightarrow> string \<Rightarrow> string \<Rightarrow> json" where
  "sample_build_job name build restore = JObj [(''name'', JStr name), (''conclusion'', JStr ''success''),
     (''steps'', JList [JObj [(''name'', JStr build_step), (''conclusion'', JStr build)],
       JObj [(''name'', JStr restore_step), (''conclusion'', JStr restore)]])]"

definition sample_jobs :: "json list" where
  "sample_jobs = [sample_build_job ''pass2 / rebuild0 / build (bash)'' ''skipped'' ''success'',
     sample_build_job ''pass3 / rebuild0 (x) / build (bash)'' ''skipped'' ''success'',
     sample_build_job ''pass3 / rebuild1 / build (zlib)'' ''success'' ''skipped'']"

definition sample_outcomes :: outcomes where
  "sample_outcomes = [(''pass2'', [(''bash'', ''cache hit'')]),
     (''pass3'', [(''bash'', ''cache hit''), (''zlib'', ''compiled'')])]"


end
