(* ===== verification/Fork_Canary.thy ===== *)
theory Fork_Canary
  imports Canary_Relevance
begin

section \<open>Trust in pull requests (\<open>fork_canary.py\<close>, \<open>bot_pr_trust.py\<close>)\<close>

text \<open>
  Whether a fork's reviewed commit may be copied into the repository so that the canary can run on
  it, whether a canary already passed on a commit, and whether a dispatch names the repository's own
  bot pull request. The pull request and the runs are the JSON the workflows fetch.
\<close>

subsection \<open>Copying a reviewed commit\<close>

definition branch_prefix :: string where
  "branch_prefix = ''canary/pr-''"

definition protected_prefix :: string where
  "protected_prefix = ''.github/''"

definition files_api_limit :: int where
  "files_api_limit = 3000"

text \<open>\<open>FULL_SHA.fullmatch\<close>.\<close>

definition exact_sha :: "string \<Rightarrow> bool" where
  "exact_sha s = (length s = 40 \<and> list_all hex_char s)"

definition branch_for :: "int \<Rightarrow> string" where
  "branch_for pr = branch_prefix @ show_int pr"

text \<open>\<open>(v.get(k) or {})\<close>.\<close>

definition get_object :: "json \<Rightarrow> string \<Rightarrow> json result" where
  "get_object v k = bind_r (get_or v k JNull) (\<lambda>w. Inr (if truthy w then w else JObj []))"

definition refuse :: "string \<Rightarrow> string result" where
  "refuse why = Inl (Refused why)"

definition refuse_shown :: "string \<Rightarrow> json \<Rightarrow> string \<Rightarrow> string result" where
  "refuse_shown a v b = bind_r (py_str v) (\<lambda>s. refuse (a @ s @ b))"

definition check_files :: "json \<Rightarrow> string list \<Rightarrow> string result" where
  "check_files changed files =
     (case as_int changed of
        Some n \<Rightarrow>
          if n < files_api_limit then
            let protected_files = sorted_set (filter (starts_with protected_prefix) files) in
            if protected_files \<noteq> [] then refuse (concat [''the pull request changes '', join '', '' protected_files,
              ''. Workflow changes never run with this repository'', [CHR 0x27],
              ''s credentials from a fork; a maintainer must review them and push the branch by hand''])
            else Inr ''copy''
          else refuse_shown ''the pull request changes '' changed
            '' files; GitHub lists at most 3000, so its .github/ changes cannot all be checked. A maintainer must review it and push the branch by hand''
      | None \<Rightarrow> refuse_shown ''the pull request changes '' changed
            '' files; GitHub lists at most 3000, so its .github/ changes cannot all be checked. A maintainer must review it and push the branch by hand'')"

definition decide :: "json \<Rightarrow> string list \<Rightarrow> string \<Rightarrow> string \<Rightarrow> string result" where
  "decide pr files repository reviewed =
     (if \<not> exact_sha reviewed then
        refuse (''head_sha must be the full 40-character commit you reviewed, got '' @ repr_str reviewed)
      else bind_r (get_or pr ''state'' JNull) (\<lambda>state.
        if state \<noteq> JStr ''open'' then refuse_shown ''pull request is '' state '', not open''
        else bind_r (bind_r (get_object pr ''base'') (\<lambda>b. get_or b ''ref'' JNull)) (\<lambda>target.
          if target \<noteq> JStr ''main'' then refuse ''pull request does not target main''
          else bind_r (get_object pr ''head'') (\<lambda>head. bind_r (get_or head ''sha'' JNull) (\<lambda>sha.
            if sha \<noteq> JStr reviewed then refuse_shown ''the pull request head is '' sha ('', not the '' @ reviewed @
              '' you reviewed: it moved. Review the new commits, then run this again with the new head'')
            else bind_r (get_or head ''repo'' JNull) (\<lambda>repo.
              if repo = JNull then refuse ''the fork this pull request came from was deleted''
              else bind_r (get_or repo ''full_name'' JNull) (\<lambda>full_name.
                if full_name = JStr repository then Inr ''skip''
                else bind_r (get_or pr ''changed_files'' JNull) (\<lambda>changed. check_files changed files))))))))"

subsection \<open>A proof that already exists\<close>

definition proves :: "int \<Rightarrow> string \<Rightarrow> json \<Rightarrow> bool result" where
  "proves pr sha run =
     bind_r (get_or run ''event'' JNull) (\<lambda>event.
     bind_r (get_or run ''head_branch'' JNull) (\<lambda>branch.
     bind_r (get_or run ''head_sha'' JNull) (\<lambda>head.
     bind_r (get_or run ''status'' JNull) (\<lambda>status.
     bind_r (get_or run ''conclusion'' JNull) (\<lambda>conclusion.
       Inr (event = JStr ''workflow_dispatch'' \<and> branch = JStr (branch_for pr) \<and> head = JStr sha \<and>
         status = JStr ''completed'' \<and> conclusion = JStr ''success''))))))"

definition has_proof :: "json list \<Rightarrow> int \<Rightarrow> string \<Rightarrow> bool result" where
  "has_proof runs pr sha = any_r (proves pr sha) runs"

text \<open>A command: its exit status and what it prints.\<close>

definition proof_main :: "string \<Rightarrow> int \<Rightarrow> string \<Rightarrow> (nat \<times> string list) result" where
  "proof_main runs_text pr sha =
     (if \<not> exact_sha sha then Inr (1, [''::error title=fork canary::not a full commit sha: '' @ repr_str sha])
      else bind_r (loads runs_text) (\<lambda>data.
        bind_r (case data of
            JObj _ \<Rightarrow> get_or data ''workflow_runs'' (JList [])
          | _ \<Rightarrow> Inr data) (\<lambda>v. bind_r (iterate v) (\<lambda>runs.
        bind_r (has_proof runs pr sha) (\<lambda>proven. Inr (
          if proven then (0, [''::notice title=fork canary::a maintainer-run Canary passed on '' @ take 12 sha @
            '' from '' @ branch_for pr])
          else (1, [])))))))"

definition fork_main :: "string \<Rightarrow> string \<Rightarrow> string \<Rightarrow> string \<Rightarrow> (nat \<times> string list) result" where
  "fork_main pr_text files_text repository sha =
     bind_r (loads pr_text) (\<lambda>pr.
       case decide pr (filter (\<lambda>l. l \<noteq> []) (splitlines files_text)) repository sha of
         Inr action \<Rightarrow> Inr (0, (if action = ''skip''
           then [''::notice title=fork canary::this pull request is from this repository, so Canary already runs on it; nothing to copy'']
           else []) @ [''action='' @ action])
       | Inl (Refused why) \<Rightarrow> Inr (1, [''::error title=fork canary::'' @ why])
       | Inl e \<Rightarrow> Inl e)"

subsection \<open>The repository's own bot\<close>

definition branch_char :: "char \<Rightarrow> bool" where
  "branch_char c = (let n = of_char c :: nat in
     is_digit c \<or> (65 \<le> n \<and> n \<le> 90) \<or> (97 \<le> n \<and> n \<le> 122))"

definition bot_branch :: "string \<Rightarrow> bool" where
  "bot_branch s = (s = ''chore/buildroot-mirror'' \<or>
     (starts_with ''import/rawhide-'' s \<and>
       (case drop 15 s of
          [] \<Rightarrow> False
        | c # cs \<Rightarrow> branch_char c \<and> list_all (\<lambda>d. branch_char d \<or> d \<in> set ''_.+-'') cs)))"

text \<open>\<open>v.get(a, {}).get(b)\<close>.\<close>

definition get_in :: "json \<Rightarrow> string \<Rightarrow> string \<Rightarrow> json result" where
  "get_in v a b = bind_r (get_or v a (JObj [])) (\<lambda>w. get_or w b JNull)"

text \<open>\<open>and\<close> over comparisons, from the left, with the errors of those reached.\<close>

fun all_r :: "bool result list \<Rightarrow> bool result" where
  "all_r [] = Inr True"
| "all_r (x # xs) = bind_r x (\<lambda>b. if b then all_r xs else Inr False)"

definition is_value :: "json result \<Rightarrow> string \<Rightarrow> bool result" where
  "is_value r s = bind_r r (\<lambda>v. Inr (v = JStr s))"

definition verify :: "json \<Rightarrow> string \<Rightarrow> string \<Rightarrow> string \<Rightarrow> unit result" where
  "verify pr repository sha branch =
     (if \<not> bot_branch branch then Inl (ValueError ''dispatch ref is not an allowed bot branch'')
      else bind_r (all_r [is_value (get_or pr ''state'' JNull) ''OPEN'',
          is_value (get_or pr ''baseRefName'' JNull) ''main'',
          is_value (get_or pr ''headRefName'' JNull) branch,
          is_value (get_or pr ''headRefOid'' JNull) sha,
          is_value (get_in pr ''headRepository'' ''nameWithOwner'') repository,
          is_value (get_in pr ''author'' ''login'') ''app/github-actions'']) (\<lambda>expected.
        if expected then Inr ()
        else Inl (ValueError ''pull request is not the open same-repository bot PR at this dispatch ref/SHA'')))"

subsection \<open>Facts\<close>

lemma refuse_not [simp]: "refuse why \<noteq> Inr a" "refuse_shown x v y \<noteq> Inr a"
  by (simp_all add: refuse_def refuse_shown_def bind_r_def split: sum.splits)

lemma check_files_copy:
  "check_files changed files = Inr a \<longleftrightarrow> a = ''copy'' \<and>
     (\<exists>n. as_int changed = Some n \<and> n < files_api_limit) \<and> (\<forall>f \<in> set files. \<not> starts_with protected_prefix f)"
  by (auto simp: check_files_def Let_def filter_empty_conv split: option.splits)

text \<open>C38: The commit of a fork is copied only when it is the full commit that was reviewed and still
  the head of an open pull request on main, from another repository, whose files could all be listed,
  none of them under the protected directory.\<close>

theorem copy_only_reviewed:
  assumes "decide pr files repository reviewed = Inr ''copy''"
  shows "exact_sha reviewed \<and> get_or pr ''state'' JNull = Inr (JStr ''open'') \<and>
    (\<exists>base. get_object pr ''base'' = Inr base \<and> get_or base ''ref'' JNull = Inr (JStr ''main'')) \<and>
    (\<exists>head repo name. get_object pr ''head'' = Inr head \<and> get_or head ''sha'' JNull = Inr (JStr reviewed) \<and>
       get_or head ''repo'' JNull = Inr repo \<and> repo \<noteq> JNull \<and>
       get_or repo ''full_name'' JNull = Inr name \<and> name \<noteq> JStr repository) \<and>
    (\<exists>changed n. get_or pr ''changed_files'' JNull = Inr changed \<and> as_int changed = Some n \<and> n < 3000) \<and>
    (\<forall>f \<in> set files. \<not> starts_with ''.github/'' f)"
  using assms unfolding decide_def
  by (auto simp: bind_r_Inr check_files_copy files_api_limit_def protected_prefix_def split: if_splits)

definition sample_pr :: json where
  "sample_pr = JObj [(''state'', JStr ''open''), (''base'', JObj [(''ref'', JStr ''main'')]),
     (''head'', JObj [(''sha'', JStr sample_sha), (''repo'', JObj [(''full_name'', JStr ''me/fork'')])]),
     (''changed_files'', JInt 1)]"

theorem copy_only_reviewed_witness:
  "exact_sha sample_sha \<and> get_or sample_pr ''state'' JNull = Inr (JStr ''open'') \<and>
    \<not> starts_with ''.github/'' ''packages/bash/bash.spec''"
proof -
  have "decide sample_pr [''packages/bash/bash.spec''] ''a/b'' sample_sha = Inr ''copy''" by code_simp
  from copy_only_reviewed [OF this] show ?thesis by simp
qed

end
