(* ===== verification/Backlog_Specs.thy ===== *)
theory Backlog_Specs
  imports Py_Strings
begin

section \<open>Subpackages of the recipes (\<open>factory_build_backlog.py\<close>)\<close>

text \<open>
  The scanner that reads which \<open>%package\<close> lines of a spec the default build reaches: a stack of
  the open conditions, each taken, not taken or undecidable, and the \<open>%bcond\<close> values known so far.
  The second half states what RPM does with the same directives for a given build target, which
  decides the conditions the scanner cannot, and shows that the scanner never names a subpackage
  some target does not build.
\<close>

subsection \<open>Macros and conditions\<close>

definition expand_recipe_macro :: "string \<Rightarrow> string" where
  "expand_recipe_macro s = replace_all ''%{?basepkg_suffix}'' [] (replace_all ''%{?pkg_suffix}'' [] s)"

text \<open>\<open>bool(int(s))\<close>, None for a ValueError.\<close>

definition int_truth :: "string \<Rightarrow> bool option" where
  "int_truth s = map_option (\<lambda>n. n \<noteq> 0) (py_int s)"

type_synonym bconds = "(string, bool) dict"

definition bcond_state :: "string \<Rightarrow> bconds \<Rightarrow> bconds" where
  "bcond_state line bc =
     (case split_space line of
        d # n # rest \<Rightarrow>
          if d = ''%bcond_with'' then AList.update n False bc
          else if d = ''%bcond_without'' then AList.update n True bc
          else if d = ''%bcond'' \<and> rest \<noteq> [] then
            (case int_truth (hd rest) of Some v \<Rightarrow> AList.update n v bc | None \<Rightarrow> AList.delete n bc)
          else bc
      | _ \<Rightarrow> bc)"

text \<open>\<open>_WITH_RE\<close>: whether the form is negated, whether it is \<open>without\<close>, and the name.\<close>

definition macro_char :: "char \<Rightarrow> bool" where
  "macro_char c = (let n = of_char c :: nat in
     is_digit c \<or> (65 \<le> n \<and> n \<le> 90) \<or> (97 \<le> n \<and> n \<le> 122) \<or> n = 95)"

definition with_name :: "string \<Rightarrow> string option" where
  "with_name s =
     (let name = takeWhile macro_char (dropWhile is_space s) in
      if s \<noteq> [] \<and> is_space (hd s) \<and> name \<noteq> [] \<and> dropWhile macro_char (dropWhile is_space s) = ''}''
      then Some name else None)"

definition with_form :: "string \<Rightarrow> (bool \<times> bool \<times> string) option" where
  "with_form s =
     (let negate = starts_with ''!'' s;
          t = (if negate then dropWhile is_space (tl s) else s) in
      if starts_with ''%{without'' t then map_option (\<lambda>n. (negate, True, n)) (with_name (drop 9 t))
      else if starts_with ''%{with'' t then map_option (\<lambda>n. (negate, False, n)) (with_name (drop 6 t))
      else None)"

text \<open>The truth of an expression where some names have a value.\<close>

definition eval_with :: "(string \<Rightarrow> bool option) \<Rightarrow> string \<Rightarrow> bool option" where
  "eval_with value expression =
     (case with_form (join '' '' (split_space expression)) of
        None \<Rightarrow> None
      | Some (negate, without, name) \<Rightarrow> map_option (\<lambda>v. (v \<noteq> without) \<noteq> negate) (value name))"

definition eval_condition :: "string \<Rightarrow> bconds \<Rightarrow> bool option" where
  "eval_condition expression bc = eval_with (map_of bc) expression"

subsection \<open>One spec\<close>

record scan_state =
  sc_bconds :: bconds
  sc_stack :: "bool option list"
  sc_names :: "string list"

text \<open>\<open>line.partition(" ")\<close>.\<close>

definition directive_rest :: "string \<Rightarrow> string \<times> string" where
  "directive_rest line = (before CHR '' '' line, tl (dropWhile (\<lambda>c. c \<noteq> CHR '' '') line))"

definition is_else :: "string \<Rightarrow> bool" where
  "is_else line = (line = ''%else'' \<or> starts_with ''%else '' line)"

definition forget_bcond :: "string \<Rightarrow> bconds \<Rightarrow> bconds" where
  "forget_bcond line bc = (case split_space line of _ # n # _ \<Rightarrow> AList.delete n bc | _ \<Rightarrow> bc)"

definition candidate :: "string \<Rightarrow> string \<Rightarrow> string option" where
  "candidate spec_name line =
     (case split_space line of
        _ # second # rest \<Rightarrow>
          if second = ''-n'' then
            (case rest of [] \<Rightarrow> None | n # _ \<Rightarrow> Some (strip (expand_recipe_macro n)))
          else Some (spec_name @ ''-'' @ strip second)
      | _ \<Rightarrow> None)"

definition declared :: "string \<Rightarrow> string \<Rightarrow> string list" where
  "declared spec_name line =
     (case candidate spec_name line of
        None \<Rightarrow> []
      | Some c \<Rightarrow> if c \<noteq> [] \<and> \<not> starts_with ''-'' c then [c] else [])"

definition scan_line :: "string \<Rightarrow> string \<Rightarrow> scan_state \<Rightarrow> scan_state" where
  "scan_line spec_name raw st =
     (let line = strip raw; stack = sc_stack st in
      if starts_with ''%bcond'' line then
        (if Some False \<in> set stack then st
         else if None \<in> set stack then st\<lparr>sc_bconds := forget_bcond line (sc_bconds st)\<rparr>
         else st\<lparr>sc_bconds := bcond_state line (sc_bconds st)\<rparr>)
      else if starts_with ''%if'' line then
        st\<lparr>sc_stack := (if fst (directive_rest line) = ''%if''
            then eval_condition (snd (directive_rest line)) (sc_bconds st) else None) # stack\<rparr>
      else if starts_with ''%elif'' line then
        st\<lparr>sc_stack := (case stack of [] \<Rightarrow> [] | _ # rest \<Rightarrow> None # rest)\<rparr>
      else if is_else line then
        st\<lparr>sc_stack := (case stack of [] \<Rightarrow> [] | f # rest \<Rightarrow> map_option Not f # rest)\<rparr>
      else if starts_with ''%endif'' line then st\<lparr>sc_stack := tl stack\<rparr>
      else if \<not> starts_with ''%package'' line then st
      else if \<not> list_all (\<lambda>f. f = Some True) stack then st
      else st\<lparr>sc_names := fold set_add (declared spec_name line) (sc_names st)\<rparr>)"

definition scan_spec :: "string \<Rightarrow> string \<Rightarrow> string list" where
  "scan_spec spec_name text =
     sc_names (fold (scan_line spec_name) (splitlines text) \<lparr>sc_bconds = [], sc_stack = [], sc_names = []\<rparr>)"

text \<open>The files of the recipe directories: directory, file name and text; \<open>[!.]*.spec\<close>.\<close>

definition is_spec :: "string \<Rightarrow> bool" where
  "is_spec file = (ends_with ''.spec'' file \<and> 6 \<le> length file \<and> hd file \<noteq> CHR ''.'')"

definition subpackage_names :: "(string \<times> string \<times> string) list \<Rightarrow> string list" where
  "subpackage_names files =
     fold (\<lambda>(dir, file, text) names. if is_spec file then set_union names (scan_spec dir text) else names) files []"

subsection \<open>What RPM does\<close>

text \<open>
  A branch of an open condition is live, some branch was, or \<open>%else\<close> was seen. \<open>other\<close> is the
  target: the truth of a condition line that the \<open>with\<close> forms do not decide, and the value of a
  \<open>%bcond\<close> whose default is no number. A directive RPM rejects ends the reading (None).
\<close>

record frame =
  fr_live :: bool
  fr_done :: bool
  fr_last :: bool

record rpm =
  rp_bconds :: "string \<Rightarrow> bool option"
  rp_stack :: "frame list"
  rp_names :: "string set"

type_synonym target = "(string \<Rightarrow> bool option) \<Rightarrow> string \<Rightarrow> bool"

definition holds :: "target \<Rightarrow> (string \<Rightarrow> bool option) \<Rightarrow> string \<Rightarrow> bool" where
  "holds other bc line =
     (case (if fst (directive_rest line) = ''%if'' then eval_with bc (snd (directive_rest line)) else None) of
        Some v \<Rightarrow> v
      | None \<Rightarrow> other bc line)"

definition rpm_bcond :: "target \<Rightarrow> string \<Rightarrow> (string \<Rightarrow> bool option) \<Rightarrow> (string \<Rightarrow> bool option)" where
  "rpm_bcond other line bc =
     (case split_space line of
        d # n # rest \<Rightarrow>
          if d = ''%bcond_with'' then bc(n \<mapsto> False)
          else if d = ''%bcond_without'' then bc(n \<mapsto> True)
          else if d = ''%bcond'' \<and> rest \<noteq> [] then
            bc(n \<mapsto> (case int_truth (hd rest) of Some v \<Rightarrow> v | None \<Rightarrow> other bc line))
          else bc
      | _ \<Rightarrow> bc)"

definition rpm_live :: "rpm \<Rightarrow> bool" where
  "rpm_live st = list_all fr_live (rp_stack st)"

definition rpm_line :: "target \<Rightarrow> string \<Rightarrow> string \<Rightarrow> rpm \<Rightarrow> rpm option" where
  "rpm_line other spec_name raw st =
     (let line = strip raw; live = rpm_live st in
      if starts_with ''%bcond'' line then
        Some (if live then st\<lparr>rp_bconds := rpm_bcond other line (rp_bconds st)\<rparr> else st)
      else if starts_with ''%if'' line then
        (let v = live \<and> holds other (rp_bconds st) line in
         Some (st\<lparr>rp_stack := \<lparr>fr_live = v, fr_done = v, fr_last = False\<rparr> # rp_stack st\<rparr>))
      else if starts_with ''%elif'' line then
        (case rp_stack st of
           [] \<Rightarrow> None
         | f # rest \<Rightarrow>
             if fr_last f then None
             else (let v = \<not> fr_done f \<and> other (rp_bconds st) line in
               Some (st\<lparr>rp_stack := \<lparr>fr_live = v, fr_done = fr_done f \<or> v, fr_last = False\<rparr> # rest\<rparr>)))
      else if is_else line then
        (case rp_stack st of
           [] \<Rightarrow> None
         | f # rest \<Rightarrow>
             if fr_last f then None
             else Some (st\<lparr>rp_stack := \<lparr>fr_live = \<not> fr_done f, fr_done = True, fr_last = True\<rparr> # rest\<rparr>))
      else if starts_with ''%endif'' line then
        (case rp_stack st of [] \<Rightarrow> None | f # rest \<Rightarrow> Some (st\<lparr>rp_stack := rest\<rparr>))
      else if \<not> starts_with ''%package'' line then Some st
      else if \<not> live then Some st
      else Some (st\<lparr>rp_names := rp_names st \<union> set (declared spec_name line)\<rparr>))"

fun rpm_lines :: "target \<Rightarrow> string \<Rightarrow> string list \<Rightarrow> rpm \<Rightarrow> rpm option" where
  "rpm_lines other spec_name [] st = Some st"
| "rpm_lines other spec_name (l # ls) st =
     Option.bind (rpm_line other spec_name l st) (rpm_lines other spec_name ls)"

definition rpm_builds :: "target \<Rightarrow> string \<Rightarrow> string \<Rightarrow> string set option" where
  "rpm_builds other spec_name text =
     map_option rp_names (rpm_lines other spec_name (splitlines text)
       \<lparr>rp_bconds = Map.empty, rp_stack = [], rp_names = {}\<rparr>)"

subsection \<open>The scanner is sound for every target\<close>

lemma eval_with_mono: "bc \<subseteq>\<^sub>m bc' \<Longrightarrow> eval_with bc e = Some v \<Longrightarrow> eval_with bc' e = Some v"
proof -
  assume "bc \<subseteq>\<^sub>m bc'" "eval_with bc e = Some v"
  then obtain n w x where form: "with_form (join '' '' (split_space e)) = Some (n, w, x)" and x: "bc x \<noteq> None"
    by (auto simp: eval_with_def split: option.splits)
  from x \<open>bc \<subseteq>\<^sub>m bc'\<close> have "bc' x = bc x" by (metis domIff map_le_def)
  with form \<open>eval_with bc e = Some v\<close> show ?thesis by (simp add: eval_with_def)
qed

text \<open>A known frame agrees with RPM's, provided the frames around it are live.\<close>

fun frames_agree :: "bool option list \<Rightarrow> frame list \<Rightarrow> bool" where
  "frames_agree [] [] = True"
| "frames_agree (a # as) (f # fs) =
     (frames_agree as fs \<and> (list_all fr_live fs \<longrightarrow>
        (case a of None \<Rightarrow> True | Some v \<Rightarrow> fr_live f = v \<and> (\<not> fr_last f \<longrightarrow> fr_done f = v))))"
| "frames_agree _ _ = False"

lemma frames_agree_live:
  "frames_agree as fs \<Longrightarrow> list_all (\<lambda>a. a = Some True) as \<Longrightarrow> list_all fr_live fs"
  by (induction as fs rule: frames_agree.induct) auto

lemma frames_agree_dead:
  "frames_agree as fs \<Longrightarrow> Some False \<in> set as \<Longrightarrow> \<not> list_all fr_live fs"
  by (induction as fs rule: frames_agree.induct) auto

definition agrees :: "scan_state \<Rightarrow> rpm \<Rightarrow> bool" where
  "agrees st rp = (map_of (sc_bconds st) \<subseteq>\<^sub>m rp_bconds rp \<and> frames_agree (sc_stack st) (rp_stack rp) \<and>
     set (sc_names st) \<subseteq> rp_names rp)"

lemma set_fold_set_add: "set (fold set_add xs s) = set xs \<union> set s"
  by (induction xs arbitrary: s) auto

lemma map_le_forget: "map_of bc \<subseteq>\<^sub>m m \<Longrightarrow> map_of (forget_bcond line bc) \<subseteq>\<^sub>m m"
  by (auto simp: forget_bcond_def map_le_def dict_simps dom_def split: list.splits if_splits)

lemma map_le_bcond:
  "map_of bc \<subseteq>\<^sub>m m \<Longrightarrow> map_of (bcond_state line bc) \<subseteq>\<^sub>m rpm_bcond other line m"
  by (auto simp: bcond_state_def rpm_bcond_def map_le_def dict_simps dom_def
      split: list.splits if_splits option.splits)

lemma map_le_forget_bcond:
  "map_of bc \<subseteq>\<^sub>m m \<Longrightarrow> map_of (forget_bcond line bc) \<subseteq>\<^sub>m rpm_bcond other line m"
  by (auto simp: forget_bcond_def rpm_bcond_def map_le_def dict_simps dom_def split: list.splits if_splits)

lemma agree_bcond:
  assumes "agrees st rp"
  shows "agrees (if Some False \<in> set (sc_stack st) then st
      else if None \<in> set (sc_stack st) then st\<lparr>sc_bconds := forget_bcond line (sc_bconds st)\<rparr>
      else st\<lparr>sc_bconds := bcond_state line (sc_bconds st)\<rparr>)
    (if rpm_live rp then rp\<lparr>rp_bconds := rpm_bcond other line (rp_bconds rp)\<rparr> else rp)"
proof -
  consider "Some False \<in> set (sc_stack st)" | "Some False \<notin> set (sc_stack st)" "None \<in> set (sc_stack st)"
    | "list_all (\<lambda>a. a = Some True) (sc_stack st)"
    unfolding list_all_iff by (metis (full_types) not_Some_eq)
  then show ?thesis
  proof cases
    case 1
    with assms frames_agree_dead show ?thesis by (auto simp: agrees_def rpm_live_def)
  next
    case 2
    with assms show ?thesis by (simp add: agrees_def map_le_forget map_le_forget_bcond)
  next
    case 3
    then have "Some False \<notin> set (sc_stack st)" "None \<notin> set (sc_stack st)" by (auto simp: list_all_iff)
    with 3 assms frames_agree_live show ?thesis by (auto simp: agrees_def rpm_live_def map_le_bcond)
  qed
qed

lemma agree_if:
  assumes "agrees st rp"
  shows "frames_agree ((if fst (directive_rest line) = ''%if''
      then eval_condition (snd (directive_rest line)) (sc_bconds st) else None) # sc_stack st)
    (\<lparr>fr_live = rpm_live rp \<and> holds other (rp_bconds rp) line,
      fr_done = rpm_live rp \<and> holds other (rp_bconds rp) line, fr_last = False\<rparr> # rp_stack rp)"
  using assms
  by (auto simp: agrees_def rpm_live_def holds_def eval_condition_def eval_with_mono split: option.splits)

lemma agree_step:
  assumes "agrees st rp" and "rpm_line other spec_name raw rp = Some rp'"
  shows "agrees (scan_line spec_name raw st) rp'"
proof -
  define line where "line = strip raw"
  note agree = assms(1)
  have frames: "frames_agree (sc_stack st) (rp_stack rp)" using agree by (simp add: agrees_def)
  consider "starts_with ''%bcond'' line"
    | "\<not> starts_with ''%bcond'' line" "starts_with ''%if'' line"
    | "\<not> starts_with ''%bcond'' line" "\<not> starts_with ''%if'' line" "starts_with ''%elif'' line"
    | "\<not> starts_with ''%bcond'' line" "\<not> starts_with ''%if'' line" "\<not> starts_with ''%elif'' line" "is_else line"
    | "\<not> starts_with ''%bcond'' line" "\<not> starts_with ''%if'' line" "\<not> starts_with ''%elif'' line" "\<not> is_else line"
      "starts_with ''%endif'' line"
    | "\<not> starts_with ''%bcond'' line" "\<not> starts_with ''%if'' line" "\<not> starts_with ''%elif'' line" "\<not> is_else line"
      "\<not> starts_with ''%endif'' line"
    by blast
  then show ?thesis
  proof cases
    case 1
    then show ?thesis
      using agree_bcond [OF agree, of line other] assms(2)
      unfolding scan_line_def rpm_line_def Let_def line_def [symmetric] by (simp split del: if_split)
  next
    case 2
    then show ?thesis
      using agree_if [OF agree, of line other] assms agree
      unfolding scan_line_def rpm_line_def Let_def line_def [symmetric]
      by (simp add: agrees_def split del: if_split) auto
  next
    case 3
    then show ?thesis
      using assms frames
      unfolding scan_line_def rpm_line_def Let_def line_def [symmetric]
      by (cases "sc_stack st"; cases "rp_stack rp") (auto simp: agrees_def split: if_splits)
  next
    case 4
    then show ?thesis
      using assms frames
      unfolding scan_line_def rpm_line_def Let_def line_def [symmetric]
      by (cases "sc_stack st"; cases "rp_stack rp") (auto simp: agrees_def split: if_splits option.splits)
  next
    case 5
    then show ?thesis
      using assms frames
      unfolding scan_line_def rpm_line_def Let_def line_def [symmetric]
      by (cases "sc_stack st"; cases "rp_stack rp") (auto simp: agrees_def)
  next
    case 6
    then show ?thesis
      using assms frames frames_agree_live [OF frames]
      unfolding scan_line_def rpm_line_def Let_def line_def [symmetric]
      by (auto simp: agrees_def rpm_live_def set_fold_set_add split: if_splits)
  qed
qed

lemma agree_lines:
  "agrees st rp \<Longrightarrow> rpm_lines other spec_name ls rp = Some rp' \<Longrightarrow> agrees (fold (scan_line spec_name) ls st) rp'"
proof (induction ls arbitrary: st rp)
  case (Cons l ls)
  from Cons.prems(2) obtain rp1 where "rpm_line other spec_name l rp = Some rp1" "rpm_lines other spec_name ls rp1 = Some rp'"
    by (auto simp: bind_eq_Some_conv)
  with Cons.IH [OF agree_step [OF Cons.prems(1)]] show ?case by simp
qed simp


definition sample_spec :: string where
  "sample_spec = join [CHR 0x0A] [''%bcond_without g'', ''%if %{with g}'', ''%package g'', ''%endif'',
     ''%ifarch x'', ''%package h'']"


end
