(* ===== verification/Backlog_Report.thy ===== *)
theory Backlog_Report
  imports Backlog_Specs Inventory Canary_Verify "HOL-Library.Multiset"
begin

section \<open>The build backlog report (\<open>factory_build_backlog.py\<close>)\<close>

text \<open>
  Every name of the backlog catalog is put into the partition the repository's recipes, locks,
  Packit file and manifest give it. The catalog and the manifest are the parsed TOML documents, as
  JSON values; the repository is the record of what the tool reads from it.
\<close>

subsection \<open>What is read\<close>

record factory_tree =
  ft_dirs :: "pkg_dir list"
  ft_files :: "(string \<times> string \<times> string) list"
  ft_lock :: "entry list option"
  ft_packit :: "string option"
  ft_manifest :: "json option"

definition packit_names :: "string option \<Rightarrow> string list result" where
  "packit_names text = (case text of None \<Rightarrow> Inr [] | Some t \<Rightarrow> bind_r (package_names t) (\<lambda>ns. Inr (remdups ns)))"

definition lock_names :: "entry list option \<Rightarrow> string list result" where
  "lock_names lock = (case lock of None \<Rightarrow> Inr []
     | Some es \<Rightarrow> bind_r (load_source_locks es) (\<lambda>d. Inr (map fst d)))"

definition strings_of :: "json \<Rightarrow> string list result" where
  "strings_of v = bind_r (iterate v) (map_r (as_string Unmodelled))"

definition add_section :: "string \<times> json \<Rightarrow> string list \<Rightarrow> string list result" where
  "add_section = (\<lambda>(section, values) names.
     if section = ''excluded'' then Inr names
     else (case values of
         JObj _ \<Rightarrow> bind_r (bind_r (get_or values ''packages'' (JList [])) strings_of) (\<lambda>ns. Inr (fold set_add ns names))
       | _ \<Rightarrow> Inr names))"

definition manifest_names :: "json option \<Rightarrow> string list result" where
  "manifest_names manifest = (case manifest of None \<Rightarrow> Inr []
     | Some data \<Rightarrow> bind_r (items_of data) (\<lambda>sections. fold_r add_section sections []))"

definition recipe_names :: "pkg_dir list \<Rightarrow> string list" where
  "recipe_names dirs = remdups (map dname dirs)"

subsection \<open>The catalog\<close>

type_synonym areas = "(string, string list) dict"

definition area_names :: "json \<Rightarrow> areas result" where
  "area_names catalog =
     bind_r (bind_r (get_or catalog ''areas'' (JObj [])) items_of) (\<lambda>kvs.
       bind_r (map_r (\<lambda>(area, info). bind_r (bind_r (get_or info ''packages'' (JList [])) strings_of)
         (\<lambda>ns. Inr (area, ns))) kvs) (\<lambda>pairs. Inr (dict_of_pairs pairs)))"

definition decided_names :: "string \<Rightarrow> json \<Rightarrow> string list result" where
  "decided_names part catalog =
     bind_r (bind_r (bind_r (get_or catalog part (JObj [])) (\<lambda>p. get_or p ''packages'' (JList []))) iterate) (\<lambda>es.
       bind_r (map_r (\<lambda>e. bind_r (item e ''name'') (as_string Unmodelled)) es) (\<lambda>ns. Inr (remdups ns)))"

definition all_names :: "areas \<Rightarrow> string list" where
  "all_names by_area = concat (map snd by_area)"

definition catalog_totals :: "json \<Rightarrow> (string list \<times> areas \<times> string list \<times> string list) result" where
  "catalog_totals catalog =
     bind_r (area_names catalog) (\<lambda>by_area.
     bind_r (decided_names ''resolved'' catalog) (\<lambda>resolved.
     bind_r (decided_names ''wontfix'' catalog) (\<lambda>wontfix.
       Inr (remdups (all_names by_area), by_area, wontfix, resolved))))"

subsection \<open>Partitions\<close>

definition classify ::
    "string list \<Rightarrow> string list \<Rightarrow> string list \<Rightarrow> string list \<Rightarrow> string list \<Rightarrow> string \<Rightarrow> string" where
  "classify recipes subpackages locks packit manifest name =
     (if name \<in> set recipes \<or> name \<in> set subpackages then ''already_recipe''
      else if name \<in> set locks then ''already_locked''
      else if name \<in> set packit then ''already_packit''
      else if name \<in> set manifest then ''manifest_wants''
      else ''pending'')"

text \<open>\<open>d[k] = d.get(k, 0) + 1\<close> and \<open>dict(sorted(d.items()))\<close>.\<close>

definition count_one :: "string \<Rightarrow> (string, nat) dict \<Rightarrow> (string, nat) dict" where
  "count_one k d = AList.update k (dict_get d k 0 + 1) d"

definition sorted_dict :: "(string, 'v) dict \<Rightarrow> (string, 'v) dict" where
  "sorted_dict d = sort_key fst d"

definition count_all :: "string list \<Rightarrow> (string, nat) dict" where
  "count_all ks = fold count_one ks []"

text \<open>A name, its area and its partition.\<close>

type_synonym backlog_entry = "string \<times> string \<times> string"

definition entries_for :: "(string \<Rightarrow> string) \<Rightarrow> areas \<Rightarrow> backlog_entry list" where
  "entries_for state by_area =
     concat (map (\<lambda>area. map (\<lambda>name. (name, area, state name)) (sort (dict_get by_area area [])))
       (sort (map fst by_area)))"

definition area_rollup :: "backlog_entry list \<Rightarrow> areas \<Rightarrow> (string, (string, nat) dict) dict" where
  "area_rollup entries by_area =
     map (\<lambda>area. (area, sorted_dict (AList.update ''total'' (length (dict_get by_area area []))
         (count_all (map (\<lambda>(_, _, s). s) (filter (\<lambda>(_, a, _). a = area) entries))))))
       (sort (map fst by_area))"

subsection \<open>The contract of the catalog\<close>

definition exit_if :: "bool \<Rightarrow> string \<Rightarrow> unit result" where
  "exit_if b why = (if b then Inl (SystemExit why) else Inr ())"

definition names_text :: "string list \<Rightarrow> string" where
  "names_text ns = join [CHR 0x0A] (sorted_set ns) @ [CHR 0x0A]"

definition check_digest :: "(string \<Rightarrow> string) \<Rightarrow> json \<Rightarrow> string list \<Rightarrow> unit result" where
  "check_digest sha256 meta audited =
     bind_r (get_or meta ''audit_names_sha256'' JNull) (\<lambda>pin.
       exit_if (truthy pin \<and> pin \<noteq> JStr (sha256 (names_text audited)))
         ''catalog names differ from the pinned audit; counts alone do not preserve identity'')"

definition repeated :: "areas \<Rightarrow> string list" where
  "repeated by_area =
     (let seen = count_all (all_names by_area) in sort (map fst (filter (\<lambda>(_, n). n \<noteq> 1) seen)))"

definition check_overlap :: "string \<Rightarrow> string list \<Rightarrow> string list \<Rightarrow> unit result" where
  "check_overlap places xs ys =
     (let both = sorted_set (set_inter xs ys) in
      exit_if (both \<noteq> []) (''catalog lists these names in both '' @ places @ '': '' @ repr_list both))"

definition check_catalog ::
    "(string \<Rightarrow> string) \<Rightarrow> json \<Rightarrow> string list \<times> areas \<times> string list \<times> string list \<Rightarrow> unit result" where
  "check_catalog sha256 meta = (\<lambda>(backlog, by_area, wontfix, resolved).
     bind_r (check_digest sha256 meta (backlog @ wontfix @ resolved)) (\<lambda>_.
     bind_r (exit_if (repeated by_area \<noteq> []) (''catalog lists these names more than once (repeated within an area '' @
       ''or present in more than one area): '' @ repr_list (repeated by_area))) (\<lambda>_.
     bind_r (check_overlap ''an area and [resolved]'' backlog resolved) (\<lambda>_.
     bind_r (check_overlap ''an area and [wontfix]'' backlog wontfix) (\<lambda>_.
       check_overlap ''[resolved] and [wontfix]'' resolved wontfix)))))"

subsection \<open>The report\<close>

record backlog_view =
  br_meta :: "(string, json) dict"
  br_backlog :: nat
  br_resolved :: nat
  br_wontfix :: nat
  br_states :: "(string, nat) dict"
  br_areas :: "(string, (string, nat) dict) dict"
  br_entries :: "backlog_entry list"
  br_inconsistent :: "string list"

definition meta_keys :: "string list" where
  "meta_keys = [''issue'', ''audit_source'', ''audit_measured_at'', ''audit_digest_bluefin'', ''audit_digest_utah'',
     ''audit_digest_factory'', ''audit_names_sha256'']"

definition meta_fields :: "json \<Rightarrow> (string, json) dict result" where
  "meta_fields meta = map_r (\<lambda>k. bind_r (get_or meta k (JStr [])) (\<lambda>v. Inr (k, v))) meta_keys"

definition inconsistent_names :: "backlog_entry list \<Rightarrow> string list \<Rightarrow> string list \<Rightarrow> string list" where
  "inconsistent_names entries recipes locked =
     sort (map fst (filter (\<lambda>(name, _, state). state = ''already_recipe'' \<and> name \<in> set recipes \<and> name \<notin> set locked) entries))"

text \<open>The inventory opens the lock and the Packit file, which then must exist.\<close>

definition locked_records :: "factory_tree \<Rightarrow> string list result" where
  "locked_records tree =
     (case (ft_lock tree, ft_packit tree) of
        (Some es, Some packit) \<Rightarrow> bind_r (inventory (ft_dirs tree) es packit) (\<lambda>rs.
          Inr (map pname (filter source_locked rs)))
      | _ \<Rightarrow> Inl Unmodelled)"

definition state_in :: "factory_tree \<Rightarrow> (string \<Rightarrow> string) result" where
  "state_in tree =
     bind_r (lock_names (ft_lock tree)) (\<lambda>locks.
     bind_r (packit_names (ft_packit tree)) (\<lambda>packit.
     bind_r (manifest_names (ft_manifest tree)) (\<lambda>manifest.
       Inr (classify (recipe_names (ft_dirs tree)) (subpackage_names (ft_files tree)) locks packit manifest))))"

definition backlog_report :: "(string \<Rightarrow> string) \<Rightarrow> factory_tree \<Rightarrow> json \<Rightarrow> backlog_view result" where
  "backlog_report sha256 tree catalog =
     bind_r (get_or catalog ''meta'' (JObj [])) (\<lambda>meta.
     bind_r (state_in tree) (\<lambda>state.
     bind_r (catalog_totals catalog) (\<lambda>totals.
     bind_r (check_catalog sha256 meta totals) (\<lambda>_.
     bind_r (meta_fields meta) (\<lambda>fields.
     bind_r (locked_records tree) (\<lambda>locked.
       case totals of (backlog, by_area, wontfix, resolved) \<Rightarrow>
         let entries = entries_for state by_area in
         Inr \<lparr>br_meta = fields, br_backlog = length backlog, br_resolved = length resolved,
           br_wontfix = length wontfix, br_states = sorted_dict (count_all (map (\<lambda>(_, _, s). s) entries)),
           br_areas = area_rollup entries by_area, br_entries = entries,
           br_inconsistent = inconsistent_names entries (recipe_names (ft_dirs tree)) locked\<rparr>))))))"

definition check_backlog :: "backlog_view \<Rightarrow> nat \<times> string list" where
  "check_backlog r =
     (let errors =
        (if \<not> truthy (dict_get (br_meta r) ''audit_names_sha256'' JNull)
         then [''catalog [meta] does not pin audit_names_sha256; without it the audited names are unchecked''] else []) @
        (if br_inconsistent r \<noteq> []
         then [''backlog names with a recipe but no source lock: '' @ repr_list (br_inconsistent r)] else [])
      in (if errors \<noteq> [] then 1 else 0, errors))"

definition report_summary :: "backlog_view \<Rightarrow> string result" where
  "report_summary r =
     bind_r (py_str (dict_get (br_meta r) ''issue'' JNull)) (\<lambda>issue. Inr (join [CHR 0x0A] (
       [''### Factory build backlog ('' @ issue @ '')'', [], ''| backlog | resolved | wontfix |'', ''| ---: | ---: | ---: |'',
         ''| '' @ show_nat (br_backlog r) @ '' | '' @ show_nat (br_resolved r) @ '' | '' @ show_nat (br_wontfix r) @ '' |'',
         [], ''| state | names |'', ''| --- | ---: |''] @
       map (\<lambda>(state, n). ''| '' @ state @ '' | '' @ show_nat n @ '' |'') (br_states r) @
       [[], ''| area | pending | total |'', ''| --- | ---: | ---: |''] @
       map (\<lambda>(area, rollup). ''| '' @ area @ '' | '' @ show_nat (dict_get rollup ''pending'' 0) @ '' | '' @
         show_nat (dict_get rollup ''total'' 0) @ '' |'') (br_areas r))))"

definition counts_json :: "(string, nat) dict \<Rightarrow> json" where
  "counts_json d = JObj (map (\<lambda>(k, n). (k, JInt (int n))) d)"

definition report_json :: "backlog_view \<Rightarrow> json" where
  "report_json r = JObj (br_meta r @
     [(''totals'', counts_json [(''backlog'', br_backlog r), (''resolved'', br_resolved r), (''wontfix'', br_wontfix r)]),
      (''states'', counts_json (br_states r)),
      (''areas'', JObj (map (\<lambda>(a, d). (a, counts_json d)) (br_areas r))),
      (''entries'', JList (map (\<lambda>(n, a, s). JObj [(''name'', JStr n), (''area'', JStr a), (''state'', JStr s)]) (br_entries r)))] @
     (if br_inconsistent r = [] then []
      else [(''inconsistent_recipe_state'', JList (map JStr (br_inconsistent r)))]))"

text \<open>The command: its status, what it prints to its two streams, and the file it writes.\<close>

definition backlog_main ::
    "(string \<Rightarrow> string) \<Rightarrow> factory_tree \<Rightarrow> json \<Rightarrow> bool \<Rightarrow> bool \<Rightarrow> (nat \<times> string \<times> string list \<times> string option) result" where
  "backlog_main sha256 tree catalog output check =
     bind_r (backlog_report sha256 tree catalog) (\<lambda>r.
     bind_r (report_summary r) (\<lambda>text.
       let (status, errors) = (if check then check_backlog r else (0, [])) in
       Inr (status, text, errors,
         if output then Some (dumps_indent (canonical (report_json r)) @ [CHR 0x0A]) else None)))"

subsection \<open>Facts about counts\<close>

lemma count_one_get: "dict_get (count_one k d) j 0 = dict_get d j 0 + (if j = k then 1 else 0)"
  by (simp add: count_one_def)

lemma count_all_snoc: "count_all (ks @ [k]) = count_one k (count_all ks)"
  by (simp add: count_all_def)

lemma keys_count_all [simp]: "fst ` set (count_all ks) = set ks"
  by (induction ks rule: rev_induct) (auto simp: count_all_snoc count_one_def dom_update count_all_def)

lemma distinct_count_all [simp]: "distinct (map fst (count_all ks))"
  by (induction ks rule: rev_induct) (simp_all add: count_all_snoc count_one_def, simp add: count_all_def)

lemma get_count_all: "dict_get (count_all ks) k 0 = count_list ks k"
  by (induction ks rule: rev_induct) (auto simp: count_all_snoc count_one_get, simp add: count_all_def)

lemma sum_update:
  assumes "distinct (map fst d)"
  shows "sum_list (map snd (AList.update k n d)) + dict_get d k 0 = sum_list (map snd d) + (n :: nat)"
  using assms by (induction d) (auto simp: dict_get_def split: option.splits dest: weak_map_of_SomeI)

lemma sum_count_all: "sum_list (map snd (count_all ks)) = length ks"
proof (induction ks rule: rev_induct)
  case (snoc k ks)
  then show ?case
    using sum_update [of "count_all ks" k "dict_get (count_all ks) k 0 + 1"]
    by (simp add: count_all_snoc count_one_def)
qed (simp add: count_all_def)

lemma sum_sorted_dict: "sum_list (map snd (sorted_dict d)) = (sum_list (map snd d) :: nat)"
proof -
  have "mset (map snd (sorted_dict d)) = mset (map snd d)" by (simp add: sorted_dict_def)
  then show ?thesis by (metis sum_mset_sum_list)
qed

lemma distinct_counts: "(\<And>k. count_list ks k \<le> 1) \<Longrightarrow> distinct ks"
proof (induction ks)
  case (Cons x ks)
  have "count_list ks k \<le> 1" for k using Cons.prems [of k] by (simp split: if_splits)
  moreover have "x \<notin> set ks" using Cons.prems [of x] by (simp add: count_list_0_iff)
  ultimately show ?case using Cons.IH by simp
qed simp

lemma not_repeated:
  assumes "repeated by_area = []"
  shows "distinct (all_names by_area)"
proof -
  let ?ks = "all_names by_area"
  have "count_list ?ks k \<le> 1" for k
  proof (cases "k \<in> set ?ks")
    case True
    then obtain n where n: "(k, n) \<in> set (count_all ?ks)" using keys_count_all [of ?ks] by (metis imageE prod.collapse)
    have "\<forall>x \<in> set (count_all ?ks). snd x = 1"
      using arg_cong [OF assms, of length] by (auto simp: repeated_def Let_def filter_empty_conv)
    with n have "n = 1" by auto
    moreover have "dict_get (count_all ?ks) k 0 = n" using n by (simp add: dict_get_def)
    ultimately show ?thesis by (simp add: get_count_all)
  next
    case False
    then show ?thesis by (simp add: count_list_0_iff)
  qed
  then show ?thesis by (rule distinct_counts)
qed

subsection \<open>Facts about the report\<close>

lemma check_overlap_ok [simp]: "check_overlap p xs ys = Inr u \<longleftrightarrow> set xs \<inter> set ys = {}"
proof -
  have "sorted_set (set_inter xs ys) = [] \<longleftrightarrow> set xs \<inter> set ys = {}"
    by (metis empty_set set_empty set_ops(2,5))
  then show ?thesis by (auto simp: check_overlap_def exit_if_def Let_def)
qed

lemma exit_if_ok [simp]: "exit_if b why = Inr u \<longleftrightarrow> \<not> b"
  by (simp add: exit_if_def)

lemma area_names_distinct: "area_names catalog = Inr by_area \<Longrightarrow> distinct (map fst by_area)"
  by (auto simp: area_names_def bind_r_Inr)

lemma dict_get_keys:
  "distinct (map fst d) \<Longrightarrow> map (\<lambda>k. dict_get d k v) (map fst d) = map snd d"
  by (auto simp: dict_get_def)

lemma concat_mset: "mset xs = mset ys \<Longrightarrow> mset (concat (map f xs)) = mset (concat (map f ys))"
proof -
  assume eq: "mset xs = mset ys"
  have step: "mset (concat (map f zs)) = \<Sum>\<^sub># (image_mset (\<lambda>z. mset (f z)) (mset zs))" for zs
    by (induction zs) auto
  show ?thesis unfolding step eq ..
qed

lemma concat_map_mset: "(\<And>x. x \<in> set xs \<Longrightarrow> mset (f x) = mset (g x)) \<Longrightarrow> mset (concat (map f xs)) = mset (concat (map g xs))"
  by (induction xs) auto

lemma entries_mset:
  assumes "distinct (map fst by_area)"
  shows "mset (map fst (entries_for state by_area)) = mset (all_names by_area)"
proof -
  have "mset (map fst (entries_for state by_area)) =
      mset (concat (map (\<lambda>area. sort (dict_get by_area area [])) (sort (map fst by_area))))"
    by (simp add: entries_for_def map_concat comp_def)
  also have "\<dots> = mset (concat (map (\<lambda>area. sort (dict_get by_area area [])) (map fst by_area)))"
    by (rule concat_mset) simp
  also have "\<dots> = mset (concat (map (\<lambda>area. dict_get by_area area []) (map fst by_area)))"
    by (rule concat_map_mset) simp
  also have "\<dots> = mset (all_names by_area)"
    by (simp only: dict_get_keys [OF assms] all_names_def)
  finally show ?thesis .
qed

lemma entries_state: "(n, a, s) \<in> set (entries_for state by_area) \<Longrightarrow> s = state n"
  by (auto simp: entries_for_def)

lemma length_filter_area:
  assumes "distinct areas" and "a \<in> set areas"
  shows "length (filter (\<lambda>(_, b, _). b = a) (concat (map (\<lambda>area. map (\<lambda>n. (n, area, f n)) (ns area)) areas))) =
    length (ns a)"
  using assms
proof (induction areas)
  case (Cons b areas)
  have none: "filter (\<lambda>(_, b, _). b = a) (concat (map (\<lambda>area. map (\<lambda>n. (n, area, f n)) (ns area)) areas)) = []"
    if "a \<notin> set areas" using that by (auto simp: filter_empty_conv)
  have "filter (\<lambda>(_, c, _). c = a) (map (\<lambda>n. (n, b, f n)) (ns b)) =
      (if b = a then map (\<lambda>n. (n, b, f n)) (ns b) else [])"
    by (auto simp: filter_map comp_def)
  with Cons none show ?case by auto
qed simp

definition rollup_adds :: "(string, nat) dict \<Rightarrow> bool" where
  "rollup_adds rollup = (sum_list (map snd (filter (\<lambda>(s, _). s \<noteq> ''total'') rollup)) = dict_get rollup ''total'' 0)"

lemma dict_get_sorted_dict:
  assumes "distinct (map fst d)"
  shows "dict_get (sorted_dict d) k v = dict_get d k v"
proof -
  have "distinct (map fst (sorted_dict d))"
    using assms by (metis mset_eq_imp_distinct_iff mset_map mset_sort sorted_dict_def)
  moreover have "set (sorted_dict d) = set d" by (simp add: sorted_dict_def)
  ultimately show ?thesis using assms by (metis dict_get_def map_of_inject_set)
qed

lemma sum_filter_sorted: "sum_list (map snd (filter P (sorted_dict d))) = (sum_list (map snd (filter P d)) :: nat)"
proof -
  have "mset (map snd (filter P (sorted_dict d))) = mset (map snd (filter P d))"
    by (simp add: sorted_dict_def)
  then show ?thesis by (metis sum_mset_sum_list)
qed

lemma update_new: "k \<notin> fst ` set d \<Longrightarrow> AList.update k v d = d @ [(k, v)]"
  by (induction d) auto

lemma rollup_total:
  assumes "''total'' \<notin> set states" and "length states = n"
  shows "rollup_adds (sorted_dict (AList.update ''total'' n (count_all states)))"
proof -
  let ?d = "count_all states"
  have new: "AList.update ''total'' n ?d = ?d @ [(''total'', n)]" using assms(1) by (simp add: update_new)
  have "filter (\<lambda>(s, _). s \<noteq> ''total'') ?d = ?d"
  proof (intro filter_True ballI)
    fix x assume "x \<in> set ?d"
    then have "fst x \<in> set states" using keys_count_all [of states] by (metis image_eqI)
    then show "case x of (s, _) \<Rightarrow> s \<noteq> ''total''" using assms(1) by auto
  qed
  then have "sum_list (map snd (filter (\<lambda>(s, _). s \<noteq> ''total'') (sorted_dict (AList.update ''total'' n ?d)))) = n"
    using assms(2) by (simp add: sum_filter_sorted new sum_count_all)
  moreover have "dict_get (sorted_dict (AList.update ''total'' n ?d)) ''total'' 0 = n"
    by (simp add: dict_get_sorted_dict)
  ultimately show ?thesis by (simp add: rollup_adds_def)
qed

lemma classify_not_total: "classify r sp l p m n \<noteq> ''total''"
  by (simp add: classify_def)

lemma rollups_add:
  assumes "\<And>n. state n \<noteq> ''total''" and "(area, rollup) \<in> set (area_rollup (entries_for state by_area) by_area)"
    and "distinct (map fst by_area)"
  shows "rollup_adds rollup \<and> dict_get rollup ''total'' 0 = length (dict_get by_area area [])"
proof -
  let ?states = "map (\<lambda>(_, _, s). s) (filter (\<lambda>(_, a, _). a = area) (entries_for state by_area))"
  from assms(2) have area: "area \<in> set (map fst by_area)" and rollup: "rollup =
      sorted_dict (AList.update ''total'' (length (dict_get by_area area [])) (count_all ?states))"
    by (auto simp: area_rollup_def)
  have "length ?states = length (dict_get by_area area [])"
    using length_filter_area [of "sort (map fst by_area)" area state "\<lambda>area. sort (dict_get by_area area [])"] area assms(3)
    by (simp add: entries_for_def)
  moreover have "''total'' \<notin> set ?states"
  proof
    assume "''total'' \<in> set ?states"
    then obtain n a where "(n, a, ''total'') \<in> set (entries_for state by_area)" by auto
    from entries_state [OF this] assms(1) show False by metis
  qed
  ultimately have "rollup_adds rollup" unfolding rollup by (intro rollup_total)
  then show ?thesis by (simp add: rollup dict_get_sorted_dict)
qed

text \<open>A report counts every name of the backlog exactly once, in one state: the entries are the
  names of the areas without repetition, the states and each area's rollup add up, and no name is at
  once in an area, resolved or given up.\<close>

theorem report_reconciles:
  assumes "backlog_report sha256 tree catalog = Inr r"
  shows "\<exists>backlog by_area wontfix resolved.
    catalog_totals catalog = Inr (backlog, by_area, wontfix, resolved) \<and>
    distinct (map fst (br_entries r)) \<and> set (map fst (br_entries r)) = set backlog \<and>
    sum_list (map snd (br_states r)) = br_backlog r \<and> br_backlog r = length (br_entries r) \<and>
    (\<forall>(area, rollup) \<in> set (br_areas r). rollup_adds rollup \<and>
       dict_get rollup ''total'' 0 = length (dict_get by_area area [])) \<and>
    set backlog \<inter> set resolved = {} \<and> set backlog \<inter> set wontfix = {} \<and> set resolved \<inter> set wontfix = {}"
proof -
  from assms obtain meta state backlog by_area wontfix resolved fields locked where
    totals: "catalog_totals catalog = Inr (backlog, by_area, wontfix, resolved)"
    and checked: "check_catalog sha256 meta (backlog, by_area, wontfix, resolved) = Inr ()"
    and state: "state_in tree = Inr state"
    and r: "r = \<lparr>br_meta = fields, br_backlog = length backlog, br_resolved = length resolved,
        br_wontfix = length wontfix,
        br_states = sorted_dict (count_all (map (\<lambda>(_, _, s). s) (entries_for state by_area))),
        br_areas = area_rollup (entries_for state by_area) by_area, br_entries = entries_for state by_area,
        br_inconsistent = inconsistent_names (entries_for state by_area) (recipe_names (ft_dirs tree)) locked\<rparr>"
    by (auto simp: backlog_report_def bind_r_Inr Let_def)
  from totals have by_area: "distinct (map fst by_area)" and backlog: "backlog = remdups (all_names by_area)"
    by (auto simp: catalog_totals_def bind_r_Inr dest: area_names_distinct)
  from checked have single: "distinct (all_names by_area)" and apart: "set backlog \<inter> set resolved = {}"
    "set backlog \<inter> set wontfix = {}" "set resolved \<inter> set wontfix = {}"
    by (auto simp: check_catalog_def bind_r_Inr dest: not_repeated)
  have no_total: "state n \<noteq> ''total''" for n
    using state classify_not_total by (auto simp: state_in_def bind_r_Inr)
  let ?es = "entries_for state by_area"
  have names: "mset (map fst ?es) = mset (all_names by_area)" by (rule entries_mset [OF by_area])
  have len: "length ?es = length (all_names by_area)" using names by (metis length_map size_mset)
  have "distinct (map fst ?es)" using names single by (metis mset_eq_imp_distinct_iff)
  moreover have "set (map fst ?es) = set backlog" using names by (metis backlog set_mset_mset set_remdups)
  moreover have "sum_list (map snd (br_states r)) = br_backlog r"
    using len single by (simp add: r sum_sorted_dict sum_count_all backlog distinct_remdups_id)
  moreover have "br_backlog r = length (br_entries r)"
    using len single by (simp add: r backlog distinct_remdups_id)
  moreover have "\<forall>(area, rollup) \<in> set (br_areas r). rollup_adds rollup \<and>
      dict_get rollup ''total'' 0 = length (dict_get by_area area [])"
    using rollups_add [OF no_total _ by_area] by (auto simp: r)
  ultimately show ?thesis using totals apart by (simp add: r)
qed

definition sample_factory_tree :: factory_tree where
  "sample_factory_tree = \<lparr>ft_dirs = [], ft_files = [], ft_lock = Some [],
     ft_packit = Some (''packages:'' @ [CHR 0x0A]), ft_manifest = None\<rparr>"

definition sample_catalog :: json where
  "sample_catalog = JObj [(''areas'', JObj [(''x'', JObj [(''packages'', JList [JStr ''b'', JStr ''a''])])]),
     (''wontfix'', JObj [(''packages'', JList [JObj [(''name'', JStr ''c'')]])])]"

theorem report_reconciles_witness:
  "\<exists>r. backlog_report (\<lambda>s. s) sample_factory_tree sample_catalog = Inr r \<and>
    br_states r = [(''pending'', 2)] \<and> sum_list (map snd (br_states r)) = br_backlog r"
proof -
  have "case backlog_report (\<lambda>s. s) sample_factory_tree sample_catalog of
      Inr r \<Rightarrow> br_states r = [(''pending'', 2)] | Inl e \<Rightarrow> False" by code_simp
  then obtain r where r: "backlog_report (\<lambda>s. s) sample_factory_tree sample_catalog = Inr r" "br_states r = [(''pending'', 2)]"
    by (auto split: sum.splits)
  from report_reconciles [OF r(1)] r show ?thesis by auto
qed

end
