(* ===== verification/Release_Order.thy ===== *)
theory Release_Order
  imports Primary_Xml "HOL-Library.Product_Lexorder"
begin

section \<open>The newest published build (\<open>multimedia_closure.py\<close>)\<close>

text \<open>
  The order of two builds of a package by epoch, version and release, read in runs of digits and of
  letters, and the choice of the newest build a repository's \<open>primary.xml\<close> lists for every binary
  package. A run of digits has fewer than the 4300 digits Python's \<open>int\<close> accepts.
\<close>

subsection \<open>Runs\<close>

datatype run = Letters string | Number nat

text \<open>\<open>(0, 0, part)\<close> and \<open>(1, int(part), "")\<close>: letters come before numbers.\<close>

instantiation run :: linorder
begin

definition less_run :: "run \<Rightarrow> run \<Rightarrow> bool" where
  "less_run a b = (case (a, b) of
      (Letters s, Letters t) \<Rightarrow> s < t
    | (Letters s, Number n) \<Rightarrow> True
    | (Number m, Letters t) \<Rightarrow> False
    | (Number m, Number n) \<Rightarrow> m < n)"

definition less_eq_run :: "run \<Rightarrow> run \<Rightarrow> bool" where
  "less_eq_run a b = (a = b \<or> a < b)"

instance
  by standard (auto simp: less_run_def less_eq_run_def split: run.splits)

end

definition is_letter :: "char \<Rightarrow> bool" where
  "is_letter c = (let n = of_char c :: nat in (65 \<le> n \<and> n \<le> 90) \<or> (97 \<le> n \<and> n \<le> 122))"

function runs :: "string \<Rightarrow> run list" where
  "runs [] = []"
| "runs (c # cs) =
     (if is_digit c then Number (read_nat (c # takeWhile is_digit cs)) # runs (dropWhile is_digit cs)
      else if is_letter c then Letters (c # takeWhile is_letter cs) # runs (dropWhile is_letter cs)
      else runs cs)"
  by pat_completeness auto
termination
  by (relation "measure length") (auto simp: le_imp_less_Suc length_dropWhile_le)

type_synonym evr = "int \<times> run list \<times> run list"

definition evr_key :: "string \<Rightarrow> string \<Rightarrow> string \<Rightarrow> evr result" where
  "evr_key epoch version release =
     (case (if epoch = [] then Some 0 else py_int epoch) of
        None \<Rightarrow> Inl (ValueError ''invalid literal for int()'')
      | Some e \<Rightarrow> Inr (e, runs version, runs release))"

subsection \<open>The metadata file\<close>

text \<open>\<open>Path(href).name\<close>.\<close>

definition path_name :: "string \<Rightarrow> string" where
  "path_name href =
     (case filter (\<lambda>p. p \<noteq> [] \<and> p \<noteq> ''.'') (split_on CHR ''/'' href) of [] \<Rightarrow> [] | ps \<Rightarrow> last ps)"

definition has_suffix :: "string \<Rightarrow> string \<Rightarrow> bool" where
  "has_suffix suffix name = (ends_with suffix name \<and> length suffix < length name)"

definition repo_tag :: "string \<Rightarrow> string" where
  "repo_tag t = ''{http://linux.duke.edu/metadata/repo}'' @ t"

definition primary_location :: "xml \<Rightarrow> string option" where
  "primary_location document =
     (case concat (map (kids_named (repo_tag ''location''))
         (filter (\<lambda>d. map_of (xattrs d) ''type'' = Some ''primary'') (kids_named (repo_tag ''data'') document))) of
        [] \<Rightarrow> None
      | entry # _ \<Rightarrow> (case dict_get (xattrs entry) ''href'' [] of [] \<Rightarrow> None | href \<Rightarrow> Some href))"

text \<open>
  The file the index names, else the first that looks like one. The XML parser and the two
  decompressors are arguments; their failures are the messages of the exceptions they raise.
\<close>

record codecs =
  parse_xml :: "string \<Rightarrow> string + xml"
  gunzip :: "string \<Rightarrow> string result"
  unzstd :: "string \<Rightarrow> string + string"

definition primary_file :: "codecs \<Rightarrow> (string, string) dict \<Rightarrow> string \<Rightarrow> string result" where
  "primary_file cs files shown =
     (case map_of files ''repomd.xml'' of
        Some text \<Rightarrow>
          (case parse_xml cs text of
             Inl why \<Rightarrow> Inl (ClosureError (''unreadable repomd.xml: '' @ why))
           | Inr document \<Rightarrow>
               (case primary_location document of
                  None \<Rightarrow> Inl (ClosureError ''repomd.xml has no primary metadata location'')
                | Some href \<Rightarrow>
                    if dict_has files (path_name href) then Inr (path_name href)
                    else Inl (ClosureError (''repomd.xml primary metadata is missing: '' @ path_name href))))
      | None \<Rightarrow>
          (case sort (filter (contains ''primary.xml'') (map fst files)) of
             [] \<Rightarrow> Inl (ClosureError (''no primary.xml under '' @ shown))
           | name # _ \<Rightarrow> Inr name))"

definition primary_xml :: "codecs \<Rightarrow> (string, string) dict \<Rightarrow> string \<Rightarrow> string result" where
  "primary_xml cs files shown =
     bind_r (primary_file cs files shown) (\<lambda>name.
     bind_r (dict_index files name) (\<lambda>raw.
       if has_suffix ''.gz'' name then gunzip cs raw
       else if has_suffix ''.zst'' name then
         (case unzstd cs raw of
            Inl why \<Rightarrow> Inl (ClosureError (name @ '' is not readable as zstd: '' @ why))
          | Inr text \<Rightarrow> Inr text)
       else if has_suffix ''.xml'' name then Inr raw
       else Inl (ClosureError (''unsupported primary.xml compression: '' @ name))))"

subsection \<open>The newest build of every name\<close>

record build =
  b_name :: string
  b_key :: evr
  b_nevra :: string

text \<open>A package of the listing, None when the loop skips it.\<close>

definition build_of :: "xml \<Rightarrow> build option result" where
  "build_of package =
     (let name = or_empty (find_text (common_tag ''name'') package);
          arch = or_empty (find_text (common_tag ''arch'') package) in
      case find_kid (common_tag ''version'') package of
        None \<Rightarrow> Inr None
      | Some v \<Rightarrow>
          if name = [] then Inr None
          else (let epoch = dict_get (xattrs v) ''epoch'' ''0''; version = dict_get (xattrs v) ''ver'' [];
                    release = dict_get (xattrs v) ''rel'' [] in
            bind_r (evr_key epoch version release) (\<lambda>key.
              Inr (Some \<lparr>b_name = name, b_key = key,
                b_nevra = name @ ''-'' @ epoch @ '':'' @ version @ ''-'' @ release @ ''.'' @ arch\<rparr>))))"

type_synonym newest = "(string, evr) dict \<times> (string, string) dict"

definition keep_newest :: "build \<Rightarrow> newest \<Rightarrow> newest" where
  "keep_newest b = (\<lambda>(best, found).
     if (case map_of best (b_name b) of None \<Rightarrow> True | Some k \<Rightarrow> k < b_key b)
     then (AList.update (b_name b) (b_key b) best, AList.update (b_name b) (b_nevra b) found)
     else (best, found))"

definition newest_of :: "build list \<Rightarrow> newest" where
  "newest_of bs = fold keep_newest bs ([], [])"

definition published_nevra :: "codecs \<Rightarrow> (string, string) dict \<Rightarrow> string \<Rightarrow> (string, string) dict result" where
  "published_nevra cs files shown =
     bind_r (primary_xml cs files shown) (\<lambda>text.
       case parse_xml cs text of
         Inl why \<Rightarrow> Inl (ClosureError (shown @ '' has an unreadable primary.xml: '' @ why))
       | Inr root \<Rightarrow> bind_r (map_r build_of (packages_of root)) (\<lambda>bs.
           Inr (snd (newest_of (List.map_filter id bs)))))"

subsection \<open>Facts\<close>

text \<open>The first of the newest builds of a name.\<close>

definition first_newest :: "build list \<Rightarrow> string \<Rightarrow> build \<Rightarrow> bool" where
  "first_newest bs name b = (\<exists>before after. bs = before @ b # after \<and> b_name b = name \<and>
     (\<forall>c \<in> set before. b_name c = name \<longrightarrow> b_key c < b_key b) \<and>
     (\<forall>c \<in> set after. b_name c = name \<longrightarrow> b_key c \<le> b_key b))"

lemma first_newest_snoc_other:
  "b_name c \<noteq> name \<or> b_key c \<le> b_key b \<Longrightarrow> first_newest bs name b \<Longrightarrow> first_newest (bs @ [c]) name b"
  unfolding first_newest_def by (elim exE, rule_tac x = before in exI, rule_tac x = "after @ [c]" in exI) auto

lemma first_newest_snoc_new:
  assumes "b_name c = name" and "\<forall>b \<in> set bs. b_name b = name \<longrightarrow> b_key b < b_key c"
  shows "first_newest (bs @ [c]) name c"
  unfolding first_newest_def using assms by (intro exI [of _ bs] exI [of _ "[]"]) auto

lemma first_newest_bound:
  "first_newest bs name b \<Longrightarrow> c \<in> set bs \<Longrightarrow> b_name c = name \<Longrightarrow> b_key c \<le> b_key b"
  unfolding first_newest_def by (elim exE conjE) auto

text \<open>What the two dicts hold of one name after a list of builds.\<close>

definition newest_holds :: "build list \<Rightarrow> string \<Rightarrow> newest \<Rightarrow> bool" where
  "newest_holds bs name n =
     (case map_of (fst n) name of
        None \<Rightarrow> map_of (snd n) name = None \<and> (\<forall>b \<in> set bs. b_name b \<noteq> name)
      | Some k \<Rightarrow> \<exists>b. first_newest bs name b \<and> b_key b = k \<and> map_of (snd n) name = Some (b_nevra b))"

lemma keep_newest_holds:
  assumes old: "newest_holds bs name n"
  shows "newest_holds (bs @ [c]) name (keep_newest c n)"
proof (cases "b_name c = name")
  case False
  then have same: "map_of (fst (keep_newest c n)) name = map_of (fst n) name"
    "map_of (snd (keep_newest c n)) name = map_of (snd n) name"
    by (auto simp: keep_newest_def split_beta)
  from old False show ?thesis
    unfolding newest_holds_def same by (auto split: option.splits intro: first_newest_snoc_other)
next
  case name: True
  show ?thesis
  proof (cases "map_of (fst n) name")
    case None
    with old have "\<forall>b \<in> set bs. b_name b \<noteq> name" by (simp add: newest_holds_def)
    then have "first_newest (bs @ [c]) name c" using name by (intro first_newest_snoc_new) auto
    with None name show ?thesis by (auto simp: newest_holds_def keep_newest_def split_beta)
  next
    case (Some k)
    with old obtain b where b: "first_newest bs name b" "b_key b = k" "map_of (snd n) name = Some (b_nevra b)"
      by (auto simp: newest_holds_def)
    show ?thesis
    proof (cases "k < b_key c")
      case True
      have "first_newest (bs @ [c]) name c"
        using b(2) first_newest_bound [OF b(1)] True name
        by (intro first_newest_snoc_new) (auto intro: le_less_trans)
      with Some True name show ?thesis by (auto simp: newest_holds_def keep_newest_def split_beta)
    next
      case False
      then have "first_newest (bs @ [c]) name b" using b by (intro first_newest_snoc_other) auto
      with Some False b name show ?thesis by (auto simp: newest_holds_def keep_newest_def split_beta)
    qed
  qed
qed

lemma newest_of_holds: "newest_holds bs name (newest_of bs)"
proof (induction bs rule: rev_induct)
  case Nil
  then show ?case by (simp add: newest_holds_def newest_of_def)
next
  case (snoc c bs)
  from keep_newest_holds [OF this, of c] show ?case by (simp add: newest_of_def)
qed

lemma first_newest_unique:
  assumes "first_newest bs name b" and "first_newest bs name c"
  shows "b = c"
proof -
  from assms obtain p q p' q' where parts: "bs = p @ b # q" "bs = p' @ c # q'"
    and names: "b_name b = name" "b_name c = name"
    and less: "\<forall>x \<in> set p. b_name x = name \<longrightarrow> b_key x < b_key b"
      "\<forall>x \<in> set p'. b_name x = name \<longrightarrow> b_key x < b_key c"
    unfolding first_newest_def by blast
  have "b \<in> set bs" "c \<in> set bs" using parts by (metis in_set_conv_decomp)+
  then have key: "b_key b = b_key c"
    using first_newest_bound [OF assms(1)] first_newest_bound [OF assms(2)] names by (auto intro: order_antisym)
  have "c \<notin> set p" "b \<notin> set p'" using key less names by auto
  moreover have "p @ b # q = p' @ c # q'" using parts by simp
  ultimately show ?thesis by (auto simp: append_eq_append_conv2 append_eq_Cons_conv Cons_eq_append_conv)
qed

lemma found_iff:
  "map_of (snd (newest_of bs)) name = Some nevra \<longleftrightarrow> (\<exists>b. first_newest bs name b \<and> nevra = b_nevra b)"
proof (cases "map_of (fst (newest_of bs)) name")
  case None
  with newest_of_holds [of bs name] have "map_of (snd (newest_of bs)) name = None" "\<forall>b \<in> set bs. b_name b \<noteq> name"
    by (simp_all add: newest_holds_def)
  then show ?thesis by (auto simp: first_newest_def)
next
  case (Some k)
  with newest_of_holds [of bs name] obtain b where "first_newest bs name b"
    "map_of (snd (newest_of bs)) name = Some (b_nevra b)"
    by (auto simp: newest_holds_def)
  then show ?thesis using first_newest_unique by auto
qed

text \<open>The build a report names for a binary package is the first of the newest builds its
  listing has, and every listed package with a version is named.\<close>

theorem published_newest:
  assumes "published_nevra cs files shown = Inr found"
  shows "\<exists>text root bs. primary_xml cs files shown = Inr text \<and> parse_xml cs text = Inr root \<and>
    map_r build_of (packages_of root) = Inr bs \<and>
    (\<forall>name nevra. map_of found name = Some nevra \<longleftrightarrow>
       (\<exists>b. first_newest (List.map_filter id bs) name b \<and> nevra = b_nevra b))"
proof -
  from assms obtain content where content: "primary_xml cs files shown = Inr content"
    unfolding published_nevra_def bind_r_Inr by blast
  with assms have rest: "(case parse_xml cs content of
      Inl why \<Rightarrow> Inl (ClosureError (shown @ '' has an unreadable primary.xml: '' @ why))
    | Inr root \<Rightarrow> bind_r (map_r build_of (packages_of root)) (\<lambda>bs.
        Inr (snd (newest_of (List.map_filter id bs))))) = Inr found"
    by (simp add: published_nevra_def)
  then obtain root where root: "parse_xml cs content = Inr root" by (cases "parse_xml cs content") auto
  with rest obtain bs where "map_r build_of (packages_of root) = Inr bs"
    and found: "found = snd (newest_of (List.map_filter id bs))"
    by (auto simp: bind_r_Inr)
  note read = content root this(1)
  from read show ?thesis unfolding found using found_iff by blast
qed

definition sample_package :: "string \<Rightarrow> xml" where
  "sample_package release = Elem (common_tag ''package'') [] None
     [Elem (common_tag ''name'') [] (Some ''libjxl'') [], Elem (common_tag ''arch'') [] (Some ''x86_64'') [],
      Elem (common_tag ''version'') [(''epoch'', ''1''), (''ver'', ''0.11''), (''rel'', release)] None []]"

definition sample_codecs :: codecs where
  "sample_codecs = \<lparr>parse_xml = (\<lambda>_. Inr (Elem ''metadata'' [] None
       [sample_package ''10.hum1'', sample_package ''2.hum1''])),
     gunzip = Inr, unzstd = Inr\<rparr>"

theorem published_newest_witness:
  "\<exists>root bs b. parse_xml sample_codecs [] = Inr root \<and> map_r build_of (packages_of root) = Inr bs \<and>
    first_newest (List.map_filter id bs) ''libjxl'' b \<and> b_nevra b = ''libjxl-1:0.11-10.hum1.x86_64''"
proof -
  have run: "published_nevra sample_codecs [(''primary.xml'', [])] ''r'' =
      Inr [(''libjxl'', ''libjxl-1:0.11-10.hum1.x86_64'')]" by code_simp
  from published_newest [OF run] obtain content root bs where
    "primary_xml sample_codecs [(''primary.xml'', [])] ''r'' = Inr content" "parse_xml sample_codecs content = Inr root"
    "map_r build_of (packages_of root) = Inr bs"
    and iff: "\<And>name nevra. map_of [(''libjxl'', ''libjxl-1:0.11-10.hum1.x86_64'')] name = Some nevra \<longleftrightarrow>
       (\<exists>b. first_newest (List.map_filter id bs) name b \<and> nevra = b_nevra b)" by blast
  moreover from iff [of "''libjxl''" "''libjxl-1:0.11-10.hum1.x86_64''"] obtain b where
    "first_newest (List.map_filter id bs) ''libjxl'' b" "b_nevra b = ''libjxl-1:0.11-10.hum1.x86_64''" by auto
  moreover have "parse_xml sample_codecs content = parse_xml sample_codecs []" by (simp add: sample_codecs_def)
  ultimately show ?thesis by metis
qed

end
