(* ===== verification/Multimedia_Closure.thy ===== *)
theory Multimedia_Closure
  imports Inventory Json_Parse Release_Order
begin

section \<open>The multimedia closure (\<open>multimedia_closure.py\<close>)\<close>

text \<open>
  The inventory of what answers each name of a multimedia transaction, checked against the recipes.
  The two TOML documents are JSON values here; the recipes are the package inventory, and the
  published builds are those of \<open>Release_Order\<close>.
\<close>

subsection \<open>Reading the documents\<close>

definition closure_error :: "string list \<Rightarrow> 'a result" where
  "closure_error parts = Inl (ClosureError (concat parts))"

definition quote_name :: "string \<Rightarrow> string" where
  "quote_name s = CHR 0x27 # s @ [CHR 0x27]"

definition text_of :: "json \<Rightarrow> string result" where
  "text_of v = (case v of JStr s \<Rightarrow> Inr s | _ \<Rightarrow> Inl Unmodelled)"

definition texts_of :: "json \<Rightarrow> string list result" where
  "texts_of v = bind_r (iterate v) (map_r text_of)"

definition table :: "json \<Rightarrow> string \<Rightarrow> (string, json) dict result" where
  "table v k = bind_r (get_or v k (JObj [])) items_of"

text \<open>\<open>" ".join(s.split())\<close>.\<close>

definition one_line :: "string \<Rightarrow> string" where
  "one_line s = join '' '' (split_space s)"

subsection \<open>Parity with the named upstream\<close>

definition lower_char :: "char \<Rightarrow> char" where
  "lower_char c = (let n = of_char c :: nat in
     if (65 \<le> n \<and> n \<le> 90) \<or> (192 \<le> n \<and> n \<le> 222 \<and> n \<noteq> 215) then char_of (n + 32) else c)"

definition normalise_source :: "string \<Rightarrow> string" where
  "normalise_source url =
     (let s = rev (dropWhile (\<lambda>c. c = CHR ''/'') (rev (strip url)));
          t = (if ends_with ''.git'' s then take (length s - 4) s else s)
      in map lower_char t)"

definition fedora_distgit :: string where
  "fedora_distgit = ''https://src.fedoraproject.org/''"

definition empty_text :: "string option \<Rightarrow> bool" where
  "empty_text s = (s = None \<or> s = Some [])"

definition codec_parity :: "string option \<Rightarrow> string option \<Rightarrow> string option" where
  "codec_parity upstream provenance =
     (if empty_text upstream then None
      else if empty_text provenance then Some ''unknown''
      else let u = normalise_source (the upstream); p = normalise_source (the provenance) in
        if p = u then Some ''upstream''
        else if starts_with fedora_distgit p then Some ''fedora-restricted''
        else Some ''divergent'')"

subsection \<open>What the transaction asks for\<close>

definition group_members :: "json \<Rightarrow> string \<Rightarrow> (string \<times> string) list result" where
  "group_members closure grp =
     bind_r (bind_r (get_or closure ''groups'' (JObj [])) (\<lambda>g. get_or g grp JNull)) (\<lambda>definition_of_group.
       if definition_of_group = JNull then closure_error [''[groups.'', [CHR 0x22], grp, [CHR 0x22], ''] is missing'']
       else bind_r (bind_r (get_or definition_of_group ''members'' (JList [])) texts_of) (\<lambda>members.
         Inr ((grp, ''comps-group'') # map (\<lambda>m. (m, ''comps-group:'' @ grp)) members)))"

definition asked_for :: "json \<Rightarrow> json \<Rightarrow> (string \<times> string) list result" where
  "asked_for manifest closure =
     bind_r (get_or closure ''transaction'' (JObj [])) (\<lambda>transaction.
     bind_r (get_or transaction ''overrides_section'' JNull) (\<lambda>section_name.
       if \<not> truthy section_name then closure_error [''[transaction].overrides_section is required'']
       else bind_r (text_of section_name) (\<lambda>s.
         bind_r (items_of manifest) (\<lambda>sections.
         case map_of sections s of
           None \<Rightarrow> closure_error [''Bluefin manifest has no ['', s, ''] section'']
         | Some overrides \<Rightarrow>
             bind_r (bind_r (get_or overrides ''packages'' (JList [])) texts_of) (\<lambda>binaries.
             bind_r (bind_r (get_or transaction ''codecs'' (JList [])) texts_of) (\<lambda>codec_names.
             bind_r (bind_r (get_or transaction ''groups'' (JList [])) texts_of) (\<lambda>group_names.
             bind_r (map_r (group_members closure) group_names) (\<lambda>members. Inr (
               map (\<lambda>b. (b, ''multimedia-override'')) binaries @
               map (\<lambda>b. (b, ''codec-transaction'')) codec_names @ concat members)))))))))"

text \<open>The first origin of every name, in order.\<close>

fun first_origins :: "string list \<Rightarrow> (string \<times> string) list \<Rightarrow> (string \<times> string) list" where
  "first_origins seen [] = []"
| "first_origins seen ((name, origin) # rest) =
     (if name \<in> set seen then first_origins seen rest
      else (name, origin) # first_origins (name # seen) rest)"

definition requirements :: "json \<Rightarrow> json \<Rightarrow> (string \<times> string) list result" where
  "requirements manifest closure =
     bind_r (asked_for manifest closure) (\<lambda>ordered.
       let names = first_origins [] ordered in
       if names = [] then closure_error [''the multimedia transaction resolved to no requirements''] else Inr names)"

subsection \<open>What the inventory claims\<close>

record claim =
  cl_status :: string
  cl_source :: "string option"
  cl_binary :: "string option"
  cl_note :: "string option"

type_synonym claims = "(string, claim) dict"

definition record_claim :: "string \<Rightarrow> claim \<Rightarrow> claims \<Rightarrow> claims result" where
  "record_claim name claim claims =
     (if dict_has claims name then closure_error [''requirement claimed by two tables: '', name]
      else Inr (AList.update name claim claims))"

definition claim_built :: "string \<times> json \<Rightarrow> claims \<Rightarrow> claims result" where
  "claim_built = (\<lambda>(name, source) claims.
     case source of
       JStr (c # cs) \<Rightarrow> record_claim name \<lparr>cl_status = ''built'', cl_source = Some (c # cs),
         cl_binary = Some name, cl_note = None\<rparr> claims
     | _ \<Rightarrow> closure_error [''[built].'', name, '' must name a factory source recipe''])"

definition require_field :: "string \<Rightarrow> string \<Rightarrow> json \<Rightarrow> string \<Rightarrow> json result" where
  "require_field part name entry k =
     bind_r (get_or entry k JNull) (\<lambda>v.
       if truthy v then Inr v else closure_error [''['', part, ''.'', name, ''] is missing '', k])"

definition claim_equivalent :: "string \<times> json \<Rightarrow> claims \<Rightarrow> claims result" where
  "claim_equivalent = (\<lambda>(name, entry) claims.
     bind_r (map_r (require_field ''equivalent'' name entry) [''source'', ''binary'', ''reason'']) (\<lambda>vs.
     bind_r (map_r text_of vs) (\<lambda>ts.
       record_claim name \<lparr>cl_status = ''equivalent'', cl_source = Some (ts ! 0), cl_binary = Some (ts ! 1),
         cl_note = Some (one_line (ts ! 2))\<rparr> claims)))"

definition claim_exception :: "string \<times> json \<Rightarrow> claims \<Rightarrow> claims result" where
  "claim_exception = (\<lambda>(name, entry) claims.
     bind_r (bind_r (require_field ''exception'' name entry ''reason'') text_of) (\<lambda>reason.
       record_claim name \<lparr>cl_status = ''exception'', cl_source = None, cl_binary = None,
         cl_note = Some (one_line reason)\<rparr> claims))"

definition claims_of :: "json \<Rightarrow> claims result" where
  "claims_of closure =
     bind_r (table closure ''built'') (\<lambda>built. bind_r (fold_r claim_built built []) (\<lambda>c1.
     bind_r (table closure ''equivalent'') (\<lambda>equivalent. bind_r (fold_r claim_equivalent equivalent c1) (\<lambda>c2.
     bind_r (table closure ''exception'') (\<lambda>exceptions. fold_r claim_exception exceptions c2)))))"

subsection \<open>Resolving one requirement\<close>

record resolved =
  rs_requirement :: string
  rs_origin :: string
  rs_status :: string
  rs_source :: "string option"
  rs_binary :: "string option"
  rs_upstream :: "string option"
  rs_parity :: "string option"
  rs_parity_note :: "string option"
  rs_stage :: "int option"
  rs_version :: json
  rs_nevra :: "string option"
  rs_provenance :: "string option"
  rs_note :: "string option"

text \<open>
  What \<open>resolve\<close> has read: the recipes, the locks, the text of each recipe's provenance file, the
  published builds when a repository is given, and the two tables of the closure.
\<close>

record tree_view =
  tv_recipes :: "package_record list"
  tv_locks :: "(string, entry) dict"
  tv_provenance :: "string \<Rightarrow> string option"
  tv_nevra :: "(string, string) dict"
  tv_upstream :: "(string, json) dict"
  tv_parity :: "(string, json) dict"

text \<open>\<open>a.get(name) or (a.get(source) if source else None)\<close>.\<close>

definition by_name_or_source :: "(string, json) dict \<Rightarrow> string \<Rightarrow> string option \<Rightarrow> json" where
  "by_name_or_source d name source =
     (let v = dict_get d name JNull in
      if truthy v then v else (case source of None \<Rightarrow> JNull | Some s \<Rightarrow> if s = [] then JNull else dict_get d s JNull))"

definition optional_text :: "json \<Rightarrow> string option result" where
  "optional_text v = (case v of JNull \<Rightarrow> Inr None | JStr s \<Rightarrow> Inr (Some s) | _ \<Rightarrow> Inl Unmodelled)"

text \<open>Any failure to read the file leaves no provenance.\<close>

definition provenance_of :: "tree_view \<Rightarrow> string \<Rightarrow> string option result" where
  "provenance_of tv source =
     (case tv_provenance tv source of
        None \<Rightarrow> Inr None
      | Some content \<Rightarrow>
          (case bind_r (loads content) (\<lambda>v. get_or v ''remote'' JNull) of
             Inl _ \<Rightarrow> Inr None
           | Inr v \<Rightarrow> optional_text v))"

definition recipe_for :: "tree_view \<Rightarrow> string \<Rightarrow> string \<Rightarrow> package_record result" where
  "recipe_for tv name source =
     (case List.find (\<lambda>r. pname r = source) (rev (tv_recipes tv)) of
        None \<Rightarrow> closure_error [name, '' is answered by '', source, '', which is not a recipe in packages/'']
      | Some r \<Rightarrow>
          if source_locked r \<and> packit_configured r then Inr r
          else closure_error [name, '' is answered by '', source,
            '', which is not eligible to build (no source lock or no Packit entry)''])"

definition check_parity ::
    "tree_view \<Rightarrow> string \<Rightarrow> string option \<Rightarrow> string option \<Rightarrow> string option \<Rightarrow> string \<Rightarrow> string option result" where
  "check_parity tv name source upstream provenance parity =
     (let d = by_name_or_source (tv_parity tv) name source;
          key = (case source of None \<Rightarrow> name | Some s \<Rightarrow> if s = [] then name else s);
          shown = (\<lambda>s. case s of None \<Rightarrow> ''None'' | Some t \<Rightarrow> t);
          undeclared = closure_error [name, '' is built from '', shown provenance,
            '', which is not the named upstream spec source '', shown upstream,
            ''; declare the restriction in [parity.'', key, ''] with a reason''] in
      if \<not> truthy d then undeclared
      else bind_r (get_or d ''reason'' JNull) (\<lambda>reason.
        if \<not> truthy reason then undeclared
        else bind_r (get_or d ''status'' JNull) (\<lambda>status.
          if status \<noteq> JStr parity then
            bind_r (py_str status) (\<lambda>declared_status. closure_error [''[parity.'', key, ''] declares status '',
              quote_name declared_status, '' but '', name, '' derives '', quote_name parity,
              '' from its provenance '', shown provenance, '' against the named upstream spec source '', shown upstream])
          else bind_r (text_of reason) (\<lambda>r. Inr (Some (one_line r))))))"

definition check_override :: "string \<Rightarrow> string option \<Rightarrow> string option \<Rightarrow> unit result" where
  "check_override name source upstream =
     (if empty_text source then
        closure_error [''multimedia override binary '', quote_name name, '' has no factory source recipe'']
      else (case upstream of
          Some (c # cs) \<Rightarrow>
            if starts_with ''https://github.com/negativo17/'' (c # cs) \<or> starts_with ''https://github.com/rpmfusion/'' (c # cs)
            then Inr ()
            else closure_error [''multimedia override binary '', quote_name name, '' upstream spec source '',
              quote_name (c # cs), '' must be from negativo17 or rpmfusion'']
        | _ \<Rightarrow> closure_error [''multimedia override binary '', quote_name name, '' has no named upstream spec source'']))"

definition resolve_one :: "tree_view \<Rightarrow> claims \<Rightarrow> string \<times> string \<Rightarrow> resolved result" where
  "resolve_one tv claims = (\<lambda>(name, origin).
     bind_r (dict_index claims name) (\<lambda>claim.
     let source = cl_source claim in
     bind_r (optional_text (by_name_or_source (tv_upstream tv) name source)) (\<lambda>upstream.
     bind_r (case source of
         None \<Rightarrow> Inr (None, JNull, None)
       | Some s \<Rightarrow>
           bind_r (recipe_for tv name s) (\<lambda>r.
           bind_r (dict_index (tv_locks tv) s) (\<lambda>e.
           bind_r (provenance_of tv s) (\<lambda>p. Inr (Some (pstage r), field_or_none e ''version'', p)))))
       (\<lambda>(stage, version, provenance).
     let parity = (if source = None then None else codec_parity upstream provenance) in
     bind_r (case parity of
         Some p \<Rightarrow>
           if p = ''fedora-restricted'' \<or> p = ''divergent''
           then check_parity tv name source upstream provenance p else Inr None
       | None \<Rightarrow> Inr None) (\<lambda>parity_note.
     bind_r (if origin = ''multimedia-override'' then check_override name source upstream else Inr ()) (\<lambda>_.
       Inr \<lparr>rs_requirement = name, rs_origin = origin, rs_status = cl_status claim, rs_source = source,
         rs_binary = cl_binary claim, rs_upstream = upstream, rs_parity = parity, rs_parity_note = parity_note,
         rs_stage = stage, rs_version = version,
         rs_nevra = (case cl_binary claim of None \<Rightarrow> None | Some b \<Rightarrow> if b = [] then None else map_of (tv_nevra tv) b),
         rs_provenance = provenance, rs_note = cl_note claim\<rparr>))))))"

subsection \<open>The whole closure\<close>

definition check_none :: "string \<Rightarrow> string list \<Rightarrow> unit result" where
  "check_none why names = (if names = [] then Inr () else closure_error [why, join '', '' names])"

definition known_keys :: "(string \<times> string) list \<Rightarrow> claims \<Rightarrow> string list" where
  "known_keys wanted claims =
     map fst wanted @ filter (\<lambda>s. s \<noteq> []) (List.map_filter (\<lambda>(_, c). cl_source c) claims)"

definition check_tables :: "tree_view \<Rightarrow> (string \<times> string) list \<Rightarrow> claims \<Rightarrow> unit result" where
  "check_tables tv wanted claims =
     bind_r (check_none ''multimedia requirements with no entry in config/multimedia-closure.toml: ''
       (filter (\<lambda>n. \<not> dict_has claims n) (map fst wanted))) (\<lambda>_.
     bind_r (check_none ''config/multimedia-closure.toml claims requirements the transaction does not ask for: ''
       (sorted_set (set_minus (map fst claims) (map fst wanted)))) (\<lambda>_.
     bind_r (check_none ''config/multimedia-closure.toml [upstream_spec_sources] maps names the transaction does not ask for: ''
       (sorted_set (set_minus (map fst (tv_upstream tv)) (known_keys wanted claims)))) (\<lambda>_.
     check_none ''config/multimedia-closure.toml [parity] declares names the transaction does not ask for: ''
       (sorted_set (set_minus (map fst (tv_parity tv)) (known_keys wanted claims))))))"

definition resolve_closure :: "tree_view \<Rightarrow> json \<Rightarrow> json \<Rightarrow> resolved list result" where
  "resolve_closure tv manifest closure =
     bind_r (claims_of closure) (\<lambda>claims.
     bind_r (requirements manifest closure) (\<lambda>wanted.
     bind_r (check_tables tv wanted claims) (\<lambda>_.
       map_r (resolve_one tv claims) wanted)))"

definition how_many :: "('a \<Rightarrow> bool) \<Rightarrow> 'a list \<Rightarrow> nat" where
  "how_many P xs = length (filter P xs)"

text \<open>\<open>counts\<close>; the published builds are counted only against a repository.\<close>

definition closure_counts :: "resolved list \<Rightarrow> bool \<Rightarrow> (string, nat) dict" where
  "closure_counts rs with_repo =
     [(''requirements'', length rs),
      (''built'', how_many (\<lambda>r. rs_status r = ''built'') rs),
      (''equivalent'', how_many (\<lambda>r. rs_status r = ''equivalent'') rs),
      (''exception'', how_many (\<lambda>r. rs_status r = ''exception'') rs),
      (''sources'', length (remdups (filter (\<lambda>s. s \<noteq> []) (List.map_filter rs_source rs)))),
      (''upstream_parity'', how_many (\<lambda>r. rs_parity r = Some ''upstream'') rs),
      (''fedora_restricted'', how_many (\<lambda>r. rs_parity r = Some ''fedora-restricted'') rs),
      (''divergent'', how_many (\<lambda>r. rs_parity r = Some ''divergent'') rs)] @
     (if with_repo then [(''published'', how_many (\<lambda>r. rs_nevra r \<noteq> None) rs)] else [])"

text \<open>What \<open>--check\<close> prints.\<close>

definition check_lines :: "resolved list \<Rightarrow> bool \<Rightarrow> string list" where
  "check_lines rs with_repo =
     (let summary_text = join '', '' (map (\<lambda>(k, n). show_nat n @ '' '' @ k) (closure_counts rs with_repo));
          restricted = map rs_requirement
            (filter (\<lambda>r. rs_parity r \<in> {Some ''fedora-restricted'', Some ''divergent''}) rs) in
      (''multimedia closure inventoried: '' @ summary_text) #
      (if restricted = [] then []
       else [''codec parity not yet at the named upstream spec source for: '' @ join '', '' restricted]))"

definition closure_view ::
    "pkg_dir list \<Rightarrow> entry list \<Rightarrow> string \<Rightarrow> (string \<Rightarrow> string option) \<Rightarrow> (string, string) dict \<Rightarrow> json \<Rightarrow>
     tree_view result" where
  "closure_view dirs packages packit provenance nevra closure =
     bind_r (inventory dirs packages packit) (\<lambda>recipes.
     bind_r (load_source_locks packages) (\<lambda>locks.
     bind_r (table closure ''upstream_spec_sources'') (\<lambda>upstream.
     bind_r (table closure ''parity'') (\<lambda>parity.
       Inr \<lparr>tv_recipes = recipes, tv_locks = locks, tv_provenance = provenance, tv_nevra = nevra,
         tv_upstream = upstream, tv_parity = parity\<rparr>))))"

subsection \<open>Facts\<close>

lemma closure_error_not [simp]: "closure_error ps \<noteq> Inr x"
  by (simp add: closure_error_def)

lemma first_origins_names:
  "distinct (map fst (first_origins seen xs)) \<and> set (map fst (first_origins seen xs)) = fst ` set xs - set seen"
  by (induction seen xs rule: first_origins.induct) auto

lemma requirements_distinct: "requirements manifest closure = Inr wanted \<Longrightarrow> distinct (map fst wanted)"
  using first_origins_names by (auto simp: requirements_def bind_r_Inr Let_def split: if_splits)

lemma check_none_ok [simp]: "check_none why names = Inr u \<longleftrightarrow> names = []"
  by (simp add: check_none_def)

lemma recipe_for_ok:
  assumes "recipe_for tv name s = Inr r"
  shows "r \<in> set (tv_recipes tv) \<and> pname r = s \<and> source_locked r \<and> packit_configured r"
  using assms by (auto simp: recipe_for_def find_Some_iff split: option.splits if_splits)
    (metis in_set_conv_nth length_rev set_rev)

lemma check_parity_ok: "check_parity tv name source u p parity = Inr note \<Longrightarrow> note \<noteq> None"
  by (auto simp: check_parity_def Let_def bind_r_Inr split: if_splits)

lemma check_override_ok:
  "check_override name source upstream = Inr () \<longleftrightarrow> \<not> empty_text source \<and>
     (\<exists>u. upstream = Some u \<and>
       (starts_with ''https://github.com/negativo17/'' u \<or> starts_with ''https://github.com/rpmfusion/'' u))"
  by (auto simp: check_override_def split: option.splits list.splits)

text \<open>What a claim of each status carries.\<close>

definition claim_typed :: "string \<times> claim \<Rightarrow> bool" where
  "claim_typed = (\<lambda>(name, c).
     cl_status c = ''built'' \<and> \<not> empty_text (cl_source c) \<and> cl_binary c = Some name \<and> cl_note c = None \<or>
     cl_status c = ''equivalent'' \<and> \<not> empty_text (cl_source c) \<and> \<not> empty_text (cl_binary c) \<and> cl_note c \<noteq> None \<or>
     cl_status c = ''exception'' \<and> cl_source c = None \<and> cl_binary c = None \<and> cl_note c \<noteq> None)"

definition claims_typed :: "claims \<Rightarrow> bool" where
  "claims_typed claims = (distinct (map fst claims) \<and> list_all claim_typed claims)"

lemma record_claim_typed:
  assumes "record_claim name c claims = Inr claims'" and "claims_typed claims" and "claim_typed (name, c)"
  shows "claims_typed claims'"
proof -
  from assms(1) have "name \<notin> fst ` set claims" and "claims' = AList.update name c claims"
    by (auto simp: record_claim_def dict_has_iff split: if_splits)
  then have "claims' = claims @ [(name, c)]" by (induction claims arbitrary: claims') auto
  with assms(2,3) \<open>name \<notin> fst ` set claims\<close> show ?thesis by (auto simp: claims_typed_def)
qed

lemma claim_built_typed: "claim_built e claims = Inr claims' \<Longrightarrow> claims_typed claims \<Longrightarrow> claims_typed claims'"
  by (cases e) (auto simp: claim_built_def claim_typed_def empty_text_def split: json.splits list.splits
      elim!: record_claim_typed)

lemma require_field_ok: "require_field p n e k = Inr v \<Longrightarrow> truthy v"
  by (auto simp: require_field_def bind_r_Inr split: if_splits)

lemma truthy_text: "truthy v \<Longrightarrow> text_of v = Inr s \<Longrightarrow> s \<noteq> []"
  by (auto simp: text_of_def split: json.splits)

lemma claim_equivalent_typed:
  assumes "claim_equivalent e claims = Inr claims'" and "claims_typed claims"
  shows "claims_typed claims'"
proof -
  obtain name entry where e: "e = (name, entry)" by (cases e)
  from assms(1) obtain a b c s t u where fields: "require_field ''equivalent'' name entry ''source'' = Inr a"
    "require_field ''equivalent'' name entry ''binary'' = Inr b" and texts: "text_of a = Inr s" "text_of b = Inr t"
    and record_it: "record_claim name \<lparr>cl_status = ''equivalent'', cl_source = Some s, cl_binary = Some t,
      cl_note = Some (one_line u)\<rparr> claims = Inr claims'"
    by (auto simp: claim_equivalent_def e bind_r_Inr)
  have "s \<noteq> []" "t \<noteq> []" using fields texts by (auto dest: require_field_ok truthy_text)
  with record_claim_typed [OF record_it assms(2)] show ?thesis by (simp add: claim_typed_def empty_text_def)
qed

lemma claim_exception_typed:
  "claim_exception e claims = Inr claims' \<Longrightarrow> claims_typed claims \<Longrightarrow> claims_typed claims'"
  by (cases e) (auto simp: claim_exception_def bind_r_Inr claim_typed_def elim!: record_claim_typed)


text \<open>A requirement is answered: by an eligible recipe, an override by a named upstream, a parity gap by a note.\<close>

definition answered :: "tree_view \<Rightarrow> resolved \<Rightarrow> bool" where
  "answered tv r =
     ((case rs_source r of None \<Rightarrow> True | Some s \<Rightarrow>
         \<exists>p \<in> set (tv_recipes tv). pname p = s \<and> source_locked p \<and> packit_configured p) \<and>
      (rs_origin r = ''multimedia-override'' \<longrightarrow> \<not> empty_text (rs_source r) \<and>
         (\<exists>u. rs_upstream r = Some u \<and>
           (starts_with ''https://github.com/negativo17/'' u \<or> starts_with ''https://github.com/rpmfusion/'' u))) \<and>
      (rs_parity r \<in> {Some ''fedora-restricted'', Some ''divergent''} \<longrightarrow> rs_parity_note r \<noteq> None))"

lemma resolve_one_ok:
  assumes "resolve_one tv claims w = Inr r"
  shows "answered tv r" and "(rs_requirement r, rs_origin r) = w" and "fst w \<in> fst ` set claims"
proof -
  obtain name origin where w: "w = (name, origin)" by (cases w)
  from assms obtain claim upstream stage version provenance parity_note where
    claim: "dict_index claims name = Inr claim"
    and recipe: "(case cl_source claim of
         None \<Rightarrow> Inr (None, JNull, None)
       | Some s \<Rightarrow> bind_r (recipe_for tv name s) (\<lambda>r. bind_r (dict_index (tv_locks tv) s) (\<lambda>e.
           bind_r (provenance_of tv s) (\<lambda>p. Inr (Some (pstage r), field_or_none e ''version'', p))))) =
       Inr (stage, version, provenance)"
    and gap: "(case (if cl_source claim = None then None else codec_parity upstream provenance) of
         Some p \<Rightarrow> if p = ''fedora-restricted'' \<or> p = ''divergent''
           then check_parity tv name (cl_source claim) upstream provenance p else Inr None
       | None \<Rightarrow> Inr None) = Inr parity_note"
    and override: "(if origin = ''multimedia-override'' then check_override name (cl_source claim) upstream else Inr ()) = Inr ()"
    and r: "rs_requirement r = name" "rs_origin r = origin" "rs_source r = cl_source claim" "rs_upstream r = upstream"
      "rs_parity r = (if cl_source claim = None then None else codec_parity upstream provenance)"
      "rs_parity_note r = parity_note"
    unfolding resolve_one_def w Let_def prod.case bind_r_Inr by (elim exE conjE) (auto simp: bind_r_Inr)
  show "(rs_requirement r, rs_origin r) = w" by (simp add: w r)
  show "fst w \<in> fst ` set claims"
    using claim dict_has_iff [of claims name] by (simp add: w dict_index_def dict_has_def split: option.splits)
  have "case cl_source claim of None \<Rightarrow> True | Some s \<Rightarrow>
      \<exists>p \<in> set (tv_recipes tv). pname p = s \<and> source_locked p \<and> packit_configured p"
    using recipe recipe_for_ok by (fastforce simp: bind_r_Inr split: option.splits)
  moreover have "parity_note \<noteq> None" if "rs_parity r \<in> {Some ''fedora-restricted'', Some ''divergent''}"
    using that gap check_parity_ok unfolding r by (auto split: option.splits)
  ultimately show "answered tv r"
    using override by (auto simp: answered_def r check_override_ok)
qed

text \<open>C33: When the closure resolves, it answers exactly the names the transaction asks for, each once
  and in order: every recipe it names is locked and configured to build, every override has a source
  recipe and a named upstream of the two allowed, and every gap to that upstream is explained.\<close>

theorem closure_answers_transaction:
  assumes "resolve_closure tv manifest closure = Inr rs"
  shows "\<exists>claims wanted. claims_of closure = Inr claims \<and> requirements manifest closure = Inr wanted \<and>
    map (\<lambda>r. (rs_requirement r, rs_origin r)) rs = wanted \<and> distinct (map fst wanted) \<and>
    set (map fst claims) = set (map fst wanted) \<and> (\<forall>r \<in> set rs. answered tv r)"
proof -
  from assms obtain claims wanted where claims: "claims_of closure = Inr claims"
    and wanted: "requirements manifest closure = Inr wanted" and tables: "check_tables tv wanted claims = Inr ()"
    and rs: "list_all2 (\<lambda>w r. resolve_one tv claims w = Inr r) wanted rs"
    by (auto simp: resolve_closure_def bind_r_Inr map_r_Inr)
  have same: "map (\<lambda>r. (rs_requirement r, rs_origin r)) rs = wanted"
    using rs by (induction rule: list_all2_induct) (auto dest: resolve_one_ok(2))
  have all: "answered tv r" if "r \<in> set rs" for r
    using rs that by (induction rule: list_all2_induct) (auto dest: resolve_one_ok(1))
  have "set (map fst wanted) \<subseteq> set (map fst claims)"
    using rs by (induction rule: list_all2_induct) (auto dest: resolve_one_ok(3))
  moreover have "set (map fst claims) \<subseteq> set (map fst wanted)"
  proof -
    have "set_minus (map fst claims) (map fst wanted) = []"
      using tables by (auto simp: check_tables_def bind_r_Inr)
    then show ?thesis by (metis Diff_eq_empty_iff empty_set set_ops(3))
  qed
  ultimately show ?thesis using claims wanted same all requirements_distinct [OF wanted] by blast
qed

definition sample_manifest :: json where
  "sample_manifest = JObj [(''m'', JObj [(''packages'', JList [JStr ''mesa''])])]"

definition sample_closure :: json where
  "sample_closure = JObj [(''transaction'', JObj [(''overrides_section'', JStr ''m'')]),
     (''built'', JObj [(''mesa'', JStr ''mesa'')])]"

definition sample_view :: tree_view where
  "sample_view = \<lparr>tv_recipes = [\<lparr>pname = ''mesa'', pspec = ''mesa.spec'', pstage = 0, source_locked = True,
       packit_configured = True, provenance_branch = None\<rparr>],
     tv_locks = [(''mesa'', \<lparr>ename = ''mesa'', efields = []\<rparr>)], tv_provenance = (\<lambda>_. None), tv_nevra = [],
     tv_upstream = [(''mesa'', JStr ''https://github.com/negativo17/mesa'')], tv_parity = []\<rparr>"

theorem closure_answers_transaction_witness:
  "\<exists>rs. resolve_closure sample_view sample_manifest sample_closure = Inr rs \<and>
    map (\<lambda>r. (rs_requirement r, rs_origin r)) rs = [(''mesa'', ''multimedia-override'')]"
proof -
  have "case resolve_closure sample_view sample_manifest sample_closure of Inr rs \<Rightarrow> True | Inl e \<Rightarrow> False"
    by code_simp
  then obtain rs where rs: "resolve_closure sample_view sample_manifest sample_closure = Inr rs"
    by (auto split: sum.splits)
  have "requirements sample_manifest sample_closure = Inr [(''mesa'', ''multimedia-override'')]" by code_simp
  with closure_answers_transaction [OF rs] rs show ?thesis by auto
qed


end
