(* ===== verification/Py_Regex.thy ===== *)
theory Py_Regex
  imports Py_Strings
begin

section \<open>Regular expressions\<close>

text \<open>
  The expressions the lint tools match are written down as they stand in the code: character classes,
  sequences, alternatives, repetitions, and assertions about the character before and the text ahead. A
  match is a relation; \<open>rests\<close> computes all its outcomes, which is what \<open>re\<close> decides when only
  whether and where something matches counts.
\<close>

datatype regex =
    One "char \<Rightarrow> bool"
  | Empty
  | Then regex regex
  | Either regex regex
  | Many regex
  | Look "char option \<Rightarrow> string \<Rightarrow> bool"

text \<open>\<open>matches r p s q t\<close>: after the character \<open>p\<close>, \<open>r\<close> takes a part off the front of \<open>s\<close>; \<open>q\<close> is
  the character before what is left, \<open>t\<close>.\<close>

inductive matches :: "regex \<Rightarrow> char option \<Rightarrow> string \<Rightarrow> char option \<Rightarrow> string \<Rightarrow> bool" where
  one: "f c \<Longrightarrow> matches (One f) p (c # s) (Some c) s"
| empty: "matches Empty p s p s"
| sequence: "matches a p s q t \<Longrightarrow> matches b q t r u \<Longrightarrow> matches (Then a b) p s r u"
| left: "matches a p s q t \<Longrightarrow> matches (Either a b) p s q t"
| right: "matches b p s q t \<Longrightarrow> matches (Either a b) p s q t"
| stop: "matches (Many a) p s p s"
| again: "matches a p s q t \<Longrightarrow> matches (Many a) q t r u \<Longrightarrow> matches (Many a) p s r u"
| look: "f p s \<Longrightarrow> matches (Look f) p s p s"

inductive_cases matches_elims:
  "matches (One f) p s q t" "matches Empty p s q t" "matches (Then a b) p s q t"
  "matches (Either a b) p s q t" "matches (Look f) p s q t"

inductive_simps matches_simps:
  "matches (One f) p s q t" "matches Empty p s q t" "matches (Then a b) p s q t"
  "matches (Either a b) p s q t" "matches (Look f) p s q t"

lemma matches_suffix:
  "matches r p s q t \<Longrightarrow> \<exists>u. s = u @ t \<and> q = (if u = [] then p else Some (last u))"
proof (induction rule: matches.induct)
  case (sequence a p s q t b r u)
  then obtain x y where "s = x @ t" "q = (if x = [] then p else Some (last x))" "t = y @ u" "r = (if y = [] then q else Some (last y))"
    by blast
  then show ?case by (intro exI [of _ "x @ y"]) auto
next
  case (again a p s q t r u)
  then obtain x y where "s = x @ t" "q = (if x = [] then p else Some (last x))" "t = y @ u" "r = (if y = [] then q else Some (last y))"
    by blast
  then show ?case by (intro exI [of _ "x @ y"]) auto
qed auto

lemma matches_same: "matches r p s q t \<Longrightarrow> length s \<le> length t \<Longrightarrow> q = p \<and> t = s"
  using matches_suffix by fastforce

text \<open>A round of a repetition that takes nothing can be left out.\<close>

lemma many_cases:
  assumes "matches (Many a) p s r u"
  shows "r = p \<and> u = s \<or> (\<exists>q t. matches a p s q t \<and> length t < length s \<and> matches (Many a) q t r u)"
  using assms
proof (induction "Many a" p s r u rule: matches.induct)
  case (again p s q t r u)
  show ?case
  proof (cases "length t < length s")
    case False
    with again(1) have "q = p" "t = s" using matches_same by fastforce+
    with again(4) show ?thesis by simp
  qed (use again in blast)
qed simp

function rests :: "regex \<Rightarrow> char option \<Rightarrow> string \<Rightarrow> (char option \<times> string) list" where
  "rests (One f) p s = (case s of [] \<Rightarrow> [] | c # cs \<Rightarrow> if f c then [(Some c, cs)] else [])"
| "rests Empty p s = [(p, s)]"
| "rests (Then a b) p s = concat (map (\<lambda>x. rests b (fst x) (snd x)) (rests a p s))"
| "rests (Either a b) p s = rests a p s @ rests b p s"
| "rests (Many a) p s =
     (p, s) # concat (map (\<lambda>x. if length (snd x) < length s then rests (Many a) (fst x) (snd x) else []) (rests a p s))"
| "rests (Look f) p s = (if f p s then [(p, s)] else [])"
  by pat_completeness auto
termination
  by (relation "inv_image (less_than <*lex*> less_than) (\<lambda>(r, p, s). (size r, length s))") auto

declare rests.simps(5) [simp del]

lemma rests_matches: "(q, t) \<in> set (rests r p s) \<longleftrightarrow> matches r p s q t"
proof (induction r p s arbitrary: q t rule: rests.induct)
  case (1 f p s)
  show ?case by (cases s) (auto intro: matches.intros elim: matches_elims)
next
  case (3 a b p s)
  have "(q, t) \<in> set (rests (Then a b) p s) \<longleftrightarrow> (\<exists>x \<in> set (rests a p s). matches b (fst x) (snd x) q t)"
    using 3(2) by auto
  also have "\<dots> \<longleftrightarrow> (\<exists>v w. matches a p s v w \<and> matches b v w q t)"
    by (simp add: 3(1) [symmetric] Bex_def split_paired_Ex)
  also have "\<dots> \<longleftrightarrow> matches (Then a b) p s q t" by (auto intro: matches.intros elim!: matches_elims)
  finally show ?case .
next
  case (5 a p s)
  have "(q, t) \<in> set (rests (Many a) p s) \<longleftrightarrow>
      (q, t) = (p, s) \<or> (\<exists>x \<in> set (rests a p s). length (snd x) < length s \<and> matches (Many a) (fst x) (snd x) q t)"
    unfolding rests.simps(5) [of a p s] using 5(2) by auto
  also have "\<dots> \<longleftrightarrow> (q, t) = (p, s) \<or> (\<exists>v w. matches a p s v w \<and> length w < length s \<and> matches (Many a) v w q t)"
    by (simp add: 5(1) [symmetric] Bex_def split_paired_Ex)
  also have "\<dots> \<longleftrightarrow> matches (Many a) p s q t" using many_cases by (fastforce intro: matches.intros)
  finally show ?case .
qed (auto intro: matches.intros elim: matches_elims)

subsection \<open>How the tools use them\<close>

text \<open>\<open>re.match\<close>, \<open>re.fullmatch\<close>, and \<open>re.search\<close> with what stands before the leftmost match.\<close>

definition match_here :: "regex \<Rightarrow> string \<Rightarrow> bool" where
  "match_here r s = (rests r None s \<noteq> [])"

definition full_match :: "regex \<Rightarrow> string \<Rightarrow> bool" where
  "full_match r s = list_ex (\<lambda>x. snd x = []) (rests r None s)"

fun search_from :: "regex \<Rightarrow> string \<Rightarrow> string \<Rightarrow> string option" where
  "search_from r seen s =
     (if rests r (case seen of [] \<Rightarrow> None | c # _ \<Rightarrow> Some c) s \<noteq> [] then Some (rev seen)
      else (case s of [] \<Rightarrow> None | c # cs \<Rightarrow> search_from r (c # seen) cs))"

declare search_from.simps [simp del]

definition search_re :: "regex \<Rightarrow> string \<Rightarrow> string option" where
  "search_re r s = search_from r [] s"

lemma match_here_iff: "match_here r s \<longleftrightarrow> (\<exists>q t. matches r None s q t)"
  unfolding match_here_def by (metis list.set_intros(1) neq_Nil_conv rests_matches surj_pair list.distinct(1) empty_iff list.set(1))

lemma search_from_Some:
  "search_from r seen s = Some u \<Longrightarrow> \<exists>v w. u = rev seen @ v \<and> s = v @ w \<and>
     rests r (case rev v @ seen of [] \<Rightarrow> None | c # _ \<Rightarrow> Some c) w \<noteq> []"
proof (induction r seen s rule: search_from.induct)
  case (1 r seen s)
  show ?case
  proof (cases "rests r (case seen of [] \<Rightarrow> None | c # _ \<Rightarrow> Some c) s = []")
    case True
    with 1(2) obtain c cs where s: "s = c # cs" "search_from r (c # seen) cs = Some u"
      by (auto simp: search_from.simps [of r seen s] split: list.splits)
    with 1(1) True obtain v w where "u = rev (c # seen) @ v" "cs = v @ w"
      "rests r (case rev v @ c # seen of [] \<Rightarrow> None | c # _ \<Rightarrow> Some c) w \<noteq> []" by blast
    with s show ?thesis by (intro exI [of _ "c # v"] exI [of _ w]) simp
  next
    case False
    with 1(2) have "u = rev seen" by (simp add: search_from.simps [of r seen s])
    with False show ?thesis by (intro exI [of _ "[]"] exI [of _ s]) simp
  qed
qed

text \<open>Abbreviated ways to write expressions.\<close>

fun text_re :: "string \<Rightarrow> regex" where
  "text_re [] = Empty"
| "text_re (c # cs) = Then (One (\<lambda>x. x = c)) (text_re cs)"

fun chain :: "regex list \<Rightarrow> regex" where
  "chain [] = Empty"
| "chain [r] = r"
| "chain (r # rs) = Then r (chain rs)"

fun one_of :: "regex list \<Rightarrow> regex" where
  "one_of [] = Look (\<lambda>_ _. False)"
| "one_of [r] = r"
| "one_of (r # rs) = Either r (one_of rs)"

definition many1 :: "regex \<Rightarrow> regex" where
  "many1 r = Then r (Many r)"

definition optional :: "regex \<Rightarrow> regex" where
  "optional r = Either r Empty"

text \<open>\<open>r{m,n}\<close> as \<open>up_to (n - m) r\<close> after \<open>exactly m r\<close>.\<close>

fun exactly :: "nat \<Rightarrow> regex \<Rightarrow> regex" where
  "exactly 0 r = Empty"
| "exactly (Suc n) r = Then r (exactly n r)"

fun up_to :: "nat \<Rightarrow> regex \<Rightarrow> regex" where
  "up_to 0 r = Empty"
| "up_to (Suc n) r = optional (Then r (up_to n r))"

definition spaces :: regex where
  "spaces = One is_space"

definition blank_free :: regex where
  "blank_free = One (\<lambda>c. \<not> is_space c)"

definition word :: regex where
  "word = One word_char"

text \<open>The edge of a word, \<open>\b\<close>, and the end, \<open>$\<close>, which also matches before a final line end.\<close>

definition word_edge :: regex where
  "word_edge = Look (\<lambda>p s. (case p of None \<Rightarrow> False | Some c \<Rightarrow> word_char c) \<noteq> (case s of [] \<Rightarrow> False | c # _ \<Rightarrow> word_char c))"

definition text_end :: regex where
  "text_end = Look (\<lambda>_ s. s = [] \<or> s = [CHR 0x0A])"

lemma rests_text_re: "rests (text_re w) p s = (if starts_with w s then [((if w = [] then p else Some (last w)), drop (length w) s)] else [])"
  by (induction w arbitrary: p s) (auto split: list.splits)

end
