(* ===== verification/Buildroot_Lock.thy ===== *)
theory Buildroot_Lock
  imports Py_Regex Bump_Gate
begin

section \<open>The build root: its lock, its snapshot and its pin (\<open>buildroot_lock.py\<close>, \<open>buildroot_pin.py\<close>)\<close>

text \<open>
  The lock names each build root by digest; a snapshot records what a root contained and whether that is
  what was locked; the pin is what a build pulls, and moving it moves the lock. The texts of the files are
  arguments, the clock is too; what a command prints is the list of its messages.
\<close>

subsection \<open>The lock\<close>

definition is_object :: "json \<Rightarrow> bool" where
  "is_object v = (case v of JObj _ \<Rightarrow> True | _ \<Rightarrow> False)"

definition digest_pinned :: "json \<Rightarrow> bool" where
  "digest_pinned v = (case v of JStr s \<Rightarrow> contains ''@sha256:'' s | _ \<Rightarrow> False)"

definition check_image :: "string \<Rightarrow> json \<Rightarrow> unit result" where
  "check_image name br =
     assert_r (ValueError (concat [''buildroot '', name, '' image must be digest-pinned'']))
       (digest_pinned (case br of JObj kvs \<Rightarrow> dict_get kvs ''image'' JNull | _ \<Rightarrow> JNull))"

definition check_package_list :: "string \<Rightarrow> json \<Rightarrow> unit result" where
  "check_package_list name br = bind_r (get_or br ''packages'' (JList [])) (\<lambda>ps.
     assert_r (ValueError (concat [''buildroot '', name, '' packages must be a list'']))
       (case ps of JList _ \<Rightarrow> True | _ \<Rightarrow> False))"

definition lock_roots :: "error \<Rightarrow> json \<Rightarrow> (string, json) dict result" where
  "lock_roots e data =
     bind_r (get_or data ''schema'' JNull) (\<lambda>schema.
     if \<not> py_eq schema (JInt 1) then Inl e
     else bind_r (get_or data ''buildroots'' JNull) (\<lambda>roots.
       case roots of JObj rs \<Rightarrow> Inr rs | _ \<Rightarrow> Inl e))"

definition load_buildroot_lock :: "string \<Rightarrow> string \<Rightarrow> (string, json) dict result" where
  "load_buildroot_lock path text =
     bind_r (loads text) (\<lambda>data.
     bind_r (lock_roots (ValueError (''invalid buildroot lock: '' @ path)) data) (\<lambda>rs.
     bind_r (map_r (\<lambda>(name, br). bind_r (check_image name br) (\<lambda>_. check_package_list name br)) rs) (\<lambda>_.
       Inr rs)))"

text \<open>The image and the locked packages of a root.\<close>

definition buildroot :: "(string, json) dict \<Rightarrow> string \<Rightarrow> (string \<times> json list) result" where
  "buildroot rs name =
     (case map_of rs name of
        Some (JObj kvs) \<Rightarrow>
          (case (dict_get kvs ''image'' JNull, dict_get kvs ''packages'' (JList [])) of
             (JStr img, ps) \<Rightarrow>
               if \<not> contains ''@sha256:'' img
               then Inl (ValueError (concat [''buildroot '', name, '' image must be digest-pinned'']))
               else (case ps of JList locked \<Rightarrow> Inr (img, locked)
                   | _ \<Rightarrow> Inl (ValueError (concat [''buildroot '', name, '' packages must be a list''])))
           | _ \<Rightarrow> Inl (ValueError (concat [''buildroot '', name, '' image must be digest-pinned''])))
      | _ \<Rightarrow> Inl (ValueError (''unknown buildroot: '' @ name)))"

definition cmd_image :: "string \<Rightarrow> string \<Rightarrow> string \<Rightarrow> string result" where
  "cmd_image path text name = bind_r (load_buildroot_lock path text) (\<lambda>rs. bind_r (buildroot rs name) (\<lambda>(img, _). Inr img))"

subsection \<open>The inventory\<close>

record installed =
  nv_name :: string
  nv_evra :: string
  nv_arch :: string

definition nevra_text :: "installed \<Rightarrow> string" where
  "nevra_text p = concat [nv_name p, ''-'', nv_evra p, ''.'', nv_arch p]"

text \<open>\<open>line.split(tab, 2)\<close>: a record, or the malformed line.\<close>

definition tab :: char where
  "tab = CHR 0x09"

definition parse_package :: "string \<Rightarrow> installed option" where
  "parse_package l =
     (case split_on tab l of
        name # evra # arch # more_fields \<Rightarrow>
          Some \<lparr>nv_name = name, nv_evra = evra, nv_arch = join [tab] (arch # more_fields)\<rparr>
      | _ \<Rightarrow> None)"

definition inventory_lines :: "string \<Rightarrow> string list" where
  "inventory_lines text = filter (\<lambda>l. l \<noteq> []) (map strip (splitlines text))"

text \<open>The records by name, version and architecture, and the lines that were dropped.\<close>

definition parse_packages :: "string \<Rightarrow> installed list \<times> string list" where
  "parse_packages text =
     (let ls = inventory_lines text in
      (sort_key nv_name (sort_key nv_evra (sort_key nv_arch (List.map_filter parse_package ls))),
       filter (\<lambda>l. parse_package l = None) ls))"

definition locked_nevra :: "json \<Rightarrow> string option" where
  "locked_nevra v = (case v of
      JObj kvs \<Rightarrow> (case map_of kvs ''nevra'' of Some (JStr s) \<Rightarrow> if s \<noteq> [] then Some s else None | _ \<Rightarrow> None)
    | _ \<Rightarrow> None)"

definition compare_packages :: "json list \<Rightarrow> installed list \<Rightarrow> string list" where
  "compare_packages locked actual =
     (let wanted = List.map_filter locked_nevra locked; bad = length (filter (\<lambda>v. locked_nevra v = None) locked);
          got = map nevra_text actual;
          missing = sorted_set (set_minus wanted got); extra = sorted_set (set_minus got wanted) in
      (if bad \<noteq> 0 then [concat [''malformed lock: '', show_nat bad, '' locked package entr'',
         if bad = 1 then ''y has'' else ''ies have'', '' no nevra field'']] else []) @
      (if missing \<noteq> [] then [''missing locked buildroot packages: '' @ join '', '' (take 20 missing)] else []) @
      (if extra \<noteq> [] then [''unexpected buildroot packages: '' @ join '', '' (take 20 extra)] else []))"

subsection \<open>The snapshot\<close>

record snapshot_args =
  sn_name :: string
  sn_image :: "string option"
  sn_digest :: "string option"
  sn_environment :: "string option"
  sn_strict :: bool

text \<open>\<open>a or b\<close> for optional strings, where an empty one counts as absent.\<close>

definition given :: "string option \<Rightarrow> string option" where
  "given s = (case s of Some [] \<Rightarrow> None | _ \<Rightarrow> s)"

definition or_else :: "string option \<Rightarrow> string option \<Rightarrow> string option" where
  "or_else a b = (case given a of Some s \<Rightarrow> Some s | None \<Rightarrow> given b)"

definition resolved_image :: "snapshot_args \<Rightarrow> string \<Rightarrow> string option" where
  "resolved_image a locked_image =
     (case given (sn_image a) of
        Some s \<Rightarrow> Some s
      | None \<Rightarrow> (case or_else (sn_digest a) (sn_environment a) of
          Some d \<Rightarrow> Some (concat [before CHR ''@'' locked_image, ''@'', d])
        | None \<Rightarrow> None))"

definition image_errors :: "snapshot_args \<Rightarrow> string \<Rightarrow> string list" where
  "image_errors a locked_image =
     (case resolved_image a locked_image of
        None \<Rightarrow> [concat [''buildroot image unknown: no --image, --digest or BUILDROOT_DIGEST was given, so the '',
          ''snapshot records image null rather than the lock's '', locked_image]]
      | Some i \<Rightarrow> if i \<noteq> locked_image
          then [concat [''buildroot image mismatch: lock specifies '', locked_image, '', actual running image is '', i]]
          else [])"

definition package_json :: "installed \<Rightarrow> json" where
  "package_json p = JObj [(''name'', JStr (nv_name p)), (''evra'', JStr (nv_evra p)), (''arch'', JStr (nv_arch p)),
     (''nevra'', JStr (nevra_text p))]"

definition snapshot_payload :: "snapshot_args \<Rightarrow> string \<Rightarrow> string \<Rightarrow> installed list \<Rightarrow> json" where
  "snapshot_payload a locked_image now ps = JObj [(''schema'', JInt 1), (''name'', JStr (sn_name a)),
     (''image'', (case resolved_image a locked_image of None \<Rightarrow> JNull | Some i \<Rightarrow> JStr i)),
     (''locked_image'', JStr locked_image), (''captured_at'', JStr now), (''packages'', JList (map package_json ps))]"

text \<open>The text written, the errors and the warnings.\<close>

record snapshot =
  sn_text :: string
  sn_errors :: "string list"
  sn_warnings :: "string list"

definition cmd_snapshot :: "snapshot_args \<Rightarrow> string \<Rightarrow> string \<Rightarrow> string \<Rightarrow> string \<Rightarrow> snapshot result" where
  "cmd_snapshot a path lock_text inventory_text now =
     bind_r (load_buildroot_lock path lock_text) (\<lambda>rs.
     bind_r (buildroot rs (sn_name a)) (\<lambda>(locked_image, locked).
     let (packages, discarded) = parse_packages inventory_text; found = image_errors a locked_image in
       Inr \<lparr>sn_text = dumps_indent (canonical (snapshot_payload a locked_image now packages)) @ [CHR 0x0A],
         sn_errors = (if sn_strict a then found else []) @
           (if discarded \<noteq> [] \<and> sn_strict a then [concat [''buildroot inventory incomplete: '', show_nat (length discarded),
              '' unparsable line(s) were dropped, so this snapshot cannot be compared against the lock'']] else []) @
           (if sn_strict a \<and> locked \<noteq> [] then compare_packages locked packages else []),
         sn_warnings = (if sn_strict a then [] else found)\<rparr>))"

definition snapshot_status :: "snapshot \<Rightarrow> nat" where
  "snapshot_status s = (if sn_errors s \<noteq> [] then 1 else 0)"

subsection \<open>The pin\<close>

definition lower_hex :: regex where
  "lower_hex = One is_hex"

definition name_tail :: "char \<Rightarrow> bool" where
  "name_tail c = (name_start c \<or> c \<in> set ''._-'')"

definition mirror :: string where
  "mirror = ''ghcr.io/projectbluefin/utah-buildroot''"

text \<open>\<open>MIRROR_PIN\<close> and \<open>LEGACY_PIN\<close>.\<close>

definition mirror_pin_re :: regex where
  "mirror_pin_re = chain [text_re mirror, text_re '':'', One (\<lambda>c. name_start c \<or> c = CHR ''_''), up_to 127 (One name_tail),
     text_re ''@sha256:'', exactly 64 lower_hex, text_end]"

definition legacy_pin_re :: regex where
  "legacy_pin_re = chain [text_re ''quay.io/fedora/fedora:'', many1 (One is_digit), text_re ''@sha256:'', exactly 64 lower_hex, text_end]"

definition is_mirror_pin :: "string \<Rightarrow> bool" where
  "is_mirror_pin v = match_here mirror_pin_re v"

definition pin_values :: "string \<Rightarrow> string list" where
  "pin_values text = map strip (filter (\<lambda>l. strip l \<noteq> [] \<and> \<not> starts_with ''#'' (lstrip l)) (splitlines text))"

definition parse_pin :: "string \<Rightarrow> string result" where
  "parse_pin text =
     (case pin_values text of
        [v] \<Rightarrow> if is_mirror_pin v \<or> match_here legacy_pin_re v then Inr v
          else Inl (ValueError (''not a build-root pin: '' @ v))
      | vs \<Rightarrow> Inl (ValueError (''expected exactly one pin in buildroot-image, found '' @ show_nat (length vs))))"

definition pin_path :: string where
  "pin_path = ''config/buildroot-image''"

definition buildroot_lock_path :: string where
  "buildroot_lock_path = ''config/buildroot-lock.json''"

definition move_image :: "string \<Rightarrow> json \<Rightarrow> json" where
  "move_image v br = (case br of JObj kvs \<Rightarrow> JObj (AList.update ''image'' (JStr v) kvs) | _ \<Rightarrow> br)"

definition moved_lock :: "string \<Rightarrow> string \<Rightarrow> json result" where
  "moved_lock v text =
     bind_r (loads text) (\<lambda>data.
     bind_r (get_or data ''buildroots'' JNull) (\<lambda>roots.
       case (data, roots) of
         (JObj kvs, JObj rs) \<Rightarrow>
           if list_all (\<lambda>(_, br). is_object br) rs
           then Inr (JObj (AList.update ''buildroots'' (JObj (map (\<lambda>(n, br). (n, move_image v br)) rs)) kvs))
           else Inl (ValueError (''invalid buildroot lock: '' @ buildroot_lock_path))
       | _ \<Rightarrow> Inl (ValueError (''invalid buildroot lock: '' @ buildroot_lock_path))))"

text \<open>A lock that is \<open>null\<close> is treated as absent.\<close>

definition set_pin :: "string \<Rightarrow> rev_tree \<Rightarrow> rev_tree result" where
  "set_pin v t =
     (if \<not> is_mirror_pin v then Inl (ValueError (concat [''not a '', mirror, '':<tag>@sha256:<digest> pin: '', v]))
      else let pinned = AList.update pin_path (v @ [CHR 0x0A]) t in
        (case map_of t buildroot_lock_path of
           None \<Rightarrow> Inr pinned
         | Some text \<Rightarrow> bind_r (loads text) (\<lambda>data.
             if data = JNull then Inr pinned
             else bind_r (moved_lock v text) (\<lambda>lock.
               Inr (AList.update buildroot_lock_path (dumps_indent lock @ [CHR 0x0A]) pinned)))))"

subsection \<open>What a strict snapshot says\<close>

lemma set_map_filter: "set (List.map_filter f xs) = {y. \<exists>x \<in> set xs. f x = Some y}"
  by (auto simp: map_filter_def) (force simp: image_iff)

lemma compare_packages_empty:
  "compare_packages locked actual = [] \<longleftrightarrow>
     list_all (\<lambda>v. locked_nevra v \<noteq> None) locked \<and> set (List.map_filter locked_nevra locked) = nevra_text ` set actual"
proof -
  have "sorted_set (set_minus xs ys) = [] \<longleftrightarrow> set xs \<subseteq> set ys" for xs ys :: "string list"
    using set_empty [of "sorted_set (set_minus xs ys)"] by (auto simp: sorted_set_def set_minus_def)
  then show ?thesis by (auto simp: compare_packages_def Let_def list_all_iff filter_empty_conv)
qed

text \<open>a strict snapshot succeeds exactly when the run resolved the locked image, every line of the
  inventory was understood, and, if packages are locked, those installed are the locked ones.\<close>

theorem strict_snapshot_exact:
  assumes "load_buildroot_lock path lock_text = Inr rs" and "buildroot rs (sn_name a) = Inr (locked_image, locked)"
    and "sn_strict a"
  shows "(\<exists>s. cmd_snapshot a path lock_text inventory_text now = Inr s \<and> snapshot_status s = 0) \<longleftrightarrow>
    resolved_image a locked_image = Some locked_image \<and>
    list_all (\<lambda>l. parse_package l \<noteq> None) (inventory_lines inventory_text) \<and>
    (locked \<noteq> [] \<longrightarrow> list_all (\<lambda>v. locked_nevra v \<noteq> None) locked \<and>
       set (List.map_filter locked_nevra locked) = nevra_text ` set (List.map_filter parse_package (inventory_lines inventory_text)))"
proof -
  have "image_errors a locked_image = [] \<longleftrightarrow> resolved_image a locked_image = Some locked_image"
    by (auto simp: image_errors_def split: option.split)
  with assms show ?thesis
    by (simp add: cmd_snapshot_def parse_packages_def Let_def snapshot_status_def compare_packages_empty
        filter_empty_conv list_all_iff)
qed

definition sample_root :: string where
  "sample_root = dumps_default (JObj [(''schema'', JInt 1), (''buildroots'', JObj [(''f'', JObj
     [(''image'', JStr ''r@sha256:1''), (''packages'', JList [JObj [(''nevra'', JStr ''a-1-1.x'')]])])])])"

theorem strict_snapshot_exact_witness:
  "\<exists>s. cmd_snapshot \<lparr>sn_name = ''f'', sn_image = None, sn_digest = Some ''sha256:1'', sn_environment = None, sn_strict = True\<rparr>
     ''lock'' sample_root ([CHR 0x0A] @ ''a'' @ [CHR 0x09] @ ''1-1'' @ [CHR 0x09] @ ''x'') ''now'' = Inr s \<and> snapshot_status s = 0"
proof -
  let ?rs = "[(''f'', JObj [(''image'', JStr ''r@sha256:1''), (''packages'', JList [JObj [(''nevra'', JStr ''a-1-1.x'')]])])]"
  let ?a = "\<lparr>sn_name = ''f'', sn_image = None, sn_digest = Some ''sha256:1'', sn_environment = None, sn_strict = True\<rparr>"
  have "load_buildroot_lock ''lock'' sample_root = Inr ?rs" by code_simp
  moreover have "buildroot ?rs (sn_name ?a) = Inr (''r@sha256:1'', [JObj [(''nevra'', JStr ''a-1-1.x'')]])" by code_simp
  moreover have "sn_strict ?a" by simp
  ultimately show ?thesis
    by (subst strict_snapshot_exact) (assumption+, code_simp)
qed

subsection \<open>Moving the pin\<close>

text \<open>The characters an expression can take.\<close>

fun only :: "(char \<Rightarrow> bool) \<Rightarrow> regex \<Rightarrow> bool" where
  "only P (One f) = (\<forall>c. f c \<longrightarrow> P c)"
| "only P Empty = True"
| "only P (Then a b) = (only P a \<and> only P b)"
| "only P (Either a b) = (only P a \<and> only P b)"
| "only P (Many a) = only P a"
| "only P (Look f) = True"

lemma matches_only: "matches r p s q t \<Longrightarrow> only P r \<Longrightarrow> \<exists>u. s = u @ t \<and> list_all P u"
proof (induction rule: matches.induct)
  case (sequence a p s q t b r u)
  then obtain x y where "s = x @ t" "list_all P x" "t = y @ u" "list_all P y" by auto
  then show ?case by (intro exI [of _ "x @ y"]) simp
next
  case (again a p s q t r u)
  then obtain x y where "s = x @ t" "list_all P x" "t = y @ u" "list_all P y" by auto
  then show ?case by (intro exI [of _ "x @ y"]) simp
qed (auto intro: exI [of _ "[c]" for c])

lemma only_text_re [simp]: "only P (text_re w) = list_all P w"
  by (induction w) auto

lemma only_chain [simp]: "only P (chain rs) = list_all (only P) rs"
  by (induction rs rule: chain.induct) auto

lemma only_repeated [simp]: "only P r \<Longrightarrow> only P (exactly n r)" "only P r \<Longrightarrow> only P (up_to n r)"
  by (induction n) (auto simp: optional_def)

lemma matches_text_re: "matches (text_re w) p s q t \<Longrightarrow> s = w @ t"
  by (induction w arbitrary: p s) (auto elim!: matches_elims)

definition pin_char :: "char \<Rightarrow> bool" where
  "pin_char c = (\<not> is_space c \<and> \<not> is_line_end c \<and> c \<noteq> CHR ''#'')"

lemma pin_chars: "only pin_char mirror_pin_re"
proof -
  have name: "name_start c \<Longrightarrow> pin_char c" for c
    by (auto simp: name_start_def pin_char_def is_space_def is_line_end_def Let_def)
  have hex: "is_hex c \<Longrightarrow> pin_char c" for c
    by (auto simp: is_hex_def is_digit_def pin_char_def is_space_def is_line_end_def Let_def)
  have plain: "list_all pin_char mirror" "list_all pin_char ''@sha256:''" "list_all pin_char '':''"
    "pin_char CHR ''_''" "list_all pin_char ''._-''" by code_simp+
  have tail: "name_tail c \<Longrightarrow> pin_char c" for c using name plain(5) by (auto simp: name_tail_def)
  show ?thesis
    unfolding mirror_pin_re_def using plain name hex tail by (auto simp: lower_hex_def text_end_def)
qed

lemma mirror_pin_shape:
  assumes "is_mirror_pin v" and "CHR 0x0A \<notin> set v"
  shows "list_all pin_char v" and "v \<noteq> []" and "contains ''@sha256:'' v"
proof -
  from assms(1) obtain q t where m: "matches mirror_pin_re None v q t" by (auto simp: is_mirror_pin_def match_here_iff)
  let ?ok = "\<lambda>c. name_start c \<or> c = CHR ''_''"
  from m obtain q1 t1 q2 t2 q3 t3 q4 t4 q5 t5 q6 t6 where parts: "matches (text_re mirror) None v q1 t1"
      "matches (text_re '':'') q1 t1 q2 t2" "matches (One ?ok) q2 t2 q3 t3" "matches (up_to 127 (One name_tail)) q3 t3 q4 t4"
      "matches (text_re ''@sha256:'') q4 t4 q5 t5" "matches (exactly 64 lower_hex) q5 t5 q6 t6" "matches text_end q6 t6 q t"
    unfolding mirror_pin_re_def chain.simps matches_simps(3) by (elim exE conjE)
  have t: "t6 = t" "t = [] \<or> t = [CHR 0x0A]" using parts(7) by (auto simp: text_end_def elim: matches_elims)
  obtain x y z where "t2 = x @ t3" "t3 = y @ t4" "t5 = z @ t6"
    using matches_suffix [OF parts(3)] matches_suffix [OF parts(4)] matches_suffix [OF parts(6)] by blast
  with matches_text_re [OF parts(1)] matches_text_re [OF parts(2)] matches_text_re [OF parts(5)]
  have v: "v = mirror @ ('':'' @ x @ y) @ ''@sha256:'' @ z @ t6" by simp
  with t assms(2) have "t = []" by auto
  with matches_only [OF m pin_chars] show "list_all pin_char v" by auto
  from v show "v \<noteq> []" by (simp add: mirror_def)
  show "contains ''@sha256:'' v" unfolding contains_iff v by (intro exI [of _ "mirror @ '':'' @ x @ y"] exI [of _ "z @ t6"]) simp
qed

end
