(* ===== verification/Suppressed_Tests.thy ===== *)
theory Suppressed_Tests
  imports Py_Regex Bump_Gate
begin

section \<open>Suppressed tests (\<open>check_suppressed_tests.py\<close>)\<close>

text \<open>
  The scan of the \<open>%check\<close> sections of the specs for definitions and commands that turn a failing test
  into a successful build, and the ratchet on the ones inherited from Fedora. The expressions are those
  of the code; a checkout is its files, and what is printed is left out.
\<close>

subsection \<open>The expressions\<close>

text \<open>\<open>DEFINITION\<close>.\<close>

definition definition_re :: regex where
  "definition_re = chain [Many spaces, text_re ''%'', one_of [text_re ''global'', text_re ''define''],
     many1 spaces, text_re ''tests_nonfatal'', word_edge]"

text \<open>\<open>SECTION\<close> and the header of \<open>%check\<close>.\<close>

definition section_names :: "string list" where
  "section_names = [''prep'', ''generate_buildrequires'', ''build'', ''install'', ''check'', ''clean'', ''files'',
     ''changelog'', ''package'', ''description'', ''pre'', ''preun'', ''pretrans'', ''post'', ''postun'', ''posttrans'']"

definition section_re :: regex where
  "section_re = chain [text_re ''%'', one_of (map text_re section_names @
     [Then (text_re ''trigger'') (Many word), Then (text_re ''filetrigger'') (Many word),
      Then (text_re ''transfiletrigger'') (Many word), text_re ''verifyscript'']), word_edge]"

definition check_re :: regex where
  "check_re = Then (text_re ''%check'') word_edge"

text \<open>\<open>SUCCESS_FALLBACK\<close>.\<close>

definition fallback_re :: regex where
  "fallback_re = chain [Many spaces, text_re ''||'', Many spaces, one_of [text_re '':'', text_re ''true''], Many spaces,
     optional (text_re '';''), Many spaces, optional (Then (text_re ''#'') (Many (One (\<lambda>c. c \<noteq> CHR 0x0A)))), text_end]"

text \<open>\<open>TEST_COMMAND\<close>: environment assignments, then a test macro, \<open>make check\<close>, a test runner, or something
  below a test directory.\<close>

definition letter :: "char \<Rightarrow> bool" where
  "letter c = (let n = of_char c :: nat in (65 \<le> n \<and> n \<le> 90) \<or> (97 \<le> n \<and> n \<le> 122))"

definition followed_by_gap :: regex where
  "followed_by_gap = Look (\<lambda>_ s. s = [] \<or> is_space (hd s))"

definition test_macros :: regex where
  "test_macros = one_of (map text_re [''meson_test'', ''ctest'', ''pytest'', ''make_check''])"

definition test_dirs :: regex where
  "test_dirs = one_of [text_re ''test'', text_re ''tests'', text_re ''jit-test'']"

definition below_tests :: regex where
  "below_tests = chain [test_dirs, text_re ''/'', many1 blank_free]"

definition python_re :: regex where
  "python_re = one_of
     [chain [text_re ''python'', optional (One (\<lambda>c. c \<in> set ''23'')), optional (Then (text_re ''.'') (many1 (One is_digit)))],
      chain [text_re [CHR ''%'', CHR 0x7B], up_to 2 (text_re ''_''), text_re ''python'', optional (text_re ''3''),
        up_to 2 (text_re ''_''), text_re [CHR 0x7D]]]"

definition command_re :: regex where
  "command_re =
     Then (Many (chain [One (\<lambda>c. letter c \<or> c = CHR ''_''), Many word, text_re ''='', many1 blank_free, many1 spaces]))
     (one_of
       [Then (text_re ''%'') (one_of
          [chain [text_re [CHR 0x7B], test_macros, text_re [CHR 0x7D]], Then test_macros word_edge]),
        chain [one_of (map text_re [''make'', ''%make_build'', [CHR ''%'', CHR 0x7B] @ ''make_build'' @ [CHR 0x7D]]),
          Many (Then (many1 spaces) (many1 blank_free)), many1 spaces, one_of [text_re ''check'', text_re ''test''], followed_by_gap],
        chain [one_of [text_re ''ctest'', text_re ''pytest'',
          Then (text_re ''pytest-'') (many1 (One (\<lambda>c. is_digit c \<or> c = CHR ''.'')))], followed_by_gap],
        chain [optional (text_re ''./''), Many (Then (many1 (One (\<lambda>c. \<not> is_space c \<and> c \<noteq> CHR ''/''))) (text_re ''/'')), below_tests],
        chain [python_re, many1 spaces, optional (text_re ''./''), below_tests]])"

definition asks_only_re :: regex where
  "asks_only_re = chain [spaces, one_of [text_re ''--help'', text_re ''--version''], Many spaces, text_end]"

subsection \<open>The scans of a spec\<close>

definition number_lines :: "nat \<Rightarrow> string list \<Rightarrow> (nat \<times> string) list" where
  "number_lines n ls = zip [n ..< n + length ls] ls"

definition definitions_in :: "string \<Rightarrow> (nat \<times> string) list" where
  "definitions_in text =
     map (\<lambda>(n, l). (n, strip l)) (filter (\<lambda>(n, l). match_here definition_re l) (number_lines 1 (splitlines text)))"

text \<open>Whether a joined line is a test command whose failure does not count.\<close>

definition masks :: "string \<Rightarrow> bool" where
  "masks l = (case search_re fallback_re l of
      None \<Rightarrow> False
    | Some pre \<Rightarrow> (let command = rstrip pre in
        match_here command_re command \<and>
        \<not> list_ex (\<lambda>part. contains part command) [''#'', '';'', ''|'', ''&&''] \<and>
        search_re asks_only_re command = None))"

record check_scan =
  sc_in_check :: bool
  sc_pending :: string
  sc_start :: nat
  sc_found :: "(nat \<times> string) list"

definition scan_check_line :: "nat \<times> string \<Rightarrow> check_scan \<Rightarrow> check_scan" where
  "scan_check_line x st = (case x of (number, l) \<Rightarrow>
     let stripped = strip l in
     if match_here section_re stripped then st\<lparr>sc_in_check := match_here check_re stripped, sc_pending := []\<rparr>
     else if \<not> sc_in_check st \<or> starts_with ''#'' stripped then st
     else
       let start = (if sc_pending st = [] then number else sc_start st); pending = sc_pending st @ stripped in
       if ends_with [CHR 0x5C] pending then st\<lparr>sc_start := start, sc_pending := butlast pending @ '' ''\<rparr>
       else st\<lparr>sc_start := start, sc_pending := [],
          sc_found := sc_found st @ (if masks pending then [(start, pending)] else [])\<rparr>)"

definition masked_tests :: "string \<Rightarrow> (nat \<times> string) list" where
  "masked_tests text =
     sc_found (fold scan_check_line (number_lines 1 (splitlines text)) \<lparr>sc_in_check = False, sc_pending = [], sc_start = 0, sc_found = []\<rparr>)"

subsection \<open>The ratchet\<close>

definition inherited_definitions :: "(string, nat) dict" where
  "inherited_definitions = [(''pulseaudio'', 2)]"

definition inherited_fallbacks :: "(string, nat) dict" where
  "inherited_fallbacks = [(''appstream'', 1), (''glycin'', 1), (''mozjs140'', 2), (''python-pillow'', 2), (''vid.stab'', 1), (''xhost'', 1)]"

text \<open>\<open>(root / "packages").glob("*/*.spec")\<close>: package, file and text, in the order of the paths.\<close>

record spec_file =
  sp_package :: string
  sp_file :: string
  sp_text :: string

definition spec_at :: "string \<times> string \<Rightarrow> spec_file option" where
  "spec_at = (\<lambda>(path, text).
     case split_on CHR ''/'' path of
       [root, d, f] \<Rightarrow> if root = ''packages'' \<and> d \<noteq> [] \<and> ends_with ''.spec'' f then Some \<lparr>sp_package = d, sp_file = f, sp_text = text\<rparr> else None
     | _ \<Rightarrow> None)"

definition spec_files :: "rev_tree \<Rightarrow> spec_file list" where
  "spec_files t = sort_key sp_package (sort_key sp_file (List.map_filter spec_at t))"

type_synonym spec_scan = "string \<Rightarrow> (nat \<times> string) list"

record suppression =
  su_inherited :: "(string, nat) dict"
  su_scan :: spec_scan
  su_description :: string
  su_noun :: string

definition suppressions :: "suppression list" where
  "suppressions =
     [\<lparr>su_inherited = inherited_definitions, su_scan = definitions_in, su_description = ''defines tests_nonfatal'', su_noun = ''definition''\<rparr>,
      \<lparr>su_inherited = inherited_fallbacks, su_scan = masked_tests, su_description = ''masks test failures'', su_noun = ''fallback''\<rparr>]"

definition offenders_in :: "suppression list \<Rightarrow> rev_tree \<Rightarrow> (string \<times> nat \<times> string) list" where
  "offenders_in ks t = concat (map (\<lambda>sp. concat (map (\<lambda>k.
     if dict_has (su_inherited k) (sp_package sp) then []
     else map (\<lambda>(n, l). (sp_package sp, n, l)) (su_scan k (sp_text sp))) ks)) (spec_files t))"

definition offenders :: "rev_tree \<Rightarrow> (string \<times> nat \<times> string) list" where
  "offenders = offenders_in suppressions"

definition found_in :: "spec_scan \<Rightarrow> spec_file list \<Rightarrow> (string \<times> nat) list" where
  "found_in spec_scan sps = concat (map (\<lambda>sp. map (\<lambda>(n, l). (concat [''packages/'', sp_package sp, ''/'', sp_file sp], n)) (spec_scan (sp_text sp))) sps)"

definition drift_report :: "suppression \<Rightarrow> string \<Rightarrow> nat \<Rightarrow> (string \<times> nat) list \<Rightarrow> string" where
  "drift_report k package expected found =
     (if found = [] then concat [package, '': no longer '', su_description k, ''; drop the entry'']
      else if length found < expected then concat [package, '': '', su_description k, '' '', show_nat (length found),
        '' time(s), allowlist records '', show_nat expected, ''; lower the count to match the import'']
      else concat [package, '': '', su_description k, '' '', show_nat (length found), '' time(s), allowlist records '', show_nat expected,
        ''; a '', su_noun k, '' was added after the import ('', join '', '' (map (\<lambda>(p, n). concat [p, '':'', show_nat n]) found), '')''])"

definition drift_of :: "suppression \<Rightarrow> rev_tree \<Rightarrow> string \<Rightarrow> nat \<Rightarrow> string list" where
  "drift_of k t package expected =
     (let specs = filter (\<lambda>sp. sp_package sp = package) (spec_files t); found = found_in (su_scan k) specs in
      if specs = [] \<or> length found = expected then [] else [drift_report k package expected found])"

definition drifted_in :: "suppression list \<Rightarrow> rev_tree \<Rightarrow> string list" where
  "drifted_in ks t = concat (map (\<lambda>k. concat (map (\<lambda>p. drift_of k t (fst p) (snd p)) (sort_key fst (su_inherited k)))) ks)"

definition drifted :: "rev_tree \<Rightarrow> string list" where
  "drifted = drifted_in suppressions"

text \<open>The exit status.\<close>

definition check_suppressed_tests :: "rev_tree \<Rightarrow> nat" where
  "check_suppressed_tests t = (if offenders t \<noteq> [] \<or> drifted t \<noteq> [] then 1 else 0)"

subsection \<open>The joined lines of the check sections\<close>

text \<open>A reference for the scan: the text is cut at the section headers, the comments of a section are left
  out, continued lines are joined, a line that is never finished is no command.\<close>

fun sections :: "bool \<Rightarrow> (nat \<times> string) list \<Rightarrow> (nat \<times> string) list \<Rightarrow> (bool \<times> (nat \<times> string) list) list" where
  "sections b body [] = [(b, rev body)]"
| "sections b body ((n, l) # ls) =
     (if match_here section_re (strip l) then (b, rev body) # sections (match_here check_re (strip l)) [] ls
      else sections b ((n, strip l) # body) ls)"

fun joined :: "nat \<Rightarrow> string \<Rightarrow> (nat \<times> string) list \<Rightarrow> (nat \<times> string) list" where
  "joined start pending [] = []"
| "joined start pending ((n, l) # ls) =
     (let first = (if pending = [] then n else start); whole = pending @ l in
      if ends_with [CHR 0x5C] whole then joined first (butlast whole @ '' '') ls
      else (first, whole) # joined first [] ls)"

definition check_commands :: "(nat \<times> string) list \<Rightarrow> (nat \<times> string) list" where
  "check_commands ls = concat (map (\<lambda>(b, body). if b then joined 0 [] (filter (\<lambda>(n, l). \<not> starts_with ''#'' l) body) else [])
     (sections False [] ls))"

lemma joined_start: "joined a [] ls = joined b [] ls"
  by (cases ls) auto

lemma sections_body:
  "\<exists>body rest. sections b acc ls = (b, rev acc @ body) # rest \<and> sections b [] ls = (b, body) # rest"
proof (induction ls arbitrary: acc)
  case (Cons x ls)
  obtain n l where x: "x = (n, l)" by (cases x)
  show ?case
  proof (cases "match_here section_re (strip l)")
    case False
    obtain body rest where *: "sections b [(n, strip l)] ls = (b, rev [(n, strip l)] @ body) # rest" "sections b [] ls = (b, body) # rest"
      using Cons.IH by blast
    obtain body' rest' where "sections b ((n, strip l) # acc) ls = (b, rev ((n, strip l) # acc) @ body') # rest'" "sections b [] ls = (b, body') # rest'"
      using Cons.IH by blast
    with * False x show ?thesis by simp
  qed (simp add: x)
qed simp

definition commands_of :: "bool \<times> (nat \<times> string) list \<Rightarrow> nat \<Rightarrow> string \<Rightarrow> (nat \<times> string) list" where
  "commands_of s start pending = (case s of (b, body) \<Rightarrow> if b then joined start pending (filter (\<lambda>(n, l). \<not> starts_with ''#'' l) body) else [])"

lemma commands_of_pair [simp]:
  "commands_of (b, body) start pending = (if b then joined start pending (filter (\<lambda>(n, l). \<not> starts_with ''#'' l) body) else [])"
  by (simp add: commands_of_def)

lemma scan_check_line_cases:
  "match_here section_re (strip l) \<Longrightarrow>
     scan_check_line (n, l) st = st\<lparr>sc_in_check := match_here check_re (strip l), sc_pending := []\<rparr>"
  "\<not> match_here section_re (strip l) \<Longrightarrow> \<not> sc_in_check st \<or> starts_with ''#'' (strip l) \<Longrightarrow> scan_check_line (n, l) st = st"
  "\<not> match_here section_re (strip l) \<Longrightarrow> sc_in_check st \<Longrightarrow> \<not> starts_with ''#'' (strip l) \<Longrightarrow>
     ends_with [CHR 0x5C] (sc_pending st @ strip l) \<Longrightarrow>
     scan_check_line (n, l) st = st\<lparr>sc_start := (if sc_pending st = [] then n else sc_start st),
       sc_pending := butlast (sc_pending st @ strip l) @ '' ''\<rparr>"
  "\<not> match_here section_re (strip l) \<Longrightarrow> sc_in_check st \<Longrightarrow> \<not> starts_with ''#'' (strip l) \<Longrightarrow>
     \<not> ends_with [CHR 0x5C] (sc_pending st @ strip l) \<Longrightarrow>
     scan_check_line (n, l) st = st\<lparr>sc_start := (if sc_pending st = [] then n else sc_start st), sc_pending := [],
       sc_found := sc_found st @ (if masks (sc_pending st @ strip l)
         then [(if sc_pending st = [] then n else sc_start st, sc_pending st @ strip l)] else [])\<rparr>"
  by (simp_all only: scan_check_line_def Let_def prod.case if_True if_False simp_thms)

lemma scan_from:
  "sc_found (fold scan_check_line ls st) = sc_found st @ filter (\<lambda>(n, l). masks l)
     (case sections (sc_in_check st) [] ls of [] \<Rightarrow> [] | s # ss \<Rightarrow>
        commands_of s (sc_start st) (sc_pending st) @ concat (map (\<lambda>s. commands_of s 0 []) ss))"
proof (induction ls arbitrary: st)
  case (Cons x ls)
  obtain n l where x: "x = (n, l)" by (cases x)
  let ?l = "strip l" and ?b = "sc_in_check st"
  show ?case
  proof (cases "match_here section_re ?l")
    case True
    obtain body rest where "sections (match_here check_re ?l) [] ls = (match_here check_re ?l, body) # rest"
      using sections_body by blast
    with True x show ?thesis
      by (simp add: Cons.IH scan_check_line_cases joined_start [of "sc_start st" _ 0])
  next
    case False
    obtain body rest where later: "sections ?b [(n, ?l)] ls = (?b, (n, ?l) # body) # rest" "sections ?b [] ls = (?b, body) # rest"
      using sections_body [of ?b "[(n, ?l)]" ls] by auto
    show ?thesis
    proof (cases "?b \<and> \<not> starts_with ''#'' ?l")
      case True
      with False x later show ?thesis
        by (cases "ends_with [CHR 0x5C] (sc_pending st @ ?l)")
          (simp_all add: Cons.IH scan_check_line_cases Let_def)
    next
      case False
      with \<open>\<not> match_here section_re ?l\<close> have "scan_check_line (n, l) st = st" by (intro scan_check_line_cases) auto
      with False x later \<open>\<not> match_here section_re ?l\<close> show ?thesis by (auto simp: Cons.IH)
    qed
  qed
qed simp

text \<open>the one pass over a spec finds exactly the joined command lines of its \<open>%check\<close> sections that mask
  a test, each under the number of its first line.\<close>

theorem masked_tests_exact:
  "masked_tests text = filter (\<lambda>(n, l). masks l) (check_commands (number_lines 1 (splitlines text)))"
proof -
  obtain body rest where "sections False [] (number_lines 1 (splitlines text)) = (False, body) # rest"
    using sections_body by blast
  then show ?thesis
    by (simp add: masked_tests_def scan_from check_commands_def commands_of_def)
qed

subsection \<open>The exact count\<close>

definition allowed :: "suppression \<Rightarrow> string \<Rightarrow> nat" where
  "allowed k package = dict_get (su_inherited k) package 0"

definition specs_of :: "rev_tree \<Rightarrow> string \<Rightarrow> spec_file list" where
  "specs_of t package = filter (\<lambda>sp. sp_package sp = package) (spec_files t)"

definition suppressed :: "rev_tree \<Rightarrow> suppression \<Rightarrow> string \<Rightarrow> nat" where
  "suppressed t k package = length (found_in (su_scan k) (specs_of t package))"

lemma suppressed_none: "suppressed t k package = 0 \<longleftrightarrow> (\<forall>sp \<in> set (specs_of t package). su_scan k (sp_text sp) = [])"
  by (auto simp: suppressed_def found_in_def)

lemma offenders_in_empty:
  "offenders_in ks t = [] \<longleftrightarrow> (\<forall>sp \<in> set (spec_files t). \<forall>k \<in> set ks.
     \<not> dict_has (su_inherited k) (sp_package sp) \<longrightarrow> su_scan k (sp_text sp) = [])"
  by (auto simp: offenders_in_def)

lemma drift_of_empty:
  "drift_of k t package expected = [] \<longleftrightarrow> specs_of t package = [] \<or> suppressed t k package = expected"
  by (simp add: drift_of_def specs_of_def suppressed_def Let_def)

lemma drifted_in_empty:
  "drifted_in ks t = [] \<longleftrightarrow> (\<forall>k \<in> set ks. \<forall>p \<in> set (su_inherited k).
     specs_of t (fst p) = [] \<or> suppressed t k (fst p) = snd p)"
  by (simp add: drifted_in_def drift_of_empty)

lemma ratchet_in:
  assumes "\<forall>k \<in> set ks. distinct (map fst (su_inherited k))"
  shows "offenders_in ks t = [] \<and> drifted_in ks t = [] \<longleftrightarrow>
    (\<forall>sp \<in> set (spec_files t). \<forall>k \<in> set ks. suppressed t k (sp_package sp) = allowed k (sp_package sp))"
    (is "?l \<longleftrightarrow> ?r")
proof
  assume ?l
  show ?r
  proof (intro ballI)
    fix sp k assume sp: "sp \<in> set (spec_files t)" and k: "k \<in> set ks"
    show "suppressed t k (sp_package sp) = allowed k (sp_package sp)"
    proof (cases "map_of (su_inherited k) (sp_package sp)")
      case None
      with \<open>?l\<close> k show ?thesis
        by (auto simp: allowed_def dict_get_def suppressed_none offenders_in_empty dict_has_def specs_of_def)
    next
      case (Some n)
      with \<open>?l\<close> k sp have "specs_of t (sp_package sp) = [] \<or> suppressed t k (sp_package sp) = n"
        unfolding drifted_in_empty by (metis fst_conv snd_conv map_of_SomeD)
      with sp Some show ?thesis by (auto simp: allowed_def dict_get_def specs_of_def filter_empty_conv)
    qed
  qed
next
  assume r: ?r
  show ?l
  proof
    show "offenders_in ks t = []"
      unfolding offenders_in_empty
    proof (intro ballI impI)
      fix sp k assume sp: "sp \<in> set (spec_files t)" "k \<in> set ks" "\<not> dict_has (su_inherited k) (sp_package sp)"
      with r have "suppressed t k (sp_package sp) = 0" by (simp add: allowed_def dict_get_def dict_has_def)
      with sp show "su_scan k (sp_text sp) = []" by (auto simp: suppressed_none specs_of_def)
    qed
    show "drifted_in ks t = []"
      unfolding drifted_in_empty
    proof (intro ballI, rule disjCI)
      fix k p assume k: "k \<in> set ks" "p \<in> set (su_inherited k)" and other: "suppressed t k (fst p) \<noteq> snd p"
      have "map_of (su_inherited k) (fst p) = Some (snd p)" using assms k by simp
      then have "allowed k (fst p) = snd p" by (simp add: allowed_def dict_get_def)
      with other r k have "\<forall>sp \<in> set (spec_files t). sp_package sp \<noteq> fst p" by auto
      then show "specs_of t (fst p) = []" by (auto simp: specs_of_def filter_empty_conv)
    qed
  qed
qed

text \<open>the check passes exactly when every recipe has, of each kind, as many suppressions as were recorded
  when it was imported, and none where none were.\<close>

theorem ratchet_exact:
  "check_suppressed_tests t = 0 \<longleftrightarrow>
     (\<forall>sp \<in> set (spec_files t). \<forall>k \<in> set suppressions. suppressed t k (sp_package sp) = allowed k (sp_package sp))"
proof -
  have "\<forall>k \<in> set suppressions. distinct (map fst (su_inherited k))"
    by (simp add: suppressions_def inherited_definitions_def inherited_fallbacks_def)
  from ratchet_in [OF this, of t] show ?thesis
    unfolding check_suppressed_tests_def offenders_def drifted_def by simp blast
qed

definition sample_specs :: "string list \<Rightarrow> rev_tree" where
  "sample_specs ls = [(''packages/xhost/xhost.spec'', join [CHR 0x0A] (''%build'' # ''make test || :'' # ''%check'' # ls))]"

theorem ratchet_exact_witness:
  "check_suppressed_tests (sample_specs [''make -k '' @ [CHR 0x5C], ''  check || true'']) = 0 \<and>
   check_suppressed_tests (sample_specs [''grep -q x log || :'']) \<noteq> 0"
proof -
  have all: "list_all (\<lambda>sp. list_all (\<lambda>k. suppressed t k (sp_package sp) = allowed k (sp_package sp)) suppressions) (spec_files t) =
     (check_suppressed_tests t = 0)" for t by (simp add: ratchet_exact list_all_iff)
  have "list_all (\<lambda>sp. list_all (\<lambda>k. suppressed t k (sp_package sp) = allowed k (sp_package sp)) suppressions) (spec_files t)"
    if "t = sample_specs [''make -k '' @ [CHR 0x5C], ''  check || true'']" for t unfolding that by code_simp
  moreover have "\<not> list_all (\<lambda>sp. list_all (\<lambda>k. suppressed t k (sp_package sp) = allowed k (sp_package sp)) suppressions) (spec_files t)"
    if "t = sample_specs [''grep -q x log || :'']" for t unfolding that by code_simp
  ultimately show ?thesis unfolding all by blast
qed

end
