(* ===== verification/Py_Effects.thy ===== *)
theory Py_Effects
  imports Py_Prelude
begin

section \<open>State together with exceptions\<close>

text \<open>
  A step of a tool that changes state takes the state and gives a result with the state it leaves, also
  when it raises. A \<open>triple\<close> states what a step guarantees when it returns and what when it
  raises; the collection \<open>triples\<close> has the rules, one per way of composing steps.
\<close>

type_synonym ('s, 'a) io = "'s \<Rightarrow> 'a result \<times> 's"

definition ret :: "'a \<Rightarrow> ('s, 'a) io" where
  "ret x = (\<lambda>s. (Inr x, s))"

definition throw :: "error \<Rightarrow> ('s, 'a) io" where
  "throw e = (\<lambda>s. (Inl e, s))"

definition bind_io :: "('s, 'a) io \<Rightarrow> ('a \<Rightarrow> ('s, 'b) io) \<Rightarrow> ('s, 'b) io" where
  "bind_io m f = (\<lambda>s. case m s of (Inl e, s') \<Rightarrow> (Inl e, s') | (Inr x, s') \<Rightarrow> f x s')"

text \<open>A computation that only reads the state, and one that only changes it.\<close>

definition reads :: "('s \<Rightarrow> 'a result) \<Rightarrow> ('s, 'a) io" where
  "reads f = (\<lambda>s. (f s, s))"

definition change :: "('s \<Rightarrow> 's) \<Rightarrow> ('s, unit) io" where
  "change f = (\<lambda>s. (Inr (), f s))"

text \<open>\<open>try: m except ...: h\<close>, where the handler re-raises what the clause does not name.\<close>

definition try_io :: "('s, 'a) io \<Rightarrow> (error \<Rightarrow> ('s, 'a) io) \<Rightarrow> ('s, 'a) io" where
  "try_io m h = (\<lambda>s. case m s of (Inl e, s') \<Rightarrow> h e s' | (Inr x, s') \<Rightarrow> (Inr x, s'))"

fun map_io :: "('a \<Rightarrow> ('s, 'b) io) \<Rightarrow> 'a list \<Rightarrow> ('s, 'b list) io" where
  "map_io f [] = ret []"
| "map_io f (x # xs) = bind_io (f x) (\<lambda>y. bind_io (map_io f xs) (\<lambda>ys. ret (y # ys)))"

lemma io_simps [simp]:
  "ret x s = (Inr x, s)"
  "throw e s = (Inl e, s)"
  "reads f s = (f s, s)"
  "change g s = (Inr (), g s)"
  by (simp_all add: ret_def throw_def reads_def change_def)

lemma bind_io_cases:
  "bind_io m f s = (r, s') \<longleftrightarrow>
     (\<exists>e. m s = (Inl e, s') \<and> r = Inl e) \<or> (\<exists>x t. m s = (Inr x, t) \<and> f x t = (r, s'))"
  by (cases "m s"; cases "fst (m s)") (auto simp: bind_io_def)

lemma bind_io_Inr: "bind_io m f s = (Inr y, s') \<longleftrightarrow> (\<exists>x t. m s = (Inr x, t) \<and> f x t = (Inr y, s'))"
  by (simp add: bind_io_cases)

subsection \<open>Triples\<close>

definition triple :: "('s \<Rightarrow> bool) \<Rightarrow> ('s, 'a) io \<Rightarrow> ('a \<Rightarrow> 's \<Rightarrow> bool) \<Rightarrow> (error \<Rightarrow> 's \<Rightarrow> bool) \<Rightarrow> bool" where
  "triple P m Q E \<longleftrightarrow>
     (\<forall>s. P s \<longrightarrow> (case m s of (Inr x, s') \<Rightarrow> Q x s' | (Inl e, s') \<Rightarrow> E e s'))"

named_theorems triples \<open>rules for triples\<close>

lemma tripleI: "(\<And>s. P s \<Longrightarrow> case m s of (Inr x, s') \<Rightarrow> Q x s' | (Inl e, s') \<Rightarrow> E e s') \<Longrightarrow> triple P m Q E"
  by (simp add: triple_def)

lemma triple_returns: "triple P m Q E \<Longrightarrow> P s \<Longrightarrow> m s = (Inr x, s') \<Longrightarrow> Q x s'"
  by (force simp: triple_def)

lemma triple_raises: "triple P m Q E \<Longrightarrow> P s \<Longrightarrow> m s = (Inl e, s') \<Longrightarrow> E e s'"
  by (force simp: triple_def)

lemma triple_ret [triples]: "(\<And>s. P s \<Longrightarrow> Q x s) \<Longrightarrow> triple P (ret x) Q E"
  by (simp add: triple_def)

lemma triple_throw [triples]: "(\<And>s. P s \<Longrightarrow> E e s) \<Longrightarrow> triple P (throw e) Q E"
  by (simp add: triple_def)

lemma triple_reads [triples]:
  "(\<And>s x. P s \<Longrightarrow> f s = Inr x \<Longrightarrow> Q x s) \<Longrightarrow> (\<And>s e. P s \<Longrightarrow> f s = Inl e \<Longrightarrow> E e s) \<Longrightarrow> triple P (reads f) Q E"
  by (simp add: triple_def split: sum.split)

lemma triple_change [triples]: "(\<And>s. P s \<Longrightarrow> Q () (f s)) \<Longrightarrow> triple P (change f) Q E"
  by (simp add: triple_def)

lemma triple_bind [triples]:
  "triple P m R E \<Longrightarrow> (\<And>x. triple (R x) (f x) Q E) \<Longrightarrow> triple P (bind_io m f) Q E"
  by (force simp: triple_def bind_io_def split: sum.splits prod.splits)

lemma triple_try [triples]:
  "triple P m Q R \<Longrightarrow> (\<And>e. triple (R e) (h e) Q E) \<Longrightarrow> triple P (try_io m h) Q E"
  by (force simp: triple_def try_io_def split: sum.splits prod.splits)

lemma triple_if [triples]:
  "(b \<Longrightarrow> triple P m Q E) \<Longrightarrow> (\<not> b \<Longrightarrow> triple P n Q E) \<Longrightarrow> triple P (if b then m else n) Q E"
  by simp

lemma triple_weaken:
  assumes "triple P m Q E" and "\<And>s. P' s \<Longrightarrow> P s" and "\<And>x s. Q x s \<Longrightarrow> Q' x s" and "\<And>e s. E e s \<Longrightarrow> E' e s"
  shows "triple P' m Q' E'"
  using assms by (force simp: triple_def split: sum.splits prod.splits)

lemma triple_seq:
  assumes "triple P m R E'" and "\<And>e s. E' e s \<Longrightarrow> E e s" and "\<And>x s. R x s \<Longrightarrow> R' x s"
    and "\<And>x. triple (R' x) (f x) Q E"
  shows "triple P (bind_io m f) Q E"
proof (rule triple_bind)
  show "triple P m R' E" using assms(1) by (rule triple_weaken) (auto intro: assms(2,3))
qed (rule assms(4))

text \<open>An invariant: it is kept whether the step returns or raises.\<close>

definition keeps :: "('s \<Rightarrow> bool) \<Rightarrow> ('s, 'a) io \<Rightarrow> bool" where
  "keeps P m = triple P m (\<lambda>_. P) (\<lambda>_. P)"

lemma keeps_rules [triples]:
  "keeps P (ret x)"
  "keeps P (throw e)"
  "keeps P (reads f)"
  "keeps P m \<Longrightarrow> (\<And>x. keeps P (g x)) \<Longrightarrow> keeps P (bind_io m g)"
  "keeps P m \<Longrightarrow> (\<And>e. keeps P (h e)) \<Longrightarrow> keeps P (try_io m h)"
  "(\<And>s. P s \<Longrightarrow> P (u s)) \<Longrightarrow> keeps P (change u)"
  unfolding keeps_def by (blast intro: triples)+

lemma keeps_map_io [triples]: "(\<And>x. x \<in> set xs \<Longrightarrow> keeps P (f x)) \<Longrightarrow> keeps P (map_io f xs)"
  by (induction xs) (auto intro!: triples)

lemma keepsD: "keeps P m \<Longrightarrow> P s \<Longrightarrow> m s = (r, s') \<Longrightarrow> P s'"
  by (cases r) (auto simp: keeps_def triple_def)

end
