(* ===== verification/Version_Rules.thy ===== *)
theory Version_Rules
  imports Py_Strings
begin

section \<open>Versions and release cycles (\<open>upstream_bump.py\<close>)\<close>

text \<open>
  How the bump tool reads a version: which ones are prereleases, in which order versions stand, which
  release cycle one belongs to, the two spellings of a prerelease and the version inside a tag.
  Version strings are ASCII: of the digits \<open>str.isdigit\<close> accepts, only the ten decimal ones occur.
\<close>

subsection \<open>Prereleases\<close>

definition separators :: "char set" where
  "separators = {CHR ''.'', CHR ''~'', CHR ''-''}"

definition ascii_lower :: "char \<Rightarrow> char" where
  "ascii_lower c = (let n = of_char c :: nat in if 65 \<le> n \<and> n \<le> 90 then char_of (n + 32) else c)"

definition starts_caseless :: "string \<Rightarrow> string \<Rightarrow> bool" where
  "starts_caseless p s = starts_with p (map ascii_lower s)"

definition prerelease_words :: "string list" where
  "prerelease_words = [''alpha'', ''beta'', ''rc'', ''dev'']"

text \<open>\<open>(?=[.~-]|\d|$)\<close>.\<close>

definition ends_marker :: "string \<Rightarrow> bool" where
  "ends_marker r = (case r of [] \<Rightarrow> True
     | c # cs \<Rightarrow> c \<in> separators \<or> is_digit c \<or> c = CHR 0x0A \<and> cs = [])"

definition prerelease_at :: "string \<Rightarrow> bool" where
  "prerelease_at s = list_ex (\<lambda>w. starts_caseless w s \<and> ends_marker (drop (length w) s)) prerelease_words"

fun separated_marker :: "string \<Rightarrow> bool" where
  "separated_marker [] = False"
| "separated_marker (c # cs) = (c \<in> separators \<and> prerelease_at cs \<or> separated_marker cs)"

definition is_prerelease :: "string \<Rightarrow> bool" where
  "is_prerelease v = (prerelease_at v \<or> separated_marker v)"

definition tarball_version :: "string \<Rightarrow> string" where
  "tarball_version v = map (\<lambda>c. if c = CHR ''~'' then CHR ''.'' else c) v"

definition isdigit :: "string \<Rightarrow> bool" where
  "isdigit s = (s \<noteq> [] \<and> list_all is_digit s)"

definition is_gnome_prerelease :: "string \<Rightarrow> bool" where
  "is_gnome_prerelease v =
     (if is_prerelease v then True
      else let parts = split_on CHR ''.'' (tarball_version v) in
        length parts = 3 \<and> list_all isdigit parts \<and> read_nat (parts ! 0) < 40 \<and> 90 \<le> read_nat (parts ! 2))"

text \<open>\<open>PRERELEASE_SEPARATOR.sub\<close> with count 1.\<close>

fun mark_tilde :: "string \<Rightarrow> string" where
  "mark_tilde [] = []"
| "mark_tilde (c # cs) = (if c \<in> separators \<and> prerelease_at cs then CHR ''~'' # cs else c # mark_tilde cs)"

definition rpm_version :: "string \<Rightarrow> string" where
  "rpm_version v = (if is_prerelease v then mark_tilde v else v)"

subsection \<open>Order\<close>

definition version_key :: "string \<Rightarrow> int list" where
  "version_key v = map (\<lambda>p. if isdigit p then int (read_nat p) else - 1) (split_on CHR ''.'' v)"

text \<open>\<open>max(xs, key=f)\<close>: the first of the largest.\<close>

fun max_by :: "('a \<Rightarrow> 'b::linorder) \<Rightarrow> 'a list \<Rightarrow> 'a option" where
  "max_by f [] = None"
| "max_by f (x # xs) = Some (fold (\<lambda>y best. if f best < f y then y else best) xs x)"

definition newest_stable_by :: "(string \<Rightarrow> bool) \<Rightarrow> string list \<Rightarrow> string option" where
  "newest_stable_by prerelease versions = max_by version_key (filter (\<lambda>v. \<not> prerelease v) versions)"

definition newest_stable :: "string list \<Rightarrow> string option" where
  "newest_stable = newest_stable_by is_prerelease"

fun numeric_prefix :: "string \<Rightarrow> bool \<Rightarrow> string" where
  "numeric_prefix [] digit_before = []"
| "numeric_prefix (c # cs) digit_before =
     (if is_digit c then c # numeric_prefix cs True
      else if c = CHR ''.'' \<and> digit_before \<and> cs \<noteq> [] \<and> is_digit (hd cs) then c # numeric_prefix cs False
      else [])"

definition prerelease_suffix :: "string \<Rightarrow> bool" where
  "prerelease_suffix s =
     (let words = prerelease_words @ [''pre'']; here = (\<lambda>t. list_ex (\<lambda>w. starts_caseless w t) words) in
      here s \<or> (case s of [] \<Rightarrow> False | c # cs \<Rightarrow> c \<in> separators \<union> {CHR ''_''} \<and> here cs))"

definition newer :: "string \<Rightarrow> string \<Rightarrow> bool" where
  "newer candidate_version current =
     (let prefix = numeric_prefix current False; rest = drop (length prefix) current in
      if prefix = [] \<or> rest = [] then version_key current < version_key candidate_version
      else if prerelease_suffix rest then version_key prefix \<le> version_key candidate_version
      else version_key prefix < version_key candidate_version)"

subsection \<open>Cycles\<close>

definition major :: "string \<Rightarrow> string" where
  "major v = before CHR ''.'' v"

definition release_cycle :: "string \<Rightarrow> string" where
  "release_cycle v =
     (let numeric = takeWhile isdigit (split_on CHR ''.'' v) in
      if numeric = [] then v
      else if is_prerelease v then join ''.'' numeric
      else if 3 \<le> length numeric \<and> 40 \<le> read_nat (hd numeric) then hd numeric
      else if 3 \<le> length numeric then join ''.'' (take 2 numeric)
      else hd numeric)"

definition in_cycle :: "string \<Rightarrow> string \<Rightarrow> bool" where
  "in_cycle cycle v = (\<not> is_gnome_prerelease v \<and> release_cycle (tarball_version v) = cycle)"

definition cycle_final :: "string list \<Rightarrow> string \<Rightarrow> string option" where
  "cycle_final versions cycle = max_by version_key (filter (in_cycle cycle) versions)"

subsection \<open>Tags\<close>

definition tag_prefix_char :: "char \<Rightarrow> bool" where
  "tag_prefix_char c = (let n = of_char c :: nat in
     (65 \<le> n \<and> n \<le> 90) \<or> (97 \<le> n \<and> n \<le> 122) \<or> c \<in> {CHR ''.'', CHR ''_'', CHR ''-''})"

definition strip_tag_prefix :: "string \<Rightarrow> string" where
  "strip_tag_prefix t =
     (let r = dropWhile tag_prefix_char (strip t) in
      if r \<noteq> [] \<and> is_digit (hd r) \<and> CHR 0x0A \<notin> set r then r else [])"

subsection \<open>Facts\<close>

lemma fold_max:
  assumes "b = fold (\<lambda>y best. if f best < f y then y else best) xs (x :: 'a)"
  shows "b \<in> insert x (set xs) \<and> f x \<le> (f b :: 'b::linorder) \<and> (\<forall>y \<in> set xs. f y \<le> f b)"
  using assms
proof (induction xs arbitrary: x)
  case (Cons y ys)
  from Cons.IH [OF Cons.prems [unfolded fold_simps]] show ?case by (auto split: if_splits)
qed simp

lemma max_by_Some: "max_by f xs = Some b \<Longrightarrow> b \<in> set xs \<and> (\<forall>y \<in> set xs. f y \<le> f b)"
proof (cases xs)
  case (Cons x ys)
  then show "max_by f xs = Some b \<Longrightarrow> ?thesis" using fold_max [of b f ys x] by auto
qed simp

lemma max_by_None [simp]: "max_by f xs = None \<longleftrightarrow> xs = []"
  by (cases xs) auto

lemma newest_stable_Some:
  "newest_stable_by p vs = Some v \<Longrightarrow> v \<in> set vs \<and> \<not> p v \<and> (\<forall>w \<in> set vs. \<not> p w \<longrightarrow> version_key w \<le> version_key v)"
  unfolding newest_stable_by_def by (drule max_by_Some) auto

lemma cycle_final_Some:
  "cycle_final vs c = Some v \<Longrightarrow> v \<in> set vs \<and> in_cycle c v \<and> (\<forall>w \<in> set vs. in_cycle c w \<longrightarrow> version_key w \<le> version_key v)"
  unfolding cycle_final_def by (drule max_by_Some) auto

lemma not_gnome_prerelease: "\<not> is_gnome_prerelease v \<Longrightarrow> \<not> is_prerelease v"
  by (auto simp: is_gnome_prerelease_def)

lemma tarball_mark_tilde: "CHR ''-'' \<notin> set v \<Longrightarrow> tarball_version (mark_tilde v) = tarball_version v"
  by (induction v) (auto simp: tarball_version_def separators_def)

lemma marker_after_separator: "prerelease_at s \<Longrightarrow> s \<noteq> []"
  by (auto simp: prerelease_at_def prerelease_words_def starts_caseless_def)

text \<open>The two spellings of a release agree: the tarball spelling of what the spec is given is the
  tarball spelling of the release, unless a dash separates the prerelease marker, and a release
  that is no prerelease is spelled the same in both.\<close>

theorem spellings_agree:
  assumes "CHR ''-'' \<notin> set v"
  shows "tarball_version (rpm_version v) = tarball_version v \<and> (\<not> is_prerelease v \<longrightarrow> rpm_version v = v)"
  using assms by (simp add: rpm_version_def tarball_mark_tilde)

theorem spellings_agree_witness:
  "rpm_version ''1.10.beta.1'' = ''1.10~beta.1'' \<and> tarball_version ''1.10~beta.1'' = ''1.10.beta.1''"
proof -
  have "rpm_version ''1.10.beta.1'' = ''1.10~beta.1''" by code_simp
  with spellings_agree [of "''1.10.beta.1''"] show ?thesis by (simp add: tarball_version_def)
qed

lemma docstring_cycles:
  "release_cycle ''51.beta'' = ''51''" "release_cycle ''51.0.1'' = ''51''" "release_cycle ''1.58.2'' = ''1.58''"
  "release_cycle ''1.10.beta.1'' = ''1.10''" "release_cycle ''51.0'' = ''51''"
  by code_simp+

end
