(* ===== verification/Upstream_Plan.thy ===== *)
theory Upstream_Plan
  imports Version_Rules Bump_Gate
begin

section \<open>Which bumps are proposed (\<open>upstream_bump.py\<close>)\<close>

text \<open>
  For every lock entry the feed it tracks, the versions the feed lists, and the move that is proposed:
  a final, an update or a relock may be applied without a human, a review may not. The network is
  an argument: the text at an address, or the error. A lock entry is a dict of JSON values.
\<close>

subsection \<open>Lock entries\<close>

type_synonym lock = "(string, json) dict"
type_synonym http = "string \<Rightarrow> string result"

definition as_text :: "json \<Rightarrow> string result" where
  "as_text v = (case v of JStr s \<Rightarrow> Inr s | _ \<Rightarrow> Inl Unmodelled)"

definition as_texts :: "json \<Rightarrow> string list result" where
  "as_texts v = bind_r (iterate v) (map_r as_text)"

definition text_at :: "lock \<Rightarrow> string \<Rightarrow> string result" where
  "text_at e k = bind_r (dict_index e k) as_text"

definition text_get :: "lock \<Rightarrow> string \<Rightarrow> string result" where
  "text_get e k = as_text (dict_get e k (JStr []))"

definition fallbacks :: "lock \<Rightarrow> string list result" where
  "fallbacks e = as_texts (dict_get e ''fallback_urls'' (JList []))"

definition gnome_sources :: string where
  "gnome_sources = ''https://download.gnome.org/sources/''"

definition module_of_url :: "string \<Rightarrow> string option" where
  "module_of_url url =
     (let m = before CHR ''/'' (drop (length gnome_sources) url) in
      if starts_with gnome_sources url \<and> m \<noteq> [] then Some m else None)"

definition entry_module :: "lock \<Rightarrow> string option result" where
  "entry_module e = bind_r (text_get e ''url'') (\<lambda>url. Inr (module_of_url url))"

definition forge_feed :: "lock \<Rightarrow> feed option result" where
  "forge_feed e =
     bind_r (text_get e ''url'') (\<lambda>url. bind_r (fallbacks e) (\<lambda>others.
       Inr (case List.map_filter parse_feed_url (url # others) of [] \<Rightarrow> None | f # _ \<Rightarrow> Some f)))"

definition primary_tracks_forge :: "lock \<Rightarrow> bool result" where
  "primary_tracks_forge e = bind_r (text_get e ''url'') (\<lambda>url. Inr (parse_feed_url url \<noteq> None))"

definition feed_at :: "feed \<Rightarrow> string \<Rightarrow> string" where
  "feed_at f k = dict_get f k []"

definition forge_label :: "feed \<Rightarrow> string" where
  "forge_label f =
     (if feed_at f ''forge'' = ''github'' then ''github.com/'' @ feed_at f ''owner'' @ ''/'' @ feed_at f ''repo''
      else if feed_at f ''forge'' = ''anitya'' then ''release-monitoring.org/project/'' @ feed_at f ''id''
      else feed_at f ''host'' @ ''/'' @ feed_at f ''path'')"

subsection \<open>What a feed lists\<close>

definition forge_list :: "http \<Rightarrow> string \<Rightarrow> json list result" where
  "forge_list http url =
     bind_r (bind_r (http url) loads) (\<lambda>v. case v of
       JList xs \<Rightarrow> Inr xs | _ \<Rightarrow> Inl (ValueError ''forge returned no list''))"

definition flagged :: "json \<Rightarrow> bool result" where
  "flagged v =
     bind_r (get_or v ''draft'' JNull) (\<lambda>a. bind_r (get_or v ''prerelease'' JNull) (\<lambda>b.
     bind_r (get_or v ''upcoming_release'' JNull) (\<lambda>c. Inr (truthy a \<or> truthy b \<or> truthy c))))"

definition tag_version :: "string \<Rightarrow> json \<Rightarrow> string list result" where
  "tag_version k v =
     bind_r (bind_r (get_or v k (JStr [])) as_text) (\<lambda>t.
       Inr (if strip_tag_prefix t = [] then [] else [strip_tag_prefix t]))"

definition published_releases :: "json list \<Rightarrow> string list result" where
  "published_releases document =
     bind_r (map_r (\<lambda>v. bind_r (flagged v) (\<lambda>b. if b then Inr [] else tag_version ''tag_name'' v)) document)
       (\<lambda>vs. Inr (concat vs))"

text \<open>\<open>urllib.parse.quote(s, safe="")\<close>: the bytes of the UTF-8 text.\<close>

definition upper_hex :: "nat \<Rightarrow> char" where
  "upper_hex n = (if n < 10 then char_of (48 + n) else char_of (55 + n))"

definition percent :: "nat \<Rightarrow> string" where
  "percent n = [CHR ''%'', upper_hex (n div 16), upper_hex (n mod 16)]"

definition quote_char :: "char \<Rightarrow> string" where
  "quote_char c =
     (let n = of_char c :: nat in
      if is_digit c \<or> (65 \<le> n \<and> n \<le> 90) \<or> (97 \<le> n \<and> n \<le> 122) \<or> c \<in> set ''_.-~'' then [c]
      else if n < 128 then percent n else percent (192 + n div 64) @ percent (128 + n mod 64))"

definition url_quote :: "string \<Rightarrow> string" where
  "url_quote s = concat (map quote_char s)"

text \<open>The addresses of a project's releases and of its tags.\<close>

definition listing_urls :: "feed \<Rightarrow> string \<times> string" where
  "listing_urls f =
     (if feed_at f ''forge'' = ''github'' then
        (let base = ''https://api.github.com/repos/'' @ feed_at f ''owner'' @ ''/'' @ feed_at f ''repo'' in
         (base @ ''/releases?per_page=100'', base @ ''/tags?per_page=100''))
      else
        (let base = ''https://'' @ feed_at f ''host'' @ ''/api/v4/projects/'' @ url_quote (feed_at f ''path'') in
         (base @ ''/releases?per_page=100'', base @ ''/repository/tags?per_page=100'')))"

definition forge_versions :: "http \<Rightarrow> feed \<Rightarrow> string list result" where
  "forge_versions http f =
     bind_r (bind_r (forge_list http (fst (listing_urls f))) published_releases) (\<lambda>published.
       if published \<noteq> [] \<or> feed_at f ''endpoint'' = ''releases'' then Inr published
       else bind_r (bind_r (forge_list http (snd (listing_urls f))) (map_r (tag_version ''name''))) (\<lambda>vs.
         Inr (concat vs)))"

definition first_occurrences :: "'a list \<Rightarrow> 'a list" where
  "first_occurrences xs = rev (remdups (rev xs))"

definition anitya_versions :: "http \<Rightarrow> feed \<Rightarrow> string list result" where
  "anitya_versions http f =
     bind_r (bind_r (http (''https://release-monitoring.org/api/v2/versions/?project_id='' @ feed_at f ''id'')) loads)
       (\<lambda>v. case v of
          JObj kvs \<Rightarrow> (case dict_get kvs ''stable_versions'' JNull of
              JList xs \<Rightarrow> Inr (first_occurrences (List.map_filter
                (\<lambda>x. case x of JStr (c # cs) \<Rightarrow> Some (c # cs) | _ \<Rightarrow> None) xs))
            | _ \<Rightarrow> Inl (ValueError ''release-monitoring.org returned no version list''))
        | _ \<Rightarrow> Inl (ValueError ''release-monitoring.org returned no version list''))"

text \<open>\<open>document[2]\<close>.\<close>

definition third_of :: "json \<Rightarrow> json result" where
  "third_of v = (case v of
      JList (_ # _ # x # _) \<Rightarrow> Inr x
    | JList _ \<Rightarrow> Inl IndexError
    | JStr (_ # _ # c # _) \<Rightarrow> Inr (JStr [c])
    | JStr _ \<Rightarrow> Inl IndexError
    | JObj _ \<Rightarrow> Inl KeyError
    | _ \<Rightarrow> Inl TypeError)"

definition releases :: "http \<Rightarrow> string \<Rightarrow> string list result" where
  "releases http m =
     bind_r (bind_r (bind_r (http (gnome_sources @ m @ ''/cache.json'')) loads) third_of) (\<lambda>v.
     bind_r (get_or v m (JList [])) as_texts)"

subsection \<open>Proposals\<close>

record proposal =
  pr_kind :: string
  pr_name :: string
  pr_module :: string
  pr_current :: string
  pr_latest :: string
  pr_reason :: "string option"

text \<open>A skipped lock with its feed and the error, a lock nothing newer was found for, or a proposal.\<close>

datatype feed_outcome =
    Skipped string string error
  | Current string string string
  | Proposed proposal

definition caught :: "error \<Rightarrow> bool" where
  "caught e = (case e of OSError _ \<Rightarrow> True | ValueError _ \<Rightarrow> True | KeyError \<Rightarrow> True | IndexError \<Rightarrow> True | _ \<Rightarrow> False)"

definition guarded :: "string \<Rightarrow> string \<Rightarrow> 'a result \<Rightarrow> ('a \<Rightarrow> feed_outcome list result) \<Rightarrow> feed_outcome list result" where
  "guarded name label r f =
     (case r of Inl e \<Rightarrow> if caught e then Inr [Skipped name label e] else Inl e | Inr x \<Rightarrow> f x)"

definition same_major :: "string \<Rightarrow> string \<Rightarrow> bool" where
  "same_major current v = (\<not> is_prerelease v \<and> major v = major current)"

definition forge_move :: "string \<Rightarrow> string \<Rightarrow> string \<Rightarrow> string list \<Rightarrow> feed_outcome" where
  "forge_move name label current available =
     (case newest_stable available of
        None \<Rightarrow> Current name label current
      | Some newest \<Rightarrow>
          if \<not> newer newest current then Current name label current
          else (case newest_stable (filter (same_major current) available) of
              Some inside \<Rightarrow>
                if newer inside current then Proposed \<lparr>pr_kind = ''update'', pr_name = name, pr_module = label,
                  pr_current = current, pr_latest = inside, pr_reason = None\<rparr>
                else Proposed \<lparr>pr_kind = ''review'', pr_name = name, pr_module = label,
                  pr_current = current, pr_latest = newest, pr_reason = None\<rparr>
            | None \<Rightarrow> Proposed \<lparr>pr_kind = ''review'', pr_name = name, pr_module = label,
                pr_current = current, pr_latest = newest, pr_reason = None\<rparr>))"

definition forge_proposal :: "http \<Rightarrow> string \<Rightarrow> lock \<Rightarrow> feed \<Rightarrow> feed_outcome list result" where
  "forge_proposal http name e f =
     guarded name (forge_label f)
       (if feed_at f ''forge'' = ''anitya'' then anitya_versions http f else forge_versions http f)
       (\<lambda>available. bind_r (text_at e ''version'') (\<lambda>current.
         Inr [forge_move name (forge_label f) current available]))"

text \<open>Where the new bytes of an update are: at the primary, or not.\<close>

definition settle_update :: "lock \<Rightarrow> bool \<Rightarrow> bool \<Rightarrow> feed_outcome \<Rightarrow> feed_outcome" where
  "settle_update e tracked relock p =
     (case p of
        Proposed q \<Rightarrow>
          if pr_kind q = ''update'' \<and> \<not> tracked then
            if relock then Proposed (q\<lparr>pr_kind := ''relock''\<rparr>)
            else Proposed (q\<lparr>pr_kind := ''review'', pr_reason := Some (''the release feed is tracked through '' @
              (if dict_has e ''feed'' then concat [''the lock'', [CHR 0x27], ''s explicit feed''] else ''a fallback mirror'') @
              ''; the new bytes must be ingested through the primary first'')\<rparr>)
          else p
      | _ \<Rightarrow> p)"

definition gnome_move :: "string \<Rightarrow> string \<Rightarrow> string \<Rightarrow> string \<Rightarrow> bool \<Rightarrow> bool \<Rightarrow> string list \<Rightarrow> feed_outcome list" where
  "gnome_move name m version target primary relock available =
     (let current = tarball_version version;
          kind = (if primary then ''final'' else if relock then ''relock'' else ''review'');
          reason = (if primary \<or> relock then None else Some (concat [''the release feed is tracked through the lock'',
            [CHR 0x27], ''s explicit feed; relock it with --package to move the primary to GNOME'']));
          cross = (case newest_stable_by is_gnome_prerelease available of
              None \<Rightarrow> []
            | Some newest \<Rightarrow>
                if version_key current < version_key newest
                then [Proposed \<lparr>pr_kind = ''review'', pr_name = name, pr_module = m, pr_current = version,
                  pr_latest = newest, pr_reason = None\<rparr>]
                else []) in
      case cycle_final available target of
        None \<Rightarrow> cross
      | Some inside \<Rightarrow>
          if is_prerelease version \<or> version_key current < version_key inside
          then [Proposed \<lparr>pr_kind = kind, pr_name = name, pr_module = m, pr_current = version,
            pr_latest = inside, pr_reason = reason\<rparr>]
          else cross)"

subsection \<open>The plan\<close>

record tracked_lock =
  tl_name :: string
  tl_entry :: lock
  tl_feed :: feed
  tl_relock :: bool

definition gnome_feed :: "string \<Rightarrow> feed" where
  "gnome_feed m = [(''forge'', ''gnome''), (''module'', m)]"

text \<open>An empty \<open>only\<close> is no restriction.\<close>

definition candidate_of :: "string \<Rightarrow> string \<times> lock \<Rightarrow> tracked_lock list result" where
  "candidate_of only = (\<lambda>(name, e).
     let found = (\<lambda>f relock. [\<lparr>tl_name = name, tl_entry = e, tl_feed = f, tl_relock = relock\<rparr>]);
         guess = (if only \<noteq> [] then found (gnome_feed name) True else []) in
     if only \<noteq> [] \<and> name \<noteq> only then Inr []
     else bind_r (entry_module e) (\<lambda>m. case m of
         Some x \<Rightarrow> Inr (found (gnome_feed x) False)
       | None \<Rightarrow> bind_r (forge_feed e) (\<lambda>f. case f of
           Some x \<Rightarrow> Inr (found x False)
         | None \<Rightarrow>
             if \<not> truthy (dict_get e ''feed'' JNull) then Inr guess
             else bind_r (text_at e ''feed'') (\<lambda>url. case parse_explicit_feed url of
                 Some x \<Rightarrow> Inr (found x (only \<noteq> [] \<and> feed_at x ''forge'' \<noteq> ''anitya''))
               | None \<Rightarrow> Inr guess))))"

definition candidates :: "(string, lock) dict \<Rightarrow> string \<Rightarrow> tracked_lock list result" where
  "candidates locks only = bind_r (map_r (candidate_of only) (sort_key fst locks)) (\<lambda>cs. Inr (concat cs))"

definition plan_one :: "http \<Rightarrow> string \<Rightarrow> tracked_lock \<Rightarrow> feed_outcome list result" where
  "plan_one http cycle c =
     (let e = tl_entry c; f = tl_feed c; name = tl_name c in
      if feed_at f ''forge'' \<noteq> ''gnome'' then
        bind_r (forge_proposal http name e f) (\<lambda>ps.
        bind_r (primary_tracks_forge e) (\<lambda>tracked.
          Inr (map (settle_update e tracked (tl_relock c)) ps)))
      else
        guarded name (feed_at f ''module'') (releases http (feed_at f ''module'')) (\<lambda>available.
          bind_r (text_at e ''version'') (\<lambda>version.
          bind_r (entry_module e) (\<lambda>m.
            Inr (gnome_move name (feed_at f ''module'') version
              (if cycle = [] then release_cycle (tarball_version version) else cycle)
              (m \<noteq> None) (tl_relock c) available)))))"

definition plan_bumps :: "http \<Rightarrow> (string, lock) dict \<Rightarrow> string \<Rightarrow> string \<Rightarrow> feed_outcome list result" where
  "plan_bumps http locks only cycle =
     bind_r (bind_r (candidates locks only) (map_r (plan_one http cycle))) (\<lambda>ps. Inr (concat ps))"

subsection \<open>What may be applied\<close>

definition bump_kinds :: "string list" where
  "bump_kinds = [''final'', ''update'', ''relock'']"

definition proposals_of :: "feed_outcome list \<Rightarrow> proposal list" where
  "proposals_of ps = List.map_filter (\<lambda>p. case p of Proposed q \<Rightarrow> Some q | _ \<Rightarrow> None) ps"

text \<open>The hold that stops a proposal: its exact version is held.\<close>

definition held_version :: "(string, json) dict \<Rightarrow> proposal \<Rightarrow> bool result" where
  "held_version holds p =
     (let hold = dict_get holds (pr_name p) JNull in
      if \<not> truthy hold then Inr False
      else bind_r (bind_r (item hold ''version'') as_text) (\<lambda>v.
        Inr (rpm_version v = rpm_version (pr_latest p))))"

definition filter_by_r :: "('a \<Rightarrow> bool result) \<Rightarrow> 'a list \<Rightarrow> ('a list \<times> 'a list) result" where
  "filter_by_r f xs =
     bind_r (map_r (\<lambda>x. bind_r (f x) (\<lambda>b. Inr (b, x))) xs) (\<lambda>ys.
       Inr (map snd (filter fst ys), map snd (filter (\<lambda>y. \<not> fst y) ys)))"

record bump_split =
  bs_apply :: "proposal list"
  bs_review :: "proposal list"
  bs_held :: "proposal list"

definition split_bumps :: "feed_outcome list \<Rightarrow> string list \<Rightarrow> (string, json) dict \<Rightarrow> bump_split result" where
  "split_bumps ps review_only holds =
     (let all = proposals_of ps; finals = filter (\<lambda>p. pr_kind p \<in> set bump_kinds) all;
          guarded_bump = (\<lambda>p. pr_name p \<in> set review_only \<and> pr_kind p \<noteq> ''relock'');
          moved_to_review = map (\<lambda>p. p\<lparr>pr_kind := ''review'', pr_reason := Some (''listed in '' @ review_only_path @
            ''; bump it in a reviewed pull request'')\<rparr>) (filter guarded_bump finals) in
      bind_r (filter_by_r (held_version holds) (filter (\<lambda>p. \<not> guarded_bump p) finals)) (\<lambda>(stopped, free).
        Inr \<lparr>bs_apply = free, bs_review = filter (\<lambda>p. pr_kind p = ''review'') all @ moved_to_review, bs_held = stopped\<rparr>))"

subsection \<open>Facts\<close>

text \<open>What a proposal that may be applied must satisfy for the lock entry and feed it comes from.\<close>

definition safe_move :: "string \<Rightarrow> tracked_lock \<Rightarrow> proposal \<Rightarrow> bool" where
  "safe_move cycle c p =
     (\<exists>current. text_at (tl_entry c) ''version'' = Inr current \<and> pr_current p = current \<and> pr_name p = tl_name c \<and>
        \<not> is_prerelease (pr_latest p) \<and>
        (if feed_at (tl_feed c) ''forge'' = ''gnome''
         then release_cycle (tarball_version (pr_latest p)) =
             (if cycle = [] then release_cycle (tarball_version current) else cycle) \<and>
           (is_prerelease current \<or> version_key (tarball_version current) < version_key (pr_latest p))
         else major (pr_latest p) = major current \<and> newer (pr_latest p) current) \<and>
        (pr_kind p = ''relock'' \<longrightarrow> tl_relock c))"

lemma gnome_move_cases:
  assumes "Proposed p \<in> set (gnome_move name m version target primary relock available)"
    and "pr_kind p \<noteq> ''review''"
  obtains inside where "cycle_final available target = Some inside" "pr_latest p = inside"
    "is_prerelease version \<or> version_key (tarball_version version) < version_key inside"
    "pr_name p = name" "pr_current p = version" "pr_kind p = ''relock'' \<longrightarrow> relock"
proof (cases "cycle_final available target")
  case None
  with assms show ?thesis
    by (cases "newest_stable_by is_gnome_prerelease available") (simp_all add: gnome_move_def Let_def split: if_splits)
next
  case (Some inside)
  show ?thesis
  proof (cases "is_prerelease version \<or> version_key (tarball_version version) < version_key inside")
    case True
    with Some assms show ?thesis
      by (intro that [of inside]) (simp_all add: gnome_move_def Let_def split: if_splits)
  next
    case False
    with Some assms show ?thesis
      by (cases "newest_stable_by is_gnome_prerelease available") (simp_all add: gnome_move_def Let_def split: if_splits)
  qed
qed

lemma gnome_move_safe:
  assumes "Proposed p \<in> set (gnome_move name m version target primary relock available)"
    and "pr_kind p \<noteq> ''review''"
  shows "pr_name p = name \<and> pr_current p = version \<and> \<not> is_prerelease (pr_latest p) \<and>
    release_cycle (tarball_version (pr_latest p)) = target \<and>
    (is_prerelease version \<or> version_key (tarball_version version) < version_key (pr_latest p)) \<and>
    (pr_kind p = ''relock'' \<longrightarrow> relock)"
proof -
  from assms obtain inside where inside: "cycle_final available target = Some inside" "pr_latest p = inside"
    "is_prerelease version \<or> version_key (tarball_version version) < version_key inside"
    "pr_name p = name" "pr_current p = version" "pr_kind p = ''relock'' \<longrightarrow> relock"
    by (rule gnome_move_cases)
  from cycle_final_Some [OF inside(1)] have "in_cycle target inside" by simp
  then have "\<not> is_prerelease inside" "release_cycle (tarball_version inside) = target"
    using not_gnome_prerelease by (simp_all add: in_cycle_def)
  with inside show ?thesis by simp
qed

lemma newest_same_major:
  "newest_stable (filter (same_major current) available) = Some v \<Longrightarrow> same_major current v"
  by (simp add: newest_stable_def) (drule newest_stable_Some, simp)

lemma forge_move_cases:
  assumes "forge_move name label current available = Proposed p" and "pr_kind p \<noteq> ''review''"
  obtains inside where "newest_stable (filter (same_major current) available) = Some inside"
    "newer inside current" "p = \<lparr>pr_kind = ''update'', pr_name = name, pr_module = label,
       pr_current = current, pr_latest = inside, pr_reason = None\<rparr>"
proof (cases "newest_stable (filter (same_major current) available)")
  case None
  with assms show ?thesis
    by (cases "newest_stable available") (auto simp: forge_move_def split: if_split_asm)
next
  case (Some inside)
  show ?thesis
  proof (cases "newest_stable available")
    case (Some newest)
    with assms \<open>newest_stable (filter _ _) = _\<close> show ?thesis
      by (cases "newer newest current"; cases "newer inside current") (auto simp: forge_move_def intro: that)
  qed (use assms in \<open>simp add: forge_move_def\<close>)
qed

lemma forge_move_safe:
  assumes "forge_move name label current available = Proposed p" and "pr_kind p \<noteq> ''review''"
  shows "pr_kind p = ''update'' \<and> pr_name p = name \<and> pr_current p = current \<and> \<not> is_prerelease (pr_latest p) \<and>
    major (pr_latest p) = major current \<and> newer (pr_latest p) current"
proof -
  from assms obtain inside where "newest_stable (filter (same_major current) available) = Some inside"
    and new: "newer inside current" and p: "p = \<lparr>pr_kind = ''update'', pr_name = name, pr_module = label,
       pr_current = current, pr_latest = inside, pr_reason = None\<rparr>"
    by (rule forge_move_cases)
  then have "same_major current inside" by (intro newest_same_major)
  with new p show ?thesis by (simp add: same_major_def)
qed

lemma settle_update_cases:
  assumes "settle_update e tracked relock q = Proposed p"
  obtains (kept) "q = Proposed p" "pr_kind p = ''update'' \<Longrightarrow> tracked"
    | (relocked) r where "q = Proposed r" "p = r\<lparr>pr_kind := ''relock''\<rparr>" "pr_kind r = ''update''" relock
    | (reviewed) "pr_kind p = ''review''"
  using assms by (cases q) (auto simp: settle_update_def split: if_splits)

lemma guarded_Inr:
  assumes "guarded name label r f = Inr ps" and "Proposed p \<in> set ps"
  obtains x where "r = Inr x" "f x = Inr ps"
  using assms by (cases r) (auto simp: guarded_def split: if_splits)

lemma forge_proposal_safe:
  assumes "forge_proposal http name e f = Inr ps" "Proposed p \<in> set ps" "pr_kind p \<noteq> ''review''"
  shows "pr_kind p = ''update'' \<and> text_at e ''version'' = Inr (pr_current p) \<and> pr_name p = name \<and>
    \<not> is_prerelease (pr_latest p) \<and> major (pr_latest p) = major (pr_current p) \<and> newer (pr_latest p) (pr_current p)"
proof -
  from guarded_Inr [OF assms(1) [unfolded forge_proposal_def] assms(2)] obtain available where
    av: "bind_r (text_at e ''version'') (\<lambda>current. Inr [forge_move name (forge_label f) current available]) = Inr ps"
    by blast
  then obtain current where cur: "text_at e ''version'' = Inr current"
    and ps: "ps = [forge_move name (forge_label f) current available]" by (cases "text_at e ''version''") auto
  from ps assms(2) have "forge_move name (forge_label f) current available = Proposed p" by simp
  from forge_move_safe [OF this assms(3)] cur show ?thesis by simp
qed

lemma plan_one_forge:
  assumes plan: "plan_one http cycle c = Inr ps" and "Proposed p \<in> set ps" "pr_kind p \<noteq> ''review''"
    and forge: "feed_at (tl_feed c) ''forge'' \<noteq> ''gnome''"
  shows "safe_move cycle c p"
proof -
  from plan forge obtain qs tracked where qs: "forge_proposal http (tl_name c) (tl_entry c) (tl_feed c) = Inr qs"
    and "primary_tracks_forge (tl_entry c) = Inr tracked"
    and ps: "ps = map (settle_update (tl_entry c) tracked (tl_relock c)) qs"
    by (cases "forge_proposal http (tl_name c) (tl_entry c) (tl_feed c)";
        cases "primary_tracks_forge (tl_entry c)") (auto simp: plan_one_def)
  from ps assms(2) obtain q where q: "q \<in> set qs" "settle_update (tl_entry c) tracked (tl_relock c) q = Proposed p"
    by auto
  from q(2) show ?thesis
  proof (cases rule: settle_update_cases)
    case kept
    with q(1) forge_proposal_safe [OF qs _ assms(3)] forge show ?thesis by (simp add: safe_move_def)
  next
    case (relocked r)
    with q(1) have "Proposed r \<in> set qs" by simp
    from forge_proposal_safe [OF qs this] relocked forge show ?thesis by (simp add: safe_move_def)
  next
    case reviewed
    with assms(3) show ?thesis by simp
  qed
qed

lemma plan_one_gnome:
  assumes plan: "plan_one http cycle c = Inr ps" and "Proposed p \<in> set ps" "pr_kind p \<noteq> ''review''"
    and gnome: "feed_at (tl_feed c) ''forge'' = ''gnome''"
  shows "safe_move cycle c p"
proof -
  let ?f = "feed_at (tl_feed c) ''module''"
  from plan gnome have "guarded (tl_name c) ?f (releases http ?f) (\<lambda>available.
      bind_r (text_at (tl_entry c) ''version'') (\<lambda>version. bind_r (entry_module (tl_entry c)) (\<lambda>m.
        Inr (gnome_move (tl_name c) ?f version
          (if cycle = [] then release_cycle (tarball_version version) else cycle)
          (m \<noteq> None) (tl_relock c) available)))) = Inr ps"
    by (simp add: plan_one_def Let_def)
  from guarded_Inr [OF this assms(2)] obtain available where
    "bind_r (text_at (tl_entry c) ''version'') (\<lambda>version. bind_r (entry_module (tl_entry c)) (\<lambda>m.
        Inr (gnome_move (tl_name c) ?f version
          (if cycle = [] then release_cycle (tarball_version version) else cycle)
          (m \<noteq> None) (tl_relock c) available))) = Inr ps"
    by blast
  then obtain version primary where v: "text_at (tl_entry c) ''version'' = Inr version"
    and ps: "ps = gnome_move (tl_name c) ?f version (if cycle = [] then release_cycle (tarball_version version) else cycle)
        primary (tl_relock c) available"
    by (cases "text_at (tl_entry c) ''version''"; cases "entry_module (tl_entry c)") (auto simp del: not_None_eq)
  from gnome_move_safe [OF assms(2) [unfolded ps] assms(3)] v gnome show ?thesis by (simp add: safe_move_def)
qed

text \<open>Every branch gives at most one candidate: the entry with a feed and whether it may be relocked.\<close>

lemma candidate_of_cases:
  assumes "candidate_of only (name, e) = Inr cs"
  shows "cs = [] \<or> (only = [] \<or> name = only) \<and> (\<exists>f r. cs = [\<lparr>tl_name = name, tl_entry = e, tl_feed = f, tl_relock = r\<rparr>] \<and>
    (r \<longrightarrow> only \<noteq> []))"
proof (cases "only \<noteq> [] \<and> name \<noteq> only")
  case True
  with assms show ?thesis by (simp add: candidate_of_def)
next
  case asked: False
  define found where "found = (\<lambda>f r. [\<lparr>tl_name = name, tl_entry = e, tl_feed = f, tl_relock = r\<rparr>])"
  define guess where "guess = (if only \<noteq> [] then found (gnome_feed name) True else [])"
  from assms asked have "bind_r (entry_module e) (\<lambda>m. case m of
      Some x \<Rightarrow> Inr (found (gnome_feed x) False)
    | None \<Rightarrow> bind_r (forge_feed e) (\<lambda>f. case f of
        Some x \<Rightarrow> Inr (found x False)
      | None \<Rightarrow> if \<not> truthy (dict_get e ''feed'' JNull) then Inr guess
          else bind_r (text_at e ''feed'') (\<lambda>url. case parse_explicit_feed url of
              Some x \<Rightarrow> Inr (found x (only \<noteq> [] \<and> feed_at x ''forge'' \<noteq> ''anitya''))
            | None \<Rightarrow> Inr guess))) = Inr cs"
    unfolding candidate_of_def Let_def guess_def found_def by (simp only: prod.case if_False)
  then have "cs = guess \<or> (\<exists>f r. cs = found f r \<and> (r \<longrightarrow> only \<noteq> []))"
    by (cases "entry_module e"; cases "forge_feed e"; cases "text_at e ''feed''")
      (auto split: if_split_asm option.split_asm)
  with asked show ?thesis by (auto simp: guess_def found_def split: if_splits)
qed

lemma candidate_of_name:
  assumes "candidate_of only (name, e) = Inr cs" and "c \<in> set cs"
  shows "tl_name c = name \<and> tl_entry c = e \<and> (only \<noteq> [] \<longrightarrow> name = only) \<and> (tl_relock c \<longrightarrow> only \<noteq> [])"
  using candidate_of_cases [OF assms(1)] assms(2) by auto

lemma candidates_mem:
  assumes "candidates locks only = Inr cs" and "c \<in> set cs"
  shows "(tl_name c, tl_entry c) \<in> set locks \<and> (only \<noteq> [] \<longrightarrow> tl_name c = only) \<and> (tl_relock c \<longrightarrow> only \<noteq> [])"
proof -
  from assms(1) have "bind_r (map_r (candidate_of only) (sort_key fst locks)) (\<lambda>cs. Inr (concat cs)) = Inr cs"
    by (simp add: candidates_def)
  from map_r_concat_mem [OF this assms(2)] obtain x ys where x: "x \<in> set (sort_key fst locks)"
    "candidate_of only x = Inr ys" "c \<in> set ys" by blast
  obtain name e where ne: "x = (name, e)" by (cases x)
  from x(1) ne have "(name, e) \<in> set locks" by simp
  with candidate_of_name [OF x(2) [unfolded ne] x(3)] show ?thesis by simp
qed

lemma planned_move_safe:
  assumes "plan_bumps http locks only cycle = Inr ps" and "Proposed p \<in> set ps" and "pr_kind p \<noteq> ''review''"
  shows "\<exists>c. (tl_name c, tl_entry c) \<in> set locks \<and> safe_move cycle c p \<and>
    (only \<noteq> [] \<longrightarrow> pr_name p = only) \<and> (pr_kind p = ''relock'' \<longrightarrow> only \<noteq> [])"
proof -
  from assms(1) obtain cs where cs: "candidates locks only = Inr cs"
    and plan: "bind_r (map_r (plan_one http cycle) cs) (\<lambda>ps. Inr (concat ps)) = Inr ps"
    by (cases "candidates locks only") (auto simp: plan_bumps_def)
  from map_r_concat_mem [OF plan assms(2)] obtain c qs where c: "c \<in> set cs" "plan_one http cycle c = Inr qs"
    "Proposed p \<in> set qs" by blast
  then have "safe_move cycle c p" using plan_one_forge plan_one_gnome assms(3) by blast
  with candidates_mem [OF cs c(1)] show ?thesis by (intro exI [of _ c]) (auto simp: safe_move_def)
qed



text \<open>What the split leaves to be applied.\<close>

lemma filter_by_r_kept:
  assumes "filter_by_r f xs = Inr (ys, zs)" and "z \<in> set zs"
  shows "z \<in> set xs \<and> f z = Inr False"
proof -
  from assms(1) obtain ps where ps: "map_r (\<lambda>x. bind_r (f x) (\<lambda>b. Inr (b, x))) xs = Inr ps"
    and zs: "zs = map snd (filter (\<lambda>y. \<not> fst y) ps)"
    by (auto simp: filter_by_r_def bind_r_Inr)
  from assms(2) zs have "(False, z) \<in> set ps" by force
  with map_r_source [OF ps] show ?thesis by (fastforce simp: bind_r_Inr)
qed

lemma split_bumps_apply:
  assumes "split_bumps ps review_only holds = Inr b" and "p \<in> set (bs_apply b)"
  shows "Proposed p \<in> set ps \<and> pr_kind p \<in> set bump_kinds \<and>
    (pr_name p \<notin> set review_only \<or> pr_kind p = ''relock'') \<and> held_version holds p = Inr False"
proof -
  let ?finals = "filter (\<lambda>p. pr_kind p \<in> set bump_kinds) (proposals_of ps)"
  let ?guarded = "\<lambda>p. pr_name p \<in> set review_only \<and> pr_kind p \<noteq> ''relock''"
  from assms(1) obtain stopped where
    "filter_by_r (held_version holds) (filter (\<lambda>p. \<not> ?guarded p) ?finals) = Inr (stopped, bs_apply b)"
    by (auto simp: split_bumps_def Let_def bind_r_Inr)
  from filter_by_r_kept [OF this assms(2)] show ?thesis
    by (auto simp: proposals_of_def List.map_filter_def split: feed_outcome.splits)
qed

end
