(* ===== verification/Spec_Rewrite.thy ===== *)
theory Spec_Rewrite
  imports Version_Rules Bump_Gate
begin

section \<open>Rewriting a recipe (\<open>upstream_bump.py\<close>)\<close>

text \<open>
  What a bump writes into a spec file and into a \<open>sources\<close> manifest, text by text: the version and
  release lines, the changelog entry, the macros a version is computed from, and the pin of the
  tarball. The date \<open>formatdate()\<close> prints is an argument.
\<close>

subsection \<open>Line patterns\<close>

text \<open>A pattern that starts with \<open>^\<close> under MULTILINE: what it captures at a line start and what is left.
  \<open>search_line\<close> gives the text before the first match, the captures and the text after.\<close>

type_synonym 'a pattern = "string \<Rightarrow> ('a \<times> string) option"

fun search_line :: "'a pattern \<Rightarrow> bool \<Rightarrow> string \<Rightarrow> (string \<times> 'a \<times> string) option" where
  "search_line m bol [] = (if bol then map_option (\<lambda>(x, r). ([], x, r)) (m []) else None)"
| "search_line m bol (c # cs) =
     (case (if bol then m (c # cs) else None) of
        Some (x, r) \<Rightarrow> Some ([], x, r)
      | None \<Rightarrow> map_option (\<lambda>(p, x, r). (c # p, x, r)) (search_line m (c = CHR 0x0A) cs))"

text \<open>\<open>findall\<close> of a pattern whose matches are not empty and end at the end of a line.\<close>

function find_lines :: "'a pattern \<Rightarrow> bool \<Rightarrow> string \<Rightarrow> 'a list" where
  "find_lines m bol s =
     (case search_line m bol s of
        None \<Rightarrow> []
      | Some (p, x, r) \<Rightarrow> if length r < length s then x # find_lines m False r else [x])"
  by pat_completeness auto
termination
  by (relation "measure (\<lambda>(m, bol, s). length s)") auto

declare find_lines.simps [simp del]

definition at_eol :: "string \<Rightarrow> bool" where
  "at_eol r = (r = [] \<or> hd r = CHR 0x0A)"

definition to_eol :: "string \<Rightarrow> string \<times> string" where
  "to_eol s = (takeWhile (\<lambda>c. c \<noteq> CHR 0x0A) s, dropWhile (\<lambda>c. c \<noteq> CHR 0x0A) s)"

definition skip_blank :: "string \<Rightarrow> string" where
  "skip_blank s = dropWhile (\<lambda>c. c = CHR '' '' \<or> c = CHR 0x09) s"

definition word_at :: "string \<Rightarrow> string" where
  "word_at s = takeWhile (\<lambda>c. \<not> is_space c) s"

definition gap_before :: "string \<Rightarrow> string \<Rightarrow> string" where
  "gap_before s r = take (length s - length r) s"

subsection \<open>The version and the release\<close>

definition version_line :: "(string \<times> string) pattern" where
  "version_line s =
     (let r = lstrip (drop 8 s); w = word_at r; e = drop (length w) r in
      if starts_with ''Version:'' s \<and> w \<noteq> [] \<and> at_eol e then Some ((gap_before s r, w), e) else None)"

definition release_line :: "(string \<times> string) pattern" where
  "release_line s =
     (let r = skip_blank (drop 8 s); n = numeric_prefix r False; (tail, e) = to_eol (drop (length n) r) in
      if starts_with ''Release:'' s \<and> n \<noteq> [] then Some ((gap_before s r, tail), e) else None)"

definition reset_release :: "string \<Rightarrow> string" where
  "reset_release s = (case search_line release_line True s of
      None \<Rightarrow> s | Some (p, (h, tail), r) \<Rightarrow> p @ h @ ''1'' @ tail @ r)"

subsection \<open>Macros a version is computed from\<close>

definition macro_definition :: "(string \<times> string) pattern" where
  "macro_definition s =
     (let t = drop 7 s; a = lstrip t; name = takeWhile word_char a; u = drop (length name) a; b = lstrip u;
          (body, e) = to_eol b in
      if (starts_with ''%global'' s \<or> starts_with ''%define'' s) \<and> a \<noteq> t \<and> name \<noteq> [] \<and> b \<noteq> u
      then Some ((name, body), e) else None)"

text \<open>\<open>MACRO_REFERENCE.findall\<close>: what follows a percent sign, an optional brace and \<open>?\<close> or \<open>!\<close>.\<close>

definition reference_tail :: "string \<Rightarrow> string" where
  "reference_tail cs = dropWhile (\<lambda>c. c = CHR ''?'' \<or> c = CHR ''!'')
     (if cs \<noteq> [] \<and> hd cs = CHR 0x7B then tl cs else cs)"

lemma length_reference_tail: "length (reference_tail cs) \<le> length cs"
  by (cases cs) (auto simp: reference_tail_def intro: le_trans [OF length_dropWhile_le])

function macro_references :: "string \<Rightarrow> string list" where
  "macro_references [] = []"
| "macro_references (c # cs) =
     (let t = reference_tail cs; w = takeWhile word_char t in
      if c = CHR ''%'' \<and> w \<noteq> [] then w # macro_references (dropWhile word_char t)
      else macro_references cs)"
  by pat_completeness auto
termination
  by (relation "measure length")
    (auto simp: less_Suc_eq_le intro: le_trans [OF length_dropWhile_le] length_reference_tail)

definition source_line :: "string pattern" where
  "source_line s =
     (let r = dropWhile is_digit (drop 6 s) in
      if starts_with ''Source'' s \<and> r \<noteq> [] \<and> hd r = CHR '':'' then Some (to_eol (lstrip (tl r))) else None)"

type_synonym macros = "(string, string list) dict"

definition macros_of :: "string \<Rightarrow> macros" where
  "macros_of s = dict_of_pairs (map (\<lambda>(name, body). (name, remdups (macro_references body)))
     (find_lines macro_definition True s))"

lemma dict_get_mem: "b \<in> set (dict_get d a []) \<Longrightarrow> \<exists>v. (a, v) \<in> set d \<and> b \<in> set v"
  by (cases "map_of d a") (auto simp: dict_get_def dest: map_of_SomeD)

lemma dict_get_values: "set (dict_get defs name []) \<subseteq> set (concat (map snd defs))"
  by (auto dest!: dict_get_mem)

text \<open>What the version reads, through the definitions: the loop over \<open>pending\<close>.\<close>

function bind_down :: "macros \<Rightarrow> string list \<Rightarrow> string list \<Rightarrow> string list" where
  "bind_down defs [] bound = bound"
| "bind_down defs (name # pending) bound =
     (let new = filter (\<lambda>n. n \<notin> set bound) (dict_get defs name []) in
      bind_down defs (new @ pending) (bound @ new))"
  by pat_completeness auto

termination
proof (relation "measures [\<lambda>(defs, pending, bound). card (set (concat (map snd defs)) - set bound),
      \<lambda>(defs, pending, bound). length pending]", goal_cases)
  case (2 defs name pending bound new)
  let ?u = "set (concat (map snd defs))"
  show ?case
  proof (cases "new = []")
    case False
    then obtain x where "x \<in> set new" by (cases new) auto
    with 2 dict_get_values [of defs name] have "x \<in> ?u - set bound" "x \<in> set (bound @ new)" by auto
    then have "?u - set (bound @ new) \<subset> ?u - set bound" by auto
    then have "card (?u - set (bound @ new)) < card (?u - set bound)" by (intro psubset_card_mono) auto
    then show ?thesis by simp
  qed simp
qed simp

text \<open>What reads a bound macro: the passes of the loop over \<open>grown\<close>.\<close>

definition grow_pass :: "macros \<Rightarrow> string list \<Rightarrow> string list" where
  "grow_pass defs bound = fold (\<lambda>(name, references) b.
     if name \<notin> set b \<and> list_ex (\<lambda>r. r \<in> set b) references then b @ [name] else b) defs bound"

lemma grow_pass_extends:
  "\<exists>new. grow_pass defs bound = bound @ new \<and> set new \<subseteq> fst ` set defs - set bound"
proof -
  have "\<exists>new. fold (\<lambda>(name, references) b. if name \<notin> set b \<and> list_ex (\<lambda>r. r \<in> set b) references
      then b @ [name] else b) ds bound = bound @ new \<and> set new \<subseteq> fst ` set ds - set bound" for ds :: macros
  proof (induction ds arbitrary: bound)
    case (Cons d ds)
    obtain name refs where d: "d = (name, refs)" by (cases d)
    show ?case
    proof (cases "name \<notin> set bound \<and> list_ex (\<lambda>r. r \<in> set bound) refs")
      case True
      obtain new where "fold (\<lambda>(name, references) b. if name \<notin> set b \<and> list_ex (\<lambda>r. r \<in> set b) references
          then b @ [name] else b) ds (bound @ [name]) = (bound @ [name]) @ new"
        "set new \<subseteq> fst ` set ds - set (bound @ [name])" using Cons.IH by blast
      with True d show ?thesis by (intro exI [of _ "name # new"]) auto
    next
      case False
      with Cons.IH [of bound] d show ?thesis by auto
    qed
  qed simp
  then show ?thesis by (simp add: grow_pass_def)
qed

function grow_up :: "macros \<Rightarrow> string list \<Rightarrow> string list" where
  "grow_up defs bound = (let b = grow_pass defs bound in if b = bound then bound else grow_up defs b)"
  by pat_completeness auto
termination
proof (relation "measure (\<lambda>(defs, bound). card (fst ` set defs - set bound))")
  fix defs :: macros and bound b assume b: "b = grow_pass defs bound" "b \<noteq> bound"
  obtain new where new: "b = bound @ new" "set new \<subseteq> fst ` set defs - set bound"
    using grow_pass_extends b(1) by blast
  with b(2) have "new \<noteq> []" by simp
  with new have "fst ` set defs - set b \<subset> fst ` set defs - set bound" by (cases new) auto
  then show "((defs, b), defs, bound) \<in> measure (\<lambda>(defs, bound). card (fst ` set defs - set bound))"
    by (auto intro: psubset_card_mono)
qed simp

declare grow_up.simps [simp del]

definition bound_macros :: "macros \<Rightarrow> string list \<Rightarrow> string list" where
  "bound_macros defs start = grow_up defs (bind_down defs start start)"

definition version_macro_sources :: "string \<Rightarrow> string list" where
  "version_macro_sources s =
     (case search_line version_line True s of
        None \<Rightarrow> []
      | Some (_, (_, w), _) \<Rightarrow>
          if CHR ''%'' \<notin> set w then []
          else (let bound = bound_macros (macros_of s) (remdups (macro_references w)) in
            filter (\<lambda>line. list_ex (\<lambda>r. r \<in> set bound) (macro_references line)) (find_lines source_line True s)))"

definition refuse_macro_sources :: "string \<Rightarrow> string \<Rightarrow> unit result" where
  "refuse_macro_sources spec s = assert_r
     (ValueError (spec @ '': Version: is computed from macros that a Source line reads, so a bump cannot rewrite it''))
     (version_macro_sources s = [])"

subsection \<open>The changelog\<close>

definition changelog_line :: "unit pattern" where
  "changelog_line s =
     (let r = skip_blank (drop 10 s) in
      if starts_with ''%changelog'' s \<and> at_eol r then Some ((), tl r) else None)"

definition autochangelog_line :: "unit pattern" where
  "autochangelog_line s =
     (let t = skip_blank s; r = drop 14 t in
      if starts_with ''%autochangelog'' t \<and> (r = [] \<or> \<not> word_char (hd r)) then Some ((), r) else None)"

definition release_word :: "string pattern" where
  "release_word s =
     (let r = skip_blank (drop 8 s); w = word_at r in
      if starts_with ''Release:'' s \<and> w \<noteq> [] then Some (w, drop (length w) r) else None)"

definition section_line :: "unit pattern" where
  "section_line s =
     (case filter (\<lambda>k. starts_with k s \<and> (let r = drop (length k) s in r = [] \<or> \<not> word_char (hd r)))
         [''%package'', ''%description''] of
        [] \<Rightarrow> None | k # _ \<Rightarrow> Some ((), drop (length k) s))"

definition epoch_line :: "string pattern" where
  "epoch_line s =
     (let a = skip_blank (drop 6 s); n = takeWhile is_digit a; r = skip_blank (drop (length n) a) in
      if starts_with ''Epoch:'' s \<and> n \<noteq> [] \<and> (at_eol r \<or> hd r = CHR ''#'') then Some (n, snd (to_eol r)) else None)"

text \<open>The capture of the first match.\<close>

definition capture :: "'a pattern \<Rightarrow> string \<Rightarrow> 'a option" where
  "capture m s = map_option (\<lambda>(_, x, _). x) (search_line m True s)"

definition main_part :: "string \<Rightarrow> string" where
  "main_part preamble = (case search_line section_line True preamble of None \<Rightarrow> preamble | Some (p, _, _) \<Rightarrow> p)"

text \<open>The epoch, the version and the literal release of the entry.\<close>

definition entry_evr :: "string \<Rightarrow> string \<Rightarrow> string" where
  "entry_evr preamble version =
     (let e = (case capture epoch_line (main_part preamble) of None \<Rightarrow> version | Some n \<Rightarrow> n @ '':'' @ version) in
      case capture release_word preamble of
        None \<Rightarrow> e
      | Some w \<Rightarrow> (let literal = replace_all ''%{dist}'' [] (replace_all ''%{?dist}'' [] w) in
          if literal \<noteq> [] \<and> CHR ''%'' \<notin> set literal then e @ ''-'' @ literal else e))"

definition rstrip_comma :: "string \<Rightarrow> string" where
  "rstrip_comma s = rev (dropWhile (\<lambda>c. c = CHR '','') (rev s))"

definition changelog_date :: "string \<Rightarrow> string result" where
  "changelog_date now = (case split_space now of
      weekday # day # month # year # _ \<Rightarrow>
        Inr (rstrip_comma weekday @ '' '' @ month @ '' '' @ day @ '' '' @ year)
    | _ \<Rightarrow> Inl (ValueError ''not enough values to unpack''))"

definition changelog_entry :: "string \<Rightarrow> string \<Rightarrow> string \<Rightarrow> string" where
  "changelog_entry date evr version = concat [''* '', date,
     '' github-actions[bot] <41898282+github-actions[bot]@users.noreply.github.com> - '', evr, nl,
     ''- Update to '', version, nl, nl]"

definition update_changelog :: "string \<Rightarrow> string \<Rightarrow> string \<Rightarrow> string result" where
  "update_changelog now s version =
     (case search_line changelog_line True s of
        None \<Rightarrow> Inr s
      | Some (preamble, _, rest) \<Rightarrow>
          if search_line autochangelog_line True rest \<noteq> None then Inr s
          else bind_r (changelog_date now) (\<lambda>date.
            let head = gap_before s rest in
            Inr (head @ (if ends_with nl head then [] else nl) @
              changelog_entry date (entry_evr preamble version) version @ rest)))"

subsection \<open>The spec\<close>

text \<open>The new text, or none when the spec has the version already.\<close>

definition rewrite_spec :: "string \<Rightarrow> string \<Rightarrow> string \<Rightarrow> string \<Rightarrow> string option result" where
  "rewrite_spec now spec s release =
     (let wanted = rpm_version release in
      case search_line version_line True s of
        None \<Rightarrow> Inl (ValueError (spec @ '': no Version: line to bump''))
      | Some (p, (h, w), r) \<Rightarrow>
          bind_r (refuse_macro_sources spec s) (\<lambda>_.
            if w = wanted then Inr None
            else bind_r (update_changelog now (reset_release (p @ h @ wanted @ r)) wanted) (\<lambda>t. Inr (Some t))))"

subsection \<open>The sources manifest\<close>

definition hex_digits :: "string \<Rightarrow> bool" where
  "hex_digits s = (s \<noteq> [] \<and> list_all (\<lambda>c. hex_code c \<noteq> None) s)"

text \<open>\<open>SHA512 (file) = hex\<close>: the file runs to the last character before the first white space.\<close>

definition bsd_name :: "string \<Rightarrow> string option" where
  "bsd_name s =
     (let a = takeWhile name_start s; r = drop (length a) s; w = word_at (drop 2 r); e = drop (length w) (drop 2 r) in
      if a \<noteq> [] \<and> starts_with '' ('' r \<and> 2 \<le> length w \<and> last w = CHR '')'' \<and>
         starts_with '' = '' e \<and> hex_digits (drop 3 e)
      then Some (butlast w) else None)"

definition md5_name :: "string \<Rightarrow> string option" where
  "md5_name s =
     (let r = drop 32 s; name = drop 2 r in
      if 32 \<le> length s \<and> hex_digits (take 32 s) \<and> (starts_with ''  '' r \<or> starts_with '' *'' r) \<and>
         name \<noteq> [] \<and> list_all (\<lambda>c. \<not> is_space c) name
      then Some name else None)"

definition manifest_name :: "string \<Rightarrow> string option" where
  "manifest_name l = (case bsd_name (strip l) of Some n \<Rightarrow> Some n | None \<Rightarrow> md5_name (strip l))"

text \<open>\<open>(?<![\w.])version(?![\w]|\.\d)\<close>; \<open>free\<close> says what the lookbehind asks.\<close>

definition version_ends :: "string \<Rightarrow> bool" where
  "version_ends r = (case r of [] \<Rightarrow> True
     | c # cs \<Rightarrow> \<not> word_char c \<and> \<not> (c = CHR ''.'' \<and> cs \<noteq> [] \<and> is_digit (hd cs)))"

fun bound_from :: "string \<Rightarrow> bool \<Rightarrow> string \<Rightarrow> bool" where
  "bound_from v free [] = (free \<and> v = [])"
| "bound_from v free (c # cs) =
     (free \<and> starts_with v (c # cs) \<and> version_ends (drop (length v) (c # cs)) \<or>
      bound_from v (\<not> word_char c \<and> c \<noteq> CHR ''.'') cs)"

definition version_bound :: "string \<Rightarrow> string \<Rightarrow> bool" where
  "version_bound filename version = bound_from version True filename"

definition bundled_entries :: "string option \<Rightarrow> string \<Rightarrow> string list" where
  "bundled_entries manifest primary = (case manifest of
      None \<Rightarrow> []
    | Some s \<Rightarrow> filter (\<lambda>line. strip line \<noteq> [] \<and> manifest_name line \<noteq> Some primary) (splitlines s))"

text \<open>The loop of \<open>rewrite_sources\<close>; \<open>placed\<close> says that the pin is written.\<close>

fun move_pin :: "string list \<Rightarrow> string \<Rightarrow> bool \<Rightarrow> string list \<Rightarrow> string list" where
  "move_pin names pin placed [] = (if placed then [] else [pin])"
| "move_pin names pin placed (l # rest) =
     (if manifest_name l \<in> Some ` set names
      then (if placed then [] else [pin]) @ move_pin names pin True rest
      else l # move_pin names pin placed rest)"

definition pin_line :: "string \<Rightarrow> string \<Rightarrow> string" where
  "pin_line filename digest = ''SHA512 ('' @ filename @ '') = '' @ digest"

definition rewrite_sources :: "string option \<Rightarrow> string \<Rightarrow> string \<Rightarrow> string \<Rightarrow> string" where
  "rewrite_sources manifest filename digest previous =
     (let primary = (if previous = [] then filename else previous) in
      join nl (move_pin [primary, filename] (pin_line filename digest) False
        (case manifest of None \<Rightarrow> [] | Some s \<Rightarrow> splitlines s)) @ nl)"

subsection \<open>Facts: the macros\<close>

definition reads_macro :: "macros \<Rightarrow> (string \<times> string) set" where
  "reads_macro defs = {(a, b). b \<in> set (dict_get defs a [])}"

lemma bind_down_closure:
  assumes "set pending \<subseteq> set bound" and "\<forall>a \<in> set bound - set pending. set (dict_get defs a []) \<subseteq> set bound"
  shows "set (bind_down defs pending bound) = (reads_macro defs)\<^sup>* `` set bound"
  using assms
proof (induction defs pending bound rule: bind_down.induct)
  case (1 defs bound)
  then have "reads_macro defs `` set bound \<subseteq> set bound" by (auto simp: reads_macro_def)
  then show ?case by (simp add: Image_closed_trancl)
next
  case (2 defs name pending bound)
  let ?new = "filter (\<lambda>n. n \<notin> set bound) (dict_get defs name [])"
  have "(reads_macro defs)\<^sup>* `` set (bound @ ?new) = (reads_macro defs)\<^sup>* `` set bound"
    using "2.prems"(1) by (auto simp: reads_macro_def intro: converse_rtrancl_into_rtrancl)
  moreover have "set (bind_down defs (?new @ pending) (bound @ ?new)) = (reads_macro defs)\<^sup>* `` set (bound @ ?new)"
    using "2.prems" by (intro "2.IH") auto
  ultimately show ?case by (simp add: Let_def)
qed

definition grow_step :: "string \<times> string list \<Rightarrow> string list \<Rightarrow> string list" where
  "grow_step = (\<lambda>(name, references) b.
     if name \<notin> set b \<and> list_ex (\<lambda>r. r \<in> set b) references then b @ [name] else b)"

lemma grow_pass_fold: "grow_pass defs bound = fold grow_step defs bound"
  by (simp add: grow_pass_def grow_step_def)

lemma grow_step_length: "length b \<le> length (grow_step d b)"
  by (cases d) (simp add: grow_step_def)

lemma fold_grow_length: "length b \<le> length (fold grow_step ds b)"
  by (induction ds arbitrary: b) (auto intro: le_trans [OF grow_step_length])

lemma fold_grow_fixed: "fold grow_step ds b = b \<Longrightarrow> d \<in> set ds \<Longrightarrow> grow_step d b = b"
proof (induction ds)
  case (Cons x xs)
  have "grow_step x b = b"
  proof (rule ccontr)
    assume "grow_step x b \<noteq> b"
    then have "length b < length (grow_step x b)" by (cases x) (simp add: grow_step_def split: if_splits)
    with fold_grow_length [of "grow_step x b" xs] Cons.prems(1) show False by simp
  qed
  with Cons show ?case by auto
qed simp

lemma fold_grow_sound:
  assumes "\<forall>(name, refs) \<in> set ds. refs = dict_get defs name []"
    and "set b \<subseteq> ((reads_macro defs)\<inverse>)\<^sup>* `` s"
  shows "set (fold grow_step ds b) \<subseteq> ((reads_macro defs)\<inverse>)\<^sup>* `` s"
  using assms
proof (induction ds arbitrary: b)
  case (Cons d ds)
  obtain name refs where d: "d = (name, refs)" by (cases d)
  have "set (grow_step d b) \<subseteq> ((reads_macro defs)\<inverse>)\<^sup>* `` s"
  proof (cases "name \<notin> set b \<and> list_ex (\<lambda>r. r \<in> set b) refs")
    case True
    then obtain r where r: "r \<in> set refs" "r \<in> set b" by (auto simp: list_ex_iff)
    with Cons.prems(1) d have "(name, r) \<in> reads_macro defs" by (simp add: reads_macro_def)
    moreover from r(2) Cons.prems(2) obtain x where "x \<in> s" "(x, r) \<in> ((reads_macro defs)\<inverse>)\<^sup>*" by blast
    ultimately have "name \<in> ((reads_macro defs)\<inverse>)\<^sup>* `` s" by (auto intro: rtrancl_into_rtrancl)
    with True d Cons.prems(2) show ?thesis by (simp add: grow_step_def)
  next
    case False
    with d Cons.prems(2) show ?thesis by (auto simp: grow_step_def)
  qed
  with Cons show ?case by simp
qed simp

lemma dict_get_distinct: "distinct (map fst d) \<Longrightarrow> (k, v) \<in> set d \<Longrightarrow> dict_get d k w = v"
  by (simp add: dict_get_def)

lemma grow_fixed_closed:
  assumes "distinct (map fst defs)" and "grow_pass defs bound = bound"
  shows "((reads_macro defs)\<inverse>)\<^sup>* `` set bound = set bound"
proof -
  have "a \<in> set bound" if "(a, d) \<in> reads_macro defs" "d \<in> set bound" for a d
  proof -
    from that(1) obtain refs where "(a, refs) \<in> set defs" "d \<in> set refs"
      using dict_get_mem by (fastforce simp: reads_macro_def)
    moreover from assms(2) calculation(1) have "grow_step (a, refs) bound = bound"
      by (simp add: grow_pass_fold fold_grow_fixed)
    ultimately show ?thesis using that(2) by (auto simp: grow_step_def list_ex_iff split: if_splits)
  qed
  then have "(reads_macro defs)\<inverse> `` set bound \<subseteq> set bound" by auto
  then show ?thesis by (rule Image_closed_trancl)
qed

lemma Image_between:
  assumes "s \<subseteq> b" and "b \<subseteq> R\<^sup>* `` s"
  shows "R\<^sup>* `` b = R\<^sup>* `` s"
proof
  show "R\<^sup>* `` b \<subseteq> R\<^sup>* `` s" using assms(2) by (blast intro: rtrancl_trans)
  show "R\<^sup>* `` s \<subseteq> R\<^sup>* `` b" using assms(1) by blast
qed

lemma grow_up_closure:
  assumes "distinct (map fst defs)"
  shows "set (grow_up defs bound) = ((reads_macro defs)\<inverse>)\<^sup>* `` set bound"
  using assms
proof (induction defs bound rule: grow_up.induct [case_names step])
  case (step defs bound)
  show ?case
  proof (cases "grow_pass defs bound = bound")
    case True
    with step.prems grow_fixed_closed show ?thesis by (simp add: grow_up.simps [of defs bound])
  next
    case False
    let ?c = "\<lambda>s. ((reads_macro defs)\<inverse>)\<^sup>* `` s"
    obtain new where new: "grow_pass defs bound = bound @ new" using grow_pass_extends by blast
    have "set (grow_pass defs bound) \<subseteq> ?c (set bound)" unfolding grow_pass_fold
      using step.prems by (intro fold_grow_sound) (auto simp: dict_get_distinct)
    with new have "?c (set (grow_pass defs bound)) = ?c (set bound)"
      by (intro Image_between) auto
    with False step.IH [OF refl False step.prems] show ?thesis
      by (simp add: grow_up.simps [of defs bound] Let_def)
  qed
qed

lemma bound_macros_iff:
  assumes "distinct (map fst defs)"
  shows "m \<in> set (bound_macros defs start) \<longleftrightarrow>
    (\<exists>v \<in> set start. \<exists>d. (v, d) \<in> (reads_macro defs)\<^sup>* \<and> (m, d) \<in> (reads_macro defs)\<^sup>*)"
proof -
  have "set (bind_down defs start start) = (reads_macro defs)\<^sup>* `` set start"
    by (rule bind_down_closure) auto
  then show ?thesis
    by (auto simp: bound_macros_def grow_up_closure [OF assms] rtrancl_converse)
qed

text \<open>The Source lines that make a spec refuse a bump are exactly those that mention a macro sharing a
  dependency with the version: one that reads, through the definitions of the spec, a macro the
  version reads through them too; both loops over the definitions end.\<close>

theorem macro_sources_exact:
  assumes "search_line version_line True s = Some (p, (h, w), r)" and "CHR ''%'' \<in> set w"
  shows "set (version_macro_sources s) = {l \<in> set (find_lines source_line True s).
    \<exists>m \<in> set (macro_references l). \<exists>v \<in> set (macro_references w). \<exists>d.
      (v, d) \<in> (reads_macro (macros_of s))\<^sup>* \<and> (m, d) \<in> (reads_macro (macros_of s))\<^sup>*}"
proof -
  have "distinct (map fst (macros_of s))" by (simp add: macros_of_def)
  from bound_macros_iff [OF this] show ?thesis
    using assms by (auto simp: version_macro_sources_def list_ex_iff Let_def)
qed

definition sof_spec :: string where
  "sof_spec = concat [''%global major 2'', nl, ''%global ver %{major}.1'', nl, ''%global pkg %{?major}.x'', nl,
     ''Version: %{ver}'', nl, ''Source0: sof-%{pkg}.tar.gz'', nl, ''Source1: key.asc'', nl]"

theorem macro_sources_exact_witness:
  "''sof-%{pkg}.tar.gz'' \<in> set (version_macro_sources sof_spec) \<and>
   (\<exists>d. (''ver'', d) \<in> (reads_macro (macros_of sof_spec))\<^sup>* \<and> (''pkg'', d) \<in> (reads_macro (macros_of sof_spec))\<^sup>*)"
proof -
  have refs: "macro_references ''%{ver}'' = [''ver'']" by code_simp
  have refs2: "macro_references ''sof-%{pkg}.tar.gz'' = [''pkg'']" by code_simp
  have v: "map_option (\<lambda>(p, (h, w), r). w) (search_line version_line True sof_spec) = Some ''%{ver}''" by code_simp
  have src: "version_macro_sources sof_spec = [''sof-%{pkg}.tar.gz'']" by code_simp
  from v obtain p h r where "search_line version_line True sof_spec = Some (p, (h, ''%{ver}''), r)"
    by (auto simp: map_option_case split: option.splits prod.splits)
  moreover have "CHR ''%'' \<in> set ''%{ver}''" by simp
  ultimately have exact: "set (version_macro_sources sof_spec) = {l \<in> set (find_lines source_line True sof_spec).
    \<exists>m \<in> set (macro_references l). \<exists>v \<in> set (macro_references ''%{ver}''). \<exists>d.
      (v, d) \<in> (reads_macro (macros_of sof_spec))\<^sup>* \<and> (m, d) \<in> (reads_macro (macros_of sof_spec))\<^sup>*}"
    by (rule macro_sources_exact)
  let ?l = "''sof-%{pkg}.tar.gz''" and ?r = "(reads_macro (macros_of sof_spec))\<^sup>*"
  from src have l: "?l \<in> set (version_macro_sources sof_spec)" by (simp only: list.set insertI1)
  then have "\<exists>m \<in> set (macro_references ?l). \<exists>v \<in> set (macro_references ''%{ver}''). \<exists>d. (v, d) \<in> ?r \<and> (m, d) \<in> ?r"
    unfolding exact mem_Collect_eq by (rule conjunct2)
  with l show ?thesis unfolding refs refs2 by (simp only: list.set) blast
qed

subsection \<open>Facts: the manifest\<close>

lemma move_pin_others:
  assumes "manifest_name pin \<in> Some ` set names"
  shows "filter (\<lambda>l. manifest_name l \<notin> Some ` set names) (move_pin names pin placed ls) =
    filter (\<lambda>l. manifest_name l \<notin> Some ` set names) ls"
  using assms by (induction ls arbitrary: placed) auto

lemma move_pin_pins:
  assumes "manifest_name pin \<in> Some ` set names"
  shows "filter (\<lambda>l. manifest_name l \<in> Some ` set names) (move_pin names pin placed ls) =
    (if placed then [] else [pin])"
  using assms by (induction ls arbitrary: placed) auto

lemma move_pin_set: "set (move_pin names pin placed ls) \<subseteq> insert pin (set ls)"
  by (induction ls arbitrary: placed) auto

lemma move_pin_head:
  assumes "manifest_name pin \<in> Some ` set names"
  shows "takeWhile (\<lambda>l. manifest_name l \<notin> Some ` set names) (move_pin names pin False ls) =
    takeWhile (\<lambda>l. manifest_name l \<notin> Some ` set names) ls"
  using assms by (induction ls) auto

lemma splitlines_from_no_end:
  "\<forall>c \<in> set acc. \<not> is_line_end c \<Longrightarrow> l \<in> set (splitlines_from acc s) \<Longrightarrow> c \<in> set l \<Longrightarrow> \<not> is_line_end c"
  by (induction acc s rule: splitlines_from.induct) (auto split: if_splits)

lemma splitlines_no_end: "l \<in> set (splitlines s) \<Longrightarrow> c \<in> set l \<Longrightarrow> \<not> is_line_end c"
  by (auto simp: splitlines_def dest: splitlines_from_no_end [of "[]", simplified])

lemma splitlines_from_line:
  "\<forall>c \<in> set l. \<not> is_line_end c \<Longrightarrow> splitlines_from acc (l @ CHR 0x0A # s) = (rev acc @ l) # splitlines_from [] s"
  by (induction l arbitrary: acc) (auto simp: is_line_end_def split: list.splits)

lemma splitlines_join:
  assumes "ls \<noteq> []" and "\<forall>l \<in> set ls. \<forall>c \<in> set l. \<not> is_line_end c"
  shows "splitlines (join nl ls @ nl) = ls"
  using assms unfolding splitlines_def nl_def
proof (induction "[CHR 0x0A]" ls rule: join.induct)
  case (2 x)
  then show ?case using splitlines_from_line [of x "[]" "[]"] by simp
next
  case (3 x y ys)
  then show ?case using splitlines_from_line [of x "[]" "join [CHR 0x0A] (y # ys) @ [CHR 0x0A]"] by simp
qed simp

lemma hex_not_space: "hex_code c \<noteq> None \<Longrightarrow> \<not> is_space c"
  by (auto simp: hex_code_def is_space_def Let_def split: if_splits)

lemma strip_id: "s \<noteq> [] \<Longrightarrow> \<not> is_space (hd s) \<Longrightarrow> \<not> is_space (last s) \<Longrightarrow> strip s = s"
  by (simp add: strip_def lstrip_def rstrip_def hd_rev dropWhile_eq_self_iff [THEN iffD2])

lemma manifest_name_pin:
  assumes "filename \<noteq> []" and "\<forall>c \<in> set filename. \<not> is_space c" and "hex_digits digest"
  shows "manifest_name (pin_line filename digest) = Some filename"
proof -
  from assms(3) have "digest \<noteq> []" and "\<not> is_space (last digest)"
    using hex_not_space [of "last digest"] by (auto simp: hex_digits_def list_all_iff)
  then have "strip (pin_line filename digest) = pin_line filename digest"
    by (intro strip_id) (auto simp: pin_line_def is_space_def)
  moreover have "takeWhile name_start (pin_line filename digest) = ''SHA512''"
    by (simp add: pin_line_def name_start_def)
  moreover have "word_at (filename @ CHR '')'' # CHR '' '' # s) = filename @ '')''" for s
    using assms(2) by (induction filename) (simp_all add: word_at_def is_space_def)
  ultimately show ?thesis using assms(1,3)
    by (simp add: manifest_name_def bsd_name_def pin_line_def numeral_eq_Suc Suc_le_eq)
qed

text \<open>Rewriting a manifest keeps every line that pins another file, and every line it cannot read, verbatim
  and in order; of the lines for the old and the new tarball exactly the new pin is left, at the place
  of the first of them.\<close>

theorem sources_pin_moved:
  assumes "filename \<noteq> []" and "\<forall>c \<in> set filename. \<not> is_space c" and "hex_digits digest"
    and "primary = (if previous = [] then filename else previous)"
    and "after = splitlines (rewrite_sources (Some s) filename digest previous)"
    and "kept = (\<lambda>l. manifest_name l \<notin> Some ` {primary, filename})"
  shows "filter kept after = filter kept (splitlines s) \<and> filter (\<lambda>l. \<not> kept l) after = [pin_line filename digest] \<and>
    takeWhile kept after = takeWhile kept (splitlines s)"
proof -
  let ?ls = "move_pin [primary, filename] (pin_line filename digest) False (splitlines s)"
  have pin: "manifest_name (pin_line filename digest) = Some filename"
    using assms(1-3) by (rule manifest_name_pin)
  have "\<not> is_line_end c" if "l \<in> set ?ls" "c \<in> set l" for l c
  proof -
    from that(1) have "l \<in> set (splitlines s) \<or> l = pin_line filename digest" using move_pin_set by fastforce
    then show ?thesis
    proof
      assume l: "l = pin_line filename digest"
      have "\<not> is_space c \<or> c = CHR '' ''"
        using that(2) assms(2,3) hex_not_space unfolding l pin_line_def hex_digits_def list_all_iff
        by (auto simp: is_space_def)
      then show ?thesis by (auto simp: is_space_def is_line_end_def Let_def)
    qed (use splitlines_no_end that(2) in blast)
  qed
  moreover have "?ls \<noteq> []" by (cases "splitlines s") auto
  ultimately have "after = ?ls" unfolding assms(5) rewrite_sources_def assms(4) Let_def
    by (simp add: splitlines_join)
  moreover have names: "(\<lambda>l. \<not> kept l) = (\<lambda>l. manifest_name l \<in> Some ` set [primary, filename])"
    "kept = (\<lambda>l. manifest_name l \<notin> Some ` set [primary, filename])" by (auto simp: assms(6))
  moreover have in_names: "manifest_name (pin_line filename digest) \<in> Some ` set [primary, filename]"
    using pin by simp
  ultimately show ?thesis
    using move_pin_others [OF in_names, of False "splitlines s"] move_pin_pins [OF in_names, of False "splitlines s"]
      move_pin_head [OF in_names, of "splitlines s"]
    unfolding names by simp
qed

theorem sources_pin_moved_witness:
  "filter (\<lambda>l. manifest_name l \<in> Some ` {''ppp-2.5.2.tar.gz'', ''ppp-2.5.3.tar.gz''})
     (splitlines (rewrite_sources (Some (concat [''SHA512 (ppp-2.5.2.tar.gz) = aa'', nl, ''SHA512 (ppp-watch.tar.xz) = cc'', nl]))
       ''ppp-2.5.3.tar.gz'' ''bb'' ''ppp-2.5.2.tar.gz'')) = [''SHA512 (ppp-2.5.3.tar.gz) = bb'']"
proof -
  have "filter (\<lambda>l. \<not> (\<lambda>l. manifest_name l \<notin> Some ` {''ppp-2.5.2.tar.gz'', ''ppp-2.5.3.tar.gz''}) l)
     (splitlines (rewrite_sources (Some (concat [''SHA512 (ppp-2.5.2.tar.gz) = aa'', nl, ''SHA512 (ppp-watch.tar.xz) = cc'', nl]))
       ''ppp-2.5.3.tar.gz'' ''bb'' ''ppp-2.5.2.tar.gz'')) = [pin_line ''ppp-2.5.3.tar.gz'' ''bb'']"
    using sources_pin_moved [of "''ppp-2.5.3.tar.gz''" "''bb''" "''ppp-2.5.2.tar.gz''" "''ppp-2.5.2.tar.gz''", OF _ _ _ _ refl refl]
    by (simp add: is_space_def hex_digits_def hex_code_def)
  then show ?thesis by (simp add: pin_line_def)
qed

subsection \<open>Facts: the changelog\<close>

lemma search_line_suffix:
  assumes tails: "\<And>s x r. m s = Some (x, r) \<Longrightarrow> \<exists>q. s = q @ r" and "search_line m bol s = Some (p, x, r)"
  shows "\<exists>q. s = p @ q @ r"
  using assms(2)
proof (induction s arbitrary: bol p)
  case Nil
  then obtain y where "m [] = Some (y, r)" "p = []" by (cases "m []") (auto split: if_split_asm)
  with tails show ?case by fastforce
next
  case (Cons c cs)
  show ?case
  proof (cases "if bol then m (c # cs) else None")
    case None
    with Cons.prems obtain p' where "p = c # p'" "search_line m (c = CHR 0x0A) cs = Some (p', x, r)" by auto
    with Cons.IH show ?thesis by simp
  next
    case (Some y)
    with Cons.prems have "p = []" "m (c # cs) = Some (x, r)" by (auto split: if_split_asm prod.splits)
    with tails show ?thesis by simp
  qed
qed

lemma gap_before_append: "gap_before (q @ r) r = q"
  by (simp add: gap_before_def)

lemma dropWhile_tail: "\<exists>q. s = q @ dropWhile P s"
  by (metis takeWhile_dropWhile_id)

lemma changelog_line_tail: "changelog_line s = Some (x, r) \<Longrightarrow> \<exists>q. s = q @ r"
proof -
  assume "changelog_line s = Some (x, r)"
  then have r: "r = tl (skip_blank (drop 10 s))" by (simp add: changelog_line_def Let_def split: if_splits)
  obtain q where "drop 10 s = q @ skip_blank (drop 10 s)" unfolding skip_blank_def using dropWhile_tail by blast
  then have "s = (take 10 s @ q @ take 1 (skip_blank (drop 10 s))) @ r" unfolding r
    by (metis append.assoc append_take_drop_id drop0 drop_Suc One_nat_def)
  then show ?thesis by blast
qed

lemma search_line_match: "search_line m bol s = Some (p, x, r) \<Longrightarrow> \<exists>q. m q = Some (x, r)"
proof (induction s arbitrary: bol p)
  case Nil
  then have "m [] = Some (x, r)" by (cases "m []") (auto split: if_split_asm)
  then show ?case by (rule exI)
next
  case (Cons c cs)
  show ?case
  proof (cases "if bol then m (c # cs) else None")
    case None
    with Cons.prems obtain p' where "search_line m (c = CHR 0x0A) cs = Some (p', x, r)" by auto
    then show ?thesis by (rule Cons.IH)
  next
    case (Some y)
    with Cons.prems have "m (c # cs) = Some (x, r)" by (auto split: if_split_asm prod.splits)
    then show ?thesis by (rule exI)
  qed
qed

lemma epoch_digits: "capture epoch_line s = Some n \<Longrightarrow> \<forall>c \<in> set n. is_digit c"
proof -
  assume "capture epoch_line s = Some n"
  then obtain p r where "search_line epoch_line True s = Some (p, n, r)" by (auto simp: capture_def)
  from search_line_match [OF this] obtain q where "epoch_line q = Some (n, r)" by blast
  then have "n = takeWhile is_digit (skip_blank (drop 6 q))" by (simp add: epoch_line_def Let_def split: if_splits)
  then show ?thesis by (auto dest: set_takeWhileD)
qed

text \<open>The entry names no macro.\<close>

lemma evr_plain:
  assumes "CHR ''%'' \<notin> set version"
  shows "CHR ''%'' \<notin> set (entry_evr preamble version)"
proof -
  let ?e = "case capture epoch_line (main_part preamble) of None \<Rightarrow> version | Some n \<Rightarrow> n @ '':'' @ version"
  have "CHR ''%'' \<notin> set ?e"
  proof (cases "capture epoch_line (main_part preamble)")
    case (Some n)
    with epoch_digits have "CHR ''%'' \<notin> set n" by (force simp: is_digit_def)
    with Some assms show ?thesis by simp
  qed (simp add: assms)
  then show ?thesis by (auto simp: entry_evr_def Let_def simp del: set_append split: option.split) auto
qed

lemma split_space_chars: "w \<in> set (split_space s) \<Longrightarrow> c \<in> set w \<Longrightarrow> c \<in> set s"
proof (induction s rule: split_space.induct)
  case (1 s)
  then show ?case
    by (subst (asm) (2) split_space.simps)
      (auto simp: Let_def dest: set_takeWhileD set_dropWhileD split: if_splits)
qed

lemma date_plain:
  assumes "changelog_date now = Inr date" and "CHR ''%'' \<notin> set now"
  shows "CHR ''%'' \<notin> set date"
proof -
  from assms(1) obtain weekday day month year ws where w: "split_space now = weekday # day # month # year # ws"
    and date: "date = rstrip_comma weekday @ '' '' @ month @ '' '' @ day @ '' '' @ year"
    by (auto simp: changelog_date_def split: list.splits)
  have "CHR ''%'' \<notin> set x" if "x \<in> {weekday, day, month, year}" for x
    using split_space_chars [of x now] that w assms(2) by auto
  moreover have "set (rstrip_comma weekday) \<subseteq> set weekday" by (auto simp: rstrip_comma_def dest: set_dropWhileD)
  ultimately show ?thesis unfolding date by auto
qed

text \<open>Adding a changelog entry keeps the whole text of the spec, history included, and inserts one piece
  into it that carries no macro, whatever macros the release and the epoch of the spec are
  written with.\<close>

theorem changelog_keeps_history:
  assumes "update_changelog now s version = Inr after" and "CHR ''%'' \<notin> set now" and "CHR ''%'' \<notin> set version"
  shows "\<exists>head new rest. s = head @ rest \<and> after = head @ new @ rest \<and> CHR ''%'' \<notin> set new"
proof (cases "after = s")
  case True
  then show ?thesis by (intro exI [of _ s] exI [of _ "[]"]) simp
next
  case False
  with assms(1) obtain preamble rest where cl: "search_line changelog_line True s = Some (preamble, (), rest)"
    and none: "search_line autochangelog_line True rest = None"
    by (auto simp: update_changelog_def simp del: not_None_eq split: option.split_asm if_split_asm)
  obtain q where q: "s = (preamble @ q) @ rest" using search_line_suffix [OF changelog_line_tail cl] by auto
  let ?h = "preamble @ q"
  from assms(1) cl none obtain date where date: "changelog_date now = Inr date"
    and after: "after = ?h @ ((if ends_with nl ?h then [] else nl) @
        changelog_entry date (entry_evr preamble version) version) @ rest"
    using gap_before_append [of ?h rest] unfolding q by (auto simp: update_changelog_def Let_def bind_r_Inr)
  have "CHR ''%'' \<notin> set ((if ends_with nl ?h then [] else nl) @ changelog_entry date (entry_evr preamble version) version)"
    using date_plain [OF date assms(2)] evr_plain [OF assms(3)] assms(3) by (simp add: changelog_entry_def nl_def)
  with q after show ?thesis by blast
qed

theorem changelog_keeps_history_witness:
  "\<exists>head new rest. concat [''Release: 4%{?dist}'', nl, ''%changelog'', nl, ''old''] = head @ rest \<and> CHR ''%'' \<notin> set new \<and>
     concat [''Release: 4%{?dist}'', nl, ''%changelog'', nl, ''* Mon Jan 05 2026 github-actions[bot] <41898282+github-actions[bot]@users.noreply.github.com> - 2.1-4'',
       nl, ''- Update to 2.1'', nl, nl, ''old''] = head @ new @ rest"
proof -
  have "update_changelog ''Mon, 05 Jan 2026 10:00:00 -0000'' (concat [''Release: 4%{?dist}'', nl, ''%changelog'', nl, ''old'']) ''2.1'' =
    Inr (concat [''Release: 4%{?dist}'', nl, ''%changelog'', nl, ''* Mon Jan 05 2026 github-actions[bot] <41898282+github-actions[bot]@users.noreply.github.com> - 2.1-4'',
       nl, ''- Update to 2.1'', nl, nl, ''old''])" by code_simp
  from changelog_keeps_history [OF this] show ?thesis by auto
qed

end
