(* ===== verification/Upstream_Apply.thy ===== *)
theory Upstream_Apply
  imports Upstream_Plan Spec_Rewrite
begin

section \<open>Applying a bump (\<open>upstream_bump.py\<close>)\<close>

text \<open>
  The lock entry of a new release, and a bump applied across the spec, the manifest and the
  inventory. The repository is the map from paths to texts of \<open>Bump_Gate\<close>; an operation gives the
  tree it leaves together with its result, so that what an error leaves behind is visible. The bytes at
  an address and the SHA-512 of bytes are arguments.
\<close>

subsection \<open>The new lock entry\<close>

definition sha512_of :: "http \<Rightarrow> (string \<Rightarrow> string) \<Rightarrow> string \<Rightarrow> string result" where
  "sha512_of http sha512 url = bind_r (http url) (\<lambda>bytes. Inr (sha512 bytes))"

definition lookaside :: string where
  "lookaside = ''https://src.fedoraproject.org/repo/pkgs/rpms''"

definition gnome_dir :: "string \<Rightarrow> string \<Rightarrow> string" where
  "gnome_dir m tarball = concat [gnome_sources, m, ''/'', release_cycle tarball]"

definition gnome_tarball :: "string \<Rightarrow> string \<Rightarrow> string" where
  "gnome_tarball m tarball = concat [m, ''-'', tarball, ''.tar.xz'']"

definition gnome_url :: "string \<Rightarrow> string \<Rightarrow> string" where
  "gnome_url m tarball = concat [gnome_dir m tarball, ''/'', gnome_tarball m tarball]"

definition put_str :: "string \<Rightarrow> string \<Rightarrow> lock \<Rightarrow> lock" where
  "put_str k v = AList.update k (JStr v)"

definition planned_entry :: "lock \<Rightarrow> string \<Rightarrow> string \<Rightarrow> string option \<Rightarrow> lock result" where
  "planned_entry e release digest m =
     bind_r (case m of Some x \<Rightarrow> if x = [] then entry_module e else Inr (Some x) | None \<Rightarrow> entry_module e) (\<lambda>m. case m of
       None \<Rightarrow> bind_r (py_str (dict_get e ''name'' JNull)) (\<lambda>n.
         Inl (ValueError (''no GNOME module for '' @ n @ '': refusing to guess a URL'')))
     | Some x \<Rightarrow>
         let tarball = tarball_version release; name = gnome_tarball x tarball;
             base = put_str ''sha512'' digest (put_str ''filename'' name
               (put_str ''url'' (gnome_url x tarball) (put_str ''version'' tarball e)));
             summed = (if dict_has e ''sha256_url''
               then put_str ''sha256_url'' (concat [gnome_dir x tarball, ''/'', x, ''-'', tarball, ''.sha256sum'']) base
               else base) in
         if truthy (dict_get e ''fallback_urls'' JNull) then
           bind_r (let n = dict_get e ''name'' JNull in if truthy n then as_text n else Inr x) (\<lambda>package.
             Inr (AList.update ''fallback_urls''
               (JList [JStr (concat [lookaside, ''/'', package, ''/'', name, ''/sha512/'', digest, ''/'', name])]) summed))
         else Inr summed)"

text \<open>\<open>replace\<close> of an empty old text, which an empty version would ask for, is left out.\<close>

definition replace_each :: "(string \<times> string) list \<Rightarrow> string \<Rightarrow> string" where
  "replace_each swaps s = fold (\<lambda>(old, new). replace_all old new) swaps s"

fun substituted :: "(string \<times> string) list \<Rightarrow> json \<Rightarrow> json result" where
  "substituted swaps (JList xs) = bind_r (map_r (substituted swaps) xs) (\<lambda>ys. Inr (JList ys))"
| "substituted swaps (JStr s) = Inr (JStr (replace_each swaps s))"
| "substituted swaps v = (if swaps = [] then Inr v else Inl AttributeError)"

definition url_fields :: "string list" where
  "url_fields = [''url'', ''filename'', ''sha256_url'', ''fallback_urls'']"

definition substitute_field :: "lock \<Rightarrow> (string \<times> string) list \<Rightarrow> string \<Rightarrow> lock \<Rightarrow> lock result" where
  "substitute_field e swaps k updated =
     (case map_of e k of
        None \<Rightarrow> Inr updated
      | Some v \<Rightarrow> bind_r (substituted swaps v) (\<lambda>w. Inr (AList.update k w updated)))"

definition forge_planned_entry :: "lock \<Rightarrow> string \<Rightarrow> string \<Rightarrow> lock result" where
  "forge_planned_entry e release digest =
     bind_r (text_at e ''version'') (\<lambda>current.
     bind_r (text_get e ''url'') (\<lambda>url.
       if \<not> contains current url then bind_r (bind_r (dict_index e ''name'') py_str) (\<lambda>n.
         Inl (ValueError (concat [n, '': version '', current,
           '' does not appear in its url, so it cannot be bumped by substitution''])))
       else if current = [] then Inl Unmodelled
       else
         bind_r (let v = dict_get e ''sha512'' JNull in if truthy v then bind_r (as_text v) (\<lambda>s. Inr [(s, digest)]) else Inr [])
           (\<lambda>old_digest.
         bind_r (fold_r (substitute_field e ((current, release) # old_digest)) url_fields e) (\<lambda>updated.
           Inr (put_str ''sha512'' digest (put_str ''version'' release updated))))))"

subsection \<open>May a bump move the recipe?\<close>

definition recipe_dir :: "string \<Rightarrow> string" where
  "recipe_dir name = concat [''packages/'', name]"

definition spec_path :: "string \<Rightarrow> string" where
  "spec_path name = concat [recipe_dir name, ''/'', name, ''.spec'']"

definition manifest_path :: "string \<Rightarrow> string" where
  "manifest_path name = concat [recipe_dir name, ''/sources'']"

definition bound_to :: "string list \<Rightarrow> string \<Rightarrow> string option" where
  "bound_to spellings l = (case manifest_name l of
      None \<Rightarrow> None
    | Some f \<Rightarrow> if f \<noteq> [] \<and> list_ex (version_bound f) spellings then Some f else None)"

definition check_bumpable :: "rev_tree \<Rightarrow> lock \<Rightarrow> unit result" where
  "check_bumpable t e =
     bind_r (text_at e ''name'') (\<lambda>name.
     bind_r (case map_of t (spec_path name) of None \<Rightarrow> Inr () | Some s \<Rightarrow> refuse_macro_sources (spec_path name) s) (\<lambda>_.
     bind_r (text_at e ''version'') (\<lambda>version.
     bind_r (text_get e ''filename'') (\<lambda>filename.
       case List.map_filter (bound_to [version, tarball_version version])
           (bundled_entries (map_of t (manifest_path name)) filename) of
         [] \<Rightarrow> Inr ()
       | f # _ \<Rightarrow> Inl (ValueError (concat [name, '': bundled source '', f, '' is bound to '', version,
           ''; its successor has to be produced by hand'']))))))"

subsection \<open>The Fedora-primary list\<close>

text \<open>\<open>s.splitlines(keepends=True)\<close>.\<close>

function lines_kept :: "string \<Rightarrow> string \<Rightarrow> string list" where
  "lines_kept acc [] = (if acc = [] then [] else [rev acc])"
| "lines_kept acc (c # cs) =
     (if c = CHR 0x0D \<and> cs \<noteq> [] \<and> hd cs = CHR 0x0A then rev (CHR 0x0A # c # acc) # lines_kept [] (tl cs)
      else if is_line_end c then rev (c # acc) # lines_kept [] cs
      else lines_kept (c # acc) cs)"
  by pat_completeness auto
termination
  by (relation "measure (\<lambda>(acc, s). length s)") auto

text \<open>\<open>urlparse(url).hostname or ""\<close> for an address without white space; a bracketed host is left out.\<close>

definition scheme_char :: "char \<Rightarrow> bool" where
  "scheme_char c = (name_start c \<or> c \<in> set ''+-.'')"

definition after_scheme :: "string \<Rightarrow> string" where
  "after_scheme url =
     (let s = takeWhile (\<lambda>c. c \<noteq> CHR '':'') url in
      if s \<noteq> [] \<and> s \<noteq> url \<and> list_all scheme_char s \<and> \<not> is_digit (hd s) \<and> name_start (hd s)
      then drop (Suc (length s)) url else url)"

definition url_host :: "string \<Rightarrow> string result" where
  "url_host url =
     (let r = after_scheme url; netloc = takeWhile (\<lambda>c. c \<notin> set ''/?#'') (drop 2 r);
          host = snd (rpartition CHR ''@'' netloc) in
      if \<not> starts_with ''//'' r then Inr []
      else if CHR ''['' \<in> set netloc \<or> CHR '']'' \<in> set netloc then Inl Unmodelled
      else Inr (map ascii_lower (before CHR '':'' host)))"

definition fedora_hosts :: "string list" where
  "fedora_hosts = [''fedoraproject.org'', ''src.fedoraproject.org'', ''kojipkgs.fedoraproject.org'']"

definition fedora_list_path :: string where
  "fedora_list_path = ''config/fedora-primary-sources.txt''"

definition retire_fedora_primary :: "rev_tree \<Rightarrow> string \<Rightarrow> string \<Rightarrow> rev_tree result" where
  "retire_fedora_primary t name url =
     bind_r (url_host url) (\<lambda>host.
       if host \<in> set fedora_hosts \<or> ends_with ''.fedoraproject.org'' host then Inr t
       else (case map_of t fedora_list_path of
           None \<Rightarrow> Inr t
         | Some s \<Rightarrow>
             let ls = lines_kept [] s; kept = filter (\<lambda>l. strip (before CHR ''#'' l) \<noteq> name) ls in
             Inr (if kept \<noteq> ls then AList.update fedora_list_path (concat kept) t else t)))"

subsection \<open>One bump\<close>

text \<open>What a bump writes: the package, its old and new lock entry, the digest and the new inventory.\<close>

record bump_plan =
  bp_entry :: lock
  bp_updated :: lock
  bp_digest :: string
  bp_document :: json

text \<open>\<open>next(i for i, e in enumerate(es) if e["name"] == name)\<close>.\<close>

fun index_of_name :: "string \<Rightarrow> json list \<Rightarrow> nat result" where
  "index_of_name name [] = Inl StopIteration"
| "index_of_name name (e # es) =
     bind_r (item e ''name'') (\<lambda>n.
       if n = JStr name then Inr 0 else bind_r (index_of_name name es) (\<lambda>i. Inr (Suc i)))"

definition forge_template :: "lock \<Rightarrow> lock result" where
  "forge_template e =
     bind_r (dict_index e ''feed'') (\<lambda>f. bind_r (text_at e ''url'') (\<lambda>url. bind_r (fallbacks e) (\<lambda>others.
       Inr (AList.update ''fallback_urls'' (JList (map JStr (url # others))) (AList.update ''url'' f e)))))"

definition substituted_url :: "lock \<Rightarrow> string \<Rightarrow> string \<Rightarrow> string result" where
  "substituted_url e k release =
     bind_r (text_at e k) (\<lambda>s. bind_r (text_at e ''version'') (\<lambda>current.
       if current = [] then Inl Unmodelled else Inr (replace_all current release s)))"

text \<open>The three ways to a new entry: a forge relock, a GNOME module, a substitution into the lock. The
  entry that comes back is the one the later steps read.\<close>

definition new_entry :: "http \<Rightarrow> (string \<Rightarrow> string) \<Rightarrow> lock \<Rightarrow> proposal \<Rightarrow> (lock \<times> lock \<times> string) result" where
  "new_entry http sha512 e p =
     (let relock = (pr_kind p = ''relock''); release = pr_latest p in
      bind_r (if relock then bind_r (text_get e ''feed'') (\<lambda>f. Inr (parse_explicit_feed f)) else Inr None) (\<lambda>explicit.
      bind_r (if relock \<and> pr_module p \<noteq> [] then Inr (Some (pr_module p)) else entry_module e) (\<lambda>m.
        if (case explicit of None \<Rightarrow> False | Some f \<Rightarrow> feed_at f ''forge'' \<notin> {''gnome'', ''anitya''}) then
          bind_r (forge_template e) (\<lambda>base.
          bind_r (substituted_url e ''feed'' release) (\<lambda>url.
          bind_r (sha512_of http sha512 url) (\<lambda>digest.
          bind_r (forge_planned_entry base release digest) (\<lambda>updated. Inr (e, updated, digest)))))
        else case m of
          Some x \<Rightarrow>
            bind_r (sha512_of http sha512 (gnome_url x (tarball_version release))) (\<lambda>digest.
            bind_r (bind_r (text_get e ''url'') (\<lambda>url. bind_r (entry_module e) (\<lambda>own.
              Inr (if relock \<and> url \<noteq> [] \<and> own = None then AList.update ''fallback_urls'' (JList [JStr url]) e else e))))
              (\<lambda>e'.
            bind_r (planned_entry e' release digest (Some x)) (\<lambda>updated. Inr (e', updated, digest))))
        | None \<Rightarrow>
            bind_r (substituted_url e ''url'' release) (\<lambda>url.
            bind_r (sha512_of http sha512 url) (\<lambda>digest.
            bind_r (forge_planned_entry e release digest) (\<lambda>updated. Inr (e, updated, digest)))))))"

text \<open>The counter of the old version goes, and so does the feed a relocked primary names itself.\<close>

definition settled_entry :: "bool \<Rightarrow> lock \<Rightarrow> lock \<Rightarrow> lock result" where
  "settled_entry relock e updated =
     bind_r (text_at e ''version'') (\<lambda>old. bind_r (text_at updated ''version'') (\<lambda>new.
       let counted = (if rpm_version old \<noteq> rpm_version new then AList.delete ''dist_bump'' updated else updated) in
       Inr (if relock then AList.delete ''feed'' counted else counted)))"

definition inventory_fields :: "rev_tree \<Rightarrow> (string, json) dict result" where
  "inventory_fields t =
     bind_r (case map_of t lock_path of None \<Rightarrow> Inl (OSError lock_path) | Some s \<Rightarrow> loads s) (\<lambda>document.
       case document of JObj kvs \<Rightarrow> Inr kvs | _ \<Rightarrow> Inl TypeError)"

definition inventory_packages :: "(string, json) dict \<Rightarrow> json list result" where
  "inventory_packages kvs = bind_r (dict_index kvs ''packages'') (\<lambda>v. case v of JList es \<Rightarrow> Inr es | _ \<Rightarrow> Inl Unmodelled)"

definition plan_bump :: "http \<Rightarrow> (string \<Rightarrow> string) \<Rightarrow> rev_tree \<Rightarrow> proposal \<Rightarrow> bump_plan result" where
  "plan_bump http sha512 t p =
     bind_r (inventory_fields t) (\<lambda>kvs.
     bind_r (inventory_packages kvs) (\<lambda>es.
     bind_r (index_of_name (pr_name p) es) (\<lambda>i.
     bind_r (items_of (es ! i)) (\<lambda>e.
     bind_r (check_bumpable t e) (\<lambda>_.
     bind_r (new_entry http sha512 e p) (\<lambda>(e', updated, digest).
     bind_r (settled_entry (pr_kind p = ''relock'') e' updated) (\<lambda>settled.
       Inr \<lparr>bp_entry = e', bp_updated = settled, bp_digest = digest,
         bp_document = JObj (AList.update ''packages'' (JList (es[i := JObj settled])) kvs)\<rparr>)))))))"

text \<open>The three writes; the inventory is the last of them.\<close>

definition write_spec :: "string \<Rightarrow> proposal \<Rightarrow> rev_tree \<Rightarrow> rev_tree result" where
  "write_spec now p t =
     (let path = spec_path (pr_name p) in
      case map_of t path of
        None \<Rightarrow> Inr t
      | Some s \<Rightarrow> bind_r (rewrite_spec now path s (pr_latest p)) (\<lambda>r.
          Inr (case r of None \<Rightarrow> t | Some s' \<Rightarrow> AList.update path s' t)))"

definition write_manifest :: "proposal \<Rightarrow> bump_plan \<Rightarrow> rev_tree \<Rightarrow> rev_tree result" where
  "write_manifest p bp t =
     (let path = manifest_path (pr_name p) in
      case map_of t path of
        None \<Rightarrow> Inr t
      | Some s \<Rightarrow> bind_r (text_at (bp_updated bp) ''filename'') (\<lambda>filename.
          bind_r (text_get (bp_entry bp) ''filename'') (\<lambda>previous.
            Inr (AList.update path (rewrite_sources (Some s) filename (bp_digest bp) previous) t))))"

definition write_inventory :: "bump_plan \<Rightarrow> rev_tree \<Rightarrow> rev_tree" where
  "write_inventory bp t = AList.update lock_path (dumps_indent (bp_document bp) @ nl) t"

definition apply_bump :: "http \<Rightarrow> (string \<Rightarrow> string) \<Rightarrow> string \<Rightarrow> rev_tree \<Rightarrow> proposal \<Rightarrow> rev_tree \<times> lock result" where
  "apply_bump http sha512 now t p =
     (case plan_bump http sha512 t p of
        Inl e \<Rightarrow> (t, Inl e)
      | Inr bp \<Rightarrow>
     (case write_spec now p t of
        Inl e \<Rightarrow> (t, Inl e)
      | Inr t1 \<Rightarrow>
     (case write_manifest p bp t1 of
        Inl e \<Rightarrow> (t1, Inl e)
      | Inr t2 \<Rightarrow>
          let t3 = write_inventory bp t2 in
          if pr_kind p \<noteq> ''relock'' then (t3, Inr (bp_updated bp))
          else (case bind_r (text_at (bp_updated bp) ''url'') (retire_fedora_primary t3 (pr_name p)) of
              Inl e \<Rightarrow> (t3, Inl e)
            | Inr t4 \<Rightarrow> (t4, Inr (bp_updated bp))))))"

subsection \<open>The run\<close>

definition lock_entry :: "json \<Rightarrow> entry result" where
  "lock_entry v = bind_r (item v ''name'') (\<lambda>n. bind_r (as_text n) (\<lambda>name. bind_r (items_of v) (\<lambda>kvs.
     Inr \<lparr>ename = name, efields = kvs\<rparr>)))"

definition source_locks :: "rev_tree \<Rightarrow> (string, lock) dict result" where
  "source_locks t =
     bind_r (inventory_fields t) (\<lambda>kvs.
     bind_r (bind_r (dict_index kvs ''packages'') iterate) (\<lambda>es.
     bind_r (fold_r (\<lambda>v locks. bind_r (lock_entry v) (\<lambda>e. add_lock e locks)) es []) (\<lambda>locks.
       Inr (map (\<lambda>(name, e). (name, efields e)) locks))))"

record bump_run =
  br_tree :: rev_tree
  br_applied :: "string list"
  br_skipped :: "string list"
  br_holds :: "(string, json) dict"
  br_retired :: bool

text \<open>Applying one bump: a release that cannot be applied is skipped, and an applied one retires its hold.\<close>

definition skips :: "error \<Rightarrow> bool" where
  "skips e = (case e of OSError _ \<Rightarrow> True | ValueError _ \<Rightarrow> True | _ \<Rightarrow> False)"

definition apply_one :: "http \<Rightarrow> (string \<Rightarrow> string) \<Rightarrow> string \<Rightarrow> proposal \<Rightarrow> bump_run \<Rightarrow> bump_run result" where
  "apply_one http sha512 now p s =
     (case apply_bump http sha512 now (br_tree s) p of
        (t, Inl e) \<Rightarrow> if skips e then Inr (s\<lparr>br_tree := t, br_skipped := br_skipped s @ [pr_name p]\<rparr>) else Inl e
      | (t, Inr _) \<Rightarrow> Inr (s\<lparr>br_tree := t, br_applied := br_applied s @ [pr_name p],
          br_holds := AList.delete (pr_name p) (br_holds s),
          br_retired := (br_retired s \<or> dict_has (br_holds s) (pr_name p))\<rparr>))"

text \<open>The exit status, the tree and the \<open>relock\<close> flag written to \<open>GITHUB_OUTPUT\<close>; what is printed is left out.\<close>

definition bump_all :: "http \<Rightarrow> (string \<Rightarrow> string) \<Rightarrow> string \<Rightarrow> bool \<Rightarrow> string \<Rightarrow> string \<Rightarrow> rev_tree \<Rightarrow>
    (nat \<times> bump_run \<times> bool) result" where
  "bump_all http sha512 now writes only cycle t =
     bind_r (source_locks t) (\<lambda>locks.
     bind_r (plan_bumps http locks only cycle) (\<lambda>ps.
     bind_r (parse_holds (map_of t holds_path)) (\<lambda>holds.
     bind_r (split_bumps ps (parse_review_only (map_of t review_only_path)) holds) (\<lambda>b.
     bind_r (fold_r (apply_one http sha512 now) (if writes then bs_apply b else [])
         \<lparr>br_tree = t, br_applied = [], br_skipped = [], br_holds = holds, br_retired = False\<rparr>) (\<lambda>s.
       Inr (if bs_apply b \<noteq> [] \<and> writes \<and> br_applied s = [] then 1 else 0,
         if br_retired s then s\<lparr>br_tree := AList.update holds_path (dump_holds (br_holds s)) (br_tree s)\<rparr> else s,
         list_ex (\<lambda>p. pr_kind p = ''relock'') (bs_apply b)))))))"

subsection \<open>Facts: what an error leaves behind\<close>

lemma text_at_error: "text_at e k = Inl x \<Longrightarrow> \<not> skips x"
  by (auto simp: text_at_def dict_index_def as_text_def skips_def bind_r_def split: option.splits sum.splits json.splits)

lemma text_get_error: "text_get e k = Inl x \<Longrightarrow> \<not> skips x"
  by (auto simp: text_get_def as_text_def skips_def split: json.splits)

lemma url_host_error: "url_host url = Inl x \<Longrightarrow> \<not> skips x"
  by (auto simp: url_host_def Let_def skips_def split: if_splits)

lemma retire_error: "retire_fedora_primary t name url = Inl x \<Longrightarrow> \<not> skips x"
  by (cases "url_host url") (auto simp: retire_fedora_primary_def Let_def dest: url_host_error split: if_splits option.splits)

lemma write_manifest_error:
  assumes "write_manifest p bp t = Inl x"
  shows "\<not> skips x"
proof (cases "map_of t (manifest_path (pr_name p))")
  case (Some s)
  with assms show ?thesis
    by (cases "text_at (bp_updated bp) ''filename''"; cases "text_get (bp_entry bp) ''filename''")
      (auto simp: write_manifest_def Let_def dest: text_at_error text_get_error)
qed (use assms in \<open>simp add: write_manifest_def Let_def\<close>)

definition bump_tree :: "string \<Rightarrow> string \<Rightarrow> rev_tree" where
  "bump_tree version digest = [(lock_path, dumps_indent (JObj [(''packages'', JList [JObj [(''name'', JStr ''a''),
     (''version'', JStr version), (''url'', JStr (''u/'' @ version)), (''sha512'', JStr digest)]])]) @ nl)]"

definition bump_proposal :: proposal where
  "bump_proposal = \<lparr>pr_kind = ''update'', pr_name = ''a'', pr_module = ''u'', pr_current = ''1'', pr_latest = ''2'',
     pr_reason = None\<rparr>"

text \<open>C35: A bump the run skips because of its error leaves the repository exactly as it was: whatever fails
  after the first write is no error the run skips, and everything it skips happens before.\<close>

theorem skipped_bump_changes_nothing:
  assumes "apply_bump http sha512 now t p = (t', Inl x)" and "skips x"
  shows "t' = t"
proof (cases "plan_bump http sha512 t p")
  case (Inr bp)
  show ?thesis
  proof (cases "write_spec now p t")
    case t1: (Inr t1)
    show ?thesis
    proof (cases "write_manifest p bp t1")
      case (Inl y)
      with assms \<open>plan_bump http sha512 t p = Inr bp\<close> t1 write_manifest_error show ?thesis
        by (simp add: apply_bump_def)
    next
      case (Inr t2)
      from assms(1) \<open>plan_bump http sha512 t p = Inr bp\<close> t1 Inr
      have "bind_r (text_at (bp_updated bp) ''url'') (retire_fedora_primary (write_inventory bp t2) (pr_name p)) = Inl x"
        by (simp add: apply_bump_def Let_def split: if_splits sum.splits)
      then have "\<not> skips x"
        by (cases "text_at (bp_updated bp) ''url''") (auto dest: text_at_error retire_error)
      with assms(2) show ?thesis by simp
    qed
  qed (use assms Inr in \<open>simp add: apply_bump_def\<close>)
qed (use assms in \<open>simp add: apply_bump_def\<close>)

theorem skipped_bump_changes_nothing_witness:
  "\<exists>x. apply_bump (\<lambda>url. Inl (OSError url)) rev [] (bump_tree ''1'' ''d'') bump_proposal = (bump_tree ''1'' ''d'', Inl x) \<and> skips x"
proof -
  have "snd (apply_bump (\<lambda>url. Inl (OSError url)) rev [] (bump_tree ''1'' ''d'') bump_proposal) = Inl (OSError ''u/2'')"
    by code_simp
  then obtain t' where t': "apply_bump (\<lambda>url. Inl (OSError url)) rev [] (bump_tree ''1'' ''d'') bump_proposal = (t', Inl (OSError ''u/2''))"
    by (metis prod.collapse)
  have skip: "skips (OSError ''u/2'')" by (simp add: skips_def)
  from skipped_bump_changes_nothing [OF t' skip] t' skip show ?thesis by blast
qed

subsection \<open>Facts: what an applied bump writes\<close>

lemma wf_update: "wf_json (JObj e) \<Longrightarrow> wf_json v \<Longrightarrow> wf_json (JObj (AList.update k v e))"
proof -
  assume e: "wf_json (JObj e)" and v: "wf_json v"
  from e v have "list_all (\<lambda>p. wf_json (snd p)) (AList.update k v e)" by (induction e) auto
  with e show ?thesis by simp
qed

lemma wf_put_str: "wf_json (JObj e) \<Longrightarrow> wf_json (JObj (put_str k v e))"
  by (simp add: put_str_def wf_update del: wf_json.simps(2))

lemma wf_delete: "wf_json (JObj e) \<Longrightarrow> wf_json (JObj (AList.delete k e))"
  by (auto simp: list_all_iff AList.delete_eq)

lemma wf_value: "wf_json (JObj e) \<Longrightarrow> map_of e k = Some v \<Longrightarrow> wf_json v"
  by (force simp: list_all_iff dest: map_of_SomeD)

lemma substituted_wf: "wf_json v \<Longrightarrow> substituted swaps v = Inr w \<Longrightarrow> wf_json w"
proof (induction swaps v arbitrary: w rule: substituted.induct)
  case (1 swaps xs)
  then obtain ys where ys: "map_r (substituted swaps) xs = Inr ys" "w = JList ys"
    by (cases "map_r (substituted swaps) xs") auto
  have "wf_json y" if "y \<in> set ys" for y
    using map_r_source [OF ys(1) that] "1.IH" "1.prems"(1) by (auto simp: list_all_iff)
  with ys(2) show ?case by (simp add: list_all_iff)
qed (auto split: if_splits)

lemma substitute_field_wf:
  "wf_json (JObj e) \<Longrightarrow> wf_json (JObj u) \<Longrightarrow> substitute_field e swaps k u = Inr w \<Longrightarrow> wf_json (JObj w)"
  by (auto simp: substitute_field_def bind_r_Inr simp del: wf_json.simps(2)
      dest: wf_value substituted_wf wf_update split: option.splits)

lemma fold_substitute_wf:
  "wf_json (JObj e) \<Longrightarrow> wf_json (JObj u) \<Longrightarrow> fold_r (substitute_field e swaps) ks u = Inr w \<Longrightarrow> wf_json (JObj w)"
proof (induction ks arbitrary: u)
  case (Cons k ks)
  then obtain u' where "substitute_field e swaps k u = Inr u'" "fold_r (substitute_field e swaps) ks u' = Inr w"
    by (cases "substitute_field e swaps k u") auto
  with Cons substitute_field_wf show ?case by blast
qed simp

text \<open>What every new entry is: a well-formed object with the version, the digest and the address it pins.\<close>

definition pins :: "lock \<Rightarrow> string \<Rightarrow> string \<Rightarrow> string \<Rightarrow> bool" where
  "pins u version url digest =
     (wf_json (JObj u) \<and> map_of u ''version'' = Some (JStr version) \<and> map_of u ''url'' = Some (JStr url) \<and>
      map_of u ''sha512'' = Some (JStr digest))"

lemma planned_entry_pins:
  assumes "planned_entry e release digest (Some x) = Inr u" and "x \<noteq> []" and "wf_json (JObj e)"
  shows "pins u (tarball_version release) (gnome_url x (tarball_version release)) digest"
  using assms by (auto simp: planned_entry_def pins_def Let_def put_str_def bind_r_Inr simp del: wf_json.simps(2)
      intro!: wf_update split: if_splits)

lemma text_at_Inr: "text_at e k = Inr s \<longleftrightarrow> map_of e k = Some (JStr s)"
  by (auto simp: text_at_def dict_index_def as_text_def bind_r_Inr split: option.splits json.splits)

lemma substitute_field_map:
  assumes "substitute_field e swaps k u = Inr w"
  shows "j \<noteq> k \<Longrightarrow> map_of w j = map_of u j"
    and "map_of e k = Some (JStr s) \<Longrightarrow> map_of w k = Some (JStr (replace_each swaps s))"
  using assms by (auto simp: substitute_field_def bind_r_Inr split: option.splits)

lemma substituted_fields:
  assumes "fold_r (substitute_field e swaps) url_fields e = Inr u" and "map_of e ''url'' = Some (JStr s)"
  shows "map_of u ''url'' = Some (JStr (replace_each swaps s))"
proof -
  from assms(1) obtain a b c where
    a: "substitute_field e swaps ''url'' e = Inr a" and b: "substitute_field e swaps ''filename'' a = Inr b"
    and c: "substitute_field e swaps ''sha256_url'' b = Inr c" and u: "substitute_field e swaps ''fallback_urls'' c = Inr u"
    by (auto simp: url_fields_def bind_r_Inr)
  have "map_of u ''url'' = map_of c ''url''" by (rule substitute_field_map(1) [OF u]) simp
  also have "\<dots> = map_of b ''url''" by (rule substitute_field_map(1) [OF c]) simp
  also have "\<dots> = map_of a ''url''" by (rule substitute_field_map(1) [OF b]) simp
  finally show ?thesis using substitute_field_map(2) [OF a assms(2)] by simp
qed

lemma replace_all_absent: "\<not> contains a s \<Longrightarrow> replace_all a b s = s"
proof (induction s)
  case (Cons c s)
  then show ?case by (subst replace_all.simps) simp
qed (simp add: replace_all.simps)

lemma forge_planned_entry_pins:
  assumes "forge_planned_entry e release digest = Inr u" and "wf_json (JObj e)"
  obtains current s url where "map_of e ''version'' = Some (JStr current)" "map_of e ''url'' = Some (JStr s)"
    "pins u release url digest"
    "url = replace_all current release s \<or>
     (\<exists>old. map_of e ''sha512'' = Some (JStr old) \<and> contains old (replace_all current release s))"
proof -
  from assms(1) obtain current url0 swaps v where version: "text_at e ''version'' = Inr current"
    and url: "text_get e ''url'' = Inr url0" and "contains current url0" "current \<noteq> []"
    and swaps: "(let v = dict_get e ''sha512'' JNull in
      if truthy v then bind_r (as_text v) (\<lambda>s. Inr [(s, digest)]) else Inr []) = Inr swaps"
    and fold: "fold_r (substitute_field e ((current, release) # swaps)) url_fields e = Inr v"
    and u: "u = put_str ''sha512'' digest (put_str ''version'' release v)"
    unfolding forge_planned_entry_def by (auto simp only: bind_r_Inr split: if_split_asm)
  then have "url0 \<noteq> []" by (cases url0) auto
  with url have s: "map_of e ''url'' = Some (JStr url0)"
    by (auto simp: text_get_def dict_get_def as_text_def split: option.splits json.splits)
  have wf: "wf_json (JObj u)" unfolding u by (intro wf_put_str fold_substitute_wf [OF assms(2) assms(2) fold])
  let ?f = "replace_all current release url0" and ?url = "replace_each ((current, release) # swaps) url0"
  have "pins u release ?url digest"
    using wf substituted_fields [OF fold s] by (simp add: pins_def u put_str_def del: wf_json.simps(2))
  moreover have "?url = ?f \<or> (\<exists>old. map_of e ''sha512'' = Some (JStr old) \<and> contains old ?f)"
  proof (cases "swaps = []")
    case False
    with swaps obtain old where old: "map_of e ''sha512'' = Some (JStr old)" "swaps = [(old, digest)]"
      by (auto simp: Let_def dict_get_def bind_r_Inr as_text_def split: if_splits option.splits json.splits)
    then show ?thesis using replace_all_absent by (auto simp: replace_each_def)
  qed (simp add: replace_each_def)
  ultimately show ?thesis using that version s by (simp add: text_at_Inr)
qed

text \<open>The lock \<open>u\<close> pins bytes the bump fetched: from the address it carries, or else the digest of
  the old lock \<open>e\<close> stands in the address.\<close>

definition pins_fetched :: "http \<Rightarrow> (string \<Rightarrow> string) \<Rightarrow> string \<Rightarrow> lock \<Rightarrow> lock \<Rightarrow> bool" where
  "pins_fetched http sha512 release e u =
     (\<exists>version url fetched bytes. pins u version url (sha512 bytes) \<and> http fetched = Inr bytes \<and>
        version \<in> {release, tarball_version release} \<and>
        (url = fetched \<or> (\<exists>old. map_of e ''sha512'' = Some (JStr old) \<and> contains old fetched)))"

lemma sha512_of_Inr: "sha512_of http sha512 url = Inr d \<longleftrightarrow> (\<exists>bytes. http url = Inr bytes \<and> d = sha512 bytes)"
  by (auto simp: sha512_of_def bind_r_Inr)

lemma substituted_url_Inr:
  assumes "substituted_url e k release = Inr url" and "map_of e ''version'' = Some (JStr current)" and "map_of e k = Some (JStr s)"
  shows "url = replace_all current release s"
  using assms by (simp add: substituted_url_def text_at_def dict_index_def as_text_def split: if_splits)

lemma entry_module_nonempty: "entry_module e = Inr (Some x) \<Longrightarrow> x \<noteq> []"
  by (auto simp: entry_module_def bind_r_Inr module_of_url_def Let_def split: if_splits)

lemma forge_pins_fetched:
  assumes "forge_planned_entry base release digest = Inr u" and "wf_json (JObj base)"
    and "map_of base ''version'' = map_of e ''version''" and "map_of base ''sha512'' = map_of e ''sha512''"
    and "map_of base ''url'' = map_of e k"
    and "substituted_url e k release = Inr url" and "sha512_of http sha512 url = Inr digest"
  shows "pins_fetched http sha512 release e u"
proof -
  from forge_planned_entry_pins [OF assms(1,2)] obtain current s url' where
    cur: "map_of base ''version'' = Some (JStr current)" and s: "map_of base ''url'' = Some (JStr s)"
    and pins: "pins u release url' digest"
    and f: "url' = replace_all current release s \<or>
      (\<exists>old. map_of base ''sha512'' = Some (JStr old) \<and> contains old (replace_all current release s))" .
  have url: "url = replace_all current release s"
    using substituted_url_Inr [OF assms(6)] cur s assms(3,5) by simp
  from assms(7) obtain bytes where "http url = Inr bytes" "digest = sha512 bytes" by (auto simp: sha512_of_Inr)
  with pins f url assms(4) show ?thesis unfolding pins_fetched_def
    by - (rule exI [of _ release], rule exI [of _ url'], rule exI [of _ url], rule exI [of _ bytes], auto)
qed

lemma forge_template_map:
  assumes "forge_template e = Inr base" and "wf_json (JObj e)"
  shows "wf_json (JObj base) \<and> map_of base ''version'' = map_of e ''version'' \<and>
    map_of base ''sha512'' = map_of e ''sha512'' \<and> map_of base ''url'' = map_of e ''feed''"
proof -
  from assms(1) obtain f u us where f: "map_of e ''feed'' = Some f"
    and base: "base = AList.update ''fallback_urls'' (JList (JStr u # map JStr us)) (AList.update ''url'' f e)"
    by (auto simp: forge_template_def bind_r_Inr dict_index_def split: option.splits)
  have "wf_json (JList (JStr u # map JStr us))" by (simp add: list_all_iff)
  with wf_value [OF assms(2) f] assms(2) have "wf_json (JObj base)" unfolding base by (intro wf_update)
  with f base show ?thesis by simp
qed

lemma new_entry_pins:
  assumes "new_entry http sha512 e p = Inr (e', u, digest)" and wf: "wf_json (JObj e)"
  shows "pins_fetched http sha512 (pr_latest p) e u"
proof -
  let ?relock = "pr_kind p = ''relock''" and ?r = "pr_latest p"
  from assms(1) obtain explicit m where
    m: "(if ?relock \<and> pr_module p \<noteq> [] then Inr (Some (pr_module p)) else entry_module e) = Inr m"
    and rest: "(if (case explicit of None \<Rightarrow> False | Some f \<Rightarrow> feed_at f ''forge'' \<notin> {''gnome'', ''anitya''}) then
          bind_r (forge_template e) (\<lambda>base.
          bind_r (substituted_url e ''feed'' ?r) (\<lambda>url.
          bind_r (sha512_of http sha512 url) (\<lambda>digest.
          bind_r (forge_planned_entry base ?r digest) (\<lambda>updated. Inr (e, updated, digest)))))
        else case m of
          Some x \<Rightarrow>
            bind_r (sha512_of http sha512 (gnome_url x (tarball_version ?r))) (\<lambda>digest.
            bind_r (bind_r (text_get e ''url'') (\<lambda>url. bind_r (entry_module e) (\<lambda>own.
              Inr (if ?relock \<and> url \<noteq> [] \<and> own = None then AList.update ''fallback_urls'' (JList [JStr url]) e else e))))
              (\<lambda>e'.
            bind_r (planned_entry e' ?r digest (Some x)) (\<lambda>updated. Inr (e', updated, digest))))
        | None \<Rightarrow>
            bind_r (substituted_url e ''url'' ?r) (\<lambda>url.
            bind_r (sha512_of http sha512 url) (\<lambda>digest.
            bind_r (forge_planned_entry e ?r digest) (\<lambda>updated. Inr (e, updated, digest))))) = Inr (e', u, digest)"
    unfolding new_entry_def Let_def bind_r_Inr by blast
  show ?thesis
  proof (cases "case explicit of None \<Rightarrow> False | Some f \<Rightarrow> feed_at f ''forge'' \<notin> {''gnome'', ''anitya''}")
    case True
    with rest obtain base url where "forge_template e = Inr base" "substituted_url e ''feed'' ?r = Inr url"
      "sha512_of http sha512 url = Inr digest" "forge_planned_entry base ?r digest = Inr u"
      by (auto simp only: if_True bind_r_Inr sum.inject prod.inject)
    with forge_template_map wf forge_pins_fetched show ?thesis by blast
  next
    case False
    show ?thesis
    proof (cases m)
      case None
      with False rest obtain url where "substituted_url e ''url'' ?r = Inr url"
        "sha512_of http sha512 url = Inr digest" "forge_planned_entry e ?r digest = Inr u"
        by (auto simp only: if_False option.case bind_r_Inr sum.inject prod.inject)
      with wf forge_pins_fetched show ?thesis by blast
    next
      case (Some x)
      with False rest obtain url where
        d: "sha512_of http sha512 (gnome_url x (tarball_version ?r)) = Inr digest"
        and e': "e' = AList.update ''fallback_urls'' (JList [JStr url]) e \<or> e' = e"
        and u: "planned_entry e' ?r digest (Some x) = Inr u"
        by (auto simp only: if_False option.case bind_r_Inr sum.inject prod.inject split: if_split_asm)
      have "wf_json (JList [JStr url])" by simp
      then have "wf_json (JObj (AList.update ''fallback_urls'' (JList [JStr url]) e))" using wf by (intro wf_update)
      with e' wf have "wf_json (JObj e')" by blast
      moreover have "x \<noteq> []" using m Some entry_module_nonempty by (auto split: if_splits)
      ultimately have "pins u (tarball_version ?r) (gnome_url x (tarball_version ?r)) digest"
        using planned_entry_pins [OF u] by blast
      with d show ?thesis unfolding pins_fetched_def sha512_of_Inr by blast
    qed
  qed
qed

lemma settled_entry_pins:
  assumes "settled_entry relock e' u = Inr v"
  shows "pins u version url digest \<Longrightarrow> pins v version url digest"
  using assms by (auto simp: settled_entry_def pins_def bind_r_Inr Let_def map_of_delete_if simp del: wf_json.simps(2)
      intro!: wf_delete split: if_splits)

lemma inventory_fields_Inr:
  "inventory_fields t = Inr kvs \<longleftrightarrow> (\<exists>s. map_of t lock_path = Some s \<and> loads s = Inr (JObj kvs))"
proof (cases "map_of t lock_path")
  case (Some s)
  then show ?thesis by (cases "loads s") (auto simp: inventory_fields_def split: json.splits)
qed (simp add: inventory_fields_def)

lemma plan_bump_Inr:
  assumes "plan_bump http sha512 t p = Inr bp"
  obtains kvs es i e where "inventory_fields t = Inr kvs" "inventory_packages kvs = Inr es"
    "index_of_name (pr_name p) es = Inr i" "es ! i = JObj e" "wf_json (JObj kvs)" "i < length es"
    "map_of e ''name'' = Some (JStr (pr_name p))" "pins_fetched http sha512 (pr_latest p) e (bp_updated bp)"
    "bp_document bp = JObj (AList.update ''packages'' (JList (es[i := JObj (bp_updated bp)])) kvs)"
proof -
  from assms obtain kvs es i e e' u d v where kvs: "inventory_fields t = Inr kvs" and es: "inventory_packages kvs = Inr es"
    and i: "index_of_name (pr_name p) es = Inr i" and e: "items_of (es ! i) = Inr e"
    and new: "new_entry http sha512 e p = Inr (e', u, d)" and v: "settled_entry (pr_kind p = ''relock'') e' u = Inr v"
    and bp: "bp_updated bp = v" "bp_document bp = JObj (AList.update ''packages'' (JList (es[i := JObj v])) kvs)"
    by (auto simp: plan_bump_def bind_r_Inr)
  from kvs loads_wf have wf: "wf_json (JObj kvs)" unfolding inventory_fields_Inr by blast
  from e have obj: "es ! i = JObj e" by (auto simp: items_of_def split: json.splits)
  have index: "k < length xs \<and> item (xs ! k) ''name'' = Inr (JStr n)" if "index_of_name n xs = Inr k" for n xs k
    using that by (induction xs arbitrary: k) (auto simp: bind_r_Inr split: if_splits)
  from es have "wf_json (JList es)"
    using wf_value [OF wf, of "''packages''"]
    by (auto simp: inventory_packages_def bind_r_Inr dict_index_def split: option.splits json.splits)
  with index [OF i] obj have wfe: "wf_json (JObj e)" by (metis list_all_length wf_json.simps(1))
  from index [OF i] obj have name: "map_of e ''name'' = Some (JStr (pr_name p))"
    by (simp add: item_def split: option.splits)
  from new_entry_pins [OF new wfe] settled_entry_pins [OF v]
  have "pins_fetched http sha512 (pr_latest p) e v" unfolding pins_fetched_def by blast
  with that kvs es i obj wf index [OF i] name bp show ?thesis by blast
qed

lemma inventory_written:
  assumes "apply_bump http sha512 now t p = (t', Inr u)"
  obtains bp where "plan_bump http sha512 t p = Inr bp" "u = bp_updated bp"
    "map_of t' lock_path = Some (dumps_indent (bp_document bp) @ nl)"
proof -
  from assms obtain bp t1 t2 where bp: "plan_bump http sha512 t p = Inr bp" and t1: "write_spec now p t = Inr t1"
    and t2: "write_manifest p bp t1 = Inr t2"
    by (auto simp: apply_bump_def split: sum.splits)
  have other: "fedora_list_path \<noteq> lock_path" by (simp add: fedora_list_path_def lock_path_def)
  have retire: "map_of t4 lock_path = map_of t3 lock_path" if "retire_fedora_primary t3 name url = Inr t4" for t3 t4 name url
    using that other by (auto simp: retire_fedora_primary_def Let_def bind_r_Inr split: if_splits option.splits)
  from assms bp t1 t2 have "u = bp_updated bp" and "t' = write_inventory bp t2 \<or>
      (\<exists>url. retire_fedora_primary (write_inventory bp t2) (pr_name p) url = Inr t')"
    by (auto simp: apply_bump_def Let_def bind_r_Inr split: sum.splits if_splits)
  then show ?thesis using that bp retire by (auto simp: write_inventory_def)
qed

text \<open>C26: An applied bump changes one entry of the inventory, that of its package, and the file parses back to
  it; the entry carries the release, and its SHA-512 is that of bytes the bump fetched from the very
  address the entry carries (unless that address has the old digest in it).\<close>

theorem applied_bump_pins_fetched_bytes:
  assumes "apply_bump http sha512 now t p = (t', Inr u)"
  shows "\<exists>kvs es i e kvs'. inventory_fields t = Inr kvs \<and> inventory_packages kvs = Inr es \<and> i < length es \<and> es ! i = JObj e \<and>
    map_of e ''name'' = Some (JStr (pr_name p)) \<and> inventory_fields t' = Inr kvs' \<and>
    inventory_packages kvs' = Inr (es[i := JObj u]) \<and> pins_fetched http sha512 (pr_latest p) e u"
proof -
  from inventory_written [OF assms] obtain bp where bp: "plan_bump http sha512 t p = Inr bp" and u: "u = bp_updated bp"
    and stored: "map_of t' lock_path = Some (dumps_indent (bp_document bp) @ nl)" .
  obtain kvs es i e where kvs: "inventory_fields t = Inr kvs" and es: "inventory_packages kvs = Inr es"
    and "index_of_name (pr_name p) es = Inr i" and e: "es ! i = JObj e" and wf: "wf_json (JObj kvs)" and i: "i < length es"
    and name: "map_of e ''name'' = Some (JStr (pr_name p))"
    and pins: "pins_fetched http sha512 (pr_latest p) e u"
    and doc: "bp_document bp = JObj (AList.update ''packages'' (JList (es[i := JObj u])) kvs)"
    by (rule plan_bump_Inr [OF bp, folded u])
  let ?kvs = "AList.update ''packages'' (JList (es[i := JObj u])) kvs"
  have "wf_json (JList es)"
    using es wf_value [OF wf, of "''packages''"]
    by (cases "map_of kvs ''packages''") (auto simp: inventory_packages_def dict_index_def split: json.splits)
  moreover have "wf_json (JObj u)" using pins by (auto simp: pins_fetched_def pins_def simp del: wf_json.simps(2))
  ultimately have "wf_json (JList (es[i := JObj u]))"
    using set_update_subset_insert [of es i "JObj u"] by (auto simp: list_all_iff simp del: wf_json.simps(2))
  with wf have "wf_json (JObj ?kvs)" by (intro wf_update)
  then have "loads (dumps_indent (JObj ?kvs) @ nl) = Inr (JObj ?kvs)"
    using loads_dumps_indent by (simp add: nl_def)
  with stored doc have "inventory_fields t' = Inr ?kvs" by (simp add: inventory_fields_Inr)
  moreover have "inventory_packages ?kvs = Inr (es[i := JObj u])" by (simp add: inventory_packages_def dict_index_def)
  ultimately show ?thesis using kvs es i e name pins by blast
qed

theorem applied_bump_pins_fetched_bytes_witness:
  "\<exists>e u es i kvs'. u = [(''name'', JStr ''a''), (''version'', JStr ''2''), (''url'', JStr ''u/2''), (''sha512'', JStr ''2/u'')] \<and>
     inventory_fields (bump_tree ''2'' ''2/u'') = Inr kvs' \<and> inventory_packages kvs' = Inr (es[i := JObj u]) \<and>
     pins_fetched Inr rev ''2'' e u"
proof -
  let ?u = "[(''name'', JStr ''a''), (''version'', JStr ''2''), (''url'', JStr ''u/2''), (''sha512'', JStr ''2/u'')]"
  have "apply_bump Inr rev [] (bump_tree ''1'' ''d'') bump_proposal = (bump_tree ''2'' ''2/u'', Inr ?u)" by code_simp
  from applied_bump_pins_fetched_bytes [OF this] show ?thesis by (simp add: bump_proposal_def) blast
qed

subsection \<open>Facts: a run\<close>

text \<open>The files a bump may change: the inventory and everything below \<open>packages/\<close>.\<close>

definition same_elsewhere :: "rev_tree \<Rightarrow> rev_tree \<Rightarrow> bool" where
  "same_elsewhere t t' =
     (\<forall>path. path \<noteq> lock_path \<longrightarrow> \<not> starts_with ''packages/'' path \<longrightarrow> map_of t' path = map_of t path)"

lemma same_elsewhere_refl [simp]: "same_elsewhere t t"
  by (simp add: same_elsewhere_def)

lemma same_elsewhere_trans: "same_elsewhere a b \<Longrightarrow> same_elsewhere b c \<Longrightarrow> same_elsewhere a c"
  by (simp add: same_elsewhere_def)

lemma recipe_paths [simp]: "starts_with ''packages/'' (spec_path n)" "starts_with ''packages/'' (manifest_path n)"
  by (simp_all add: spec_path_def manifest_path_def recipe_dir_def)

lemma same_elsewhere_update:
  "path = lock_path \<or> starts_with ''packages/'' path \<Longrightarrow> same_elsewhere t (AList.update path v t)"
  by (auto simp: same_elsewhere_def)

lemma write_spec_elsewhere: "write_spec now p t = Inr t1 \<Longrightarrow> same_elsewhere t t1"
  by (auto simp: write_spec_def Let_def bind_r_Inr same_elsewhere_update split: option.splits)

lemma write_manifest_elsewhere: "write_manifest p bp t = Inr t1 \<Longrightarrow> same_elsewhere t t1"
  by (auto simp: write_manifest_def Let_def bind_r_Inr same_elsewhere_update split: option.splits)

lemma apply_bump_elsewhere:
  assumes "apply_bump http sha512 now t p = (t', r)" and "pr_kind p \<noteq> ''relock''"
  shows "same_elsewhere t t'"
proof (cases "plan_bump http sha512 t p")
  case bp: (Inr bp)
  show ?thesis
  proof (cases "write_spec now p t")
    case t1: (Inr t1)
    note s1 = write_spec_elsewhere [OF t1]
    show ?thesis
    proof (cases "write_manifest p bp t1")
      case (Inr t2)
      have "same_elsewhere t2 (write_inventory bp t2)" by (simp add: write_inventory_def same_elsewhere_update)
      with s1 write_manifest_elsewhere [OF Inr] have "same_elsewhere t (write_inventory bp t2)"
        by (blast intro: same_elsewhere_trans)
      with assms bp t1 Inr show ?thesis by (simp add: apply_bump_def)
    qed (use assms bp t1 s1 in \<open>simp add: apply_bump_def\<close>)
  qed (use assms bp in \<open>simp add: apply_bump_def\<close>)
qed (use assms in \<open>simp add: apply_bump_def\<close>)

lemma run_elsewhere:
  assumes "fold_r (apply_one http sha512 now) ps s = Inr s'" and "\<forall>p \<in> set ps. pr_kind p \<noteq> ''relock''"
  shows "same_elsewhere (br_tree s) (br_tree s') \<and> set (br_applied s') \<subseteq> set (br_applied s) \<union> pr_name ` set ps"
  using assms
proof (induction ps arbitrary: s)
  case (Cons p ps)
  obtain t r where apply_p: "apply_bump http sha512 now (br_tree s) p = (t, r)" by fastforce
  from Cons.prems(1) obtain s1 where s1: "apply_one http sha512 now p s = Inr s1"
    and rest: "fold_r (apply_one http sha512 now) ps s1 = Inr s'" by (auto simp: bind_r_Inr)
  from s1 apply_p have "br_tree s1 = t" "set (br_applied s1) \<subseteq> insert (pr_name p) (set (br_applied s))"
    by (cases r; auto simp: apply_one_def split: if_splits)+
  moreover from Cons.prems(2) apply_p have "same_elsewhere (br_tree s) t"
    using apply_bump_elsewhere by simp
  moreover have "same_elsewhere (br_tree s1) (br_tree s') \<and> set (br_applied s') \<subseteq> set (br_applied s1) \<union> pr_name ` set ps"
    using Cons.IH [OF rest] Cons.prems(2) by simp
  ultimately show ?case using same_elsewhere_trans by auto
qed simp

lemma disallowed_empty:
  assumes "\<forall>p \<in> set ps. p \<in> {lock_path, holds_path} \<or> starts_with ''packages/'' p"
  shows "disallowed ps = []"
proof -
  have "filter (\<lambda>p. p \<noteq> [] \<and> p \<notin> {lock_path, holds_path, multimedia_report} \<and> \<not> starts_with ''packages/'' p) ps = []"
    using assms by (auto simp: filter_empty_conv)
  then show ?thesis by (simp only: disallowed_def) simp
qed

definition daily_tree :: rev_tree where
  "daily_tree = [(lock_path, dumps_indent (JObj [(''packages'', JList [JObj [(''name'', JStr ''a''), (''version'', JStr ''1.0''),
     (''url'', JStr ''https://github.com/o/r/archive/v1.0.tar.gz'')]])]) @ nl)]"

definition daily_http :: http where
  "daily_http url = (if url = ''https://api.github.com/repos/o/r/releases?per_page=100''
     then Inr (dumps_default (JList [JObj [(''tag_name'', JStr ''v1.1'')], JObj [(''tag_name'', JStr ''v2.0'')]])) else Inr url)"

text \<open>C24: An unattended run (no package named) relocks nothing, applies no bump of a package on the
  review-only list, and changes no file the bump gate would refuse to see changed.\<close>

theorem daily_run_passes_gate:
  assumes "bump_all http sha512 now writes [] cycle t = Inr (n, s, relock)"
  shows "\<not> relock \<and> set (br_applied s) \<inter> set (parse_review_only (map_of t review_only_path)) = {} \<and>
    disallowed (filter (\<lambda>path. map_of (br_tree s) path \<noteq> map_of t path) paths) = []"
proof -
  from assms obtain locks ps holds b s0 where plan: "plan_bumps http locks [] cycle = Inr ps"
    and split: "split_bumps ps (parse_review_only (map_of t review_only_path)) holds = Inr b"
    and run: "fold_r (apply_one http sha512 now) (if writes then bs_apply b else [])
         \<lparr>br_tree = t, br_applied = [], br_skipped = [], br_holds = holds, br_retired = False\<rparr> = Inr s0"
    and s: "s = (if br_retired s0 then s0\<lparr>br_tree := AList.update holds_path (dump_holds (br_holds s0)) (br_tree s0)\<rparr> else s0)"
    and relock: "relock = list_ex (\<lambda>p. pr_kind p = ''relock'') (bs_apply b)"
    unfolding bump_all_def by (auto simp only: bind_r_Inr sum.inject prod.inject)
  have no_relock: "pr_kind p \<noteq> ''relock''" if "p \<in> set (bs_apply b)" for p
    using split_bumps_apply [OF split that] planned_move_safe [OF plan, of p] by auto
  then have "\<not> relock" by (auto simp: relock list_ex_iff)
  moreover have same: "same_elsewhere t (br_tree s0)" and applied: "set (br_applied s0) \<subseteq> pr_name ` set (bs_apply b)"
    using run_elsewhere [OF run] no_relock by (auto split: if_splits)
  moreover have "pr_name p \<notin> set (parse_review_only (map_of t review_only_path))" if "p \<in> set (bs_apply b)" for p
    using split_bumps_apply [OF split that] no_relock [OF that] by simp
  moreover have "br_applied s = br_applied s0" by (simp add: s)
  moreover have "path \<in> {lock_path, holds_path} \<or> starts_with ''packages/'' path"
    if "map_of (br_tree s) path \<noteq> map_of t path" for path
    using that same by (auto simp: s same_elsewhere_def split: if_splits)
  then have "disallowed (filter (\<lambda>path. map_of (br_tree s) path \<noteq> map_of t path) paths) = []"
    by (intro disallowed_empty) auto
  ultimately show ?thesis by auto
qed

theorem daily_run_passes_gate_witness:
  "\<exists>s :: bump_run. br_applied s = [''a''] \<and> set (br_applied s) \<inter> set (parse_review_only (Some ''b'')) = {} \<and>
     disallowed (filter (\<lambda>path. map_of (br_tree s) path \<noteq> map_of ((review_only_path, ''b'') # daily_tree) path)
       [lock_path, review_only_path]) = []"
proof -
  have "map_sum id (\<lambda>(n, s, r). br_applied s) (bump_all daily_http rev [] True [] [] ((review_only_path, ''b'') # daily_tree)) =
      Inr [''a'']" by code_simp
  then obtain n s r where run: "bump_all daily_http rev [] True [] [] ((review_only_path, ''b'') # daily_tree) = Inr (n, s, r)"
    and s: "br_applied s = [''a'']"
    by (cases "bump_all daily_http rev [] True [] [] ((review_only_path, ''b'') # daily_tree)") auto
  have "map_of ((review_only_path, ''b'') # daily_tree) review_only_path = Some ''b''" by simp
  note passes = daily_run_passes_gate [OF run, of "[lock_path, review_only_path]", unfolded this]
  show ?thesis by (rule exI [of _ s], rule conjI, rule s, rule conjunct2 [OF passes])
qed

end
