(* ===== verification/Source_Pipeline.thy ===== *)
theory Source_Pipeline
  imports Py_Effects Upstream_Apply Release_Order
begin

section \<open>Fetching and verifying sources (\<open>source_pipeline.py\<close>)\<close>

text \<open>
  A source is downloaded, or generated, next to its place, hashed against the lock, and only then put
  into place; every further check runs on the candidate. The state is the files below the working
  directory, the directories and the number of requests made; what the network answers to the \<open>n\<close>-th
  request, the digests, \<open>gpg\<close>, the generator scripts, the clock and the text of an exception are
  arguments. Waiting between two attempts is left out.
\<close>

subsection \<open>The world\<close>

record world =
  w_files :: "(string, string) dict"
  w_dirs :: "string list"
  w_requests :: nat

text \<open>What opening an address comes to: no response, a body that breaks off, or a body with its content
  type; a transport failure is one of the exceptions \<open>fetch\<close> retries.\<close>

datatype failure = Transport string | Elsewise error

datatype answer = No_Response failure | Cut_Off string failure | Served string string

record outside =
  o_net :: "nat \<Rightarrow> string \<Rightarrow> answer"
  o_sha512 :: "string \<Rightarrow> string"
  o_sha256 :: "string \<Rightarrow> string"
  o_gpg_import :: "string \<Rightarrow> bool"
  o_gpg_verify :: "string \<Rightarrow> string \<Rightarrow> string \<Rightarrow> bool"
  o_generate :: "string \<Rightarrow> string \<Rightarrow> (string, string) dict \<Rightarrow> (string, string) dict result"
  o_shown :: "error \<Rightarrow> string"
  o_now :: string

definition slash :: "string \<Rightarrow> string \<Rightarrow> string" where
  "slash d n = d @ ''/'' @ n"

definition content :: "world \<Rightarrow> string \<Rightarrow> string option" where
  "content w path = map_of (w_files w) path"

definition is_file :: "world \<Rightarrow> string \<Rightarrow> bool" where
  "is_file w path = (content w path \<noteq> None)"

definition put_file :: "string \<Rightarrow> string \<Rightarrow> world \<Rightarrow> world" where
  "put_file path bytes w = w\<lparr>w_files := AList.update path bytes (w_files w)\<rparr>"

definition unlink_file :: "string \<Rightarrow> world \<Rightarrow> world" where
  "unlink_file path w = w\<lparr>w_files := AList.delete path (w_files w)\<rparr>"

definition make_dir :: "string \<Rightarrow> world \<Rightarrow> world" where
  "make_dir path w = w\<lparr>w_dirs := set_add path (w_dirs w)\<rparr>"

definition read_file :: "string \<Rightarrow> (world, string) io" where
  "read_file path = reads (\<lambda>w. case content w path of None \<Rightarrow> Inl (OSError path) | Some b \<Rightarrow> Inr b)"

text \<open>\<open>Path.replace\<close>.\<close>

definition move_file :: "string \<Rightarrow> string \<Rightarrow> (world, unit) io" where
  "move_file a b = bind_io (read_file a) (\<lambda>bytes. change (\<lambda>w. if a = b then w else put_file b bytes (unlink_file a w)))"

subsection \<open>One address\<close>

definition fetch_attempts :: nat where
  "fetch_attempts = 3"

definition url_path :: "string \<Rightarrow> string" where
  "url_path url =
     (let r = after_scheme url;
          p = (if starts_with ''//'' r then dropWhile (\<lambda>c. c \<notin> set ''/?#'') (drop 2 r) else r) in
      takeWhile (\<lambda>c. c \<notin> set ''?#'') p)"

definition html_path :: "string \<Rightarrow> bool" where
  "html_path url = (ends_with ''.html'' (url_path url) \<or> ends_with ''.htm'' (url_path url))"

text \<open>One pass through the loop of \<open>fetch\<close>: none when the file was fetched, the last error when it is
  to be tried again.\<close>

definition failed_with :: "failure \<Rightarrow> (world, string option) io" where
  "failed_with f = (case f of Transport s \<Rightarrow> ret (Some s) | Elsewise e \<Rightarrow> throw e)"

definition attempt :: "outside \<Rightarrow> string \<Rightarrow> string \<Rightarrow> (world, string option) io" where
  "attempt env url dest =
     bind_io (reads (\<lambda>w. Inr (o_net env (w_requests w) url))) (\<lambda>a.
     bind_io (change (\<lambda>w. w\<lparr>w_requests := Suc (w_requests w)\<rparr>)) (\<lambda>_.
       case a of
         No_Response f \<Rightarrow> failed_with f
       | Cut_Off part f \<Rightarrow> bind_io (change (put_file dest part)) (\<lambda>_. failed_with f)
       | Served kind body \<Rightarrow> bind_io (change (put_file dest body)) (\<lambda>_.
           if body = [] then ret (Some (url @ '' returned an empty body''))
           else if kind = ''text/html'' \<and> \<not> html_path url
             then throw (RuntimeError (url @ '' returned an HTML page instead of the file''))
           else ret None)))"

fun fetch_loop :: "outside \<Rightarrow> string \<Rightarrow> string \<Rightarrow> nat \<Rightarrow> string \<Rightarrow> (world, unit) io" where
  "fetch_loop env url dest 0 last_error = throw (RuntimeError (concat
     [''failed to fetch '', url, '' after '', show_nat fetch_attempts, '' attempts: '', last_error]))"
| "fetch_loop env url dest (Suc n) last_error =
     bind_io (attempt env url dest) (\<lambda>r. case r of None \<Rightarrow> ret () | Some e \<Rightarrow> fetch_loop env url dest n e)"

definition fetch :: "outside \<Rightarrow> string \<Rightarrow> string \<Rightarrow> (world, unit) io" where
  "fetch env url dest = fetch_loop env url dest fetch_attempts ''None''"

fun fetch_with_fallbacks :: "outside \<Rightarrow> string list \<Rightarrow> string \<Rightarrow> string list \<Rightarrow> (world, string) io" where
  "fetch_with_fallbacks env [] dest errors =
     throw (RuntimeError (''all source URLs failed: '' @ join ''; '' errors))"
| "fetch_with_fallbacks env (url # urls) dest errors =
     bind_io (try_io (bind_io (fetch env url dest) (\<lambda>_. ret None))
         (\<lambda>e. case e of RuntimeError s \<Rightarrow> ret (Some (concat [url, '': '', s])) | _ \<Rightarrow> throw e))
       (\<lambda>r. case r of None \<Rightarrow> ret url | Some s \<Rightarrow> fetch_with_fallbacks env urls dest (errors @ [s]))"

subsection \<open>Checks on a fetched file\<close>

definition check_io :: "error \<Rightarrow> bool \<Rightarrow> (world, unit) io" where
  "check_io e b = (if b then ret () else throw e)"

definition of_result :: "'a result \<Rightarrow> (world, 'a) io" where
  "of_result r = reads (\<lambda>_. r)"

definition verify_signature :: "outside \<Rightarrow> lock \<Rightarrow> string \<Rightarrow> string \<Rightarrow> (world, unit) io" where
  "verify_signature env e target dir =
     (let key = dict_get e ''gpg_key'' JNull; url = dict_get e ''signature_url'' JNull;
          signature = slash dir (path_name target @ ''.asc'') in
      bind_io (check_io (ValueError ''gpg_key and signature_url must be configured together'') (truthy key = truthy url)) (\<lambda>_.
        if \<not> truthy key then ret ()
        else bind_io (of_result (as_text url)) (\<lambda>u.
          bind_io (fetch env u signature) (\<lambda>_.
          bind_io (of_result (as_text key)) (\<lambda>k.
          bind_io (reads (\<lambda>w. if is_file w k then Inr () else Inl (ValueError (''configured GPG key does not exist: '' @ k)))) (\<lambda>_.
          bind_io (read_file k) (\<lambda>key_text.
          bind_io (check_io CalledProcessError (o_gpg_import env key_text)) (\<lambda>_.
          bind_io (read_file signature) (\<lambda>s.
          bind_io (read_file target) (\<lambda>data.
            check_io CalledProcessError (o_gpg_verify env key_text s data)))))))))))"

definition lookasides :: "(string, string) dict" where
  "lookasides = [(''fedora'', ''https://src.fedoraproject.org/repo/pkgs/rpms/''),
     (''rpmfusion-free'', ''https://pkgs.rpmfusion.org/repo/pkgs/free/'')]"

definition lookaside_url :: "string \<Rightarrow> string \<Rightarrow> string \<Rightarrow> string \<Rightarrow> string result" where
  "lookaside_url service package filename hash =
     bind_r (dict_index lookasides service) (\<lambda>base.
       Inr (concat [base, package, ''/'', filename, ''/sha512/'', hash, ''/'', filename]))"

text \<open>\<open>SHA512_SOURCES_LINE.fullmatch\<close>.\<close>

definition sha512_line :: "string \<Rightarrow> (string \<times> string) option" where
  "sha512_line s =
     (let w = word_at (drop 8 s); e = drop (length w) (drop 8 s) in
      if starts_with ''SHA512 ('' s \<and> 2 \<le> length w \<and> last w = CHR '')'' \<and> starts_with '' = '' e \<and>
         length (drop 3 e) = 128 \<and> list_all is_hex (drop 3 e)
      then Some (butlast w, drop 3 e) else None)"

definition manifest_entries :: "string option \<Rightarrow> (string \<times> string) list" where
  "manifest_entries manifest = (case manifest of
      None \<Rightarrow> []
    | Some s \<Rightarrow> List.map_filter (\<lambda>l. sha512_line (strip l)) (splitlines s))"

definition source_manifest :: "string \<Rightarrow> (world, (string \<times> string) list) io" where
  "source_manifest name = reads (\<lambda>w. Inr (manifest_entries (content w (manifest_path name))))"

definition mismatch :: "string \<Rightarrow> string \<Rightarrow> string \<Rightarrow> error" where
  "mismatch what expected actual =
     ValueError (concat [''SHA-512 mismatch'', what, '': expected '', expected, '', got '', actual])"

text \<open>The candidate is removed before the error is raised.\<close>

definition fetch_bundled :: "outside \<Rightarrow> lock \<Rightarrow> string \<Rightarrow> string \<Rightarrow> string \<times> string \<Rightarrow> (world, string) io" where
  "fetch_bundled env e name dir = (\<lambda>(filename, expected).
     let candidate = slash dir (filename @ ''.candidate'') in
     bind_io (of_result (as_text (dict_get e ''lookaside'' (JStr ''fedora'')))) (\<lambda>service.
     bind_io (of_result (py_str (dict_get e ''dist_git_name'' (JStr name)))) (\<lambda>package.
     bind_io (of_result (lookaside_url service package filename expected)) (\<lambda>url.
     bind_io (fetch env url candidate) (\<lambda>_.
     bind_io (read_file candidate) (\<lambda>bytes.
       if o_sha512 env bytes \<noteq> expected
       then bind_io (change (unlink_file candidate)) (\<lambda>_. throw (mismatch ('' for '' @ filename) expected (o_sha512 env bytes)))
       else bind_io (move_file candidate (slash dir filename)) (\<lambda>_. ret filename)))))))"

definition bundled_sources :: "outside \<Rightarrow> lock \<Rightarrow> string \<Rightarrow> string \<Rightarrow> string \<Rightarrow> (world, string list) io" where
  "bundled_sources env e name dir already =
     bind_io (source_manifest name) (\<lambda>entries.
       map_io (fetch_bundled env e name dir) (filter (\<lambda>p. fst p \<noteq> already) entries))"

subsection \<open>Generated sources\<close>

text \<open>The script is run in an empty scratch directory and leaves its files there.\<close>

definition below_dir :: "string \<Rightarrow> string \<Rightarrow> bool" where
  "below_dir dir path = starts_with (dir @ ''/'') path"

definition run_script :: "outside \<Rightarrow> string \<Rightarrow> string \<Rightarrow> string \<Rightarrow> (world, unit) io" where
  "run_script env script name scratch =
     bind_io (reads (\<lambda>w. o_generate env script name (w_files w))) (\<lambda>made.
       change (\<lambda>w. w\<lparr>w_files := fold (\<lambda>(f, b). AList.update (slash scratch f) b) made (w_files w)\<rparr>))"

definition demand :: "(world \<Rightarrow> bool) \<Rightarrow> string \<Rightarrow> (world, unit) io" where
  "demand f message = reads (\<lambda>w. if f w then Inr () else Inl (ValueError message))"

definition generate_source :: "outside \<Rightarrow> lock \<Rightarrow> string \<Rightarrow> (world, string) io" where
  "generate_source env e dir =
     bind_io (of_result (text_at e ''name'')) (\<lambda>name.
     bind_io (of_result (bind_r (bind_r (dict_index e ''generate'') (\<lambda>g. item g ''script'')) as_text)) (\<lambda>script.
     bind_io (demand (\<lambda>w. is_file w script) (''generation script does not exist: '' @ script)) (\<lambda>_.
     bind_io (check_io (ValueError (concat [''generated source entry for '', name, '' requires a filename'']))
       (truthy (dict_get e ''filename'' JNull))) (\<lambda>_.
     bind_io (demand (\<lambda>w. recipe_dir name \<in> set (w_dirs w)) (''package recipe directory does not exist: '' @ recipe_dir name))
       (\<lambda>_.
     let scratch = slash dir ''.generate'' in
     bind_io (change (\<lambda>w. make_dir scratch (w\<lparr>w_files := filter (\<lambda>(p, _). \<not> below_dir scratch p) (w_files w)\<rparr>))) (\<lambda>_.
     bind_io (run_script env script name scratch) (\<lambda>_.
     bind_io (of_result (text_at e ''filename'')) (\<lambda>filename.
     bind_io (demand (\<lambda>w. is_file w (slash scratch filename)) (''generation did not produce '' @ filename)) (\<lambda>_.
       ret (slash scratch filename))))))))))"

subsection \<open>Staging\<close>

definition lower :: "string \<Rightarrow> string" where
  "lower s = map ascii_lower s"

text \<open>\<open>shutil.copy2\<close> onto the file itself raises.\<close>

definition copy_file :: "string \<Rightarrow> string \<Rightarrow> (world, unit) io" where
  "copy_file a b =
     bind_io (read_file a) (\<lambda>bytes.
     bind_io (check_io (OSError (concat [a, '' and '', b, '' are the same file''])) (a \<noteq> b)) (\<lambda>_.
       change (put_file b bytes)))"

definition stage_one :: "string \<Rightarrow> string \<Rightarrow> (world, string) io" where
  "stage_one dir source =
     (let dest = slash dir (path_name source) in bind_io (copy_file source dest) (\<lambda>_. ret dest))"

definition stage_for_packit :: "lock \<Rightarrow> string list \<Rightarrow> string \<Rightarrow> (world, string list) io" where
  "stage_for_packit e sources root =
     bind_io (of_result (text_at e ''name'')) (\<lambda>name.
     bind_io (demand (\<lambda>w. slash root name \<in> set (w_dirs w))
       (''package recipe directory does not exist: '' @ slash root name)) (\<lambda>_.
       map_io (stage_one (slash root name)) sources))"

text \<open>\<open>{filename: sha512, **dict(manifest)}\<close>: the manifest's digest of a file counts.\<close>

definition expected_sources :: "string \<Rightarrow> string \<Rightarrow> (string \<times> string) list \<Rightarrow> (string, string) dict" where
  "expected_sources filename hash entries = dict_of_pairs ((filename, hash) # entries)"

definition verify_one :: "outside \<Rightarrow> string \<Rightarrow> string \<times> string \<Rightarrow> (world, string) io" where
  "verify_one env dir = (\<lambda>(filename, expected).
     let source = slash dir filename in
     bind_io (demand (\<lambda>w. is_file w source) (''staged source does not exist: '' @ source)) (\<lambda>_.
     bind_io (read_file source) (\<lambda>bytes.
     bind_io (check_io (mismatch ('' for '' @ source) expected (o_sha512 env bytes)) (o_sha512 env bytes = expected)) (\<lambda>_.
       ret source))))"

definition verify_staged_sources :: "outside \<Rightarrow> lock \<Rightarrow> string \<Rightarrow> (world, string list) io" where
  "verify_staged_sources env e root =
     bind_io (of_result (text_at e ''name'')) (\<lambda>name.
       if truthy (dict_get e ''no_upstream_source'' JNull) then ret []
       else bind_io (of_result (text_get e ''filename'')) (\<lambda>filename.
         bind_io (of_result (text_at e ''sha512'')) (\<lambda>hash.
         bind_io (source_manifest name) (\<lambda>entries.
           map_io (verify_one env (slash root name))
             (filter (\<lambda>p. fst p \<noteq> []) (expected_sources filename (lower hash) entries))))))"

subsection \<open>One package\<close>

record fetch_config =
  fc_output :: string
  fc_reports :: string
  fc_stage :: "string option"

text \<open>\<open>template.format(version=v)\<close> where only \<open>{version}\<close> and doubled braces occur.\<close>

fun format_version :: "string \<Rightarrow> string \<Rightarrow> string result" where
  "format_version v [] = Inr []"
| "format_version v (c # cs) =
     (if c = CHR 0x7B \<and> starts_with [CHR 0x7B] cs then bind_r (format_version v (tl cs)) (\<lambda>r. Inr (c # r))
      else if c = CHR 0x7D \<and> starts_with [CHR 0x7D] cs then bind_r (format_version v (tl cs)) (\<lambda>r. Inr (c # r))
      else if c = CHR 0x7B \<and> starts_with (''version'' @ [CHR 0x7D]) cs
        then bind_r (format_version v (drop 8 cs)) (\<lambda>r. Inr (v @ r))
      else if c = CHR 0x7B \<or> c = CHR 0x7D then Inl Unmodelled
      else bind_r (format_version v cs) (\<lambda>r. Inr (c # r)))"

text \<open>Where the bytes come from: an address, or none for a generated source.\<close>

definition source_url :: "lock \<Rightarrow> string option result" where
  "source_url e =
     (let generate = dict_get e ''generate'' JNull in
      if generate \<noteq> JNull then
        (if dict_has e ''url'' \<or> dict_has e ''url_template'' \<or> truthy (dict_get e ''fallback_urls'' JNull)
         then bind_r (bind_r (dict_index e ''name'') py_str) (\<lambda>name. Inl (SystemExit (concat
           [''invalid generated-source entry for '', name, '': must not carry url/url_template/fallback_urls''])))
         else if \<not> truthy (dict_get e ''filename'' JNull)
         then Inl (SystemExit ''invalid generated-source entry: require filename'')
         else Inr None)
      else if dict_has e ''url'' then bind_r (text_at e ''url'') (\<lambda>u. Inr (Some u))
      else if dict_has e ''url_template'' \<and> dict_has e ''version'' then
        bind_r (text_at e ''url_template'') (\<lambda>t. bind_r (bind_r (dict_index e ''version'') py_str) (\<lambda>v.
          bind_r (format_version v t) (\<lambda>u. Inr (Some u))))
      else Inl (SystemExit ''invalid direct-source entry: require url or url_template plus version''))"

text \<open>\<open>Path(urlparse(url).path).name\<close>; \<open>urlparse\<close> cuts the parameters off the last segment.\<close>

definition url_file :: "string \<Rightarrow> string" where
  "url_file url =
     (let p = url_path url; last_segment = last (split_on CHR ''/'' p);
          cut = take (length p - length last_segment) p @ before CHR '';'' last_segment in
      path_name cut)"

definition target_name :: "lock \<Rightarrow> string \<Rightarrow> string option \<Rightarrow> string result" where
  "target_name e name url =
     (let given = dict_get e ''filename'' JNull in
      if truthy given then as_text given
      else (case url of
          None \<Rightarrow> Inl Unmodelled
        | Some u \<Rightarrow> Inr (if url_file u \<noteq> [] then url_file u else name @ ''.source'')))"

definition string_list :: "json \<Rightarrow> bool" where
  "string_list v = (case v of
      JList xs \<Rightarrow> list_all (\<lambda>x. case x of JStr s \<Rightarrow> s \<noteq> [] | _ \<Rightarrow> False) xs
    | _ \<Rightarrow> False)"

type_synonym report = "(string, json) dict"

text \<open>The file of the lock: fetched or generated into the candidate.\<close>

definition obtain_source :: "outside \<Rightarrow> lock \<Rightarrow> string \<Rightarrow> string option \<Rightarrow> string \<Rightarrow> (world, string) io" where
  "obtain_source env e dir url candidate =
     (case url of
        None \<Rightarrow> bind_io (generate_source env e dir) (\<lambda>produced.
          bind_io (move_file produced candidate) (\<lambda>_.
          of_result (bind_r (bind_r (bind_r (dict_index e ''generate'') (\<lambda>g. item g ''script'')) py_str)
            (\<lambda>s. Inr (''generated:'' @ s)))))
      | Some u \<Rightarrow> bind_io (of_result (fallbacks e)) (\<lambda>others. fetch_with_fallbacks env (u # others) candidate []))"

definition check_sha256 :: "outside \<Rightarrow> lock \<Rightarrow> string \<Rightarrow> string \<Rightarrow> (world, unit) io" where
  "check_sha256 env e dir candidate =
     (let url = dict_get e ''sha256_url'' JNull; sums = slash dir ''upstream.sha256'' in
      if \<not> truthy url then ret ()
      else bind_io (of_result (as_text url)) (\<lambda>u.
        bind_io (fetch env u sums) (\<lambda>_.
        bind_io (read_file candidate) (\<lambda>bytes.
        bind_io (read_file sums) (\<lambda>listing.
          check_io (ValueError ''download is absent from the upstream SHA-256 manifest'')
            (contains (o_sha256 env bytes) listing))))))"

text \<open>From the candidate to the accepted file; the resolved address and the bundled files.\<close>

definition accept_source :: "outside \<Rightarrow> lock \<Rightarrow> string \<Rightarrow> string \<Rightarrow> string \<Rightarrow> string \<Rightarrow> string option \<Rightarrow>
    (world, string \<times> string list) io" where
  "accept_source env e name dir filename expected url =
     (let candidate = slash dir (filename @ ''.candidate'') in
      bind_io (obtain_source env e dir url candidate) (\<lambda>resolved.
      bind_io (read_file candidate) (\<lambda>bytes.
      bind_io (check_io (mismatch [] expected (o_sha512 env bytes)) (o_sha512 env bytes = expected)) (\<lambda>_.
      bind_io (verify_signature env e candidate dir) (\<lambda>_.
      bind_io (check_sha256 env e dir candidate) (\<lambda>_.
      bind_io (move_file candidate (slash dir filename)) (\<lambda>_.
      bind_io (bundled_sources env e name dir filename) (\<lambda>bundled.
        ret (resolved, bundled)))))))))"

definition verification_kind :: "lock \<Rightarrow> string" where
  "verification_kind e =
     (if truthy (dict_get e ''signature_url'' JNull) then ''signature''
      else if truthy (dict_get e ''sha256_url'' JNull) then ''sha256-manifest'' else ''sha512'')"

definition accepted_report :: "lock \<Rightarrow> string \<Rightarrow> string \<Rightarrow> string \<Rightarrow> string list \<Rightarrow> report \<Rightarrow> report" where
  "accepted_report e hash path resolved bundled r =
     (let kind = verification_kind e;
          r' = fold (\<lambda>(k, v). AList.update k v)
            [(''result'', JStr ''accepted''), (''sha512'', JStr hash), (''file'', JStr path),
             (''resolved_url'', JStr resolved), (''verification'', JStr kind),
             (''checksum_only'', JBool (kind \<noteq> ''signature''))] r in
      if bundled = [] then r' else AList.update ''bundled'' (JList (map JStr bundled)) r')"

text \<open>\<open>except Exception\<close>: the candidate is removed and the report says why.\<close>

definition reject :: "outside \<Rightarrow> string \<Rightarrow> report \<Rightarrow> error \<Rightarrow> (world, bool \<times> report) io" where
  "reject env candidate r e =
     (case e of
        SystemExit _ \<Rightarrow> throw e
      | _ \<Rightarrow> bind_io (change (unlink_file candidate)) (\<lambda>_. ret (False,
          AList.update ''error'' (JStr (o_shown env e)) (AList.update ''result'' (JStr ''rejected'') r))))"

definition fetch_package :: "outside \<Rightarrow> fetch_config \<Rightarrow> lock \<Rightarrow> string \<Rightarrow> string \<Rightarrow> string \<Rightarrow> string option \<Rightarrow> report \<Rightarrow>
    (world, bool \<times> report) io" where
  "fetch_package env cfg e name filename expected url r =
     (let dir = slash (fc_output cfg) name; final = slash dir filename; candidate = slash dir (filename @ ''.candidate'') in
      try_io
        (bind_io (accept_source env e name dir filename expected url) (\<lambda>(resolved, bundled).
          let accepted = accepted_report e expected final resolved bundled r in
          case fc_stage cfg of
            None \<Rightarrow> ret (True, accepted)
          | Some root \<Rightarrow> try_io
              (bind_io (stage_for_packit e (final # map (slash dir) bundled) root) (\<lambda>staged.
                ret (True, AList.update ''staged'' (JList (map JStr staged)) accepted)))
              (reject env candidate accepted)))
        (reject env candidate r))"

definition forbidden_without_source :: "string list" where
  "forbidden_without_source = [''url'', ''url_template'', ''sha512'', ''fallback_urls'', ''generate'']"

definition sourceless_package :: "outside \<Rightarrow> fetch_config \<Rightarrow> lock \<Rightarrow> (world, bool \<times> report) io" where
  "sourceless_package env cfg e =
     bind_io (of_result (text_at e ''name'')) (\<lambda>name.
       case filter (dict_has e) forbidden_without_source of
         k # _ \<Rightarrow> throw (SystemExit (concat [name, '': a no_upstream_source entry must not carry '', k]))
       | [] \<Rightarrow> bind_io (change (make_dir (slash (fc_output cfg) name))) (\<lambda>_.
           ret (True, [(''package'', JStr name), (''checked_at'', JStr (o_now env)), (''result'', JStr ''accepted''),
             (''no_upstream_source'', JBool True)])))"

definition missing_keys :: "lock \<Rightarrow> string list" where
  "missing_keys e = filter (\<lambda>k. \<not> dict_has e k) [''name'', ''sha512'']"

definition process_package :: "outside \<Rightarrow> fetch_config \<Rightarrow> lock \<Rightarrow> (world, bool \<times> report) io" where
  "process_package env cfg e =
     (if truthy (dict_get e ''no_upstream_source'' JNull) then sourceless_package env cfg e
      else if missing_keys e \<noteq> [] then
        throw (SystemExit (''invalid direct-source entry: missing '' @ join '', '' (missing_keys e)))
      else
        bind_io (of_result (source_url e)) (\<lambda>url.
        bind_io (of_result (text_at e ''name'')) (\<lambda>name.
        bind_io (of_result (text_at e ''sha512'')) (\<lambda>hash.
        bind_io (change (make_dir (slash (fc_output cfg) name))) (\<lambda>_.
        bind_io (of_result (target_name e name url)) (\<lambda>filename.
          if dict_get e ''generate'' JNull = JNull \<and> \<not> string_list (dict_get e ''fallback_urls'' (JList []))
          then throw (SystemExit ''invalid direct-source entry: fallback_urls must be a list of non-empty URLs'')
          else fetch_package env cfg e name filename (lower hash) url
            ([(''package'', JStr name), (''checked_at'', JStr (o_now env))] @
              (case url of None \<Rightarrow> [] | Some u \<Rightarrow> [(''url'', JStr u)]))))))))"

definition write_report :: "fetch_config \<Rightarrow> report \<Rightarrow> world \<Rightarrow> world" where
  "write_report cfg r w =
     put_file (slash (fc_reports cfg) ((case dict_get r ''package'' JNull of JStr n \<Rightarrow> n | _ \<Rightarrow> []) @ ''.json''))
       (dumps_indent (canonical (JObj r)) @ nl) (make_dir (fc_reports cfg) w)"

text \<open>The exit status and the reports.\<close>

definition fetch_all :: "outside \<Rightarrow> fetch_config \<Rightarrow> lock list \<Rightarrow> (world, nat \<times> report list) io" where
  "fetch_all env cfg es =
     bind_io (map_io (\<lambda>e. bind_io (process_package env cfg e) (\<lambda>(ok, r).
         bind_io (change (write_report cfg r)) (\<lambda>_. ret (ok, r)))) es) (\<lambda>rs.
       ret (if list_all fst rs then 0 else 1, map snd rs))"

definition selected_locks :: "(string, lock) dict \<Rightarrow> string option \<Rightarrow> lock list result" where
  "selected_locks locks name =
     (case name of
        None \<Rightarrow> Inr (map snd locks)
      | Some n \<Rightarrow> (case map_of locks n of
            None \<Rightarrow> Inl (SystemExit (''package is not configured for direct upstream tracking: '' @ n))
          | Some e \<Rightarrow> Inr [e]))"

text \<open>The command: verify what is staged, or fetch; the exit status.\<close>

definition source_main :: "outside \<Rightarrow> fetch_config \<Rightarrow> string option \<Rightarrow> (string, lock) dict \<Rightarrow> string option \<Rightarrow> (world, nat) io" where
  "source_main env cfg verify locks name =
     bind_io (of_result (selected_locks locks name)) (\<lambda>es.
       case verify of
         Some root \<Rightarrow> bind_io (map_io (\<lambda>e. verify_staged_sources env e root) es) (\<lambda>_. ret 0)
       | None \<Rightarrow> bind_io (fetch_all env cfg es) (\<lambda>(status, _). ret status))"

end
