(* ===== verification/Validate.thy ===== *)
theory Validate
  imports Buildroot_Lock Suppressed_Tests Source_Pipeline
begin

section \<open>The repository contract (\<open>validate.py\<close>)\<close>

text \<open>
  What every pull request has to satisfy, over a checkout given as its files: the provenance of each recipe,
  the build root lock against the pin, the source lock (no new payload from Fedora, no plaintext address,
  name order, no unknown review-only name), the \<open>sources\<close> manifests, the suppressed tests and the
  inventory. \<open>SystemExit\<close> is an error; a message that shows the repr of a value is cut before it.
\<close>

subsection \<open>Recipes\<close>

text \<open>The directories below \<open>packages/\<close> that hold files.\<close>

definition recipe_dirs :: "rev_tree \<Rightarrow> string list" where
  "recipe_dirs t = sorted_set (List.map_filter (\<lambda>(path, _). recipe_of path) t)"

definition provenance_path :: "string \<Rightarrow> string" where
  "provenance_path d = concat [''packages/'', d, ''/.hummingbird-upstream.json'']"

definition sha_40 :: "string \<Rightarrow> bool" where
  "sha_40 s = (length s = 40 \<and> list_all is_hex s)"

definition stop_if :: "bool \<Rightarrow> string \<Rightarrow> unit result" where
  "stop_if b message = assert_r (SystemExit message) (\<not> b)"

definition provenance_keys :: "string list" where
  "provenance_keys = [''package'', ''branch'', ''remote'', ''commit'', ''tree'', ''imported_at'']"

definition check_pinned_key :: "string \<Rightarrow> string \<Rightarrow> json \<Rightarrow> unit result" where
  "check_pinned_key branch key v =
     (if \<not> truthy v then Inl (SystemExit (concat [branch, '' import must carry '', key]))
      else bind_r (as_text v) (\<lambda>s. stop_if (\<not> sha_40 s) (concat [branch, '' import must carry a full '', key, '' SHA''])))"

definition check_provenance :: "string \<Rightarrow> json \<Rightarrow> unit result" where
  "check_provenance d data =
     (case data of
        JObj kvs \<Rightarrow>
          let get = (\<lambda>k. dict_get kvs k JNull); path = provenance_path d; branch = get ''branch'' in
          bind_r (stop_if (\<not> (set (map fst kvs) \<subseteq> set provenance_keys \<and> set provenance_keys \<subseteq> set (map fst kvs)))
            (''invalid upstream provenance: '' @ path)) (\<lambda>_.
          bind_r (stop_if (get ''package'' \<noteq> JStr d) (''provenance package does not match its recipe directory: '' @ path)) (\<lambda>_.
          bind_r (stop_if (branch \<noteq> JStr ''rawhide'' \<and> branch \<noteq> JStr ''upstream'' \<and> branch \<noteq> JStr ''master'')
            (''only rawhide, upstream or codec master imports are supported: '' @ path)) (\<lambda>_.
          bind_r (stop_if (branch = JStr ''master'' \<and> get ''remote'' \<noteq> JStr (concat [''https://github.com/rpmfusion/'', d, ''.git'']) \<and>
              get ''remote'' \<noteq> JStr (concat [''https://github.com/negativo17/'', d, ''.git'']))
            (''master imports require an RPM Fusion or negativo17 recipe remote: '' @ path)) (\<lambda>_.
          if branch = JStr ''upstream'' then
            bind_r (stop_if (truthy (get ''commit'')) (''upstream import must not carry commit: '' @ path)) (\<lambda>_.
            bind_r (stop_if (truthy (get ''tree'')) (''upstream import must not carry tree: '' @ path)) (\<lambda>_.
            stop_if (\<not> truthy (get ''remote'')) (''upstream import must name its upstream remote: '' @ path)))
          else
            bind_r (as_text branch) (\<lambda>b.
            bind_r (check_pinned_key b ''commit'' (get ''commit'')) (\<lambda>_. check_pinned_key b ''tree'' (get ''tree'')))))))
      | JStr _ \<Rightarrow> Inl (SystemExit (''invalid upstream provenance: '' @ provenance_path d))
      | JList _ \<Rightarrow> Inl Unmodelled
      | _ \<Rightarrow> Inl TypeError)"

definition check_recipe :: "rev_tree \<Rightarrow> string \<Rightarrow> unit result" where
  "check_recipe t d =
     (case map_of t (provenance_path d) of
        None \<Rightarrow> Inl (SystemExit (''missing upstream provenance: '' @ provenance_path d))
      | Some text \<Rightarrow> bind_r (loads text) (check_provenance d))"

subsection \<open>The build roots\<close>

text \<open>\<open>except (OSError, json.JSONDecodeError): raise SystemExit(...)\<close>.\<close>

definition read_json :: "string \<Rightarrow> string \<Rightarrow> json result" where
  "read_json message text = (case loads text of Inl e \<Rightarrow> Inl (if e = decode_error then SystemExit message else e) | Inr v \<Rightarrow> Inr v)"

definition check_buildroot_drift :: "(string, json) dict \<Rightarrow> rev_tree \<Rightarrow> unit result" where
  "check_buildroot_drift rs t =
     (case map_of t pin_path of
        None \<Rightarrow> Inl (SystemExit (''buildroot drift: the lock names a build root but there is no pin at '' @ pin_path))
      | Some text \<Rightarrow> (case parse_pin text of
            Inl _ \<Rightarrow> Inl (SystemExit (''invalid build-root pin '' @ pin_path))
          | Inr pin \<Rightarrow> bind_r (map_r (\<lambda>(name, br). bind_r (item br ''image'') (\<lambda>img.
              stop_if (img \<noteq> JStr pin) (concat [''buildroot drift: '', name, '' is not locked to '', pin]))) rs) (\<lambda>_. Inr ())))"

definition check_locked_package :: "string \<Rightarrow> json \<Rightarrow> unit result" where
  "check_locked_package name v = stop_if (case v of JObj kvs \<Rightarrow> \<not> truthy (dict_get kvs ''nevra'' JNull) | _ \<Rightarrow> True)
     (concat [''buildroot '', name, '' package locks must carry NEVRA entries''])"

definition check_root :: "string \<times> json \<Rightarrow> unit result" where
  "check_root = (\<lambda>(name, br).
     bind_r (stop_if (\<not> digest_pinned (case br of JObj kvs \<Rightarrow> dict_get kvs ''image'' JNull | _ \<Rightarrow> JNull))
       (concat [''buildroot '', name, '' image must be digest-pinned''])) (\<lambda>_.
     bind_r (get_or br ''packages'' (JList [])) (\<lambda>ps.
       case ps of
         JList locked \<Rightarrow> bind_r (map_r (check_locked_package name) locked) (\<lambda>_. Inr ())
       | _ \<Rightarrow> Inl (SystemExit (concat [''buildroot '', name, '' packages must be a list''])))))"

definition validate_buildroots :: "rev_tree \<Rightarrow> unit result" where
  "validate_buildroots t =
     (case map_of t buildroot_lock_path of
        None \<Rightarrow> Inl (SystemExit (''missing buildroot lock: '' @ buildroot_lock_path))
      | Some text \<Rightarrow>
          bind_r (read_json (''invalid buildroot lock: '' @ buildroot_lock_path) text) (\<lambda>data.
          bind_r (lock_roots (SystemExit (''invalid buildroot lock: '' @ buildroot_lock_path)) data) (\<lambda>rs.
            if rs = [] then Inl (SystemExit (''invalid buildroot lock: no buildroots defined in '' @ buildroot_lock_path))
            else bind_r (map_r check_root rs) (\<lambda>_. check_buildroot_drift rs t))))"

subsection \<open>The source lock\<close>

text \<open>The entries that are objects, none for a missing lock; \<open>data.get("packages", [])\<close>.\<close>

definition lock_objects :: "rev_tree \<Rightarrow> lock list result" where
  "lock_objects t =
     (case map_of t lock_path of
        None \<Rightarrow> Inr []
      | Some text \<Rightarrow>
          bind_r (read_json (''invalid source lock: '' @ lock_path) text) (\<lambda>data.
          bind_r (get_or data ''packages'' (JList [])) (\<lambda>v.
          bind_r (iterate v) (\<lambda>es. Inr (List.map_filter (\<lambda>e. case e of JObj kvs \<Rightarrow> Some kvs | _ \<Rightarrow> None) es)))))"

definition shown_name :: "lock \<Rightarrow> string result" where
  "shown_name e =
     (if truthy (dict_get e ''name'' JNull) then as_text (dict_get e ''name'' JNull)
      else if truthy (dict_get e ''filename'' JNull) then as_text (dict_get e ''filename'' JNull)
      else Inr ''<unnamed>'')"

definition fedora_host :: "string \<Rightarrow> bool" where
  "fedora_host host = (host \<in> set fedora_hosts \<or> ends_with ''.fedoraproject.org'' host)"

definition fedora_primary :: "lock \<Rightarrow> string list result" where
  "fedora_primary e =
     (let url = dict_get e ''url'' JNull in
      bind_r (if truthy url then as_text url else Inr []) (\<lambda>u.
      bind_r (url_host u) (\<lambda>host.
        if fedora_host host then bind_r (shown_name e) (\<lambda>n. Inr [n]) else Inr [])))"

definition fedora_primary_sources :: "rev_tree \<Rightarrow> string list result" where
  "fedora_primary_sources t = bind_r (lock_objects t) (\<lambda>es. bind_r (map_r fedora_primary es) (\<lambda>ns. Inr (sort (concat ns))))"

definition fedora_primary_baseline :: "rev_tree \<Rightarrow> string list" where
  "fedora_primary_baseline t =
     (case map_of t fedora_list_path of
        None \<Rightarrow> []
      | Some text \<Rightarrow> sort (filter (\<lambda>s. s \<noteq> []) (map (\<lambda>l. strip (before CHR ''#'' l)) (splitlines text))))"

definition check_fedora_primary_sources :: "rev_tree \<Rightarrow> unit result" where
  "check_fedora_primary_sources t =
     bind_r (fedora_primary_sources t) (\<lambda>offending.
       let baseline = fedora_primary_baseline t;
           added = sorted_set (set_minus offending baseline); removed = sorted_set (set_minus baseline offending) in
       if added \<noteq> [] then Inl (SystemExit (''source lock takes its payload from Fedora, not upstream: '' @ join '', '' added))
       else stop_if (removed \<noteq> []) (concat [''fedora-primary-sources.txt lists packages that no longer use a Fedora primary URL: '',
         join '', '' removed]))"

text \<open>The addresses of an entry that are looked at.\<close>

definition checked_urls :: "lock \<Rightarrow> json list" where
  "checked_urls e =
     [dict_get e ''url'' JNull, dict_get e ''url_template'' JNull, dict_get e ''sha256_url'' JNull] @
     (case dict_get e ''fallback_urls'' JNull of JList us \<Rightarrow> us | _ \<Rightarrow> [])"

definition plaintext_url :: "string \<Rightarrow> bool" where
  "plaintext_url url = starts_with ''http://'' (lower url)"

definition plaintext_urls :: "lock \<Rightarrow> string list result" where
  "plaintext_urls e =
     (let bad = filter plaintext_url (List.map_filter (\<lambda>v. case v of JStr u \<Rightarrow> Some u | _ \<Rightarrow> None) (checked_urls e)) in
      if bad = [] then Inr [] else bind_r (shown_name e) (\<lambda>n. Inr (map (\<lambda>u. concat [n, '': '', u]) bad)))"

definition plaintext_source_urls :: "rev_tree \<Rightarrow> string list result" where
  "plaintext_source_urls t = bind_r (lock_objects t) (\<lambda>es. bind_r (map_r plaintext_urls es) (\<lambda>us. Inr (sort (concat us))))"

definition check_plaintext_source_urls :: "rev_tree \<Rightarrow> unit result" where
  "check_plaintext_source_urls t =
     bind_r (plaintext_source_urls t) (\<lambda>offending. stop_if (offending \<noteq> [])
       (''source lock fetches over plain http://, so the digest it pins is whatever the network served: '' @ join [CHR 0x0A] offending))"

definition check_bump_review_only :: "rev_tree \<Rightarrow> unit result" where
  "check_bump_review_only t =
     (case map_of t lock_path of
        None \<Rightarrow> Inr ()
      | Some _ \<Rightarrow> bind_r (lock_objects t) (\<lambda>es.
          let locked = map (\<lambda>e. dict_get e ''name'' JNull) es in
          if list_ex (\<lambda>v. case v of JList _ \<Rightarrow> True | JObj _ \<Rightarrow> True | _ \<Rightarrow> False) locked then Inl TypeError
          else let unknown = sort (filter (\<lambda>n. JStr n \<notin> set locked) (parse_review_only (map_of t review_only_path))) in
          stop_if (unknown \<noteq> []) (concat [review_only_path, '' names packages the source lock does not carry: '', join '', '' unknown])))"

definition order_error :: "string \<Rightarrow> (string \<times> string) option result" where
  "order_error text =
     bind_r (loads text) (\<lambda>data. bind_r (get_or data ''packages'' (JList [])) (\<lambda>v.
       case v of JList ps \<Rightarrow> first_misordered ps | _ \<Rightarrow> Inl Unmodelled))"

definition check_source_lock_order :: "rev_tree \<Rightarrow> unit result" where
  "check_source_lock_order t =
     (case map_of t lock_path of
        None \<Rightarrow> Inr ()
      | Some text \<Rightarrow> (case order_error text of
            Inl (ValueError s) \<Rightarrow> Inl (SystemExit (''invalid source lock: '' @ lock_path))
          | Inl e \<Rightarrow> Inl e
          | Inr None \<Rightarrow> Inr ()
          | Inr (Some (earlier, later)) \<Rightarrow> Inl (SystemExit (concat [lock_path, '' packages are not sorted by name: '',
              earlier, '' is listed before '', later]))))"

subsection \<open>The manifests\<close>

definition bad_manifest_line :: "rev_tree \<Rightarrow> string \<Rightarrow> string option" where
  "bad_manifest_line t d =
     (case map_of t (manifest_path d) of
        None \<Rightarrow> None
      | Some text \<Rightarrow> find (\<lambda>l. l \<noteq> [] \<and> sha512_line l = None) (map strip (splitlines text)))"

definition check_sources_digests :: "rev_tree \<Rightarrow> unit result" where
  "check_sources_digests t =
     (let offending = List.map_filter (\<lambda>d. map_option (\<lambda>l. concat [manifest_path d, '': '', l]) (bad_manifest_line t d)) (recipe_dirs t) in
      stop_if (offending \<noteq> []) (''sources manifest pins a bundled tarball by MD5 or another non-SHA-512 form: '' @ join [CHR 0x0A] offending))"

subsection \<open>The inventory\<close>

definition directory_specs :: "rev_tree \<Rightarrow> string \<Rightarrow> string list" where
  "directory_specs t d = map sp_file (filter (\<lambda>sp. sp_package sp = d) (spec_files t))"

text \<open>A provenance that cannot be decoded counts as absent.\<close>

definition directory_provenance :: "rev_tree \<Rightarrow> string \<Rightarrow> json option result" where
  "directory_provenance t d =
     (case map_of t (provenance_path d) of
        None \<Rightarrow> Inr None
      | Some text \<Rightarrow> (case loads text of Inr v \<Rightarrow> Inr (Some v) | Inl e \<Rightarrow> if e = decode_error then Inr None else Inl e))"

definition tree_dir :: "rev_tree \<Rightarrow> string \<Rightarrow> pkg_dir result" where
  "tree_dir t d = bind_r (directory_provenance t d) (\<lambda>p. Inr \<lparr>dname = d, dspecs = directory_specs t d, dprov = p\<rparr>)"

definition packit_path :: string where
  "packit_path = ''.packit.yaml''"

definition lock_items :: "rev_tree \<Rightarrow> entry list result" where
  "lock_items t = bind_r (inventory_fields t) (\<lambda>kvs. bind_r (bind_r (dict_index kvs ''packages'') iterate) (map_r lock_entry))"

definition tree_inventory :: "rev_tree \<Rightarrow> package_record list result" where
  "tree_inventory t =
     bind_r (spec_per_package (map (\<lambda>d. \<lparr>dname = d, dspecs = directory_specs t d, dprov = None\<rparr>) (recipe_dirs t))) (\<lambda>_.
     bind_r (source_locks t) (\<lambda>_.
     bind_r (lock_items t) (\<lambda>entries.
     bind_r (case map_of t packit_path of None \<Rightarrow> Inl (OSError packit_path) | Some s \<Rightarrow> Inr s) (\<lambda>packit.
     bind_r (map_r (tree_dir t) (recipe_dirs t)) (\<lambda>dirs.
       inventory dirs entries packit)))))"

definition missing_report :: "string \<Rightarrow> string list \<Rightarrow> string list" where
  "missing_report what names = (if names = [] then [] else [concat [''packages missing '', what, '': '', join '', '' (sort names)]])"

definition validated_summary :: "package_record list \<Rightarrow> string" where
  "validated_summary rs =
     (let branches = List.map_filter provenance_branch rs in
      concat [''validated '', show_nat (length rs), '' source RPMs ('',
        join '', '' (map (\<lambda>b. concat [show_nat (count_list branches b), '' '', b]) (sorted_set branches)), '')''])"

text \<open>The exit status and the lines printed.\<close>

definition validate :: "rev_tree \<Rightarrow> (nat \<times> string list) result" where
  "validate t =
     (if \<not> list_ex (\<lambda>(path, _). starts_with ''packages/'' path) t then Inr (0, [])
      else
        bind_r (map_r (check_recipe t) (recipe_dirs t)) (\<lambda>_.
        let status = check_suppressed_tests t in
        bind_r (validate_buildroots t) (\<lambda>_.
        bind_r (check_fedora_primary_sources t) (\<lambda>_.
        bind_r (check_plaintext_source_urls t) (\<lambda>_.
        bind_r (check_sources_digests t) (\<lambda>_.
        bind_r (check_bump_review_only t) (\<lambda>_.
        bind_r (check_source_lock_order t) (\<lambda>_.
        bind_r (tree_inventory t) (\<lambda>rs.
          let report = missing_report ''source locks'' (map pname (filter (\<lambda>r. \<not> source_locked r) rs)) @
                missing_report ''Packit config'' (map pname (filter (\<lambda>r. \<not> packit_configured r) rs)) @
                missing_report ''recipe provenance'' (map pname (filter (\<lambda>r. provenance_branch r = None) rs)) in
          Inr (if report \<noteq> [] then (1, report) else if status \<noteq> 0 then (status, []) else (0, [validated_summary rs])))))))))))"

end
