(* ===== verification/Source_Integrity.thy ===== *)
theory Source_Integrity
  imports Source_Pipeline
begin

section \<open>Accepted sources are the pinned ones\<close>

text \<open>
  Which files each step of the source pipeline can change, and from it that only verified bytes ever
  reach the place of an accepted source, that an accepted package has every source the lock and the
  manifest pin, and that the gate after staging accepts what was staged.
\<close>

subsection \<open>What a step touches\<close>

definition touches :: "string set \<Rightarrow> (world, 'a) io \<Rightarrow> bool" where
  "touches S m = (\<forall>p c. p \<notin> S \<longrightarrow> keeps (\<lambda>w. content w p = c) m)"

named_theorems touch_rules \<open>which files a step may change\<close>

lemma touchesD:
  assumes "touches S m" and "p \<notin> S" and "m w = (r, w')"
  shows "content w' p = content w p"
  using assms keepsD [of "\<lambda>v. content v p = content w p" m w r w'] by (simp add: touches_def)

lemma touchesI: "(\<And>w r w' p. m w = (r, w') \<Longrightarrow> p \<notin> S \<Longrightarrow> content w' p = content w p) \<Longrightarrow> touches S m"
  by (force simp: touches_def keeps_def triple_def split: prod.splits sum.splits)

lemma touches_mono: "touches S m \<Longrightarrow> S \<subseteq> T \<Longrightarrow> touches T m"
  by (auto simp: touches_def)

lemma content_simps [simp]:
  "content (put_file p b w) q = (if q = p then Some b else content w q)"
  "content (unlink_file p w) q = (if q = p then None else content w q)"
  "content (make_dir d w) q = content w q"
  "content (w\<lparr>w_requests := n\<rparr>) q = content w q"
  by (simp_all add: content_def put_file_def unlink_file_def make_dir_def map_of_delete_if)

lemma touches_bind [touch_rules]: "touches S m \<Longrightarrow> (\<And>x. touches S (f x)) \<Longrightarrow> touches S (bind_io m f)"
  by (auto simp: touches_def intro!: keeps_rules)

lemma touches_try [touch_rules]: "touches S m \<Longrightarrow> (\<And>e. touches S (h e)) \<Longrightarrow> touches S (try_io m h)"
  by (auto simp: touches_def intro!: keeps_rules)

lemma touches_map_io [touch_rules]: "(\<And>x. x \<in> set xs \<Longrightarrow> touches S (f x)) \<Longrightarrow> touches S (map_io f xs)"
  by (auto simp: touches_def intro!: keeps_map_io)

lemma touches_basic [touch_rules]:
  "touches S (ret x)" "touches S (throw e)" "touches S (reads f)"
  by (auto simp: touches_def intro: keeps_rules)

lemma touches_derived [touch_rules]:
  "touches S (check_io e b)" "touches S (of_result r)" "touches S (read_file p)" "touches S (demand g s)"
  by (auto simp: check_io_def of_result_def read_file_def demand_def intro: touches_basic)

lemma touches_change [touch_rules]:
  "(\<And>w p. p \<notin> S \<Longrightarrow> content (f w) p = content w p) \<Longrightarrow> touches S (change f)"
  by (rule touchesI) auto

lemma touches_move [touch_rules]: "a \<in> S \<Longrightarrow> b \<in> S \<Longrightarrow> touches S (move_file a b)"
  unfolding move_file_def by (intro touch_rules) auto

lemma touches_failed [touch_rules]: "touches S (failed_with f)"
  by (cases f) (auto simp: failed_with_def intro: touch_rules)

lemma touches_fetch [touch_rules]: "dest \<in> S \<Longrightarrow> touches S (fetch env url dest)"
proof -
  assume dest: "dest \<in> S"
  then have attempt: "touches S (attempt env url dest)"
    unfolding attempt_def by (auto intro!: touch_rules split: answer.split)
  have "touches S (fetch_loop env url dest n e)" for n e
    by (induction n arbitrary: e) (auto intro!: touch_rules attempt split: option.split)
  then show ?thesis by (simp add: fetch_def)
qed

lemma touches_fallbacks [touch_rules]: "dest \<in> S \<Longrightarrow> touches S (fetch_with_fallbacks env urls dest errors)"
  by (induction urls arbitrary: errors) (auto intro!: touch_rules split: option.split error.split)

lemma touches_signature [touch_rules]:
  "slash dir (path_name target @ ''.asc'') \<in> S \<Longrightarrow> touches S (verify_signature env e target dir)"
  unfolding verify_signature_def Let_def by (auto intro!: touch_rules)

lemma touches_sha256 [touch_rules]:
  "slash dir ''upstream.sha256'' \<in> S \<Longrightarrow> touches S (check_sha256 env e dir candidate)"
  unfolding check_sha256_def Let_def by (auto intro!: touch_rules)

lemma touches_bundled_one [touch_rules]:
  "slash dir f \<in> S \<Longrightarrow> slash dir (f @ ''.candidate'') \<in> S \<Longrightarrow> touches S (fetch_bundled env e name dir (f, h))"
  unfolding fetch_bundled_def Let_def prod.case by (auto intro!: touch_rules)

lemma touches_bundled [touch_rules]:
  "(\<And>f. slash dir f \<in> S \<and> slash dir (f @ ''.candidate'') \<in> S) \<Longrightarrow> touches S (bundled_sources env e name dir already)"
  unfolding bundled_sources_def source_manifest_def by (force intro!: touch_rules)

lemma below_slash [simp]: "below_dir d (slash d f)"
  by (simp add: below_dir_def slash_def starts_with_iff)

lemma content_below:
  assumes "\<forall>(f, b) \<in> set made. below_dir d (slash d f)" and "\<not> below_dir d p"
  shows "map_of (fold (\<lambda>(f, b). AList.update (slash d f) b) made fs) p = map_of fs p"
  using assms by (induction made arbitrary: fs) auto

lemma touches_generate [touch_rules]:
  assumes "{p. below_dir (slash dir ''.generate'') p} \<subseteq> S"
  shows "touches S (generate_source env e dir)"
proof -
  let ?d = "slash dir ''.generate''"
  have made: "\<forall>(f, b) \<in> set made. below_dir ?d (slash ?d f)" for made :: "(string \<times> string) list"
    by (auto simp: below_slash)
  have outside_scratch: "\<not> below_dir ?d p" if "p \<notin> S" for p
    using assms that by auto
  have "touches S (run_script env script name ?d)" for script name
    unfolding run_script_def by (intro touch_rules) (simp add: content_def content_below [OF made] outside_scratch)
  moreover have "touches S (change (\<lambda>w. make_dir ?d (w\<lparr>w_files := filter (\<lambda>(p, _). \<not> below_dir ?d p) (w_files w)\<rparr>)))"
  proof (rule touches_change)
    fix w p assume "p \<notin> S"
    with assms have "\<not> below_dir ?d p" by auto
    then show "content (make_dir ?d (w\<lparr>w_files := filter (\<lambda>(p, _). \<not> below_dir ?d p) (w_files w)\<rparr>)) p = content w p"
      by (simp add: content_def make_dir_def map_of_filter_keys)
  qed
  ultimately show ?thesis unfolding generate_source_def Let_def by (auto intro!: touch_rules)
qed

lemma touches_bind_result:
  assumes "touches S m" and "\<And>w x w'. m w = (Inr x, w') \<Longrightarrow> touches S (f x)"
  shows "touches S (bind_io m f)"
proof (rule touchesI)
  fix w r w' p assume run: "bind_io m f w = (r, w')" and p: "p \<notin> S"
  from run show "content w' p = content w p"
  proof (cases "m w")
    case (Pair q t)
    have t: "content t p = content w p" using touchesD [OF assms(1) p Pair] .
    show ?thesis
    proof (cases q)
      case (Inl e)
      with run Pair t show ?thesis by (simp add: bind_io_def)
    next
      case (Inr x)
      with Pair have "touches S (f x)" by (intro assms(2)) simp
      moreover from run Pair Inr have "f x t = (r, w')" by (simp add: bind_io_def)
      ultimately show ?thesis using touchesD [OF _ p] t by metis
    qed
  qed
qed

lemma generate_source_path:
  "generate_source env e dir w = (Inr x, w') \<Longrightarrow> \<exists>f. x = slash (slash dir ''.generate'') f"
  by (auto simp: generate_source_def bind_io_Inr Let_def)

lemma touches_obtain [touch_rules]:
  assumes "{p. below_dir (slash dir ''.generate'') p} \<subseteq> S" and "candidate \<in> S"
  shows "touches S (obtain_source env e dir url candidate)"
proof (cases url)
  case None
  have "touches S (bind_io (generate_source env e dir) (\<lambda>produced. bind_io (move_file produced candidate) g))"
    if "\<And>x. touches S (g x)" for g
  proof (rule touches_bind_result)
    fix w x w' assume "generate_source env e dir w = (Inr x, w')"
    then have "x \<in> S" using generate_source_path assms(1) by fastforce
    with assms(2) that show "touches S (bind_io (move_file x candidate) g)" by (intro touch_rules)
  qed (use assms(1) in \<open>rule touches_generate\<close>)
  from this [OF touches_derived(2)] None show ?thesis by (simp add: obtain_source_def)
next
  case (Some u)
  with assms(2) show ?thesis
    by (simp add: obtain_source_def del: fetch_with_fallbacks.simps) (intro touch_rules)
qed

text \<open>Everything a package's source needs is written below its own directory.\<close>

lemma touches_accept:
  assumes "CHR ''/'' \<notin> set filename"
  shows "touches {p. below_dir dir p} (accept_source env e name dir filename expected url)"
proof -
  have "below_dir dir p" if "below_dir (slash dir ''.generate'') p" for p
    using that by (auto simp: below_dir_def slash_def starts_with_iff)
  then show ?thesis unfolding accept_source_def Let_def by (auto intro!: touch_rules)
qed

subsection \<open>The candidate\<close>

text \<open>File names the pipeline can keep apart: no path, not the manifest, and none of the names it uses itself.\<close>

definition plain_file :: "string \<Rightarrow> bool" where
  "plain_file f = (f \<noteq> [] \<and> f \<noteq> ''.'' \<and> CHR ''/'' \<notin> set f \<and> f \<noteq> ''sources'' \<and> f \<noteq> ''upstream.sha256'' \<and>
     \<not> ends_with ''.candidate'' f)"

lemma slash_eq [simp]: "slash d a = slash d b \<longleftrightarrow> a = b"
  by (simp add: slash_def)

lemma split_on_last: "CHR ''/'' \<notin> set n \<Longrightarrow> \<exists>p ps. split_on CHR ''/'' (slash d n) = p # ps @ [n]"
proof (induction d)
  case Nil
  then show ?case by (simp add: slash_def split_on_no_sep)
next
  case (Cons c d)
  then obtain p ps where "split_on CHR ''/'' (slash d n) = p # ps @ [n]" by blast
  then show ?case by (cases "c = CHR ''/''") (simp_all add: slash_def)
qed

lemma path_name_slash:
  assumes "CHR ''/'' \<notin> set n" and "n \<noteq> []" and "n \<noteq> ''.''"
  shows "path_name (slash d n) = n"
proof -
  obtain p ps where "split_on CHR ''/'' (slash d n) = p # ps @ [n]" using split_on_last [OF assms(1)] by blast
  then have "filter (\<lambda>p. p \<noteq> [] \<and> p \<noteq> ''.'') (split_on CHR ''/'' (slash d n)) =
      filter (\<lambda>p. p \<noteq> [] \<and> p \<noteq> ''.'') (p # ps) @ [n]" using assms(2,3) by simp
  then show ?thesis unfolding path_name_def by (cases "filter (\<lambda>p. p \<noteq> [] \<and> p \<noteq> ''.'') (p # ps)") auto
qed

text \<open>What is fetched is the body of some answer of the network for the address.\<close>

definition served :: "outside \<Rightarrow> string \<Rightarrow> string \<Rightarrow> bool" where
  "served env url body = (body \<noteq> [] \<and> (\<exists>n kind. o_net env n url = Served kind body))"

lemma attempt_served:
  assumes "attempt env url dest w = (Inr None, w')"
  shows "\<exists>body. content w' dest = Some body \<and> served env url body"
proof (cases "o_net env (w_requests w) url")
  case (Served kind body)
  with assms have "body \<noteq> []" "content w' dest = Some body"
    by (auto simp: attempt_def bind_io_Inr split: if_splits)
  with Served show ?thesis by (auto simp: served_def)
qed (use assms in \<open>auto simp: attempt_def bind_io_Inr failed_with_def split: failure.splits\<close>)

lemma fetch_served:
  assumes "fetch env url dest w = (Inr u, w')"
  shows "\<exists>body. content w' dest = Some body \<and> served env url body"
proof -
  have "fetch_loop env url dest n e w = (Inr u, w') \<Longrightarrow> ?thesis" for n e w
  proof (induction n arbitrary: e w)
    case (Suc n)
    then obtain r t where r: "attempt env url dest w = (Inr r, t)"
      and rest: "(case r of None \<Rightarrow> ret () | Some e \<Rightarrow> fetch_loop env url dest n e) t = (Inr u, w')"
      by (auto simp: bind_io_Inr)
    show ?case
    proof (cases r)
      case None
      with r rest show ?thesis using attempt_served by simp
    next
      case (Some e)
      with rest Suc.IH show ?thesis by simp
    qed
  qed simp
  with assms show ?thesis by (simp add: fetch_def)
qed

lemma fallbacks_served:
  assumes "fetch_with_fallbacks env urls dest errors w = (Inr u, w')"
  shows "u \<in> set urls \<and> (\<exists>body. content w' dest = Some body \<and> served env u body)"
  using assms
proof (induction urls arbitrary: errors w)
  case (Cons url urls)
  then obtain r t where r: "try_io (bind_io (fetch env url dest) (\<lambda>_. ret None))
      (\<lambda>e. case e of RuntimeError s \<Rightarrow> ret (Some (concat [url, '': '', s])) | _ \<Rightarrow> throw e) w = (Inr r, t)"
    and rest: "(case r of None \<Rightarrow> ret url | Some s \<Rightarrow> fetch_with_fallbacks env urls dest (errors @ [s])) t = (Inr u, w')"
    by (auto simp: bind_io_Inr)
  show ?case
  proof (cases r)
    case None
    with r have "fetch env url dest w = (Inr (), t)"
      by (auto simp: try_io_def bind_io_def split: prod.splits sum.splits error.splits)
    with None rest show ?thesis using fetch_served by simp
  next
    case (Some s)
    with rest Cons.IH show ?thesis by simp
  qed
qed simp

lemma touches_triple:
  assumes "touches S m" and "\<And>w w'. P w \<Longrightarrow> (\<And>p. p \<notin> S \<Longrightarrow> content w' p = content w p) \<Longrightarrow> P w'"
    and "\<And>w x w'. m w = (Inr x, w') \<Longrightarrow> R x w'"
  shows "triple P m (\<lambda>x w. P w \<and> R x w) (\<lambda>_. P)"
proof (rule tripleI)
  fix w assume w: "P w"
  show "case m w of (Inr x, w') \<Rightarrow> P w' \<and> R x w' | (Inl e, w') \<Rightarrow> P w'"
  proof (cases "m w")
    case (Pair r w')
    have "P w'" using assms(2) [OF w] touchesD [OF assms(1) _ Pair] by blast
    with Pair assms(3) show ?thesis by (auto split: sum.split)
  qed
qed

lemmas touches_keeps = touches_triple [where R = "\<lambda>_ _. True", simplified]

lemma triple_read_file:
  "triple P (read_file p) (\<lambda>b w. P w \<and> content w p = Some b) (\<lambda>_. P)"
  unfolding read_file_def by (rule triple_reads) (auto split: option.splits)

lemma triple_check: "triple P (check_io e b) (\<lambda>_ w. P w \<and> b) (\<lambda>_. P)"
  by (simp add: check_io_def triple_def)

text \<open>What the optional checks say of the bytes: \<open>gpg\<close> accepted a served signature of them, and a served
  list of checksums has theirs.\<close>

definition signed :: "outside \<Rightarrow> lock \<Rightarrow> string \<Rightarrow> bool" where
  "signed env e b = (truthy (dict_get e ''gpg_key'' JNull) \<longrightarrow>
     (\<exists>key s u. o_gpg_import env key \<and> o_gpg_verify env key s b \<and> served env u s \<and>
        dict_get e ''signature_url'' JNull = JStr u))"

definition summed :: "outside \<Rightarrow> lock \<Rightarrow> string \<Rightarrow> bool" where
  "summed env e b = (truthy (dict_get e ''sha256_url'' JNull) \<longrightarrow>
     (\<exists>listing u. contains (o_sha256 env b) listing \<and> served env u listing \<and>
        dict_get e ''sha256_url'' JNull = JStr u))"

lemma of_result_Inr: "of_result r w = (Inr x, w') \<longleftrightarrow> r = Inr x \<and> w' = w"
  by (auto simp: of_result_def)

lemma check_io_Inr: "check_io e b w = (Inr x, w') \<longleftrightarrow> b \<and> w' = w"
  by (auto simp: check_io_def)

lemma read_file_Inr: "read_file p w = (Inr b, w') \<longleftrightarrow> content w p = Some b \<and> w' = w"
  by (auto simp: read_file_def split: option.splits)

lemma as_text_Inr: "as_text v = Inr s \<longleftrightarrow> v = JStr s"
  by (cases v) (auto simp: as_text_def)

lemma signature_signed:
  assumes "verify_signature env e target dir w = (Inr u, w')" and "content w target = Some b"
    and "slash dir (path_name target @ ''.asc'') \<noteq> target"
  shows "signed env e b"
proof (cases "truthy (dict_get e ''gpg_key'' JNull)")
  case True
  let ?s = "slash dir (path_name target @ ''.asc'')"
  from assms(1) True obtain v t key where v: "dict_get e ''signature_url'' JNull = JStr v"
    and t: "fetch env v ?s w = (Inr (), t)"
    and key: "o_gpg_import env key" "\<exists>s d. content w' ?s = Some s \<and> content w' target = Some d \<and> o_gpg_verify env key s d"
    and w': "w' = t"
    by (auto simp: verify_signature_def Let_def bind_io_Inr of_result_Inr check_io_Inr read_file_Inr as_text_Inr
        split: if_splits)
  have "content t target = content w target"
    using touchesD [OF touches_fetch [of ?s "{?s}"] _ t, of target] assms(3) by simp
  with assms(2) key w' obtain s where "content t ?s = Some s" "o_gpg_verify env key s b" by auto
  with fetch_served [OF t] v key show ?thesis by (auto simp: signed_def)
qed (simp add: signed_def)

lemma signed_after:
  assumes "verify_signature env e target dir w = (Inr u, w')" and "content w' target = Some b"
    and "slash dir (path_name target @ ''.asc'') \<noteq> target"
  shows "signed env e b"
proof -
  have "content w' target = content w target"
    using touchesD [OF touches_signature [of dir target "{slash dir (path_name target @ ''.asc'')}"] _ assms(1)] assms(3)
    by simp
  with signature_signed [OF assms(1) _ assms(3)] assms(2) show ?thesis by simp
qed

lemma sha256_summed:
  assumes "check_sha256 env e dir candidate w = (Inr u, w')" and "content w candidate = Some b"
    and "slash dir ''upstream.sha256'' \<noteq> candidate"
  shows "summed env e b"
proof (cases "truthy (dict_get e ''sha256_url'' JNull)")
  case True
  let ?s = "slash dir ''upstream.sha256''"
  from assms(1) True obtain v t d listing where v: "dict_get e ''sha256_url'' JNull = JStr v"
    and t: "fetch env v ?s w = (Inr (), t)" and d: "content t candidate = Some d" "content t ?s = Some listing"
    and ok: "contains (o_sha256 env d) listing"
    by (auto simp: check_sha256_def Let_def bind_io_Inr of_result_Inr check_io_Inr read_file_Inr as_text_Inr
        split: if_splits)
  have "content t candidate = content w candidate"
    using touchesD [OF touches_fetch [of ?s "{?s}"] _ t, of candidate] assms(3) by simp
  with assms(2) d fetch_served [OF t] v ok show ?thesis by (auto simp: summed_def)
qed (simp add: summed_def)

lemma summed_after:
  assumes "check_sha256 env e dir candidate w = (Inr u, w')" and "content w' candidate = Some b"
    and "slash dir ''upstream.sha256'' \<noteq> candidate"
  shows "summed env e b"
proof -
  have "content w' candidate = content w candidate"
    using touchesD [OF touches_sha256 [of dir "{slash dir ''upstream.sha256''}"] _ assms(1)] assms(3) by simp
  with sha256_summed [OF assms(1) _ assms(3)] assms(2) show ?thesis by simp
qed

text \<open>The bytes an accepted source has.\<close>

definition from_upstream :: "outside \<Rightarrow> lock \<Rightarrow> string option \<Rightarrow> string \<Rightarrow> string \<Rightarrow> bool" where
  "from_upstream env e url resolved b = (\<forall>u. url = Some u \<longrightarrow>
     served env resolved b \<and> (\<exists>others. fallbacks e = Inr others \<and> resolved \<in> set (u # others)))"

definition pinned_bytes :: "outside \<Rightarrow> lock \<Rightarrow> string \<Rightarrow> string option \<Rightarrow> string \<Rightarrow> string \<Rightarrow> bool" where
  "pinned_bytes env e expected url resolved b =
     (o_sha512 env b = expected \<and> from_upstream env e url resolved b \<and> signed env e b \<and> summed env e b)"

lemma plain_paths:
  assumes "plain_file f"
  shows "slash d f \<noteq> slash d (f @ ''.candidate'')"
    and "slash d f \<noteq> slash d (path_name (slash d (f @ ''.candidate'')) @ ''.asc'')"
    and "slash d (path_name (slash d (f @ ''.candidate'')) @ ''.asc'') \<noteq> slash d (f @ ''.candidate'')"
    and "slash d ''upstream.sha256'' \<noteq> slash d (f @ ''.candidate'')"
    and "slash d f \<noteq> slash d ''upstream.sha256''"
    and "\<not> below_dir (slash d ''.generate'') (slash d f)"
    and "\<not> below_dir (slash d ''.generate'') (slash d (f @ ''.candidate''))"
    and "slash d (g @ ''.candidate'') \<noteq> slash d f"
proof -
  from assms have name: "path_name (slash d (f @ ''.candidate'')) = f @ ''.candidate''"
    by (intro path_name_slash) (auto simp: plain_file_def)
  have last: "last ''upstream.sha256'' \<noteq> last (f @ ''.candidate'')" by simp
  show "slash d f \<noteq> slash d (f @ ''.candidate'')"
    and "slash d f \<noteq> slash d (path_name (slash d (f @ ''.candidate'')) @ ''.asc'')"
    and "slash d (path_name (slash d (f @ ''.candidate'')) @ ''.asc'') \<noteq> slash d (f @ ''.candidate'')"
    and "slash d f \<noteq> slash d ''upstream.sha256''"
    using assms by (auto simp: name plain_file_def)
  show "slash d ''upstream.sha256'' \<noteq> slash d (f @ ''.candidate'')"
    using last by (metis slash_eq)
  have generate: "CHR ''/'' \<in> set x" if "below_dir (slash d ''.generate'') (slash d x)" for x
    using that by (auto simp: below_dir_def slash_def starts_with_iff)
  show "\<not> below_dir (slash d ''.generate'') (slash d f)"
    and "\<not> below_dir (slash d ''.generate'') (slash d (f @ ''.candidate''))"
    using assms generate [of f] generate [of "f @ ''.candidate''"] by (auto simp: plain_file_def)
  show "slash d (g @ ''.candidate'') \<noteq> slash d f"
    using assms by (auto simp: plain_file_def ends_with_def)
qed

lemma obtain_served:
  assumes "obtain_source env e dir url candidate w = (Inr resolved, w')" and "content w' candidate = Some b"
  shows "from_upstream env e url resolved b"
  using assms by (auto simp: from_upstream_def obtain_source_def bind_io_Inr of_result_Inr
      simp del: fetch_with_fallbacks.simps dest!: fallbacks_served)

lemma bundled_touches:
  "touches (\<Union>f \<in> {f. f \<noteq> already}. {slash dir f, slash dir (f @ ''.candidate'')})
     (bundled_sources env e name dir already)"
  unfolding bundled_sources_def source_manifest_def by (force intro!: touch_rules)

text \<open>The place of the accepted file holds what it held before, or the pinned bytes.\<close>

definition final_ok :: "string \<Rightarrow> string option \<Rightarrow> (string \<Rightarrow> bool) \<Rightarrow> world \<Rightarrow> bool" where
  "final_ok path was good w = (content w path = was \<or> (\<exists>b. content w path = Some b \<and> good b))"

lemma not_bundled:
  assumes "plain_file filename"
  shows "slash dir filename \<notin> (\<Union>f \<in> {f. f \<noteq> filename}. {slash dir f, slash dir (f @ ''.candidate'')})"
  using plain_paths(8) [OF assms] by fastforce

lemma accept_triple:
  fixes dir filename expected :: string and env :: outside and was :: "string option"
  assumes plain: "plain_file filename"
  defines "final \<equiv> slash dir filename" and "candidate \<equiv> slash dir (filename @ ''.candidate'')"
  defines "P \<equiv> final_ok final was (\<lambda>b. o_sha512 env b = expected)"
  shows "triple P (accept_source env e name dir filename expected url)
    (\<lambda>(resolved, bundled) w. \<exists>b. content w final = Some b \<and> pinned_bytes env e expected url resolved b) (\<lambda>_. P)"
proof -
  note paths = plain_paths [OF plain, of dir, folded final_def candidate_def]
  let ?got = "\<lambda>resolved bytes. from_upstream env e url resolved bytes"
  have P_cong: "P w'" if "P w" "content w' final = content w final" for w w'
    using that by (simp add: P_def final_ok_def)
  have obtain_it: "triple P (obtain_source env e dir url candidate)
      (\<lambda>x w. P w \<and> (\<forall>b. content w candidate = Some b \<longrightarrow> ?got x b)) (\<lambda>_. P)"
    by (rule touches_triple [where S = "insert candidate {p. below_dir (slash dir ''.generate'') p}"])
      (use paths P_cong in \<open>auto intro!: touch_rules dest: obtain_served\<close>)
  have bundling: "triple (\<lambda>w. \<exists>b. content w final = Some b \<and> pinned_bytes env e expected url r b)
      (bundled_sources env e name dir filename)
      (\<lambda>_ w. \<exists>b. content w final = Some b \<and> pinned_bytes env e expected url r b)
      (\<lambda>_ w. \<exists>b. content w final = Some b \<and> pinned_bytes env e expected url r b)" for r
    using not_bundled [OF plain, of dir] unfolding final_def
    by (intro touches_keeps [OF bundled_touches]) (metis (no_types, lifting))
  have moved: "triple (\<lambda>w. P w \<and> content w candidate = Some bytes \<and> o_sha512 env bytes = expected \<and>
        ?got r bytes \<and> signed env e bytes \<and> summed env e bytes) (move_file candidate final)
      (\<lambda>_ w. \<exists>b. content w final = Some b \<and> pinned_bytes env e expected url r b) (\<lambda>_. P)" for r bytes
    using paths(1) by (auto simp: triple_def move_file_def read_file_def bind_io_def pinned_bytes_def)
  have sums: "triple (\<lambda>w. P w \<and> content w candidate = Some bytes) (check_sha256 env e dir candidate)
      (\<lambda>_ w. (P w \<and> content w candidate = Some bytes) \<and> summed env e bytes) (\<lambda>_ w. P w \<and> content w candidate = Some bytes)" for bytes
    by (rule triple_weaken, rule touches_triple [where S = "{slash dir ''upstream.sha256''}" and
          R = "\<lambda>_ w. \<forall>b. content w candidate = Some b \<longrightarrow> summed env e b"])
      (use paths P_cong in \<open>auto intro!: touch_rules dest: summed_after\<close>)
  have signs: "triple (\<lambda>w. P w \<and> content w candidate = Some bytes) (verify_signature env e candidate dir)
      (\<lambda>_ w. (P w \<and> content w candidate = Some bytes) \<and> signed env e bytes) (\<lambda>_ w. P w \<and> content w candidate = Some bytes)" for bytes
    by (rule triple_weaken, rule touches_triple [where S = "{slash dir (path_name candidate @ ''.asc'')}" and
          R = "\<lambda>_ w. \<forall>b. content w candidate = Some b \<longrightarrow> signed env e b"])
      (use paths P_cong in \<open>auto intro!: touch_rules dest: signed_after\<close>)
  let ?G = "\<lambda>r w. \<exists>b. content w final = Some b \<and> pinned_bytes env e expected url r b"
  let ?C = "\<lambda>bytes w. P w \<and> content w candidate = Some bytes"
  let ?Q = "\<lambda>(r :: string, bundled :: string list) w. ?G r w"
  have G_P: "?G r w \<Longrightarrow> P w" for r w by (auto simp: P_def final_ok_def pinned_bytes_def)
  have give: "triple (?G r) (ret (r, bundled)) ?Q (\<lambda>_. P)" for r bundled by (rule triple_ret) simp
  have others: "triple (?G r) (bind_io (bundled_sources env e name dir filename) (\<lambda>bundled. ret (r, bundled))) ?Q (\<lambda>_. P)" for r
    by (rule triple_seq [OF bundling G_P _ give])
  have put: "triple (\<lambda>w. ?C bytes w \<and> summed env e bytes)
      (bind_io (move_file candidate final) (\<lambda>_. bind_io (bundled_sources env e name dir filename) (\<lambda>bundled. ret (r, bundled))))
      ?Q (\<lambda>_. P)" if "o_sha512 env bytes = expected" "?got r bytes" "signed env e bytes" for r bytes
    by (rule triple_weaken [OF triple_seq [OF moved _ _ others]]) (use that in auto)
  have sum: "triple (\<lambda>w. ?C bytes w \<and> signed env e bytes)
      (bind_io (check_sha256 env e dir candidate) (\<lambda>_. bind_io (move_file candidate final) (\<lambda>_.
         bind_io (bundled_sources env e name dir filename) (\<lambda>bundled. ret (r, bundled)))))
      ?Q (\<lambda>_. P)" if "o_sha512 env bytes = expected" "?got r bytes" for r bytes
  proof (cases "signed env e bytes")
    case True
    show ?thesis by (rule triple_weaken [OF triple_seq [OF sums _ _ put [OF that True]]]) auto
  qed (simp add: triple_def)
  have sign: "triple (?C bytes)
      (bind_io (verify_signature env e candidate dir) (\<lambda>_. bind_io (check_sha256 env e dir candidate) (\<lambda>_.
        bind_io (move_file candidate final) (\<lambda>_. bind_io (bundled_sources env e name dir filename) (\<lambda>bundled. ret (r, bundled))))))
      ?Q (\<lambda>_. P)" if "o_sha512 env bytes = expected" "?got r bytes" for r bytes
    by (rule triple_seq [OF signs _ _ sum [OF that]]) auto
  have check: "triple (\<lambda>w. ?C bytes w \<and> ?got r bytes)
      (bind_io (check_io err (o_sha512 env bytes = expected)) (\<lambda>_.
      bind_io (verify_signature env e candidate dir) (\<lambda>_. bind_io (check_sha256 env e dir candidate) (\<lambda>_.
        bind_io (move_file candidate final) (\<lambda>_. bind_io (bundled_sources env e name dir filename) (\<lambda>bundled. ret (r, bundled)))))))
      ?Q (\<lambda>_. P)" for r bytes err
  proof (cases "o_sha512 env bytes = expected \<and> ?got r bytes")
    case True
    then show ?thesis
      by (intro triple_weaken [OF triple_seq [OF triple_check [of "?C bytes"] _ _ sign [of bytes r]]]) auto
  qed (auto simp: triple_def check_io_def bind_io_def)
  have checked: "triple (\<lambda>w. P w \<and> (\<forall>b. content w candidate = Some b \<longrightarrow> ?got r b))
      (bind_io (read_file candidate) (\<lambda>bytes.
      bind_io (check_io (mismatch [] expected (o_sha512 env bytes)) (o_sha512 env bytes = expected)) (\<lambda>_.
      bind_io (verify_signature env e candidate dir) (\<lambda>_. bind_io (check_sha256 env e dir candidate) (\<lambda>_.
        bind_io (move_file candidate final) (\<lambda>_.
          bind_io (bundled_sources env e name dir filename) (\<lambda>bundled. ret (r, bundled))))))))
      ?Q (\<lambda>_. P)" for r
  proof (rule triple_bind)
    show "triple (\<lambda>w. P w \<and> (\<forall>b. content w candidate = Some b \<longrightarrow> ?got r b)) (read_file candidate)
        (\<lambda>bytes w. ?C bytes w \<and> ?got r bytes) (\<lambda>_. P)"
      unfolding read_file_def by (rule triple_reads) (auto split: option.splits)
  qed (rule check)
  show ?thesis
    unfolding accept_source_def Let_def final_def [symmetric] candidate_def [symmetric]
    by (rule triple_bind [OF obtain_it checked])
qed

subsection \<open>The bundled files\<close>

lemma fetch_bundled_Inr:
  assumes "fetch_bundled env e name dir (f, h) w = (Inr y, w')"
  shows "y = f \<and> (\<exists>b. content w' (slash dir f) = Some b \<and> o_sha512 env b = h)"
  using assms
  by (auto simp: fetch_bundled_def Let_def bind_io_Inr of_result_Inr read_file_Inr move_file_def split: if_splits)

lemma touches_some_bundled:
  "touches (\<Union>f \<in> fst ` set es. {slash dir f, slash dir (f @ ''.candidate'')}) (map_io (fetch_bundled env e name dir) es)"
proof (rule touches_map_io)
  fix x assume x: "x \<in> set es"
  obtain f h where fh: "x = (f, h)" by (cases x)
  from x have "f \<in> fst ` set es" unfolding fh by force
  then show "touches (\<Union>f \<in> fst ` set es. {slash dir f, slash dir (f @ ''.candidate'')}) (fetch_bundled env e name dir x)"
    unfolding fh by (intro touches_bundled_one) auto
qed

lemma not_among:
  assumes "plain_file f" and "f \<notin> fst ` set es"
  shows "slash dir f \<notin> (\<Union>f \<in> fst ` set es. {slash dir f, slash dir (f @ ''.candidate'')})"
  using assms by (auto simp: plain_file_def ends_with_def image_iff)

definition digests_hold :: "outside \<Rightarrow> string \<Rightarrow> (string \<times> string) list \<Rightarrow> world \<Rightarrow> bool" where
  "digests_hold env dir es w =
     list_all (\<lambda>(f, h). case content w (slash dir f) of None \<Rightarrow> False | Some b \<Rightarrow> o_sha512 env b = h) es"

lemma bundled_all:
  assumes "map_io (fetch_bundled env e name dir) es w = (Inr fs, w')" and "distinct (map fst es)"
    and "list_all (\<lambda>(f, h). plain_file f) es"
  shows "fs = map fst es \<and> digests_hold env dir es w'"
  using assms
proof (induction es arbitrary: w fs)
  case (Cons p es)
  obtain f h where p: "p = (f, h)" by (cases p)
  from Cons.prems(1) p obtain y t ys where one: "fetch_bundled env e name dir (f, h) w = (Inr y, t)"
    and rest: "map_io (fetch_bundled env e name dir) es t = (Inr ys, w')" and fs: "fs = y # ys"
    by (auto simp: bind_io_Inr)
  from Cons.prems p have tail: "distinct (map fst es)" "list_all (\<lambda>(f, h). plain_file f) es" "plain_file f" "f \<notin> fst ` set es"
    by auto
  have "content w' (slash dir f) = content t (slash dir f)"
    by (rule touchesD [OF touches_some_bundled not_among [OF tail(3,4)] rest])
  with fetch_bundled_Inr [OF one] obtain b where "content w' (slash dir f) = Some b" "o_sha512 env b = h" by auto
  with Cons.IH [OF rest tail(1,2)] fs p fetch_bundled_Inr [OF one] show ?case by (simp add: digests_hold_def)
qed (simp add: digests_hold_def)

text \<open>The entries of the manifest apart from the source of the lock.\<close>

definition other_entries :: "string \<Rightarrow> string \<Rightarrow> world \<Rightarrow> (string \<times> string) list" where
  "other_entries name filename w =
     filter (\<lambda>p. fst p \<noteq> filename) (manifest_entries (content w (manifest_path name)))"

definition plain_entries :: "string \<Rightarrow> world \<Rightarrow> bool" where
  "plain_entries name w =
     (let es = manifest_entries (content w (manifest_path name)) in
      distinct (map fst es) \<and> list_all (\<lambda>(f, h). plain_file f) es)"

lemma other_entries_cong:
  "content w' (manifest_path name) = content w (manifest_path name) \<Longrightarrow> other_entries name f w' = other_entries name f w"
  by (simp add: other_entries_def)

lemma plain_others:
  "plain_entries name w \<Longrightarrow> distinct (map fst (other_entries name f w)) \<and> list_all (\<lambda>(f, h). plain_file f) (other_entries name f w)"
  by (auto simp: plain_entries_def Let_def other_entries_def list_all_iff distinct_map inj_on_def)

lemma accept_source_Inr:
  assumes run: "accept_source env e name dir filename expected url w = (Inr (resolved, fs), w')"
    and plain: "plain_file filename" and entries: "plain_entries name w"
    and apart: "\<not> below_dir dir (manifest_path name)"
  shows "\<exists>b. content w' (slash dir filename) = Some b \<and> pinned_bytes env e expected url resolved b"
    and "fs = map fst (other_entries name filename w)" and "digests_hold env dir (other_entries name filename w) w'"
    and "content w' (manifest_path name) = content w (manifest_path name)"
proof -
  show "\<exists>b. content w' (slash dir filename) = Some b \<and> pinned_bytes env e expected url resolved b"
    using triple_returns [OF accept_triple [OF plain, of dir "content w (slash dir filename)"] _ run]
    by (simp add: final_ok_def)
  have slashless: "CHR ''/'' \<notin> set filename" using plain by (simp add: plain_file_def)
  show manifest: "content w' (manifest_path name) = content w (manifest_path name)"
    using touchesD [OF touches_accept [OF slashless] _ run] apart by simp
  from run obtain t where bundled: "bundled_sources env e name dir filename t = (Inr fs, w')"
    by (auto simp: accept_source_def Let_def bind_io_Inr)
  have fetched: "map_io (fetch_bundled env e name dir) (other_entries name filename t) t = (Inr fs, w')"
    using bundled by (auto simp: bundled_sources_def bind_io_Inr source_manifest_def other_entries_def)
  have "manifest_path name \<notin> (\<Union>f \<in> fst ` set (other_entries name filename t). {slash dir f, slash dir (f @ ''.candidate'')})"
    using apart by auto
  then have "content w' (manifest_path name) = content t (manifest_path name)"
    by (rule touchesD [OF touches_some_bundled _ fetched])
  with manifest have "content t (manifest_path name) = content w (manifest_path name)" by simp
  then have others: "other_entries name filename t = other_entries name filename w" by (rule other_entries_cong)
  have "fs = map fst (other_entries name filename w) \<and> digests_hold env dir (other_entries name filename w) w'"
    by (rule bundled_all [OF fetched [unfolded others]]) (use plain_others [OF entries] in simp_all)
  then show "fs = map fst (other_entries name filename w)" and "digests_hold env dir (other_entries name filename w) w'"
    by blast+
qed

end
