(* ===== verification/Source_Staging.thy ===== *)
theory Source_Staging
  imports Source_Integrity
begin

section \<open>From a locked package to the staged recipe\<close>

text \<open>
  What a run of \<open>source_pipeline.py\<close> on one package leaves: an accepted package has all its pinned bytes,
  whatever happens no other bytes take the place of an accepted source, and what was staged beside the
  spec passes the gate that runs after Packit.
\<close>

subsection \<open>Copies beside the spec\<close>

lemma slash_inject:
  assumes "CHR ''/'' \<notin> set f" and "CHR ''/'' \<notin> set g" and "slash d f = slash d' g"
  shows "d = d' \<and> f = g"
proof -
  have name_of: "takeWhile (\<lambda>c. c \<noteq> CHR ''/'') (rev (slash d f)) = rev f" if "CHR ''/'' \<notin> set f" for d f
    using that by (subst slash_def, subst rev_append, subst rev_append, subst append_assoc,
        subst takeWhile_append2) auto
  from name_of [OF assms(1), of d] name_of [OF assms(2), of d'] assms(3) have "f = g" by simp
  with assms(3) show ?thesis by (simp add: slash_def)
qed

lemma plain_slashless: "plain_file f \<Longrightarrow> CHR ''/'' \<notin> set f"
  by (simp add: plain_file_def)

lemma plain_path_name [simp]: "plain_file f \<Longrightarrow> path_name (slash d f) = f"
  by (auto simp: plain_file_def intro: path_name_slash)

lemma stage_one_Inr:
  assumes "stage_one d' (slash d f) w = (Inr y, w')" and "plain_file f"
  shows "d \<noteq> d' \<and> y = slash d' f \<and> (\<exists>b. content w (slash d f) = Some b) \<and>
    content w' = (content w)(slash d' f := content w (slash d f)) \<and> w_dirs w' = w_dirs w"
  using assms by (auto simp: stage_one_def copy_file_def bind_io_Inr read_file_Inr check_io_Inr Let_def put_file_def content_def)

lemma stage_all:
  assumes "map_io (stage_one d') (map (slash d) fs) w = (Inr ys, w')" and "\<forall>f \<in> set fs. plain_file f" and "d \<noteq> d'"
  shows "content w' p = (if \<exists>f \<in> set fs. p = slash d' f then content w (slash d (path_name p)) else content w p)"
  using assms(1,2)
proof (induction fs arbitrary: w ys)
  case (Cons f fs)
  from Cons.prems obtain y t zs where one: "stage_one d' (slash d f) w = (Inr y, t)"
    and rest: "map_io (stage_one d') (map (slash d) fs) t = (Inr zs, w')"
    by (auto simp: bind_io_Inr)
  from Cons.prems(2) have plain: "plain_file f" "\<forall>f \<in> set fs. plain_file f" by auto
  have step: "content t = (content w)(slash d' f := content w (slash d f))" using stage_one_Inr [OF one plain(1)] by blast
  have source: "content t (slash d g) = content w (slash d g)" if "plain_file g" for g
    using slash_inject [of g f d d'] that plain(1) assms(3) by (auto simp: step plain_slashless)
  show ?case
  proof (cases "\<exists>g \<in> set fs. p = slash d' g")
    case True
    then obtain g where g: "g \<in> set fs" "p = slash d' g" by blast
    with plain(2) have "plain_file g" by blast
    with Cons.IH [OF rest plain(2)] True g source [of g] show ?thesis by auto
  next
    case False
    with Cons.IH [OF rest plain(2)] step plain(1) show ?thesis by auto
  qed
qed simp

lemma stage_Inr:
  assumes run: "stage_for_packit e (map (slash d) fs) root w = (Inr ys, w')" and name: "text_at e ''name'' = Inr name"
    and plain: "\<forall>f \<in> set fs. plain_file f" and some: "fs \<noteq> []"
  shows "d \<noteq> slash root name"
    and "content w' p = (if \<exists>f \<in> set fs. p = slash (slash root name) f then content w (slash d (path_name p)) else content w p)"
proof -
  from run name have all: "map_io (stage_one (slash root name)) (map (slash d) fs) w = (Inr ys, w')"
    by (auto simp: stage_for_packit_def bind_io_Inr of_result_Inr demand_def split: if_splits)
  from some obtain f gs where fs: "fs = f # gs" by (cases fs) auto
  from all obtain y t where "stage_one (slash root name) (slash d f) w = (Inr y, t)"
    unfolding fs by (auto simp: bind_io_Inr)
  with plain fs show apart: "d \<noteq> slash root name" using stage_one_Inr by auto
  show "content w' p = (if \<exists>f \<in> set fs. p = slash (slash root name) f then content w (slash d (path_name p)) else content w p)"
    by (rule stage_all [OF all plain apart])
qed

subsection \<open>The gate\<close>

lemma verify_one_runs:
  "verify_one env d (f, h) w =
     (case content w (slash d f) of
        None \<Rightarrow> (Inl (ValueError (''staged source does not exist: '' @ slash d f)), w)
      | Some b \<Rightarrow> (if o_sha512 env b = h then Inr (slash d f)
                    else Inl (mismatch ('' for '' @ slash d f) h (o_sha512 env b)), w))"
  by (simp add: verify_one_def bind_io_def demand_def is_file_def read_file_def check_io_def Let_def split: option.split)

lemma verify_all_runs:
  "(\<exists>ps. map_io (verify_one env d) es w = (Inr ps, w)) \<longleftrightarrow> digests_hold env d es w"
proof (induction es)
  case (Cons p es)
  obtain f h where p: "p = (f, h)" by (cases p)
  show ?case
  proof (cases "\<exists>b. content w (slash d f) = Some b \<and> o_sha512 env b = h")
    case True
    then have one: "verify_one env d p w = (Inr (slash d f), w)" by (auto simp: p verify_one_runs)
    have "(\<exists>ps. map_io (verify_one env d) (p # es) w = (Inr ps, w)) \<longleftrightarrow> (\<exists>ps. map_io (verify_one env d) es w = (Inr ps, w))"
      by (auto simp: bind_io_Inr one)
    also have "\<dots> \<longleftrightarrow> digests_hold env d (p # es) w" using Cons.IH True by (auto simp: digests_hold_def p)
    finally show ?thesis .
  next
    case False
    then show ?thesis by (auto simp: p bind_io_Inr digests_hold_def verify_one_runs split: option.splits if_splits)
  qed
qed (simp add: digests_hold_def)

text \<open>What the gate demands of a file name: the manifest's last digest, else the lock's.\<close>

definition pinned_digest :: "string \<Rightarrow> string \<Rightarrow> (string \<times> string) list \<Rightarrow> string \<Rightarrow> string option" where
  "pinned_digest filename hash entries f =
     (case map_of (rev entries) f of Some h \<Rightarrow> Some h | None \<Rightarrow> if f = filename then Some hash else None)"

lemma map_of_expected: "map_of (expected_sources filename hash entries) f = pinned_digest filename hash entries f"
  by (simp add: expected_sources_def map_of_dict_of_pairs pinned_digest_def map_add_def split: option.split)

lemma distinct_expected [simp]: "distinct (map fst (expected_sources filename hash entries))"
  by (simp add: expected_sources_def distinct_dict_of_pairs)

lemma digests_hold_dict:
  assumes "distinct (map fst es)"
  shows "digests_hold env d (filter (\<lambda>p. fst p \<noteq> []) es) w \<longleftrightarrow>
    (\<forall>f h. f \<noteq> [] \<longrightarrow> map_of es f = Some h \<longrightarrow> (\<exists>b. content w (slash d f) = Some b \<and> o_sha512 env b = h))"
proof -
  have "digests_hold env d (filter (\<lambda>p. fst p \<noteq> []) es) w \<longleftrightarrow>
      (\<forall>(f, h) \<in> set es. f \<noteq> [] \<longrightarrow> (\<exists>b. content w (slash d f) = Some b \<and> o_sha512 env b = h))"
    by (auto simp: digests_hold_def list_all_iff split: option.split_asm; force)
  also have "\<dots> \<longleftrightarrow> (\<forall>f h. map_of es f = Some h \<longrightarrow> f \<noteq> [] \<longrightarrow> (\<exists>b. content w (slash d f) = Some b \<and> o_sha512 env b = h))"
    using assms by (auto simp: map_of_eq_Some_iff)
  finally show ?thesis by blast
qed

lemma gate_runs:
  assumes "text_at e ''name'' = Inr name" and "\<not> truthy (dict_get e ''no_upstream_source'' JNull)"
    and "text_get e ''filename'' = Inr filename" and "text_at e ''sha512'' = Inr hash"
  shows "verify_staged_sources env e root w = map_io (verify_one env (slash root name))
    (filter (\<lambda>p. fst p \<noteq> []) (expected_sources filename (lower hash) (manifest_entries (content w (manifest_path name))))) w"
  using assms by (simp add: verify_staged_sources_def bind_io_def of_result_def source_manifest_def)

subsection \<open>One package\<close>

lemma reject_not_accepted: "reject env c r e w \<noteq> (Inr (True, rep), w')"
  by (auto simp: reject_def bind_io_def split: error.splits)

lemma try_reject:
  "try_io m (reject env c r) w = (Inr (True, rep), w') \<longleftrightarrow> m w = (Inr (True, rep), w')"
  by (auto simp: try_io_def reject_not_accepted split: prod.split sum.split)

lemma fetch_package_accepted:
  assumes "fetch_package env cfg e name filename expected url r w = (Inr (True, rep), w')"
  shows "\<exists>resolved fs t. accept_source env e name (slash (fc_output cfg) name) filename expected url w = (Inr (resolved, fs), t) \<and>
    (case fc_stage cfg of None \<Rightarrow> w' = t
     | Some root \<Rightarrow> \<exists>ys. stage_for_packit e (map (slash (slash (fc_output cfg) name)) (filename # fs)) root t = (Inr ys, w'))"
  using assms by (cases "fc_stage cfg") (auto simp: fetch_package_def Let_def try_reject bind_io_Inr)

lemma process_package_accepted:
  assumes "process_package env cfg e w = (Inr (True, r), w')" and "\<not> truthy (dict_get e ''no_upstream_source'' JNull)"
    and "source_url e = Inr url" and "text_at e ''name'' = Inr name" and "target_name e name url = Inr filename"
  shows "\<exists>hash r'. text_at e ''sha512'' = Inr hash \<and>
    fetch_package env cfg e name filename (lower hash) url r' (make_dir (slash (fc_output cfg) name) w) = (Inr (True, r), w')"
  using assms by (auto simp: process_package_def bind_io_Inr of_result_Inr split: if_splits)

text \<open>The configuration of a package the theorems below are about.\<close>

definition plain_run :: "fetch_config \<Rightarrow> lock \<Rightarrow> string \<Rightarrow> string option \<Rightarrow> string \<Rightarrow> bool" where
  "plain_run cfg e name url filename =
     (\<not> truthy (dict_get e ''no_upstream_source'' JNull) \<and> text_at e ''name'' = Inr name \<and>
      source_url e = Inr url \<and> target_name e name url = Inr filename \<and> plain_file filename \<and>
      \<not> below_dir (slash (fc_output cfg) name) (manifest_path name))"

lemma digests_hold_cong:
  "(\<And>f h. (f, h) \<in> set es \<Longrightarrow> content w' (slash d' f) = content w (slash d f)) \<Longrightarrow> digests_hold env d es w \<Longrightarrow> digests_hold env d' es w'"
  by (fastforce simp: digests_hold_def list_all_iff)

lemma plain_entry: "plain_entries name w \<Longrightarrow> (f, h) \<in> set (other_entries name g w) \<Longrightarrow> plain_file f"
  using plain_others [of name w g] by (auto simp: list_all_iff)

lemma other_entry_name: "(f, h) \<in> set (other_entries name g w) \<Longrightarrow> f \<noteq> g"
  by (simp add: other_entries_def)

lemma accepted_package:
  assumes run: "process_package env cfg e w = (Inr (True, r), w')" and plain: "plain_run cfg e name url filename"
    and entries: "plain_entries name w"
  defines "dir \<equiv> slash (fc_output cfg) name"
  obtains hash resolved where "text_at e ''sha512'' = Inr hash"
    and "\<exists>b. content w' (slash dir filename) = Some b \<and> pinned_bytes env e (lower hash) url resolved b"
    and "digests_hold env dir (other_entries name filename w) w'"
    and "content w' (manifest_path name) = content w (manifest_path name)"
    and "\<And>root f. fc_stage cfg = Some root \<Longrightarrow> f = filename \<or> f \<in> fst ` set (other_entries name filename w) \<Longrightarrow>
      content w' (slash (slash root name) f) = content w' (slash dir f)"
proof -
  let ?w = "make_dir dir w"
  from plain have plains: "\<not> truthy (dict_get e ''no_upstream_source'' JNull)" "source_url e = Inr url"
      "text_at e ''name'' = Inr name" "target_name e name url = Inr filename"
    and p: "plain_file filename" "\<not> below_dir dir (manifest_path name)"
    by (auto simp: plain_run_def dir_def)
  obtain hash r' where hash: "text_at e ''sha512'' = Inr hash"
    and fetched: "fetch_package env cfg e name filename (lower hash) url r' ?w = (Inr (True, r), w')"
    using process_package_accepted [OF run plains] unfolding dir_def by blast
  obtain resolved fs t where accept: "accept_source env e name dir filename (lower hash) url ?w = (Inr (resolved, fs), t)"
    and stage: "case fc_stage cfg of None \<Rightarrow> w' = t
      | Some root \<Rightarrow> \<exists>ys. stage_for_packit e (map (slash dir) (filename # fs)) root t = (Inr ys, w')"
    using fetch_package_accepted [OF fetched] unfolding dir_def by blast
  have entries': "plain_entries name ?w" using entries by (simp add: plain_entries_def)
  have others: "other_entries name filename ?w = other_entries name filename w" by (simp add: other_entries_def)
  note accepted = accept_source_Inr [OF accept p(1) entries' p(2), unfolded others]
  have names: "\<forall>f \<in> set (filename # fs). plain_file f"
    using p(1) plain_entry [OF entries] by (auto simp: accepted(2))
  have kept: "content w' q = content t q" if "q = slash dir f \<or> q = manifest_path name" "plain_file f" for q f
  proof (cases "fc_stage cfg")
    case (Some root)
    with stage obtain ys where staged: "stage_for_packit e (map (slash dir) (filename # fs)) root t = (Inr ys, w')" by auto
    note s = stage_Inr [OF staged plains(3) names]
    have manifest: "manifest_path name = slash (recipe_dir name) ''sources''" by (simp add: manifest_path_def slash_def)
    have "q \<noteq> slash (slash root name) g" if "plain_file g" for g
      using \<open>q = _ \<or> _\<close> s(1) slash_inject [of g f "slash root name" dir] slash_inject [of g "''sources''" "slash root name" "recipe_dir name"]
        that \<open>plain_file f\<close> by (auto simp: manifest plain_slashless) (auto simp: plain_file_def)
    with s(2) names show ?thesis by auto
  qed (use stage in simp)
  show thesis
  proof (rule that [OF hash])
    show "\<exists>b. content w' (slash dir filename) = Some b \<and> pinned_bytes env e (lower hash) url resolved b"
      using accepted(1) kept [of "slash dir filename" filename] p(1) by auto
    show "digests_hold env dir (other_entries name filename w) w'"
      by (rule digests_hold_cong [OF _ accepted(3)]) (use kept plain_entry [OF entries] in blast)
    show "content w' (manifest_path name) = content w (manifest_path name)"
      using kept [of "manifest_path name" filename] p(1) accepted(4) by simp
    fix root f
    assume root: "fc_stage cfg = Some root" and f: "f = filename \<or> f \<in> fst ` set (other_entries name filename w)"
    from root stage obtain ys where staged: "stage_for_packit e (map (slash dir) (filename # fs)) root t = (Inr ys, w')" by auto
    from f accepted(2) have f': "f \<in> set (filename # fs)" by auto
    with names have "plain_file f" by blast
    with stage_Inr(2) [OF staged plains(3) names, of "slash (slash root name) f"] f' kept [of "slash dir f" f]
    show "content w' (slash (slash root name) f) = content w' (slash dir f)" by auto
  qed
qed

subsection \<open>A package to evaluate\<close>

text \<open>The address refuses, the mirror serves; the digest of bytes is the bytes themselves.\<close>

definition sample_body :: string where
  "sample_body = replicate 128 CHR ''a''"

definition sample_outside :: outside where
  "sample_outside = \<lparr>o_net = (\<lambda>_ url. if starts_with ''https://src'' url then Served ''text/plain'' sample_body
      else if url = ''https://mirror/x.tar'' then Served ''application/x-tar'' ''body'' else No_Response (Transport ''refused'')),
    o_sha512 = (\<lambda>b. b), o_sha256 = (\<lambda>b. b), o_gpg_import = (\<lambda>_. False), o_gpg_verify = (\<lambda>_ _ _. False),
    o_generate = (\<lambda>_ _ _. Inl CalledProcessError), o_shown = (\<lambda>_. ''error''), o_now = ''now''\<rparr>"

definition sample_lock :: lock where
  "sample_lock = [(''name'', JStr ''p''), (''url'', JStr ''https://host/x.tar''), (''filename'', JStr ''x.tar''),
    (''fallback_urls'', JList [JStr ''https://mirror/x.tar'']), (''sha512'', JStr ''BODY'')]"

definition sample_world :: world where
  "sample_world = \<lparr>w_files = [(''packages/p/sources'', ''SHA512 (y) = '' @ sample_body)], w_dirs = [''packages/p''], w_requests = 0\<rparr>"

definition sample_config :: fetch_config where
  "sample_config = \<lparr>fc_output = ''out'', fc_reports = ''reports'', fc_stage = Some ''packages''\<rparr>"

lemma sample_fetch_accepted: "\<exists>r w'. process_package sample_outside sample_config sample_lock sample_world = (Inr (True, r), w')"
proof -
  have "(case process_package sample_outside sample_config sample_lock sample_world of (Inr (b, _), w) \<Rightarrow> b | _ \<Rightarrow> False)"
    by code_simp
  then show ?thesis by (auto split: prod.splits sum.splits)
qed

lemma sample_plain:
  "plain_run sample_config sample_lock ''p'' (Some ''https://host/x.tar'') ''x.tar''"
  "plain_entries ''p'' sample_world"
  by code_simp+

text \<open>The same with a digest the served bytes do not have, over a file accepted earlier.\<close>

definition sample_repinned :: lock where
  "sample_repinned = AList.update ''sha512'' (JStr ''other'') sample_lock"

definition sample_accepted_world :: world where
  "sample_accepted_world = put_file ''out/p/x.tar'' ''old'' sample_world"

definition sample_tampered :: world where
  "sample_tampered = put_file ''packages/p/x.tar'' ''changed'' sample_world"

text \<open>C4: an accepted package has, in its output directory, exactly the pinned source (the digest of the lock,
  served by the configured address or a mirror, its signature and checksum list checked where the lock
  names them) and every further source of the manifest with the digest the manifest gives.\<close>

theorem accepted_sources_are_pinned:
  assumes "process_package env cfg e w = (Inr (True, r), w')" and "plain_run cfg e name url filename"
    and "plain_entries name w"
  shows "\<exists>hash resolved b. text_at e ''sha512'' = Inr hash \<and>
    content w' (slash (slash (fc_output cfg) name) filename) = Some b \<and>
    pinned_bytes env e (lower hash) url resolved b \<and>
    digests_hold env (slash (fc_output cfg) name) (other_entries name filename w) w'"
  by (rule accepted_package [OF assms]) blast

theorem accepted_sources_are_pinned_witness:
  "\<exists>w' hash resolved b. text_at sample_lock ''sha512'' = Inr hash \<and> content w' ''out/p/x.tar'' = Some b \<and>
     pinned_bytes sample_outside sample_lock (lower hash) (Some ''https://host/x.tar'') resolved b"
proof -
  obtain r w' where run: "process_package sample_outside sample_config sample_lock sample_world = (Inr (True, r), w')"
    using sample_fetch_accepted by blast
  have "slash (slash (fc_output sample_config) ''p'') ''x.tar'' = ''out/p/x.tar''" by code_simp
  with accepted_sources_are_pinned [OF run sample_plain] show ?thesis by auto
qed

text \<open>C30: what was accepted and staged beside the spec passes the gate that runs after Packit, unless the
  manifest gives the lock's own source another digest.\<close>

theorem staged_sources_pass_gate:
  assumes run: "process_package env cfg e w = (Inr (True, r), w')" and plain: "plain_run cfg e name url filename"
    and entries: "plain_entries name w" and root: "fc_stage cfg = Some root"
    and named: "text_get e ''filename'' = Inr filename"
    and agree: "\<And>hash h. text_at e ''sha512'' = Inr hash \<Longrightarrow>
      map_of (manifest_entries (content w (manifest_path name))) filename = Some h \<Longrightarrow> h = lower hash"
  shows "\<exists>ps. verify_staged_sources env e root w' = (Inr ps, w')"
proof -
  let ?es = "manifest_entries (content w (manifest_path name))" and ?d = "slash root name"
  obtain hash resolved where hash: "text_at e ''sha512'' = Inr hash"
    and first: "\<exists>b. content w' (slash (slash (fc_output cfg) name) filename) = Some b \<and> pinned_bytes env e (lower hash) url resolved b"
    and others: "digests_hold env (slash (fc_output cfg) name) (other_entries name filename w) w'"
    and manifest: "content w' (manifest_path name) = content w (manifest_path name)"
    and copies: "\<And>f. f = filename \<or> f \<in> fst ` set (other_entries name filename w) \<Longrightarrow>
      content w' (slash ?d f) = content w' (slash (slash (fc_output cfg) name) f)"
  proof (rule accepted_package [OF run plain entries], goal_cases)
    case (1 hash resolved)
    show ?case by (rule 1(1) [OF 1(2-5)]) (rule 1(6) [OF root])
  qed
  have staged: "digests_hold env ?d (other_entries name filename w) w'"
    by (rule digests_hold_cong [OF _ others]) (rule copies, simp add: rev_image_eqI)
  have single: "map_of (rev ?es) = map_of ?es"
    using entries by (subst map_of_inject_set) (simp_all add: plain_entries_def Let_def rev_map [symmetric])
  have ok: "\<exists>b. content w' (slash ?d f) = Some b \<and> o_sha512 env b = h" if "pinned_digest filename (lower hash) ?es f = Some h" for f h
  proof (cases "f = filename")
    case True
    with that single agree [OF hash] have "h = lower hash"
      by (auto simp: pinned_digest_def split: option.splits)
    with True first copies [of filename] show ?thesis by (auto simp: pinned_bytes_def)
  next
    case False
    with that single have "(f, h) \<in> set (other_entries name filename w)"
      by (auto simp: pinned_digest_def other_entries_def split: option.splits dest: map_of_SomeD)
    with staged show ?thesis by (force simp: digests_hold_def list_all_iff split: option.splits)
  qed
  from plain have p: "text_at e ''name'' = Inr name" "\<not> truthy (dict_get e ''no_upstream_source'' JNull)"
    by (simp_all add: plain_run_def)
  have "digests_hold env ?d (filter (\<lambda>p. fst p \<noteq> []) (expected_sources filename (lower hash) ?es)) w'"
    by (subst digests_hold_dict) (use ok in \<open>simp_all add: map_of_expected\<close>)
  then show ?thesis
    unfolding gate_runs [OF p named hash] manifest verify_all_runs .
qed

theorem staged_sources_pass_gate_witness:
  "\<exists>w' ps. verify_staged_sources sample_outside sample_lock ''packages'' w' = (Inr ps, w') \<and>
     content w' ''packages/p/x.tar'' = Some ''body''"
proof -
  obtain r w' where run: "process_package sample_outside sample_config sample_lock sample_world = (Inr (True, r), w')"
    using sample_fetch_accepted by blast
  have staged: "content (snd (process_package sample_outside sample_config sample_lock sample_world)) ''packages/p/x.tar'' = Some ''body''"
    by code_simp
  have fields: "fc_stage sample_config = Some ''packages''" "text_get sample_lock ''filename'' = Inr ''x.tar''"
    "map_of (manifest_entries (content sample_world (manifest_path ''p''))) ''x.tar'' = None" by code_simp+
  have "\<exists>ps. verify_staged_sources sample_outside sample_lock ''packages'' w' = (Inr ps, w')"
    by (rule staged_sources_pass_gate [OF run sample_plain fields(1,2)]) (simp add: fields(3))
  with staged run show ?thesis by simp blast
qed

text \<open>the gate after Packit accepts the staged directory exactly when every file that the manifest or
  the lock pins is there with its digest; where both pin a file, the manifest decides.\<close>

theorem gate_accepts_exactly:
  assumes "text_at e ''name'' = Inr name" and "\<not> truthy (dict_get e ''no_upstream_source'' JNull)"
    and "text_get e ''filename'' = Inr filename" and "text_at e ''sha512'' = Inr hash"
  shows "(\<exists>ps. verify_staged_sources env e root w = (Inr ps, w)) \<longleftrightarrow>
    (\<forall>f h. f \<noteq> [] \<longrightarrow>
       pinned_digest filename (lower hash) (manifest_entries (content w (manifest_path name))) f = Some h \<longrightarrow>
       (\<exists>b. content w (slash (slash root name) f) = Some b \<and> o_sha512 env b = h))"
  unfolding gate_runs [OF assms] verify_all_runs
  by (subst digests_hold_dict) (simp_all add: map_of_expected)

theorem gate_accepts_exactly_witness:
  "\<not> (\<exists>ps. verify_staged_sources sample_outside sample_lock ''packages'' sample_tampered = (Inr ps, sample_tampered))"
proof -
  have fields: "text_at sample_lock ''name'' = Inr ''p''" "\<not> truthy (dict_get sample_lock ''no_upstream_source'' JNull)"
    "text_get sample_lock ''filename'' = Inr ''x.tar''" "text_at sample_lock ''sha512'' = Inr ''BODY''"
    "pinned_digest ''x.tar'' (lower ''BODY'') (manifest_entries (content sample_tampered (manifest_path ''p''))) ''x.tar'' = Some ''body''"
    "content sample_tampered (slash (slash ''packages'' ''p'') ''x.tar'') = Some ''changed''"
    "o_sha512 sample_outside ''changed'' = ''changed''"
    by code_simp+
  show ?thesis unfolding gate_accepts_exactly [OF fields(1-4)] using fields(5-7) by force
qed

subsection \<open>Whatever happens\<close>

text \<open>No run, accepted, rejected or broken off, puts other bytes than the lock's in the place of a source.\<close>

lemma reject_keeps: "slash d f \<noteq> c \<Longrightarrow> keeps (\<lambda>w. Q (content w (slash d f))) (reject env c r e)"
  by (cases e) (auto simp: reject_def intro!: keeps_rules)

lemma keeps_triple: "triple P m Q (\<lambda>_. P) \<Longrightarrow> (\<And>x w. Q x w \<Longrightarrow> P w) \<Longrightarrow> keeps P m"
  unfolding keeps_def by (erule triple_weaken) auto

lemma keepsI: "(\<And>w r w'. P w \<Longrightarrow> m w = (r, w') \<Longrightarrow> P w') \<Longrightarrow> keeps P m"
  by (force simp: keeps_def triple_def split: prod.splits sum.splits)

lemma path_name_slashless [simp]: "CHR ''/'' \<notin> set (path_name s)"
proof (cases "filter (\<lambda>p. p \<noteq> [] \<and> p \<noteq> ''.'') (split_on CHR ''/'' s) = []")
  case False
  let ?ps = "filter (\<lambda>p. p \<noteq> [] \<and> p \<noteq> ''.'') (split_on CHR ''/'' s)"
  have "last ?ps \<in> set (split_on CHR ''/'' s)" using last_in_set [OF False] by auto
  moreover have "path_name s = last ?ps" using False unfolding path_name_def by (cases ?ps) auto
  ultimately show ?thesis using split_on_parts by metis
qed (simp add: path_name_def)

lemma stage_keeps:
  assumes "plain_file f"
  shows "keeps (\<lambda>w. Q (content w (slash d f))) (stage_for_packit e (slash d f # gs) root)"
proof -
  have copy: "keeps (\<lambda>w. Q (content w (slash d f))) (stage_one d' g)" if "d' \<noteq> d" for d' g
  proof -
    have "slash d' (path_name g) \<noteq> slash d f" using slash_inject [of "path_name g" f d' d] that plain_slashless [OF assms] by auto
    then show ?thesis unfolding stage_one_def copy_file_def check_io_def read_file_def Let_def
      by (auto intro!: keeps_rules)
  qed
  have all: "keeps (\<lambda>w. Q (content w (slash d f))) (map_io (stage_one d') (slash d f # gs))" for d'
  proof (cases "d' = d")
    case True
    show ?thesis
    proof (rule keepsI)
      fix w r w' assume Q: "Q (content w (slash d f))" and run: "map_io (stage_one d') (slash d f # gs) w = (r, w')"
      have "\<exists>x. stage_one d' (slash d f) w = (Inl x, w)"
        using assms True by (cases "content w (slash d f)")
          (simp_all add: stage_one_def copy_file_def bind_io_def read_file_def check_io_def Let_def)
      with run Q show "Q (content w' (slash d f))" by (auto simp: bind_io_def)
    qed
  next
    case False
    then show ?thesis by (intro keeps_map_io copy)
  qed
  show ?thesis unfolding stage_for_packit_def of_result_def demand_def by (intro keeps_rules all)
qed

lemma fetch_package_keeps:
  fixes cfg :: fetch_config and name filename expected :: string and env :: outside and was :: "string option"
  assumes "plain_file filename"
  defines "final \<equiv> slash (slash (fc_output cfg) name) filename"
  shows "keeps (final_ok final was (\<lambda>b. o_sha512 env b = expected))
    (fetch_package env cfg e name filename expected url r)"
proof -
  let ?dir = "slash (fc_output cfg) name"
  let ?Q = "\<lambda>c. c = was \<or> (\<exists>b. c = Some b \<and> o_sha512 env b = expected)"
  have Q: "final_ok final was (\<lambda>b. o_sha512 env b = expected) = (\<lambda>w. ?Q (content w final))"
    by (rule ext) (simp add: final_ok_def)
  have "keeps (final_ok final was (\<lambda>b. o_sha512 env b = expected)) (accept_source env e name ?dir filename expected url)"
    unfolding final_def
    by (rule keeps_triple, rule accept_triple [OF assms(1)]) (auto simp: pinned_bytes_def final_ok_def)
  note accept = this [unfolded Q]
  have reject: "keeps (\<lambda>w. ?Q (content w final)) (reject env (slash ?dir (filename @ ''.candidate'')) r' x)" for r' x
    unfolding final_def by (rule reject_keeps) simp
  have stage: "keeps (\<lambda>w. ?Q (content w final)) (stage_for_packit e (final # gs) root)" for gs root
    unfolding final_def by (rule stage_keeps [OF assms(1)])
  show ?thesis
    unfolding Q fetch_package_def Let_def final_def [symmetric]
    by (intro keeps_rules accept reject) (auto intro!: keeps_rules reject stage split: prod.split option.split)
qed



end
