(* ===== verification/Repository_Contract.thy ===== *)
theory Repository_Contract
  imports Validate Source_Staging
begin

section \<open>What a validated repository guarantees\<close>

text \<open>
  From the exit status of \<open>validate.py\<close> to the recipes, the build root and the sources: the provenance of
  every recipe, the pin kept by moving it, and, composed with the source pipeline, that no line of a
  manifest is passed over and no plaintext address is fetched from.
\<close>

subsection \<open>The checks one by one\<close>

lemma stop_if_Inr [simp]: "stop_if b m = Inr u \<longleftrightarrow> \<not> b"
  by (simp add: stop_if_def assert_r_def)

lemma split_on_second:
  "split_on c s = p # q # r \<Longrightarrow> starts_with (p @ [c]) s"
proof (induction s arbitrary: p)
  case (Cons x xs)
  show ?case
  proof (cases "x = c")
    case False
    with Cons.prems obtain w where "split_on c xs = w # q # r" "p = x # w" by (auto split: list.splits)
    with Cons.IH False show ?thesis by simp
  qed (use Cons.prems in simp)
qed simp

lemma recipe_of_packages: "recipe_of path = Some d \<Longrightarrow> starts_with ''packages/'' path"
proof -
  assume "recipe_of path = Some d"
  then have "hd (split_on CHR ''/'' path) = ''packages''" "2 < length (split_on CHR ''/'' path)"
    by (auto simp: recipe_of_def Let_def split: if_splits)
  then obtain q r where "split_on CHR ''/'' path = ''packages'' # q # r"
    by (cases "split_on CHR ''/'' path"; cases "tl (split_on CHR ''/'' path)") auto
  from split_on_second [OF this] show ?thesis by simp
qed

lemma recipe_dirs_packages:
  assumes "d \<in> set (recipe_dirs t)"
  shows "list_ex (\<lambda>(path, _). starts_with ''packages/'' path) t"
proof -
  from assms obtain x where "x \<in> set t" "recipe_of (fst x) = Some d"
    by (auto simp: recipe_dirs_def sorted_set_def set_map_filter)
  then show ?thesis using recipe_of_packages by (force simp: list_ex_iff case_prod_unfold)
qed

lemma missing_report_empty [simp]: "missing_report what names = [] \<longleftrightarrow> names = []"
  by (simp add: missing_report_def)

lemma validate_ok:
  assumes "validate t = Inr (0, printed)" and "d \<in> set (recipe_dirs t)"
  shows "check_recipe t d = Inr ()" and "check_suppressed_tests t = 0" and "validate_buildroots t = Inr ()"
    and "check_plaintext_source_urls t = Inr ()" and "check_sources_digests t = Inr ()"
    and "\<exists>rs. tree_inventory t = Inr rs \<and>
      list_all (\<lambda>r. source_locked r \<and> packit_configured r \<and> provenance_branch r \<noteq> None) rs"
proof -
  from assms(1) recipe_dirs_packages [OF assms(2)] obtain us rs where
      recipes: "map_r (check_recipe t) (recipe_dirs t) = Inr us"
    and checks: "validate_buildroots t = Inr ()" "check_plaintext_source_urls t = Inr ()" "check_sources_digests t = Inr ()"
    and rs: "tree_inventory t = Inr rs" and ok: "check_suppressed_tests t = 0"
    and none: "filter (\<lambda>r. \<not> source_locked r) rs = []" "filter (\<lambda>r. \<not> packit_configured r) rs = []"
      "filter (\<lambda>r. provenance_branch r = None) rs = []"
    by (auto simp: validate_def bind_r_Inr Let_def split: if_splits)
  from map_r_mem [OF recipes assms(2)] show "check_recipe t d = Inr ()" by auto
  show "\<exists>rs. tree_inventory t = Inr rs \<and>
      list_all (\<lambda>r. source_locked r \<and> packit_configured r \<and> provenance_branch r \<noteq> None) rs"
    using rs none by (auto simp: list_all_iff filter_empty_conv)
  show "check_suppressed_tests t = 0" "validate_buildroots t = Inr ()" "check_plaintext_source_urls t = Inr ()"
    "check_sources_digests t = Inr ()" by (fact ok checks)+
qed

subsection \<open>Recipes\<close>

text \<open>What the provenance of a recipe says when it is accepted.\<close>

definition sound_provenance :: "string \<Rightarrow> (string, json) dict \<Rightarrow> bool" where
  "sound_provenance d kvs =
     (let get = (\<lambda>k. dict_get kvs k JNull);
          pinned = (\<lambda>k. case get k of JStr s \<Rightarrow> sha_40 s | _ \<Rightarrow> False) in
      set (map fst kvs) = set provenance_keys \<and> get ''package'' = JStr d \<and>
      (get ''branch'' = JStr ''upstream'' \<and> \<not> truthy (get ''commit'') \<and> \<not> truthy (get ''tree'') \<and> truthy (get ''remote'') \<or>
       get ''branch'' = JStr ''rawhide'' \<and> pinned ''commit'' \<and> pinned ''tree'' \<or>
       get ''branch'' = JStr ''master'' \<and> pinned ''commit'' \<and> pinned ''tree'' \<and>
         (get ''remote'' = JStr (concat [''https://github.com/rpmfusion/'', d, ''.git'']) \<or>
          get ''remote'' = JStr (concat [''https://github.com/negativo17/'', d, ''.git'']))))"

lemma check_pinned_key_ok:
  "check_pinned_key b k v = Inr () \<longleftrightarrow> (case v of JStr s \<Rightarrow> sha_40 s | _ \<Rightarrow> False)"
  by (cases v) (auto simp: check_pinned_key_def as_text_def sha_40_def)

lemma check_provenance_ok: "check_provenance d (JObj kvs) = Inr () \<longleftrightarrow> sound_provenance d kvs"
proof -
  have keys: "set (map fst kvs) \<subseteq> K \<and> K \<subseteq> set (map fst kvs) \<longleftrightarrow> set (map fst kvs) = K" for K by blast
  show ?thesis
    unfolding check_provenance_def sound_provenance_def Let_def json.case keys
    by (cases "dict_get kvs ''branch'' JNull") (auto simp: bind_r_Inr check_pinned_key_ok as_text_def)
qed

lemma fold_r_add_keys:
  assumes "\<And>x s s'. f x s = Inr s' \<Longrightarrow> set (map fst s') = insert (g x) (set (map fst s))"
  shows "fold_r f xs s = Inr s' \<Longrightarrow> set (map fst s') = set (map fst s) \<union> g ` set xs"
proof (induction xs arbitrary: s)
  case (Cons x xs)
  then obtain s1 where s1: "f x s = Inr s1" and rest: "fold_r f xs s1 = Inr s'" by (auto simp: bind_r_Inr)
  from Cons.IH [OF rest] assms [OF s1] show ?case by simp
qed simp

lemma fold_r_each:
  "fold_r f xs s = Inr s' \<Longrightarrow> x \<in> set xs \<Longrightarrow> \<exists>a b. f x a = Inr b"
  by (induction xs arbitrary: s) (auto simp: bind_r_Inr)

lemma spec_per_package_keys:
  assumes "spec_per_package dirs = Inr specs"
  shows "set (map fst specs) = dname ` set dirs"
proof -
  have "set (map fst s') = insert (dname d) (set (map fst s))"
    if "(if length (dspecs d) \<noteq> 1 then Inl (ValueError (''expected exactly one spec in '' @ dname d))
       else if dict_has s (dname d) then Inl (ValueError (''duplicate spec directory: '' @ dname d))
       else Inr (AList.update (dname d) (hd (sort (dspecs d))) s)) = Inr s'" for d :: pkg_dir and s s'
  proof -
    from that have "s' = AList.update (dname d) (hd (sort (dspecs d))) s" by (simp split: if_splits)
    then show ?thesis by (simp add: dom_update)
  qed
  from fold_r_add_keys [OF this assms [unfolded spec_per_package_def]] show ?thesis by simp
qed

lemma spec_per_package_one:
  "spec_per_package dirs = Inr specs \<Longrightarrow> x \<in> set dirs \<Longrightarrow> length (dspecs x) = 1"
  unfolding spec_per_package_def by (drule fold_r_each [where x = x]) (auto split: if_splits)

lemma inventory_Inr:
  assumes "inventory dirs entries s = Inr rs"
  shows "\<exists>specs locks names. spec_per_package dirs = Inr specs \<and> load_source_locks entries = Inr locks \<and>
    package_names s = Inr names \<and> map pname rs = map fst specs \<and>
    (\<forall>r \<in> set rs. source_locked r = dict_has locks (pname r) \<and> packit_configured r = (pname r \<in> set names))"
  using assms by (auto simp: inventory_def bind_r_Inr o_def case_prod_unfold)

lemma tree_inventory_complete:
  assumes "tree_inventory t = Inr rs" and "list_all (\<lambda>r. source_locked r \<and> packit_configured r \<and> provenance_branch r \<noteq> None) rs"
    and "d \<in> set (recipe_dirs t)"
  shows "length (directory_specs t d) = 1"
    and "\<exists>entries locks. lock_items t = Inr entries \<and> load_source_locks entries = Inr locks \<and> dict_has locks d"
    and "\<exists>s names. map_of t packit_path = Some s \<and> package_names s = Inr names \<and> d \<in> set names"
proof -
  let ?bare = "\<lambda>d. \<lparr>dname = d, dspecs = directory_specs t d, dprov = None\<rparr>"
  from assms(1) obtain s0 entries s dirs where
      s0: "spec_per_package (map ?bare (recipe_dirs t)) = Inr s0" and items: "lock_items t = Inr entries"
    and s: "map_of t packit_path = Some s" and dirs: "map_r (tree_dir t) (recipe_dirs t) = Inr dirs"
    and inv: "inventory dirs entries s = Inr rs"
    by (auto simp: tree_inventory_def bind_r_Inr split: option.splits)
  from inventory_Inr [OF inv] obtain specs locks names where parts: "spec_per_package dirs = Inr specs" "load_source_locks entries = Inr locks" "package_names s = Inr names"
    and rs: "map pname rs = map fst specs" "\<forall>r \<in> set rs. source_locked r = dict_has locks (pname r) \<and> packit_configured r = (pname r \<in> set names)"
    by blast
  show "length (directory_specs t d) = 1"
    using spec_per_package_one [OF s0, of "?bare d"] assms(3) by simp
  from map_r_mem [OF dirs assms(3)] obtain x where "x \<in> set dirs" "dname x = d"
    by (auto simp: tree_dir_def bind_r_Inr)
  then have "d \<in> set (map pname rs)" unfolding rs(1) spec_per_package_keys [OF parts(1)] by blast
  then obtain r where r: "r \<in> set rs" "pname r = d" by auto
  with rs(2) assms(2) have "dict_has locks d" "d \<in> set names" by (auto simp: list_all_iff)
  with items s parts show "\<exists>entries locks. lock_items t = Inr entries \<and> load_source_locks entries = Inr locks \<and> dict_has locks d"
    "\<exists>s names. map_of t packit_path = Some s \<and> package_names s = Inr names \<and> d \<in> set names" by blast+
qed

text \<open>in a validated repository every recipe has one spec, a sound provenance in its own name (an exact
  snapshot unless it was written here), a source lock and a Packit entry, and suppresses no more tests
  than were recorded.\<close>

theorem validated_recipes:
  assumes "validate t = Inr (0, printed)" and "d \<in> set (recipe_dirs t)"
  shows "length (directory_specs t d) = 1 \<and>
    (\<exists>s kvs. map_of t (provenance_path d) = Some s \<and> loads s = Inr (JObj kvs) \<and> sound_provenance d kvs) \<and>
    (\<exists>entries locks. lock_items t = Inr entries \<and> load_source_locks entries = Inr locks \<and> dict_has locks d) \<and>
    (\<exists>s names. map_of t packit_path = Some s \<and> package_names s = Inr names \<and> d \<in> set names) \<and>
    list_all (\<lambda>k. suppressed t k d = allowed k d) suppressions"
proof -
  note ok = validate_ok [OF assms]
  from ok(6) obtain rs where rs: "tree_inventory t = Inr rs"
    "list_all (\<lambda>r. source_locked r \<and> packit_configured r \<and> provenance_branch r \<noteq> None) rs" by blast
  note inv = tree_inventory_complete [OF rs assms(2)]
  from ok(1) obtain s v where s: "map_of t (provenance_path d) = Some s" "loads s = Inr v" "check_provenance d v = Inr ()"
    by (auto simp: check_recipe_def bind_r_Inr split: option.splits)
  then obtain kvs where "v = JObj kvs" by (cases v) (auto simp: check_provenance_def)
  with s check_provenance_ok have "\<exists>s kvs. map_of t (provenance_path d) = Some s \<and> loads s = Inr (JObj kvs) \<and> sound_provenance d kvs"
    by blast
  moreover from inv(1) have "directory_specs t d \<noteq> []" by auto
  then obtain sp where "sp \<in> set (spec_files t)" "sp_package sp = d"
    by (auto simp: directory_specs_def filter_empty_conv)
  then have "list_all (\<lambda>k. suppressed t k d = allowed k d) suppressions"
    using ok(2) unfolding ratchet_exact list_all_iff by blast
  ultimately show ?thesis using inv by blast
qed

subsection \<open>The build root\<close>

lemma pin_lines:
  assumes "list_all pin_char v" and "v \<noteq> []"
  shows "parse_pin (v @ [CHR 0x0A]) = (if is_mirror_pin v \<or> match_here legacy_pin_re v then Inr v
    else Inl (ValueError (''not a build-root pin: '' @ v)))"
proof -
  have chars: "\<not> is_space c \<and> \<not> is_line_end c \<and> c \<noteq> CHR ''#''" if "c \<in> set v" for c
    using assms(1) that by (auto simp: list_all_iff pin_char_def)
  have "splitlines (v @ [CHR 0x0A]) = [v]"
    using splitlines_from_line [of v "[]" "[]"] chars by (simp add: splitlines_def)
  moreover have "strip v = v" using chars assms(2) by (intro strip_id) auto
  moreover have "lstrip v = v" using chars [of "hd v"] assms(2) by (cases v) (auto simp: lstrip_def)
  moreover have "\<not> starts_with ''#'' v" using chars [of "hd v"] assms(2) by (cases v) auto
  ultimately show ?thesis using assms(2) by (simp add: parse_pin_def pin_values_def)
qed

lemma read_json_Inr: "read_json m s = Inr v \<longleftrightarrow> loads s = Inr v"
  by (auto simp: read_json_def split: sum.splits)

definition moved_roots :: "string \<Rightarrow> (string, json) dict \<Rightarrow> (string, json) dict" where
  "moved_roots v = map (\<lambda>(n, br). (n, move_image v br))"

lemma move_image_simp [simp]: "move_image v (JObj kvs) = JObj (AList.update ''image'' (JStr v) kvs)"
  by (simp add: move_image_def)

lemma check_root_moved:
  assumes "check_root (n, JObj kvs) = Inr ()" and "contains ''@sha256:'' v"
  shows "check_root (n, move_image v (JObj kvs)) = Inr ()"
  using assms by (auto simp: check_root_def bind_r_Inr digest_pinned_def dict_get_def get_or_def update_conv')

lemma lock_roots_Inr:
  "lock_roots e data = Inr rs \<longleftrightarrow>
     (\<exists>kvs. data = JObj kvs \<and> py_eq (dict_get kvs ''schema'' JNull) (JInt 1) \<and> dict_get kvs ''buildroots'' JNull = JObj rs)"
  by (cases data) (auto simp: lock_roots_def get_or_def bind_r_Inr dict_get_def split: json.splits option.splits if_splits)

lemma wf_moved: "wf_json (JObj rs) \<Longrightarrow> wf_json (JObj (moved_roots v rs))"
proof -
  have each: "wf_json br \<Longrightarrow> wf_json (move_image v br)" for br
    by (cases br) (auto simp: move_image_def intro: wf_update simp del: wf_json.simps(2))
  show "wf_json (JObj rs) \<Longrightarrow> wf_json (JObj (moved_roots v rs))"
    using each by (auto simp: moved_roots_def list_all_iff case_prod_unfold o_def)
qed

lemma map_r_all: "(\<And>x. x \<in> set xs \<Longrightarrow> \<exists>y. f x = Inr y) \<Longrightarrow> \<exists>ys. map_r f xs = Inr ys"
  by (induction xs) (auto simp: bind_r_Inr)

text \<open>moving the pin keeps the build root contract: afterwards the lock is still valid and names the
  pinned image for every root.\<close>

theorem pin_move_keeps_contract:
  assumes valid: "validate_buildroots t = Inr ()" and move: "set_pin v t = Inr t'" and line: "CHR 0x0A \<notin> set v"
  shows "validate_buildroots t' = Inr ()"
proof -
  from move have pin: "is_mirror_pin v" by (auto simp: set_pin_def split: if_splits)
  note shape = mirror_pin_shape [OF pin line]
  from valid obtain s data rs us where s: "map_of t buildroot_lock_path = Some s" "loads s = Inr data"
    and rs: "lock_roots (SystemExit (''invalid buildroot lock: '' @ buildroot_lock_path)) data = Inr rs" "rs \<noteq> []"
    and roots: "map_r check_root rs = Inr us"
    by (auto simp: validate_buildroots_def bind_r_Inr read_json_Inr split: option.splits if_splits)
  from rs(1) obtain kvs where data: "data = JObj kvs" and schema: "py_eq (dict_get kvs ''schema'' JNull) (JInt 1)"
    and br: "dict_get kvs ''buildroots'' JNull = JObj rs" by (auto simp: lock_roots_Inr)
  have object: "\<exists>fs. snd x = JObj fs \<and> check_root (fst x, JObj fs) = Inr ()" if x: "x \<in> set rs" for x
  proof -
    from map_r_mem [OF roots x] have "check_root (fst x, snd x) = Inr ()" by auto
    then show ?thesis by (cases "snd x") (auto simp: check_root_def bind_r_Inr digest_pinned_def)
  qed
  let ?lock = "JObj (AList.update ''buildroots'' (JObj (moved_roots v rs)) kvs)"
  have "list_all (\<lambda>(_, br). is_object br) rs" using object by (fastforce simp: list_all_iff is_object_def)
  then have lock: "moved_lock v s = Inr ?lock"
    using s(2) br by (simp add: moved_lock_def data get_or_def dict_get_def moved_roots_def split: option.splits)
  with move pin s data have t': "t' = AList.update buildroot_lock_path (dumps_indent ?lock @ [CHR 0x0A])
      (AList.update pin_path (v @ [CHR 0x0A]) t)"
    by (simp add: set_pin_def Let_def)
  have wf: "wf_json (JObj kvs)" using loads_wf [OF s(2)] data by simp
  have "wf_json (JObj rs)" using wf_value [OF wf, of "''buildroots''"] br
    by (auto simp: dict_get_def simp del: wf_json.simps split: option.splits)
  then have "wf_json (JObj (moved_roots v rs))" by (rule wf_moved)
  with wf have "wf_json ?lock" by (rule wf_update)
  then have read: "loads (dumps_indent ?lock @ [CHR 0x0A]) = Inr ?lock" by (rule loads_dumps_indent)
  have moved: "lock_roots e ?lock = Inr (moved_roots v rs)" for e
    using schema by (simp add: lock_roots_Inr dict_get_def update_conv')
  have each: "\<exists>n fs. y = (n, JObj (AList.update ''image'' (JStr v) fs)) \<and> check_root y = Inr ()"
    if y: "y \<in> set (moved_roots v rs)" for y
  proof -
    from y obtain x where x: "x \<in> set rs" "y = (fst x, move_image v (snd x))" by (auto simp: moved_roots_def)
    from object [OF x(1)] obtain fs where fs: "snd x = JObj fs" "check_root (fst x, JObj fs) = Inr ()" by blast
    from check_root_moved [OF fs(2) shape(3)] fs(1) x(2) show ?thesis by auto
  qed
  have "\<exists>us. map_r check_root (moved_roots v rs) = Inr us" by (rule map_r_all) (use each in blast)
  moreover have "\<exists>us. map_r (\<lambda>(name, br). bind_r (item br ''image'') (\<lambda>img.
      stop_if (img \<noteq> JStr v) (concat [''buildroot drift: '', name, '' is not locked to '', v]))) (moved_roots v rs) = Inr us"
    by (rule map_r_all) (use each in \<open>fastforce simp: item_def bind_r_Inr update_conv'\<close>)
  then have "check_buildroot_drift (moved_roots v rs) t' = Inr ()"
    using pin_lines [OF shape(1,2)] pin
    by (auto simp: check_buildroot_drift_def t' update_conv' pin_path_def buildroot_lock_path_def bind_r_Inr)
  moreover have "moved_roots v rs \<noteq> []" using rs(2) by (simp add: moved_roots_def)
  ultimately show ?thesis using read moved
    by (auto simp: validate_buildroots_def t' update_conv' bind_r_Inr read_json_Inr)
qed

text \<open>A line end at the end of the new pin passes the pattern, and breaks the contract.\<close>

definition sample_pin :: "string \<Rightarrow> string" where
  "sample_pin label = concat [mirror, '':'', label, ''@sha256:'', replicate 64 CHR ''a'']"

definition sample_checkout :: "string \<Rightarrow> rev_tree" where
  "sample_checkout label = [(pin_path, sample_pin label @ [CHR 0x0A]),
     (buildroot_lock_path, dumps_default (JObj [(''schema'', JInt 1), (''buildroots'', JObj [(''f'', JObj [(''image'', JStr (sample_pin label))])])]))]"

theorem pin_move_keeps_contract_witness:
  "\<exists>t'. set_pin (sample_pin ''b'') (sample_checkout ''a'') = Inr t' \<and> validate_buildroots t' = Inr ()"
proof -
  have valid: "validate_buildroots (sample_checkout ''a'') = Inr ()" by code_simp
  have "case set_pin (sample_pin ''b'') (sample_checkout ''a'') of Inr _ \<Rightarrow> True | Inl _ \<Rightarrow> False" by code_simp
  then obtain t' where t': "set_pin (sample_pin ''b'') (sample_checkout ''a'') = Inr t'" by (auto split: sum.splits)
  have "CHR 0x0A \<notin> set (sample_pin ''b'')" by code_simp
  from pin_move_keeps_contract [OF valid t' this] t' show ?thesis by blast
qed

lemma line_end_breaks_pin:
  "case set_pin (sample_pin ''b'' @ [CHR 0x0A]) (sample_checkout ''a'') of
     Inl _ \<Rightarrow> False | Inr t' \<Rightarrow> validate_buildroots t' \<noteq> Inr ()"
  by code_simp

subsection \<open>The sources\<close>

lemma manifest_lines_pinned:
  assumes "check_sources_digests t = Inr ()" and "d \<in> set (recipe_dirs t)" and "map_of t (manifest_path d) = Some s"
    and "l \<in> set (splitlines s)" and "strip l \<noteq> []"
  shows "\<exists>f h. sha512_line (strip l) = Some (f, h) \<and> (f, h) \<in> set (manifest_entries (map_of t (manifest_path d)))"
proof -
  from assms(1,2) have "bad_manifest_line t d = None"
    by (auto simp: check_sources_digests_def Let_def map_filter_def filter_empty_conv)
  with assms(3-5) have "sha512_line (strip l) \<noteq> None"
    by (auto simp: bad_manifest_line_def find_None_iff)
  then obtain f h where "sha512_line (strip l) = Some (f, h)" by auto
  with assms(3,4) show ?thesis by (auto simp: manifest_entries_def set_map_filter)
qed

lemma sort_empty [simp]: "sort (xs :: string list) = [] \<longleftrightarrow> xs = []"
  by (metis set_empty set_sort)

lemma checked_not_plaintext:
  assumes "check_plaintext_source_urls t = Inr ()" and "lock_objects t = Inr es" and "e \<in> set es" and "JStr u \<in> set (checked_urls e)"
  shows "\<not> plaintext_url u"
proof -
  from assms(1,2) obtain us where us: "map_r plaintext_urls es = Inr us" "concat us = []"
    by (auto simp: check_plaintext_source_urls_def plaintext_source_urls_def bind_r_Inr simp del: concat_eq_Nil_conv)
  from map_r_mem [OF us(1) assms(3)] us(2) have none: "plaintext_urls e = Inr []" by auto
  have "filter plaintext_url (List.map_filter (\<lambda>v. case v of JStr u \<Rightarrow> Some u | _ \<Rightarrow> None) (checked_urls e)) = []"
  proof (rule ccontr)
    assume "filter plaintext_url (List.map_filter (\<lambda>v. case v of JStr u \<Rightarrow> Some u | _ \<Rightarrow> None) (checked_urls e)) \<noteq> []"
    with none show False by (auto simp: plaintext_urls_def Let_def bind_r_Inr)
  qed
  with assms(4) show ?thesis by (force simp: filter_empty_conv set_map_filter)
qed

lemma fetched_url_checked:
  assumes "source_url e = Inr (Some url)" and "dict_has e ''url''" and "fallbacks e = Inr others" and "u \<in> set (url # others)"
    and "string_list (dict_get e ''fallback_urls'' (JList []))"
  shows "JStr u \<in> set (checked_urls e)"
proof -
  from assms(1,2) have "dict_get e ''url'' JNull = JStr url"
    by (auto simp: source_url_def Let_def bind_r_Inr text_at_def as_text_Inr dict_index_def dict_get_def split: if_splits option.splits)
  moreover have "\<exists>us. dict_get e ''fallback_urls'' JNull = JList us \<and> JStr u \<in> set us" if u: "u \<in> set others"
  proof -
    from assms(5) obtain us where us: "dict_get e ''fallback_urls'' (JList []) = JList us"
      by (auto simp: string_list_def split: json.splits)
    with assms(3) have "map_r as_text us = Inr others" by (simp add: fallbacks_def as_texts_def iterate_def)
    with u have "JStr u \<in> set us" by (auto simp: map_r_source as_text_Inr dest!: map_r_source)
    with us show ?thesis by (cases "map_of e ''fallback_urls''") (auto simp: dict_get_def)
  qed
  ultimately show ?thesis using assms(4) by (auto simp: checked_urls_def)
qed

lemma process_package_list:
  assumes "process_package env cfg e w = (Inr (True, r), w')" and "\<not> truthy (dict_get e ''no_upstream_source'' JNull)"
    and "source_url e = Inr (Some url)"
  shows "string_list (dict_get e ''fallback_urls'' (JList []))"
proof -
  have "dict_get e ''generate'' JNull = JNull"
    using assms(3) by (auto simp: source_url_def Let_def bind_r_Inr split: if_splits)
  with assms show ?thesis by (auto simp: process_package_def bind_io_Inr of_result_Inr split: if_splits)
qed

text \<open>A line of a manifest whose file is there with the digest the line gives.\<close>

definition line_served :: "outside \<Rightarrow> string \<Rightarrow> string \<Rightarrow> world \<Rightarrow> string \<Rightarrow> bool" where
  "line_served env dir filename w l =
     (case sha512_line (strip l) of
        None \<Rightarrow> strip l = []
      | Some (f, h) \<Rightarrow> f = filename \<or> (case content w (slash dir f) of None \<Rightarrow> False | Some b \<Rightarrow> o_sha512 env b = h))"

text \<open>C6: from a validated repository an accepted package has its source with the digest of its lock, served
  by an address of the lock that is not plaintext, and a file for every line of its manifest, with the
  digest the line gives; no line is passed over.\<close>

theorem validated_sources_complete:
  assumes valid: "validate t = Inr (0, printed)" "name \<in> set (recipe_dirs t)"
    and run: "process_package env cfg e w = (Inr (True, r), w')" "plain_run cfg e name (Some url) filename" "plain_entries name w"
    and lock: "lock_objects t = Inr es" "e \<in> set es" "dict_has e ''url''"
    and checkout: "map_of t (manifest_path name) = Some s" "content w (manifest_path name) = Some s"
  shows "\<exists>hash resolved b. text_at e ''sha512'' = Inr hash \<and>
      content w' (slash (slash (fc_output cfg) name) filename) = Some b \<and> o_sha512 env b = lower hash \<and>
      served env resolved b \<and> \<not> plaintext_url resolved \<and>
      list_all (line_served env (slash (fc_output cfg) name) filename w') (splitlines s)"
proof -
  note ok = validate_ok [OF valid]
  from run(2) have plain: "\<not> truthy (dict_get e ''no_upstream_source'' JNull)" "source_url e = Inr (Some url)"
    by (simp_all add: plain_run_def)
  from accepted_sources_are_pinned [OF run] obtain hash resolved b where b: "text_at e ''sha512'' = Inr hash"
      "content w' (slash (slash (fc_output cfg) name) filename) = Some b" "pinned_bytes env e (lower hash) (Some url) resolved b"
    and others: "digests_hold env (slash (fc_output cfg) name) (other_entries name filename w) w'" by blast
  from b(3) obtain us where us: "fallbacks e = Inr us" "resolved \<in> set (url # us)" and from_net: "served env resolved b"
    and hash: "o_sha512 env b = lower hash" by (auto simp: pinned_bytes_def from_upstream_def)
  have "JStr resolved \<in> set (checked_urls e)"
    by (rule fetched_url_checked [OF plain(2) lock(3) us process_package_list [OF run(1) plain]])
  then have "\<not> plaintext_url resolved" by (rule checked_not_plaintext [OF ok(4) lock(1,2)])
  moreover have "line_served env (slash (fc_output cfg) name) filename w' l" if l: "l \<in> set (splitlines s)" for l
  proof (cases "strip l = []")
    case True
    then show ?thesis by (simp add: line_served_def sha512_line_def Let_def)
  next
    case False
    from manifest_lines_pinned [OF ok(5) valid(2) checkout(1) l False] obtain f h where
      f: "sha512_line (strip l) = Some (f, h)" "(f, h) \<in> set (manifest_entries (Some s))" using checkout(1) by auto
    have "f = filename \<or> (f, h) \<in> set (other_entries name filename w)" using f(2) checkout(2) by (auto simp: other_entries_def)
    with others f(1) show ?thesis by (auto simp: line_served_def digests_hold_def list_all_iff split: option.splits)
  qed
  ultimately show ?thesis using b hash from_net by (auto simp: list_all_iff)
qed

definition sample_repository :: rev_tree where
  "sample_repository = sample_checkout ''a'' @
     [(''packages/p/p.spec'', ''%check''), (''packages/p/sources'', ''SHA512 (y) = '' @ sample_body),
      (''packages/p/.hummingbird-upstream.json'', dumps_default (JObj [(''package'', JStr ''p''), (''branch'', JStr ''upstream''),
         (''remote'', JStr ''https://host/p''), (''commit'', JNull), (''tree'', JNull), (''imported_at'', JStr ''now'')])),
      (lock_path, dumps_default (JObj [(''packages'', JList [JObj sample_lock])])),
      (packit_path, ''packages:'' @ [CHR 0x0A] @ ''  p:'' @ [CHR 0x0A])]"

lemma sample_valid: "validate sample_repository = Inr (0, [''validated 1 source RPMs (1 upstream)''])"
  by code_simp

theorem validated_sources_complete_witness:
  "\<exists>w' resolved. content w' ''out/p/x.tar'' = Some ''body'' \<and> served sample_outside resolved ''body'' \<and> \<not> plaintext_url resolved"
proof -
  obtain r w' where run: "process_package sample_outside sample_config sample_lock sample_world = (Inr (True, r), w')"
    using sample_fetch_accepted by blast
  have facts: "''p'' \<in> set (recipe_dirs sample_repository)" "lock_objects sample_repository = Inr [sample_lock]"
    "dict_has sample_lock ''url''" "map_of sample_repository (manifest_path ''p'') = Some (''SHA512 (y) = '' @ sample_body)"
    "content sample_world (manifest_path ''p'') = Some (''SHA512 (y) = '' @ sample_body)"
    "slash (slash (fc_output sample_config) ''p'') ''x.tar'' = ''out/p/x.tar''" "text_at sample_lock ''sha512'' = Inr ''BODY''"
    "lower ''BODY'' = ''body''" by code_simp+
  have same: "o_sha512 sample_outside b = b" for b by (simp add: sample_outside_def)
  have "sample_lock \<in> set [sample_lock]" by simp
  from validated_sources_complete [OF sample_valid facts(1) run sample_plain facts(2) this facts(3-5)]
  show ?thesis by (auto simp: facts(6-8) same)
qed

theorem validated_recipes_witness:
  "length (directory_specs sample_repository ''p'') = 1 \<and>
   (\<exists>s kvs. map_of sample_repository (provenance_path ''p'') = Some s \<and> loads s = Inr (JObj kvs) \<and> sound_provenance ''p'' kvs)"
proof -
  have "''p'' \<in> set (recipe_dirs sample_repository)" by code_simp
  from validated_recipes [OF sample_valid this] show ?thesis by blast
qed

text \<open>The address of a signature is not among those checked.\<close>

lemma signature_address_unchecked:
  "check_plaintext_source_urls [(lock_path, dumps_default (JObj [(''packages'', JList [JObj
     [(''name'', JStr ''p''), (''url'', JStr ''https://host/x''), (''signature_url'', JStr ''http://host/x.asc'')]])]))] = Inr ()"
  by code_simp

end
