(* ===== verification/Packit_Config.thy ===== *)
theory Packit_Config
  imports Validate
begin

section \<open>The Packit configuration (\<open>render_packit_config.py\<close>)\<close>

text \<open>
  The text of \<open>.packit.yaml\<close> for the inventory of a checkout, and that the names the other tools read
  out of it are those of the recipes.
\<close>

definition packit_header :: "string list" where
  "packit_header =
     [''# Root-level Packit monorepo config.'',
      ''# Generated by tools/render_packit_config.py -- do not edit manually.'',
      ''actions:'',
      ''  create-archive:'',
      ''    - bash -c '' @ [CHR 0x27] @ ''python3 '' @ [CHR 0x22] @ ''$(git rev-parse --show-toplevel)/tools/packit_source0.py'' @ [CHR 0x22, CHR 0x27],
      ''packages:'']"

definition packit_block :: "string \<times> string \<times> string \<Rightarrow> string list" where
  "packit_block = (\<lambda>(name, spec, source_name).
     [concat [''  '', name, '':''],
      ''    specfile_path: '' @ spec,
      ''    upstream_package_name: '' @ source_name,
      ''    downstream_package_name: '' @ source_name,
      ''    paths:'',
      ''      - packages/'' @ name])"

definition packit_text :: "(string \<times> string \<times> string) list \<Rightarrow> string" where
  "packit_text blocks = join [CHR 0x0A] (packit_header @ concat (map packit_block blocks)) @ [CHR 0x0A]"

definition packit_entry :: "(string, lock) dict \<Rightarrow> package_record \<Rightarrow> (string \<times> string \<times> string) result" where
  "packit_entry locks r =
     bind_r (py_str (dict_get (dict_get locks (pname r) []) ''dist_git_name'' (JStr (pname r)))) (\<lambda>source_name.
       Inr (pname r, pspec r, source_name))"

definition render_packit :: "rev_tree \<Rightarrow> string result" where
  "render_packit t =
     bind_r (tree_inventory t) (\<lambda>rs.
     bind_r (source_locks t) (\<lambda>locks.
     bind_r (map_r (packit_entry locks) (sort_key pname rs)) (\<lambda>blocks. Inr (packit_text blocks))))"

subsection \<open>Reading the names back\<close>

definition packit_name :: "string \<Rightarrow> bool" where
  "packit_name n = (n \<noteq> [] \<and> name_start (hd n) \<and> list_all name_char n)"

definition single_line :: "string \<Rightarrow> bool" where
  "single_line s = list_all (\<lambda>c. \<not> is_line_end c) s"

lemma name_char_inside: "name_char c \<Longrightarrow> \<not> is_line_end c"
  by (auto simp: name_char_def name_start_def is_line_end_def Let_def)

lemma ends_with_snoc [simp]: "ends_with [c] (s @ [c])"
  by (simp add: ends_with_def)

lemma packit_block_keys:
  assumes "packit_name (fst b)"
  shows "List.map_filter package_key (packit_block b) = [fst b]"
proof -
  obtain n s u where b: "b = (n, s, u)" by (cases b)
  have hidden: "package_key (''    '' @ r) = None" for r
    by (auto simp: package_key_def Let_def name_start_def)
  have "package_key (concat [''  '', n, '':'']) = Some n"
    using assms by (cases n) (auto simp: b package_key_def packit_name_def Let_def ends_with_def)
  moreover have "package_key (''    specfile_path: '' @ s) = None" "package_key (''    upstream_package_name: '' @ u) = None"
    "package_key (''    downstream_package_name: '' @ u) = None" "package_key ''    paths:'' = None"
    "package_key (''      - packages/'' @ n) = None"
    using hidden [of "''specfile_path: '' @ s"] hidden [of "''upstream_package_name: '' @ u"]
      hidden [of "''downstream_package_name: '' @ u"] hidden [of "''paths:''"] hidden [of "''  - packages/'' @ n"] by simp_all
  ultimately show ?thesis by (simp add: packit_block_def b map_filter_def del: append.simps concat.simps)
qed

lemma packit_after_header:
  "ls \<noteq> [] \<Longrightarrow> after_first (''packages:'' @ [CHR 0x0A]) (join [CHR 0x0A] (packit_header @ ls) @ [CHR 0x0A]) = Some (join [CHR 0x0A] ls @ [CHR 0x0A])"
  by (cases ls) (simp_all add: packit_header_def after_first.simps)

lemma map_filter_appended: "List.map_filter f (xs @ ys) = List.map_filter f xs @ List.map_filter f ys"
  by (simp add: map_filter_def)

text \<open>The names read out of the configuration that is rendered are those of its recipes, in its order.\<close>

lemma packit_names_roundtrip:
  assumes "list_all (\<lambda>(n, s, u). packit_name n \<and> single_line s \<and> single_line u) blocks"
  shows "package_names (packit_text blocks) = Inr (map fst blocks)"
proof (cases blocks)
  case Nil
  have "package_names (packit_text []) = Inr []" by code_simp
  with Nil show ?thesis by simp
next
  case (Cons b bs)
  let ?ls = "concat (map packit_block blocks)"
  have some: "?ls \<noteq> []" using Cons by (simp add: packit_block_def case_prod_unfold)
  have "\<forall>l \<in> set ?ls. \<forall>c \<in> set l. \<not> is_line_end c"
    using assms name_char_inside
    by (fastforce simp: packit_block_def list_all_iff packit_name_def single_line_def is_line_end_def)
  then have lines: "splitlines (join [CHR 0x0A] ?ls @ [CHR 0x0A]) = ?ls"
    using splitlines_join [OF some] by (simp add: nl_def)
  have "List.map_filter package_key (concat (map packit_block blocks)) = map fst blocks"
    using assms by (induction blocks) (auto simp: packit_block_keys map_filter_appended)
  with packit_after_header [OF some] lines show ?thesis
    by (simp add: package_names_def packit_text_def)
qed

lemma packit_names_roundtrip_witness:
  "package_names (packit_text [(''a'', ''a.spec'', ''a''), (''vid.stab'', ''vid.stab.spec'', ''vid.stab'')]) = Inr [''a'', ''vid.stab'']"
  by (subst packit_names_roundtrip) (code_simp, simp)

end
