(* ===== verification/Rawhide_Reimport.thy ===== *)
theory Rawhide_Reimport
  imports Packit_Config Canary_Relevance
begin

section \<open>Re-importing recipes from Fedora Rawhide (\<open>rawhide_reimport.py\<close>, \<open>import_rawhide.py\<close>)\<close>

text \<open>
  Which recipe may be replaced by a newer commit of its dist-git repository without a human, and the
  replacement. A recipe is the text of its files under their paths; the repository is given by what its
  commits contain and which descends from which; the builds Koji tagged are an argument.
\<close>

subsection \<open>What the build sees\<close>

type_synonym recipe_tree = "(string, string) dict"

definition factory_files :: "string list" where
  "factory_files = [''.hummingbird-upstream.json'']"

definition inert_files :: "string list" where
  "inert_files = [''.gitignore'', ''.mailmap'', ''.packit.yaml'', ''README.packit'', ''README.md'', ''monitoring.toml'',
     ''gating.yaml'', ''rpminspect.yaml'', ''ci.fmf'', ''plans.fmf'']"

definition inert_directories :: "string list" where
  "inert_directories = [''.fmf/'', ''plans/'', ''tests/'']"

definition top_spec :: "string \<Rightarrow> bool" where
  "top_spec path = (CHR ''/'' \<notin> set path \<and> ends_with ''.spec'' path)"

definition single_spec :: "recipe_tree \<Rightarrow> (string \<times> string) option" where
  "single_spec t = (case filter (\<lambda>(path, _). top_spec path) t of
      [p] \<Rightarrow> Some p
    | _ \<Rightarrow> None)"

definition spec_of :: "recipe_tree \<Rightarrow> string" where
  "spec_of t = (case single_spec t of None \<Rightarrow> [] | Some (_, s) \<Rightarrow> s)"

definition inert :: "string \<Rightarrow> string \<Rightarrow> bool" where
  "inert path spec = ((path \<in> set inert_files \<or> list_ex (\<lambda>d. starts_with d path) inert_directories) \<and> \<not> contains path spec)"

definition omitted_inert :: "recipe_tree \<Rightarrow> recipe_tree \<Rightarrow> string list" where
  "omitted_inert loc pinned = filter (\<lambda>path. \<not> dict_has loc path \<and> inert path (spec_of pinned)) (map fst pinned)"

definition build_inputs :: "recipe_tree \<Rightarrow> recipe_tree" where
  "build_inputs t = filter (\<lambda>(path, _). \<not> inert path (spec_of t)) t"

definition same_files :: "recipe_tree \<Rightarrow> recipe_tree \<Rightarrow> bool" where
  "same_files a b = (list_all (\<lambda>(p, s). map_of b p = Some s) a \<and> list_all (\<lambda>(p, s). map_of a p = Some s) b)"

definition build_relevant :: "recipe_tree \<Rightarrow> recipe_tree \<Rightarrow> bool" where
  "build_relevant pinned target = (\<not> same_files (build_inputs pinned) (build_inputs target))"

subsection \<open>Fields of a spec\<close>

text \<open>
  \<open>re.findall(r"^KEY:\s*(.+?)\s*$", spec, re.MULTILINE)\<close>, line by line: the value ends with the last
  character of its line that is no white space. The white space after the colon may run over line ends, so
  a field left empty takes the next line that is not blank.
\<close>

definition text_lines :: "string \<Rightarrow> string list" where
  "text_lines s = split_on CHR 0x0A s"

fun field_values :: "string \<Rightarrow> string list \<Rightarrow> string list" where
  "field_values key [] = []"
| "field_values key (l # ls) =
     (if \<not> starts_with (key @ '':'') l then field_values key ls
      else let r = dropWhile is_space (drop (Suc (length key)) l) in
        if r \<noteq> [] then rstrip r # field_values key ls
        else (case dropWhile (list_all is_space) ls of
            m # ms \<Rightarrow> strip m # field_values key (drop (Suc (length (takeWhile (list_all is_space) ls))) ls)
          | [] \<Rightarrow> (case filter (\<lambda>c. c \<noteq> CHR 0x0A) (concat (drop (Suc (length key)) l # ls)) of
              [] \<Rightarrow> []
            | cs \<Rightarrow> [[last cs]])))"

text \<open>\<open>" ".join(value.split())\<close>.\<close>

definition field_lines :: "string \<Rightarrow> string \<Rightarrow> string list" where
  "field_lines spec name = map (\<lambda>v. join '' '' (split_space v)) (field_values name (text_lines spec))"

definition dependency_operators :: "string list" where
  "dependency_operators = [''<'', ''<='', ''='', ''=='', ''>='', ''>'']"

definition nesting :: "string \<Rightarrow> int" where
  "nesting token = int (count_list token CHR ''('') - int (count_list token CHR '')'')"

text \<open>The rest of a parenthesised dependency, and what follows it.\<close>

fun take_group :: "int \<Rightarrow> string list \<Rightarrow> string list \<times> string list" where
  "take_group n [] = ([], [])"
| "take_group n (t # ts) =
     (if n \<le> 0 then ([], t # ts) else (case take_group (n + nesting t) ts of (g, r) \<Rightarrow> (t # g, r)))"

lemma take_group_length: "length (snd (take_group n ts)) \<le> length ts"
  by (induction n ts rule: take_group.induct) (auto split: prod.splits)

function dependency_tokens :: "string list \<Rightarrow> string list" where
  "dependency_tokens [] = []"
| "dependency_tokens (t # ts) =
     (if starts_with ''('' t then
        join '' '' (t # fst (take_group (nesting t) ts)) # dependency_tokens (snd (take_group (nesting t) ts))
      else if 2 \<le> length ts \<and> hd ts \<in> set dependency_operators then
        join '' '' [t, hd ts, ts ! 1] # dependency_tokens (drop 2 ts)
      else t # dependency_tokens ts)"
  by pat_completeness auto
termination
  by (relation "measure length") (auto simp: less_Suc_eq_le take_group_length)

definition dependency_items :: "string \<Rightarrow> string list" where
  "dependency_items v = dependency_tokens (split_space (map (\<lambda>c. if c = CHR '','' then CHR '' '' else c) v))"

definition build_requires :: "string \<Rightarrow> string list" where
  "build_requires spec = remdups (concat (map (\<lambda>v. dependency_items (before CHR ''#'' v))
     (field_values ''BuildRequires'' (text_lines spec))))"

subsection \<open>The policy\<close>

definition listed :: "string \<Rightarrow> string list \<Rightarrow> string list" where
  "listed what names = (if names = [] then [] else [what @ join '', '' (sort names)])"

definition ours_of :: "recipe_tree \<Rightarrow> recipe_tree" where
  "ours_of loc = filter (\<lambda>(path, _). path \<notin> set factory_files) loc"

definition divergence :: "recipe_tree \<Rightarrow> recipe_tree \<Rightarrow> string list" where
  "divergence loc pinned =
     (let ours = ours_of loc; skipped = omitted_inert ours pinned;
          theirs = filter (\<lambda>(path, _). path \<notin> set skipped) pinned in
      listed ''factory edited '' (map fst (filter (\<lambda>(p, s). dict_has theirs p \<and> map_of theirs p \<noteq> Some s) ours)) @
      listed ''factory added '' (filter (\<lambda>p. \<not> dict_has theirs p) (map fst ours)) @
      listed ''factory dropped '' (filter (\<lambda>p. \<not> dict_has ours p) (map fst theirs)))"

definition plain_lock_keys :: "string list" where
  "plain_lock_keys = [''name'', ''version'', ''url'', ''filename'', ''sha512'', ''sha256_url'', ''fallback_urls'', ''feed'', ''stage'']"

definition fedora_remote :: "string \<Rightarrow> string" where
  "fedora_remote package = concat [''https://src.fedoraproject.org/rpms/'', package, ''.git'']"

definition spec_reasons :: "string \<times> string \<Rightarrow> string \<times> string \<Rightarrow> recipe_tree \<Rightarrow> recipe_tree \<Rightarrow> string list" where
  "spec_reasons old new pinned target =
     (if fst old \<noteq> fst new then [concat [''spec renamed '', fst old, '' -> '', fst new]] else []) @
     (if map_of pinned ''sources'' \<noteq> map_of target ''sources''
      then [''Fedora changed `sources`: the source lock would have to move''] else []) @
     concat (map (\<lambda>field. if field_lines (snd old) field \<noteq> field_lines (snd new) field 
          then [concat [field, '': changed '', repr_list (field_lines (snd old) field), '' -> '', repr_list (field_lines (snd new) field)]] else [])
       [''Name'', ''Epoch'', ''Version'', ''Release'']) @
     listed ''adds BuildRequires: '' (set_minus (build_requires (snd new)) (build_requires (snd old))) @
     (if contains ''%generate_buildrequires'' (snd new) \<and> \<not> contains ''%generate_buildrequires'' (snd old)
      then [''adds %generate_buildrequires''] else [])"

text \<open>The reasons against a re-import; none means it is safe.\<close>

definition reimport_reasons :: "string \<Rightarrow> (string, json) dict \<Rightarrow> lock option \<Rightarrow> recipe_tree \<Rightarrow> recipe_tree \<Rightarrow> recipe_tree \<Rightarrow> bool \<Rightarrow> string list" where
  "reimport_reasons name provenance lock loc pinned target fast_forward =
     (if dict_get provenance ''branch'' JNull \<noteq> JStr ''rawhide'' \<or> dict_get provenance ''package'' JNull \<noteq> JStr name \<or>
         dict_get provenance ''remote'' JNull \<noteq> JStr (fedora_remote name)
      then [''recipe is not a plain Fedora Rawhide import''] else []) @
     (if \<not> fast_forward then [''Koji's commit does not descend from the pinned commit''] else []) @
     (case lock of
        None \<Rightarrow> [''no source lock'']
      | Some e \<Rightarrow> listed ''source lock carries Utah-local decisions: '' (set_minus (map fst e) plain_lock_keys)) @
     map (\<lambda>r. ''recipe diverges from Fedora: '' @ r) (divergence loc pinned) @
     (case (single_spec pinned, single_spec target) of
        (Some old, Some new) \<Rightarrow> spec_reasons old new pinned target
      | _ \<Rightarrow> [''expected exactly one spec file on both commits''])"

subsection \<open>One recipe\<close>

text \<open>The dist-git repository: the tree of a commit, ancestry, the branch head.\<close>

record dist_git =
  dg_tree :: "string \<Rightarrow> recipe_tree result"
  dg_ancestor :: "string \<Rightarrow> string \<Rightarrow> bool"
  dg_head :: string
  dg_tree_id :: "string \<Rightarrow> string"

definition provenance_field :: "(string, json) dict \<Rightarrow> string \<Rightarrow> string result" where
  "provenance_field fs k = bind_r (dict_index fs k) as_text"

record koji_build =
  kb_nvr :: string
  kb_commit :: "string option"

datatype assessment =
    Failed error
  | Current
  | Behind_Pin
  | Metadata_Only
  | Unsafe "string list"
  | Safe

definition assess_clone :: "dist_git \<Rightarrow> string \<Rightarrow> (string, json) dict \<Rightarrow> string \<Rightarrow> string \<Rightarrow> string \<Rightarrow> lock option \<Rightarrow> recipe_tree \<Rightarrow> assessment" where
  "assess_clone git name fs branch pin commit lock loc =
     (if dg_ancestor git commit pin then Behind_Pin
      else if \<not> dg_ancestor git commit (dg_head git) then Failed (ValueError (concat [''Koji commit '', commit, '' is not on '', branch]))
      else (case (dg_tree git pin, dg_tree git commit) of
          (Inl e, _) \<Rightarrow> Failed e
        | (Inr _, Inl e) \<Rightarrow> Failed e
        | (Inr pinned, Inr target) \<Rightarrow>
            if \<not> build_relevant pinned target then Metadata_Only
            else (case reimport_reasons name fs lock loc pinned target (dg_ancestor git pin commit) of
                [] \<Rightarrow> Safe
              | reasons \<Rightarrow> Unsafe reasons)))"

definition assess :: "(string \<Rightarrow> string \<Rightarrow> dist_git result) \<Rightarrow> string \<Rightarrow> (string, json) dict \<Rightarrow> koji_build option \<Rightarrow> lock option \<Rightarrow>
    recipe_tree \<Rightarrow> assessment result" where
  "assess clone name fs build lock loc =
     (case Option.bind build kb_commit of
        None \<Rightarrow> Inr (Failed (ValueError ''no Koji Rawhide build with a dist-git source''))
      | Some commit \<Rightarrow>
          bind_r (provenance_field fs ''commit'') (\<lambda>pin.
          if commit = pin then Inr Current
          else
            bind_r (provenance_field fs ''remote'') (\<lambda>remote.
            bind_r (provenance_field fs ''branch'') (\<lambda>branch.
              Inr (case clone remote branch of
                  Inl e \<Rightarrow> Failed e
                | Inr git \<Rightarrow> assess_clone git name fs branch pin commit lock loc)))))"

text \<open>\<open>import_rawhide.import_snapshot\<close> over the recipe, then the metadata the recipe lacked is left out.\<close>

definition provenance_text :: "string \<Rightarrow> string \<Rightarrow> string \<Rightarrow> string \<Rightarrow> string \<Rightarrow> string \<Rightarrow> string" where
  "provenance_text package branch remote commit tree_id now =
     dumps_indent (JObj [(''package'', JStr package), (''branch'', JStr branch), (''remote'', JStr remote),
       (''commit'', JStr commit), (''tree'', JStr tree_id), (''imported_at'', JStr now)]) @ nl"

definition import_snapshot :: "dist_git \<Rightarrow> string \<Rightarrow> string \<Rightarrow> string \<Rightarrow> string \<Rightarrow> string \<Rightarrow> recipe_tree result" where
  "import_snapshot git package branch remote commit now =
     bind_r (dg_tree git commit) (\<lambda>t.
       Inr (AList.update ''.hummingbird-upstream.json'' (provenance_text package branch remote commit (dg_tree_id git commit) now) t))"

definition reimport :: "dist_git \<Rightarrow> string \<Rightarrow> string \<Rightarrow> string \<Rightarrow> string \<Rightarrow> string \<Rightarrow> recipe_tree \<Rightarrow> recipe_tree result" where
  "reimport git name branch remote commit now loc =
     bind_r (dg_tree git commit) (\<lambda>target.
     bind_r (import_snapshot git name branch remote commit now) (\<lambda>t.
       Inr (filter (\<lambda>(path, _). path \<notin> set (omitted_inert loc target)) t)))"

subsection \<open>What Koji tagged\<close>

text \<open>\<open>KOJI_SOURCE\<close>: the commit of a build's source.\<close>

definition koji_commit :: "string \<Rightarrow> string option" where
  "koji_commit source =
     (let base = ''git+https://src.fedoraproject.org/''; r = drop (length base) source;
          r' = (if starts_with ''rpms/'' r then drop 5 r else r);
          package = before CHR ''#'' r'; c = drop (Suc (length package)) r' in
      if starts_with base source \<and> package \<noteq> [] \<and> CHR ''/'' \<notin> set package \<and> CHR ''#'' \<in> set r' \<and>
         list_all is_hex (take 40 c) \<and> length (take 40 c) = 40 \<and> drop 40 c \<in> {[], [CHR 0x0A]}
      then Some (take 40 c) else None)"

text \<open>Batches of 100 calls; a call that faults gives none.\<close>

definition multicall :: "('a \<Rightarrow> 'b option) \<Rightarrow> 'a list \<Rightarrow> 'b option list" where
  "multicall answer calls = concat (map (map answer) (chunks_of 100 calls))"

definition koji_rawhide_commits :: "(string \<Rightarrow> (int \<times> string) option) \<Rightarrow> (int \<Rightarrow> string option) \<Rightarrow> string list \<Rightarrow> (string, koji_build) dict" where
  "koji_rawhide_commits latest source names =
     (let builds = dict_of_pairs (List.map_filter (\<lambda>(n, b). map_option (Pair n) b) (zip names (multicall latest names)));
          found = sort (map fst builds);
          details = zip found (multicall (\<lambda>n. case map_of builds n of None \<Rightarrow> None | Some (i, _) \<Rightarrow> source i) found) in
      map (\<lambda>(n, (i, nvr)). (n, \<lparr>kb_nvr = nvr,
        kb_commit = koji_commit (case map_of details n of Some (Some s) \<Rightarrow> s | _ \<Rightarrow> [])\<rparr>)) builds)"

subsection \<open>The run\<close>

definition recipe_prefix :: "string \<Rightarrow> string" where
  "recipe_prefix name = concat [''packages/'', name, ''/'']"

definition recipe_files :: "rev_tree \<Rightarrow> string \<Rightarrow> recipe_tree" where
  "recipe_files t name = List.map_filter (\<lambda>(path, s).
     if starts_with (recipe_prefix name) path then Some (drop (length (recipe_prefix name)) path, s) else None) t"

definition replace_recipe :: "rev_tree \<Rightarrow> string \<Rightarrow> recipe_tree \<Rightarrow> rev_tree" where
  "replace_recipe t name files =
     filter (\<lambda>(path, _). \<not> starts_with (recipe_prefix name) path) t @ map (\<lambda>(path, s). (recipe_prefix name @ path, s)) files"

record reimport_report =
  rr_current :: "string list"
  rr_behind_pin :: "string list"
  rr_metadata_only :: "string list"
  rr_safe :: "string list"
  rr_unsafe :: "(string \<times> string list) list"
  rr_errors :: "(string \<times> error) list"

definition note_assessment :: "string \<Rightarrow> assessment \<Rightarrow> reimport_report \<Rightarrow> reimport_report" where
  "note_assessment name a r =
     (case a of
        Failed e \<Rightarrow> r\<lparr>rr_errors := rr_errors r @ [(name, e)]\<rparr>
      | Current \<Rightarrow> r\<lparr>rr_current := rr_current r @ [name]\<rparr>
      | Behind_Pin \<Rightarrow> r\<lparr>rr_behind_pin := rr_behind_pin r @ [name]\<rparr>
      | Metadata_Only \<Rightarrow> r\<lparr>rr_metadata_only := rr_metadata_only r @ [name]\<rparr>
      | Unsafe reasons \<Rightarrow> r\<lparr>rr_unsafe := rr_unsafe r @ [(name, reasons)]\<rparr>
      | Safe \<Rightarrow> r\<lparr>rr_safe := rr_safe r @ [name]\<rparr>)"

record reimport_env =
  re_clone :: "string \<Rightarrow> string \<Rightarrow> dist_git result"
  re_latest :: "string \<Rightarrow> (int \<times> string) option"
  re_source :: "int \<Rightarrow> string option"
  re_now :: string
  re_apply :: bool
  re_only :: "string list option"

text \<open>What a safe recipe is replaced with.\<close>

definition take_safe :: "reimport_env \<Rightarrow> koji_build option \<Rightarrow> string \<Rightarrow> (string, json) dict \<Rightarrow> recipe_tree \<Rightarrow> recipe_tree result" where
  "take_safe env build name fs loc =
     bind_r (provenance_field fs ''remote'') (\<lambda>remote.
     bind_r (provenance_field fs ''branch'') (\<lambda>branch.
     bind_r (re_clone env remote branch) (\<lambda>git.
     case Option.bind build kb_commit of
       None \<Rightarrow> Inl TypeError
     | Some commit \<Rightarrow> reimport git name branch remote commit (re_now env) loc)))"

definition recipe_verdict :: "reimport_env \<Rightarrow> (string, koji_build) dict \<Rightarrow> (string, lock) dict \<Rightarrow> rev_tree \<Rightarrow>
    string \<Rightarrow> (string, json) dict \<Rightarrow> assessment result" where
  "recipe_verdict env koji locks t name fs =
     assess (re_clone env) name fs (map_of koji name) (map_of locks name) (recipe_files t name)"

definition reimport_one :: "reimport_env \<Rightarrow> (string, koji_build) dict \<Rightarrow> (string, lock) dict \<Rightarrow> string \<times> (string, json) dict \<Rightarrow>
    rev_tree \<times> reimport_report \<Rightarrow> (rev_tree \<times> reimport_report) result" where
  "reimport_one env koji locks = (\<lambda>(name, fs) (t, r).
     bind_r (recipe_verdict env koji locks t name fs) (\<lambda>a.
     bind_r (if a = Safe \<and> re_apply env
         then bind_r (take_safe env (map_of koji name) name fs (recipe_files t name)) (\<lambda>files. Inr (replace_recipe t name files))
         else Inr t) (\<lambda>t'.
       Inr (t', note_assessment name a r))))"

text \<open>\<open>import_rawhide.main\<close>: the arguments checked, then the snapshot of a commit of the branch.\<close>

definition alnum :: "char \<Rightarrow> bool" where
  "alnum c = (word_char c \<and> c \<noteq> CHR ''_'')"

definition validate_package :: "string \<Rightarrow> unit result" where
  "validate_package name =
     (let r = filter (\<lambda>c. c \<notin> set ''-_.'') name in
      if name = [] \<or> r = [] \<or> \<not> list_all alnum r \<or> hd name \<in> set ''-.'' \<or> contains ''..'' name
      then Inl (ValueError (''package name must contain only letters, numbers, '' @ [CHR 0x27] @ ''_'' @ [CHR 0x27] @ '', '' @
        [CHR 0x27] @ ''-'' @ [CHR 0x27] @ '' or '' @ [CHR 0x27] @ ''.'' @ [CHR 0x27] @ '', cannot start with '' @
        [CHR 0x27] @ ''-'' @ [CHR 0x27] @ '' or '' @ [CHR 0x27] @ ''.'' @ [CHR 0x27] @ '', and cannot contain '' @ [CHR 0x27] @ ''..'' @ [CHR 0x27]))
      else Inr ())"

definition validate_branch :: "string \<Rightarrow> unit result" where
  "validate_branch branch =
     (if branch = [] \<or> \<not> list_all (\<lambda>c. alnum c \<or> c \<in> set ''-_./'') branch \<or> starts_with ''-'' branch \<or> contains ''..'' branch
      then Inl (ValueError ''branch name contains invalid characters'') else Inr ())"

definition validate_ref :: "string \<Rightarrow> unit result" where
  "validate_ref ref =
     (if \<not> sha_40 ref then Inl (ValueError ''ref must be a full 40-character lowercase commit id'') else Inr ())"

record import_args =
  ia_package :: string
  ia_branch :: string
  ia_ref :: "string option"
  ia_replace :: bool

definition recipe_exists :: "rev_tree \<Rightarrow> string \<Rightarrow> bool" where
  "recipe_exists t name = list_ex (\<lambda>(path, _). starts_with (recipe_prefix name) path) t"

definition import_rawhide :: "(string \<Rightarrow> string \<Rightarrow> dist_git result) \<Rightarrow> (string \<Rightarrow> string) \<Rightarrow> string \<Rightarrow> import_args \<Rightarrow> rev_tree \<Rightarrow> rev_tree result" where
  "import_rawhide clone template now a t =
     bind_r (case bind_r (validate_package (ia_package a)) (\<lambda>_. bind_r (validate_branch (ia_branch a)) (\<lambda>_.
         case ia_ref a of None \<Rightarrow> Inr () | Some ref \<Rightarrow> validate_ref ref)) of
       Inl (ValueError m) \<Rightarrow> Inl (SystemExit m) | r \<Rightarrow> r) (\<lambda>_.
     let name = ia_package a; remote = template name in
     if recipe_exists t name \<and> \<not> ia_replace a then Inl (SystemExit (''destination already exists: packages/'' @ name))
     else bind_r (clone remote (ia_branch a)) (\<lambda>git.
       bind_r (case ia_ref a of
           None \<Rightarrow> Inr (dg_head git)
         | Some ref \<Rightarrow> if dg_ancestor git ref (dg_head git) then Inr ref else Inl (SystemExit (concat [ref, '' is not on '', ia_branch a]))) (\<lambda>commit.
       bind_r (import_snapshot git name (ia_branch a) remote commit now) (\<lambda>files.
         Inr (replace_recipe t name files)))))"

definition no_report :: reimport_report where
  "no_report = \<lparr>rr_current = [], rr_behind_pin = [], rr_metadata_only = [], rr_safe = [], rr_unsafe = [], rr_errors = []\<rparr>"

text \<open>The recipes imported from Rawhide, each with its provenance.\<close>

definition rawhide_recipes :: "rev_tree \<Rightarrow> (string \<times> (string, json) dict) list result" where
  "rawhide_recipes t =
     bind_r (map_r (\<lambda>d. case map_of t (provenance_path d) of
         None \<Rightarrow> Inl (OSError (provenance_path d))
       | Some s \<Rightarrow> bind_r (loads s) (\<lambda>v. bind_r (items_of v) (\<lambda>kvs. Inr (d, kvs)))) (recipe_dirs t)) (\<lambda>ds.
       Inr (filter (\<lambda>(d, kvs). dict_get kvs ''branch'' JNull = JStr ''rawhide'') ds))"

definition chosen_recipes :: "string list option \<Rightarrow> (string \<times> (string, json) dict) list \<Rightarrow> (string \<times> (string, json) dict) list result" where
  "chosen_recipes names recipes =
     (case names of
        None \<Rightarrow> Inr recipes
      | Some ns \<Rightarrow>
          let unknown = sorted_set (filter (\<lambda>n. \<not> dict_has recipes n) ns) in
          if unknown \<noteq> [] then Inl (SystemExit (''not a Rawhide-imported recipe: '' @ join '', '' unknown))
          else Inr (dict_of_pairs (map (\<lambda>n. (n, dict_get recipes n [])) ns)))"

definition reimport_all :: "reimport_env \<Rightarrow> rev_tree \<Rightarrow> (rev_tree \<times> reimport_report) result" where
  "reimport_all env t =
     bind_r (source_locks t) (\<lambda>locks.
     bind_r (bind_r (rawhide_recipes t) (chosen_recipes (re_only env))) (\<lambda>recipes.
     let koji = koji_rawhide_commits (re_latest env) (re_source env) (sort (map fst recipes)) in
     bind_r (case map_of t packit_path of None \<Rightarrow> Inl (OSError packit_path) | Some s \<Rightarrow> Inr s) (\<lambda>packit_before.
     bind_r (fold_r (reimport_one env koji locks) recipes (t, no_report)) (\<lambda>(t', r).
       if re_apply env \<and> rr_safe r \<noteq> [] then
         bind_r (render_packit t') (\<lambda>rendered.
           if rendered \<noteq> packit_before
           then Inl (SystemExit ''re-import changed the Packit configuration; the recipe set must not move'')
           else Inr (AList.update packit_path rendered t', r))
       else Inr (t', r)))))"

subsection \<open>A recipe that is safe to replace\<close>

lemma listed_empty [simp]: "listed what names = [] \<longleftrightarrow> names = []"
  by (simp add: listed_def)

lemma map_of_kept: "map_of (filter (\<lambda>(k, _). P k) xs) k = (if P k then map_of xs k else None)"
  by (induction xs) auto

lemma no_slash_inert:
  assumes "ends_with ''.spec'' p \<or> p = ''sources'' \<or> p = ''.hummingbird-upstream.json''" and "CHR ''/'' \<notin> set p"
  shows "\<not> inert p s"
proof -
  have "p \<notin> set inert_files"
    using assms(1) by (auto simp: inert_files_def ends_with_def)
  moreover have "\<not> starts_with d p" if "CHR ''/'' \<in> set d" for d
    using that assms(2) by (auto simp: starts_with_iff)
  ultimately show ?thesis by (auto simp: inert_def inert_directories_def)
qed

lemma divergence_none:
  assumes "divergence loc pinned = []"
  shows "map_of (ours_of loc) p =
    (if p \<in> set (omitted_inert (ours_of loc) pinned) then None else map_of pinned p)"
proof -
  define theirs where "theirs = filter (\<lambda>(path, _). path \<notin> set (omitted_inert (ours_of loc) pinned)) pinned"
  have "list_all (\<lambda>(q, s). \<not> (dict_has theirs q \<and> map_of theirs q \<noteq> Some s)) (ours_of loc)"
    "list_all (dict_has theirs) (map fst (ours_of loc))" "list_all (dict_has (ours_of loc)) (map fst theirs)"
    using assms unfolding divergence_def Let_def theirs_def [symmetric]
    by (simp_all add: filter_empty_conv list_all_iff case_prod_unfold)
  then have kept: "(p, s) \<in> set (ours_of loc) \<Longrightarrow> map_of theirs p = Some s"
    and present: "(p, s) \<in> set theirs \<Longrightarrow> map_of (ours_of loc) p \<noteq> None" for s
    unfolding list_all_iff dict_has_def by force+
  have "map_of (ours_of loc) p = map_of theirs p"
  proof (cases "map_of (ours_of loc) p")
    case None
    then show ?thesis using present map_of_SomeD [of theirs p] by (cases "map_of theirs p") auto
  next
    case (Some s)
    then show ?thesis using kept map_of_SomeD [of "ours_of loc" p s] by simp
  qed
  then show ?thesis by (simp add: theirs_def map_of_kept)
qed

lemma omitted_inert_iff:
  "p \<in> set (omitted_inert loc pinned) \<longleftrightarrow> p \<in> fst ` set pinned \<and> map_of loc p = None \<and> inert p (spec_of pinned)"
  by (auto simp: omitted_inert_def dict_has_def)

lemma not_diverged:
  assumes "divergence loc pinned = []" "p \<notin> set factory_files"
  shows "map_of loc p = map_of pinned p \<or> map_of loc p = None \<and> inert p (spec_of pinned)"
proof -
  have "map_of (ours_of loc) p = map_of loc p"
    using assms(2) by (simp add: ours_of_def map_of_kept)
  with divergence_none [OF assms(1), of p] show ?thesis
    by (auto simp: omitted_inert_iff split: if_splits)
qed

text \<open>What \<open>Safe\<close> rests on.\<close>

lemma assess_safe:
  assumes "assess clone name fs build lock loc = Inr Safe"
  shows "\<exists>commit pin remote branch git pinned target.
    Option.bind build kb_commit = Some commit \<and> provenance_field fs ''commit'' = Inr pin \<and> commit \<noteq> pin \<and>
    provenance_field fs ''remote'' = Inr remote \<and> provenance_field fs ''branch'' = Inr branch \<and> clone remote branch = Inr git \<and>
    dg_tree git pin = Inr pinned \<and> dg_tree git commit = Inr target \<and>
    dg_ancestor git commit (dg_head git) \<and> dg_ancestor git pin commit \<and>
    reimport_reasons name fs lock loc pinned target (dg_ancestor git pin commit) = []"
proof -
  obtain commit where commit: "Option.bind build kb_commit = Some commit"
    using assms by (auto simp: assess_def split: option.splits)
  obtain pin remote branch where fields: "provenance_field fs ''commit'' = Inr pin" "commit \<noteq> pin"
      "provenance_field fs ''remote'' = Inr remote" "provenance_field fs ''branch'' = Inr branch"
    and a: "(case clone remote branch of Inl e \<Rightarrow> Failed e
      | Inr git \<Rightarrow> assess_clone git name fs branch pin commit lock loc) = Safe"
    using assms commit by (auto simp: assess_def bind_r_Inr split: if_splits)
  then obtain git where git: "clone remote branch = Inr git"
    and safe: "assess_clone git name fs branch pin commit lock loc = Safe"
    by (cases "clone remote branch") auto
  obtain pinned target where trees: "dg_tree git pin = Inr pinned" "dg_tree git commit = Inr target"
      "dg_ancestor git commit (dg_head git)"
    and none: "reimport_reasons name fs lock loc pinned target (dg_ancestor git pin commit) = []"
    using safe by (auto simp: assess_clone_def split: if_splits sum.splits list.splits)
  have "dg_ancestor git pin commit"
    using none by (auto simp: reimport_reasons_def split: if_splits)
  with commit fields git trees none show ?thesis by blast
qed

definition same_payload :: "string \<Rightarrow> string \<Rightarrow> bool" where
  "same_payload old new =
     (list_all (\<lambda>f. field_lines new f = field_lines old f) [''Name'', ''Epoch'', ''Version'', ''Release''] \<and>
      set (build_requires new) \<subseteq> set (build_requires old) \<and>
      (contains ''%generate_buildrequires'' new \<longrightarrow> contains ''%generate_buildrequires'' old))"

lemma no_reasons:
  assumes "reimport_reasons name fs lock loc pinned target ff = []"
  shows "divergence loc pinned = [] \<and> map_of pinned ''sources'' = map_of target ''sources'' \<and>
    (\<exists>p old new. single_spec pinned = Some (p, old) \<and> single_spec target = Some (p, new) \<and> same_payload old new)"
proof -
  obtain p old q new where specs: "single_spec pinned = Some (p, old)" "single_spec target = Some (q, new)"
      and none: "spec_reasons (p, old) (q, new) pinned target = []" and div: "divergence loc pinned = []"
    using assms by (auto simp: reimport_reasons_def split: option.splits)
  then show ?thesis
    by (auto simp: spec_reasons_def same_payload_def set_minus_def filter_empty_conv split: if_splits)
qed

lemma filter_update: "\<not> P k \<Longrightarrow> filter (\<lambda>(q, _). P q) (AList.update k v xs) = filter (\<lambda>(q, _). P q) xs"
  by (induction xs) auto

lemma filter_weaker: "(\<And>q. P q \<Longrightarrow> Q q) \<Longrightarrow> filter (\<lambda>(q, _). P q) (filter (\<lambda>(q, _). Q q) xs) = filter (\<lambda>(q, _). P q) xs"
  by (induction xs) auto

lemma filter_single:
  assumes "distinct (map fst xs)" "(k, v) \<in> set xs" "P k" and only: "\<And>q w. (q, w) \<in> set xs \<Longrightarrow> P q \<Longrightarrow> q = k"
  shows "filter (\<lambda>(q, _). P q) xs = [(k, v)]"
proof -
  obtain a b where xs: "xs = a @ (k, v) # b"
    using assms(2) by (meson split_list)
  have "k \<notin> fst ` set a" "k \<notin> fst ` set b" using assms(1) by (auto simp: xs)
  then have "\<not> P q" if "(q, w) \<in> set a \<union> set b" for q w
    using only [of q w] that by (force simp: xs)
  then have "filter (\<lambda>(q, _). P q) a = []" "filter (\<lambda>(q, _). P q) b = []"
    by (fastforce simp: filter_empty_conv)+
  then show ?thesis using assms(3) by (simp add: xs)
qed

lemma single_spec_Some:
  assumes "single_spec t = Some (p, s)"
  shows "top_spec p \<and> map_of t p = Some s \<and> (\<forall>q w. map_of t q = Some w \<longrightarrow> top_spec q \<longrightarrow> q = p)"
proof -
  have one: "filter (\<lambda>(q, _). top_spec q) t = [(p, s)]"
    using assms by (auto simp: single_spec_def split: list.splits)
  then have at: "(if top_spec q then map_of t q else None) = (if q = p then Some s else None)" for q
    using map_of_kept [of top_spec t q] by simp
  from at [of p] have "top_spec p \<and> map_of t p = Some s" by (simp split: if_splits)
  moreover have "q = p" if "map_of t q = Some w" "top_spec q" for q w
    using at [of q] that by (simp split: if_splits)
  ultimately show ?thesis by blast
qed

lemma single_spec_same:
  assumes "single_spec pinned = Some (p, old)" "distinct (map fst loc)"
    and "\<And>q. top_spec q \<Longrightarrow> map_of loc q = map_of pinned q"
  shows "single_spec loc = Some (p, old)"
proof -
  have "filter (\<lambda>(q, _). top_spec q) loc = [(p, old)]"
  proof (rule filter_single [OF assms(2)])
    show "(p, old) \<in> set loc" "top_spec p"
      using single_spec_Some [OF assms(1)] assms(3) by (auto intro: map_of_SomeD)
    show "q = p" if "(q, w) \<in> set loc" "top_spec q" for q w
      using single_spec_Some [OF assms(1)] map_of_is_SomeI [OF assms(2) that(1)] assms(3) [OF that(2)] that(2) by simp
  qed
  then show ?thesis by (simp add: single_spec_def)
qed

lemma top_spec_kept: "top_spec q \<Longrightarrow> \<not> inert q s \<and> q \<notin> set factory_files"
  using no_slash_inert [of q s] by (auto simp: top_spec_def factory_files_def ends_with_def)

lemma reimported:
  assumes "reimport git name branch remote commit now loc = Inr loc'" "dg_tree git commit = Inr target"
  shows "map_of loc' p =
      (if p \<in> set factory_files then Some (provenance_text name branch remote commit (dg_tree_id git commit) now)
       else if map_of loc p = None \<and> inert p (spec_of target) then None else map_of target p)"
    and "single_spec loc' = single_spec target"
proof -
  let ?t = "AList.update ''.hummingbird-upstream.json'' (provenance_text name branch remote commit (dg_tree_id git commit) now) target"
  have loc': "loc' = filter (\<lambda>(path, _). path \<notin> set (omitted_inert loc target)) ?t"
    using assms by (simp add: reimport_def import_snapshot_def)
  have "\<not> inert ''.hummingbird-upstream.json'' s" for s
    by (rule no_slash_inert) auto
  then show "map_of loc' p =
      (if p \<in> set factory_files then Some (provenance_text name branch remote commit (dg_tree_id git commit) now)
       else if map_of loc p = None \<and> inert p (spec_of target) then None else map_of target p)"
    by (auto simp: loc' map_of_kept update_conv factory_files_def omitted_inert_iff) (meson map_of_eq_None_iff not_None_eq)+
  have "filter (\<lambda>(q, _). top_spec q) loc' = filter (\<lambda>(q, _). top_spec q) target"
    unfolding loc' using top_spec_kept
    by (subst filter_weaker) (auto simp: omitted_inert_iff factory_files_def intro!: filter_update)
  then show "single_spec loc' = single_spec target" by (simp add: single_spec_def)
qed

subsection \<open>The run over all recipes\<close>

lemma prefix_drop [simp]: "drop (length (recipe_prefix n)) (recipe_prefix n @ p) = p"
  by simp

lemma prefix_same:
  assumes "starts_with (recipe_prefix n) p" "starts_with (recipe_prefix m) p" "CHR ''/'' \<notin> set n" "CHR ''/'' \<notin> set m"
  shows "n = m"
proof -
  obtain a where a: "p = recipe_prefix n @ a" using assms(1) by (auto simp: starts_with_iff)
  obtain b where b: "p = recipe_prefix m @ b" using assms(2) by (auto simp: starts_with_iff)
  from a b have "n @ CHR ''/'' # a = m @ CHR ''/'' # b" by (simp add: recipe_prefix_def)
  then have "takeWhile (\<lambda>c. c \<noteq> CHR ''/'') (n @ CHR ''/'' # a) = takeWhile (\<lambda>c. c \<noteq> CHR ''/'') (m @ CHR ''/'' # b)" by simp
  then show ?thesis using assms(3,4) by (subst (asm) (1 2) takeWhile_append2) auto
qed

lemma recipe_files_append: "recipe_files (a @ b) n = recipe_files a n @ recipe_files b n"
  by (simp add: recipe_files_def map_filter_appended)

lemma recipe_files_own: "recipe_files (map (\<lambda>(p, s). (recipe_prefix n @ p, s)) files) n = files"
  by (induction files) (auto simp: recipe_files_def map_filter_simps)

lemma recipe_files_replaced [simp]: "recipe_files (replace_recipe t n files) n = files"
proof -
  have "recipe_files (filter (\<lambda>(p, _). \<not> starts_with (recipe_prefix n) p) t) n = []"
    by (auto simp: recipe_files_def List.map_filter_def filter_empty_conv)
  then show ?thesis by (simp add: replace_recipe_def recipe_files_append recipe_files_own)
qed

lemma recipe_files_filter:
  "recipe_files t n = map (\<lambda>(p, s). (drop (length (recipe_prefix n)) p, s)) (filter (\<lambda>(p, _). starts_with (recipe_prefix n) p) t)"
  by (induction t) (auto simp: recipe_files_def map_filter_simps)

lemma recipe_files_others:
  assumes "n \<noteq> m" "CHR ''/'' \<notin> set n" "CHR ''/'' \<notin> set m"
  shows "recipe_files (replace_recipe t n files) m = recipe_files t m"
proof -
  have apart: "\<not> starts_with (recipe_prefix n) p" if "starts_with (recipe_prefix m) p" for p
    using prefix_same [of n p m] that assms by blast
  then have "recipe_files (filter (\<lambda>(p, _). \<not> starts_with (recipe_prefix n) p) t) m = recipe_files t m"
    unfolding recipe_files_filter by (subst filter_weaker) auto
  moreover have "recipe_files (map (\<lambda>(p, s). (recipe_prefix n @ p, s)) files) m = []"
    using apart starts_with_append [of "recipe_prefix n"] by (fastforce simp: recipe_files_filter filter_empty_conv)
  ultimately show ?thesis by (simp add: replace_recipe_def recipe_files_append)
qed

lemma replaced_elsewhere:
  "\<not> starts_with (recipe_prefix n) p \<Longrightarrow> map_of (replace_recipe t n files) p = map_of t p"
proof -
  assume out: "\<not> starts_with (recipe_prefix n) p"
  then have "map_of (map (\<lambda>(q, s). (recipe_prefix n @ q, s)) files) p = None"
    unfolding map_of_eq_None_iff by auto
  with out show ?thesis
    unfolding replace_recipe_def map_add_def map_of_append map_of_kept by (simp split: option.splits)
qed

text \<open>A name that is accepted names a directory of \<open>packages/\<close>, and the import writes below it only.\<close>

lemma validated_name:
  assumes "validate_package name = Inr ()"
  shows "name \<noteq> [] \<and> CHR ''/'' \<notin> set name \<and> hd name \<notin> set ''-.'' \<and> \<not> contains ''..'' name"
proof -
  have "alnum CHR ''/'' = False" by code_simp
  then show ?thesis
    using assms by (auto simp: validate_package_def Let_def list_all_iff split: if_splits)
qed

lemma import_stays_in_recipe:
  assumes "import_rawhide clone template now a t = Inr t'"
  shows "CHR ''/'' \<notin> set (ia_package a) \<and>
    (\<forall>p. \<not> starts_with (recipe_prefix (ia_package a)) p \<longrightarrow> map_of t' p = map_of t p) \<and>
    (recipe_exists t (ia_package a) \<longrightarrow> ia_replace a)"
proof -
  have "validate_package (ia_package a) = Inr ()"
    using assms by (cases "validate_package (ia_package a)") (auto simp: import_rawhide_def split: error.splits)
  moreover obtain files where "t' = replace_recipe t (ia_package a) files" "recipe_exists t (ia_package a) \<longrightarrow> ia_replace a"
    using assms by (auto simp: import_rawhide_def bind_r_Inr Let_def split: if_splits)
  ultimately show ?thesis using validated_name replaced_elsewhere by auto
qed

lemma safe_noted: "rr_safe (note_assessment n a r) = rr_safe r @ (if a = Safe then [n] else [])"
  by (cases a) (simp_all add: note_assessment_def)

lemma run_recipes:
  assumes "fold_r (reimport_one env koji locks) recipes (t, r) = Inr (t', r')"
    and "distinct (map fst recipes)" "\<And>n. n \<in> fst ` set recipes \<Longrightarrow> CHR ''/'' \<notin> set n"
  shows "(\<forall>(n, fs) \<in> set recipes. if recipe_verdict env koji locks t n fs = Inr Safe \<and> re_apply env
            then take_safe env (map_of koji n) n fs (recipe_files t n) = Inr (recipe_files t' n)
            else recipe_files t' n = recipe_files t n) \<and>
         set (rr_safe r') = set (rr_safe r) \<union> {n. \<exists>fs. (n, fs) \<in> set recipes \<and> recipe_verdict env koji locks t n fs = Inr Safe} \<and>
         (\<forall>m. m \<notin> fst ` set recipes \<longrightarrow> CHR ''/'' \<notin> set m \<longrightarrow> recipe_files t' m = recipe_files t m) \<and>
         (\<forall>p. (\<forall>n \<in> set (rr_safe r'). re_apply env \<longrightarrow> \<not> starts_with (recipe_prefix n) p) \<longrightarrow> map_of t' p = map_of t p)"
  using assms
proof (induction recipes arbitrary: t r)
  case (Cons x recipes)
  obtain n fs where x: "x = (n, fs)" by (cases x)
  obtain a t1 where a: "recipe_verdict env koji locks t n fs = Inr a"
    and t1: "(if a = Safe \<and> re_apply env
         then bind_r (take_safe env (map_of koji n) n fs (recipe_files t n)) (\<lambda>files. Inr (replace_recipe t n files))
         else Inr t) = Inr t1"
    and rest: "fold_r (reimport_one env koji locks) recipes (t1, note_assessment n a r) = Inr (t', r')"
    using Cons.prems(1) by (auto simp: x reimport_one_def bind_r_Inr)
  have n: "CHR ''/'' \<notin> set n" "n \<notin> fst ` set recipes" using Cons.prems(2,3) by (auto simp: x)
  have same: "recipe_files t1 m = recipe_files t m" if "m \<noteq> n" "CHR ''/'' \<notin> set m" for m
    using t1 that n recipe_files_others [of n m] by (auto simp: bind_r_Inr split: if_splits)
  have self: "if a = Safe \<and> re_apply env
      then take_safe env (map_of koji n) n fs (recipe_files t n) = Inr (recipe_files t1 n) else recipe_files t1 n = recipe_files t n"
    using t1 by (auto simp: bind_r_Inr split: if_splits)
  have out: "map_of t1 p = map_of t p" if "a = Safe \<and> re_apply env \<longrightarrow> \<not> starts_with (recipe_prefix n) p" for p
    using t1 that replaced_elsewhere by (auto simp: bind_r_Inr split: if_splits)
  have verdicts: "recipe_verdict env koji locks t1 m gs = recipe_verdict env koji locks t m gs" if "(m, gs) \<in> set recipes" for m gs
    using that n same [of m] Cons.prems(3) [of m] by (force simp: recipe_verdict_def x)
  have IH: "(\<forall>(m, gs) \<in> set recipes. if recipe_verdict env koji locks t1 m gs = Inr Safe \<and> re_apply env
            then take_safe env (map_of koji m) m gs (recipe_files t1 m) = Inr (recipe_files t' m)
            else recipe_files t' m = recipe_files t1 m)"
    "set (rr_safe r') = set (rr_safe (note_assessment n a r)) \<union> {m. \<exists>gs. (m, gs) \<in> set recipes \<and> recipe_verdict env koji locks t1 m gs = Inr Safe}"
    "\<And>m. m \<notin> fst ` set recipes \<Longrightarrow> CHR ''/'' \<notin> set m \<Longrightarrow> recipe_files t' m = recipe_files t1 m"
    "\<And>p. \<forall>m \<in> set (rr_safe r'). re_apply env \<longrightarrow> \<not> starts_with (recipe_prefix m) p \<Longrightarrow> map_of t' p = map_of t1 p"
    using Cons.IH [OF rest] Cons.prems(2,3) by (simp_all add: x)
  have others: "recipe_files t1 m = recipe_files t m" if "(m, gs) \<in> set recipes" for m gs
    using that n same [of m] Cons.prems(3) [of m] by (force simp: x)
  have safe: "set (rr_safe r') = set (rr_safe r) \<union> {m. \<exists>gs. (m, gs) \<in> set (x # recipes) \<and> recipe_verdict env koji locks t m gs = Inr Safe}"
    using IH(2) verdicts a by (auto simp: safe_noted x)
  have "\<forall>(m, gs) \<in> set (x # recipes). if recipe_verdict env koji locks t m gs = Inr Safe \<and> re_apply env
            then take_safe env (map_of koji m) m gs (recipe_files t m) = Inr (recipe_files t' m)
            else recipe_files t' m = recipe_files t m"
    using IH(1) IH(3) [of n] n self a verdicts others by (auto simp: x)
  moreover have "map_of t' p = map_of t p" if "\<forall>m \<in> set (rr_safe r'). re_apply env \<longrightarrow> \<not> starts_with (recipe_prefix m) p" for p
    using IH(4) [OF that] out [of p] that IH(2) by (auto simp: safe_noted split: if_splits)
  ultimately show ?case using safe IH(3) same by (auto simp: x)
qed simp

lemma recipe_dirs_flat: "d \<in> set (recipe_dirs t) \<Longrightarrow> CHR ''/'' \<notin> set d"
proof -
  assume "d \<in> set (recipe_dirs t)"
  then obtain path where "recipe_of path = Some d" by (auto simp: recipe_dirs_def sorted_set_def set_map_filter)
  then have "d \<in> set (split_on CHR ''/'' path)"
    by (auto simp: recipe_of_def Let_def split: if_splits)
  then show ?thesis by (rule split_on_parts)
qed

lemma map_r_keys: "map_r f xs = Inr ys \<Longrightarrow> (\<And>x y. f x = Inr y \<Longrightarrow> g y = x) \<Longrightarrow> map g ys = xs"
  by (induction xs arbitrary: ys) (auto simp: bind_r_Inr)

lemma rawhide_recipes_flat:
  assumes "rawhide_recipes t = Inr recipes"
  shows "distinct (map fst recipes) \<and> (\<forall>n \<in> fst ` set recipes. CHR ''/'' \<notin> set n) \<and>
    (\<forall>(n, fs) \<in> set recipes. dict_get fs ''branch'' JNull = JStr ''rawhide'')"
proof -
  let ?read = "\<lambda>d. case map_of t (provenance_path d) of
         None \<Rightarrow> Inl (OSError (provenance_path d))
       | Some s \<Rightarrow> bind_r (loads s) (\<lambda>v. bind_r (items_of v) (\<lambda>kvs. Inr (d, kvs)))"
  obtain ds where ds: "map_r ?read (recipe_dirs t) = Inr ds"
    and recipes: "recipes = filter (\<lambda>(d, kvs). dict_get kvs ''branch'' JNull = JStr ''rawhide'') ds"
    using assms by (auto simp: rawhide_recipes_def bind_r_Inr)
  have "fst y = d" if "?read d = Inr y" for d y
    using that by (auto simp: bind_r_Inr split: option.splits)
  then have "map fst ds = recipe_dirs t"
    using map_r_keys [OF ds] by blast
  then have "distinct (map fst ds)" "fst ` set ds = set (recipe_dirs t)"
    by (simp_all add: recipe_dirs_def flip: set_map)
  moreover from this have "CHR ''/'' \<notin> set n" if "(n, fs) \<in> set ds" for n fs
    using that recipe_dirs_flat [of n t] by force
  ultimately show ?thesis
    by (auto simp: recipes distinct_map intro: inj_on_subset)
qed

lemma chosen_recipes_flat:
  assumes "chosen_recipes names recipes = Inr chosen" "distinct (map fst recipes)"
  shows "distinct (map fst chosen) \<and> set chosen \<subseteq> set recipes"
proof (cases names)
  case (Some ns)
  have "sorted_set (filter (\<lambda>n. \<not> dict_has recipes n) ns) = []"
    using assms(1) Some by (auto simp: chosen_recipes_def Let_def split: if_splits)
  then have "set (sorted_set (filter (\<lambda>n. \<not> dict_has recipes n) ns)) = {}" by simp
  then have known: "n \<in> set ns \<Longrightarrow> dict_has recipes n" for n by auto
  have chosen: "chosen = dict_of_pairs (map (\<lambda>n. (n, dict_get recipes n [])) ns)"
    using assms(1) Some by (auto simp: chosen_recipes_def Let_def split: if_splits)
  have "(n, fs) \<in> set recipes" if "(n, fs) \<in> set chosen" for n fs
  proof -
    have "map_of chosen n = Some fs" using that by (simp add: chosen)
    then have "(n, fs) \<in> set (map (\<lambda>n. (n, dict_get recipes n [])) ns)"
      unfolding chosen map_of_dict_of_pairs by (metis map_of_SomeD set_rev)
    then show ?thesis using known by (force simp: dict_get_def dict_has_def intro: map_of_SomeD)
  qed
  then show ?thesis by (auto simp: chosen)
qed (use assms in \<open>auto simp: chosen_recipes_def\<close>)

lemma reimport_all_run:
  assumes "reimport_all env t = Inr (t', r)"
  shows "\<exists>locks recipes t1.
    fold_r (reimport_one env (koji_rawhide_commits (re_latest env) (re_source env) (sort (map fst recipes))) locks) recipes (t, no_report) =
      Inr (t1, r) \<and> source_locks t = Inr locks \<and>
    distinct (map fst recipes) \<and> (\<forall>n \<in> fst ` set recipes. CHR ''/'' \<notin> set n) \<and>
    (t' = t1 \<or> (\<exists>s. map_of t packit_path = Some s \<and> t' = AList.update packit_path s t1))"
proof -
  obtain locks recipes packit_before t1 where run: "source_locks t = Inr locks"
      "bind_r (rawhide_recipes t) (chosen_recipes (re_only env)) = Inr recipes" "map_of t packit_path = Some packit_before"
      "fold_r (reimport_one env (koji_rawhide_commits (re_latest env) (re_source env) (sort (map fst recipes))) locks) recipes (t, no_report) =
        Inr (t1, r)"
    and written: "t' = t1 \<or> t' = AList.update packit_path packit_before t1"
    using assms by (auto simp: reimport_all_def bind_r_Inr Let_def split: option.splits if_splits)
  obtain ds where all_recipes: "rawhide_recipes t = Inr ds" "chosen_recipes (re_only env) ds = Inr recipes"
    using run(2) by (auto simp: bind_r_Inr)
  have "distinct (map fst recipes) \<and> (\<forall>n \<in> fst ` set recipes. CHR ''/'' \<notin> set n)"
    using rawhide_recipes_flat [OF all_recipes(1)] chosen_recipes_flat [OF all_recipes(2)] by blast
  with run written show ?thesis by blast
qed

lemma packit_not_recipe: "\<not> starts_with (recipe_prefix n) packit_path"
  by (simp add: recipe_prefix_def packit_path_def)

lemma recipe_files_packit: "recipe_files (AList.update packit_path s t) n = recipe_files t n"
  by (simp add: recipe_files_filter filter_update packit_not_recipe)

text \<open>A run changes no file but those of the recipes it reports as safe; without \<open>--apply\<close> it changes
  none, and never the Packit configuration.\<close>

lemma reimport_stays_in_scope:
  assumes "reimport_all env t = Inr (t', r)" "re_apply env \<longrightarrow> list_all (\<lambda>n. \<not> starts_with (recipe_prefix n) p) (rr_safe r)"
  shows "map_of t' p = map_of t p"
proof -
  obtain locks recipes t1 where run: "fold_r (reimport_one env (koji_rawhide_commits (re_latest env) (re_source env)
        (sort (map fst recipes))) locks) recipes (t, no_report) = Inr (t1, r)"
      "distinct (map fst recipes)" "\<forall>n \<in> fst ` set recipes. CHR ''/'' \<notin> set n"
    and t': "t' = t1 \<or> (\<exists>s. map_of t packit_path = Some s \<and> t' = AList.update packit_path s t1)"
    using reimport_all_run [OF assms(1)] by blast
  have same: "map_of t1 q = map_of t q" if "re_apply env \<longrightarrow> (\<forall>n \<in> set (rr_safe r). \<not> starts_with (recipe_prefix n) q)" for q
    using run_recipes [OF run(1,2)] run(3) that by blast
  show ?thesis
    using t' same [of p] assms(2) by (auto simp: list_all_iff update_conv)
qed

lemma safe_outcome:
  assumes "reimport_all env t = Inr (t', r)" "n \<in> set (rr_safe r)"
  shows "\<exists>names locks fs. let koji = koji_rawhide_commits (re_latest env) (re_source env) names in
    source_locks t = Inr locks \<and> recipe_verdict env koji locks t n fs = Inr Safe \<and>
    (if re_apply env then take_safe env (map_of koji n) n fs (recipe_files t n) = Inr (recipe_files t' n)
     else recipe_files t' n = recipe_files t n)"
proof -
  obtain locks recipes t1 where run: "fold_r (reimport_one env (koji_rawhide_commits (re_latest env) (re_source env)
        (sort (map fst recipes))) locks) recipes (t, no_report) = Inr (t1, r)"
      "distinct (map fst recipes)" "\<forall>n \<in> fst ` set recipes. CHR ''/'' \<notin> set n" and locks: "source_locks t = Inr locks"
    and t': "t' = t1 \<or> (\<exists>s. map_of t packit_path = Some s \<and> t' = AList.update packit_path s t1)"
    using reimport_all_run [OF assms(1)] by blast
  let ?koji = "koji_rawhide_commits (re_latest env) (re_source env) (sort (map fst recipes))"
  have files: "recipe_files t' n = recipe_files t1 n" using t' by (auto simp: recipe_files_packit)
  obtain fs where fs: "(n, fs) \<in> set recipes" "recipe_verdict env ?koji locks t n fs = Inr Safe"
    using run_recipes [OF run(1,2)] run(3) assms(2) by (auto simp: no_report_def)
  have "if recipe_verdict env ?koji locks t n fs = Inr Safe \<and> re_apply env
      then take_safe env (map_of ?koji n) n fs (recipe_files t n) = Inr (recipe_files t1 n) else recipe_files t1 n = recipe_files t n"
    using run_recipes [OF run(1,2)] run(3) fs(1) by blast
  with fs(2) locks files show ?thesis unfolding Let_def by (metis (no_types, lifting))
qed

lemma distinct_recipe_files: "distinct (map fst t) \<Longrightarrow> distinct (map fst (recipe_files t n))"
  by (induction t) (force simp: recipe_files_filter starts_with_iff)+

text \<open>A recipe that is safe, and what it becomes.\<close>

lemma safe_taken:
  assumes "recipe_verdict env koji locks t n fs = Inr Safe" "distinct (map fst t)"
    and "take_safe env (map_of koji n) n fs (recipe_files t n) = Inr files \<or> files = recipe_files t n"
  shows "map_of files ''sources'' = map_of (recipe_files t n) ''sources'' \<and>
    (\<exists>p old new. single_spec (recipe_files t n) = Some (p, old) \<and> single_spec files = Some (p, new) \<and> same_payload old new)"
proof -
  let ?loc = "recipe_files t n"
  from assess_safe [OF assms(1) [unfolded recipe_verdict_def]] obtain commit pin remote branch git pinned target where
    safe: "Option.bind (map_of koji n) kb_commit = Some commit" "provenance_field fs ''remote'' = Inr remote" "provenance_field fs ''branch'' = Inr branch"
      "re_clone env remote branch = Inr git" "dg_tree git pin = Inr pinned" "dg_tree git commit = Inr target"
    and none: "reimport_reasons n fs (map_of locks n) ?loc pinned target (dg_ancestor git pin commit) = []" by blast
  from no_reasons [OF none] obtain p old new where div: "divergence ?loc pinned = []"
    and sources: "map_of pinned ''sources'' = map_of target ''sources''"
    and specs: "single_spec pinned = Some (p, old)" "single_spec target = Some (p, new)" "same_payload old new" by blast
  have kept: "\<not> inert ''sources'' s" for s by (rule no_slash_inert) auto
  have "map_of ?loc q = map_of pinned q" if "top_spec q" for q
    using not_diverged [OF div, of q] top_spec_kept [OF that] by blast
  then have loc: "single_spec ?loc = Some (p, old)"
    by (rule single_spec_same [OF specs(1) distinct_recipe_files [OF assms(2)]])
  have src: "map_of ?loc ''sources'' = map_of pinned ''sources''"
    using not_diverged [OF div, of "''sources''"] kept by (auto simp: factory_files_def)
  from assms(3) show ?thesis
  proof
    assume "files = ?loc"
    then show ?thesis using loc by (auto simp: same_payload_def)
  next
    assume "take_safe env (map_of koji n) n fs ?loc = Inr files"
    then have re: "reimport git n branch remote commit (re_now env) ?loc = Inr files"
      using safe by (simp add: take_safe_def)
    from reimported [OF re safe(6)] have "single_spec files = Some (p, new)" "map_of files ''sources'' = map_of target ''sources''"
      using specs(2) kept by (auto simp: factory_files_def)
    then show ?thesis using loc src sources specs(3) by auto
  qed
qed

text \<open>C14: a recipe reported safe has, before and after the run, one spec of the same name, the same
  \<open>sources\<close>, the same \<open>Name\<close>, \<open>Epoch\<close>, \<open>Version\<close> and \<open>Release\<close> fields, and no build dependency it had
  not before: its source lock describes it still and the build graph has no new edge.\<close>

theorem reimport_keeps_payload:
  assumes "reimport_all env t = Inr (t', r)" "n \<in> set (rr_safe r)" "distinct (map fst t)"
  shows "map_of (recipe_files t' n) ''sources'' = map_of (recipe_files t n) ''sources'' \<and>
    (\<exists>p old new. single_spec (recipe_files t n) = Some (p, old) \<and> single_spec (recipe_files t' n) = Some (p, new) \<and> same_payload old new)"
proof -
  from safe_outcome [OF assms(1,2)] obtain koji locks fs where "recipe_verdict env koji locks t n fs = Inr Safe"
    "if re_apply env then take_safe env (map_of koji n) n fs (recipe_files t n) = Inr (recipe_files t' n)
     else recipe_files t' n = recipe_files t n" by (auto simp: Let_def)
  then show ?thesis
    by (intro safe_taken [OF _ assms(3)]) (auto split: if_splits)
qed

lemma multicall_map [code]: "multicall f xs = map f xs"
proof -
  have "multicall f xs = map f (concat (chunks_of 100 xs))" by (simp add: multicall_def map_concat)
  then show ?thesis using chunks_of_spec [of 100 xs] by simp
qed

text \<open>The commit of a recipe is that of the build Koji tagged.\<close>

definition koji_built :: "reimport_env \<Rightarrow> string \<Rightarrow> string \<Rightarrow> bool" where
  "koji_built env n commit = (case re_latest env n of
      None \<Rightarrow> False
    | Some (i, _) \<Rightarrow> (case re_source env i of None \<Rightarrow> False | Some s \<Rightarrow> koji_commit s = Some commit))"

lemma koji_commit_empty [simp]: "koji_commit [] = None"
  by code_simp

lemma koji_commits_tagged:
  assumes "Option.bind (map_of (koji_rawhide_commits (re_latest env) (re_source env) names) n) kb_commit = Some commit"
  shows "koji_built env n commit"
proof -
  define builds where "builds = dict_of_pairs (List.map_filter (\<lambda>(n, b). map_option (Pair n) b) (zip names (multicall (re_latest env) names)))"
  define found where "found = sort (map fst builds)"
  define details where "details = zip found (multicall (\<lambda>n. case map_of builds n of None \<Rightarrow> None | Some (i, _) \<Rightarrow> re_source env i) found)"
  let ?of = "\<lambda>m :: string. koji_commit (case map_of details m of Some (Some s) \<Rightarrow> s | _ \<Rightarrow> [])"
  have "koji_rawhide_commits (re_latest env) (re_source env) names =
      map (\<lambda>(m, (i, nvr)). (m, \<lparr>kb_nvr = nvr, kb_commit = ?of m\<rparr>)) builds"
    by (simp add: koji_rawhide_commits_def builds_def found_def details_def Let_def)
  then obtain i nvr where b: "(n, (i, nvr)) \<in> set builds" and commit: "?of n = Some commit"
    using assms by (auto simp: bind_eq_Some_conv dest!: map_of_SomeD)
  have "re_latest env n = Some (i, nvr)"
  proof -
    have "map_of builds n = Some (i, nvr)" using b by (simp add: builds_def)
    then have "(n, (i, nvr)) \<in> set (List.map_filter (\<lambda>(n, b). map_option (Pair n) b) (zip names (multicall (re_latest env) names)))"
      unfolding builds_def map_of_dict_of_pairs by (metis map_of_SomeD set_rev)
    then show ?thesis by (auto simp: set_map_filter multicall_map zip_map2 zip_same_conv_map)
  qed
  moreover have "re_source env i = Some s" if "map_of details n = Some (Some s)" for s
  proof -
    have at: "map_of builds n = Some (i, nvr)" using b by (simp add: builds_def)
    from that have "(case map_of builds n of None \<Rightarrow> None | Some (i, _) \<Rightarrow> re_source env i) = Some s"
      by (auto simp: details_def multicall_map zip_map2 zip_same_conv_map dest!: map_of_SomeD)
    with at show ?thesis by simp
  qed
  ultimately show ?thesis
    using commit by (auto simp: koji_built_def split: option.splits)
qed

text \<open>A recipe with the files of a tree, metadata the build does not see and the provenance apart.\<close>

definition carries :: "recipe_tree \<Rightarrow> recipe_tree \<Rightarrow> bool" where
  "carries files tree = list_all (\<lambda>p. p \<in> set factory_files \<or> map_of files p = map_of tree p \<or>
     map_of files p = None \<and> inert p (spec_of tree)) (map fst files @ map fst tree)"


subsection \<open>A run\<close>

text \<open>One recipe whose spec moved in its summary and whose CI metadata the factory does not carry.\<close>

definition rawhide_pin :: string where "rawhide_pin = replicate 40 CHR ''b''"

definition rawhide_built :: string where "rawhide_built = replicate 40 CHR ''a''"

definition rawhide_spec :: "string \<Rightarrow> string" where
  "rawhide_spec about = join [CHR 0x0A] [''Name: p'', ''Version: 1'', ''Release: 2%{?dist}'', ''Summary: '' @ about, ''BuildRequires: gcc, make >= 4'', ''%check'']"

definition sample_dist_git :: dist_git where
  "sample_dist_git = \<lparr>
     dg_tree = (\<lambda>c. if c = rawhide_pin then Inr [(''p.spec'', rawhide_spec ''old''), (''sources'', ''x''), (''gating.yaml'', ''g'')]
                    else if c = rawhide_built then Inr [(''p.spec'', rawhide_spec ''new''), (''sources'', ''x''), (''gating.yaml'', ''h'')]
                    else Inl (RuntimeError ''git'')),
     dg_ancestor = (\<lambda>a b. a = b \<or> a = rawhide_pin \<or> b = ''HEAD''), dg_head = ''HEAD'', dg_tree_id = id\<rparr>"

definition sample_reimport :: reimport_env where
  "sample_reimport = \<lparr>re_clone = (\<lambda>remote branch. Inr sample_dist_git), re_latest = (\<lambda>n. Some (7, n @ ''-1-2'')),
     re_source = (\<lambda>i. Some (''git+https://src.fedoraproject.org/rpms/p.git#'' @ rawhide_built)),
     re_now = ''now'', re_apply = True, re_only = None\<rparr>"

definition rawhide_checkout :: rev_tree where
  "rawhide_checkout =
     [(''packages/p/p.spec'', rawhide_spec ''old''), (''packages/p/sources'', ''x''),
      (''packages/p/.hummingbird-upstream.json'', dumps_default (JObj [(''package'', JStr ''p''), (''branch'', JStr ''rawhide''),
         (''remote'', JStr (fedora_remote ''p'')), (''commit'', JStr rawhide_pin)])),
      (lock_path, dumps_default (JObj [(''packages'', JList [JObj [(''name'', JStr ''p'')]])])),
      (packit_path, packit_text [(''p'', ''p.spec'', ''p'')])]"

definition rawhide_fields :: "(string, json) dict" where
  "rawhide_fields = [(''package'', JStr ''p''), (''branch'', JStr ''rawhide''), (''remote'', JStr (fedora_remote ''p'')), (''commit'', JStr rawhide_pin)]"

definition rawhide_moved :: recipe_tree where
  "rawhide_moved = [(''p.spec'', rawhide_spec ''new''), (''sources'', ''x''), (''.hummingbird-upstream.json'',
     provenance_text ''p'' ''rawhide'' (fedora_remote ''p'') rawhide_built rawhide_built ''now'')]"

lemma sample_recipes:
  "rawhide_recipes rawhide_checkout = Inr [(''p'', rawhide_fields)]"
  by code_simp

lemma sample_locks:
  "source_locks rawhide_checkout = Inr [(''p'', [(''name'', JStr ''p'')])]"
  by code_simp

lemma sample_koji:
  "koji_rawhide_commits (re_latest sample_reimport) (re_source sample_reimport) [''p''] = [(''p'', \<lparr>kb_nvr = ''p-1-2'', kb_commit = Some rawhide_built\<rparr>)]"
  by code_simp

lemma sample_verdict:
  "assess (re_clone sample_reimport) ''p'' rawhide_fields (Some \<lparr>kb_nvr = ''p-1-2'', kb_commit = Some rawhide_built\<rparr>)
     (Some [(''name'', JStr ''p'')]) (recipe_files rawhide_checkout ''p'') = Inr Safe"
  by code_simp

lemma sample_taken:
  "take_safe sample_reimport (Some \<lparr>kb_nvr = ''p-1-2'', kb_commit = Some rawhide_built\<rparr>) ''p'' rawhide_fields (recipe_files rawhide_checkout ''p'') =
     Inr rawhide_moved"
  by code_simp

lemma sample_packit:
  "render_packit (replace_recipe rawhide_checkout ''p'' rawhide_moved) = Inr (packit_text [(''p'', ''p.spec'', ''p'')])"
  by code_simp

lemma sample_packit_before:
  "map_of rawhide_checkout packit_path = Some (packit_text [(''p'', ''p.spec'', ''p'')])"
  by code_simp

lemmas sample_stages = sample_recipes sample_locks sample_koji sample_verdict sample_taken sample_packit sample_packit_before

lemma sample_reimported:
  "\<exists>t' r. reimport_all sample_reimport rawhide_checkout = Inr (t', r) \<and> rr_safe r = [''p''] \<and> recipe_files t' ''p'' = rawhide_moved"
proof -
  have env: "re_apply sample_reimport" "re_only sample_reimport = None" by (simp_all add: sample_reimport_def)
  have one: "reimport_one sample_reimport (koji_rawhide_commits (re_latest sample_reimport) (re_source sample_reimport) [''p''])
      [(''p'', [(''name'', JStr ''p'')])] (''p'', rawhide_fields) (rawhide_checkout, no_report) =
      Inr (replace_recipe rawhide_checkout ''p'' rawhide_moved, note_assessment ''p'' Safe no_report)"
    by (simp add: reimport_one_def recipe_verdict_def sample_stages env)
  have "reimport_all sample_reimport rawhide_checkout =
      Inr (AList.update packit_path (packit_text [(''p'', ''p.spec'', ''p'')]) (replace_recipe rawhide_checkout ''p'' rawhide_moved),
        note_assessment ''p'' Safe no_report)"
    by (simp add: reimport_all_def sample_recipes sample_locks sample_packit sample_packit_before chosen_recipes_def env one safe_noted)
  then show ?thesis by (simp add: safe_noted no_report_def recipe_files_packit)
qed

theorem reimport_keeps_payload_witness:
  "\<exists>t' r. reimport_all sample_reimport rawhide_checkout = Inr (t', r) \<and> rr_safe r = [''p''] \<and>
     map_of (recipe_files t' ''p'') ''sources'' = map_of (recipe_files rawhide_checkout ''p'') ''sources'' \<and>
     (\<exists>p old new. single_spec (recipe_files rawhide_checkout ''p'') = Some (p, old) \<and> single_spec (recipe_files t' ''p'') = Some (p, new) \<and>
        same_payload old new)"
proof -
  obtain t' r where run: "reimport_all sample_reimport rawhide_checkout = Inr (t', r)" "rr_safe r = [''p'']" using sample_reimported by blast
  have "''p'' \<in> set (rr_safe r)" "distinct (map fst rawhide_checkout)" by (simp add: run(2)) code_simp
  from reimport_keeps_payload [OF run(1) this] run show ?thesis by blast
qed


lemma reimport_stays_in_scope_witness:
  "\<exists>t' r. reimport_all sample_reimport rawhide_checkout = Inr (t', r) \<and> map_of t' packit_path = map_of rawhide_checkout packit_path"
proof -
  obtain t' r where run: "reimport_all sample_reimport rawhide_checkout = Inr (t', r)" "rr_safe r = [''p'']" using sample_reimported by blast
  have "re_apply sample_reimport \<longrightarrow> list_all (\<lambda>n. \<not> starts_with (recipe_prefix n) packit_path) (rr_safe r)"
    by (simp add: run(2) packit_not_recipe)
  from reimport_stays_in_scope [OF run(1) this] run(1) show ?thesis by blast
qed

end
