(* ===== verification/Package_Index.thy ===== *)
theory Package_Index
  imports Rawhide_Reimport
begin

section \<open>The package catalog (\<open>package_index.py\<close>)\<close>

text \<open>
  What the published image holds, folded into the source packages it was built from, with what the checkout
  knows of each. The registry, the layer and the XML parser are outside: the functions start from the
  configuration of the image and the element tree of \<open>primary.xml\<close>.
\<close>

subsection \<open>Binary packages\<close>

record binary_rpm =
  br_name :: string
  br_arch :: string
  br_epoch :: int
  br_version :: string
  br_release :: string
  br_summary :: string
  br_description :: string
  br_url :: string
  br_size :: int
  br_installed :: int
  br_buildtime :: int
  br_license :: string
  br_sourcerpm :: string

text \<open>\<open>int(e.get(key) or 0)\<close>.\<close>

definition int_attribute :: "xml \<Rightarrow> string \<Rightarrow> int result" where
  "int_attribute e key =
     (case map_of (xattrs e) key of
        None \<Rightarrow> Inr 0
      | Some [] \<Rightarrow> Inr 0
      | Some s \<Rightarrow> (case py_int s of None \<Rightarrow> Inl (ValueError (''invalid literal for int() with base 10: '' @ repr_str s)) | Some n \<Rightarrow> Inr n))"

definition child :: "string \<Rightarrow> xml \<Rightarrow> xml result" where
  "child tag_name e = (case find_kid tag_name e of None \<Rightarrow> Inl AttributeError | Some k \<Rightarrow> Inr k)"

definition parse_package_element :: "xml \<Rightarrow> binary_rpm result" where
  "parse_package_element package =
     (let common = (\<lambda>t. or_empty (find_text (common_tag t) package)) in
      bind_r (child (common_tag ''version'') package) (\<lambda>version.
      bind_r (int_attribute version ''epoch'') (\<lambda>epoch.
      bind_r (child (common_tag ''size'') package) (\<lambda>size_element.
      bind_r (int_attribute size_element ''package'') (\<lambda>package_size.
      bind_r (int_attribute size_element ''installed'') (\<lambda>installed_size.
      bind_r (child (common_tag ''time'') package) (\<lambda>when.
      bind_r (int_attribute when ''build'') (\<lambda>buildtime.
      bind_r (child (common_tag ''format'') package) (\<lambda>fmt.
        Inr \<lparr>br_name = common ''name'', br_arch = common ''arch'', br_epoch = epoch,
          br_version = dict_get (xattrs version) ''ver'' [], br_release = dict_get (xattrs version) ''rel'' [],
          br_summary = strip (common ''summary''), br_description = strip (common ''description''), br_url = common ''url'',
          br_size = package_size, br_installed = installed_size, br_buildtime = buildtime,
          br_license = or_empty (find_text (rpm_tag ''license'') fmt),
          br_sourcerpm = or_empty (find_text (rpm_tag ''sourcerpm'') fmt)\<rparr>)))))))))"

definition parse_primary :: "xml \<Rightarrow> binary_rpm list result" where
  "parse_primary root = map_r parse_package_element (kids_named (common_tag ''package'') root)"

subsection \<open>Shelves\<close>

text \<open>The patterns are alternatives of a literal that is the whole name, begins it, ends it or is in it.\<close>

datatype name_rule = Is_Name string | Begins string | Finishes string | Holds string

definition drop_newline :: "string \<Rightarrow> string" where
  "drop_newline s = (if s \<noteq> [] \<and> last s = CHR 0x0A then butlast s else s)"

fun rule_matches :: "name_rule \<Rightarrow> string \<Rightarrow> bool" where
  "rule_matches (Is_Name w) s = (s = w \<or> drop_newline s = w)"
| "rule_matches (Begins w) s = starts_with w s"
| "rule_matches (Finishes w) s = (ends_with w s \<or> ends_with w (drop_newline s))"
| "rule_matches (Holds w) s = contains w s"

definition categories :: "(string \<times> name_rule list) list" where
  "categories = [(''Fonts & i18n'',
      map Finishes [''fonts''] @
      map Begins [''ibus''] @
      map Is_Name [''mozc''] @
      map Begins [''hunspell''] @
      map Is_Name [''hyphen'', ''iso-codes'', ''icu'', ''libthai'', ''libdatrie'', ''fribidi'', ''libunibreak''] @
      map Begins [''enchant''] @
      map Is_Name [''libphonenumber'', ''poppler-data'', ''snowball'']),
    (''Firmware & boot'',
      map Holds [''firmware''] @
      map Begins [''microcode''] @
      map Is_Name [''fwupd'', ''passim'', ''grub2'', ''plymouth'', ''zram-generator'', ''anaconda'', ''livesys-scripts'',
        ''isomd5sum'']),
    (''Multimedia'',
      map Begins [''gstreamer'', ''ffmpeg'', ''pipewire''] @
      map Is_Name [''wireplumber'', ''pulseaudio''] @
      map Begins [''alsa-'', ''libva'', ''libvpl'', ''libvdpau'', ''libass'', ''libaribcaption'', ''libbs2b'', ''libcdio'',
        ''libdvd'', ''libebur128'', ''libfreeaptx'', ''liblc3'', ''libldac'', ''libmodplug'', ''libmysofa'', ''libogg'',
        ''libopenmpt'', ''libsamplerate'', ''libshout'', ''libsndfile'', ''libtheora'', ''libvisual'', ''libvorbis'',
        ''libvpx'', ''libheif'', ''libmediainfo'', ''libzen'', ''libcue'', ''libcanberra'', ''intel-media'',
        ''intel-mediasdk'', ''intel-vpl'', ''intel-gmmlib''] @
      map Is_Name [''aribb24'', ''cdparanoia'', ''codec2'', ''fdk-aac-free'', ''flac'', ''flite'', ''game-music-emu'',
        ''gsm'', ''ilbc'', ''lame'', ''lpcnetfreedv'', ''mpg123'', ''noopenh264'', ''openapv'', ''opencore-amr'', ''opus'',
        ''orc'', ''rubberband'', ''sbc'', ''soxr'', ''spandsp'', ''speex'', ''srt'', ''twolame'', ''vid.stab'',
        ''vo-amrwbenc'', ''wavpack'', ''webrtc-audio-processing'', ''xevd'', ''xeve'', ''xvidcore'', ''zimg'', ''zvbi'',
        ''jpegxl'', ''openjpeg'', ''giflib'', ''libexif'', ''exiv2'', ''libgexiv2'', ''taglib'', ''totem-pl-parser'',
        ''librist'', ''libopenmpt'', ''sound-theme-freedesktop'', ''ffmpegthumbnailer'', ''libcamera'', ''v4l-utils'']),
    (''Graphics & display'',
      map Begins [''mesa''] @
      map Is_Name [''libdrm'', ''libglvnd''] @
      map Begins [''vulkan'', ''spirv'', ''wayland''] @
      map Is_Name [''libepoxy''] @
      map Begins [''libX'', ''libx'', ''xcb'', ''xorg''] @
      map Is_Name [''xhost'', ''xkbcomp'', ''xmodmap'', ''xprop'', ''xrdb'', ''xrefresh'', ''setxkbmap'',
        ''libdisplay-info'', ''libdecor'', ''libei'', ''pixman'', ''igt-gpu-tools'', ''libICE'', ''libSM'', ''waypipe'',
        ''wl-clipboard'', ''libpciaccess'', ''SDL3'', ''sdl2-compat'', ''graphene'', ''highway'', ''nvtop'',
        ''startup-notification'']),
    (''GNOME & GTK'',
      map Begins [''gnome-'', ''gtk''] @
      map Is_Name [''gdm'', ''mutter'', ''nautilus'', ''libadwaita''] @
      map Begins [''adw'', ''adwaita''] @
      map Is_Name [''gjs'', ''glycin''] @
      map Begins [''gcr'', ''gsettings''] @
      map Is_Name [''gvfs'', ''libgweather''] @
      map Begins [''gweather''] @
      map Is_Name [''localsearch'', ''tecla'', ''zenity'', ''ptyxis''] @
      map Begins [''vte'', ''malcontent'', ''xdg-desktop-portal''] @
      map Is_Name [''dconf''] @
      map Begins [''evolution''] @
      map Is_Name [''libportal'', ''gsound'', ''json-glib''] @
      map Begins [''libsoup''] @
      map Is_Name [''glib-networking'', ''webkitgtk''] @
      map Begins [''mozjs''] @
      map Is_Name [''gobject-introspection''] @
      map Begins [''at-spi2''] @
      map Is_Name [''pango'', ''cairo'', ''gdk-pixbuf2'', ''librsvg2'', ''libnotify'', ''libsecret''] @
      map Begins [''gtksourceview''] @
      map Is_Name [''libgda'', ''libgtop2'', ''libcloudproviders'', ''geoclue2'', ''geocode-glib'', ''libnma''] @
      map Begins [''gupnp''] @
      map Is_Name [''gssdp'', ''libmanette'', ''libgsf'', ''libgxps'', ''msgraph'', ''rest'', ''colord-gtk'',
        ''hicolor-icon-theme'', ''libappindicator''] @
      map Begins [''libayatana''] @
      map Is_Name [''libdbusmenu'', ''accountsservice'', ''libxmlb'', ''appstream'', ''shared-mime-info'',
        ''desktop-file-utils''] @
      map Begins [''xdg-user-dirs''] @
      map Is_Name [''switcheroo-control'', ''iio-sensor-proxy'', ''upower''] @
      map Begins [''gnome-shell-extension''] @
      map Is_Name [''slitherer''] @
      map Begins [''kde-''] @
      map Is_Name [''kf5'']),
    (''Hardware'',
      map Is_Name [''bluez'', ''ModemManager'', ''libmbim'', ''libqmi''] @
      map Begins [''libqrtr''] @
      map Is_Name [''udisks2'', ''libblockdev'', ''ddcutil'', ''i2c-tools'', ''lm_sensors'', ''hwdata'', ''hwinfo'',
        ''pciutils'', ''libratbag'', ''openrgb'', ''libwacom'', ''libinput'', ''libevdev'', ''evtest'', ''input-remapper'',
        ''mtdev'', ''hidapi'', ''libgusb'', ''libgudev''] @
      map Begins [''libimobiledevice''] @
      map Is_Name [''usbmuxd'', ''libusbmuxd'', ''libplist'', ''libtatsu'', ''libmtp'', ''libgphoto2''] @
      map Begins [''pcsc'', ''tpm2''] @
      map Is_Name [''iw'', ''wireless-regdb'', ''wpa_supplicant'', ''linux-atm'', ''ppp'', ''libnvme'', ''dmidecode'',
        ''libx86emu'', ''parted'', ''mdadm''] @
      map Begins [''device-mapper''] @
      map Is_Name [''ntfs-3g'', ''fuse'', ''squashfs-tools'', ''libatasmart'', ''libbytesize'', ''volume_key'', ''fxload'',
        ''libfprint'', ''fprintd'', ''colord''] @
      map Begins [''cups'', ''libcups''] @
      map Is_Name [''libppd'', ''ghostscript'', ''pdfio'', ''mobile-broadband-provider-info'', ''gpm'', ''libburn'',
        ''libisoburn'', ''libisofs'']),
    (''Tools & services'',
      map Is_Name [''containerd'', ''runc'', ''distrobox''] @
      map Begins [''flatpak''] @
      map Is_Name [''git'', ''fish'', ''zsh'', ''fzf'', ''gum'', ''rust-just'', ''fastfetch'', ''tailscale'',
        ''wireguard-tools''] @
      map Begins [''xdg-'', ''osinfo''] @
      map Is_Name [''libosinfo'', ''samba'', ''wsdd'', ''rtkit'', ''setools'', ''iputils'', ''liboping'', ''lttng-ust'',
        ''xmlrpc-c'', ''libnfs'', ''libnice'', ''libproxy'', ''libpcap'', ''sassc''])]"

definition category :: "string \<Rightarrow> string" where
  "category name = (case find (\<lambda>(label, rules). list_ex (\<lambda>r. rule_matches r name) rules) categories of
      Some (label, _) \<Rightarrow> label
    | None \<Rightarrow> ''Libraries'')"

subsection \<open>Sources\<close>

text \<open>\<open>SRPM\<close>: name, version and release of a source package's file name.\<close>

definition srpm_body :: "string \<Rightarrow> string option" where
  "srpm_body s =
     (let t = (if ends_with ''.rpm'' s then s else drop_newline s) in
      if ends_with ''.src.rpm'' t then Some (take (length t - 8) t)
      else if ends_with ''.nosrc.rpm'' t then Some (take (length t - 10) t) else None)"

definition srpm_fields :: "string \<Rightarrow> (string \<times> string \<times> string) option" where
  "srpm_fields s = (case srpm_body s of
      None \<Rightarrow> None
    | Some body \<Rightarrow>
        let (nv, release) = rpartition CHR ''-'' body; (n, version) = rpartition CHR ''-'' nv in
        if n \<noteq> [] \<and> version \<noteq> [] \<and> release \<noteq> [] \<and> CHR 0x0A \<notin> set n then Some (n, version, release) else None)"

text \<open>The three groups of names that speak less for the whole, as the two patterns have them.\<close>

definition lead_rank :: "string \<Rightarrow> string \<Rightarrow> nat \<times> nat \<times> string" where
  "lead_rank source rpm =
     (if rpm = source then (0, 0, rpm)
      else ((if list_ex (\<lambda>w. rule_matches (Finishes (CHR ''-'' # w)) rpm) [''debuginfo'', ''debugsource'', ''doc'', ''docs'', ''devel-docs'', ''help''] then 3
             else if list_ex (\<lambda>w. rule_matches (Finishes (CHR ''-'' # w)) rpm) [''devel'', ''static'', ''test'', ''tests''] then 2
             else 1), length rpm, rpm))"

record catalog_entry =
  ce_name :: string
  ce_epoch :: int
  ce_version :: string
  ce_release :: string
  ce_summary :: string
  ce_description :: string
  ce_url :: string
  ce_license :: string
  ce_buildtime :: int
  ce_size :: int
  ce_installed :: int
  ce_rpms :: "(string \<times> string \<times> string \<times> int \<times> int) list"
  ce_upstream :: "json \<times> json"
  ce_recipe :: "json \<times> json"
  ce_category :: string
  ce_lane :: json
  ce_failing :: bool

definition built_from :: "binary_rpm \<Rightarrow> string" where
  "built_from r = (case srpm_fields (br_sourcerpm r) of None \<Rightarrow> br_name r | Some (n, _) \<Rightarrow> n)"

text \<open>\<open>built.setdefault(k, []).append(rpm)\<close>.\<close>

definition built_add :: "binary_rpm \<Rightarrow> (string, binary_rpm list) dict \<Rightarrow> (string, binary_rpm list) dict" where
  "built_add r d = AList.update (built_from r) (dict_get d (built_from r) [] @ [r]) d"

definition built_sources :: "binary_rpm list \<Rightarrow> (string, binary_rpm list) dict" where
  "built_sources rpms = fold built_add rpms []"

definition first_text :: "(binary_rpm \<Rightarrow> string) \<Rightarrow> binary_rpm list \<Rightarrow> string" where
  "first_text f rs = (case find (\<lambda>r. f r \<noteq> []) rs of None \<Rightarrow> [] | Some r \<Rightarrow> f r)"

definition brief :: "binary_rpm \<Rightarrow> string \<times> string \<times> string \<times> int \<times> int" where
  "brief r = (br_name r, br_arch r, br_summary r, br_size r, br_installed r)"

definition ranked :: "string \<Rightarrow> binary_rpm list \<Rightarrow> binary_rpm list" where
  "ranked name rs = sort_key (\<lambda>r. (lead_rank name (br_name r), br_arch r)) rs"

definition recipe_meta :: "rev_tree \<Rightarrow> string \<Rightarrow> json" where
  "recipe_meta t name = (case map_of t (provenance_path name) of
      None \<Rightarrow> JObj []
    | Some s \<Rightarrow> (case loads s of Inl _ \<Rightarrow> JObj [] | Inr v \<Rightarrow> v))"

definition catalog_entry_of :: "rev_tree \<Rightarrow> (string, lock) dict \<Rightarrow> string list \<Rightarrow> string \<times> binary_rpm list \<Rightarrow> catalog_entry result" where
  "catalog_entry_of t known failed = (\<lambda>(name, rpms).
     let members = ranked name rpms; r = hd members; fields = srpm_fields (br_sourcerpm r);
         source = dict_get known name []; meta = recipe_meta t name in
     bind_r (get_or meta ''remote'' (JStr [])) (\<lambda>remote.
     bind_r (get_or meta ''commit'' (JStr [])) (\<lambda>commit.
       Inr \<lparr>ce_name = name, ce_epoch = br_epoch r,
         ce_version = (case fields of None \<Rightarrow> br_version r | Some (_, v, _) \<Rightarrow> v),
         ce_release = (case fields of None \<Rightarrow> br_release r | Some (_, _, rel) \<Rightarrow> rel),
         ce_summary = first_text br_summary members, ce_description = first_text br_description members,
         ce_url = first_text br_url members, ce_license = first_text br_license members,
         ce_buildtime = Max (br_buildtime ` set members), ce_size = sum_list (map br_size members),
         ce_installed = sum_list (map br_installed members), ce_rpms = map brief members,
         ce_upstream = (dict_get source ''version'' (JStr []), dict_get source ''url'' (JStr [])),
         ce_recipe = (remote, commit), ce_category = category name, ce_lane = dict_get source ''build_lane'' (JStr ''hermetic''),
         ce_failing = (name \<in> set failed)\<rparr>)))"

definition group :: "rev_tree \<Rightarrow> string list \<Rightarrow> binary_rpm list \<Rightarrow> catalog_entry list result" where
  "group t failed rpms =
     bind_r (source_locks t) (\<lambda>known.
     bind_r (map_r (catalog_entry_of t known failed) (built_sources rpms)) (\<lambda>es.
       Inr (sort_key (\<lambda>e. lower (ce_name e)) es)))"

text \<open>The labels of the image; \<open>x or y\<close> of a document.\<close>

definition or_else_json :: "json \<Rightarrow> json \<Rightarrow> json" where
  "or_else_json v d = (if truthy v then v else d)"

definition factory_state_label :: string where
  "factory_state_label = ''org.projectbluefin.factory.state''"

definition failed_names :: "json \<Rightarrow> string list result" where
  "failed_names labels =
     bind_r (get_or labels factory_state_label (JStr ''{}'')) (\<lambda>text_value.
     bind_r (as_text text_value) (\<lambda>s.
     let state = (case loads s of Inl _ \<Rightarrow> JObj [] | Inr v \<Rightarrow> v) in
     bind_r (get_or state ''failed'' JNull) (\<lambda>v.
     bind_r (items_of (or_else_json v (JObj []))) (\<lambda>kvs. Inr (map fst kvs)))))"

text \<open>\<open>OWNER/NAME:TAG\<close>, the tag \<open>latest\<close> if there is none.\<close>

definition image_name :: "string \<Rightarrow> string \<times> string" where
  "image_name img =
     (case rpartition CHR '':'' img of (repository, tag_name) \<Rightarrow>
        if repository = [] \<or> CHR ''/'' \<in> set tag_name then (img, ''latest'') else (repository, tag_name))"

record catalog =
  ca_ref :: string
  ca_digest :: string
  ca_created :: json
  ca_revision :: json
  ca_run :: json
  ca_totals :: "nat \<times> nat \<times> int \<times> int"
  ca_failing :: "string list"
  ca_packages :: "catalog_entry list"

definition catalog_of :: "rev_tree \<Rightarrow> json \<Rightarrow> string \<Rightarrow> binary_rpm list \<Rightarrow> string \<Rightarrow> catalog result" where
  "catalog_of t config digest rpms ref =
     bind_r (bind_r (get_or config ''config'' JNull) (\<lambda>c. get_or (or_else_json c (JObj [])) ''Labels'' JNull)) (\<lambda>l.
     let labels = or_else_json l (JObj []) in
     bind_r (failed_names labels) (\<lambda>failed.
     bind_r (group t failed rpms) (\<lambda>packages.
     bind_r (get_or config ''created'' (JStr [])) (\<lambda>created.
     bind_r (get_or labels ''org.opencontainers.image.revision'' (JStr [])) (\<lambda>revision.
     bind_r (get_or labels ''org.projectbluefin.factory.run'' (JStr [])) (\<lambda>run.
       Inr \<lparr>ca_ref = ref, ca_digest = digest, ca_created = created, ca_revision = revision, ca_run = run,
         ca_totals = (length packages, length rpms, sum_list (map br_size rpms), sum_list (map br_installed rpms)),
         ca_failing = sorted_set failed, ca_packages = packages\<rparr>))))))"

subsection \<open>Nothing published is left out\<close>

lemma built_add_mset:
  "distinct (map fst d) \<Longrightarrow> mset (concat (map snd (built_add r d))) = add_mset r (mset (concat (map snd d)))"
proof -
  have update: "mset (concat (map snd (AList.update k (dict_get d k [] @ [r]) d))) = add_mset r (mset (concat (map snd d)))"
    if "distinct (map fst d)" for k and d :: "(string, binary_rpm list) dict"
    using that
  proof (induction d)
    case (Cons x d)
    then show ?case by (cases "fst x = k") (auto simp: dict_get_def)
  qed (simp add: dict_get_def)
  assume "distinct (map fst d)"
  then show ?thesis unfolding built_add_def by (rule update)
qed

lemma built_fold:
  assumes "distinct (map fst d)" "\<forall>(n, rs) \<in> set d. rs \<noteq> [] \<and> (\<forall>r \<in> set rs. built_from r = n)"
  shows "distinct (map fst (fold built_add rpms d)) \<and>
    mset (concat (map snd (fold built_add rpms d))) = mset (concat (map snd d)) + mset rpms \<and>
    (\<forall>(n, rs) \<in> set (fold built_add rpms d). rs \<noteq> [] \<and> (\<forall>r \<in> set rs. built_from r = n))"
  using assms
proof (induction rpms arbitrary: d)
  case (Cons r rpms)
  have "distinct (map fst (built_add r d))" using Cons.prems(1) by (simp add: built_add_def distinct_update)
  moreover have "\<forall>(n, rs) \<in> set (built_add r d). rs \<noteq> [] \<and> (\<forall>r \<in> set rs. built_from r = n)"
  proof (intro ballI, clarify)
    fix n rs
    assume "(n, rs) \<in> set (built_add r d)"
    then have "map_of (built_add r d) n = Some rs" using \<open>distinct (map fst (built_add r d))\<close> by simp
    then have "n = built_from r \<and> rs = dict_get d (built_from r) [] @ [r] \<or> map_of d n = Some rs"
      by (auto simp: built_add_def update_conv split: if_splits)
    then show "rs \<noteq> [] \<and> (\<forall>r \<in> set rs. built_from r = n)"
      using Cons.prems(2) by (fastforce simp: dict_get_def split: option.splits dest!: map_of_SomeD)
  qed
  ultimately show ?case
    using Cons.IH [of "built_add r d"] built_add_mset [OF Cons.prems(1)] by simp
qed simp

lemma built_sources_exact:
  "distinct (map fst (built_sources rpms))"
  "mset (concat (map snd (built_sources rpms))) = mset rpms"
  "(n, rs) \<in> set (built_sources rpms) \<Longrightarrow> rs \<noteq> [] \<and> (\<forall>r \<in> set rs. built_from r = n)"
  using built_fold [of "[]" rpms] by (auto simp: built_sources_def)

lemma ranked_mset [simp]: "mset (ranked n rs) = mset rs"
  by (simp add: ranked_def)

lemma sum_ranked: "sum_list (map f (ranked n rs)) = (\<Sum>r \<in># mset rs. f r)" for f :: "binary_rpm \<Rightarrow> int"
  by (metis mset_map ranked_mset sum_mset_sum_list)

lemma entry_Inr:
  assumes "catalog_entry_of t known failed (n, rs) = Inr e"
  shows "ce_name e = n \<and> ce_rpms e = map brief (ranked n rs) \<and> ce_size e = (\<Sum>r \<in># mset rs. br_size r) \<and>
    ce_installed e = (\<Sum>r \<in># mset rs. br_installed r) \<and> ce_failing e = (n \<in> set failed)"
  using assms by (auto simp: catalog_entry_of_def Let_def bind_r_Inr sum_ranked)

lemma entries_Inr:
  assumes "map_r (catalog_entry_of t known failed) d = Inr es"
  shows "map ce_name es = map fst d \<and> mset (concat (map ce_rpms es)) = image_mset brief (mset (concat (map snd d))) \<and>
    sum_list (map ce_size es) = (\<Sum>r \<in># mset (concat (map snd d)). br_size r) \<and>
    sum_list (map ce_installed es) = (\<Sum>r \<in># mset (concat (map snd d)). br_installed r) \<and>
    list_all (\<lambda>e. ce_failing e = (ce_name e \<in> set failed)) es"
  using assms
proof (induction d arbitrary: es)
  case (Cons x d)
  obtain n rs where x: "x = (n, rs)" by (cases x)
  obtain e es' where es: "catalog_entry_of t known failed (n, rs) = Inr e" "map_r (catalog_entry_of t known failed) d = Inr es'" "es = e # es'"
    using Cons.prems by (auto simp: x bind_r_Inr)
  with Cons.IH [OF es(2)] entry_Inr [OF es(1)] show ?case by (simp add: x)
qed simp

lemma sum_sorted: "sum_list (map f (sort_key g xs)) = sum_list (map f xs)" for f :: "'a \<Rightarrow> int"
  by (metis mset_map mset_sort sum_mset_sum_list)

lemma group_Inr:
  assumes "group t failed rpms = Inr es"
  shows "distinct (map ce_name es) \<and> set (map ce_name es) = built_from ` set rpms \<and>
    mset (concat (map ce_rpms es)) = image_mset brief (mset rpms) \<and>
    sum_list (map ce_size es) = (\<Sum>r \<in># mset rpms. br_size r) \<and>
    sum_list (map ce_installed es) = (\<Sum>r \<in># mset rpms. br_installed r) \<and>
    list_all (\<lambda>e. ce_failing e = (ce_name e \<in> set failed)) es"
proof -
  obtain known es0 where es0: "map_r (catalog_entry_of t known failed) (built_sources rpms) = Inr es0"
    and es: "es = sort_key (\<lambda>e. lower (ce_name e)) es0"
    using assms by (auto simp: group_def bind_r_Inr)
  note facts = entries_Inr [OF es0]
  have "mset (map ce_name es) = mset (map ce_name es0)" by (simp add: es)
  also have "\<dots> = mset (map fst (built_sources rpms))" using conjunct1 [OF facts] by (rule arg_cong)
  finally have names: "distinct (map ce_name es)" "set (map ce_name es) = fst ` set (built_sources rpms)"
    using built_sources_exact(1) by (metis mset_eq_imp_distinct_iff, metis list.set_map set_mset_mset)
  have members: "set rpms = (\<Union>x \<in> set (built_sources rpms). set (snd x))"
    using arg_cong [OF built_sources_exact(2) [of rpms], of set_mset] by simp
  have sources: "fst ` set (built_sources rpms) = built_from ` set rpms"
  proof (rule set_eqI, rule iffI)
    fix n assume "n \<in> fst ` set (built_sources rpms)"
    then obtain rs where rs: "(n, rs) \<in> set (built_sources rpms)" by auto
    then have "hd rs \<in> set rpms" "built_from (hd rs) = n"
      using built_sources_exact(3) [OF rs] members by (auto intro: bexI [of _ "(n, rs)"])
    then show "n \<in> built_from ` set rpms" by blast
  next
    fix n assume "n \<in> built_from ` set rpms"
    then obtain m rs r where "(m, rs) \<in> set (built_sources rpms)" "r \<in> set rs" "n = built_from r" using members by auto
    with built_sources_exact(3) [OF this(1)] show "n \<in> fst ` set (built_sources rpms)" by force
  qed
  have "mset es = mset es0" by (simp add: es)
  then have rpms: "mset (concat (map ce_rpms es)) = mset (concat (map ce_rpms es0))"
    by (simp only: mset_concat mset_map [symmetric] sum_mset_sum_list [symmetric]) (simp add: multiset.map_comp [symmetric])
  have failing: "list_all (\<lambda>e. ce_failing e = (ce_name e \<in> set failed)) es"
    using facts by (simp add: es list_all_iff)
  have sums: "sum_list (map ce_size es) = (\<Sum>r \<in># mset rpms. br_size r)"
    "sum_list (map ce_installed es) = (\<Sum>r \<in># mset rpms. br_installed r)"
    using facts unfolding es sum_sorted built_sources_exact(2) by blast+
  show ?thesis
    using facts names sources rpms failing sums unfolding built_sources_exact(2) by simp
qed

text \<open>the catalog lists every binary package of the image exactly once, under the source it was built from
  and no other, marks exactly the sources whose latest build failed, and its totals are those of its entries.\<close>

theorem catalog_accounts:
  assumes "catalog_of t config digest rpms ref = Inr c"
  shows "mset (concat (map ce_rpms (ca_packages c))) = image_mset brief (mset rpms) \<and>
    distinct (map ce_name (ca_packages c)) \<and> set (map ce_name (ca_packages c)) = built_from ` set rpms \<and>
    ca_totals c = (length (ca_packages c), length (concat (map ce_rpms (ca_packages c))),
      sum_list (map ce_size (ca_packages c)), sum_list (map ce_installed (ca_packages c))) \<and>
    list_all (\<lambda>e. ce_failing e = (ce_name e \<in> set (ca_failing c))) (ca_packages c)"
proof -
  obtain failed where g: "group t failed rpms = Inr (ca_packages c)"
    and c: "ca_totals c = (length (ca_packages c), length rpms, sum_list (map br_size rpms), sum_list (map br_installed rpms))"
      "ca_failing c = sorted_set failed"
    using assms by (auto simp: catalog_of_def Let_def bind_r_Inr)
  note facts = group_Inr [OF g]
  have sums: "(\<Sum>r \<in># mset rpms. f r) = sum_list (map f rpms)" for f :: "binary_rpm \<Rightarrow> int"
    by (metis mset_map sum_mset_sum_list)
  have "size (mset (concat (map ce_rpms (ca_packages c)))) = length rpms" using facts by (simp del: size_mset) simp
  then have "length (concat (map ce_rpms (ca_packages c))) = length rpms" by (simp only: size_mset)
  then show ?thesis using facts by (simp add: c sums)
qed

definition sample_rpm :: "string \<Rightarrow> string \<Rightarrow> binary_rpm" where
  "sample_rpm name source = \<lparr>br_name = name, br_arch = ''x86_64'', br_epoch = 0, br_version = ''1'', br_release = ''2'',
     br_summary = name @ '' text'', br_description = [], br_url = [], br_size = 10, br_installed = 20, br_buildtime = 5,
     br_license = ''MIT'', br_sourcerpm = source\<rparr>"

theorem catalog_accounts_witness:
  "\<exists>c. catalog_of [(lock_path, dumps_default (JObj [(''packages'', JList [])]))]
       (JObj [(''config'', JObj [(''Labels'', JObj [(factory_state_label, JStr (dumps_default (JObj [(''failed'', JObj [(''mesa'', JStr ''d'')])])))])])])
       ''digest'' [sample_rpm ''mesa-libGL'' ''mesa-1-2.src.rpm'', sample_rpm ''zsh'' ''zsh-1-2.src.rpm'', sample_rpm ''mesa-doc'' ''mesa-1-2.src.rpm''] ''ref'' = Inr c \<and>
     distinct (map ce_name (ca_packages c)) \<and> ca_totals c = (2, 3, 30, 60)"
proof -
  let ?run = "catalog_of [(lock_path, dumps_default (JObj [(''packages'', JList [])]))]
       (JObj [(''config'', JObj [(''Labels'', JObj [(factory_state_label, JStr (dumps_default (JObj [(''failed'', JObj [(''mesa'', JStr ''d'')])])))])])])
       ''digest'' [sample_rpm ''mesa-libGL'' ''mesa-1-2.src.rpm'', sample_rpm ''zsh'' ''zsh-1-2.src.rpm'', sample_rpm ''mesa-doc'' ''mesa-1-2.src.rpm''] ''ref''"
  have "map_sum id (\<lambda>c. (ca_totals c, map ce_name (ca_packages c), map ce_failing (ca_packages c))) ?run =
      Inr ((2, 3, 30, 60), [''mesa'', ''zsh''], [True, False])" by code_simp
  then obtain c where c: "?run = Inr c" "ca_totals c = (2, 3, 30, 60)" by (cases ?run) auto
  from catalog_accounts [OF c(1)] c show ?thesis by blast
qed

text \<open>A source package's file name gives back its parts, and the binary named after its source leads.\<close>

lemma srpm_fields_roundtrip:
  assumes "n \<noteq> []" "CHR 0x0A \<notin> set n" "v \<noteq> []" "CHR ''-'' \<notin> set v" "r \<noteq> []" "CHR ''-'' \<notin> set r"
  shows "srpm_fields (n @ ''-'' @ v @ ''-'' @ r @ ''.src.rpm'') = Some (n, v, r)"
proof -
  let ?b = "n @ CHR ''-'' # v @ CHR ''-'' # r"
  have "srpm_body (?b @ ''.src.rpm'') = Some ?b"
    by (simp add: srpm_body_def Let_def ends_with_iff)
  moreover have "rpartition CHR ''-'' ?b = (n @ CHR ''-'' # v, r)"
    using rpartition_append [OF assms(6), of "n @ CHR ''-'' # v"] by simp
  ultimately show ?thesis
    using assms by (simp add: srpm_fields_def rpartition_append)
qed

lemma source_leads:
  assumes "r \<in> set rs" "br_name r = source"
  shows "br_name (hd (ranked source rs)) = source"
proof -
  let ?key = "\<lambda>r. (lead_rank source (br_name r), br_arch r)"
  have "sorted (map ?key (ranked source rs))" by (simp add: ranked_def)
  moreover have "set (ranked source rs) \<noteq> {}" using assms(1) by (auto simp: ranked_def)
  then obtain x xs where xs: "ranked source rs = x # xs" by (cases "ranked source rs") simp_all
  moreover have "r \<in> set (ranked source rs)" using assms(1) by (simp add: ranked_def)
  ultimately have "?key x \<le> ?key r" by auto
  then have "fst (lead_rank source (br_name x)) = 0"
    using assms(2) by (auto simp: lead_rank_def less_eq_prod_def less_prod_def split: if_splits)
  then have "br_name x = source" by (auto simp: lead_rank_def split: if_splits)
  then show ?thesis by (simp add: xs)
qed

end
