(* ===== verification/Runtime_Contract.thy ===== *)
theory Runtime_Contract
  imports Rawhide_Reimport
begin

section \<open>What the consumers install (\<open>runtime_contract.py\<close>, \<open>recalculate_hummingbird_gaps.py\<close>)\<close>

text \<open>
  The packages the runtime contract asks for, and the parity still owed. A TOML document is given as the
  value its parser returns, or the error it raises.
\<close>

subsection \<open>The runtime contract\<close>

definition text_list :: "json \<Rightarrow> string list option" where
  "text_list v = (case v of
      JList xs \<Rightarrow> those (map (\<lambda>x. case x of JStr s \<Rightarrow> Some s | _ \<Rightarrow> None) xs)
    | _ \<Rightarrow> None)"

definition package_section :: "json \<Rightarrow> string \<Rightarrow> string list result" where
  "package_section document section_name =
     bind_r (get_or document section_name (JObj [])) (\<lambda>v.
     bind_r (get_or v ''packages'' (JList [])) (\<lambda>ps.
       case text_list ps of
         None \<Rightarrow> Inl (ValueError (concat [''['', section_name, ''].packages must be an array of strings'']))
       | Some names \<Rightarrow> Inr names))"

definition contract_image :: "json \<Rightarrow> string result" where
  "contract_image policy =
     bind_r (get_or policy ''base'' (JObj [])) (\<lambda>v.
     bind_r (get_or v ''image'' (JStr [])) (\<lambda>img.
       case img of
         JStr s \<Rightarrow> if contains ''@sha256:'' s then Inr s
           else Inl (ValueError ''[base].image must be an OCI reference pinned by sha256 digest'')
       | _ \<Rightarrow> Inl (ValueError ''[base].image must be an OCI reference pinned by sha256 digest'')))"

definition contract_sections :: "json \<Rightarrow> string list result" where
  "contract_sections policy =
     bind_r (get_or policy ''bluefin'' (JObj [])) (\<lambda>v.
     bind_r (get_or v ''sections'' (JList [])) (\<lambda>ss.
       case text_list ss of
         None \<Rightarrow> Inl (ValueError ''[bluefin].sections must be an array of strings'')
       | Some [] \<Rightarrow> Inl (ValueError ''runtime contract has no Bluefin sections'')
       | Some names \<Rightarrow> Inr names))"

definition requested_from :: "json \<Rightarrow> string \<Rightarrow> string list result" where
  "requested_from bluefin section_name =
     bind_r (within section_name bluefin) (\<lambda>there.
       if there then package_section bluefin section_name
       else Inl (ValueError (concat [''Bluefin manifest has no ['', section_name, ''] section''])))"

definition resolve_contract :: "json result \<Rightarrow> json result \<Rightarrow> string list result" where
  "resolve_contract bluefin_file policy_file =
     bind_r bluefin_file (\<lambda>bluefin.
     bind_r policy_file (\<lambda>policy.
     bind_r (contract_image policy) (\<lambda>_.
     bind_r (contract_sections policy) (\<lambda>sections.
     bind_r (package_section policy ''unavailable'') (\<lambda>unavailable.
     bind_r (map_r (requested_from bluefin) sections) (\<lambda>parts.
     bind_r (package_section policy ''utah'') (\<lambda>own.
       let requested = concat parts @ own; unknown = sorted_set (set_minus unavailable requested) in
       if unknown \<noteq> [] then Inl (ValueError (''unavailable packages are not requested by the contract: '' @ join '', '' unknown))
       else Inr (first_occurrences (filter (\<lambda>n. n \<notin> set unavailable) requested)))))))))"

datatype contract_mode = List_Names | As_Json | Check_Only | Show_Image

text \<open>The exit status and the line on each stream; errors of other kinds are not caught.\<close>

definition contract_main :: "contract_mode \<Rightarrow> json result \<Rightarrow> json result \<Rightarrow> (int \<times> string) result" where
  "contract_main mode bluefin_file policy_file =
     (case bind_r policy_file (\<lambda>policy. bind_r (contract_image policy) (\<lambda>img.
         bind_r (resolve_contract bluefin_file policy_file) (\<lambda>packages. Inr (img, packages)))) of
        Inl (ValueError m) \<Rightarrow> Inr (1, ''ERROR: '' @ m)
      | Inl (OSError m) \<Rightarrow> Inr (1, ''ERROR: '' @ m)
      | Inl e \<Rightarrow> Inl e
      | Inr (img, packages) \<Rightarrow>
          if packages = [] then Inr (1, ''ERROR: runtime contract resolved to no packages'')
          else Inr (0, case mode of
              Show_Image \<Rightarrow> img
            | Check_Only \<Rightarrow> concat [''validated runtime contract: '', show_nat (length packages), '' packages against '', img]
            | As_Json \<Rightarrow> dumps_default (JList (map JStr packages))
            | List_Names \<Rightarrow> join [CHR 0x0A] packages))"

subsection \<open>The parity still owed\<close>

definition package_lines :: "string \<Rightarrow> string list" where
  "package_lines s = remdups (map strip (filter (\<lambda>l. strip l \<noteq> [] \<and> \<not> starts_with ''#'' l) (splitlines s)))"

text \<open>A section that is no table is passed over.\<close>

definition section_packages :: "string \<times> json \<Rightarrow> string list result" where
  "section_packages = (\<lambda>(name, values). case values of
      JObj kvs \<Rightarrow> if name \<noteq> ''excluded'' then as_texts (dict_get kvs ''packages'' (JList [])) else Inr []
    | _ \<Rightarrow> Inr [])"

record gap_report =
  gap_contract :: "string list"
  gap_unavailable :: "string list"
  gap_from_image :: "string list"
  gap_from_repo :: "string list"
  gap_missing :: "string list"

definition parity_contract :: "json \<Rightarrow> string list result" where
  "parity_contract manifest =
     bind_r (items_of manifest) (\<lambda>sections. bind_r (map_r section_packages sections) (\<lambda>ps. Inr (concat ps)))"

definition gap_lists :: "string list \<Rightarrow> string list \<Rightarrow> string list \<Rightarrow> string list \<Rightarrow> gap_report" where
  "gap_lists asked unavailable img repo =
     (let dropped = set_inter unavailable asked; contract = set_minus asked dropped; available = set_union img repo in
      \<lparr>gap_contract = sorted_set contract, gap_unavailable = sorted_set dropped,
       gap_from_image = sorted_set (set_inter contract img),
       gap_from_repo = sorted_set (set_minus (set_inter contract repo) img),
       gap_missing = sorted_set (set_minus contract available)\<rparr>)"

definition hummingbird_gap :: "json result \<Rightarrow> json result \<Rightarrow> string \<Rightarrow> string \<Rightarrow> gap_report result" where
  "hummingbird_gap manifest_file policy_file image_packages repo_packages =
     bind_r manifest_file (\<lambda>manifest.
     bind_r (parity_contract manifest) (\<lambda>asked.
     bind_r (bind_r policy_file (\<lambda>policy. package_section policy ''unavailable'')) (\<lambda>unavailable.
       Inr (gap_lists asked unavailable (package_lines image_packages) (package_lines repo_packages)))))"

definition gap_counts :: "gap_report \<Rightarrow> (string, nat) dict" where
  "gap_counts r = [(''contract'', length (gap_contract r)), (''excluded_as_unavailable'', length (gap_unavailable r)),
     (''image'', length (gap_from_image r)), (''repo_only'', length (gap_from_repo r)), (''missing'', length (gap_missing r))]"

subsection \<open>What the contract is\<close>

lemma text_list_Some: "text_list v = Some ns \<longleftrightarrow> v = JList (map JStr ns)"
proof -
  have "those (map (\<lambda>x. case x of JStr s \<Rightarrow> Some s | _ \<Rightarrow> None) xs) = Some ns \<longleftrightarrow> xs = map JStr ns" for xs ns
    by (induction xs arbitrary: ns) (auto split: json.splits option.splits)
  then show ?thesis by (cases v) (auto simp: text_list_def)
qed

lemma set_first_occurrences [simp]: "set (first_occurrences xs) = set xs" "distinct (first_occurrences xs)"
  by (simp_all add: first_occurrences_def)

lemma unknown_empty: "sorted_set (set_minus xs ys) = [] \<longleftrightarrow> set xs \<subseteq> set ys" for xs ys :: "string list"
  using set_empty [of "sorted_set (set_minus xs ys)"] by (simp only: set_ops Diff_eq_empty_iff)

text \<open>The contract that is resolved lists, once each and in the order of their first request, the packages
  of its Bluefin sections and its own that it does not declare unavailable, and what it declares unavailable
  is among them.\<close>

lemma contract_exact:
  assumes "resolve_contract (Inr b) (Inr p) = Inr names"
  shows "\<exists>secs parts own unavailable. contract_sections p = Inr secs \<and> map_r (requested_from b) secs = Inr parts \<and>
    package_section p ''utah'' = Inr own \<and> package_section p ''unavailable'' = Inr unavailable \<and>
    distinct names \<and> set names = set (concat parts @ own) - set unavailable \<and> set unavailable \<subseteq> set (concat parts @ own)"
proof -
  obtain secs parts own unavailable where parts: "contract_sections p = Inr secs" "map_r (requested_from b) secs = Inr parts"
      "package_section p ''utah'' = Inr own" "package_section p ''unavailable'' = Inr unavailable"
    and names: "(if sorted_set (set_minus unavailable (concat parts @ own)) \<noteq> []
        then Inl (ValueError (''unavailable packages are not requested by the contract: '' @
          join '', '' (sorted_set (set_minus unavailable (concat parts @ own)))))
        else Inr (first_occurrences (filter (\<lambda>n. n \<notin> set unavailable) (concat parts @ own)))) = Inr names"
    using assms by (auto simp: resolve_contract_def bind_r_Inr Let_def)
  have "set unavailable \<subseteq> set (concat parts @ own)"
    using names unknown_empty [of unavailable "concat parts @ own"] by (cases "sorted_set (set_minus unavailable (concat parts @ own)) = []") auto
  moreover have "names = first_occurrences (filter (\<lambda>n. n \<notin> set unavailable) (concat parts @ own))"
    using names by (cases "sorted_set (set_minus unavailable (concat parts @ own)) = []") auto
  then have "distinct names \<and> set names = set (concat parts @ own) - set unavailable" by auto
  ultimately show ?thesis using parts by (intro exI [of _ secs] exI [of _ parts] exI [of _ own] exI [of _ unavailable]) simp
qed

lemma gap_lists_exact:
  "set (gap_contract (gap_lists asked unavailable img repo)) = set asked - set unavailable"
  "set (gap_from_image (gap_lists asked unavailable img repo)) = (set asked - set unavailable) \<inter> set img"
  "set (gap_from_repo (gap_lists asked unavailable img repo)) = (set asked - set unavailable) \<inter> set repo - set img"
  "set (gap_missing (gap_lists asked unavailable img repo)) = set asked - set unavailable - set img - set repo"
  by (auto simp: gap_lists_def Let_def)

lemma gap_lists_distinct:
  "distinct (gap_contract (gap_lists asked unavailable img repo))" "distinct (gap_from_image (gap_lists asked unavailable img repo))"
  "distinct (gap_from_repo (gap_lists asked unavailable img repo))" "distinct (gap_missing (gap_lists asked unavailable img repo))"
  by (simp_all add: gap_lists_def Let_def)

text \<open>What is installed from the image, only from the repository, and from neither, makes up the contract.\<close>

lemma gap_partition:
  assumes "hummingbird_gap m p i r = Inr g"
  shows "mset (gap_contract g) = mset (gap_from_image g) + mset (gap_from_repo g) + mset (gap_missing g)"
proof -
  obtain asked unavailable where g: "g = gap_lists asked unavailable (package_lines i) (package_lines r)"
    using assms by (auto simp: hummingbird_gap_def bind_r_Inr)
  have "distinct (gap_from_image g @ gap_from_repo g @ gap_missing g)"
    by (auto simp: g gap_lists_exact gap_lists_distinct)
  moreover have "set (gap_contract g) = set (gap_from_image g @ gap_from_repo g @ gap_missing g)"
    by (auto simp: g gap_lists_exact)
  ultimately have "mset (gap_contract g) = mset (gap_from_image g @ gap_from_repo g @ gap_missing g)"
    using gap_lists_distinct(1) by (subst set_eq_iff_mset_eq_distinct [symmetric]) (auto simp: g)
  then show ?thesis by simp
qed

lemma requested_asked:
  assumes "requested_from b section_name = Inr names" "section_name \<noteq> ''excluded''" "parity_contract b = Inr asked"
  shows "set names \<subseteq> set asked"
proof -
  obtain kvs where b: "b = JObj kvs" using assms(3) by (auto simp: parity_contract_def items_of_def split: json.splits)
  obtain ps where ps: "map_r section_packages kvs = Inr ps" "asked = concat ps"
    using assms(3) by (auto simp: parity_contract_def items_of_def b bind_r_Inr)
  obtain v where v: "map_of kvs section_name = Some v" "package_section b section_name = Inr names"
    using assms(1) by (auto simp: requested_from_def within_def b dict_has_def bind_r_Inr split: if_splits)
  then obtain ws where ws: "v = JObj ws" "dict_get ws ''packages'' (JList []) = JList (map JStr names)"
    by (auto simp: package_section_def get_or_def b bind_r_Inr dict_get_def text_list_Some split: json.splits option.splits)
  have "as_texts (JList (map JStr names)) = Inr names"
    by (induction names) (auto simp: as_texts_def iterate_def as_text_def)
  then have "section_packages (section_name, v) = Inr names"
    using assms(2) ws by (simp add: section_packages_def)
  moreover have "(section_name, v) \<in> set kvs" using v(1) by (rule map_of_SomeD)
  ultimately have "names \<in> set ps" using map_r_mem [OF ps(1)] by fastforce
  then show ?thesis using ps(2) by auto
qed

text \<open>a package that the contract takes from Bluefin is in the image, in the repository or reported
  missing: none that a consumer installs escapes the measure.\<close>

theorem installed_names_measured:
  assumes "resolve_contract (Inr b) (Inr p) = Inr names" "hummingbird_gap (Inr b) (Inr p) i r = Inr g"
    and "contract_sections p = Inr secs" "''excluded'' \<notin> set secs"
    and "n \<in> set names" "package_section p ''utah'' = Inr own" "n \<notin> set own"
  shows "n \<in> set (package_lines i) \<or> n \<in> set (package_lines r) \<or> n \<in> set (gap_missing g)"
proof -
  obtain parts unavailable where parts: "map_r (requested_from b) secs = Inr parts" "package_section p ''unavailable'' = Inr unavailable"
      "set names = set (concat parts @ own) - set unavailable"
    using contract_exact [OF assms(1)] assms(3,6) by auto
  obtain asked where asked: "parity_contract b = Inr asked" "g = gap_lists asked unavailable (package_lines i) (package_lines r)"
    using assms(2) parts(2) by (auto simp: hummingbird_gap_def bind_r_Inr)
  obtain ns where "ns \<in> set parts" "n \<in> set ns" using assms(5,7) parts(3) by auto
  then obtain s where "s \<in> set secs" "requested_from b s = Inr ns"
    using map_r_source [OF parts(1)] by blast
  then have "n \<in> set asked" using requested_asked asked(1) assms(4) \<open>n \<in> set ns\<close> by blast
  then show ?thesis using asked(2) assms(5) parts(3) by (auto simp: gap_lists_exact)
qed

definition sample_bluefin :: json where
  "sample_bluefin = JObj [(''fedora'', JObj [(''packages'', JList (map JStr [''a'', ''b'', ''c'', ''a'']))]),
     (''excluded'', JObj [(''packages'', JList [JStr ''d''])]), (''version'', JInt 1)]"

definition sample_runtime_policy :: json where
  "sample_runtime_policy = JObj [(''base'', JObj [(''image'', JStr ''host/base@sha256:0'')]),
     (''bluefin'', JObj [(''sections'', JList [JStr ''fedora''])]), (''unavailable'', JObj [(''packages'', JList [JStr ''b''])]),
     (''utah'', JObj [(''packages'', JList [JStr ''u''])])]"

lemma sample_contract: "resolve_contract (Inr sample_bluefin) (Inr sample_runtime_policy) = Inr [''a'', ''c'', ''u'']"
  by code_simp

theorem contract_exact_witness:
  "\<exists>secs parts. contract_sections sample_runtime_policy = Inr secs \<and> map_r (requested_from sample_bluefin) secs = Inr parts"
  using contract_exact [OF sample_contract] by blast

theorem installed_names_measured_witness:
  "\<exists>g. hummingbird_gap (Inr sample_bluefin) (Inr sample_runtime_policy) ''c'' ''d'' = Inr g \<and>
     (''a'' \<in> set (package_lines ''c'') \<or> ''a'' \<in> set (package_lines ''d'') \<or> ''a'' \<in> set (gap_missing g))"
proof -
  have gap: "hummingbird_gap (Inr sample_bluefin) (Inr sample_runtime_policy) ''c'' ''d'' =
      Inr \<lparr>gap_contract = [''a'', ''c''], gap_unavailable = [''b''], gap_from_image = [''c''], gap_from_repo = [], gap_missing = [''a'']\<rparr>"
    by code_simp
  have "contract_sections sample_runtime_policy = Inr [''fedora'']" "''excluded'' \<notin> set [''fedora'']"
    "''a'' \<in> set [''a'', ''c'', ''u'']" "package_section sample_runtime_policy ''utah'' = Inr [''u'']" "''a'' \<notin> set [''u'']" by code_simp+
  from installed_names_measured [OF sample_contract gap this] gap show ?thesis by blast
qed

end
