(* ===== verification/Rawhide_Scan.thy ===== *)
theory Rawhide_Scan
  imports Runtime_Contract
begin

section \<open>What Rawhide ships (\<open>rawhide_sources.py\<close>, \<open>scan_rawhide_state.py\<close>, \<open>import_bluefin_rawhide.py\<close>)\<close>

text \<open>
  The name of a source package, the report of what changed in Rawhide, and the import of the sources behind
  the Bluefin binaries. What \<open>dnf repoquery\<close> prints and what a command did are arguments.
\<close>

subsection \<open>Names of source packages\<close>

text \<open>\<open>SRPM_NAME\<close>, \<open>^(.+)-[0-9][^-]*-.*\.src\.rpm$\<close>: the longest name whose rest is a version, a release and
  the suffix.\<close>

definition srpm_suffix :: "string \<Rightarrow> bool" where
  "srpm_suffix s =
     (CHR 0x0A \<notin> set s \<and> ends_with ''.src.rpm'' s \<or>
      s \<noteq> [] \<and> last s = CHR 0x0A \<and> CHR 0x0A \<notin> set (butlast s) \<and> ends_with ''.src.rpm'' (butlast s))"

definition srpm_rest :: "string \<Rightarrow> bool" where
  "srpm_rest s = (case s of
      c # d # r \<Rightarrow> c = CHR ''-'' \<and> is_digit d \<and> CHR ''-'' \<in> set r \<and> srpm_suffix (tl (dropWhile (\<lambda>x. x \<noteq> CHR ''-'') r))
    | _ \<Rightarrow> False)"

definition srpm_name :: "string \<Rightarrow> string option" where
  "srpm_name s = map_option (\<lambda>n. take n s)
     (find (\<lambda>n. CHR 0x0A \<notin> set (take n s) \<and> srpm_rest (drop n s)) (rev [1..<Suc (length s)]))"

definition rawhide_source :: "string \<Rightarrow> string result" where
  "rawhide_source sourcerpm = (case srpm_name sourcerpm of
      None \<Rightarrow> Inl (ValueError (''cannot parse source RPM: '' @ sourcerpm))
    | Some n \<Rightarrow> Inr n)"

definition import_sections :: "string list" where
  "import_sections = [''fedora'', ''multimedia_overrides'']"

definition section_binaries :: "json \<Rightarrow> string \<Rightarrow> string list result" where
  "section_binaries manifest section_name =
     bind_r (within section_name manifest) (\<lambda>there.
       if there then bind_r (item manifest section_name) (\<lambda>v. bind_r (get_or v ''packages'' (JList [])) as_texts)
       else Inl (ValueError (concat [''Bluefin manifest has no ['', section_name, ''] section''])))"

definition import_binaries :: "json \<Rightarrow> string list result" where
  "import_binaries manifest = bind_r (map_r (section_binaries manifest) import_sections) (\<lambda>ps. Inr (sorted_set (concat ps)))"

subsection \<open>The state of Rawhide\<close>

record rawhide_record =
  wr_name :: string
  wr_evr :: string
  wr_arch :: string
  wr_sourcerpm :: string

text \<open>A line of four fields, the last a source RPM; others are passed over.\<close>

definition query_line :: "string \<Rightarrow> rawhide_record option" where
  "query_line l = (case split_on CHR 0x09 l of
      n # e # a # s # rest \<Rightarrow>
        let sourcerpm = join [CHR 0x09] (s # rest) in
        if srpm_name sourcerpm = None then None
        else Some \<lparr>wr_name = n, wr_evr = e, wr_arch = a, wr_sourcerpm = sourcerpm\<rparr>
    | _ \<Rightarrow> None)"

definition query_records :: "string \<Rightarrow> (string, rawhide_record) dict" where
  "query_records stdout =
     fold (\<lambda>r d. dict_setdefault (wr_arch r) r d)
       (List.map_filter query_line (filter (\<lambda>l. l \<noteq> [] \<and> \<not> contains ''(none)'' l) (splitlines stdout))) []"

definition query :: "string \<Rightarrow> rawhide_record option" where
  "query stdout = (let records = query_records stdout in
     case map_of records ''x86_64'' of Some r \<Rightarrow> Some r | None \<Rightarrow> map_of records ''noarch'')"

definition record_json :: "rawhide_record \<Rightarrow> json" where
  "record_json r = JObj [(''name'', JStr (wr_name r)), (''evr'', JStr (wr_evr r)), (''arch'', JStr (wr_arch r)), (''sourcerpm'', JStr (wr_sourcerpm r))]"

definition rawhide_state :: "(string \<Rightarrow> string) \<Rightarrow> string list \<Rightarrow> (string, rawhide_record) dict" where
  "rawhide_state stdout binaries = List.map_filter (\<lambda>b. map_option (Pair b) (query (stdout b))) binaries"

definition changed_source :: "json \<Rightarrow> string \<times> rawhide_record \<Rightarrow> string list result" where
  "changed_source previous = (\<lambda>(package, r).
     bind_r (get_or previous package JNull) (\<lambda>old.
       if py_eq old (record_json r) then Inr [] else bind_r (rawhide_source (wr_sourcerpm r)) (\<lambda>n. Inr [n])))"

definition changed_sources :: "(string, rawhide_record) dict \<Rightarrow> json \<Rightarrow> string list result" where
  "changed_sources state previous = bind_r (map_r (changed_source previous) state) (\<lambda>ns. Inr (sorted_set (concat ns)))"

text \<open>The two files written: the state, the changed sources line by line.\<close>

definition scan_rawhide :: "(string \<Rightarrow> string) \<Rightarrow> json result \<Rightarrow> string option \<Rightarrow> (string \<times> string) result" where
  "scan_rawhide stdout manifest_file state_file =
     bind_r manifest_file (\<lambda>manifest.
     bind_r (import_binaries manifest) (\<lambda>binaries.
     let state = rawhide_state stdout binaries in
     bind_r (case state_file of None \<Rightarrow> Inr (JObj []) | Some s \<Rightarrow> loads s) (\<lambda>previous.
     bind_r (changed_sources state previous) (\<lambda>changed.
       Inr (dumps_indent (canonical (JObj (map (\<lambda>(p, r). (p, record_json r)) state))) @ nl,
            join nl changed @ (if changed \<noteq> [] then nl else []))))))"

subsection \<open>The import\<close>

text \<open>\<open>re.match(r"^Name:\s*(\S+)", line)\<close> and the like: the word after a prefix and white space.\<close>

definition first_word :: "string \<Rightarrow> string" where
  "first_word s = takeWhile (\<lambda>c. \<not> is_space c) (dropWhile is_space s)"

definition word_after :: "string \<Rightarrow> bool \<Rightarrow> string \<Rightarrow> string option" where
  "word_after p gap l =
     (if starts_with p l then
        (let r = drop (length p) l in
         if (gap \<longrightarrow> r \<noteq> [] \<and> is_space (hd r)) \<and> first_word r \<noteq> [] then Some (first_word r) else None)
      else None)"

definition name_line :: "string \<Rightarrow> string option" where
  "name_line = word_after ''Name:'' False"

text \<open>\<open>%package -n NAME\<close>; otherwise the word after \<open>%package\<close>.\<close>

definition package_n_line :: "string \<Rightarrow> string option" where
  "package_n_line l = (case word_after ''%package'' True l of
      None \<Rightarrow> None
    | Some w \<Rightarrow> let r = dropWhile is_space (drop 8 l) in word_after ''-n'' True r)"

definition spec_names_line :: "string \<Rightarrow> string \<times> string list \<Rightarrow> string \<times> string list" where
  "spec_names_line l = (\<lambda>(main_name, names).
     let st = (case name_line l of Some n \<Rightarrow> (n, names @ [n]) | None \<Rightarrow> (main_name, names)) in
     case package_n_line l of
       Some n \<Rightarrow> (fst st, snd st @ [n])
     | None \<Rightarrow> (case word_after ''%package'' True l of
           Some n \<Rightarrow> (fst st, snd st @ [concat [fst st, ''-'', n]])
         | None \<Rightarrow> st))"

definition spec_names :: "string \<Rightarrow> string \<Rightarrow> string list" where
  "spec_names directory s = snd (fold spec_names_line (splitlines s) (directory, []))"

definition factory_names :: "rev_tree \<Rightarrow> string \<Rightarrow> string list result" where
  "factory_names t d =
     (case map_of t (provenance_path d) of
        None \<Rightarrow> Inr []
      | Some s \<Rightarrow> (case loads s of
            Inl _ \<Rightarrow> Inr []
          | Inr data \<Rightarrow>
              bind_r (get_or data ''branch'' JNull) (\<lambda>branch.
              if branch \<noteq> JStr ''upstream'' then Inr []
              else bind_r (get_or data ''package'' JNull) (\<lambda>package.
                Inr (d # (case package of JStr p \<Rightarrow> [p] | _ \<Rightarrow> []) @
                     concat (map (\<lambda>sp. spec_names d (sp_text sp)) (filter (\<lambda>sp. sp_package sp = d) (spec_files t))))))))"

definition factory_sources :: "rev_tree \<Rightarrow> string list result" where
  "factory_sources t = bind_r (map_r (factory_names t) (recipe_dirs t)) (\<lambda>ns. Inr (concat ns))"

record command_result =
  cr_status :: int
  cr_stdout :: string
  cr_stderr :: string

definition resolve_source :: "command_result \<Rightarrow> string + string" where
  "resolve_source c =
     (let candidates = sorted_set (filter (\<lambda>l. l \<noteq> [] \<and> l \<noteq> ''(none)'') (map strip (splitlines (cr_stdout c)))) in
      case candidates of
        [] \<Rightarrow> Inl (if strip (cr_stderr c) \<noteq> [] then strip (cr_stderr c) else ''no Rawhide candidate'')
      | s # _ \<Rightarrow> (case rawhide_source s of Inr n \<Rightarrow> Inr n | Inl _ \<Rightarrow> Inl (''cannot derive source package from '' @ s)))"

record import_report =
  im_resolved :: "(string \<times> string) list"
  im_unavailable :: "(string \<times> string) list"
  im_imported :: "string list"
  im_failures :: "(string \<times> string) list"

definition excluded_by :: "json option \<Rightarrow> string list result" where
  "excluded_by policy = (case policy of
      None \<Rightarrow> Inr []
    | Some p \<Rightarrow> bind_r (get_or p ''unavailable'' (JObj [])) (\<lambda>v. bind_r (get_or v ''packages'' (JList [])) as_texts))"

definition wanted_binaries :: "json \<Rightarrow> json option \<Rightarrow> rev_tree \<Rightarrow> string list result" where
  "wanted_binaries manifest policy t =
     bind_r (import_binaries manifest) (\<lambda>binaries.
     bind_r (excluded_by policy) (\<lambda>excluded.
     bind_r (factory_sources t) (\<lambda>own.
       Inr (filter (\<lambda>b. b \<notin> set own) (filter (\<lambda>b. b \<notin> set excluded) binaries)))))"

definition import_sources :: "(string \<Rightarrow> command_result) \<Rightarrow> rev_tree \<Rightarrow> string list \<Rightarrow> string list \<times> (string \<times> string) list" where
  "import_sources run_import t sources =
     (let there = (\<lambda>s. recipe_exists t s \<or> cr_status (run_import s) = 0) in
      (filter there sources,
       map (\<lambda>s. (s, if strip (cr_stderr (run_import s)) \<noteq> [] then strip (cr_stderr (run_import s)) else strip (cr_stdout (run_import s))))
         (filter (\<lambda>s. \<not> there s) sources)))"

definition import_bluefin :: "(string \<Rightarrow> command_result) \<Rightarrow> (string \<Rightarrow> command_result) \<Rightarrow> json \<Rightarrow> json option \<Rightarrow> rev_tree \<Rightarrow> import_report result" where
  "import_bluefin ask run_import manifest policy t =
     bind_r (wanted_binaries manifest policy t) (\<lambda>binaries.
     let answers = map (\<lambda>b. (b, resolve_source (ask b))) binaries;
         resolved = List.map_filter (\<lambda>(b, a). case a of Inr s \<Rightarrow> Some (b, s) | Inl _ \<Rightarrow> None) answers;
         unavailable = List.map_filter (\<lambda>(b, a). case a of Inr _ \<Rightarrow> None | Inl e \<Rightarrow> Some (b, e)) answers in
     if resolved = [] then Inl (SystemExit ''Rawhide resolver returned no source RPMs; refusing to open a flood of issues'')
     else case import_sources run_import t (sorted_set (map snd resolved)) of (imported, failures) \<Rightarrow>
       Inr \<lparr>im_resolved = resolved, im_unavailable = unavailable, im_imported = imported, im_failures = failures\<rparr>)"

subsection \<open>The name of a source package\<close>

lemma find_rev_upt:
  "P k \<Longrightarrow> 1 \<le> k \<Longrightarrow> k \<le> n \<Longrightarrow> (\<And>j. k < j \<Longrightarrow> j \<le> n \<Longrightarrow> \<not> P j) \<Longrightarrow> find P (rev [1..<Suc n]) = Some k"
proof (induction n)
  case (Suc n)
  then show ?case by (cases "k = Suc n") auto
qed simp

lemma srpm_rest_dashes: "srpm_rest s \<Longrightarrow> 2 \<le> count_list s CHR ''-''"
  by (auto simp: srpm_rest_def Suc_le_eq count_list_0_iff split: list.splits) (metis count_list_0_iff gr0I)

lemma count_list_drop: "count_list (drop k xs) x \<le> count_list xs x"
  by (metis append_take_drop_id count_list_append le_add2)

lemma takeWhile_stops: "c \<notin> set a \<Longrightarrow> dropWhile (\<lambda>x. x \<noteq> c) (a @ c # b) = c # b"
  by (subst dropWhile_append2) auto

text \<open>The source package of \<open>NAME-VERSION-RELEASE.src.rpm\<close> is \<open>NAME\<close>, whatever dashes it has.\<close>

lemma source_name_roundtrip:
  assumes "n \<noteq> []" "v \<noteq> []" "is_digit (hd v)" "CHR ''-'' \<notin> set v" "CHR ''-'' \<notin> set r"
    and "CHR 0x0A \<notin> set n \<union> set r"
  shows "rawhide_source (n @ ''-'' @ v @ ''-'' @ r @ ''.src.rpm'') = Inr n"
proof -
  let ?t = "v @ CHR ''-'' # r @ ''.src.rpm''"
  let ?s = "n @ CHR ''-'' # ?t"
  let ?P = "\<lambda>k. CHR 0x0A \<notin> set (take k ?s) \<and> srpm_rest (drop k ?s)"
  obtain d w where v: "v = d # w" using assms(2) by (cases v) auto
  have "srpm_suffix (r @ ''.src.rpm'')"
    using assms(6) by (simp add: srpm_suffix_def ends_with_iff)
  moreover have "CHR ''-'' \<notin> set w" using assms(4) by (simp add: v)
  ultimately have "srpm_rest (CHR ''-'' # ?t)"
    using assms(3) by (simp add: srpm_rest_def v takeWhile_stops)
  then have hit: "?P (length n)" using assms(6) by simp
  have miss: "\<not> ?P j" if "length n < j" for j
  proof -
    obtain k where "j = Suc (length n) + k" using less_imp_Suc_add \<open>length n < j\<close> by fastforce
    then have "drop j ?s = drop k ?t" by simp
    then have "count_list (drop j ?s) CHR ''-'' \<le> count_list ?t CHR ''-''" by (simp only: count_list_drop)
    also have "\<dots> = 1" using assms(4,5) by (simp add: count_list_0_iff [THEN iffD2])
    finally show ?thesis using srpm_rest_dashes [of "drop j ?s"] by linarith
  qed
  have "1 \<le> length n" using assms(1) by (cases n) auto
  then have "find ?P (rev [1..<Suc (length ?s)]) = Some (length n)"
    using hit miss by (intro find_rev_upt) auto
  then have "srpm_name ?s = Some n" by (simp add: srpm_name_def)
  then show ?thesis by (simp add: rawhide_source_def)
qed

theorem source_name_roundtrip_witness:
  "rawhide_source (''gnome-shell'' @ ''-'' @ ''49.1'' @ ''-'' @ ''2.fc44'' @ ''.src.rpm'') = Inr ''gnome-shell''"
  by (rule source_name_roundtrip) code_simp+

subsection \<open>The scan\<close>

lemma query_line_named: "query_line l = Some r \<Longrightarrow> srpm_name (wr_sourcerpm r) \<noteq> None"
  by (auto simp: query_line_def Let_def split: list.splits if_splits)

lemma list_all_update: "list_all P d \<Longrightarrow> P (k, v) \<Longrightarrow> list_all P (AList.update k v d)"
  by (induction d) auto

lemma query_named:
  assumes "query s = Some r"
  shows "srpm_name (wr_sourcerpm r) \<noteq> None"
proof -
  have kept: "list_all (\<lambda>(a, r). srpm_name (wr_sourcerpm r) \<noteq> None) (fold (\<lambda>r d. dict_setdefault (wr_arch r) r d) rs d)"
    if "list_all (\<lambda>r. srpm_name (wr_sourcerpm r) \<noteq> None) rs" "list_all (\<lambda>(a, r). srpm_name (wr_sourcerpm r) \<noteq> None) d" for rs d
    using that by (induction rs arbitrary: d) (auto simp: dict_setdefault_def list_all_update)
  have "list_all (\<lambda>r. srpm_name (wr_sourcerpm r) \<noteq> None) (List.map_filter query_line ls)" for ls
    by (auto simp: list_all_iff set_map_filter dest: query_line_named)
  then have "list_all (\<lambda>(a, r). srpm_name (wr_sourcerpm r) \<noteq> None) (query_records s)"
    unfolding query_records_def by (rule kept) simp
  moreover obtain a where "map_of (query_records s) a = Some r"
    using assms by (auto simp: query_def Let_def split: option.splits)
  ultimately show ?thesis by (auto simp: list_all_iff dest: map_of_SomeD)
qed

text \<open>Whatever \<open>dnf\<close> prints, the scan ends with a list, and it holds exactly the sources of the packages
  whose record is not that of the previous state.\<close>

lemma changed_sources_exact:
  "\<exists>names. changed_sources (rawhide_state stdout binaries) (JObj previous) = Inr names \<and> sorted names \<and>
     (\<forall>n. n \<in> set names \<longleftrightarrow> (\<exists>b r. b \<in> set binaries \<and> query (stdout b) = Some r \<and>
        \<not> py_eq (dict_get previous b JNull) (record_json r) \<and> rawhide_source (wr_sourcerpm r) = Inr n))"
proof -
  let ?state = "rawhide_state stdout binaries"
  let ?names = "\<lambda>(package, r). if py_eq (dict_get previous package JNull) (record_json r) then [] else [the (srpm_name (wr_sourcerpm r))]"
  have named: "rawhide_source (wr_sourcerpm r) = Inr (the (srpm_name (wr_sourcerpm r)))" if "(b, r) \<in> set ?state" for b r
    using that query_named by (auto simp: rawhide_state_def set_map_filter rawhide_source_def split: option.splits)
  then have "map_r (changed_source (JObj previous)) ?state = Inr (map ?names ?state)"
    by (intro map_r_total) (auto simp: changed_source_def get_or_def dict_get_def split: prod.splits option.splits)
  then have names: "changed_sources ?state (JObj previous) = Inr (sorted_set (concat (map ?names ?state)))"
    by (simp add: changed_sources_def)
  have "n \<in> set (sorted_set (concat (map ?names ?state))) \<longleftrightarrow> (\<exists>b r. (b, r) \<in> set ?state \<and>
        \<not> py_eq (dict_get previous b JNull) (record_json r) \<and> n = the (srpm_name (wr_sourcerpm r)))" for n
    by (fastforce split: if_splits)
  also have "\<dots> n \<longleftrightarrow> (\<exists>b r. (b, r) \<in> set ?state \<and>
        \<not> py_eq (dict_get previous b JNull) (record_json r) \<and> rawhide_source (wr_sourcerpm r) = Inr n)" for n
    using named by fastforce
  also have "\<dots> n \<longleftrightarrow> (\<exists>b r. b \<in> set binaries \<and> query (stdout b) = Some r \<and>
        \<not> py_eq (dict_get previous b JNull) (record_json r) \<and> rawhide_source (wr_sourcerpm r) = Inr n)" for n
    by (auto simp: rawhide_state_def set_map_filter)
  finally show ?thesis using names by auto
qed

subsection \<open>The import\<close>

lemma map_filter_split: "mset (map fst (List.map_filter (\<lambda>(b, a). case a of Inr s \<Rightarrow> Some (b, s) | Inl _ \<Rightarrow> None) xs)) +
    mset (map fst (List.map_filter (\<lambda>(b, a). case a of Inr _ \<Rightarrow> None | Inl e \<Rightarrow> Some (b, e)) xs)) = mset (map fst xs)"
  by (induction xs) (auto simp: map_filter_simps split: sum.splits)

lemma mset_filter_split: "mset (filter P xs) + mset (filter (\<lambda>x. \<not> P x) xs) = mset xs"
  by (induction xs) auto

text \<open>every binary that is wanted, and no other, is resolved or reported unavailable, once; every source
  behind a resolved one is imported or reported as failed, once; none is excluded by the policy or made by
  the factory itself.\<close>

theorem import_accounts:
  assumes "import_bluefin ask run_import manifest policy t = Inr rep"
  shows "\<exists>binaries own excluded. wanted_binaries manifest policy t = Inr binaries \<and> factory_sources t = Inr own \<and>
    excluded_by policy = Inr excluded \<and> set binaries \<inter> (set own \<union> set excluded) = {} \<and> distinct binaries \<and>
    mset (map fst (im_resolved rep)) + mset (map fst (im_unavailable rep)) = mset binaries \<and>
    mset (im_imported rep) + mset (map fst (im_failures rep)) = mset (sorted_set (map snd (im_resolved rep))) \<and>
    im_resolved rep \<noteq> []"
proof -
  obtain binaries where binaries: "wanted_binaries manifest policy t = Inr binaries"
    using assms by (auto simp: import_bluefin_def bind_r_Inr)
  let ?answers = "map (\<lambda>b. (b, resolve_source (ask b))) binaries"
  have rep: "im_resolved rep = List.map_filter (\<lambda>(b, a). case a of Inr s \<Rightarrow> Some (b, s) | Inl _ \<Rightarrow> None) ?answers"
    "im_unavailable rep = List.map_filter (\<lambda>(b, a). case a of Inr _ \<Rightarrow> None | Inl e \<Rightarrow> Some (b, e)) ?answers"
    "(im_imported rep, im_failures rep) = import_sources run_import t (sorted_set (map snd (im_resolved rep)))" "im_resolved rep \<noteq> []"
    using assms binaries by (auto simp: import_bluefin_def Let_def split: if_splits prod.splits)
  have "mset (map fst (im_resolved rep)) + mset (map fst (im_unavailable rep)) = mset binaries"
    unfolding rep(1,2) map_filter_split by (simp add: comp_def)
  moreover have "mset (im_imported rep) + mset (map fst (im_failures rep)) = mset (sorted_set (map snd (im_resolved rep)))"
    using rep(3) mset_filter_split by (auto simp: import_sources_def Let_def comp_def)
  moreover obtain own excluded bs where own: "factory_sources t = Inr own" "excluded_by policy = Inr excluded" "import_binaries manifest = Inr bs"
      "binaries = filter (\<lambda>b. b \<notin> set own) (filter (\<lambda>b. b \<notin> set excluded) bs)"
    using binaries by (auto simp: wanted_binaries_def bind_r_Inr)
  moreover have "distinct bs" using own(3) by (auto simp: import_binaries_def bind_r_Inr)
  then have "distinct binaries" "set binaries \<inter> (set own \<union> set excluded) = {}" using own(4) by auto
  ultimately show ?thesis using binaries rep(4) by blast
qed

theorem import_accounts_witness:
  "\<exists>rep. import_bluefin (\<lambda>b. \<lparr>cr_status = 0, cr_stdout = b @ ''-1-1.src.rpm'', cr_stderr = []\<rparr>) (\<lambda>s. \<lparr>cr_status = 1, cr_stdout = [], cr_stderr = ''e''\<rparr>)
     (JObj [(''fedora'', JObj [(''packages'', JList [JStr ''a''])]), (''multimedia_overrides'', JObj [])]) None [] = Inr rep \<and>
   mset (im_imported rep) + mset (map fst (im_failures rep)) = mset (sorted_set (map snd (im_resolved rep)))"
proof -
  have run: "import_bluefin (\<lambda>b. \<lparr>cr_status = 0, cr_stdout = b @ ''-1-1.src.rpm'', cr_stderr = []\<rparr>) (\<lambda>s. \<lparr>cr_status = 1, cr_stdout = [], cr_stderr = ''e''\<rparr>)
     (JObj [(''fedora'', JObj [(''packages'', JList [JStr ''a''])]), (''multimedia_overrides'', JObj [])]) None [] =
     Inr \<lparr>im_resolved = [(''a'', ''a'')], im_unavailable = [], im_imported = [], im_failures = [(''a'', ''e'')]\<rparr>" by code_simp
  from import_accounts [OF run] run show ?thesis by blast
qed

end
