(* ===== verification/Workflow_Checks.thy ===== *)
theory Workflow_Checks
  imports Validate
begin

section \<open>Checks of the workflow files (\<open>check_workflow_quoting.py\<close>, \<open>check_build_container_pinning.py\<close>)\<close>

text \<open>
  The two checks of the text of the workflows: a quote inside a quoted build script, and an image of the
  build registry named by a tag. A workflow is its name and text.
\<close>

subsection \<open>Quotes in build scripts\<close>

definition quote :: char where
  "quote = CHR 0x27"

definition opens_script :: "string \<Rightarrow> bool" where
  "opens_script l = contains (''bash -exc '' @ [quote]) l"

definition closes_script :: "string \<Rightarrow> bool" where
  "closes_script l = (strip l = [quote])"

text \<open>The lines of a script that hold a quote, with their numbers.\<close>

definition quoted_lines :: "(nat \<times> string) list \<Rightarrow> (nat \<times> string) list" where
  "quoted_lines body = List.map_filter (\<lambda>(n, l). if quote \<in> set l then Some (n, strip l) else None) body"

text \<open>The state is the body since the last opening line, if a script is open.\<close>

fun scan_quotes :: "(nat \<times> string) list option \<Rightarrow> nat \<Rightarrow> string list \<Rightarrow> (nat \<times> string) list" where
  "scan_quotes start number [] = []"
| "scan_quotes start number (l # ls) =
     (if opens_script l then scan_quotes (Some []) (Suc number) ls
      else case start of
        None \<Rightarrow> scan_quotes None (Suc number) ls
      | Some body \<Rightarrow>
          if closes_script l then quoted_lines body @ scan_quotes None (Suc number) ls
          else scan_quotes (Some (body @ [(number, l)])) (Suc number) ls)"

definition offending_lines :: "(string \<times> string) list \<Rightarrow> (string \<times> nat \<times> string) list" where
  "offending_lines workflows = concat (map (\<lambda>(name, s). map (Pair name) (scan_quotes None 1 (splitlines s))) workflows)"

definition check_quoting :: "(string \<times> string) list \<Rightarrow> int" where
  "check_quoting workflows = (if offending_lines workflows \<noteq> [] then 1 else 0)"

subsection \<open>Images named by a tag\<close>

definition ref_char :: "char \<Rightarrow> bool" where
  "ref_char c = (\<not> is_space c \<and> c \<notin> {CHR 0x22, CHR 0x27, CHR 0x60, CHR 0x23})"

definition registry :: string where
  "registry = ''quay.io/''"

text \<open>\<open>IMAGE_REF.findall(line)\<close>.\<close>

function image_refs :: "string \<Rightarrow> string list" where
  "image_refs s =
     (if s = [] then []
      else let r = takeWhile ref_char (drop 8 s) in
        if starts_with registry s \<and> r \<noteq> [] then (registry @ r) # image_refs (drop (8 + length r) s)
        else image_refs (tl s))"
  by pat_completeness auto
termination
  by (relation "measure length") (auto simp: neq_Nil_conv)

declare image_refs.simps [simp del]

definition exempt :: "(string \<times> string) list" where
  "exempt = [(''refresh-buildroot.yml'', ''quay.io/fedora/fedora:44'')]"

definition unpinned_line :: "string \<Rightarrow> nat \<Rightarrow> string \<Rightarrow> (string \<times> nat \<times> string) list" where
  "unpinned_line name number l =
     (if starts_with ''#'' (strip l) then []
      else map (\<lambda>ref. (name, number, ref))
        (filter (\<lambda>ref. \<not> contains ''@sha256:'' ref \<and> (name, ref) \<notin> set exempt) (image_refs l)))"

definition unpinned_refs :: "(string \<times> string) list \<Rightarrow> (string \<times> nat \<times> string) list" where
  "unpinned_refs workflows =
     concat (map (\<lambda>(name, s). concat (map (\<lambda>(n, l). unpinned_line name n l) (enumerate 1 (splitlines s)))) workflows)"

definition check_pinning :: "(string \<times> string) list \<Rightarrow> int" where
  "check_pinning workflows = (if unpinned_refs workflows \<noteq> [] then 1 else 0)"

subsection \<open>What is reported\<close>

text \<open>A script that is open with a body already read: what is reported when it is closed.\<close>

definition closed_with :: "(nat \<times> string) list \<Rightarrow> nat \<Rightarrow> string list \<Rightarrow> nat \<times> string \<Rightarrow> bool" where
  "closed_with body number ls p =
     (\<exists>m c z. ls = m @ c # z \<and> list_all (\<lambda>l. \<not> opens_script l \<and> \<not> closes_script l) m \<and> closes_script c \<and> \<not> opens_script c \<and>
        p \<in> set (quoted_lines (body @ enumerate number m)))"

definition in_script :: "nat \<Rightarrow> string list \<Rightarrow> nat \<times> string \<Rightarrow> bool" where
  "in_script number ls p = (\<exists>a s z. ls = a @ s # z \<and> opens_script s \<and> closed_with [] (Suc (number + length a)) z p)"

lemma closed_with_Cons:
  "closed_with body number (l # ls) p =
     (if opens_script l then False
      else if closes_script l then p \<in> set (quoted_lines body)
      else closed_with (body @ [(number, l)]) (Suc number) ls p)"
proof -
  let ?inner = "\<lambda>l. \<not> opens_script l \<and> \<not> closes_script l"
  have "closed_with body number (l # ls) p \<longleftrightarrow>
      (closes_script l \<and> \<not> opens_script l \<and> p \<in> set (quoted_lines body)) \<or>
      (?inner l \<and> closed_with (body @ [(number, l)]) (Suc number) ls p)"
  proof
    assume "closed_with body number (l # ls) p"
    then obtain m c z where split: "l # ls = m @ c # z" "list_all ?inner m" "closes_script c" "\<not> opens_script c"
        "p \<in> set (quoted_lines (body @ enumerate number m))" unfolding closed_with_def by blast
    show "(closes_script l \<and> \<not> opens_script l \<and> p \<in> set (quoted_lines body)) \<or>
      (?inner l \<and> closed_with (body @ [(number, l)]) (Suc number) ls p)"
    proof (cases m)
      case (Cons x m')
      then have "closed_with (body @ [(number, l)]) (Suc number) ls p"
        using split unfolding closed_with_def by (intro exI [of _ m'] exI [of _ c] exI [of _ z]) simp
      with Cons split show ?thesis by simp
    qed (use split in simp)
  next
    assume "(closes_script l \<and> \<not> opens_script l \<and> p \<in> set (quoted_lines body)) \<or>
      (?inner l \<and> closed_with (body @ [(number, l)]) (Suc number) ls p)"
    then show "closed_with body number (l # ls) p"
    proof
      assume "closes_script l \<and> \<not> opens_script l \<and> p \<in> set (quoted_lines body)"
      then show ?thesis unfolding closed_with_def by (intro exI [of _ "[]"] exI [of _ l] exI [of _ ls]) simp
    next
      assume inner: "?inner l \<and> closed_with (body @ [(number, l)]) (Suc number) ls p"
      then obtain m c z where "ls = m @ c # z" "list_all ?inner m" "closes_script c" "\<not> opens_script c"
        "p \<in> set (quoted_lines ((body @ [(number, l)]) @ enumerate (Suc number) m))" unfolding closed_with_def by blast
      with inner show ?thesis unfolding closed_with_def by (intro exI [of _ "l # m"] exI [of _ c] exI [of _ z]) simp
    qed
  qed
  then show ?thesis by auto
qed

lemma in_script_Cons:
  "in_script number (l # ls) p \<longleftrightarrow> (opens_script l \<and> closed_with [] (Suc number) ls p) \<or> in_script (Suc number) ls p"
proof
  assume "in_script number (l # ls) p"
  then obtain a s z where split: "l # ls = a @ s # z" "opens_script s" "closed_with [] (Suc (number + length a)) z p"
    unfolding in_script_def by blast
  show "(opens_script l \<and> closed_with [] (Suc number) ls p) \<or> in_script (Suc number) ls p"
  proof (cases a)
    case (Cons x a')
    then have "in_script (Suc number) ls p"
      using split unfolding in_script_def by (intro exI [of _ a'] exI [of _ s] exI [of _ z]) simp
    then show ?thesis ..
  qed (use split in simp)
next
  assume "(opens_script l \<and> closed_with [] (Suc number) ls p) \<or> in_script (Suc number) ls p"
  then show "in_script number (l # ls) p"
  proof
    assume "opens_script l \<and> closed_with [] (Suc number) ls p"
    then show ?thesis unfolding in_script_def by (intro exI [of _ "[]"] exI [of _ l] exI [of _ ls]) simp
  next
    assume "in_script (Suc number) ls p"
    then obtain a s z where "ls = a @ s # z" "opens_script s" "closed_with [] (Suc (Suc number + length a)) z p"
      unfolding in_script_def by blast
    then show ?thesis unfolding in_script_def by (intro exI [of _ "l # a"] exI [of _ s] exI [of _ z]) simp
  qed
qed

lemma not_empty_script [simp]: "\<not> closed_with body number [] p" "\<not> in_script number [] p"
  by (simp_all add: closed_with_def in_script_def)

lemma scan_quotes_spec:
  "p \<in> set (scan_quotes start number ls) \<longleftrightarrow>
     (case start of None \<Rightarrow> False | Some body \<Rightarrow> closed_with body number ls p) \<or> in_script number ls p"
  by (induction start number ls rule: scan_quotes.induct) (auto simp: closed_with_Cons in_script_Cons split: option.splits)

lemma split_at_member:
  "(\<exists>u l v. x # xs = u @ l # v \<and> P u l) \<longleftrightarrow> P [] x \<or> (\<exists>u l v. xs = u @ l # v \<and> P (x # u) l)"
proof
  assume "\<exists>u l v. x # xs = u @ l # v \<and> P u l"
  then obtain u l v where "x # xs = u @ l # v" "P u l" by blast
  then show "P [] x \<or> (\<exists>u l v. xs = u @ l # v \<and> P (x # u) l)" by (cases u) auto
next
  assume "P [] x \<or> (\<exists>u l v. xs = u @ l # v \<and> P (x # u) l)"
  then show "\<exists>u l v. x # xs = u @ l # v \<and> P u l"
  proof
    assume "P [] x"
    then show ?thesis by (intro exI [of _ "[]"] exI [of _ x] exI [of _ xs]) simp
  next
    assume "\<exists>u l v. xs = u @ l # v \<and> P (x # u) l"
    then obtain u l v where "xs = u @ l # v" "P (x # u) l" by blast
    then show ?thesis by (intro exI [of _ "x # u"] exI [of _ l] exI [of _ v]) simp
  qed
qed

lemma quoted_body:
  "p \<in> set (quoted_lines (enumerate k m)) \<longleftrightarrow> (\<exists>u l v. m = u @ l # v \<and> quote \<in> set l \<and> p = (k + length u, strip l))"
proof (induction m arbitrary: k)
  case (Cons x m)
  have "p \<in> set (quoted_lines (enumerate k (x # m))) \<longleftrightarrow>
      quote \<in> set x \<and> p = (k, strip x) \<or> p \<in> set (quoted_lines (enumerate (Suc k) m))"
    by (simp add: quoted_lines_def map_filter_simps)
  then show ?case unfolding split_at_member by (simp add: Cons.IH)
qed (simp add: quoted_lines_def map_filter_simps)

lemma in_script_exact:
  "in_script 1 ls (n, t) \<longleftrightarrow> (\<exists>a o' m l m' c z. ls = a @ o' # m @ l # m' @ c # z \<and>
        opens_script o' \<and> closes_script c \<and> \<not> opens_script c \<and>
        list_all (\<lambda>x. \<not> opens_script x \<and> \<not> closes_script x) (m @ l # m') \<and>
        n = length a + length m + 2 \<and> quote \<in> set l \<and> t = strip l)" (is "_ \<longleftrightarrow> ?R")
proof
  assume "in_script 1 ls (n, t)"
  then obtain a o' y where "ls = a @ o' # y" "opens_script o'" "closed_with [] (Suc (1 + length a)) y (n, t)"
    unfolding in_script_def by blast
  moreover from this(3) obtain b c z where "y = b @ c # z" "list_all (\<lambda>x. \<not> opens_script x \<and> \<not> closes_script x) b"
      "closes_script c" "\<not> opens_script c" "(n, t) \<in> set (quoted_lines (enumerate (Suc (1 + length a)) b))"
    unfolding closed_with_def by auto
  moreover from this(5) obtain m l m' where "b = m @ l # m'" "quote \<in> set l" "(n, t) = (Suc (1 + length a) + length m, strip l)"
    unfolding quoted_body by blast
  ultimately show ?R
    by (intro exI [of _ a] exI [of _ o'] exI [of _ m] exI [of _ l] exI [of _ m'] exI [of _ c] exI [of _ z]) simp
next
  assume ?R
  then obtain a o' m l m' c z where r: "ls = a @ o' # m @ l # m' @ c # z" "opens_script o'" "closes_script c" "\<not> opens_script c"
      "list_all (\<lambda>x. \<not> opens_script x \<and> \<not> closes_script x) (m @ l # m')" "n = length a + length m + 2" "quote \<in> set l" "t = strip l" by blast
  have "(n, t) \<in> set (quoted_lines (enumerate (Suc (1 + length a)) (m @ l # m')))"
    unfolding quoted_body using r by (intro exI [of _ m] exI [of _ l] exI [of _ m']) simp
  then have "closed_with [] (Suc (1 + length a)) (m @ l # m' @ c # z) (n, t)"
    unfolding closed_with_def using r by (intro exI [of _ "m @ l # m'"] exI [of _ c] exI [of _ z]) simp
  then show "in_script 1 ls (n, t)"
    unfolding in_script_def using r by (intro exI [of _ a] exI [of _ o'] exI [of _ "m @ l # m' @ c # z"]) simp
qed

text \<open>A line is reported exactly when it holds a quote and lies between a line that opens a build script
  and the next line that is a quote only, with no other opening line between.\<close>

lemma quoting_exact:
  "(name, n, t) \<in> set (offending_lines workflows) \<longleftrightarrow>
     (\<exists>s. (name, s) \<in> set workflows \<and> (\<exists>a o' m l m' c z. splitlines s = a @ o' # m @ l # m' @ c # z \<and>
        opens_script o' \<and> closes_script c \<and> \<not> opens_script c \<and>
        list_all (\<lambda>x. \<not> opens_script x \<and> \<not> closes_script x) (m @ l # m') \<and>
        n = length a + length m + 2 \<and> quote \<in> set l \<and> t = strip l))"
proof -
  have "(name, n, t) \<in> set (offending_lines workflows) \<longleftrightarrow>
      (\<exists>s. (name, s) \<in> set workflows \<and> (n, t) \<in> set (scan_quotes None 1 (splitlines s)))"
    unfolding offending_lines_def by force
  then show ?thesis unfolding in_script_exact [symmetric] by (simp add: scan_quotes_spec)
qed

text \<open>A script whose last line holds more than the closing quote is not looked at.\<close>

lemma unclosed_script_unchecked:
  "check_quoting [(''w.yml'', join [CHR 0x0A] [''bash -exc '' @ [quote], ''# don'' @ [quote] @ ''t'', quote # '' arg''])] = 0"
  by code_simp

subsection \<open>References that are found\<close>

text \<open>A name of the registry at the start of a line or after a character no reference holds is found whole.\<close>

lemma image_ref_found:
  assumes "r \<noteq> []" "list_all ref_char r" "b = [] \<or> \<not> ref_char (hd b)"
  shows "image_refs (registry @ r @ b) = (registry @ r) # image_refs b"
proof -
  have run: "takeWhile ref_char (r @ b) = r"
    using assms by (cases b) (auto simp: takeWhile_append list_all_iff takeWhile_eq_all_conv)
  have eight: "drop 8 (registry @ x) = x" for x by (simp add: registry_def)
  then have "drop (8 + length r) (registry @ r @ b) = b"
    by (metis append_eq_conv_conj drop_drop add.commute)
  moreover have "registry @ r @ b \<noteq> []" using assms(1) by simp
  ultimately show ?thesis using assms(1) run by (subst image_refs.simps) (simp add: Let_def eight del: drop_append)
qed

end
