(* ===== verification/Tar_Repack.thy ===== *)
theory Tar_Repack
  imports Source_Staging
begin

section \<open>Repacking upstream archives (\<open>generated_sources.py\<close>)\<close>

text \<open>
  The transformations a generated source is made by: an upstream archive is read, the files that may not
  be shipped are left out, ownership is cleared, and the rest is written in name order. An archive is the
  list of its members; reading and writing the tar format, the compressors and the digests are arguments
  (\<open>archiver\<close>). A time stamp is a whole number of seconds. What the recipes' own scripts remove is
  modelled beside the code that replaces them.
\<close>

subsection \<open>Members\<close>

datatype tar_kind = Tar_File | Tar_Dir | Tar_Link string | Tar_Other char

record tar_member =
  t_name :: string
  t_kind :: tar_kind
  t_mode :: nat
  t_uid :: nat
  t_gid :: nat
  t_uname :: string
  t_gname :: string
  t_mtime :: int
  t_pax :: "(string, string) dict"
  t_data :: string

text \<open>\<open>a_gzip\<close> is the command \<open>gzip -n -9\<close>, none when it fails; \<open>a_toml\<close> is \<open>tomllib.loads\<close>.\<close>

record archiver =
  a_read :: "string \<Rightarrow> tar_member list result"
  a_write :: "tar_member list \<Rightarrow> string"
  a_gunzip :: "string \<Rightarrow> string result"
  a_bunzip :: "string \<Rightarrow> string result"
  a_unlzma :: "string \<Rightarrow> string result"
  a_gzip :: "string \<Rightarrow> string option"
  a_xz9 :: "string \<Rightarrow> string"
  a_xz6 :: "string \<Rightarrow> string"
  a_sha512 :: "string \<Rightarrow> string"
  a_sha256 :: "string \<Rightarrow> string"
  a_toml :: "string \<Rightarrow> json result"

definition tar_open :: "('a archiver_scheme \<Rightarrow> string \<Rightarrow> string result) \<Rightarrow> 'a archiver_scheme \<Rightarrow> string \<Rightarrow> tar_member list result" where
  "tar_open decompress a archive = bind_r (decompress a archive) (a_read a)"

definition xz_stream :: "'a archiver_scheme \<Rightarrow> string list \<Rightarrow> string" where
  "xz_stream a chunks = a_xz9 a (concat chunks)"

definition gzip_out :: "'a archiver_scheme \<Rightarrow> string \<Rightarrow> string result" where
  "gzip_out a bytes = (case a_gzip a bytes of None \<Rightarrow> Inl (RuntimeError ''gzip failed'') | Some z \<Rightarrow> Inr z)"

definition bare_name :: "string \<Rightarrow> string" where
  "bare_name s = rev (dropWhile (\<lambda>c. c = CHR ''/'') (rev s))"

definition zero_owner :: "tar_member \<Rightarrow> tar_member" where
  "zero_owner m = m\<lparr>t_uid := 0, t_gid := 0, t_uname := [], t_gname := []\<rparr>"

definition by_name :: "tar_member list \<Rightarrow> tar_member list" where
  "by_name ms = sort_key (\<lambda>m. bare_name (t_name m)) ms"

text \<open>A path is another one or below it.\<close>

definition at_or_below :: "string \<Rightarrow> string \<Rightarrow> bool" where
  "at_or_below d p = (p = d \<or> starts_with (d @ ''/'') p)"

definition last_part :: "string \<Rightarrow> string" where
  "last_part p = snd (rpartition CHR ''/'' p)"

lemma member_simps [simp]:
  "t_name (zero_owner m) = t_name m"
  "t_kind (zero_owner m) = t_kind m"
  "t_mode (zero_owner m) = t_mode m"
  "t_mtime (zero_owner m) = t_mtime m"
  "t_pax (zero_owner m) = t_pax m"
  "t_data (zero_owner m) = t_data m"
  by (simp_all add: zero_owner_def)

lemma at_or_below_refl [simp]: "at_or_below d d"
  by (simp add: at_or_below_def)

lemma at_or_below_trans: "at_or_below a b \<Longrightarrow> at_or_below b c \<Longrightarrow> at_or_below a c"
  by (auto simp: at_or_below_def starts_with_iff)

lemma at_or_below_shift [simp]: "at_or_below (a @ d) (a @ p) = at_or_below d p"
  by (auto simp: at_or_below_def starts_with_iff)

lemma at_or_below_Cons [simp]: "at_or_below (c # d) (c # p) = at_or_below d p"
  using at_or_below_shift [of "[c]" d p] by simp

subsection \<open>intel-media-driver-free\<close>

definition imd_stripped :: "string \<Rightarrow> bool" where
  "imd_stripped relpath =
     (let base = last_part (bare_name relpath) in
      if base = ''kernel'' \<and> contains ''gen'' relpath then True
      else if starts_with ''cm_gpucopy_kernel'' base then True
      else base = ''cmrt_kernel'')"

definition imd_top :: "string \<Rightarrow> string" where
  "imd_top version = ''media-driver-intel-media-'' @ version"

definition imd_relative :: "string \<Rightarrow> string \<Rightarrow> string" where
  "imd_relative dir name =
     (let stripped = bare_name name in
      if starts_with (dir @ ''/'') stripped then drop (length dir + 1) stripped else stripped)"

definition imd_doomed :: "string \<Rightarrow> tar_member list \<Rightarrow> string list" where
  "imd_doomed dir ms = remdups (map (\<lambda>m. bare_name (t_name m))
     (filter (\<lambda>m. imd_stripped (imd_relative dir (t_name m)) \<and> imd_relative dir (t_name m) \<noteq> []) ms))"

definition imd_dropped :: "string list \<Rightarrow> string \<Rightarrow> bool" where
  "imd_dropped doomed name =
     list_ex (\<lambda>d. bare_name name = d \<or> starts_with (d @ ''/'') (bare_name name)) doomed"

definition imd_kept :: "string \<Rightarrow> tar_member list \<Rightarrow> tar_member list" where
  "imd_kept version ms =
     filter (\<lambda>m. \<not> imd_dropped (imd_doomed (imd_top version) ms) (t_name m)) (sort_key t_name ms)"

definition imd_transform :: "'a archiver_scheme \<Rightarrow> string \<Rightarrow> string \<Rightarrow> string result" where
  "imd_transform a archive version = bind_r (tar_open a_gunzip a archive) (\<lambda>ms.
     gzip_out a (a_write a (map zero_owner (imd_kept version ms))))"

subsection \<open>gpm, openal-soft, 7zip, hplip, fpaste\<close>

definition gpm_dropped :: "string \<Rightarrow> string \<Rightarrow> bool" where
  "gpm_dropped version name =
     (let doomed = concat [''gpm-'', version, ''/doc/specs''] in
      bare_name name = doomed \<or> starts_with (doomed @ ''/'') (bare_name name))"

definition gpm_transform :: "'a archiver_scheme \<Rightarrow> string \<Rightarrow> string \<Rightarrow> string result" where
  "gpm_transform a archive version = bind_r (tar_open a_unlzma a archive) (\<lambda>ms.
     Inr (xz_stream a [a_write a (map zero_owner (filter (\<lambda>m. \<not> gpm_dropped version (t_name m)) (by_name ms)))]))"

definition openal_dropped :: "string \<Rightarrow> string \<Rightarrow> bool" where
  "openal_dropped name version =
     (let dir = ''openal-soft-'' @ version; rel = bare_name name in
      if rel = dir \<or> \<not> starts_with (dir @ ''/'') rel then False
      else let rest = drop (length dir + 1) rel; first = before CHR ''/'' rest;
               remainder = drop (length first + 1) rest in
        if starts_with ''fmt-'' first then True
        else first = ''utils'' \<and> CHR ''/'' \<notin> set remainder \<and> ends_with ''.def'' remainder)"

definition openal_transform :: "'a archiver_scheme \<Rightarrow> string \<Rightarrow> string \<Rightarrow> string result" where
  "openal_transform a archive version = bind_r (tar_open a_bunzip a archive) (\<lambda>ms.
     Inr (xz_stream a [a_write a (map zero_owner (filter (\<lambda>m. \<not> openal_dropped (t_name m) version) (by_name ms)))]))"

text \<open>\<open>fnmatchcase(leaf, "Rar*.*")\<close>.\<close>

definition rar_glob :: "string \<Rightarrow> bool" where
  "rar_glob leaf = (starts_with ''Rar'' leaf \<and> CHR ''.'' \<in> set (drop 3 leaf))"

definition sevenzip_dirs :: "string list" where
  "sevenzip_dirs = [''CPP/7zip/Compress/'', ''CPP/7zip/Crypto/'']"

definition rar_dir :: string where
  "rar_dir = ''CPP/7zip/Archive/Rar''"

definition unrar_license :: string where
  "unrar_license = ''DOC/unRarLicense.txt''"

definition sevenzip_dropped :: "string \<Rightarrow> string \<Rightarrow> bool" where
  "sevenzip_dropped name version =
     (let dir = ''7zip-'' @ version; rel = bare_name name in
      if \<not> starts_with (dir @ ''/'') rel then False
      else let rest = drop (length dir + 1) rel in
        if rest = rar_dir \<or> starts_with (rar_dir @ ''/'') rest then True
        else if rest = unrar_license then True
        else (case filter (\<lambda>d. starts_with d rest) sevenzip_dirs of
            [] \<Rightarrow> False
          | d # _ \<Rightarrow> let leaf = drop (length d) rest in CHR ''/'' \<notin> set leaf \<and> rar_glob leaf))"

definition sevenzip_transform :: "'a archiver_scheme \<Rightarrow> string \<Rightarrow> string \<Rightarrow> string result" where
  "sevenzip_transform a archive version = bind_r (tar_open a_gunzip a archive) (\<lambda>ms.
     Inr (xz_stream a [a_write a (map (\<lambda>m. (zero_owner m)\<lparr>t_pax := []\<rparr>)
       (filter (\<lambda>m. \<not> sevenzip_dropped (t_name m) version) (by_name ms)))]))"

definition hplip_transform :: "'a archiver_scheme \<Rightarrow> string \<Rightarrow> string \<Rightarrow> string result" where
  "hplip_transform a archive version = bind_r (tar_open a_gunzip a archive) (\<lambda>ms.
     gzip_out a (a_write a (map zero_owner
       (filter (\<lambda>m. bare_name (t_name m) \<noteq> concat [''hplip-'', version, ''/locatedriver'']) (by_name ms)))))"

text \<open>One pass of the loop over the members: none when the member is left out.\<close>

definition fpaste_member :: "string \<Rightarrow> tar_member \<Rightarrow> tar_member option result" where
  "fpaste_member version m =
     (let old = ''fpaste''; name = bare_name (t_name m) in
      if name \<noteq> old \<and> \<not> starts_with (old @ ''/'') name
        then Inl (RuntimeError (''fpaste archive member outside fpaste/: '' @ t_name m))
      else if name = old @ ''/.gitignore'' then Inr None
      else Inr (Some ((zero_owner m)\<lparr>t_name := concat [''fpaste-'', version, drop (length old) name], t_pax := []\<rparr>)))"

definition fpaste_transform :: "'a archiver_scheme \<Rightarrow> string \<Rightarrow> string \<Rightarrow> string result" where
  "fpaste_transform a archive version = bind_r (tar_open a_gunzip a archive) (\<lambda>ms.
     bind_r (map_r (fpaste_member version) (by_name ms)) (\<lambda>made.
     gzip_out a (a_write a (List.map_filter id made))))"

subsection \<open>What the recipes' scripts remove\<close>

text \<open>
  An unpacked tree is the list of its paths below the top directory, each with whether it is a
  directory. \<open>rm_r\<close> is \<open>rm -r\<close>, which takes everything below along; \<open>rm_plain\<close> is \<open>rm\<close>, which refuses a
  directory. Paths hold no white space or quotes, at which \<open>xargs\<close> would split them.
\<close>

type_synonym path_tree = "(string \<times> bool) list"

definition rm_r :: "string list \<Rightarrow> path_tree \<Rightarrow> path_tree" where
  "rm_r ds t = filter (\<lambda>(p, _). \<not> list_ex (\<lambda>d. at_or_below d p) ds) t"

definition rm_plain :: "string list \<Rightarrow> path_tree \<Rightarrow> path_tree" where
  "rm_plain ds t = filter (\<lambda>(p, dir). dir \<or> p \<notin> set ds) t"

definition find_name :: "(string \<Rightarrow> bool) \<Rightarrow> path_tree \<Rightarrow> string list" where
  "find_name f t = filter (\<lambda>p. f (last_part p)) (map fst t)"

text \<open>\<open>find . -name kernel | grep gen | xargs rm -r\<close> and the two lines after it.\<close>

definition strip_kernels :: "path_tree \<Rightarrow> path_tree" where
  "strip_kernels t =
     (let t1 = rm_r (filter (\<lambda>p. contains ''gen'' (''./'' @ p)) (find_name (\<lambda>n. n = ''kernel'') t)) t;
          t2 = rm_plain (find_name (starts_with ''cm_gpucopy_kernel'') t1) t1 in
      rm_r (find_name (\<lambda>n. n = ''cmrt_kernel'') t2) t2)"

text \<open>\<open>rm -rf fmt-*/\<close> and \<open>rm -rf utils/*.def\<close>; a star matches no leading dot.\<close>

definition openal_script :: "path_tree \<Rightarrow> path_tree" where
  "openal_script t =
     (let t1 = rm_r (map fst (filter (\<lambda>(p, dir). dir \<and> CHR ''/'' \<notin> set p \<and> starts_with ''fmt-'' p) t)) t;
          sets = filter (\<lambda>p. starts_with ''utils/'' p \<and>
                   (let n = drop 6 p in CHR ''/'' \<notin> set n \<and> ends_with ''.def'' n \<and> \<not> starts_with ''.'' n)) (map fst t1) in
      rm_r sets t1)"

definition rar_globbed :: "string \<Rightarrow> path_tree \<Rightarrow> string list" where
  "rar_globbed d t = filter (\<lambda>p. starts_with d p \<and> CHR ''/'' \<notin> set (drop (length d) p) \<and> rar_glob (drop (length d) p)) (map fst t)"

definition sevenzip_script :: "path_tree \<Rightarrow> path_tree" where
  "sevenzip_script t =
     (let t1 = rm_r (if (rar_dir, True) \<in> set t then [rar_dir] else []) t;
          t2 = fold (\<lambda>d u. rm_plain (rar_globbed d u) u) sevenzip_dirs t1 in
      rm_plain [unrar_license] t2)"

text \<open>The tree an archive unpacks to, when all its members lie under its top directory.\<close>

definition under_top :: "string \<Rightarrow> tar_member list \<Rightarrow> bool" where
  "under_top dir ms = list_all (\<lambda>m. bare_name (t_name m) = dir \<or>
     (starts_with (dir @ ''/'') (bare_name (t_name m)) \<and> length dir + 1 < length (bare_name (t_name m)))) ms"

definition unpacked :: "string \<Rightarrow> tar_member list \<Rightarrow> path_tree" where
  "unpacked dir ms = map (\<lambda>m. (drop (length dir + 1) (bare_name (t_name m)), t_kind m = Tar_Dir))
     (filter (\<lambda>m. bare_name (t_name m) \<noteq> dir) ms)"

text \<open>What lies below a path of the tree lies below a directory.\<close>

definition proper_tree :: "path_tree \<Rightarrow> bool" where
  "proper_tree t = list_all (\<lambda>(d, dir). dir \<or> list_all (\<lambda>(p, _). p = d \<or> \<not> at_or_below d p) t) t"

subsection \<open>The removal sets are those of the scripts\<close>

lemma set_rm_r: "x \<in> set (rm_r ds t) \<longleftrightarrow> x \<in> set t \<and> (\<forall>d \<in> set ds. \<not> at_or_below d (fst x))"
  by (auto simp: rm_r_def list_ex_iff case_prod_beta)

lemma set_rm_plain: "x \<in> set (rm_plain ds t) \<longleftrightarrow> x \<in> set t \<and> (snd x \<or> fst x \<notin> set ds)"
  by (auto simp: rm_plain_def case_prod_beta)

lemma set_find_name: "d \<in> set (find_name f t) \<longleftrightarrow> f (last_part d) \<and> (\<exists>dir. (d, dir) \<in> set t)"
  by (force simp: find_name_def)

lemma bare_name_last: "bare_name s \<noteq> [] \<Longrightarrow> last (bare_name s) \<noteq> CHR ''/''"
  using hd_dropWhile [of "\<lambda>c. c = CHR ''/''" "rev s"] by (simp add: bare_name_def last_rev)

lemma bare_nameI: "(s \<noteq> [] \<Longrightarrow> last s \<noteq> CHR ''/'') \<Longrightarrow> bare_name s = s"
  by (cases s rule: rev_cases) (simp_all add: bare_name_def)

lemma bare_name_idem [simp]: "bare_name (bare_name s) = bare_name s"
  by (rule bare_nameI) (rule bare_name_last)

lemma bare_name_suffix: "bare_name s = a @ b \<Longrightarrow> b \<noteq> [] \<Longrightarrow> bare_name b = b"
  using bare_name_last [of s] by (intro bare_nameI) simp

lemma contains_gen_dot: "contains ''gen'' (''./'' @ p) \<longleftrightarrow> contains ''gen'' p"
  by simp

lemma imd_stripped_bare:
  "bare_name d = d \<Longrightarrow> imd_stripped d \<longleftrightarrow> (last_part d = ''kernel'' \<and> contains ''gen'' d) \<or>
     starts_with ''cm_gpucopy_kernel'' (last_part d) \<or> last_part d = ''cmrt_kernel''"
  by (auto simp: imd_stripped_def Let_def)

lemma strip_kernels_exact:
  assumes tree: "proper_tree t" and bare: "\<And>p dir. (p, dir) \<in> set t \<Longrightarrow> bare_name p = p"
    and plain: "\<And>p. (p, True) \<in> set t \<Longrightarrow> \<not> starts_with ''cm_gpucopy_kernel'' (last_part p)"
  shows "(p, dir) \<in> set (strip_kernels t) \<longleftrightarrow>
    (p, dir) \<in> set t \<and> (\<forall>d e. (d, e) \<in> set t \<longrightarrow> imd_stripped d \<longrightarrow> \<not> at_or_below d p)"
proof -
  define t1 where "t1 = rm_r (filter (\<lambda>p. contains ''gen'' (''./'' @ p)) (find_name (\<lambda>n. n = ''kernel'') t)) t"
  define t2 where "t2 = rm_plain (find_name (starts_with ''cm_gpucopy_kernel'') t1) t1"
  have t1: "(p, dir) \<in> set t1 \<longleftrightarrow> (p, dir) \<in> set t \<and>
      (\<forall>d e. (d, e) \<in> set t \<longrightarrow> last_part d = ''kernel'' \<longrightarrow> contains ''gen'' d \<longrightarrow> \<not> at_or_below d p)" for p dir
    unfolding t1_def set_rm_r set_filter contains_gen_dot by (auto simp: set_find_name)
  have t2: "(p, dir) \<in> set t2 \<longleftrightarrow> (p, dir) \<in> set t1 \<and> \<not> starts_with ''cm_gpucopy_kernel'' (last_part p)" for p dir
    using plain [of p] by (cases dir) (auto simp: t2_def set_rm_plain set_find_name t1)
  have final: "(p, dir) \<in> set (strip_kernels t) \<longleftrightarrow> (p, dir) \<in> set t2 \<and>
      (\<forall>d e. (d, e) \<in> set t2 \<longrightarrow> last_part d = ''cmrt_kernel'' \<longrightarrow> \<not> at_or_below d p)" for p dir
    unfolding strip_kernels_def Let_def t1_def [symmetric] t2_def [symmetric] by (auto simp: set_rm_r set_find_name)
  have gpu_file: "at_or_below d p \<longleftrightarrow> d = p"
    if "(d, e) \<in> set t" "starts_with ''cm_gpucopy_kernel'' (last_part d)" "(p, dir) \<in> set t" for d e p dir
    using tree plain [of d] that by (cases e) (auto simp: proper_tree_def list_all_iff)
  show ?thesis
  proof
    assume left: "(p, dir) \<in> set (strip_kernels t)"
    then have here: "(p, dir) \<in> set t" "(p, dir) \<in> set t1" "(p, dir) \<in> set t2" by (auto simp: final t2 t1)
    have "\<not> at_or_below d p" if d: "(d, e) \<in> set t" "imd_stripped d" for d e
    proof
      assume below: "at_or_below d p"
      from here(2) d(1) below have not_kernel: "\<not> (last_part d = ''kernel'' \<and> contains ''gen'' d)" by (auto simp: t1)
      from here(1,3) d(1) below gpu_file have not_gpu: "\<not> starts_with ''cm_gpucopy_kernel'' (last_part d)" by (auto simp: t2)
      have "(d, e) \<in> set t1" using here(2) d(1) below by (auto simp: t1 dest: at_or_below_trans)
      with not_gpu have "(d, e) \<in> set t2" by (simp add: t2)
      with left below not_kernel not_gpu d bare [OF d(1)] show False by (auto simp: final imd_stripped_bare)
    qed
    with here(1) show "(p, dir) \<in> set t \<and> (\<forall>d e. (d, e) \<in> set t \<longrightarrow> imd_stripped d \<longrightarrow> \<not> at_or_below d p)" by blast
  next
    assume right: "(p, dir) \<in> set t \<and> (\<forall>d e. (d, e) \<in> set t \<longrightarrow> imd_stripped d \<longrightarrow> \<not> at_or_below d p)"
    have stripped: "imd_stripped d" if "(d, e) \<in> set t" "last_part d = ''kernel'' \<and> contains ''gen'' d \<or>
        starts_with ''cm_gpucopy_kernel'' (last_part d) \<or> last_part d = ''cmrt_kernel''" for d e
      using imd_stripped_bare [OF bare [OF that(1)]] that(2) by blast
    from right stripped have "(p, dir) \<in> set t1" by (auto simp: t1)
    moreover from right stripped have "\<not> starts_with ''cm_gpucopy_kernel'' (last_part p)" using at_or_below_refl by blast
    ultimately show "(p, dir) \<in> set (strip_kernels t)" using right stripped by (auto simp: final t2 t1)
  qed
qed

text \<open>What an archive keeps, by paths below the top directory.\<close>

lemma under_top_cases:
  assumes "under_top dir ms" and "m \<in> set ms"
  obtains "bare_name (t_name m) = dir" | p where "bare_name (t_name m) = dir @ CHR ''/'' # p" "p \<noteq> []"
  using assms by (fastforce simp: under_top_def list_all_iff starts_with_iff)

lemma unpacked_mem:
  "(p, e) \<in> set (unpacked dir ms) \<longleftrightarrow> (\<exists>m \<in> set ms. bare_name (t_name m) \<noteq> dir \<and>
     p = drop (length dir + 1) (bare_name (t_name m)) \<and> e = (t_kind m = Tar_Dir))"
  by (auto simp: unpacked_def)

lemma unpacked_bare:
  assumes "under_top dir ms" and "(p, e) \<in> set (unpacked dir ms)"
  shows "bare_name p = p" and "p \<noteq> []"
proof -
  from assms(2) obtain m where m: "m \<in> set ms" "bare_name (t_name m) \<noteq> dir" "p = drop (length dir + 1) (bare_name (t_name m))"
    by (auto simp: unpacked_mem)
  from assms(1) m(1) obtain q where q: "bare_name (t_name m) = dir @ CHR ''/'' # q" "q \<noteq> []"
    by (rule under_top_cases) (use m(2) in auto)
  with m(3) have "p = q" by simp
  with q bare_name_suffix [of "t_name m" "dir @ ''/''" q] show "bare_name p = p" "p \<noteq> []" by auto
qed

lemma unpacked_filter:
  assumes "under_top dir ms"
    and "\<And>m p. m \<in> set ms \<Longrightarrow> bare_name (t_name m) = dir @ CHR ''/'' # p \<Longrightarrow> p \<noteq> [] \<Longrightarrow> P m \<longleftrightarrow> Q p"
  shows "(p, e) \<in> set (unpacked dir (filter P ms)) \<longleftrightarrow> (p, e) \<in> set (unpacked dir ms) \<and> Q p"
proof -
  have "P m \<longleftrightarrow> Q (drop (length dir + 1) (bare_name (t_name m)))"
    if "m \<in> set ms" "bare_name (t_name m) \<noteq> dir" for m
    using assms(1) that(1) by (rule under_top_cases) (use assms(2) that in auto)
  then show ?thesis by (auto simp: unpacked_mem)
qed

lemma unpacked_set: "set ms = set ns \<Longrightarrow> set (unpacked dir ms) = set (unpacked dir ns)"
  by (auto simp: unpacked_mem)

lemma imd_top_not_stripped: "CHR ''/'' \<notin> set v \<Longrightarrow> \<not> imd_stripped (imd_top v)"
proof -
  assume "CHR ''/'' \<notin> set v"
  then have none: "CHR ''/'' \<notin> set (imd_top v)" by (simp add: imd_top_def)
  then have "bare_name (imd_top v) = imd_top v" by (intro bare_nameI) (metis last_in_set)
  with none show ?thesis by (simp add: imd_stripped_def last_part_def rpartition_none) (simp add: imd_top_def)
qed

lemma imd_relative_simps:
  "bare_name n = dir \<Longrightarrow> imd_relative dir n = dir"
  "bare_name n = dir @ CHR ''/'' # p \<Longrightarrow> imd_relative dir n = p"
  by (auto simp: imd_relative_def Let_def starts_with_iff)

lemma imd_dropped_iff:
  assumes "under_top (imd_top v) ms" and "CHR ''/'' \<notin> set v" and m: "bare_name (t_name m) = imd_top v @ CHR ''/'' # p"
  shows "imd_dropped (imd_doomed (imd_top v) ms) (t_name m) \<longleftrightarrow>
    (\<exists>d e. (d, e) \<in> set (unpacked (imd_top v) ms) \<and> imd_stripped d \<and> at_or_below d p)"
proof -
  have member: "(imd_stripped (imd_relative (imd_top v) (t_name k)) \<and> imd_relative (imd_top v) (t_name k) \<noteq> [] \<and>
      at_or_below (bare_name (t_name k)) (bare_name (t_name m))) \<longleftrightarrow>
    bare_name (t_name k) \<noteq> imd_top v \<and>
      (let d = drop (length (imd_top v) + 1) (bare_name (t_name k)) in imd_stripped d \<and> at_or_below d p)"
    if k: "k \<in> set ms" for k
    using assms(1) k
  proof (rule under_top_cases)
    assume "bare_name (t_name k) = imd_top v"
    with imd_top_not_stripped [OF assms(2)] show ?thesis by (simp add: imd_relative_simps)
  next
    fix d assume "bare_name (t_name k) = imd_top v @ CHR ''/'' # d" "d \<noteq> []"
    with m show ?thesis by (simp add: imd_relative_simps)
  qed
  have "imd_dropped (imd_doomed (imd_top v) ms) (t_name m) \<longleftrightarrow>
      (\<exists>k \<in> set ms. imd_stripped (imd_relative (imd_top v) (t_name k)) \<and> imd_relative (imd_top v) (t_name k) \<noteq> [] \<and>
        at_or_below (bare_name (t_name k)) (bare_name (t_name m)))"
    by (auto simp: imd_dropped_def imd_doomed_def list_ex_iff at_or_below_def)
  also have "\<dots> \<longleftrightarrow> (\<exists>k \<in> set ms. bare_name (t_name k) \<noteq> imd_top v \<and>
      (let d = drop (length (imd_top v) + 1) (bare_name (t_name k)) in imd_stripped d \<and> at_or_below d p))"
    using member by blast
  finally show ?thesis by (auto simp: unpacked_mem Let_def)
qed

text \<open>
  The archive \<open>imd_transform\<close> writes: every kept member, in name order, with nothing but its ownership
  changed; unpacked, it is the tree \<open>strip.py\<close> leaves.
\<close>

lemma imd_kept_set: "set (imd_kept v ms) = {m \<in> set ms. \<not> imd_dropped (imd_doomed (imd_top v) ms) (t_name m)}"
  by (auto simp: imd_kept_def)

lemma unpacked_zero_owner [simp]: "unpacked dir (map zero_owner ms) = unpacked dir ms"
  by (induction ms) (simp_all add: unpacked_def)

lemma imd_is_strip_script:
  assumes top: "under_top (imd_top v) ms" and v: "CHR ''/'' \<notin> set v" and tree: "proper_tree (unpacked (imd_top v) ms)"
    and plain: "list_all (\<lambda>(p, dir). dir \<longrightarrow> \<not> starts_with ''cm_gpucopy_kernel'' (last_part p)) (unpacked (imd_top v) ms)"
  shows "set (unpacked (imd_top v) (imd_kept v ms)) = set (strip_kernels (unpacked (imd_top v) ms))"
proof -
  let ?t = "unpacked (imd_top v) ms"
  have "(p, e) \<in> set (unpacked (imd_top v) (imd_kept v ms)) \<longleftrightarrow> (p, e) \<in> set (strip_kernels ?t)" for p e
  proof -
    have "(p, e) \<in> set (unpacked (imd_top v) (imd_kept v ms)) \<longleftrightarrow>
        (p, e) \<in> set (unpacked (imd_top v) (filter (\<lambda>m. \<not> imd_dropped (imd_doomed (imd_top v) ms) (t_name m)) ms))"
      by (subst unpacked_set [of "imd_kept v ms"]) (auto simp: imd_kept_set)
    also have "\<dots> \<longleftrightarrow> (p, e) \<in> set ?t \<and> (\<forall>d e. (d, e) \<in> set ?t \<longrightarrow> imd_stripped d \<longrightarrow> \<not> at_or_below d p)"
      using imd_dropped_iff [OF top v] by (subst unpacked_filter [OF top]) (auto intro!: arg_cong [where f = Not])
    also have "\<dots> \<longleftrightarrow> (p, e) \<in> set (strip_kernels ?t)"
    proof (rule strip_kernels_exact [OF tree, symmetric])
      show "bare_name p = p" if "(p, dir) \<in> set ?t" for p dir using unpacked_bare(1) [OF top that] .
      show "\<not> starts_with ''cm_gpucopy_kernel'' (last_part p)" if "(p, True) \<in> set ?t" for p
        using plain that by (fastforce simp: list_all_iff)
    qed
    finally show ?thesis .
  qed
  then show ?thesis by auto
qed

lemma before_append [simp]: "before c (a @ c # b) = before c a"
  by (induction a) (simp_all add: before_def)

lemma before_none [simp]: "c \<notin> set s \<Longrightarrow> before c s = s"
  by (induction s) (auto simp: before_def)

lemma before_cases: obtains "c \<notin> set s" "before c s = s" | r where "s = before c s @ c # r" "c \<notin> set (before c s)"
proof (cases "c \<in> set s")
  case True
  then obtain a r where "s = a @ c # r" "c \<notin> set a" by (blast dest: split_list_first)
  then show ?thesis by (intro that(2) [of r]) simp_all
qed (use that(1) in simp)

definition openal_rest_dropped :: "string \<Rightarrow> bool" where
  "openal_rest_dropped p \<longleftrightarrow> starts_with ''fmt-'' (before CHR ''/'' p) \<or>
     (\<exists>n. p = ''utils/'' @ n \<and> CHR ''/'' \<notin> set n \<and> ends_with ''.def'' n)"

lemma openal_dropped_rest:
  assumes "bare_name n = (''openal-soft-'' @ v) @ CHR ''/'' # p"
  shows "openal_dropped n v \<longleftrightarrow> openal_rest_dropped p"
proof -
  have dropped: "openal_dropped n v \<longleftrightarrow> starts_with ''fmt-'' (before CHR ''/'' p) \<or>
      (before CHR ''/'' p = ''utils'' \<and> (let r = drop (length (before CHR ''/'' p) + 1) p in CHR ''/'' \<notin> set r \<and> ends_with ''.def'' r))"
    using assms by (simp add: openal_dropped_def Let_def starts_with_iff)
  have utils: "(before CHR ''/'' p = ''utils'' \<and> (let r = drop (length (before CHR ''/'' p) + 1) p in CHR ''/'' \<notin> set r \<and> ends_with ''.def'' r))
      \<longleftrightarrow> (\<exists>n. p = ''utils/'' @ n \<and> CHR ''/'' \<notin> set n \<and> ends_with ''.def'' n)"
  proof (rule before_cases [of "CHR ''/''" p])
    assume none: "CHR ''/'' \<notin> set p" "before CHR ''/'' p = p"
    then show ?thesis by (auto simp: ends_with_iff)
  next
    fix r assume r: "p = before CHR ''/'' p @ CHR ''/'' # r" "CHR ''/'' \<notin> set (before CHR ''/'' p)"
    define a where "a = before CHR ''/'' p"
    have p: "p = a @ CHR ''/'' # r" and a: "CHR ''/'' \<notin> set a" and before: "before CHR ''/'' p = a"
      using r by (simp_all add: a_def)
    have "(\<exists>n. p = ''utils/'' @ n \<and> CHR ''/'' \<notin> set n \<and> ends_with ''.def'' n) \<longleftrightarrow>
        a = ''utils'' \<and> CHR ''/'' \<notin> set r \<and> ends_with ''.def'' r"
    proof
      assume "\<exists>n. p = ''utils/'' @ n \<and> CHR ''/'' \<notin> set n \<and> ends_with ''.def'' n"
      then obtain n where n: "p = ''utils'' @ CHR ''/'' # n" "CHR ''/'' \<notin> set n" "ends_with ''.def'' n" by auto
      have "split_on CHR ''/'' p = a # split_on CHR ''/'' r" unfolding p by (rule split_on_append [OF a])
      moreover have "split_on CHR ''/'' p = ''utils'' # split_on CHR ''/'' n" unfolding n(1) by (rule split_on_append) simp
      ultimately have "a = ''utils''" by simp
      with n p show "a = ''utils'' \<and> CHR ''/'' \<notin> set r \<and> ends_with ''.def'' r" by simp
    qed (simp add: p)
    then show ?thesis unfolding before by (auto simp: p)
  qed
  show ?thesis unfolding dropped utils openal_rest_dropped_def ..
qed

lemma openal_is_script:
  assumes top: "under_top (''openal-soft-'' @ v) ms"
    and plain: "list_all (\<lambda>(p, dir).
      (CHR ''/'' \<notin> set p \<longrightarrow> starts_with ''fmt-'' p \<longrightarrow> dir) \<and>
      (starts_with ''utils/'' p \<longrightarrow> CHR ''/'' \<notin> set (drop 6 p) \<longrightarrow> ends_with ''.def'' (drop 6 p) \<longrightarrow>
         \<not> dir \<and> \<not> starts_with ''.'' (drop 6 p))) (unpacked (''openal-soft-'' @ v) ms)"
    and tree: "proper_tree (unpacked (''openal-soft-'' @ v) ms)"
    and closed: "\<And>p q e. (p @ CHR ''/'' # q, e) \<in> set (unpacked (''openal-soft-'' @ v) ms) \<Longrightarrow>
      (p, True) \<in> set (unpacked (''openal-soft-'' @ v) ms)"
  shows "set (unpacked (''openal-soft-'' @ v) (filter (\<lambda>m. \<not> openal_dropped (t_name m) v) ms)) =
    set (openal_script (unpacked (''openal-soft-'' @ v) ms))"
proof -
  let ?t = "unpacked (''openal-soft-'' @ v) ms"
  define t1 where "t1 = rm_r (map fst (filter (\<lambda>(p, dir). dir \<and> CHR ''/'' \<notin> set p \<and> starts_with ''fmt-'' p) ?t)) ?t"
  have first: "starts_with ''fmt-'' (before CHR ''/'' p) \<longleftrightarrow>
      (\<exists>d. (d, True) \<in> set ?t \<and> CHR ''/'' \<notin> set d \<and> starts_with ''fmt-'' d \<and> at_or_below d p)"
    if "(p, e) \<in> set ?t" for p e
  proof
    assume fmt: "starts_with ''fmt-'' (before CHR ''/'' p)"
    show "\<exists>d. (d, True) \<in> set ?t \<and> CHR ''/'' \<notin> set d \<and> starts_with ''fmt-'' d \<and> at_or_below d p"
    proof (rule before_cases [of "CHR ''/''" p])
      assume "CHR ''/'' \<notin> set p" "before CHR ''/'' p = p"
      with fmt that plain show ?thesis by (intro exI [of _ p]) (fastforce simp: list_all_iff)
    next
      fix r assume r: "p = before CHR ''/'' p @ CHR ''/'' # r" "CHR ''/'' \<notin> set (before CHR ''/'' p)"
      from that r(1) have "(before CHR ''/'' p @ CHR ''/'' # r, e) \<in> set ?t" by simp
      then have "(before CHR ''/'' p, True) \<in> set ?t" by (rule closed)
      moreover have "at_or_below (before CHR ''/'' p) p" unfolding at_or_below_def by (subst (2) r(1)) (simp add: starts_with_iff)
      ultimately show ?thesis using fmt r(2) by blast
    qed
  next
    assume "\<exists>d. (d, True) \<in> set ?t \<and> CHR ''/'' \<notin> set d \<and> starts_with ''fmt-'' d \<and> at_or_below d p"
    then obtain d where d: "CHR ''/'' \<notin> set d" "starts_with ''fmt-'' d" "at_or_below d p" by blast
    from d(3) have "p = d \<or> (\<exists>r. p = d @ CHR ''/'' # r)" by (auto simp: at_or_below_def starts_with_iff)
    then have "before CHR ''/'' p = d" using d(1) by auto
    with d(2) show "starts_with ''fmt-'' (before CHR ''/'' p)" by simp
  qed
  have t1: "(p, e) \<in> set t1 \<longleftrightarrow> (p, e) \<in> set ?t \<and> \<not> starts_with ''fmt-'' (before CHR ''/'' p)" for p e
    using first [of p e] by (auto simp: t1_def set_rm_r)
  have set_file: "at_or_below d p \<longleftrightarrow> d = p"
    if "(d, f) \<in> set ?t" "d = ''utils/'' @ n" "CHR ''/'' \<notin> set n" "ends_with ''.def'' n" "(p, e) \<in> set ?t" for d f n p e
  proof -
    have "\<not> f" using plain that(1-4) by (fastforce simp: list_all_iff)
    with tree that(1,5) show ?thesis by (auto simp: proper_tree_def list_all_iff)
  qed
  have no_dot: "\<not> starts_with ''.'' n"
    if "(''utils/'' @ n, f) \<in> set ?t" "CHR ''/'' \<notin> set n" "ends_with ''.def'' n" for n f
    using plain that by (fastforce simp: list_all_iff)
  have script: "(p, e) \<in> set (openal_script ?t) \<longleftrightarrow> (p, e) \<in> set t1 \<and>
      \<not> (\<exists>d f n. (d, f) \<in> set t1 \<and> d = ''utils/'' @ n \<and> CHR ''/'' \<notin> set n \<and> ends_with ''.def'' n \<and> \<not> starts_with ''.'' n \<and> at_or_below d p)"
    for p e
    unfolding openal_script_def Let_def t1_def [symmetric]
    by (auto simp: set_rm_r starts_with_iff)
  have "(p, e) \<in> set (openal_script ?t) \<longleftrightarrow> (p, e) \<in> set ?t \<and> \<not> openal_rest_dropped p" for p e
  proof
    assume "(p, e) \<in> set (openal_script ?t)"
    with no_dot show "(p, e) \<in> set ?t \<and> \<not> openal_rest_dropped p"
      unfolding script t1 openal_rest_dropped_def using at_or_below_refl by blast
  next
    assume "(p, e) \<in> set ?t \<and> \<not> openal_rest_dropped p"
    then show "(p, e) \<in> set (openal_script ?t)"
      unfolding script t1 openal_rest_dropped_def using set_file by blast
  qed
  moreover have "(p, e) \<in> set (unpacked (''openal-soft-'' @ v) (filter (\<lambda>m. \<not> openal_dropped (t_name m) v) ms)) \<longleftrightarrow>
      (p, e) \<in> set ?t \<and> \<not> openal_rest_dropped p" for p e
    by (rule unpacked_filter [OF top]) (auto simp: openal_dropped_rest)
  ultimately show ?thesis by auto
qed

definition rar_leaf :: "string \<Rightarrow> bool" where
  "rar_leaf p \<longleftrightarrow> (\<exists>d \<in> set sevenzip_dirs. \<exists>n. p = d @ n \<and> CHR ''/'' \<notin> set n \<and> rar_glob n)"

definition sevenzip_rest_dropped :: "string \<Rightarrow> bool" where
  "sevenzip_rest_dropped p \<longleftrightarrow> at_or_below rar_dir p \<or> p = unrar_license \<or> rar_leaf p"

lemma sevenzip_dropped_rest:
  assumes "bare_name n = (''7zip-'' @ v) @ CHR ''/'' # p"
  shows "sevenzip_dropped n v \<longleftrightarrow> sevenzip_rest_dropped p"
proof -
  have globbed: "(case filter (\<lambda>d. starts_with d p) sevenzip_dirs of
        [] \<Rightarrow> False | d # _ \<Rightarrow> let leaf = drop (length d) p in CHR ''/'' \<notin> set leaf \<and> rar_glob leaf) \<longleftrightarrow> rar_leaf p"
    by (auto simp: sevenzip_dirs_def starts_with_iff rar_leaf_def)
  have under: "starts_with ((''7zip-'' @ v) @ ''/'') (bare_name n)" and rest: "drop (length (''7zip-'' @ v) + 1) (bare_name n) = p"
    by (simp_all add: assms starts_with_iff)
  show ?thesis
    unfolding sevenzip_dropped_def sevenzip_rest_dropped_def at_or_below_def globbed [symmetric]
    using under by (simp only: Let_def rest) auto
qed

lemma rar_globbed_mem:
  "p \<in> set (rar_globbed d t) \<longleftrightarrow> p \<in> fst ` set t \<and> (\<exists>n. p = d @ n \<and> CHR ''/'' \<notin> set n \<and> rar_glob n)"
  unfolding rar_globbed_def set_filter starts_with_iff set_map by auto

lemma rar_leaf_globbed: "(\<exists>d \<in> set sevenzip_dirs. p \<in> set (rar_globbed d t)) \<longleftrightarrow> rar_leaf p \<and> p \<in> fst ` set t"
  unfolding rar_globbed_mem rar_leaf_def by blast

lemma set_fold_rm_plain:
  "x \<in> set (fold (\<lambda>d u. rm_plain (rar_globbed d u) u) ds t) \<longleftrightarrow>
     x \<in> set t \<and> (snd x \<or> \<not> (\<exists>d \<in> set ds. fst x \<in> set (rar_globbed d t)))"
proof (induction ds arbitrary: t)
  case (Cons d ds)
  have again: "fst x \<in> set (rar_globbed e (rm_plain (rar_globbed d t) t)) \<longleftrightarrow> fst x \<in> set (rar_globbed e t)"
    if "x \<in> set (rm_plain (rar_globbed d t) t)" for e
  proof -
    from that have "x \<in> set t" by (simp add: set_rm_plain)
    with that show ?thesis unfolding rar_globbed_def by (simp add: rev_image_eqI)
  qed
  show ?case using again by (auto simp: Cons.IH) (auto simp: set_rm_plain)
qed simp

lemma sevenzip_script_exact:
  assumes plain: "\<And>p. (p, True) \<in> set t \<Longrightarrow> p \<noteq> unrar_license \<and> \<not> rar_leaf p"
    and rar: "(rar_dir, False) \<notin> set t"
    and closed: "\<And>p q e. (p @ CHR ''/'' # q, e) \<in> set t \<Longrightarrow> (p, True) \<in> set t"
  shows "(p, e) \<in> set (sevenzip_script t) \<longleftrightarrow> (p, e) \<in> set t \<and> \<not> sevenzip_rest_dropped p"
proof -
  define t1 where "t1 = rm_r (if (rar_dir, True) \<in> set t then [rar_dir] else []) t"
  have "(rar_dir, True) \<in> set t" if "(p, e) \<in> set t" "at_or_below rar_dir p" for p e
    using that rar closed [of rar_dir] by (cases e) (auto simp: at_or_below_def starts_with_iff)
  then have t1: "(p, e) \<in> set t1 \<longleftrightarrow> (p, e) \<in> set t \<and> \<not> at_or_below rar_dir p" for p e
    by (auto simp: t1_def set_rm_r)
  have t2: "(p, e) \<in> set (fold (\<lambda>d u. rm_plain (rar_globbed d u) u) sevenzip_dirs t1) \<longleftrightarrow> (p, e) \<in> set t1 \<and> \<not> rar_leaf p" for p e
  proof -
    have "p \<in> fst ` set t1" if "(p, e) \<in> set t1" using that by (simp add: rev_image_eqI)
    moreover have "\<not> rar_leaf p" if "(p, e) \<in> set t1" "e" using that plain [of p] t1 [of p e] by simp
    ultimately show ?thesis unfolding set_fold_rm_plain rar_leaf_globbed by auto
  qed
  show ?thesis
    using plain [of p] unfolding sevenzip_script_def Let_def t1_def [symmetric] set_rm_plain t2 sevenzip_rest_dropped_def
    by (cases e) (auto simp: t1)
qed

lemma sevenzip_is_script:
  assumes top: "under_top (''7zip-'' @ v) ms"
    and plain: "\<And>p. (p, True) \<in> set (unpacked (''7zip-'' @ v) ms) \<Longrightarrow> p \<noteq> unrar_license \<and> \<not> rar_leaf p"
    and rar: "(rar_dir, False) \<notin> set (unpacked (''7zip-'' @ v) ms)"
    and closed: "\<And>p q e. (p @ CHR ''/'' # q, e) \<in> set (unpacked (''7zip-'' @ v) ms) \<Longrightarrow>
      (p, True) \<in> set (unpacked (''7zip-'' @ v) ms)"
  shows "set (unpacked (''7zip-'' @ v) (filter (\<lambda>m. \<not> sevenzip_dropped (t_name m) v) ms)) =
    set (sevenzip_script (unpacked (''7zip-'' @ v) ms))"
proof -
  have "(p, e) \<in> set (unpacked (''7zip-'' @ v) (filter (\<lambda>m. \<not> sevenzip_dropped (t_name m) v) ms)) \<longleftrightarrow>
      (p, e) \<in> set (unpacked (''7zip-'' @ v) ms) \<and> \<not> sevenzip_rest_dropped p" for p e
    by (rule unpacked_filter [OF top]) (simp add: sevenzip_dropped_rest)
  with sevenzip_script_exact [OF plain rar closed] show ?thesis by auto
qed

subsection \<open>The archive written\<close>

lemma sort_key_unique:
  assumes "set xs = set ys" and "distinct xs" and "distinct ys" and "inj_on f (set xs)"
  shows "sort_key f xs = sort_key f ys"
proof (rule map_sorted_distinct_set_unique)
  show "inj_on f (set (sort_key f xs) \<union> set (sort_key f ys))" using assms(1,4) by simp
qed (use assms in \<open>auto simp: distinct_map\<close>)

text \<open>The order in which an archive lists its members does not reach the output.\<close>

lemma imd_kept_order:
  assumes "set ms = set ns" and "distinct ms" and "distinct ns" and "inj_on t_name (set ms)"
  shows "imd_kept v ms = imd_kept v ns"
proof -
  have "imd_dropped (imd_doomed (imd_top v) ms) = imd_dropped (imd_doomed (imd_top v) ns)"
    using assms(1) by (auto simp: fun_eq_iff imd_dropped_def imd_doomed_def list_ex_iff)
  with sort_key_unique [OF assms] show ?thesis by (simp add: imd_kept_def)
qed

lemma by_name_order:
  assumes "set ms = set ns" and "distinct ms" and "distinct ns" and "inj_on (\<lambda>m. bare_name (t_name m)) (set ms)"
  shows "by_name ms = by_name ns"
  unfolding by_name_def by (rule sort_key_unique [OF assms])


definition sample_member :: "string \<Rightarrow> tar_kind \<Rightarrow> string \<Rightarrow> tar_member" where
  "sample_member n k d = \<lparr>t_name = n, t_kind = k, t_mode = 420, t_uid = 7, t_gid = 7, t_uname = ''u'', t_gname = ''g'',
     t_mtime = 5, t_pax = [], t_data = d\<rparr>"

definition sample_media :: "tar_member list" where
  "sample_media = [sample_member (imd_top ''1'') Tar_Dir [], sample_member (imd_top ''1'' @ ''/gen9/'') Tar_Dir [],
     sample_member (imd_top ''1'' @ ''/gen9/kernel'') Tar_Dir [], sample_member (imd_top ''1'' @ ''/gen9/kernel/x.c'') Tar_File ''x'',
     sample_member (imd_top ''1'' @ ''/a.c'') Tar_File ''a'', sample_member (imd_top ''1'' @ ''/cm_gpucopy_kernel_g8.h'') Tar_File ''k'']"

definition sample_archiver :: "tar_member list \<Rightarrow> archiver" where
  "sample_archiver ms = \<lparr>a_read = (\<lambda>_. Inr ms), a_write = (\<lambda>ks. concat (map t_name ks)), a_gunzip = Inr, a_bunzip = Inr, a_unlzma = Inr,
     a_gzip = Some, a_xz9 = id, a_xz6 = id, a_sha512 = id, a_sha256 = id, a_toml = (\<lambda>_. Inr (JObj []))\<rparr>"


end
