(* ===== verification/Tar_Records.thy ===== *)
theory Tar_Records
  imports Tar_Repack
begin

section \<open>Slicing a tar stream by its records (\<open>_freerdp_transform\<close>)\<close>

text \<open>
  freerdp's archive is cut by its 512-byte records: the members are found by walking the headers, one file
  is dropped, and every other byte stays. The walk is a loop over an index a header's size field moves, so
  a malformed size can keep it from ending; \<open>walk\<close> is partial. Bytes decode as ASCII, what is beyond is
  \<open>Unmodelled\<close>. On an archive that is a sequence of well-formed entries the loop ends, and what it
  writes is the archive without the one entry.
\<close>

subsection \<open>Bytes\<close>

abbreviation nul :: char where
  "nul \<equiv> CHR 0x00"

definition ascii_text :: "string \<Rightarrow> string result" where
  "ascii_text b = (if list_all (\<lambda>c. (of_char c :: nat) < 128) b then Inr b else Inl Unmodelled)"

text \<open>\<open>xs[i]\<close> and \<open>xs[i:j]\<close> for any integers.\<close>

definition py_at :: "'a list \<Rightarrow> int \<Rightarrow> 'a result" where
  "py_at xs i =
     (let k = (if i < 0 then i + int (length xs) else i) in
      if k < 0 \<or> int (length xs) \<le> k then Inl IndexError else Inr (xs ! nat k))"

definition slice_bound :: "'a list \<Rightarrow> int \<Rightarrow> nat" where
  "slice_bound xs i = nat (if i < 0 then i + int (length xs) else i)"

definition py_slice :: "'a list \<Rightarrow> int \<Rightarrow> int \<Rightarrow> 'a list" where
  "py_slice xs i j = drop (slice_bound xs i) (take (slice_bound xs j) xs)"

text \<open>\<open>int(raw or b"0", 8)\<close>.\<close>

definition octal_char :: "char \<Rightarrow> bool" where
  "octal_char c = (48 \<le> (of_char c :: nat) \<and> (of_char c :: nat) \<le> 55)"

fun octal_run :: "bool \<Rightarrow> string \<Rightarrow> bool" where
  "octal_run after [] = after"
| "octal_run after (c # cs) = (if octal_char c then octal_run True cs else c = CHR ''_'' \<and> after \<and> octal_run False cs)"

definition octal_value :: "string \<Rightarrow> nat" where
  "octal_value s = foldl (\<lambda>n c. 8 * n + digit_val c) 0 (filter octal_char s)"

definition octal_body :: "string \<Rightarrow> string" where
  "octal_body s = (if starts_with ''0o'' s \<or> starts_with ''0O'' s
     then (let r = drop 2 s in if starts_with ''_'' r then tl r else r) else s)"

definition byte_space :: "char \<Rightarrow> bool" where
  "byte_space c = (let n = of_char c :: nat in n = 32 \<or> (9 \<le> n \<and> n \<le> 13))"

definition byte_strip :: "string \<Rightarrow> string" where
  "byte_strip s = rev (dropWhile byte_space (rev (dropWhile byte_space s)))"

definition int_octal :: "string \<Rightarrow> int result" where
  "int_octal s =
     (let body = octal_body (unsigned s) in
      if octal_run False body then Inr ((if starts_with ''-'' s then - 1 else 1) * int (octal_value body))
      else Inl (ValueError ''invalid literal for int() with base 8''))"

subsection \<open>Headers\<close>

definition record_size :: "string \<Rightarrow> int result" where
  "record_size header =
     (let raw = byte_strip (before nul (take 12 (drop 124 header))) in int_octal (if raw = [] then ''0'' else raw))"

fun pax_path :: "string list \<Rightarrow> string option result" where
  "pax_path [] = Inr None"
| "pax_path (l # ls) =
     (if CHR ''='' \<notin> set l then pax_path ls
      else (let key = before CHR ''='' l; value = drop (length key + 1) l;
                word = (if CHR '' '' \<in> set key then drop (length (before CHR '' '' key) + 1) key else key) in
        if word = ''path'' then bind_r (ascii_text value) (\<lambda>v. Inr (Some v)) else pax_path ls))"

definition freerdp_pax_path :: "string \<Rightarrow> string option result" where
  "freerdp_pax_path data = pax_path (split_on CHR 0x0A data)"

definition header_kind :: "string \<Rightarrow> string" where
  "header_kind header = take 1 (drop 156 header)"

definition header_name :: "string \<Rightarrow> string result" where
  "header_name header =
     bind_r (ascii_text (before nul (take 100 header))) (\<lambda>name.
     bind_r (ascii_text (before nul (take 155 (drop 345 header)))) (\<lambda>prefix.
       Inr (if prefix \<noteq> [] then prefix @ ''/'' @ name else name)))"

text \<open>What the extension headers before a member make of its name.\<close>

definition ext_name :: "string \<Rightarrow> string \<Rightarrow> string \<Rightarrow> string result" where
  "ext_name kind data full =
     (if kind = ''x'' then bind_r (freerdp_pax_path data) (\<lambda>override. Inr (case override of None \<Rightarrow> full | Some p \<Rightarrow> p))
      else if kind = ''L'' then ascii_text (before nul data)
      else Inr full)"

definition apply_ext :: "string list \<Rightarrow> int \<times> int \<times> string \<Rightarrow> string \<Rightarrow> string result" where
  "apply_ext records e full =
     (let (at, span, kind) = e in ext_name kind (concat (py_slice records (at + 1) (at + span))) full)"

definition full_name :: "string list \<Rightarrow> (int \<times> int \<times> string) list \<Rightarrow> string \<Rightarrow> string result" where
  "full_name records pending header = bind_r (header_name header) (fold_r (apply_ext records) pending)"

subsection \<open>The loop\<close>

record walk_state =
  w_at :: int
  w_drops :: "int list"
  w_pending :: "(int \<times> int \<times> string) list"
  w_found :: nat
  w_seen :: bool

definition zero_record :: string where
  "zero_record = replicate 512 nul"

definition span_range :: "int \<Rightarrow> int \<Rightarrow> int list" where
  "span_range i span = [i..i + span - 1]"

definition walk_step :: "string \<Rightarrow> string list \<Rightarrow> walk_state \<Rightarrow> walk_state option result" where
  "walk_step doomed records s =
     (let i = w_at s in
      if int (length records) \<le> i then Inr None
      else bind_r (py_at records i) (\<lambda>header.
        if header = zero_record then Inr None
        else bind_r (record_size header) (\<lambda>sz.
          let kind = header_kind header; span = 1 + (sz + 511) div 512; next = s\<lparr>w_at := i + span\<rparr> in
          if kind = ''g''
            then Inr (Some (next\<lparr>w_pending := [], w_drops := (if w_seen s then w_drops s else w_drops s @ span_range i span)\<rparr>))
          else if kind \<in> {''x'', ''L'', ''K''} then Inr (Some (next\<lparr>w_pending := w_pending s @ [(i, span, kind)]\<rparr>))
          else bind_r (full_name records (w_pending s) header) (\<lambda>full.
            let seen = next\<lparr>w_seen := True, w_pending := []\<rparr> in
            Inr (Some (if full = doomed
              then seen\<lparr>w_found := w_found s + 1,
                w_drops := w_drops s @ concat (map (\<lambda>(at, span, _). span_range at span) (w_pending s)) @ span_range i span\<rparr>
              else seen))))))"

partial_function (option) walk :: "string \<Rightarrow> string list \<Rightarrow> walk_state \<Rightarrow> walk_state result option" where
  "walk doomed records s = (case walk_step doomed records s of
      Inl e \<Rightarrow> Some (Inl e)
    | Inr None \<Rightarrow> Some (Inr s)
    | Inr (Some t) \<Rightarrow> walk doomed records t)"

definition walk_start :: walk_state where
  "walk_start = \<lparr>w_at = 0, w_drops = [], w_pending = [], w_found = 0, w_seen = False\<rparr>"

definition kept_records :: "int list \<Rightarrow> 'a list \<Rightarrow> 'a list" where
  "kept_records drops records = map snd (filter (\<lambda>(i, _). int i \<notin> set drops) (enumerate 0 records))"

definition freerdp_doomed :: "string \<Rightarrow> string" where
  "freerdp_doomed version = concat [''FreeRDP-'', version, ''/winpr/libwinpr/crt/unicode_builtin.c'']"

text \<open>None when the loop does not end.\<close>

definition freerdp_transform :: "'a archiver_scheme \<Rightarrow> string \<Rightarrow> string \<Rightarrow> string result option" where
  "freerdp_transform a archive version = (case a_gunzip a archive of
      Inl e \<Rightarrow> Some (Inl e)
    | Inr payload \<Rightarrow> let records = chunks_of 512 payload; doomed = freerdp_doomed version in
        map_option (\<lambda>r. bind_r r (\<lambda>s.
          if w_found s \<noteq> 1
          then Inl (RuntimeError (concat [''expected exactly one '', doomed, '' member, found '', show_nat (w_found s)]))
          else gzip_out a (concat (kept_records (w_drops s) records))))
        (walk doomed records walk_start))"

subsection \<open>Well-formed archives\<close>

text \<open>
  An archive as the format has it: global headers and members, a member after the extension headers that
  belong to it; each is a run of records, a header and the blocks its size field announces.
\<close>

datatype tar_entry = Global_Ext "string list" | Member_Entry "string list list" "string list"

fun entry_records :: "tar_entry \<Rightarrow> string list" where
  "entry_records (Global_Ext rs) = rs"
| "entry_records (Member_Entry exts rs) = concat exts @ rs"

definition member_name :: "string list list \<Rightarrow> string list \<Rightarrow> string result" where
  "member_name exts rs = bind_r (header_name (hd rs)) (fold_r (\<lambda>e. ext_name (header_kind (hd e)) (concat (tl e))) exts)"

definition run_of :: "(string \<Rightarrow> bool) \<Rightarrow> string list \<Rightarrow> bool" where
  "run_of kinds rs = (case rs of [] \<Rightarrow> False | h # _ \<Rightarrow> h \<noteq> zero_record \<and> kinds (header_kind h) \<and>
     (case record_size h of Inl _ \<Rightarrow> False | Inr sz \<Rightarrow> 1 + (sz + 511) div 512 = int (length rs)))"

definition ext_kinds :: "string list" where
  "ext_kinds = [''x'', ''L'', ''K'']"

fun entry_ok :: "tar_entry \<Rightarrow> bool" where
  "entry_ok (Global_Ext rs) = run_of (\<lambda>k. k = ''g'') rs"
| "entry_ok (Member_Entry exts rs) = (list_all (run_of (\<lambda>k. k \<in> set ext_kinds)) exts \<and>
     run_of (\<lambda>k. k \<noteq> ''g'' \<and> k \<notin> set ext_kinds) rs \<and> \<not> isl (member_name exts rs))"

fun is_entry :: "string \<Rightarrow> tar_entry \<Rightarrow> bool" where
  "is_entry name (Global_Ext rs) = False"
| "is_entry name (Member_Entry exts rs) = (member_name exts rs = Inr name)"

text \<open>The archive without a member, and without the global headers that lead it.\<close>

fun is_member :: "tar_entry \<Rightarrow> bool" where
  "is_member (Global_Ext rs) = False"
| "is_member (Member_Entry exts rs) = True"

fun without :: "string \<Rightarrow> bool \<Rightarrow> tar_entry list \<Rightarrow> tar_entry list" where
  "without name seen [] = []"
| "without name seen (e # es) =
     (if (\<not> seen \<and> \<not> is_member e) \<or> is_entry name e then [] else [e]) @ without name (seen \<or> is_member e) es"

subsection \<open>Every step of the walk\<close>

lemma py_at_nth: "int (length pre) = i \<Longrightarrow> py_at (pre @ x # post) i = Inr x"
  by (auto simp: py_at_def nth_append)

lemma py_slice_block: "py_slice (pre @ e @ post) (int (length pre) + 1) (int (length pre) + int (length e)) = tl e"
proof -
  have a: "slice_bound (pre @ e @ post) (int (length pre) + 1) = Suc (length pre)" by (simp add: slice_bound_def)
  have b: "slice_bound (pre @ e @ post) (int (length pre) + int (length e)) = length pre + length e" by (simp add: slice_bound_def)
  show ?thesis unfolding py_slice_def a b by (simp add: drop_Suc)
qed

lemma run_of_cases:
  assumes "run_of kinds rs"
  obtains h body sz where "rs = h # body" "h \<noteq> zero_record" "kinds (header_kind h)" "record_size h = Inr sz"
    "1 + (sz + 511) div 512 = int (length rs)"
  using assms by (auto simp: run_of_def split: list.splits sum.splits)

fun ext_spans :: "int \<Rightarrow> string list list \<Rightarrow> (int \<times> int \<times> string) list" where
  "ext_spans k [] = []"
| "ext_spans k (e # es) = (k, int (length e), header_kind (hd e)) # ext_spans (k + int (length e)) es"

lemma walk_exts:
  assumes "list_all (run_of (\<lambda>k. k \<in> set ext_kinds)) exts" and "w_at s = int (length pre)"
  shows "walk d (pre @ concat exts @ post) s = walk d (pre @ concat exts @ post)
    (s\<lparr>w_at := int (length pre) + int (length (concat exts)), w_pending := w_pending s @ ext_spans (int (length pre)) exts\<rparr>)"
  using assms
proof (induction exts arbitrary: pre s)
  case Nil
  then show ?case by (cases s) simp
next
  case (Cons e es)
  from Cons.prems(1) have ok: "run_of (\<lambda>k. k \<in> set ext_kinds) e" "list_all (run_of (\<lambda>k. k \<in> set ext_kinds)) es" by simp_all
  from ok(1) obtain h body sz where e: "e = h # body" "h \<noteq> zero_record" "header_kind h \<in> set ext_kinds"
    "record_size h = Inr sz" "1 + (sz + 511) div 512 = int (length e)"
    by (rule run_of_cases)
  let ?recs = "pre @ concat (e # es) @ post"
  let ?s = "s\<lparr>w_at := int (length pre) + int (length e), w_pending := w_pending s @ [(int (length pre), int (length e), header_kind h)]\<rparr>"
  have here: "py_at ?recs (int (length pre)) = Inr h" using e(1) by (simp add: py_at_nth)
  have kind: "header_kind h \<noteq> ''g''" "header_kind h \<in> {''x'', ''L'', ''K''}" using e(3) by (auto simp: ext_kinds_def)
  have "walk_step d ?recs s = Inr (Some ?s)"
    using here e(2,4,5) kind Cons.prems(2) by (simp add: walk_step_def Let_def e(1))
  then have "walk d ?recs s = walk d ?recs ?s" by (subst walk.simps) simp
  also have "?recs = (pre @ e) @ concat es @ post" by simp
  also have "walk d \<dots> ?s = walk d ((pre @ e) @ concat es @ post)
    (?s\<lparr>w_at := int (length (pre @ e)) + int (length (concat es)), w_pending := w_pending ?s @ ext_spans (int (length (pre @ e))) es\<rparr>)"
    by (rule Cons.IH [OF ok(2)]) simp
  finally show ?case by (simp add: e(1) algebra_simps)
qed

lemma fold_ext_names:
  "fold_r (apply_ext (pre @ concat exts @ post)) (ext_spans (int (length pre)) exts) n =
     fold_r (\<lambda>e. ext_name (header_kind (hd e)) (concat (tl e))) exts n"
proof (induction exts arbitrary: pre n)
  case (Cons e es)
  have one: "apply_ext (pre @ concat (e # es) @ post) (int (length pre), int (length e), header_kind (hd e)) n =
      ext_name (header_kind (hd e)) (concat (tl e)) n"
    using py_slice_block [of pre e "concat es @ post"] by (simp add: apply_ext_def)
  have "fold_r (apply_ext ((pre @ e) @ concat es @ post)) (ext_spans (int (length (pre @ e))) es) m =
      fold_r (\<lambda>e. ext_name (header_kind (hd e)) (concat (tl e))) es m" for m
    by (rule Cons.IH)
  then have "fold_r (apply_ext (pre @ concat (e # es) @ post)) (ext_spans (int (length pre) + int (length e)) es) =
      fold_r (\<lambda>e. ext_name (header_kind (hd e)) (concat (tl e))) es"
    by (auto simp: fun_eq_iff)
  with one show ?case by simp
qed simp

lemma full_name_member:
  "full_name (pre @ concat exts @ post) (ext_spans (int (length pre)) exts) h = member_name exts (h # body)"
  by (auto simp: full_name_def member_name_def fold_ext_names cong: bind_r_cong)

text \<open>The records an index list covers.\<close>

lemma set_span_range: "set (span_range i n) = {i..<i + n}"
  by (auto simp: span_range_def)

lemma ext_spans_cover:
  "set (concat (map (\<lambda>(at, span, _). span_range at span) (ext_spans k exts))) = {k..<k + int (length (concat exts))}"
proof (induction exts arbitrary: k)
  case (Cons e es)
  have "{k..<k + int (length e)} \<union> {k + int (length e)..<k + int (length e) + int (length (concat es))} =
      {k..<k + int (length (concat (e # es)))}" by (subst ivl_disj_un_two(3)) auto
  with Cons show ?case by (simp add: set_span_range)
qed simp

subsection \<open>The walk over a well-formed archive\<close>

fun drop_set :: "string \<Rightarrow> bool \<Rightarrow> int \<Rightarrow> tar_entry list \<Rightarrow> int set" where
  "drop_set name seen k [] = {}"
| "drop_set name seen k (e # es) =
     (if (\<not> seen \<and> \<not> is_member e) \<or> is_entry name e then {k..<k + int (length (entry_records e))} else {}) \<union>
     drop_set name (seen \<or> is_member e) (k + int (length (entry_records e))) es"

definition walk_after :: "string \<Rightarrow> walk_state \<Rightarrow> tar_entry \<Rightarrow> walk_state \<Rightarrow> bool" where
  "walk_after name s e t \<longleftrightarrow> w_at t = w_at s + int (length (entry_records e)) \<and> w_pending t = [] \<and>
     w_seen t = (w_seen s \<or> is_member e) \<and> w_found t = w_found s + (if is_entry name e then 1 else 0) \<and>
     set (w_drops t) = set (w_drops s) \<union>
       (if (\<not> w_seen s \<and> \<not> is_member e) \<or> is_entry name e then {w_at s..<w_at s + int (length (entry_records e))} else {})"

lemma walk_global:
  assumes "run_of (\<lambda>k. k = ''g'') rs" and "w_at s = int (length pre)" and "w_pending s = []"
  shows "\<exists>t. walk d (pre @ rs @ post) s = walk d (pre @ rs @ post) t \<and> walk_after d s (Global_Ext rs) t"
proof -
  from assms(1) obtain h body sz where r: "rs = h # body" "h \<noteq> zero_record" "header_kind h = ''g''" "record_size h = Inr sz"
    "1 + (sz + 511) div 512 = int (length rs)" by (rule run_of_cases)
  let ?t = "s\<lparr>w_at := w_at s + int (length rs), w_pending := [],
    w_drops := (if w_seen s then w_drops s else w_drops s @ span_range (w_at s) (int (length rs)))\<rparr>"
  have "py_at (pre @ rs @ post) (w_at s) = Inr h" using r(1) assms(2) by (simp add: py_at_nth)
  then have "walk_step d (pre @ rs @ post) s = Inr (Some ?t)"
    using r(2-5) assms(2) by (simp add: walk_step_def Let_def r(1))
  then have "walk d (pre @ rs @ post) s = walk d (pre @ rs @ post) ?t" by (subst walk.simps) simp
  moreover have "walk_after d s (Global_Ext rs) ?t" by (simp add: walk_after_def set_span_range)
  ultimately show ?thesis by blast
qed

lemma walk_member:
  assumes ok: "entry_ok (Member_Entry exts rs)" and s: "w_at s = int (length pre)" "w_pending s = []"
  shows "\<exists>t. walk d (pre @ (concat exts @ rs) @ post) s = walk d (pre @ (concat exts @ rs) @ post) t \<and>
    walk_after d s (Member_Entry exts rs) t"
proof -
  let ?recs = "pre @ concat exts @ rs @ post"
  from ok have exts: "list_all (run_of (\<lambda>k. k \<in> set ext_kinds)) exts" and rs: "run_of (\<lambda>k. k \<noteq> ''g'' \<and> k \<notin> set ext_kinds) rs"
    by simp_all
  from ok obtain n where n: "member_name exts rs = Inr n" by (auto simp: isl_def) (metis sum.exhaust)
  from rs obtain h body sz where r: "rs = h # body" "h \<noteq> zero_record" "header_kind h \<noteq> ''g'' \<and> header_kind h \<notin> set ext_kinds"
    "record_size h = Inr sz" "1 + (sz + 511) div 512 = int (length rs)" by (rule run_of_cases)
  let ?k = "int (length pre) + int (length (concat exts))"
  let ?s = "s\<lparr>w_at := ?k, w_pending := ext_spans (int (length pre)) exts\<rparr>"
  let ?u = "?s\<lparr>w_at := ?k + int (length rs), w_seen := True, w_pending := []\<rparr>"
  let ?t = "if n = d then ?u\<lparr>w_found := w_found s + 1,
    w_drops := w_drops s @ concat (map (\<lambda>(at, span, _). span_range at span) (ext_spans (int (length pre)) exts)) @ span_range ?k (int (length rs))\<rparr> else ?u"
  have "walk d ?recs s = walk d ?recs ?s" using walk_exts [OF exts s(1), of d "rs @ post"] s(2) by simp
  also have "\<dots> = walk d ?recs ?t"
  proof -
    have here: "py_at ?recs ?k = Inr h" using py_at_nth [of "pre @ concat exts" ?k h "body @ post"] by (simp add: r(1))
    have name: "full_name ?recs (ext_spans (int (length pre)) exts) h = Inr n"
      using n full_name_member [of pre exts "rs @ post" h body] by (simp add: r(1))
    have kind: "header_kind h \<noteq> ''g''" "header_kind h \<notin> {''x'', ''L'', ''K''}" using r(3) by (auto simp: ext_kinds_def)
    have more: "\<not> int (length ?recs) \<le> ?k" by (simp add: r(1))
    have "walk_step d ?recs ?s = Inr (Some ?t)"
      unfolding walk_step_def Let_def using here name kind more r(2,4,5) by simp
    then show ?thesis by (subst walk.simps) simp
  qed
  finally have walk: "walk d (pre @ (concat exts @ rs) @ post) s = walk d (pre @ (concat exts @ rs) @ post) ?t" by simp
  have "{int (length pre)..<?k} \<union> {?k..<?k + int (length rs)} = {int (length pre)..<int (length pre) + int (length (concat exts @ rs))}"
    by (subst ivl_disj_un_two(3)) auto
  then have "walk_after d s (Member_Entry exts rs) ?t"
    using n s unfolding walk_after_def by (simp add: set_span_range ext_spans_cover del: set_concat)
  with walk show ?thesis by blast
qed

lemma walk_entry:
  assumes "entry_ok e" and "w_at s = int (length pre)" and "w_pending s = []"
  shows "\<exists>t. walk d (pre @ entry_records e @ post) s = walk d (pre @ entry_records e @ post) t \<and> walk_after d s e t"
  using assms walk_global walk_member by (cases e) auto

lemma walk_stops:
  assumes "w_at s = int (length pre)" and "tail = [] \<or> hd tail = zero_record"
  shows "walk d (pre @ tail) s = Some (Inr s)"
proof -
  have "walk_step d (pre @ tail) s = Inr None"
    using assms by (cases tail) (auto simp: walk_step_def Let_def py_at_nth)
  then show ?thesis by (subst walk.simps) simp
qed

lemma walk_archive:
  assumes "list_all entry_ok es" and "w_at s = int (length pre)" and "w_pending s = []"
    and "tail = [] \<or> hd tail = zero_record"
  shows "\<exists>t. walk d (pre @ concat (map entry_records es) @ tail) s = Some (Inr t) \<and>
    w_found t = w_found s + length (filter (is_entry d) es) \<and>
    set (w_drops t) = set (w_drops s) \<union> drop_set d (w_seen s) (int (length pre)) es"
  using assms(1-3)
proof (induction es arbitrary: pre s)
  case Nil
  with assms(4) show ?case using walk_stops [of s pre tail d] by simp
next
  case (Cons e es)
  from Cons.prems have "entry_ok e" by simp
  from walk_entry [OF this Cons.prems(2,3), of d "concat (map entry_records es) @ tail"]
  obtain t where t: "walk d (pre @ entry_records e @ concat (map entry_records es) @ tail) s =
      walk d (pre @ entry_records e @ concat (map entry_records es) @ tail) t" "walk_after d s e t" by blast
  have "\<exists>u. walk d ((pre @ entry_records e) @ concat (map entry_records es) @ tail) t = Some (Inr u) \<and>
      w_found u = w_found t + length (filter (is_entry d) es) \<and>
      set (w_drops u) = set (w_drops t) \<union> drop_set d (w_seen t) (int (length (pre @ entry_records e))) es"
    by (rule Cons.IH) (use Cons.prems t(2) in \<open>simp_all add: walk_after_def\<close>)
  then obtain u where u: "walk d (pre @ entry_records e @ concat (map entry_records es) @ tail) t = Some (Inr u)"
      "w_found u = w_found t + length (filter (is_entry d) es)"
      "set (w_drops u) = set (w_drops t) \<union> drop_set d (w_seen t) (int (length pre) + int (length (entry_records e))) es" by auto
  show ?case
    using t u Cons.prems(2) by (intro exI [of _ u]) (auto simp: walk_after_def)
qed

subsection \<open>What is left\<close>

definition keep_from :: "nat \<Rightarrow> int set \<Rightarrow> 'a list \<Rightarrow> 'a list" where
  "keep_from k D xs = map snd (filter (\<lambda>(i, _). int i \<notin> D) (enumerate k xs))"

lemma keep_from_append: "keep_from k D (xs @ ys) = keep_from k D xs @ keep_from (k + length xs) D ys"
  by (simp add: keep_from_def enumerate_append_eq)

lemma keep_from_cong:
  assumes "\<And>i. k \<le> i \<Longrightarrow> i < k + length xs \<Longrightarrow> int i \<in> D \<longleftrightarrow> int i \<in> E"
  shows "keep_from k D xs = keep_from k E xs"
  using assms unfolding keep_from_def by (intro arg_cong [where f = "map snd"] filter_cong) (auto simp: in_set_enumerate_eq)

lemma keep_from_none [simp]: "keep_from k {} xs = xs"
  by (simp add: keep_from_def filter_True case_prod_beta)

lemma keep_from_all: "(\<And>i. k \<le> i \<Longrightarrow> i < k + length xs \<Longrightarrow> int i \<in> D) \<Longrightarrow> keep_from k D xs = []"
  by (auto simp: keep_from_def filter_empty_conv in_set_enumerate_eq)

lemma drop_set_from: "i \<in> drop_set d seen k es \<Longrightarrow> k \<le> i"
  by (induction es arbitrary: seen k) (fastforce split: if_splits)+

lemma drop_set_below: "i \<in> drop_set d seen k es \<Longrightarrow> i < k + int (length (concat (map entry_records es)))"
  by (induction es arbitrary: seen k) (fastforce split: if_splits)+

lemma keep_entries:
  "keep_from k (drop_set d seen (int k) es) (concat (map entry_records es)) = concat (map entry_records (without d seen es))"
proof (induction es arbitrary: k seen)
  case (Cons e es)
  let ?n = "k + length (entry_records e)" and ?here = "(\<not> seen \<and> \<not> is_member e) \<or> is_entry d e"
  have later: "drop_set d (seen \<or> is_member e) (int ?n) es \<inter> {..<int ?n} = {}" by (auto dest: drop_set_from)
  have here: "keep_from k (drop_set d seen (int k) (e # es)) (entry_records e) = (if ?here then [] else entry_records e)"
  proof (cases ?here)
    case True
    then show ?thesis by (auto intro!: keep_from_all)
  next
    case False
    have "keep_from k (drop_set d seen (int k) (e # es)) (entry_records e) = keep_from k {} (entry_records e)"
      using False later by (intro keep_from_cong) fastforce
    then show ?thesis unfolding if_not_P [OF False] keep_from_none .
  qed
  have "keep_from ?n (drop_set d seen (int k) (e # es)) (concat (map entry_records es)) =
      keep_from ?n (drop_set d (seen \<or> is_member e) (int ?n) es) (concat (map entry_records es))"
    by (intro keep_from_cong) auto
  also have "\<dots> = concat (map entry_records (without d (seen \<or> is_member e) es))" by (rule Cons.IH)
  finally show ?case using here by (simp add: keep_from_append)
qed simp

lemma kept_archive:
  "set D = drop_set d False 0 es \<Longrightarrow>
    kept_records D (concat (map entry_records es) @ tail) = concat (map entry_records (without d False es)) @ tail"
proof -
  assume D: "set D = drop_set d False 0 es"
  let ?n = "length (concat (map entry_records es))"
  have "kept_records D (concat (map entry_records es) @ tail) =
      keep_from 0 (set D) (concat (map entry_records es)) @ keep_from ?n (set D) tail"
    by (simp add: kept_records_def keep_from_def enumerate_append_eq)
  moreover have "keep_from ?n (set D) tail = keep_from ?n {} tail"
    using D by (intro keep_from_cong) (auto dest: drop_set_below)
  ultimately show ?thesis using D keep_entries [of 0 d False es] by simp
qed

lemma chunks_of_records: "list_all (\<lambda>r. length r = n) rs \<Longrightarrow> 0 < n \<Longrightarrow> chunks_of n (concat rs) = rs"
proof (induction rs)
  case (Cons r rs)
  then have "r \<noteq> []" by auto
  with Cons show ?case by (subst chunks_of.simps) simp
qed simp

text \<open>
  C15: on a well-formed archive the walk over freerdp's records ends, and what is compressed is the archive
  byte for byte without its leading global headers and without the one file whose license is not allowed,
  its extension headers included; an archive with no such file, or several, is refused.
\<close>

theorem freerdp_drops_one:
  assumes "a_gunzip a archive = Inr (concat (concat (map entry_records es) @ tail))"
    and "list_all entry_ok es" and "tail = [] \<or> hd tail = zero_record"
    and "list_all (\<lambda>r. length r = 512) (concat (map entry_records es) @ tail)"
  shows "freerdp_transform a archive v = Some (
    let found = length (filter (is_entry (freerdp_doomed v)) es) in
    if found \<noteq> 1
    then Inl (RuntimeError (concat [''expected exactly one '', freerdp_doomed v, '' member, found '', show_nat found]))
    else gzip_out a (concat (concat (map entry_records (without (freerdp_doomed v) False es)) @ tail)))"
proof -
  let ?recs = "concat (map entry_records es) @ tail"
  have chunks: "chunks_of 512 (concat ?recs) = ?recs" by (rule chunks_of_records [OF assms(4)]) simp
  obtain t where "walk (freerdp_doomed v) ?recs walk_start = Some (Inr t)"
    "w_found t = length (filter (is_entry (freerdp_doomed v)) es)"
    "set (w_drops t) = drop_set (freerdp_doomed v) False 0 es"
    using walk_archive [OF assms(2) _ _ assms(3), of walk_start "[]" "freerdp_doomed v"] by (auto simp: walk_start_def)
  then show ?thesis
    unfolding freerdp_transform_def assms(1) sum.case Let_def chunks by (simp add: kept_archive)
qed

definition sample_header :: "string \<Rightarrow> string \<Rightarrow> string \<Rightarrow> string" where
  "sample_header name octal kind =
     (let front = name @ replicate (124 - length name) nul @ octal in
      front @ replicate (156 - length front) nul @ kind @ replicate 355 nul)"

definition sample_entries :: "tar_entry list" where
  "sample_entries = [Global_Ext [sample_header ''pax'' ''4'' ''g'', replicate 512 CHR ''c''],
     Member_Entry [] [sample_header ''FreeRDP-1/'' ''0'' ''5''],
     Member_Entry [[sample_header ''long'' ''54'' ''L'', freerdp_doomed ''1'' @ replicate 466 nul]]
       [sample_header ''short'' ''1'' ''0'', replicate 512 CHR ''u''],
     Member_Entry [] [sample_header ''FreeRDP-1/a.c'' ''0'' ''0'']]"

theorem freerdp_drops_one_witness:
  "freerdp_transform ((sample_archiver [])\<lparr>a_gunzip := (\<lambda>_. Inr (concat (concat (map entry_records sample_entries) @ [zero_record])))\<rparr>) [] ''1'' =
    Some (Inr (concat [sample_header ''FreeRDP-1/'' ''0'' ''5'', sample_header ''FreeRDP-1/a.c'' ''0'' ''0'', zero_record]))"
proof -
  let ?a = "(sample_archiver [])\<lparr>a_gunzip := (\<lambda>_. Inr (concat (concat (map entry_records sample_entries) @ [zero_record])))\<rparr>"
  have "freerdp_transform ?a [] ''1'' = Some (
    let found = length (filter (is_entry (freerdp_doomed ''1'')) sample_entries) in
    if found \<noteq> 1
    then Inl (RuntimeError (concat [''expected exactly one '', freerdp_doomed ''1'', '' member, found '', show_nat found]))
    else gzip_out ?a (concat (concat (map entry_records (without (freerdp_doomed ''1'') False sample_entries)) @ [zero_record])))"
  proof (rule freerdp_drops_one)
    show "list_all entry_ok sample_entries" by code_simp
    show "list_all (\<lambda>r. length r = 512) (concat (map entry_records sample_entries) @ [zero_record])" by code_simp
  qed simp_all
  moreover have "length (filter (is_entry (freerdp_doomed ''1'')) sample_entries) = 1" by code_simp
  moreover have "concat (map entry_records (without (freerdp_doomed ''1'') False sample_entries)) =
      [sample_header ''FreeRDP-1/'' ''0'' ''5'', sample_header ''FreeRDP-1/a.c'' ''0'' ''0'']" by code_simp
  ultimately show ?thesis by (simp add: gzip_out_def sample_archiver_def)
qed

text \<open>A header whose size field is a negative number can keep the walk where it is.\<close>

lemma walk_stays:
  assumes "walk_step d records s = Inr (Some s)"
  shows "walk d records s = None"
proof -
  have "t \<noteq> s" if "walk d records t = Some r" for t r
    using that
  proof (rule walk.raw_induct [where P = "\<lambda>e rs t r. e = d \<longrightarrow> rs = records \<longrightarrow> t \<noteq> s", rule_format, rotated])
    fix walk' e rs t r
    assume IH: "\<And>e rs t r. walk' e rs t = Some r \<Longrightarrow> e = d \<Longrightarrow> rs = records \<Longrightarrow> t \<noteq> s"
      and run: "(case walk_step e rs t of Inl e \<Rightarrow> Some (Inl e) | Inr None \<Rightarrow> Some (Inr t) | Inr (Some t) \<Rightarrow> walk' e rs t) = Some r"
      and here: "e = d" "rs = records"
    show "t \<noteq> s"
    proof
      assume "t = s"
      with run here assms have "walk' d records s = Some r" by simp
      with IH show False by blast
    qed
  qed simp_all
  then show ?thesis by (cases "walk d records s") auto
qed

lemma freerdp_loops:
  "freerdp_transform ((sample_archiver [])\<lparr>a_gunzip := (\<lambda>_. Inr (sample_header ''x'' ''-1000'' ''0''))\<rparr>) [] ''1'' = None"
proof -
  let ?h = "sample_header ''x'' ''-1000'' ''0''" and ?d = "freerdp_doomed ''1''"
  let ?s = "walk_start\<lparr>w_seen := True\<rparr>"
  have one: "chunks_of 512 ?h = [?h]" using chunks_of_records [of 512 "[?h]"] by (simp add: sample_header_def)
  have "walk_step ?d [?h] walk_start = Inr (Some ?s)" and stay: "walk_step ?d [?h] ?s = Inr (Some ?s)" by code_simp+
  then have "walk ?d [?h] walk_start = walk ?d [?h] ?s" by (subst walk.simps) simp
  also have "\<dots> = None" by (rule walk_stays [OF stay])
  finally show ?thesis by (simp add: freerdp_transform_def one)
qed

end
