(* ===== verification/Vendored_Crates.thy ===== *)
theory Vendored_Crates
  imports Tar_Records
begin

section \<open>Vendored Rust crates (\<open>generated_sources.py\<close>)\<close>

text \<open>
  The crates a \<open>Cargo.lock\<close> pins, the directory \<open>cargo vendor --versioned-dirs\<close> makes of one, and the two
  archives that get a \<open>vendor/\<close> tree. A crate is unpacked only when its bytes have the SHA-256 of the
  lock; the checksum file written beside its files is what a directory source verifies.
\<close>

subsection \<open>The lock\<close>

record crate =
  c_name :: string
  c_version :: string
  c_checksum :: string

definition crates_io_index :: string where
  "crates_io_index = ''registry+https://github.com/rust-lang/crates.io-index''"

definition crate_url :: "crate \<Rightarrow> string" where
  "crate_url c = concat [''https://static.crates.io/crates/'', c_name c, ''/'', c_name c, ''-'', c_version c, ''.crate'']"

text \<open>\<open>f"{package['name']} {package['version']}"\<close>.\<close>

definition crate_label :: "json \<Rightarrow> string result" where
  "crate_label p = bind_r (bind_r (item p ''name'') py_str) (\<lambda>n.
     bind_r (bind_r (item p ''version'') py_str) (\<lambda>v. Inr (concat [n, '' '', v])))"

definition crate_of :: "json \<Rightarrow> crate option result" where
  "crate_of p = bind_r (get_or p ''source'' JNull) (\<lambda>source.
     if source = JNull then Inr None
     else if \<not> py_eq source (JStr crates_io_index) then
       bind_r (crate_label p) (\<lambda>l. bind_r (py_str source) (\<lambda>s.
         Inl (RuntimeError (concat [l, '' comes from '', s, '', not crates.io'']))))
     else bind_r (get_or p ''checksum'' JNull) (\<lambda>sum.
       if \<not> truthy sum then bind_r (crate_label p) (\<lambda>l. Inl (RuntimeError (l @ '' has no checksum in Cargo.lock'')))
       else bind_r (bind_r (item p ''name'') as_text) (\<lambda>n.
         bind_r (bind_r (item p ''version'') as_text) (\<lambda>v.
         bind_r (as_text sum) (\<lambda>h. Inr (Some \<lparr>c_name = n, c_version = v, c_checksum = h\<rparr>))))))"

definition cargo_lock_packages :: "'a archiver_scheme \<Rightarrow> string \<Rightarrow> crate list result" where
  "cargo_lock_packages a lock_text =
     bind_r (a_toml a lock_text) (\<lambda>doc. bind_r (bind_r (get_or doc ''package'' (JList [])) iterate) (\<lambda>ps.
       bind_r (map_r crate_of ps) (\<lambda>cs. Inr (sort_key (\<lambda>c. (c_name c, c_version c)) (List.map_filter id cs)))))"

subsection \<open>One crate\<close>

definition new_member :: "string \<Rightarrow> tar_kind \<Rightarrow> nat \<Rightarrow> int \<Rightarrow> string \<Rightarrow> tar_member" where
  "new_member name kind mode mtime bytes = \<lparr>t_name = name, t_kind = kind, t_mode = mode, t_uid = 0, t_gid = 0,
     t_uname = [], t_gname = [], t_mtime = mtime, t_pax = [], t_data = bytes\<rparr>"

definition mode_755 :: nat where
  "mode_755 = 493"

definition mode_644 :: nat where
  "mode_644 = 420"

text \<open>\<open>mode & 0o111\<close>.\<close>

definition any_execute :: "nat \<Rightarrow> bool" where
  "any_execute mode = (odd mode \<or> odd (mode div 8) \<or> odd (mode div 64))"

definition checksum_file :: string where
  "checksum_file = ''.cargo-checksum.json''"

definition crate_dir :: "crate \<Rightarrow> string" where
  "crate_dir c = concat [c_name c, ''-'', c_version c]"

type_synonym crate_files = "(string, string) dict \<times> string list"

definition take_member :: "string \<Rightarrow> tar_member \<Rightarrow> crate_files \<Rightarrow> crate_files result" where
  "take_member dir m s =
     (if t_kind m \<noteq> Tar_File then Inr s
      else if \<not> starts_with (dir @ ''/'') (t_name m)
        then Inl (RuntimeError (concat [''crate '', dir, '' has a member outside its directory: '', t_name m]))
      else let relative = drop (length dir + 1) (t_name m) in
        if relative = checksum_file then Inr s
        else Inr (AList.update relative (t_data m) (fst s),
                  if any_execute (t_mode m) then set_add relative (snd s) else snd s))"

definition crate_contents :: "'a archiver_scheme \<Rightarrow> crate \<Rightarrow> string \<Rightarrow> crate_files result" where
  "crate_contents a c payload =
     (let actual = a_sha256 a payload in
      if actual \<noteq> c_checksum c then Inl (RuntimeError (concat [''crate '', c_name c, '' '', c_version c,
        '': expected sha256 '', c_checksum c, '', got '', actual]))
      else bind_r (tar_open a_gunzip a payload) (\<lambda>ms. fold_r (take_member (crate_dir c)) ms ([], [])))"

definition checksum_value :: "'a archiver_scheme \<Rightarrow> crate \<Rightarrow> (string, string) dict \<Rightarrow> json" where
  "checksum_value a c contents = JObj [(''files'', JObj (map (\<lambda>(n, d). (n, JStr (a_sha256 a d))) (sort_key fst contents))),
     (''package'', JStr (c_checksum c))]"

definition parent_dirs :: "string \<Rightarrow> string list" where
  "parent_dirs relative = (let parts = butlast (split_on CHR ''/'' relative) in
     map (\<lambda>i. join ''/'' (take i parts)) [1..<length parts + 1])"

definition vendored_members :: "'a archiver_scheme \<Rightarrow> crate \<Rightarrow> string \<Rightarrow> string \<Rightarrow> int \<Rightarrow> tar_member list result" where
  "vendored_members a c payload prefix mtime =
     bind_r (crate_contents a c payload) (\<lambda>(contents, executable).
       let directory = concat [prefix, ''/'', crate_dir c];
           all = AList.update checksum_file (dumps_canonical (checksum_value a c contents)) contents;
           dirs = sorted_set (directory # concat (map (\<lambda>(r, _). map (\<lambda>d. concat [directory, ''/'', d]) (parent_dirs r)) all)) in
       Inr (map (\<lambda>d. new_member d Tar_Dir mode_755 mtime []) dirs @
            map (\<lambda>(r, d). new_member (concat [directory, ''/'', r]) Tar_File
                   (if r \<in> set executable then mode_755 else mode_644) mtime d) (sort_key fst all)))"

subsection \<open>The two archives\<close>

definition member_text :: "tar_member \<Rightarrow> string result" where
  "member_text m = (case t_kind m of Tar_File \<Rightarrow> ascii_text (t_data m) | Tar_Link _ \<Rightarrow> Inl Unmodelled | _ \<Rightarrow> Inl AttributeError)"

text \<open>\<open>TarFile.getmember\<close>: the last member of the name.\<close>

definition get_member :: "string \<Rightarrow> tar_member list \<Rightarrow> tar_member result" where
  "get_member name ms = (case filter (\<lambda>m. t_name m = name) (rev ms) of [] \<Rightarrow> Inl KeyError | m # _ \<Rightarrow> Inr m)"

definition first_member :: "string \<Rightarrow> tar_member list \<Rightarrow> tar_member result" where
  "first_member name ms = (case filter (\<lambda>m. t_name m = name) ms of [] \<Rightarrow> Inl StopIteration | m # _ \<Rightarrow> Inr m)"

type_synonym crate_bytes = "(string \<times> string, string) dict"

definition vendor_tree :: "'a archiver_scheme \<Rightarrow> string \<Rightarrow> string \<Rightarrow> int \<Rightarrow> crate_bytes \<Rightarrow> tar_member list result" where
  "vendor_tree a lock_text prefix mtime crates =
     bind_r (cargo_lock_packages a lock_text) (\<lambda>cs.
     bind_r (map_r (\<lambda>c. bind_r (dict_index crates (c_name c, c_version c)) (\<lambda>payload.
       vendored_members a c payload prefix mtime)) cs) (\<lambda>mss.
     Inr (new_member prefix Tar_Dir mode_755 mtime [] # concat mss)))"

definition sdist_member :: "string \<Rightarrow> string \<Rightarrow> (tar_member \<Rightarrow> tar_member) \<Rightarrow> tar_member \<Rightarrow> tar_member result" where
  "sdist_member what dir f m =
     (if t_name m = dir \<or> starts_with (dir @ ''/'') (t_name m) then Inr (f ((zero_owner m)\<lparr>t_pax := []\<rparr>))
      else Inl (RuntimeError (concat [what, '' member outside '', dir, '': '', t_name m])))"

definition pydantic_transform :: "'a archiver_scheme \<Rightarrow> string \<Rightarrow> string \<Rightarrow> crate_bytes \<Rightarrow> string result" where
  "pydantic_transform a sdist version crates =
     (let dir = ''pydantic_core-'' @ version in
      bind_r (tar_open a_gunzip a sdist) (\<lambda>read.
      let ms = sort_key t_name read in
      bind_r (first_member (dir @ ''/Cargo.lock'') ms) (\<lambda>lock_member.
      bind_r (member_text lock_member) (\<lambda>lock_text.
      bind_r (map_r (sdist_member ''sdist'' dir id) ms) (\<lambda>own.
      bind_r (vendor_tree a lock_text (dir @ ''/vendor'') (t_mtime lock_member) crates) (\<lambda>vendored.
      Inr (xz_stream a [a_write a (own @ vendored)])))))))"

definition prefixdevname_transform :: "'a archiver_scheme \<Rightarrow> string \<Rightarrow> string \<Rightarrow> crate_bytes \<Rightarrow> string result" where
  "prefixdevname_transform a source version crates =
     (let dir = ''prefixdevname-'' @ version in
      bind_r (tar_open a_gunzip a source) (\<lambda>read.
      bind_r (get_member (dir @ ''/Cargo.lock'') read) (\<lambda>lock_member.
      bind_r (member_text lock_member) (\<lambda>lock_text.
      bind_r (map_r (sdist_member ''archive'' dir (\<lambda>m. m\<lparr>t_mtime := 0\<rparr>)) (by_name read)) (\<lambda>own.
      bind_r (vendor_tree a lock_text (dir @ ''/vendor'') 0 crates) (\<lambda>vendored.
      Inr (xz_stream a [a_write a (own @ vendored)])))))))"

subsection \<open>Paths and their directories\<close>

lemma join_append: "xs \<noteq> [] \<Longrightarrow> ys \<noteq> [] \<Longrightarrow> join sep (xs @ ys) = join sep xs @ sep @ join sep ys"
proof (induction sep xs rule: join.induct)
  case (2 sep s)
  then show ?case by (cases ys) simp_all
qed simp_all

lemma join_split_on [simp]: "join [c] (split_on c s) = s"
proof (induction s)
  case (Cons x s)
  then show ?case by (cases "split_on c s" rule: list.exhaust; cases "tl (split_on c s)") (auto split: list.splits)
qed simp

lemma split_on_both: "split_on c (a @ c # b) = split_on c a @ split_on c b"
  by (induction a) (auto split: list.splits)

lemma parent_dirs_iff: "x \<in> set (parent_dirs r) \<longleftrightarrow> (\<exists>q. r = x @ CHR ''/'' # q)"
proof
  assume "x \<in> set (parent_dirs r)"
  then obtain i where i: "1 \<le> i" "i \<le> length (butlast (split_on CHR ''/'' r))" "x = join ''/'' (take i (butlast (split_on CHR ''/'' r)))"
    unfolding parent_dirs_def Let_def set_map set_upt by auto
  then have x: "x = join ''/'' (take i (split_on CHR ''/'' r))" by (simp add: take_butlast)
  have "join ''/'' (take i (split_on CHR ''/'' r) @ drop i (split_on CHR ''/'' r)) = x @ ''/'' @ join ''/'' (drop i (split_on CHR ''/'' r))"
    unfolding x by (rule join_append) (use i in auto)
  then show "\<exists>q. r = x @ CHR ''/'' # q" by auto
next
  assume "\<exists>q. r = x @ CHR ''/'' # q"
  then obtain q where r: "r = x @ CHR ''/'' # q" ..
  let ?i = "length (split_on CHR ''/'' x)"
  have parts: "butlast (split_on CHR ''/'' r) = split_on CHR ''/'' x @ butlast (split_on CHR ''/'' q)"
    unfolding r split_on_both by (simp add: butlast_append)
  have "0 < ?i" by simp
  then have "?i \<in> set [1..<length (butlast (split_on CHR ''/'' r)) + 1]"
    unfolding parts set_upt atLeastLessThan_iff length_append by linarith
  moreover have "join ''/'' (take ?i (butlast (split_on CHR ''/'' r))) = x" unfolding parts by simp
  ultimately show "x \<in> set (parent_dirs r)" unfolding parent_dirs_def Let_def set_map by (rule rev_image_eqI [OF _ sym])
qed

subsection \<open>What a vendored crate holds\<close>

text \<open>The files of the crate that are vendored, in the order its archive lists them.\<close>

definition crate_pairs :: "string \<Rightarrow> tar_member list \<Rightarrow> (string \<times> string) list" where
  "crate_pairs dir ms = filter (\<lambda>(r, _). r \<noteq> checksum_file)
     (map (\<lambda>m. (drop (length dir + 1) (t_name m), t_data m)) (filter (\<lambda>m. t_kind m = Tar_File) ms))"

lemma take_members:
  "fold_r (take_member dir) ms s = Inr s' \<Longrightarrow> fst s' = fold (\<lambda>(k, v). AList.update k v) (crate_pairs dir ms) (fst s)"
proof (induction ms arbitrary: s)
  case (Cons m ms)
  then obtain t where t: "take_member dir m s = Inr t" "fst s' = fold (\<lambda>(k, v). AList.update k v) (crate_pairs dir ms) (fst t)"
    by (auto simp: bind_r_Inr)
  from t(1) have "fst t = fold (\<lambda>(k, v). AList.update k v) (crate_pairs dir [m]) (fst s)"
    by (auto simp: take_member_def crate_pairs_def Let_def split: if_splits)
  with t(2) show ?case by (simp add: crate_pairs_def)
qed (simp add: crate_pairs_def)

lemma crate_contents_Inr:
  assumes "crate_contents a c payload = Inr (contents, executable)" and "tar_open a_gunzip a payload = Inr ms"
  shows "a_sha256 a payload = c_checksum c" and "contents = dict_of_pairs (crate_pairs (crate_dir c) ms)"
  using assms take_members [of "crate_dir c" ms "([], [])"]
  by (auto simp: crate_contents_def Let_def dict_of_pairs_def split: if_splits)

lemma no_checksum_file: "checksum_file \<notin> fst ` set (crate_pairs dir ms)"
  by (auto simp: crate_pairs_def)

text \<open>The files below a directory of an archive.\<close>

definition files_below :: "string \<Rightarrow> tar_member list \<Rightarrow> (string, string) dict" where
  "files_below directory ms = map (\<lambda>m. (drop (length directory + 1) (t_name m), t_data m))
     (filter (\<lambda>m. t_kind m = Tar_File \<and> starts_with (directory @ ''/'') (t_name m)) ms)"

text \<open>What cargo demands of a directory source: a checksum file that names the package's checksum and
  lists every file with the SHA-256 it has, and no other.\<close>

definition cargo_verifies :: "'a archiver_scheme \<Rightarrow> crate \<Rightarrow> (string, string) dict \<Rightarrow> bool" where
  "cargo_verifies a c files \<longleftrightarrow> (\<exists>hs. map_of files checksum_file =
       Some (dumps_canonical (JObj [(''files'', JObj hs), (''package'', JStr (c_checksum c))])) \<and>
     (\<forall>n. map_of hs n = (if n = checksum_file then None else map_option (\<lambda>d. JStr (a_sha256 a d)) (map_of files n))))"

lemma map_of_sort_key: "distinct (map fst d) \<Longrightarrow> map_of (sort_key fst d) = map_of d"
  by (intro map_of_inject_set [THEN iffD2]) (simp_all add: distinct_map)

lemma map_of_map_snd: "map_of (map (\<lambda>(n, d). (n, f d)) xs) n = map_option f (map_of xs n)"
  by (induction xs) auto

lemma files_below_vendored:
  "files_below directory (map (\<lambda>d. new_member d Tar_Dir m t []) dirs @
      map (\<lambda>(r, d). new_member (concat [directory, ''/'', r]) Tar_File (mode r) t d) xs) = xs"
proof -
  have dirs: "filter (\<lambda>m. t_kind m = Tar_File \<and> starts_with (directory @ ''/'') (t_name m)) (map (\<lambda>d. new_member d Tar_Dir m t []) dirs) = []"
    by (induction dirs) (simp_all add: new_member_def)
  have files: "filter (\<lambda>m. t_kind m = Tar_File \<and> starts_with (directory @ ''/'') (t_name m))
      (map (\<lambda>(r, d). new_member (concat [directory, ''/'', r]) Tar_File (mode r) t d) xs) =
    map (\<lambda>(r, d). new_member (concat [directory, ''/'', r]) Tar_File (mode r) t d) xs"
    using starts_with_append [of "directory @ ''/''"] by (induction xs) (auto simp: new_member_def)
  show ?thesis unfolding files_below_def filter_append dirs files by (simp add: new_member_def comp_def case_prod_beta)
qed

text \<open>
  C31: a crate is unpacked only when its bytes have the SHA-256 \<open>Cargo.lock\<close> names; its directory then holds
  exactly the crate's own files, each as the crate's archive has it, and a checksum file with which cargo
  accepts the directory; and every directory on the way to a member is a member before it is needed.
\<close>

theorem vendored_crate:
  assumes made: "vendored_members a c payload prefix mtime = Inr out" and read: "tar_open a_gunzip a payload = Inr ms"
  shows "a_sha256 a payload = c_checksum c \<and>
    cargo_verifies a c (files_below (concat [prefix, ''/'', crate_dir c]) out) \<and>
    (\<forall>n. n = checksum_file \<or> map_of (files_below (concat [prefix, ''/'', crate_dir c]) out) n = map_of (rev (crate_pairs (crate_dir c) ms)) n) \<and>
    (\<forall>p q. (\<exists>m \<in> set out. t_name m = p @ CHR ''/'' # q) \<and> at_or_below (concat [prefix, ''/'', crate_dir c]) p
      \<longrightarrow> (\<exists>d \<in> set out. t_kind d = Tar_Dir \<and> t_name d = p))"
proof -
  define directory where "directory = concat [prefix, ''/'', crate_dir c]"
  from made obtain contents executable where contents: "crate_contents a c payload = Inr (contents, executable)"
    by (auto simp: vendored_members_def bind_r_Inr)
  note sha = crate_contents_Inr [OF contents read]
  define all_files where "all_files = AList.update checksum_file (dumps_canonical (checksum_value a c contents)) contents"
  define dirs where "dirs = sorted_set (directory # concat (map (\<lambda>(r, _). map (\<lambda>d. concat [directory, ''/'', d]) (parent_dirs r)) all_files))"
  have out: "out = map (\<lambda>d. new_member d Tar_Dir mode_755 mtime []) dirs @
      map (\<lambda>(r, d). new_member (concat [directory, ''/'', r]) Tar_File (if r \<in> set executable then mode_755 else mode_644) mtime d)
        (sort_key fst all_files)"
    using made contents unfolding vendored_members_def by (simp add: Let_def all_files_def directory_def dirs_def)
  have keys: "distinct (map fst contents)" "checksum_file \<notin> fst ` set contents"
    using no_checksum_file [of "crate_dir c" ms] by (simp_all add: sha(2))
  then have all_keys: "distinct (map fst all_files)" by (simp add: all_files_def)
  have below: "files_below directory out = sort_key fst all_files" unfolding out by (rule files_below_vendored)
  have look: "map_of (files_below directory out) n = map_of all_files n" for n
    unfolding below by (simp add: map_of_sort_key [OF all_keys])
  have none: "map_of contents checksum_file = None" using keys(2) by (simp add: map_of_eq_None_iff)
  have verifies: "cargo_verifies a c (files_below directory out)"
  proof -
    let ?hs = "map (\<lambda>(n, d). (n, JStr (a_sha256 a d))) (sort_key fst contents)"
    have canon: "canonical (checksum_value a c contents) = canonical (JObj [(''files'', JObj ?hs), (''package'', JStr (c_checksum c))])"
      by (simp only: checksum_value_def)
    have "map_of ?hs n = (if n = checksum_file then None else map_option (\<lambda>d. JStr (a_sha256 a d)) (map_of (files_below directory out) n))" for n
      unfolding look map_of_map_snd map_of_sort_key [OF keys(1)] by (simp add: all_files_def none)
    moreover have "map_of (files_below directory out) checksum_file =
        Some (dumps_canonical (JObj [(''files'', JObj ?hs), (''package'', JStr (c_checksum c))]))"
      unfolding look by (simp add: all_files_def checksum_value_def)
    ultimately show ?thesis unfolding cargo_verifies_def by blast
  qed
  have own: "n = checksum_file \<or> map_of (files_below directory out) n = map_of (rev (crate_pairs (crate_dir c) ms)) n" for n
    unfolding look by (auto simp: all_files_def sha(2) map_of_dict_of_pairs)
  have dirs_iff: "p \<in> set dirs \<longleftrightarrow> p = directory \<or> (\<exists>x r. r \<in> fst ` set all_files \<and> x \<in> set (parent_dirs r) \<and> p = directory @ CHR ''/'' # x)" for p
    unfolding dirs_def by force
  have parents: "\<exists>d \<in> set out. t_kind d = Tar_Dir \<and> t_name d = p"
    if m: "m \<in> set out" "t_name m = p @ CHR ''/'' # q" and p: "at_or_below directory p" for m p q
  proof -
    from m(1) have "t_name m \<in> set dirs \<or> (\<exists>r \<in> fst ` set all_files. t_name m = directory @ CHR ''/'' # r)"
      unfolding out by (force simp: new_member_def)
    then have place: "t_name m = directory \<or> (\<exists>r y. r \<in> fst ` set all_files \<and> t_name m = directory @ CHR ''/'' # y \<and>
        (r = y \<or> (\<exists>z. r = y @ CHR ''/'' # z)))"
      unfolding dirs_iff parent_dirs_iff by blast
    from p have "p = directory \<or> (\<exists>x. p = directory @ CHR ''/'' # x)" by (auto simp: at_or_below_def starts_with_iff)
    then have "p \<in> set dirs"
    proof
      assume "\<exists>x. p = directory @ CHR ''/'' # x"
      then obtain x where x: "p = directory @ CHR ''/'' # x" ..
      with m(2) have inside: "t_name m = directory @ CHR ''/'' # x @ CHR ''/'' # q" by simp
      with place obtain r y where r: "r \<in> fst ` set all_files" "y = x @ CHR ''/'' # q" "r = y \<or> (\<exists>z. r = y @ CHR ''/'' # z)" by auto
      from r(2,3) have "\<exists>z. r = x @ CHR ''/'' # z" by auto
      with r(1) x show ?thesis unfolding dirs_iff parent_dirs_iff by blast
    qed (simp add: dirs_iff)
    then show ?thesis unfolding out by (force simp: new_member_def)
  qed
  show ?thesis unfolding directory_def [symmetric] using sha(1) verifies own parents by blast
qed

definition sample_crate :: crate where
  "sample_crate = \<lparr>c_name = ''c'', c_version = ''1'', c_checksum = ''k''\<rparr>"

definition crate_release :: "tar_member list" where
  "crate_release = [sample_member ''c-1/src/lib.rs'' Tar_File ''fn'', sample_member ''c-1/.cargo-checksum.json'' Tar_File ''old'']"

theorem vendored_crate_witness:
  "\<exists>out. vendored_members (sample_archiver crate_release) sample_crate ''k'' ''v'' 0 = Inr out \<and>
     cargo_verifies (sample_archiver crate_release) sample_crate (files_below ''v/c-1'' out) \<and>
     map_of (files_below ''v/c-1'' out) ''src/lib.rs'' = Some ''fn''"
proof -
  have read: "tar_open a_gunzip (sample_archiver crate_release) ''k'' = Inr crate_release"
    by (simp add: tar_open_def sample_archiver_def)
  have "crate_contents (sample_archiver crate_release) sample_crate ''k'' = Inr ([(''src/lib.rs'', ''fn'')], [])" by code_simp
  then obtain out where made: "vendored_members (sample_archiver crate_release) sample_crate ''k'' ''v'' 0 = Inr out"
    by (simp add: vendored_members_def Let_def)
  have dir: "concat [''v'', ''/'', crate_dir sample_crate] = ''v/c-1''" by code_simp
  have pairs: "map_of (rev (crate_pairs (crate_dir sample_crate) crate_release)) ''src/lib.rs'' = Some ''fn''" by code_simp
  have other: "''src/lib.rs'' \<noteq> checksum_file" by (simp add: checksum_file_def)
  note all = vendored_crate [OF made read, unfolded dir]
  from all other pairs have "map_of (files_below ''v/c-1'' out) ''src/lib.rs'' = Some ''fn''" by metis
  with made all show ?thesis by blast
qed

end
