(* ===== verification/Generated_Sources.thy ===== *)
theory Generated_Sources
  imports Vendored_Crates
begin

section \<open>First-party sources made from pinned inputs (\<open>generated_sources.py\<close>)\<close>

text \<open>
  Which archive a generated source is made from, the digests that pin it, the record the source lock gets
  and the run that makes the file. A recipe directory is its files; the network, \<open>git\<close> and \<open>go\<close>
  are arguments (\<open>maker\<close>, which extends \<open>archiver\<close>). A run gives the name and the bytes of the one
  file it writes below the output directory, or none when freerdp's record walk does not end.
\<close>

type_synonym sha_pins = "(string, string) dict"
type_synonym spec_dir = "(string, string) dict"

text \<open>A checkout of tailscale, and a node of its tree after \<open>go mod vendor\<close>; \<open>n_exec\<close> is
  \<open>os.access(path, X_OK)\<close>.\<close>

record checkout =
  k_head :: string
  k_epoch :: string
  k_go_mod :: string

record tree_node =
  n_path :: string
  n_kind :: tar_kind
  n_exec :: bool
  n_data :: string

record maker = archiver +
  g_get :: "string \<Rightarrow> string result"
  g_head :: "string \<Rightarrow> string \<Rightarrow> string result"
  g_archive :: "string \<Rightarrow> string \<Rightarrow> string \<Rightarrow> string result"
  g_has_go :: bool
  g_clone :: "string \<Rightarrow> checkout result"
  g_vendor :: "string \<Rightarrow> checkout \<Rightarrow> tree_node list result"

subsection \<open>The recipe\<close>

definition tag_value :: "string \<Rightarrow> string pattern" where
  "tag_value tag s =
     (let r = lstrip (drop (length tag + 1) s); w = word_at r in
      if starts_with (tag @ '':'') s \<and> w \<noteq> [] then Some (w, drop (length w) r) else None)"

definition global_pair :: "(string \<times> string) pattern" where
  "global_pair s =
     (let t = drop 7 s; a = lstrip t; name = takeWhile word_char a; u = drop (length name) a; b = lstrip u; w = word_at b in
      if starts_with ''%global'' s \<and> a \<noteq> t \<and> name \<noteq> [] \<and> b \<noteq> u \<and> w \<noteq> []
      then Some ((name, w), drop (length w) b) else None)"

definition recipe_macros :: "string \<Rightarrow> (string, string) dict" where
  "recipe_macros s = fold (\<lambda>(t, key) m. case capture (tag_value t) s of None \<Rightarrow> m | Some w \<Rightarrow> AList.update key w m)
     [(''Name'', ''name''), (''Version'', ''version'')] (dict_of_pairs (find_lines global_pair True s))"

definition read_recipe :: "spec_dir \<Rightarrow> string \<Rightarrow> string result" where
  "read_recipe dir f = (case map_of dir f of None \<Rightarrow> Inl (OSError f) | Some s \<Rightarrow> Inr s)"

definition spec_version :: "spec_dir \<Rightarrow> string \<Rightarrow> string result" where
  "spec_version dir spec_name = bind_r (read_recipe dir spec_name) (\<lambda>s.
     case capture (tag_value ''Version'') s of
       None \<Rightarrow> Inl (ValueError (''no Version tag in '' @ spec_name))
     | Some v \<Rightarrow> Inr v)"

subsection \<open>Pinned inputs\<close>

definition imd_pins :: sha_pins where
  "imd_pins = [(''26.2.4'', ''6e01092c06a100279b40ff46afa0c592483edc30e426fe802a79c2fa53b5ba16f952bdb445dfbfbfb7f50ef952727536f08c7eb0b3d06db25521fb9149887494'')]"

definition tailscale_commits :: sha_pins where
  "tailscale_commits = [(''1.98.8'', ''05a91829316e055517a1e84f7b00016846ef4107'')]"

definition gpm_pins :: sha_pins where
  "gpm_pins = [(''1.20.7'', ''a502741e2f457b47e41c6d155b1f7ef7c95384fd394503f82ddacf80cde9cdc286c906c77be12b6af8565ef1c3ab24d226379c1dcebcfcd15d64bcf3e94b63b9'')]"

definition openal_pins :: sha_pins where
  "openal_pins = [(''1.24.2'', ''5ac05fb20b414dfe50e6ac80a69d1e36db5588fd2ccef2606ae1f3b6fc155881d45826031660123101a31469e24bc2bea42993d81b28dd5f18d0d0463988fa65'')]"

definition pydantic_pins :: sha_pins where
  "pydantic_pins = [(''2.46.5'', ''7af13f280d74ab0ded8e9299820930b0257502017f6a688d7d598e72351e127e178db11aeab987decaf95ca8619e151f244392ad9638ea184625728dcbb7cfff'')]"

definition fpaste_pins :: sha_pins where
  "fpaste_pins = [(''0.5.0.0'', ''0337bca5141d8ec99d2b7ea4710c6852f7abd1c8d6481c5051d572e7fdfe7a99f5741ea69fa802a2d514fa0c23eb215357ef6599a27226880e4e272ed0b8b46f'')]"

definition sevenzip_pins :: sha_pins where
  "sevenzip_pins = [(''26.04'', ''3037cdebf29b1a44e123aee3daec168e8b8ec97b58446c1ba1a54aa1b306d48c2f9fb16bb5ad48ec1cd415e6cd035461cb900de7d848a6bc19a21dd077175935'')]"

definition hplip_pins :: sha_pins where
  "hplip_pins = [(''3.26.6'', ''1bebae77c6a71029647e391b743dae1b52b0e4ea7ff4a728fbf592160f9f8607e0196d8045189b1f032654d1e9724de464bf9ad2c79c553c4d6ffe9af7d3c5fa'')]"

definition freerdp_pins :: sha_pins where
  "freerdp_pins = [(''3.32.2'', ''2f036908fc96650fcec0810c05cf7fbad08f7c47a27aa7951b25e4bc1f390eb47223eaeaf622715bf2df6bd056e7f245502a3af57e606fd53d214c121a862a7e'')]"

definition prefixdevname_pins :: sha_pins where
  "prefixdevname_pins = [(''0.2.0'', ''ad2133baace6ac660ad8ee81ad98e5ad6042a20a513465eddb25c0761d84586c109938fdd2fe3682505e7b618f57246395286b7f5230f596374feda4f7c6d168'')]"

definition artwork_files :: "(string, sha_pins) dict" where
  "artwork_files = [(''9ab493bf1fb3ae41594b6bb0a2c5f2350d81de01'', [(''LICENSE'', ''dc6b68d13b8cf959644b935f1192b02c71aa7a5cf653bd43b4480fa89eec8d4d3f16a2278ec8c3b40ab1fdb233b3173a78fd83590d6f739e0c9e8ff56c282557''),
     (''assets/vector/logos/bluefin/bluefin-logo-dark.svg'', ''947ab6e7a24dcabcbef41a2d5f46400c815dbe0199933194e5cf5ffefaf6c547364b9222a60a2fbca01995ac9801778775cd018a93df35ba0442a14394c20ea5''),
     (''assets/vector/logos/bluefin/bluefin-logo-light.svg'', ''97ec4f9a726a836928af9a50c8abeb2123205d6c3b1bdb19c1199d1d1429533510df6f78abd8c12b1d1a24047744c664ac47629298210d1aea8a2f797800b42a'')])]"

text \<open>The pin of a version, the download, and the digest that must be the pin.\<close>

definition fetch_pinned :: "'a maker_scheme \<Rightarrow> string \<Rightarrow> string \<Rightarrow> string \<Rightarrow> string result" where
  "fetch_pinned g what pin url =
     bind_r (g_get g url) (\<lambda>payload.
     let actual = a_sha512 g payload in
     if actual \<noteq> pin then Inl (RuntimeError (concat [''input '', what, '' mismatch for '', url, '': expected '', pin, '', got '', actual]))
     else Inr payload)"

definition pinned_archive :: "'a maker_scheme \<Rightarrow> string \<Rightarrow> sha_pins \<Rightarrow> string \<Rightarrow> string \<Rightarrow> string result" where
  "pinned_archive g what table version url = (case map_of table version of
      None \<Rightarrow> Inl (RuntimeError (concat [''no pinned input SHA-512 for '', what, '' '', version]))
    | Some pin \<Rightarrow> fetch_pinned g ''archive'' pin url)"

type_synonym made = "(string \<times> string) result option"

definition script_path :: string where
  "script_path = ''tools/generated_sources.py''"

definition metadata_record :: "string \<Rightarrow> string \<Rightarrow> string \<Rightarrow> string \<Rightarrow> string \<Rightarrow> json" where
  "metadata_record name version filename input method = JObj [(''name'', JStr name), (''version'', JStr version),
     (''filename'', JStr filename), (''generate'', JObj [(''script'', JStr script_path), (''input'', JStr input),
       (''method'', JStr method)])]"

subsection \<open>Repacked archives\<close>

definition imd_url :: "string \<Rightarrow> string" where
  "imd_url v = concat [''https://github.com/intel/media-driver/archive/intel-media-'', v, ''.tar.gz'']"

definition imd_file :: "string \<Rightarrow> string" where
  "imd_file v = concat [''intel-media-'', v, ''-free.tar.gz'']"

definition imd_metadata :: "spec_dir \<Rightarrow> json result" where
  "imd_metadata dir = bind_r (spec_version dir ''intel-media-driver-free.spec'') (\<lambda>v.
     Inr (metadata_record ''intel-media-driver-free'' v (imd_file v)
       (concat [imd_url v, '' (sha512-pinned)''])
       (concat [''remove non-free EU kernel files from the tag archive (strip.py removal set) and repack deterministically as intel-media-'', v, ''-free.tar.gz''])))"

definition imd_generate :: "'a maker_scheme \<Rightarrow> spec_dir \<Rightarrow> made" where
  "imd_generate g dir = Some (bind_r (spec_version dir ''intel-media-driver-free.spec'') (\<lambda>v.
     bind_r (pinned_archive g ''intel-media'' imd_pins v (imd_url v)) (\<lambda>p.
     bind_r (imd_transform g p v) (\<lambda>b. Inr (imd_file v, b)))))"

definition gpm_url :: "string \<Rightarrow> string" where
  "gpm_url v = concat [''https://www.nico.schottelius.org/software/gpm/archives/gpm-'', v, ''.tar.lzma'']"

definition gpm_file :: "string \<Rightarrow> string" where
  "gpm_file v = concat [''gpm-'', v, ''.tar.xz'']"

definition gpm_metadata :: "spec_dir \<Rightarrow> json result" where
  "gpm_metadata dir = bind_r (spec_version dir ''gpm.spec'') (\<lambda>v.
     Inr (metadata_record ''gpm'' v (gpm_file v)
       (concat [gpm_url v, '' (sha512-pinned)''])
       (concat [''remove doc/specs (unclear licensing, per gpm.spec) from the upstream release and repack deterministically as gpm-'', v, ''.tar.xz''])))"

definition gpm_generate :: "'a maker_scheme \<Rightarrow> spec_dir \<Rightarrow> made" where
  "gpm_generate g dir = Some (bind_r (spec_version dir ''gpm.spec'') (\<lambda>v.
     bind_r (pinned_archive g ''gpm'' gpm_pins v (gpm_url v)) (\<lambda>p.
     bind_r (gpm_transform g p v) (\<lambda>b. Inr (gpm_file v, b)))))"

definition openal_url :: "string \<Rightarrow> string" where
  "openal_url v = concat [''https://openal-soft.org/openal-releases/openal-soft-'', v, ''.tar.bz2'']"

definition openal_file :: "string \<Rightarrow> string" where
  "openal_file v = concat [''openal-soft-'', v, ''-clean.tar.xz'']"

definition openal_metadata :: "spec_dir \<Rightarrow> json result" where
  "openal_metadata dir = bind_r (spec_version dir ''openal-soft.spec'') (\<lambda>v.
     Inr (metadata_record ''openal-soft'' v (openal_file v)
       (concat [openal_url v, '' (sha512-pinned)''])
       (concat [''remove the bundled fmt-*/ tree and utils/*.def datasets (non-free, per make_tarball.sh) from the upstream release and repack deterministically as openal-soft-'', v, ''-clean.tar.xz''])))"

definition openal_generate :: "'a maker_scheme \<Rightarrow> spec_dir \<Rightarrow> made" where
  "openal_generate g dir = Some (bind_r (spec_version dir ''openal-soft.spec'') (\<lambda>v.
     bind_r (pinned_archive g ''openal-soft'' openal_pins v (openal_url v)) (\<lambda>p.
     bind_r (openal_transform g p v) (\<lambda>b. Inr (openal_file v, b)))))"

definition sevenzip_url :: "string \<Rightarrow> string" where
  "sevenzip_url v = concat [''https://github.com/ip7z/7zip/archive/'', v, ''/7zip-'', v, ''.tar.gz'']"

definition sevenzip_file :: "string \<Rightarrow> string" where
  "sevenzip_file v = concat [''7zip-'', v, ''.tar.xz'']"

definition sevenzip_metadata :: "spec_dir \<Rightarrow> json result" where
  "sevenzip_metadata dir = bind_r (spec_version dir ''7zip.spec'') (\<lambda>v.
     Inr (metadata_record ''7zip'' v (sevenzip_file v)
       (concat [sevenzip_url v, '' (sha512-pinned)''])
       (concat [''remove the RAR handler, codecs, crypto and unRarLicense.txt (unRAR license restriction, per strip-rar-support.sh) from the upstream release and repack deterministically as 7zip-'', v, ''.tar.xz''])))"

definition sevenzip_generate :: "'a maker_scheme \<Rightarrow> spec_dir \<Rightarrow> made" where
  "sevenzip_generate g dir = Some (bind_r (spec_version dir ''7zip.spec'') (\<lambda>v.
     bind_r (pinned_archive g ''7zip'' sevenzip_pins v (sevenzip_url v)) (\<lambda>p.
     bind_r (sevenzip_transform g p v) (\<lambda>b. Inr (sevenzip_file v, b)))))"

definition hplip_url :: "string \<Rightarrow> string" where
  "hplip_url v = concat [''https://downloads.sourceforge.net/project/hplip/hplip/'', v, ''/hplip-'', v, ''.tar.gz'']"

definition hplip_file :: "string \<Rightarrow> string" where
  "hplip_file v = concat [''hplip-'', v, ''-repack.tar.gz'']"

definition hplip_metadata :: "spec_dir \<Rightarrow> json result" where
  "hplip_metadata dir = bind_r (spec_version dir ''hplip.spec'') (\<lambda>v.
     Inr (metadata_record ''hplip'' v (hplip_file v)
       (concat [hplip_url v, '' (sha512-pinned)''])
       (concat [''remove locatedriver (license-related, per hplip.spec/hplip-repack.sh) from the upstream release and repack deterministically as hplip-'', v, ''-repack.tar.gz''])))"

definition hplip_generate :: "'a maker_scheme \<Rightarrow> spec_dir \<Rightarrow> made" where
  "hplip_generate g dir = Some (bind_r (spec_version dir ''hplip.spec'') (\<lambda>v.
     bind_r (pinned_archive g ''hplip'' hplip_pins v (hplip_url v)) (\<lambda>p.
     bind_r (hplip_transform g p v) (\<lambda>b. Inr (hplip_file v, b)))))"

definition fpaste_url :: "string \<Rightarrow> string" where
  "fpaste_url v = concat [''https://codeberg.org/sanjay_ankur/fpaste/archive/'', v, ''.tar.gz'']"

definition fpaste_file :: "string \<Rightarrow> string" where
  "fpaste_file v = concat [''fpaste-'', v, ''.tar.gz'']"

definition fpaste_metadata :: "spec_dir \<Rightarrow> json result" where
  "fpaste_metadata dir = bind_r (spec_version dir ''fpaste.spec'') (\<lambda>v.
     Inr (metadata_record ''fpaste'' v (fpaste_file v)
       (concat [fpaste_url v, '' (sha512-pinned)''])
       (concat [''move the Codeberg tag archive from fpaste/ to fpaste-'', v, ''/ without .gitignore (the tree of Fedora'', [CHR 0x27], ''s hand-made tarball; pagure.io, the recipe'', [CHR 0x27], ''s Source0 host, is gone) and repack deterministically as fpaste-'', v, ''.tar.gz''])))"

definition fpaste_generate :: "'a maker_scheme \<Rightarrow> spec_dir \<Rightarrow> made" where
  "fpaste_generate g dir = Some (bind_r (spec_version dir ''fpaste.spec'') (\<lambda>v.
     bind_r (pinned_archive g ''fpaste'' fpaste_pins v (fpaste_url v)) (\<lambda>p.
     bind_r (fpaste_transform g p v) (\<lambda>b. Inr (fpaste_file v, b)))))"

definition freerdp_url :: "string \<Rightarrow> string" where
  "freerdp_url v = concat [''https://github.com/FreeRDP/FreeRDP/archive/'', v, ''/FreeRDP-'', v, ''.tar.gz'']"

definition freerdp_file :: "string \<Rightarrow> string" where
  "freerdp_file v = concat [''FreeRDP-'', v, ''-repack.tar.gz'']"

definition freerdp_metadata :: "spec_dir \<Rightarrow> json result" where
  "freerdp_metadata dir = bind_r (spec_version dir ''freerdp.spec'') (\<lambda>v.
     Inr (metadata_record ''freerdp'' v (freerdp_file v)
       (concat [freerdp_url v, '' (sha512-pinned)''])
       (concat [''remove '', ''winpr/libwinpr/crt/unicode_builtin.c'', '' (license not allowed, per freerdp.spec/freerdp_download_and_repack.sh) from the upstream release and repack deterministically as FreeRDP-'', v, ''-repack.tar.gz''])))"

definition freerdp_generate :: "'a maker_scheme \<Rightarrow> spec_dir \<Rightarrow> made" where
  "freerdp_generate g dir = (case spec_version dir ''freerdp.spec'' of
      Inl e \<Rightarrow> Some (Inl e)
    | Inr v \<Rightarrow> (case pinned_archive g ''freerdp'' freerdp_pins v (freerdp_url v) of
        Inl e \<Rightarrow> Some (Inl e)
      | Inr p \<Rightarrow> map_option (\<lambda>r. bind_r r (\<lambda>b. Inr (freerdp_file v, b))) (freerdp_transform g p v)))"


subsection \<open>Archives with vendored crates\<close>

definition fetch_crates :: "'a maker_scheme \<Rightarrow> string \<Rightarrow> crate_bytes result" where
  "fetch_crates g lock_text = bind_r (cargo_lock_packages g lock_text) (\<lambda>cs.
     bind_r (map_r (\<lambda>c. bind_r (g_get g (crate_url c)) (\<lambda>b. Inr ((c_name c, c_version c), b))) cs) (\<lambda>ps.
       Inr (dict_of_pairs ps)))"

definition lock_of_archive :: "'a maker_scheme \<Rightarrow> string \<Rightarrow> string \<Rightarrow> string result" where
  "lock_of_archive g archive name = bind_r (tar_open a_gunzip g archive) (\<lambda>ms. bind_r (get_member name ms) member_text)"

definition pydantic_url :: "string \<Rightarrow> string" where
  "pydantic_url v = concat [''https://files.pythonhosted.org/packages/source/p/pydantic_core/pydantic_core-'', v, ''.tar.gz'']"

definition pydantic_file :: "string \<Rightarrow> string" where
  "pydantic_file v = concat [''pydantic_core-'', v, ''-vendored.tar.xz'']"

definition pydantic_metadata :: "spec_dir \<Rightarrow> json result" where
  "pydantic_metadata dir = bind_r (spec_version dir ''python-pydantic-core.spec'') (\<lambda>v.
     Inr (metadata_record ''python-pydantic-core'' v (pydantic_file v)
       (pydantic_url v @ '' (sha512-pinned) and every crates.io crate its Cargo.lock pins (sha256-pinned by Cargo.lock)'')
       (concat [''add vendor/<crate>-<version> for each Cargo.lock crate with .cargo-checksum.json, as cargo vendor '',
         ''--versioned-dirs lays it out, and repack deterministically as '', pydantic_file v])))"

definition pydantic_generate :: "'a maker_scheme \<Rightarrow> spec_dir \<Rightarrow> made" where
  "pydantic_generate g dir = Some (bind_r (spec_version dir ''python-pydantic-core.spec'') (\<lambda>v.
     bind_r (pinned_archive g ''pydantic_core'' pydantic_pins v (pydantic_url v)) (\<lambda>sdist.
     bind_r (lock_of_archive g sdist (concat [''pydantic_core-'', v, ''/Cargo.lock''])) (\<lambda>lock_text.
     bind_r (fetch_crates g lock_text) (\<lambda>crates.
     bind_r (pydantic_transform g sdist v crates) (\<lambda>b. Inr (pydantic_file v, b)))))))"

definition prefixdevname_url :: "string \<Rightarrow> string" where
  "prefixdevname_url v = concat [''https://github.com/msekletar/prefixdevname/archive/refs/tags/v'', v, ''.tar.gz'']"

definition prefixdevname_file :: "string \<Rightarrow> string" where
  "prefixdevname_file v = concat [''prefixdevname-'', v, ''-vendored.tar.xz'']"

definition prefixdevname_metadata :: "spec_dir \<Rightarrow> json result" where
  "prefixdevname_metadata dir = bind_r (spec_version dir ''prefixdevname.spec'') (\<lambda>v.
     Inr (metadata_record ''prefixdevname'' v (prefixdevname_file v)
       (prefixdevname_url v @ '' (sha512-pinned) and every crates.io crate its Cargo.lock pins (sha256-pinned by Cargo.lock)'')
       (concat [''add vendor/<crate>-<version> for each Cargo.lock crate with .cargo-checksum.json, as cargo vendor '',
         ''--versioned-dirs lays it out, and repack deterministically as '', prefixdevname_file v])))"

definition prefixdevname_generate :: "'a maker_scheme \<Rightarrow> spec_dir \<Rightarrow> made" where
  "prefixdevname_generate g dir = Some (bind_r (spec_version dir ''prefixdevname.spec'') (\<lambda>v.
     bind_r (pinned_archive g ''prefixdevname'' prefixdevname_pins v (prefixdevname_url v)) (\<lambda>archive.
     bind_r (lock_of_archive g archive (concat [''prefixdevname-'', v, ''/Cargo.lock''])) (\<lambda>lock_text.
     bind_r (fetch_crates g lock_text) (\<lambda>crates.
     bind_r (prefixdevname_transform g archive v crates) (\<lambda>b. Inr (prefixdevname_file v, b)))))))"

subsection \<open>bluefin-artwork-logos\<close>

definition hex_lower :: "char \<Rightarrow> bool" where
  "hex_lower c = (is_digit c \<or> c \<in> set ''abcdef'')"

definition artwork_spec :: string where
  "artwork_spec = ''bluefin-artwork-logos.spec''"

definition artwork_commit :: "spec_dir \<Rightarrow> string result" where
  "artwork_commit dir = bind_r (read_recipe dir artwork_spec) (\<lambda>s.
     let commit = dict_get (recipe_macros s) ''commit'' [] in
     if length commit = 40 \<and> list_all hex_lower commit then Inr commit
     else Inl (ValueError ''bluefin-artwork-logos.spec must pin %global commit to a full SHA-1''))"

definition flat_name :: "string \<Rightarrow> (string, string) dict \<Rightarrow> (string, string) dict result" where
  "flat_name path names =
     (let name = last_part path in
      case map_of names name of
        Some other \<Rightarrow> Inl (ValueError (concat [path, '' and '', other, '' flatten to the same name'']))
      | None \<Rightarrow> Inr (AList.update name path names))"

definition artwork_transform :: "'a archiver_scheme \<Rightarrow> (string, string) dict \<Rightarrow> string \<Rightarrow> string result" where
  "artwork_transform a files commit =
     (let dir = ''bluefin-artwork-logos-'' @ take 7 commit in
      bind_r (fold_r flat_name (map fst files) []) (\<lambda>names.
      bind_r (map_r (\<lambda>(name, path). bind_r (dict_index files path) (\<lambda>b.
        Inr (new_member (concat [dir, ''/'', name]) Tar_File mode_644 0 b))) (sort_key fst names)) (\<lambda>ms.
      Inr (xz_stream a [a_write a (new_member dir Tar_Dir mode_755 0 [] # ms)]))))"

definition artwork_url :: "string \<Rightarrow> string \<Rightarrow> string" where
  "artwork_url commit path = concat [''https://raw.githubusercontent.com/projectbluefin/artwork/'', commit, ''/'', path]"

definition artwork_file :: "string \<Rightarrow> string" where
  "artwork_file commit = concat [''bluefin-artwork-logos-'', take 7 commit, ''.tar.xz'']"

definition artwork_metadata :: "spec_dir \<Rightarrow> json result" where
  "artwork_metadata dir = bind_r (artwork_commit dir) (\<lambda>commit.
     let urls = join '', '' (map (artwork_url commit) (sort (map fst (dict_get artwork_files commit [])))) in
     bind_r (spec_version dir artwork_spec) (\<lambda>v.
     Inr (metadata_record ''bluefin-artwork-logos'' v (artwork_file commit) (urls @ '' (each sha512-pinned)'')
       (concat [''fetch each file from projectbluefin/artwork at '', commit, '' and pack them flat and deterministically as '',
         artwork_file commit]))))"

definition artwork_generate :: "'a maker_scheme \<Rightarrow> spec_dir \<Rightarrow> made" where
  "artwork_generate g dir = Some (bind_r (artwork_commit dir) (\<lambda>commit.
     case map_of artwork_files commit of
       None \<Rightarrow> Inl (RuntimeError (''no pinned file SHA-512s for projectbluefin/artwork '' @ commit))
     | Some table \<Rightarrow>
         bind_r (map_r (\<lambda>(path, pin). bind_r (fetch_pinned g ''file'' pin (artwork_url commit path)) (\<lambda>b. Inr (path, b)))
           (sort_key fst table)) (\<lambda>files.
         bind_r (artwork_transform g (dict_of_pairs files) commit) (\<lambda>b. Inr (artwork_file commit, b)))))"

subsection \<open>Tags of a git repository\<close>

record git_source =
  s_remote :: string
  s_tag :: string
  s_compression :: string
  s_commits :: sha_pins

text \<open>The tag is a format string with one field, \<open>version\<close>.\<close>

definition version_field :: string where
  "version_field = CHR 0x7B # ''version'' @ [CHR 0x7D]"

definition git_archive_sources :: "(string, git_source) dict" where
  "git_archive_sources =
    [(''distribution-gpg-keys'', \<lparr>s_remote = ''https://github.com/rpm-software-management/distribution-gpg-keys.git'',
        s_tag = concat [''distribution-gpg-keys-'', version_field, ''-1''], s_compression = ''gz'',
        s_commits = [(''1.123'', ''6f5f4883ceabd6c3d389ecd913b60675b61563da'')]\<rparr>),
     (''libslirp'', \<lparr>s_remote = ''https://gitlab.freedesktop.org/slirp/libslirp.git'', s_tag = ''v'' @ version_field,
        s_compression = ''xz'', s_commits = [(''4.9.6'', ''392af90207fc51dd9f9044ee9b1f963f3c851c2c'')]\<rparr>),
     (''rtmpdump'', \<lparr>s_remote = ''https://git.ffmpeg.org/rtmpdump.git'', s_tag = ''v'' @ version_field,
        s_compression = ''gz'', s_commits = [(''2.6'', ''138fdb258d9fc26f1843fd1b891180416c9dc575'')]\<rparr>)]"

definition git_archive_compress :: "'a archiver_scheme \<Rightarrow> string \<Rightarrow> string \<Rightarrow> string result" where
  "git_archive_compress a raw compression =
     (if compression = ''xz'' then Inr (a_xz6 a raw)
      else if compression = ''gz'' then gzip_out a raw
      else Inl (ValueError (concat [''unknown compression '', [CHR 0x27], compression, [CHR 0x27]])))"

definition git_file :: "string \<Rightarrow> git_source \<Rightarrow> string \<Rightarrow> string" where
  "git_file name source v = concat [name, ''-'', v, ''.tar.'', s_compression source]"

definition git_archive_metadata :: "string \<Rightarrow> spec_dir \<Rightarrow> json result" where
  "git_archive_metadata name dir = bind_r (dict_index git_archive_sources name) (\<lambda>source.
     bind_r (spec_version dir (name @ ''.spec'')) (\<lambda>v.
     let commit = dict_get (s_commits source) v ''<unpinned>'' in
     bind_r (format_version v (s_tag source)) (\<lambda>tag.
     Inr (metadata_record name v (git_file name source v) (concat [s_remote source, '' tag '', tag, '' (commit '', commit, '')''])
       (concat [''git archive --format=tar --prefix='', name, ''-'', v, ''/ of the pinned commit, compressed deterministically as '',
         git_file name source v])))))"

definition git_archive_generate :: "'a maker_scheme \<Rightarrow> string \<Rightarrow> spec_dir \<Rightarrow> made" where
  "git_archive_generate g name dir = Some (bind_r (dict_index git_archive_sources name) (\<lambda>source.
     bind_r (spec_version dir (name @ ''.spec'')) (\<lambda>v. case map_of (s_commits source) v of
       None \<Rightarrow> Inl (RuntimeError (concat [''no pinned commit for '', name, '' '', v]))
     | Some commit \<Rightarrow>
         bind_r (format_version v (s_tag source)) (\<lambda>tag.
         bind_r (g_head g (s_remote source) tag) (\<lambda>head.
         if head \<noteq> commit then Inl (RuntimeError (concat [''tag '', tag, '' moved: expected '', commit, '', got '', head]))
         else bind_r (g_archive g (s_remote source) (concat [name, ''-'', v, ''/'']) commit) (\<lambda>raw.
           bind_r (git_archive_compress g raw (s_compression source)) (\<lambda>b. Inr (git_file name source v, b))))))))"

subsection \<open>tailscale\<close>

definition tailscale_file :: "string \<Rightarrow> string" where
  "tailscale_file v = concat [''tailscale-'', v, ''-vendored.tar.xz'']"

definition tailscale_metadata :: "spec_dir \<Rightarrow> json result" where
  "tailscale_metadata dir = bind_r (spec_version dir ''tailscale.spec'') (\<lambda>v.
     Inr (metadata_record ''tailscale'' v (tailscale_file v)
       (concat [''https://github.com/tailscale/tailscale tag v'', v, '' (commit '', dict_get tailscale_commits v ''<unpinned>'', '')''])
       (concat [''go mod tidy && go mod vendor with GOTOOLCHAIN pinned from go.mod, drop unused cmd trees/k8s-operator/tstest, '',
         ''deterministic tar | xz -9e single-stream''])))"

text \<open>\<open>^go\s+(\S+)\<close>.\<close>

definition go_line :: "string pattern" where
  "go_line s =
     (let t = drop 2 s; r = lstrip t; w = word_at r in
      if starts_with ''go'' s \<and> r \<noteq> t \<and> w \<noteq> [] then Some (w, drop (length w) r) else None)"

text \<open>The directories taken out of the tree; below \<open>cmd\<close> no directory is a symbolic link.\<close>

definition unused_trees :: "tree_node list \<Rightarrow> string list result" where
  "unused_trees ns =
     (let dirs = map n_path (filter (\<lambda>n. n_kind n = Tar_Dir) ns) in
      if ''cmd'' \<notin> set dirs then Inl (OSError ''cmd'')
      else Inr (filter (\<lambda>p. starts_with ''cmd/'' p \<and> CHR ''/'' \<notin> set (drop 4 p) \<and> \<not> starts_with ''tailscale'' (drop 4 p)) dirs
        @ filter (\<lambda>p. p \<in> {''k8s-operator'', ''tstest''}) dirs))"

definition packed_nodes :: "string list \<Rightarrow> tree_node list \<Rightarrow> tree_node list" where
  "packed_nodes gone ns = sort_key n_path (filter (\<lambda>n. ''.git'' \<notin> set (split_on CHR ''/'' (n_path n)) \<and>
     \<not> list_ex (\<lambda>d. at_or_below d (n_path n)) gone) ns)"

definition tailscale_member :: "string \<Rightarrow> int \<Rightarrow> tree_node \<Rightarrow> tar_member" where
  "tailscale_member tree epoch n =
     (let kind = (case n_kind n of Tar_Link l \<Rightarrow> Tar_Link l | Tar_Dir \<Rightarrow> Tar_Dir | _ \<Rightarrow> Tar_File) in
      new_member (concat [tree, ''/'', n_path n]) kind (if kind = Tar_Dir \<or> n_exec n then mode_755 else mode_644) epoch
        (if kind = Tar_File then n_data n else []))"

definition tailscale_generate :: "'a maker_scheme \<Rightarrow> spec_dir \<Rightarrow> made" where
  "tailscale_generate g dir = Some (bind_r (spec_version dir ''tailscale.spec'') (\<lambda>v. case map_of tailscale_commits v of
       None \<Rightarrow> Inl (RuntimeError (''no pinned commit for tailscale '' @ v))
     | Some commit \<Rightarrow>
         if \<not> g_has_go g then Inl (RuntimeError (concat
           [''tailscale Source0 generation requires a Go toolchain, and the FSDK '',
            ''catalog has no Go-capable image; add one to projectbluefin/fsdk-containers'']))
         else bind_r (g_clone g (''v'' @ v)) (\<lambda>tree.
           if strip (k_head tree) \<noteq> commit
           then Inl (RuntimeError (concat [''tag v'', v, '' moved: expected '', commit, '', got '', strip (k_head tree)]))
           else (case capture go_line (k_go_mod tree) of
               None \<Rightarrow> Inl AttributeError
             | Some go_version \<Rightarrow> bind_r (g_vendor g go_version tree) (\<lambda>ns.
               bind_r (unused_trees ns) (\<lambda>gone. case py_int (strip (k_epoch tree)) of
                 None \<Rightarrow> Inl (ValueError ''invalid literal for int()'')
               | Some epoch \<Rightarrow> let name = ''tailscale-'' @ v in
                   Inr (tailscale_file v, xz_stream g [a_write g (new_member name Tar_Dir mode_755 epoch [] #
                     map (tailscale_member name epoch) (packed_nodes gone ns))])))))))"

subsection \<open>The entry points\<close>

definition metadata_builders :: "(string, spec_dir \<Rightarrow> json result) dict" where
  "metadata_builders = map (\<lambda>(n, _). (n, git_archive_metadata n)) git_archive_sources @
    [(''intel-media-driver-free'', imd_metadata), (''tailscale'', tailscale_metadata),
     (''python-pydantic-core'', pydantic_metadata), (''gpm'', gpm_metadata), (''hplip'', hplip_metadata),
     (''openal-soft'', openal_metadata), (''prefixdevname'', prefixdevname_metadata), (''freerdp'', freerdp_metadata),
     (''fpaste'', fpaste_metadata), (''7zip'', sevenzip_metadata), (''bluefin-artwork-logos'', artwork_metadata)]"

definition generators :: "'a maker_scheme \<Rightarrow> (string, spec_dir \<Rightarrow> made) dict" where
  "generators g = map (\<lambda>(n, _). (n, git_archive_generate g n)) git_archive_sources @
    [(''intel-media-driver-free'', imd_generate g), (''tailscale'', tailscale_generate g),
     (''python-pydantic-core'', pydantic_generate g), (''hplip'', hplip_generate g), (''gpm'', gpm_generate g),
     (''openal-soft'', openal_generate g), (''prefixdevname'', prefixdevname_generate g), (''freerdp'', freerdp_generate g),
     (''fpaste'', fpaste_generate g), (''7zip'', sevenzip_generate g), (''bluefin-artwork-logos'', artwork_generate g)]"

definition no_resolver :: "string \<Rightarrow> error" where
  "no_resolver name = ValueError (''no generated source resolver for '' @ name)"

definition metadata_for :: "string \<Rightarrow> spec_dir \<Rightarrow> json result" where
  "metadata_for name dir = (case map_of metadata_builders name of None \<Rightarrow> Inl (no_resolver name) | Some f \<Rightarrow> f dir)"

definition generate :: "'a maker_scheme \<Rightarrow> string \<Rightarrow> spec_dir \<Rightarrow> made" where
  "generate g name dir = (case map_of (generators g) name of None \<Rightarrow> Some (Inl (no_resolver name)) | Some f \<Rightarrow> f dir)"

text \<open>\<open>main\<close>: the exit code with the line printed; the arguments are the package, its directory and the
  output directory.\<close>

definition generator_main :: "'a maker_scheme \<Rightarrow> (string \<Rightarrow> spec_dir) \<Rightarrow> string list \<Rightarrow> (int \<times> string) result option" where
  "generator_main g dirs args = (case args of
      [package, package_dir, out_dir] \<Rightarrow> map_option (\<lambda>r. bind_r r (\<lambda>(f, b).
        Inr (0, dumps_default (JObj [(''package'', JStr package), (''filename'', JStr f), (''sha512'', JStr (a_sha512 g b)),
          (''bytes'', JInt (int (length b)))])))) (generate g package (dirs package_dir))
    | _ \<Rightarrow> Some (Inr (2, [])))"

subsection \<open>The file made is the file announced\<close>

lemma metadata_filename [simp]:
  "item (metadata_record n v f i m) ''filename'' = Inr (JStr f)" "item (metadata_record n v f i m) ''name'' = Inr (JStr n)"
  by (simp_all add: metadata_record_def item_def)

lemmas simple_generators = imd_generate_def gpm_generate_def openal_generate_def sevenzip_generate_def hplip_generate_def
  fpaste_generate_def

lemmas simple_metadata = imd_metadata_def gpm_metadata_def openal_metadata_def sevenzip_metadata_def hplip_metadata_def
  fpaste_metadata_def freerdp_metadata_def pydantic_metadata_def prefixdevname_metadata_def tailscale_metadata_def

text \<open>What links a builder of the lock record to its generator.\<close>

definition same_file :: "string \<Rightarrow> (spec_dir \<Rightarrow> json result) \<Rightarrow> (spec_dir \<Rightarrow> made) \<Rightarrow> bool" where
  "same_file name m g \<longleftrightarrow> (\<forall>dir js f b. m dir = Inr js \<longrightarrow> g dir = Some (Inr (f, b)) \<longrightarrow>
     item js ''name'' = Inr (JStr name) \<and> item js ''filename'' = Inr (JStr f))"

lemma same_file_simple:
  "same_file ''intel-media-driver-free'' imd_metadata (imd_generate g)"
  "same_file ''gpm'' gpm_metadata (gpm_generate g)"
  "same_file ''openal-soft'' openal_metadata (openal_generate g)"
  "same_file ''7zip'' sevenzip_metadata (sevenzip_generate g)"
  "same_file ''hplip'' hplip_metadata (hplip_generate g)"
  "same_file ''fpaste'' fpaste_metadata (fpaste_generate g)"
  unfolding same_file_def simple_metadata simple_generators by (auto simp: bind_r_Inr)

lemma same_file_freerdp: "same_file ''freerdp'' freerdp_metadata (freerdp_generate g)"
  unfolding same_file_def freerdp_metadata_def freerdp_generate_def by (auto simp: bind_r_Inr split: sum.splits)

lemma same_file_vendored:
  "same_file ''python-pydantic-core'' pydantic_metadata (pydantic_generate g)"
  "same_file ''prefixdevname'' prefixdevname_metadata (prefixdevname_generate g)"
  unfolding same_file_def pydantic_metadata_def pydantic_generate_def prefixdevname_metadata_def prefixdevname_generate_def
  by (auto simp: bind_r_Inr)

lemma same_file_artwork: "same_file ''bluefin-artwork-logos'' artwork_metadata (artwork_generate g)"
  unfolding same_file_def artwork_metadata_def artwork_generate_def by (auto simp: bind_r_Inr Let_def split: option.splits)

lemma same_file_git: "same_file name (git_archive_metadata name) (git_archive_generate g name)"
  unfolding same_file_def git_archive_metadata_def git_archive_generate_def
  by (auto simp: bind_r_Inr Let_def split: option.splits if_splits)

lemma tailscale_names: "tailscale_generate g dir = Some (Inr (f, b)) \<Longrightarrow> \<exists>v. spec_version dir ''tailscale.spec'' = Inr v \<and> f = tailscale_file v"
  by (auto simp: tailscale_generate_def bind_r_def Let_def split: sum.splits option.splits if_splits)

lemma same_file_tailscale: "same_file ''tailscale'' tailscale_metadata (tailscale_generate g)"
  unfolding same_file_def tailscale_metadata_def by (auto simp: bind_r_Inr dest!: tailscale_names)

lemmas same_file_all = same_file_simple same_file_freerdp same_file_vendored same_file_artwork same_file_git same_file_tailscale

lemma builders_agree:
  "list_all (\<lambda>(n, m). \<exists>f. map_of (generators g) n = Some f \<and> same_file n m f) metadata_builders"
  unfolding metadata_builders_def generators_def git_archive_sources_def
  by (simp add: same_file_all)

text \<open>For every package with a generated source, the file a run makes is the one its lock record announces.\<close>

lemma generated_as_announced:
  assumes "metadata_for name dir = Inr js" and "generate g name dir = Some (Inr (f, b))"
  shows "item js ''name'' = Inr (JStr name) \<and> item js ''filename'' = Inr (JStr f)"
proof -
  from assms(1) obtain m where m: "map_of metadata_builders name = Some m" "m dir = Inr js"
    by (auto simp: metadata_for_def split: option.splits)
  with builders_agree [of g] obtain h where h: "map_of (generators g) name = Some h" "same_file name m h"
    by (fastforce simp: list_all_iff dest: map_of_SomeD)
  with assms(2) have "h dir = Some (Inr (f, b))" by (simp add: generate_def)
  with h(2) m(2) show ?thesis by (auto simp: same_file_def)
qed

subsection \<open>The pins decide the bytes\<close>

text \<open>
  Two networks, and two servers of git tags, that do not answer one address with different bytes of the
  same digest.
\<close>

definition no_collision :: "'a maker_scheme \<Rightarrow> (string \<Rightarrow> string result) \<Rightarrow> bool" where
  "no_collision g h \<longleftrightarrow> (\<forall>u p q. g_get g u = Inr p \<longrightarrow> h u = Inr q \<longrightarrow>
     a_sha512 g p = a_sha512 g q \<or> a_sha256 g p = a_sha256 g q \<longrightarrow> p = q)"

abbreviation elsewhere :: "'a maker_scheme \<Rightarrow> (string \<Rightarrow> string result) \<Rightarrow> (string \<Rightarrow> string \<Rightarrow> string result) \<Rightarrow> 'a maker_scheme" where
  "elsewhere g h k \<equiv> g\<lparr>g_get := h, g_head := k\<rparr>"

definition same_bytes :: "'b result \<Rightarrow> 'b result \<Rightarrow> bool" where
  "same_bytes r r' \<longleftrightarrow> (\<forall>x y. r = Inr x \<longrightarrow> r' = Inr y \<longrightarrow> x = y)"

named_theorems same_bytes_rules \<open>two runs that both return, return the same\<close>

lemma same_bytes_refl [same_bytes_rules]: "same_bytes r r"
  by (simp add: same_bytes_def)

lemma same_bytes_bind [same_bytes_rules]:
  "same_bytes r r' \<Longrightarrow> (\<And>x. same_bytes (f x) (f' x)) \<Longrightarrow> same_bytes (bind_r r f) (bind_r r' f')"
  by (fastforce simp: same_bytes_def bind_r_Inr)

lemma same_bytes_map [same_bytes_rules]:
  "(\<And>x. x \<in> set xs \<Longrightarrow> same_bytes (f x) (f' x)) \<Longrightarrow> same_bytes (map_r f xs) (map_r f' xs)"
proof (induction xs)
  case (Cons x xs)
  then show ?case by (auto intro!: same_bytes_rules)
qed (simp add: same_bytes_rules)

lemma fetch_pinned_same:
  "no_collision g h \<Longrightarrow> same_bytes (fetch_pinned g what pin url) (fetch_pinned (elsewhere g h k) what pin url)"
  by (auto simp: same_bytes_def fetch_pinned_def bind_r_Inr no_collision_def Let_def split: if_splits)

lemma pinned_archive_same:
  "no_collision g h \<Longrightarrow> same_bytes (pinned_archive g what table v url) (pinned_archive (elsewhere g h k) what table v url)"
  by (simp add: pinned_archive_def fetch_pinned_same same_bytes_refl split: option.split)

text \<open>What a transformation computes does not depend on where the bytes came from.\<close>

lemma codecs_elsewhere [simp]:
  "tar_open a_gunzip (elsewhere g h k) = tar_open a_gunzip g" "tar_open a_bunzip (elsewhere g h k) = tar_open a_bunzip g"
  "tar_open a_unlzma (elsewhere g h k) = tar_open a_unlzma g" "gzip_out (elsewhere g h k) = gzip_out g"
  "xz_stream (elsewhere g h k) = xz_stream g"
  by (simp_all add: fun_eq_iff tar_open_def gzip_out_def xz_stream_def)

lemma crates_elsewhere [simp]:
  "cargo_lock_packages (elsewhere g h k) = cargo_lock_packages g"
  "crate_contents (elsewhere g h k) = crate_contents g"
  "checksum_value (elsewhere g h k) = checksum_value g"
  by (simp_all add: fun_eq_iff Let_def cargo_lock_packages_def crate_contents_def checksum_value_def)

lemma freerdp_elsewhere [simp]: "freerdp_transform (elsewhere g h k) = freerdp_transform g"
  unfolding fun_eq_iff freerdp_transform_def codecs_elsewhere by simp

lemma transforms_elsewhere [simp]:
  "imd_transform (elsewhere g h k) = imd_transform g" "gpm_transform (elsewhere g h k) = gpm_transform g"
  "openal_transform (elsewhere g h k) = openal_transform g" "sevenzip_transform (elsewhere g h k) = sevenzip_transform g"
  "hplip_transform (elsewhere g h k) = hplip_transform g" "fpaste_transform (elsewhere g h k) = fpaste_transform g"
  "artwork_transform (elsewhere g h k) = artwork_transform g"
  "git_archive_compress (elsewhere g h k) = git_archive_compress g"
  "lock_of_archive (elsewhere g h k) = lock_of_archive g"
  "vendored_members (elsewhere g h k) = vendored_members g"
  by (simp_all add: fun_eq_iff Let_def imd_transform_def gpm_transform_def openal_transform_def sevenzip_transform_def hplip_transform_def
      fpaste_transform_def artwork_transform_def git_archive_compress_def lock_of_archive_def
      vendored_members_def)

lemma vendoring_elsewhere [simp]:
  "vendor_tree (elsewhere g h k) = vendor_tree g"
  "pydantic_transform (elsewhere g h k) = pydantic_transform g" "prefixdevname_transform (elsewhere g h k) = prefixdevname_transform g"
  by (simp_all add: fun_eq_iff Let_def vendor_tree_def pydantic_transform_def prefixdevname_transform_def)

definition same_made :: "made \<Rightarrow> made \<Rightarrow> bool" where
  "same_made r r' \<longleftrightarrow> (\<forall>x y. r = Some (Inr x) \<longrightarrow> r' = Some (Inr y) \<longrightarrow> x = y)"

lemma same_made_Some: "same_bytes r r' \<Longrightarrow> same_made (Some r) (Some r')"
  unfolding same_made_def same_bytes_def option.inject by blast

lemma same_made_pinned:
  assumes "no_collision g h"
  shows "same_made (Some (bind_r r (\<lambda>v. bind_r (pinned_archive g what table v (url v)) (f v))))
    (Some (bind_r r (\<lambda>v. bind_r (pinned_archive (elsewhere g h k) what table v (url v)) (f v))))"
  by (intro same_made_Some same_bytes_bind pinned_archive_same assms same_bytes_refl)

lemma simple_same:
  assumes "no_collision g h"
  shows "same_made (imd_generate g dir) (imd_generate (elsewhere g h k) dir)"
    and "same_made (gpm_generate g dir) (gpm_generate (elsewhere g h k) dir)"
    and "same_made (openal_generate g dir) (openal_generate (elsewhere g h k) dir)"
    and "same_made (sevenzip_generate g dir) (sevenzip_generate (elsewhere g h k) dir)"
    and "same_made (hplip_generate g dir) (hplip_generate (elsewhere g h k) dir)"
    and "same_made (fpaste_generate g dir) (fpaste_generate (elsewhere g h k) dir)"
  unfolding simple_generators transforms_elsewhere by (rule same_made_pinned [OF assms])+

lemma freerdp_same:
  assumes "no_collision g h"
  shows "same_made (freerdp_generate g dir) (freerdp_generate (elsewhere g h k) dir)"
  using pinned_archive_same [OF assms]
  by (fastforce simp: freerdp_generate_def same_made_def same_bytes_def bind_r_Inr split: sum.splits)

lemma artwork_same:
  assumes "no_collision g h"
  shows "same_made (artwork_generate g dir) (artwork_generate (elsewhere g h k) dir)"
  unfolding artwork_generate_def transforms_elsewhere
proof (intro same_made_Some same_bytes_bind same_bytes_refl)
  fix commit
  show "same_bytes (case map_of artwork_files commit of
       None \<Rightarrow> Inl (RuntimeError (''no pinned file SHA-512s for projectbluefin/artwork '' @ commit))
     | Some table \<Rightarrow> bind_r (map_r (\<lambda>(path, pin). bind_r (fetch_pinned g ''file'' pin (artwork_url commit path)) (\<lambda>b. Inr (path, b)))
           (sort_key fst table)) (\<lambda>files.
         bind_r (artwork_transform g (dict_of_pairs files) commit) (\<lambda>b. Inr (artwork_file commit, b))))
    (case map_of artwork_files commit of
       None \<Rightarrow> Inl (RuntimeError (''no pinned file SHA-512s for projectbluefin/artwork '' @ commit))
     | Some table \<Rightarrow> bind_r (map_r (\<lambda>(path, pin). bind_r (fetch_pinned (elsewhere g h k) ''file'' pin (artwork_url commit path)) (\<lambda>b. Inr (path, b)))
           (sort_key fst table)) (\<lambda>files.
         bind_r (artwork_transform g (dict_of_pairs files) commit) (\<lambda>b. Inr (artwork_file commit, b))))"
    by (auto simp: case_prod_beta split: option.split intro!: same_bytes_rules fetch_pinned_same assms)
qed

lemma git_same: "same_made (git_archive_generate g name dir) (git_archive_generate (elsewhere g h k) name dir)"
  by (fastforce simp: git_archive_generate_def same_made_def bind_r_def Let_def split: option.splits if_splits sum.splits)

text \<open>A crate of the lock is what its address served, so its SHA-256 decides its bytes.\<close>

lemma fetched_crate:
  assumes "fetch_crates g lock_text = Inr crates" and "dict_index crates (c_name c, c_version c) = Inr p"
  shows "g_get g (crate_url c) = Inr p"
proof -
  from assms(1) obtain cs ps where ps: "map_r (\<lambda>c. bind_r (g_get g (crate_url c)) (\<lambda>b. Inr ((c_name c, c_version c), b))) cs = Inr ps"
    "crates = dict_of_pairs ps" by (auto simp: fetch_crates_def bind_r_Inr)
  from assms(2) have "((c_name c, c_version c), p) \<in> set ps"
    by (auto simp: dict_index_def ps(2) map_of_dict_of_pairs dest!: map_of_SomeD split: option.splits)
  from map_r_source [OF ps(1) this] show ?thesis by (auto simp: bind_r_Inr crate_url_def)
qed

lemma vendored_sha: "vendored_members a c p prefix t = Inr ms \<Longrightarrow> a_sha256 a p = c_checksum c"
  by (auto simp: vendored_members_def crate_contents_def Let_def bind_r_Inr split: if_splits)

lemma map_r_same_on:
  "(\<And>x y z. x \<in> set xs \<Longrightarrow> f x = Inr y \<Longrightarrow> f' x = Inr z \<Longrightarrow> y = z) \<Longrightarrow> same_bytes (map_r f xs) (map_r f' xs)"
  by (rule same_bytes_map) (unfold same_bytes_def, blast)

lemma vendor_tree_same:
  assumes "no_collision g h" and d: "fetch_crates g lock_text = Inr d" and d': "fetch_crates (elsewhere g h k) lock_text = Inr d'"
  shows "same_bytes (vendor_tree g used prefix t d) (vendor_tree g used prefix t d')"
proof -
  have "same_bytes
    (map_r (\<lambda>c. bind_r (dict_index d (c_name c, c_version c)) (\<lambda>p. vendored_members g c p prefix t)) cs)
    (map_r (\<lambda>c. bind_r (dict_index d' (c_name c, c_version c)) (\<lambda>p. vendored_members g c p prefix t)) cs)" for cs
  proof (rule map_r_same_on)
    fix c y z
    assume y: "bind_r (dict_index d (c_name c, c_version c)) (\<lambda>p. vendored_members g c p prefix t) = Inr y"
      and z: "bind_r (dict_index d' (c_name c, c_version c)) (\<lambda>p. vendored_members g c p prefix t) = Inr z"
    from y obtain p where p: "dict_index d (c_name c, c_version c) = Inr p" "vendored_members g c p prefix t = Inr y"
      by (auto simp: bind_r_Inr)
    from z obtain q where q: "dict_index d' (c_name c, c_version c) = Inr q" "vendored_members g c q prefix t = Inr z"
      by (auto simp: bind_r_Inr)
    have "g_get g (crate_url c) = Inr p" by (rule fetched_crate [OF d p(1)])
    moreover have "h (crate_url c) = Inr q" using fetched_crate [OF d' q(1)] by simp
    moreover have "a_sha256 g p = a_sha256 g q" using vendored_sha [OF p(2)] vendored_sha [OF q(2)] by simp
    ultimately have "p = q" using assms(1) by (auto simp: no_collision_def)
    with p(2) q(2) show "y = z" by simp
  qed
  then show ?thesis unfolding vendor_tree_def by (intro same_bytes_bind same_bytes_refl)
qed

lemma vendoring_same:
  assumes "no_collision g h"
  shows "same_made (pydantic_generate g dir) (pydantic_generate (elsewhere g h k) dir)"
    and "same_made (prefixdevname_generate g dir) (prefixdevname_generate (elsewhere g h k) dir)"
proof -
  have both: "same_bytes (bind_r (fetch_crates g l) f) (bind_r (fetch_crates (elsewhere g h k) l) f)"
    if "\<And>d d'. fetch_crates g l = Inr d \<Longrightarrow> fetch_crates (elsewhere g h k) l = Inr d' \<Longrightarrow> same_bytes (f d) (f d')" for l and f :: "crate_bytes \<Rightarrow> 'z result"
    using that by (auto simp: same_bytes_def bind_r_Inr)
  have pydantic: "same_bytes (pydantic_transform g sdist v d) (pydantic_transform g sdist v d')"
    and prefix: "same_bytes (prefixdevname_transform g sdist v d) (prefixdevname_transform g sdist v d')"
    if "fetch_crates g l = Inr d" "fetch_crates (elsewhere g h k) l = Inr d'" for l d d' sdist v
    unfolding pydantic_transform_def prefixdevname_transform_def Let_def
    by (intro same_bytes_bind same_bytes_refl vendor_tree_same [OF assms that])+
  show "same_made (pydantic_generate g dir) (pydantic_generate (elsewhere g h k) dir)"
    unfolding pydantic_generate_def transforms_elsewhere vendoring_elsewhere
    by (intro same_made_Some same_bytes_bind same_bytes_refl pinned_archive_same assms both pydantic)
  show "same_made (prefixdevname_generate g dir) (prefixdevname_generate (elsewhere g h k) dir)"
    unfolding prefixdevname_generate_def transforms_elsewhere vendoring_elsewhere
    by (intro same_made_Some same_bytes_bind same_bytes_refl pinned_archive_same assms both prefix)
qed

lemma generators_same:
  assumes "no_collision g h"
  shows "list_all (\<lambda>(n, f). n = ''tailscale'' \<or> (\<exists>f'. map_of (generators (elsewhere g h k)) n = Some f' \<and> (\<forall>dir. same_made (f dir) (f' dir))))
    (generators g)"
  unfolding generators_def git_archive_sources_def
  by (simp add: simple_same [OF assms] freerdp_same [OF assms] artwork_same [OF assms] git_same vendoring_same [OF assms])

lemma pinned_generation:
  assumes "no_collision g h" and "name \<noteq> ''tailscale''"
    and "generate g name dir = Some (Inr made)" and "generate (elsewhere g h k) name dir = Some (Inr made')"
  shows "made = made'"
proof -
  from assms(3) obtain f where f: "map_of (generators g) name = Some f" "f dir = Some (Inr made)"
    by (auto simp: generate_def split: option.splits)
  have "(name, f) \<in> set (generators g)" by (rule map_of_SomeD [OF f(1)])
  with generators_same [OF assms(1), of k] assms(2) obtain f' where f': "map_of (generators (elsewhere g h k)) name = Some f'"
    "same_made (f dir) (f' dir)" unfolding list_all_iff by fast
  from assms(4) f'(1) have "f' dir = Some (Inr made')" by (simp only: generate_def option.case)
  with f'(2) f(2) show ?thesis unfolding same_made_def by blast
qed


text \<open>A recipe of gpm and the release it is pinned to, whose digest stands for its bytes.\<close>

definition gpm_spec_text :: string where
  "gpm_spec_text = ''Name: gpm'' @ [CHR 0x0A] @ ''Version: 1.20.7'' @ [CHR 0x0A]"

definition sample_release :: "tar_member list" where
  "sample_release = [sample_member ''gpm-1.20.7/doc/specs/x.pdf'' Tar_File ''x'', sample_member ''gpm-1.20.7/gpm.c'' Tar_File ''g'']"

definition sample_maker :: maker where
  "sample_maker = \<lparr>a_read = (\<lambda>_. Inr sample_release), a_write = (\<lambda>ks. concat (map t_name ks)), a_gunzip = Inr, a_bunzip = Inr,
     a_unlzma = Inr, a_gzip = Some, a_xz9 = id, a_xz6 = id, a_sha512 = id, a_sha256 = id, a_toml = (\<lambda>_. Inr (JObj [])),
     g_get = (\<lambda>_. Inr (dict_get gpm_pins ''1.20.7'' [])), g_head = (\<lambda>_ _. Inl CalledProcessError),
     g_archive = (\<lambda>_ _ _. Inl CalledProcessError), g_has_go = False, g_clone = (\<lambda>_. Inl CalledProcessError),
     g_vendor = (\<lambda>_ _. Inl CalledProcessError)\<rparr>"

lemma gpm_run:
  "generate sample_maker ''gpm'' [(''gpm.spec'', gpm_spec_text)] = Some (Inr (''gpm-1.20.7.tar.xz'', ''gpm-1.20.7/gpm.c''))"
proof -
  have v: "spec_version [(''gpm.spec'', gpm_spec_text)] ''gpm.spec'' = Inr ''1.20.7''" by code_simp
  have kept: "filter (\<lambda>m. \<not> gpm_dropped ''1.20.7'' (t_name m)) (by_name sample_release) = [sample_member ''gpm-1.20.7/gpm.c'' Tar_File ''g'']"
    by code_simp
  have "gpm_generate sample_maker [(''gpm.spec'', gpm_spec_text)] = Some (Inr (''gpm-1.20.7.tar.xz'', ''gpm-1.20.7/gpm.c''))"
    by (simp add: gpm_generate_def v pinned_archive_def fetch_pinned_def gpm_pins_def sample_maker_def gpm_transform_def tar_open_def
        kept xz_stream_def gpm_file_def sample_member_def zero_owner_def)
  moreover have "map_of (generators sample_maker) ''gpm'' = Some (gpm_generate sample_maker)"
    by (simp add: generators_def git_archive_sources_def)
  ultimately show ?thesis by (simp only: generate_def option.case)
qed

lemma gpm_run_elsewhere:
  "generate (elsewhere sample_maker (g_get sample_maker) (\<lambda>_ _. Inr [])) ''gpm'' [(''gpm.spec'', gpm_spec_text)] =
     Some (Inr (''gpm-1.20.7.tar.xz'', ''gpm-1.20.7/gpm.c''))"
proof -
  let ?h = "g_get sample_maker" and ?k = "\<lambda>_ _. Inr []" and ?dir = "[(''gpm.spec'', gpm_spec_text)]"
  have "map_of (generators (elsewhere sample_maker ?h ?k)) ''gpm'' = Some (gpm_generate (elsewhere sample_maker ?h ?k))"
    by (simp add: generators_def git_archive_sources_def)
  then have other: "generate (elsewhere sample_maker ?h ?k) ''gpm'' ?dir = gpm_generate (elsewhere sample_maker ?h ?k) ?dir"
    by (simp only: generate_def option.case)
  have get: "g_get (elsewhere sample_maker ?h ?k) = g_get sample_maker" "a_sha512 (elsewhere sample_maker ?h ?k) = a_sha512 sample_maker"
    by simp_all
  have same: "gpm_generate (elsewhere sample_maker ?h ?k) ?dir = gpm_generate sample_maker ?dir"
    unfolding gpm_generate_def transforms_elsewhere pinned_archive_def fetch_pinned_def get ..
  have "gpm_generate sample_maker ?dir = generate sample_maker ''gpm'' ?dir"
    by (simp add: generate_def generators_def git_archive_sources_def)
  then show ?thesis unfolding other same by (simp only: gpm_run)
qed


end
