(* ===== verification/Source_Bootstrap.thy ===== *)
theory Source_Bootstrap
  imports Generated_Sources Rawhide_Reimport
begin

section \<open>New source locks (\<open>bootstrap_upstream_sources.py\<close>, \<open>import_proposal.py\<close>, \<open>packit_source0.py\<close>)\<close>

text \<open>
  A recipe enters the source lock when its Source0 is an upstream address whose bytes were fetched, or
  when a generator made the same bytes twice; candidates are merged into the lock without touching what
  is there. An import is carried over the border between two jobs as an artifact and checked again before
  it becomes files of the checkout. \<open>rpmspec\<close>, the network and the generators are arguments; how the
  tools print an error is one too.
\<close>

subsection \<open>Pins of the manifest\<close>

definition pin_of_line :: "string \<Rightarrow> (string \<times> string) option" where
  "pin_of_line l = (case sha512_line (strip l) of
      Some (f, h) \<Rightarrow> if list_all hex_lower h then Some (f, h) else None
    | None \<Rightarrow> None)"

definition manifest_pins :: "spec_dir \<Rightarrow> (string, string) dict" where
  "manifest_pins dir = (case map_of dir ''sources'' of
      None \<Rightarrow> []
    | Some s \<Rightarrow> dict_of_pairs (List.map_filter pin_of_line (splitlines s)))"

subsection \<open>A generated source is made twice\<close>

text \<open>Results of runs that may not end.\<close>

definition bind_m :: "'a result option \<Rightarrow> ('a \<Rightarrow> 'b result option) \<Rightarrow> 'b result option" where
  "bind_m m f = (case m of None \<Rightarrow> None | Some (Inl e) \<Rightarrow> Some (Inl e) | Some (Inr x) \<Rightarrow> f x)"

lemma bind_m_simps [simp]:
  "bind_m None f = None" "bind_m (Some (Inl e)) f = Some (Inl e)" "bind_m (Some (Inr x)) f = f x"
  by (simp_all add: bind_m_def)

lemma bind_m_Inr: "bind_m m f = Some (Inr y) \<longleftrightarrow> (\<exists>x. m = Some (Inr x) \<and> f x = Some (Inr y))"
  by (auto simp: bind_m_def split: option.splits sum.splits)

definition one_generation :: "maker \<Rightarrow> string \<Rightarrow> string \<Rightarrow> spec_dir \<Rightarrow> string result option" where
  "one_generation g name filename dir = (case generate g name dir of
      None \<Rightarrow> None
    | Some (Inl e) \<Rightarrow> Some (Inl CalledProcessError)
    | Some (Inr (f, b)) \<Rightarrow> Some (if f = filename then Inr (a_sha512 g b)
        else Inl (ValueError (''generation did not produce '' @ filename))))"

definition prove_generated :: "(nat \<Rightarrow> maker) \<Rightarrow> json \<Rightarrow> spec_dir \<Rightarrow> string result option" where
  "prove_generated g candidate dir =
     bind_m (Some (bind_r (item candidate ''name'') as_text)) (\<lambda>name.
     bind_m (Some (bind_r (item candidate ''filename'') as_text)) (\<lambda>filename.
     bind_m (one_generation (g 0) name filename dir) (\<lambda>first.
     bind_m (one_generation (g 1) name filename dir) (\<lambda>second. Some (
       if first \<noteq> second then Inl (ValueError (concat [''non-deterministic generation for '', name, '': '', first, '' != '', second]))
       else let pinned = dict_get (manifest_pins dir) filename [] in
         if pinned \<noteq> [] \<and> pinned \<noteq> first then Inl (ValueError (concat
           [''generated bytes do not match the manifest pin for '', filename, '': manifest has '', pinned,
            '', generation produced '', first, ''; repin packages/'', name, ''/sources to the generated digest first'']))
         else Inr first)))))"

subsection \<open>Merging into the lock\<close>

definition entry_text :: "json \<Rightarrow> string result" where
  "entry_text e = bind_r (item e ''name'') as_text"

definition add_candidate :: "string list \<Rightarrow> json \<Rightarrow> string list \<times> json list \<Rightarrow> (string list \<times> json list) result" where
  "add_candidate locked c s = bind_r (entry_text c) (\<lambda>name.
     if name \<in> set locked then Inl (ValueError (''source lock already exists: '' @ name))
     else if name \<in> set (fst s) then Inl (ValueError (''duplicate candidate: '' @ name))
     else Inr (name # fst s, snd s @ [c]))"

definition merge_candidates :: "(string, json) dict \<Rightarrow> json list \<Rightarrow> (string, json) dict result" where
  "merge_candidates existing cands =
     bind_r (iterate (dict_get existing ''packages'' (JList []))) (\<lambda>packages.
     bind_r (map_r entry_text packages) (\<lambda>locked.
     bind_r (fold_r (add_candidate locked) cands ([], packages)) (\<lambda>(_, all_entries).
     bind_r (in_lock_order all_entries) (\<lambda>ordered.
       Inr (AList.update ''packages'' (JList ordered) existing)))))"

subsection \<open>Which recipes\<close>

definition plan_targets :: "string list \<Rightarrow> (string, string list) dict \<Rightarrow> string option \<Rightarrow> string list result" where
  "plan_targets dirs already_supplied just_one =
     (let available = sort dirs in
      case just_one of
        Some name \<Rightarrow> (case filter (\<lambda>d. d = name) available of
            [] \<Rightarrow> Inl (ValueError (''no package recipe named '' @ name))
          | found \<Rightarrow> Inr found)
      | None \<Rightarrow> Inr (filter (\<lambda>d. \<not> dict_has already_supplied d) available))"

text \<open>The sources whose binaries Hummingbird supplies, and those its inventory names.\<close>

definition requested_by_source :: "(string \<times> string) list \<Rightarrow> (string, string list) dict" where
  "requested_by_source resolved = fold (\<lambda>(binary, source). dict_add source binary) resolved []"

definition supplied_sources :: "(string \<times> string) list \<Rightarrow> string list \<Rightarrow> string list \<Rightarrow> (string, string list) dict" where
  "supplied_sources resolved provided_names extra =
     (let requested = requested_by_source resolved;
          by_binaries = map (\<lambda>(s, bs). (s, sort bs))
            (filter (\<lambda>(_, bs). bs \<noteq> [] \<and> set bs \<subseteq> set provided_names) requested) in
      fold (\<lambda>s. dict_setdefault s (sort (dict_get requested s []))) extra by_binaries)"

subsection \<open>One recipe\<close>

text \<open>\<open>b_query\<close> is \<open>rpmspec -q --srpm --qf\<close> and \<open>b_parse\<close> \<open>rpmspec --parse\<close>, of the spec of a package.\<close>

record bootstrap_env =
  b_query :: "string \<Rightarrow> string \<Rightarrow> string result"
  b_parse :: "string \<Rightarrow> string result"
  b_get :: "string \<Rightarrow> string result"
  b_sha512 :: "string \<Rightarrow> string"
  b_makers :: "string \<Rightarrow> nat \<Rightarrow> maker"
  b_shown :: "error \<Rightarrow> string"

definition rpm_value :: "bootstrap_env \<Rightarrow> string \<Rightarrow> string \<Rightarrow> string result" where
  "rpm_value env package q = bind_r (b_query env package q) (\<lambda>out.
     case splitlines out of [] \<Rightarrow> Inl IndexError | l # _ \<Rightarrow> Inr l)"

text \<open>\<open>^Source(\d*):\s*(\S+)\s*$\<close>: white space after the address that holds a line end, or the end of the text.\<close>

definition declared_source :: "(nat \<times> string) pattern" where
  "declared_source s =
     (let t = drop 6 s; n = takeWhile is_digit t; u = drop (length n) t; v = lstrip (tl u); w = word_at v;
          r = drop (length w) v; gap = takeWhile is_space r; e = drop (length gap) r in
      if starts_with ''Source'' s \<and> u \<noteq> [] \<and> hd u = CHR '':'' \<and> w \<noteq> [] \<and> (e = [] \<or> CHR 0x0A \<in> set gap)
      then Some ((read_nat n, w), if e = [] then [] else CHR 0x0A # rev (takeWhile (\<lambda>c. c \<noteq> CHR 0x0A) (rev gap)) @ e)
      else None)"

definition declared_sources :: "bootstrap_env \<Rightarrow> string \<Rightarrow> (nat \<times> string) list result" where
  "declared_sources env package = bind_r (b_parse env package) (\<lambda>s. Inr (find_lines declared_source True s))"

definition url_fragment :: "string \<Rightarrow> string" where
  "url_fragment url = drop 1 (dropWhile (\<lambda>c. c \<noteq> CHR ''#'') url)"

definition fetched_source :: "bootstrap_env \<Rightarrow> string \<Rightarrow> (string \<times> string) result" where
  "fetched_source env url = bind_r (b_get env url) (\<lambda>b.
     let f = dropWhile (\<lambda>c. c = CHR ''/'') (url_fragment url) in
     Inr (b_sha512 env b, if f \<noteq> [] then f else url_file url))"

definition generated_names :: "maker \<Rightarrow> string list" where
  "generated_names g = map fst (generators g)"

definition generated_entry :: "bootstrap_env \<Rightarrow> string \<Rightarrow> spec_dir \<Rightarrow> json result option" where
  "generated_entry env package dir =
     bind_m (Some (metadata_for package dir)) (\<lambda>metadata.
     bind_m (prove_generated (b_makers env package) metadata dir) (\<lambda>digest. Some (
       bind_r (item metadata ''name'') (\<lambda>n. bind_r (item metadata ''version'') (\<lambda>v.
       bind_r (item metadata ''filename'') (\<lambda>f. bind_r (item metadata ''generate'') (\<lambda>g.
         Inr (JObj [(''name'', n), (''version'', v), (''filename'', f), (''sha512'', JStr digest), (''generate'', g)]))))))))"

definition web_address :: "string \<Rightarrow> bool" where
  "web_address url = (starts_with ''http://'' url \<or> starts_with ''https://'' url)"

definition direct_entry :: "bootstrap_env \<Rightarrow> bool \<Rightarrow> string \<Rightarrow> spec_dir \<Rightarrow> json result" where
  "direct_entry env explicit package dir =
     bind_r (rpm_value env package ''%{NAME}'') (\<lambda>name.
     bind_r (rpm_value env package ''%{VERSION}'') (\<lambda>version.
     bind_r (declared_sources env package) (\<lambda>declared.
     case map_of declared 0 of
       None \<Rightarrow> Inl (ValueError ''Source0 is not a direct HTTP(S) URL'')
     | Some url \<Rightarrow>
         if \<not> web_address url then Inl (ValueError ''Source0 is not a direct HTTP(S) URL'')
         else if 1 < length declared \<and> \<not> explicit
           then Inl (ValueError ''additional Source entries require an explicit verified source-closure mapping'')
         else bind_r (url_host url) (\<lambda>host.
           if host \<in> set fedora_hosts
             then Inl (ValueError ''Source0 points at Fedora infrastructure, not the upstream'')
           else bind_r (fetched_source env url) (\<lambda>(digest, filename).
             let pinned = dict_get (manifest_pins dir) filename [] in
             if explicit \<and> pinned \<noteq> [] \<and> pinned \<noteq> digest
               then Inl (ValueError (concat [''upstream bytes for '', filename, '' do not match the pinned manifest: expected '',
                 pinned, '', got '', digest]))
             else Inr (JObj [(''name'', JStr name), (''version'', JStr version), (''url'', JStr url),
               (''filename'', JStr filename), (''sha512'', JStr digest)]))))))"

datatype boot_outcome = Accepted json | Rejected json

definition recipe_specs :: "spec_dir \<Rightarrow> string list" where
  "recipe_specs dir = filter (\<lambda>f. CHR ''/'' \<notin> set f \<and> ends_with ''.spec'' f) (map fst dir)"

text \<open>None when the generator of the package does not end.\<close>

definition bootstrap_package :: "bootstrap_env \<Rightarrow> bool \<Rightarrow> string \<Rightarrow> spec_dir \<Rightarrow> boot_outcome option" where
  "bootstrap_package env explicit package dir = (case recipe_specs dir of
      [spec] \<Rightarrow>
        map_option (\<lambda>r. case r of
            Inr c \<Rightarrow> Accepted c
          | Inl e \<Rightarrow> Rejected (JObj [(''package'', JStr package), (''spec'', JStr (concat [''packages/'', package, ''/'', spec])),
              (''reason'', JStr (b_shown env e))]))
          (if package \<in> set (generated_names (b_makers env package 0)) then
             (if \<not> explicit then Some (Inl (ValueError ''generated Source0 requires an explicit --package selection''))
              else generated_entry env package dir)
           else Some (direct_entry env explicit package dir))
    | specs \<Rightarrow> Some (Rejected (JObj [(''package'', JStr package),
        (''reason'', JStr (''expected one spec, found '' @ show_nat (length specs)))])))"

subsection \<open>The run\<close>

record bootstrap_args =
  ba_merge :: bool
  ba_package :: "string option"

text \<open>The exit code, the text the lock is written with, if it is, and the report.\<close>

record bootstrap_result =
  br_exit :: int
  br_lock :: "string option"
  br_report :: json

definition accepted_of :: "boot_outcome list \<Rightarrow> json list" where
  "accepted_of os = List.map_filter (\<lambda>out. case out of Accepted c \<Rightarrow> Some c | _ \<Rightarrow> None) os"

definition rejected_of :: "boot_outcome list \<Rightarrow> json list" where
  "rejected_of os = List.map_filter (\<lambda>out. case out of Rejected r \<Rightarrow> Some r | _ \<Rightarrow> None) os"

definition lock_payload :: "bool \<Rightarrow> string option \<Rightarrow> json list \<Rightarrow> json result" where
  "lock_payload merging output cands =
     (if merging then
        bind_r (case output of None \<Rightarrow> Inr [(''schema'', JInt 1), (''packages'', JList [])]
                | Some s \<Rightarrow> bind_r (loads s) items_of) (\<lambda>existing.
        bind_r (merge_candidates existing cands) (\<lambda>m. Inr (JObj m)))
      else bind_r (in_lock_order cands) (\<lambda>ordered. Inr (JObj [(''schema'', JInt 1), (''packages'', JList ordered)])))"

fun all_ended :: "'a option list \<Rightarrow> 'a list option" where
  "all_ended [] = Some []"
| "all_ended (None # xs) = None"
| "all_ended (Some x # xs) = map_option (\<lambda>ys. x # ys) (all_ended xs)"

definition bootstrap_main ::
  "bootstrap_env \<Rightarrow> bootstrap_args \<Rightarrow> (string, spec_dir) dict \<Rightarrow> (string, string list) dict \<Rightarrow> string option \<Rightarrow>
     bootstrap_result result option" where
  "bootstrap_main env args packages already_supplied output =
     bind_m (Some (plan_targets (map fst packages) already_supplied (ba_package args))) (\<lambda>targets.
     case all_ended (map (\<lambda>p. bootstrap_package env (ba_package args \<notin> {None, Some []}) p (dict_get packages p [])) targets) of
       None \<Rightarrow> None
     | Some outcomes \<Rightarrow>
         let cands = accepted_of outcomes; rejected = rejected_of outcomes;
             refused = (ba_package args \<notin> {None, Some []} \<and> rejected \<noteq> []);
             report = JObj [(''accepted'', JInt (int (length cands))),
               (''already_supplied_by_hummingbird'', JObj (map (\<lambda>(s, bs). (s, JList (map JStr bs))) already_supplied)),
               (''rejected'', JList rejected)] in
         Some (bind_r (if refused then Inr None
             else bind_r (lock_payload (ba_merge args) output cands) (\<lambda>v. Inr (Some (dumps_indent v @ nl)))) (\<lambda>lock.
           Inr \<lparr>br_exit = (if refused then 1 else 0), br_lock = lock, br_report = report\<rparr>)))"

subsection \<open>An import crosses the job boundary\<close>

text \<open>
  The artifact: its files by path, its directories, and its links and special files. A checkout is its
  files by path.
\<close>

record artifact =
  ar_files :: rev_tree
  ar_dirs :: "string list"
  ar_special :: "string list"

definition artifact_paths :: "artifact \<Rightarrow> string list" where
  "artifact_paths a = map fst (ar_files a) @ ar_dirs a @ ar_special a"

text \<open>\<open>{p.name for p in d.iterdir()}\<close>, of the top and of a directory.\<close>

definition names_at :: "string \<Rightarrow> string list \<Rightarrow> string list" where
  "names_at prefix paths = map (\<lambda>p. before CHR ''/'' (drop (length prefix) p)) (filter (starts_with prefix) paths)"

definition artifact_file :: "artifact \<Rightarrow> string \<Rightarrow> json result" where
  "artifact_file a path = (case map_of (ar_files a) path of None \<Rightarrow> Inl (OSError path) | Some s \<Rightarrow> loads s)"

definition import_prefix :: "string \<Rightarrow> string" where
  "import_prefix package = concat [''packages/'', package, ''/'']"

definition spec_count :: "artifact \<Rightarrow> string \<Rightarrow> nat" where
  "spec_count a package = length (remdups (filter (ends_with ''.spec'') (names_at (import_prefix package) (artifact_paths a))))"

definition entry_list :: "json \<Rightarrow> json list result" where
  "entry_list v = (case v of JList xs \<Rightarrow> Inr xs | _ \<Rightarrow> Inl Unmodelled)"

definition require_that :: "string \<Rightarrow> bool \<Rightarrow> unit result" where
  "require_that message b = assert_r (ValueError message) b"

text \<open>The checks of the artifact: its shape, the provenance, the one entry of the candidate, the report.\<close>

definition artifact_shape :: "artifact \<Rightarrow> string \<Rightarrow> unit result" where
  "artifact_shape a package =
     bind_r (require_that ''unexpected import artifact entries''
       (set (names_at [] (artifact_paths a)) = {''packages'', ''candidate.json'', ''report.json''})) (\<lambda>_.
     bind_r (case ar_special a of [] \<Rightarrow> Inr () | p # _ \<Rightarrow>
       Inl (ValueError (''import artifact contains a link or special file: '' @ p))) (\<lambda>_.
     bind_r (require_that ''artifact must contain exactly the requested recipe''
       (set (names_at ''packages/'' (artifact_paths a)) = {package})) (\<lambda>_.
     require_that ''recipe must contain exactly one spec'' (spec_count a package = 1))))"

definition artifact_provenance :: "artifact \<Rightarrow> string \<Rightarrow> unit result" where
  "artifact_provenance a package =
     bind_r (artifact_file a (import_prefix package @ ''.hummingbird-upstream.json'')) (\<lambda>provenance.
     bind_r (get_or provenance ''package'' JNull) (\<lambda>named.
       require_that ''recipe provenance names another package'' (py_eq named (JStr package))))"

definition sole_entry :: "json list \<Rightarrow> string \<Rightarrow> json result" where
  "sole_entry entries package = (case entries of
      [e] \<Rightarrow> bind_r (get_or e ''name'' JNull) (\<lambda>n.
         if py_eq n (JStr package) then Inr e
         else Inl (ValueError ''source candidate must name exactly the requested package''))
    | _ \<Rightarrow> Inl (ValueError ''source candidate must name exactly the requested package''))"

definition artifact_entry :: "artifact \<Rightarrow> string \<Rightarrow> json result" where
  "artifact_entry a package =
     bind_r (artifact_file a ''candidate.json'') (\<lambda>candidate.
     bind_r (bind_r (get_or candidate ''packages'' (JList [])) entry_list) (\<lambda>entries.
     sole_entry entries package))"

definition artifact_report :: "artifact \<Rightarrow> json result" where
  "artifact_report a =
     bind_r (artifact_file a ''report.json'') (\<lambda>report.
     bind_r (get_or report ''accepted'' JNull) (\<lambda>accepted.
     bind_r (if py_eq accepted (JInt 1) then get_or report ''rejected'' JNull else Inr (JBool True)) (\<lambda>rejected.
     bind_r (require_that ''source bootstrap did not accept the requested package'' (\<not> truthy rejected)) (\<lambda>_. Inr report))))"

definition checked_import :: "artifact \<Rightarrow> string \<Rightarrow> (json \<times> json) result" where
  "checked_import a package =
     bind_r (validate_package package) (\<lambda>_.
     bind_r (artifact_shape a package) (\<lambda>_.
     bind_r (artifact_provenance a package) (\<lambda>_.
     bind_r (artifact_entry a package) (\<lambda>e.
     bind_r (artifact_report a) (\<lambda>report. Inr (e, report))))))"

definition import_report_path :: string where
  "import_report_path = ''reports/import-source-bootstrap.json''"

definition restore :: "rev_tree \<Rightarrow> artifact \<Rightarrow> string \<Rightarrow> rev_tree result" where
  "restore t a package =
     bind_r (checked_import a package) (\<lambda>(e, report).
     bind_r (case map_of t lock_path of None \<Rightarrow> Inl (OSError lock_path) | Some s \<Rightarrow> bind_r (loads s) items_of) (\<lambda>lock.
     bind_r (merge_candidates lock [e]) (\<lambda>merged.
     bind_r (require_that ''an import cannot replace a carried recipe''
       (\<not> list_ex (starts_with (import_prefix package)) (map fst t) \<and> \<not> dict_has t (''packages/'' @ package))) (\<lambda>_.
       Inr (AList.update import_report_path (dumps_indent report @ nl)
         (AList.update lock_path (dumps_indent (JObj merged) @ nl)
           (t @ filter (\<lambda>(p, _). starts_with (import_prefix package) p) (ar_files a))))))))"

subsection \<open>The archive Packit is told\<close>

text \<open>
  \<open>verified_source0\<close>: the spec Packit names, looked for in the checkout; an absolute path is a file or
  not by \<open>abs_file\<close>. The checkout is at \<open>root\<close>, the working directory is \<open>wd\<close>; no link is on the way.
\<close>

definition packages_with :: "rev_tree \<Rightarrow> string \<Rightarrow> string list" where
  "packages_with t spec = List.map_filter (\<lambda>p. case split_on CHR ''/'' p of
      [a, b, c] \<Rightarrow> if a = ''packages'' \<and> c = spec then Some b else None | _ \<Rightarrow> None) (map fst t)"

definition parent_name :: "string \<Rightarrow> string" where
  "parent_name p = (case rev (filter (\<lambda>x. x \<noteq> []) (split_on CHR ''/'' p)) of _ # d # _ \<Rightarrow> d | _ \<Rightarrow> [])"

text \<open>The directories of the candidates, each as its name and its path below the root.\<close>

definition packit_candidates :: "rev_tree \<Rightarrow> (string \<Rightarrow> bool) \<Rightarrow> string \<Rightarrow> string option \<Rightarrow> string list result" where
  "packit_candidates t abs_file asked package_env =
     (let spec = path_name asked; env = (case package_env of None \<Rightarrow> [] | Some e \<Rightarrow> e) in
      if env \<noteq> [] \<and> dict_has t (concat [''packages/'', env, ''/'', spec]) then Inr [env]
      else if starts_with ''/'' asked \<and> abs_file asked then Inl Unmodelled
      else if dict_has t asked then
        (if asked = concat [''packages/'', parent_name asked, ''/'', spec] then Inr [parent_name asked] else Inl Unmodelled)
      else Inr (packages_with t spec))"

definition placeholder :: "string \<Rightarrow> string \<Rightarrow> string" where
  "placeholder package version = concat [package, ''-'', version, ''.tar.gz'']"

definition below_or_root :: "string \<Rightarrow> string \<Rightarrow> string \<Rightarrow> string" where
  "below_or_root root wd path =
     (let full = concat [root, ''/'', path] in
      if starts_with (wd @ ''/'') full then drop (length wd + 1) full else path)"

definition verified_source0 ::
  "rev_tree \<Rightarrow> (string \<Rightarrow> bool) \<Rightarrow> string \<Rightarrow> string \<Rightarrow> string option \<Rightarrow> string option \<Rightarrow> string \<Rightarrow> (string \<times> rev_tree) result" where
  "verified_source0 t abs_file root wd spec_env package_env empty_archive = (case spec_env of
      None \<Rightarrow> Inl (ValueError ''PACKIT_SPECFILE_PATH is not set'')
    | Some [] \<Rightarrow> Inl (ValueError ''PACKIT_SPECFILE_PATH is not set'')
    | Some asked \<Rightarrow> bind_r (packit_candidates t abs_file asked package_env) (\<lambda>cands. case cands of
        [package] \<Rightarrow> bind_r (source_locks t) (\<lambda>locks. case map_of locks package of
            None \<Rightarrow> Inl (ValueError (''no source lock for '' @ package))
          | Some e \<Rightarrow> let dir = import_prefix package in
              if truthy (dict_get e ''no_upstream_source'' JNull) then
                bind_r (bind_r (dict_index e ''version'') py_str) (\<lambda>v. let f = placeholder package v in
                  Inr (f, if dict_has t (dir @ f) then t else AList.update (dir @ f) empty_archive t))
              else bind_r (text_at e ''filename'') (\<lambda>f.
                if \<not> dict_has t (dir @ f) then Inl (ValueError (''verified Source0 is not staged: '' @ concat [root, ''/'', dir, f]))
                else Inr (below_or_root root wd (dir @ f), t)))
      | _ \<Rightarrow> Inl (ValueError (''cannot uniquely locate Packit spec file: '' @ asked))))"

subsection \<open>The merge only adds\<close>

lemma sole_entry_Inr: "sole_entry entries package = Inr e \<Longrightarrow> \<exists>n. get_or e ''name'' JNull = Inr n \<and> py_eq n (JStr package)"
  by (cases entries; cases "tl entries") (auto simp: sole_entry_def bind_r_Inr split: if_splits)

lemma add_candidate_Inr:
  "add_candidate locked c s = Inr s' \<longleftrightarrow>
     (\<exists>k. entry_text c = Inr k \<and> k \<notin> set locked \<and> k \<notin> set (fst s) \<and> s' = (k # fst s, snd s @ [c]))"
  by (auto simp: add_candidate_def bind_r_Inr)

lemma add_candidates:
  "fold_r (add_candidate locked) cs (seen, ps) = Inr (seen', all_entries) \<Longrightarrow>
     \<exists>ks. map_r entry_text cs = Inr ks \<and> distinct ks \<and> set ks \<inter> (set locked \<union> set seen) = {} \<and> all_entries = ps @ cs"
proof (induction cs arbitrary: seen ps)
  case (Cons c cs)
  from Cons.prems obtain k where k: "entry_text c = Inr k" "k \<notin> set locked" "k \<notin> set seen"
    and rest: "fold_r (add_candidate locked) cs (k # seen, ps @ [c]) = Inr (seen', all_entries)"
    by (auto simp: bind_r_Inr add_candidate_Inr)
  from Cons.IH [OF rest] obtain ks where "map_r entry_text cs = Inr ks" "distinct ks"
    "set ks \<inter> (set locked \<union> set (k # seen)) = {}" "all_entries = (ps @ [c]) @ cs" by blast
  with k show ?case by (intro exI [of _ "k # ks"]) auto
qed simp

lemma in_lock_order_Inr:
  assumes "in_lock_order xs = Inr ys"
  shows "mset ys = mset xs \<and> sorted (map key_or ys)"
proof -
  from assms obtain keys where "map_r lock_order_key xs = Inr keys" by (auto simp: in_lock_order_def bind_r_Inr)
  with in_lock_order_sort assms have "ys = sort_key key_or xs" by simp
  then show ?thesis by simp
qed

lemma merge_candidates_Inr:
  assumes "merge_candidates existing cs = Inr m"
  obtains ps ns ks ordered where "iterate (dict_get existing ''packages'' (JList [])) = Inr ps" "map_r entry_text ps = Inr ns"
    "map_r entry_text cs = Inr ks" "distinct ks" "set ks \<inter> set ns = {}" "mset ordered = mset (ps @ cs)" "sorted (map key_or ordered)"
    "m = AList.update ''packages'' (JList ordered) existing"
proof -
  from assms obtain ps ns seen all_entries ordered where m: "iterate (dict_get existing ''packages'' (JList [])) = Inr ps"
    "map_r entry_text ps = Inr ns" "fold_r (add_candidate ns) cs ([], ps) = Inr (seen, all_entries)"
    "in_lock_order all_entries = Inr ordered" "m = AList.update ''packages'' (JList ordered) existing"
    by (auto simp: merge_candidates_def bind_r_Inr)
  from add_candidates [OF m(3)] obtain ks where "map_r entry_text cs = Inr ks" "distinct ks" "set ks \<inter> set ns = {}"
    "all_entries = ps @ cs" by auto
  with m in_lock_order_Inr [OF m(4)] that show ?thesis by blast
qed

subsection \<open>What an accepted candidate is\<close>

lemma one_generation_Inr:
  "one_generation g name f dir = Some (Inr d) \<longleftrightarrow> (\<exists>b. generate g name dir = Some (Inr (f, b)) \<and> d = a_sha512 g b)"
  by (auto simp: one_generation_def split: option.splits sum.splits if_splits)

lemma prove_generated_Inr:
  assumes "prove_generated g js dir = Some (Inr d)"
  shows "\<exists>name f b c. item js ''name'' = Inr (JStr name) \<and> item js ''filename'' = Inr (JStr f) \<and>
    generate (g 0) name dir = Some (Inr (f, b)) \<and> generate (g 1) name dir = Some (Inr (f, c)) \<and>
    d = a_sha512 (g 0) b \<and> d = a_sha512 (g 1) c \<and> (dict_get (manifest_pins dir) f [] \<in> {[], d})"
proof -
  have str: "as_text v = Inr t \<longleftrightarrow> v = JStr t" for v t by (auto simp: as_text_def split: json.splits)
  from assms show ?thesis
    by (auto simp: prove_generated_def bind_m_Inr bind_r_Inr str one_generation_Inr Let_def split: if_splits)
qed

text \<open>A candidate taken from an address: not Fedora's, and its digest is that of the bytes served.\<close>

definition upstream_entry :: "bootstrap_env \<Rightarrow> json \<Rightarrow> bool" where
  "upstream_entry env c \<longleftrightarrow> (\<exists>url b. item c ''url'' = Inr (JStr url) \<and> web_address url \<and>
     (\<exists>host. url_host url = Inr host \<and> host \<notin> set fedora_hosts) \<and> b_get env url = Inr b \<and>
     item c ''sha512'' = Inr (JStr (b_sha512 env b)))"

text \<open>A candidate made by a generator, twice.\<close>

definition twice_generated :: "bootstrap_env \<Rightarrow> string \<Rightarrow> spec_dir \<Rightarrow> json \<Rightarrow> bool" where
  "twice_generated env package dir c \<longleftrightarrow> (\<exists>f b b'. item c ''filename'' = Inr (JStr f) \<and>
     generate (b_makers env package 0) package dir = Some (Inr (f, b)) \<and>
     generate (b_makers env package 1) package dir = Some (Inr (f, b')) \<and>
     item c ''sha512'' = Inr (JStr (a_sha512 (b_makers env package 0) b)) \<and>
     a_sha512 (b_makers env package 0) b = a_sha512 (b_makers env package 1) b')"

lemma direct_entry_upstream:
  assumes "direct_entry env explicit package dir = Inr c"
  shows "upstream_entry env c"
proof -
  from assms obtain name version declared where "rpm_value env package ''%{NAME}'' = Inr name"
    "rpm_value env package ''%{VERSION}'' = Inr version" and declared: "declared_sources env package = Inr declared"
    unfolding direct_entry_def bind_r_Inr by blast
  with assms obtain url where url: "map_of declared 0 = Some url"
    by (cases "map_of declared 0") (simp_all add: direct_entry_def)
  have web: "web_address url"
    using assms url declared \<open>rpm_value env package ''%{NAME}'' = Inr name\<close> \<open>rpm_value env package ''%{VERSION}'' = Inr version\<close>
    unfolding direct_entry_def by (cases "web_address url") simp_all
  have rest: "\<exists>host digest filename. url_host url = Inr host \<and> host \<notin> set fedora_hosts \<and> fetched_source env url = Inr (digest, filename) \<and>
      c = JObj [(''name'', JStr name), (''version'', JStr version), (''url'', JStr url), (''filename'', JStr filename), (''sha512'', JStr digest)]"
    using assms url declared web \<open>rpm_value env package ''%{NAME}'' = Inr name\<close> \<open>rpm_value env package ''%{VERSION}'' = Inr version\<close>
    unfolding direct_entry_def by (auto simp: bind_r_Inr Let_def simp del: fetched_source_def split: if_splits)
  then obtain host digest filename where r: "url_host url = Inr host" "host \<notin> set fedora_hosts" "fetched_source env url = Inr (digest, filename)"
      "c = JObj [(''name'', JStr name), (''version'', JStr version), (''url'', JStr url), (''filename'', JStr filename), (''sha512'', JStr digest)]"
    by blast
  from r(3) obtain b where "b_get env url = Inr b" "digest = b_sha512 env b"
    by (auto simp: fetched_source_def bind_r_Inr Let_def)
  with r(1,2,4) web show ?thesis unfolding upstream_entry_def by (intro exI [of _ url] exI [of _ b]) (simp add: item_def)
qed

lemma metadata_names: "list_all (\<lambda>(n, mf). \<forall>dir js. mf dir = Inr js \<longrightarrow> item js ''name'' = Inr (JStr n)) metadata_builders"
  unfolding metadata_builders_def git_archive_sources_def
  by (auto simp: simple_metadata artwork_metadata_def git_archive_metadata_def bind_r_Inr Let_def)

lemma generated_entry_twice:
  assumes "generated_entry env package dir = Some (Inr c)"
  shows "twice_generated env package dir c"
proof -
  from assms obtain m d where m: "metadata_for package dir = Inr m" "prove_generated (b_makers env package) m dir = Some (Inr d)"
    and c: "\<exists>n v g. \<exists>f. item m ''filename'' = Inr f \<and>
      c = JObj [(''name'', n), (''version'', v), (''filename'', f), (''sha512'', JStr d), (''generate'', g)]"
    by (auto simp: generated_entry_def bind_m_Inr bind_r_Inr)
  from prove_generated_Inr [OF m(2)] obtain name f b b' where p: "item m ''name'' = Inr (JStr name)" "item m ''filename'' = Inr (JStr f)"
    "generate (b_makers env package 0) name dir = Some (Inr (f, b))" "generate (b_makers env package 1) name dir = Some (Inr (f, b'))"
    "d = a_sha512 (b_makers env package 0) b" "d = a_sha512 (b_makers env package 1) b'" by blast
  have "name = package"
  proof -
    from m(1) obtain mf where mf: "map_of metadata_builders package = Some mf" "mf dir = Inr m"
      by (auto simp: metadata_for_def split: option.splits)
    have "item m ''name'' = Inr (JStr package)"
      using metadata_names map_of_SomeD [OF mf(1)] mf(2) unfolding list_all_iff by fast
    with p(1) show ?thesis by simp
  qed
  with p c show ?thesis unfolding twice_generated_def by (auto simp: item_def)
qed

lemma bootstrap_package_Accepted:
  assumes "bootstrap_package env explicit package dir = Some (Accepted c)"
  shows "(explicit \<and> package \<in> set (generated_names (b_makers env package 0)) \<and> twice_generated env package dir c) \<or> upstream_entry env c"
proof -
  have body: "(if package \<in> set (generated_names (b_makers env package 0)) then
             (if \<not> explicit then Some (Inl (ValueError ''generated Source0 requires an explicit --package selection''))
              else generated_entry env package dir)
           else Some (direct_entry env explicit package dir)) = Some (Inr c)"
    (is "?body = _")
  proof (cases ?body)
    case None
    with assms show ?thesis by (auto simp: bootstrap_package_def split: list.splits)
  next
    case (Some z)
    with assms show ?thesis by (cases z) (auto simp: bootstrap_package_def split: list.splits)
  qed
  show ?thesis
  proof (cases "package \<in> set (generated_names (b_makers env package 0))")
    case True
    with body show ?thesis by (auto simp: generated_entry_twice split: if_splits)
  next
    case False
    with body show ?thesis by (auto simp: direct_entry_upstream)
  qed
qed

lemma all_ended_nth: "all_ended xs = Some ys \<Longrightarrow> list_all2 (\<lambda>x y. x = Some y) xs ys"
  by (induction xs arbitrary: ys rule: all_ended.induct) auto

lemma items_Inr: "items_of v = Inr kvs \<longleftrightarrow> v = JObj kvs"
  by (cases v) (auto simp: items_of_def)

lemma iterate_list: "iterate (JList xs) = Inr xs"
  by (simp add: iterate_def)

lemma accepted_mem: "c \<in> set (accepted_of os) \<longleftrightarrow> Accepted c \<in> set os"
  by (force simp: accepted_of_def List.map_filter_def split: boot_outcome.splits)

text \<open>The lock a run starts from.\<close>

definition lock_before :: "bool \<Rightarrow> string option \<Rightarrow> json list \<Rightarrow> bool" where
  "lock_before merging output ps \<longleftrightarrow> (if merging
     then (case output of None \<Rightarrow> ps = [] | Some s \<Rightarrow> \<exists>kvs. loads s = Inr (JObj kvs) \<and> iterate (dict_get kvs ''packages'' (JList [])) = Inr ps)
     else ps = [])"




subsection \<open>Examples\<close>

definition two_makers :: "nat \<Rightarrow> maker" where
  "two_makers i = (if i = 0 then sample_maker else elsewhere sample_maker (g_get sample_maker) (\<lambda>_ _. Inr []))"


definition sample_bootstrap :: bootstrap_env where
  "sample_bootstrap = \<lparr>b_query = (\<lambda>p q. Inr (if q = ''%{NAME}'' then p else ''1'')), b_parse = (\<lambda>_. Inr (''Source0: https://h/x.tar'' @ nl)),
     b_get = (\<lambda>_. Inr ''bytes''), b_sha512 = id, b_makers = (\<lambda>_ _. sample_maker), b_shown = (\<lambda>_. ''error'')\<rparr>"


definition sample_import :: artifact where
  "sample_import = \<lparr>ar_files = [(''packages/p/p.spec'', ''Name: p''),
     (''packages/p/.hummingbird-upstream.json'', dumps_default (JObj [(''package'', JStr ''p'')])),
     (''candidate.json'', dumps_default (JObj [(''packages'', JList [JObj [(''name'', JStr ''p'')]])])),
     (''report.json'', dumps_default (JObj [(''accepted'', JInt 1)]))], ar_dirs = [''packages'', ''packages/p''], ar_special = []\<rparr>"

definition import_checkout :: rev_tree where
  "import_checkout = [(''README'', ''r''), (lock_path, dumps_default (JObj [(''packages'', JList [])]))]"


text \<open>Fedora's old lookaside host is not among the hosts refused.\<close>

lemma old_lookaside_accepted:
  "url_host ''https://pkgs.fedoraproject.org/repo/x.tar'' = Inr ''pkgs.fedoraproject.org'' \<and> ''pkgs.fedoraproject.org'' \<notin> set fedora_hosts"
  by code_simp

end
