(* ===== verification/Factory_Manifest.thy ===== *)
theory Factory_Manifest
  imports Validate Backlog_Report
begin

section \<open>The manifest of a published repository (\<open>factory_manifest.py\<close>)\<close>

text \<open>
  What is written beside the RPM files: the reports of the run, sorted into source reports and snapshots
  of a build root, of which only those of the root this run resolved are attested. The repository is
  given by its files; it has a directory \<open>reports\<close> when a file is in it.
\<close>

subsection \<open>Reports\<close>

text \<open>\<open>read_report\<close>: null when there is no such file, or no JSON in it.\<close>

definition read_report :: "string option \<Rightarrow> json result" where
  "read_report raw = (case raw of
      None \<Rightarrow> Inr JNull
    | Some s \<Rightarrow> (case loads s of
        Inl e \<Rightarrow> if e = decode_error then Inr JNull else Inl e
      | Inr v \<Rightarrow> Inr v))"

definition rpm_files :: "rev_tree \<Rightarrow> string list" where
  "rpm_files t = sort (filter (\<lambda>p. ends_with ''.rpm'' p) (map fst t))"

definition reports_prefix :: "rev_tree \<Rightarrow> string" where
  "reports_prefix t = (if list_ex (starts_with ''reports/'') (map fst t) then ''reports/'' else [])"

definition report_names :: "rev_tree \<Rightarrow> string list" where
  "report_names t = (let d = reports_prefix t in
     sorted_set (filter (\<lambda>f. CHR ''/'' \<notin> set f \<and> ends_with ''.json'' f \<and> f \<noteq> ''manifest.json'')
       (map (drop (length d)) (filter (starts_with d) (map fst t)))))"

type_synonym run_report = "(string, json) dict"

definition one_report :: "rev_tree \<Rightarrow> string \<Rightarrow> run_report list result" where
  "one_report t f = (let path = reports_prefix t @ f in
     bind_r (read_report (map_of t path)) (\<lambda>v. Inr (case v of
        JObj kvs \<Rightarrow> [dict_setdefault ''report'' (JStr path) kvs]
      | _ \<Rightarrow> [])))"

definition reports :: "rev_tree \<Rightarrow> run_report list result" where
  "reports t = bind_r (map_r (one_report t) (report_names t)) (\<lambda>rs. Inr (concat rs))"

definition is_snapshot :: "run_report \<Rightarrow> bool" where
  "is_snapshot r = (py_eq (dict_get r ''schema'' JNull) (JInt 1) \<and> dict_has r ''packages'' \<and> dict_has r ''name'')"

definition is_source_report :: "run_report \<Rightarrow> bool" where
  "is_source_report r = (\<not> is_snapshot r \<and> dict_has r ''package'')"

subsection \<open>Snapshots of the build root\<close>

text \<open>\<open>image.rsplit(''@'', 1)[-1]\<close>.\<close>

definition image_digest :: "string \<Rightarrow> string" where
  "image_digest img = rev (takeWhile (\<lambda>c. c \<noteq> CHR ''@'') (rev img))"

definition measured_here :: "string \<Rightarrow> run_report \<Rightarrow> bool" where
  "measured_here run_digest r = (case dict_get r ''image'' JNull of
      JStr img \<Rightarrow> image_digest img = run_digest
    | _ \<Rightarrow> False)"

definition discard_reason :: "json \<Rightarrow> string" where
  "discard_reason img = (case img of
      JStr (_ # _) \<Rightarrow> ''snapshot image is not the buildroot this run resolved''
    | _ \<Rightarrow> ''snapshot records no resolved image'')"

definition discarded :: "string \<Rightarrow> run_report \<Rightarrow> json" where
  "discarded run_digest r = (let img = dict_get r ''image'' JNull in
     JObj [(''name'', dict_get r ''name'' JNull), (''report'', dict_get r ''report'' JNull), (''image'', img),
       (''run_digest'', JStr run_digest), (''reason'', JStr (discard_reason img))])"

definition buildroot_provenance :: "run_report list \<Rightarrow> string \<Rightarrow> run_report list \<times> json list" where
  "buildroot_provenance snapshots run_digest =
     (if run_digest = [] then (snapshots, [])
      else (filter (measured_here run_digest) snapshots,
        map (discarded run_digest) (filter (\<lambda>r. \<not> measured_here run_digest r) snapshots)))"

subsection \<open>How the sources were verified\<close>

definition source_accepted :: "run_report \<Rightarrow> bool" where
  "source_accepted r = py_eq (dict_get r ''result'' JNull) (JStr ''accepted'')"

text \<open>A kind or a name that is no text is not modelled: JSON would have to sort mixed keys.\<close>

definition kind_of_verification :: "run_report \<Rightarrow> string result" where
  "kind_of_verification r = (case dict_get r ''verification'' (JStr ''unknown'') of JStr k \<Rightarrow> Inr k | _ \<Rightarrow> Inl Unmodelled)"

definition checksum_name :: "string \<Rightarrow> run_report \<Rightarrow> string option result" where
  "checksum_name kind r =
     (if truthy (dict_get r ''checksum_only'' (JBool (kind \<noteq> ''signature''))) then
        (case dict_get r ''package'' JNull of
           JStr n \<Rightarrow> Inr (if n \<noteq> [] then Some n else None)
         | v \<Rightarrow> if truthy v then Inl Unmodelled else Inr None)
      else Inr None)"

type_synonym verification = "(string, nat) dict \<times> string list"

definition count_report :: "run_report \<Rightarrow> verification \<Rightarrow> verification result" where
  "count_report r s =
     (if \<not> source_accepted r then Inr s
      else bind_r (kind_of_verification r) (\<lambda>kind. bind_r (checksum_name kind r) (\<lambda>name.
        Inr (AList.update kind (dict_get (fst s) kind 0 + 1) (fst s),
          case name of None \<Rightarrow> snd s | Some n \<Rightarrow> set_add n (snd s)))))"

definition source_verification :: "run_report list \<Rightarrow> verification result" where
  "source_verification rs = bind_r (fold_r count_report rs ([], [])) (\<lambda>(counts, names).
     Inr (sorted_dict counts, sorted_set names))"

definition verification_json :: "verification \<Rightarrow> json" where
  "verification_json v = JObj [(''counts'', JObj (map (\<lambda>(k, n). (k, JInt (int n))) (fst v))), (''checksum_only'', JList (map JStr (snd v)))]"

subsection \<open>The manifest\<close>

record manifest_args =
  fm_build_list :: string
  fm_digest :: string
  fm_ref :: string
  fm_oci_digest :: string

definition requested_packages :: "string \<Rightarrow> json list result" where
  "requested_packages s = (case loads s of
      Inl e \<Rightarrow> if e = decode_error then Inr [] else Inl e
    | Inr (JList xs) \<Rightarrow> Inr xs
    | Inr _ \<Rightarrow> Inr [])"

text \<open>The fields of the manifest, before it is written, and the reports the run warns about.\<close>

record manifest =
  fm_requested :: "json list"
  fm_packages :: "string list"
  fm_sources :: "run_report list"
  fm_verification :: verification
  fm_lock :: json
  fm_buildroots :: "run_report list"
  fm_discarded :: "json list"

definition factory_manifest :: "rev_tree \<Rightarrow> string option \<Rightarrow> manifest_args \<Rightarrow> manifest result" where
  "factory_manifest t lock a =
     bind_r (requested_packages (fm_build_list a)) (\<lambda>requested.
     bind_r (reports t) (\<lambda>rs.
     let snapshots = filter is_snapshot rs; sources = filter is_source_report rs;
         (measured, gone) = buildroot_provenance snapshots (fm_digest a) in
     bind_r (source_verification sources) (\<lambda>v.
     bind_r (read_report lock) (\<lambda>l.
       Inr \<lparr>fm_requested = requested, fm_packages = rpm_files t, fm_sources = sources, fm_verification = v,
         fm_lock = l, fm_buildroots = measured, fm_discarded = gone\<rparr>))))"

definition manifest_json :: "string \<Rightarrow> manifest_args \<Rightarrow> manifest \<Rightarrow> json" where
  "manifest_json now a m = JObj
     [(''schema'', JInt 1), (''created_at'', JStr now), (''requested_packages'', JList (fm_requested m)),
      (''packages'', JList (map JStr (fm_packages m))), (''sources'', JList (map JObj (fm_sources m))),
      (''source_verification'', verification_json (fm_verification m)), (''buildroot_lock'', fm_lock m),
      (''buildroots'', JList (map JObj (fm_buildroots m))), (''buildroots_discarded'', JList (fm_discarded m)),
      (''oci'', JObj [(''ref'', JStr (fm_ref a)), (''digest'', JStr (fm_oci_digest a))])]"

definition manifest_text :: "string \<Rightarrow> rev_tree \<Rightarrow> string option \<Rightarrow> manifest_args \<Rightarrow> string result" where
  "manifest_text now t lock a = bind_r (factory_manifest t lock a) (\<lambda>m.
     Inr (dumps_indent (canonical (manifest_json now a m)) @ nl))"

subsection \<open>What the manifest attests\<close>

definition report_at :: "rev_tree \<Rightarrow> string \<Rightarrow> run_report \<Rightarrow> bool" where
  "report_at t path r = (\<exists>s kvs. map_of t path = Some s \<and> loads s = Inr (JObj kvs) \<and> r = dict_setdefault ''report'' (JStr path) kvs)"

definition report_paths :: "rev_tree \<Rightarrow> string list" where
  "report_paths t = map (\<lambda>f. reports_prefix t @ f) (report_names t)"

lemma one_report_Inr: "one_report t f = Inr rs \<Longrightarrow> r \<in> set rs \<longleftrightarrow> report_at t (reports_prefix t @ f) r"
proof -
  assume "one_report t f = Inr rs"
  then obtain v where v: "read_report (map_of t (reports_prefix t @ f)) = Inr v"
    "rs = (case v of JObj kvs \<Rightarrow> [dict_setdefault ''report'' (JStr (reports_prefix t @ f)) kvs] | _ \<Rightarrow> [])"
    by (auto simp: one_report_def Let_def bind_r_Inr)
  have "v = JObj kvs \<longleftrightarrow> (\<exists>s. map_of t (reports_prefix t @ f) = Some s \<and> loads s = Inr (JObj kvs))" for kvs
    using v(1) by (auto simp: read_report_def split: option.splits sum.splits if_splits)
  moreover have "r \<in> set rs \<longleftrightarrow> (\<exists>kvs. v = JObj kvs \<and> r = dict_setdefault ''report'' (JStr (reports_prefix t @ f)) kvs)"
    unfolding v(2) by (cases v) auto
  ultimately show ?thesis unfolding report_at_def by blast
qed

lemma reports_Inr:
  assumes "reports t = Inr rs"
  shows "r \<in> set rs \<longleftrightarrow> (\<exists>path \<in> set (report_paths t). report_at t path r)"
proof -
  from assms obtain rss where rss: "map_r (one_report t) (report_names t) = Inr rss" "rs = concat rss"
    by (auto simp: reports_def bind_r_Inr)
  show ?thesis
  proof
    assume "r \<in> set rs"
    with rss obtain f ys where f: "f \<in> set (report_names t)" "one_report t f = Inr ys" "r \<in> set ys"
      by (auto dest: map_r_source)
    with one_report_Inr [OF f(2)] show "\<exists>path \<in> set (report_paths t). report_at t path r" by (auto simp: report_paths_def)
  next
    assume "\<exists>path \<in> set (report_paths t). report_at t path r"
    then obtain f where f: "f \<in> set (report_names t)" "report_at t (reports_prefix t @ f) r" by (auto simp: report_paths_def)
    with map_r_mem [OF rss(1)] obtain ys where "ys \<in> set rss" "one_report t f = Inr ys" by blast
    with one_report_Inr [of t f ys r] f(2) rss(2) show "r \<in> set rs" by auto
  qed
qed

definition of_kind :: "string \<Rightarrow> run_report \<Rightarrow> bool" where
  "of_kind k r = (source_accepted r \<and> kind_of_verification r = Inr k)"

definition only_checksum :: "string \<Rightarrow> run_report \<Rightarrow> bool" where
  "only_checksum n r = (\<exists>k. of_kind k r \<and> checksum_name k r = Inr (Some n))"

lemma verify_fold:
  "fold_r count_report rs s = Inr s' \<Longrightarrow>
     dict_get (fst s') k 0 = dict_get (fst s) k 0 + length (filter (of_kind k) rs) \<and>
     (n \<in> set (snd s') \<longleftrightarrow> n \<in> set (snd s) \<or> list_ex (only_checksum n) rs) \<and>
     (distinct (map fst (fst s)) \<longrightarrow> distinct (map fst (fst s')))"
proof (induction rs arbitrary: s)
  case (Cons r rs)
  from Cons.prems obtain u where u: "count_report r s = Inr u" "fold_r count_report rs u = Inr s'" by (auto simp: bind_r_Inr)
  have "dict_get (fst u) k 0 = dict_get (fst s) k 0 + (if of_kind k r then 1 else 0)"
    using u(1) by (auto simp: count_report_def of_kind_def bind_r_Inr split: if_splits)
  moreover have "n \<in> set (snd u) \<longleftrightarrow> n \<in> set (snd s) \<or> only_checksum n r"
    using u(1) by (auto simp: count_report_def only_checksum_def of_kind_def bind_r_Inr set_add_def split: if_splits option.splits)
  moreover have "distinct (map fst (fst s)) \<Longrightarrow> distinct (map fst (fst u))"
    using u(1) by (auto simp: count_report_def bind_r_Inr split: if_splits)
  ultimately show ?case using Cons.IH [OF u(2)] by auto
qed simp

lemma source_verification_Inr:
  assumes "source_verification rs = Inr v"
  shows "dict_get (fst v) k 0 = length (filter (of_kind k) rs) \<and> (n \<in> set (snd v) \<longleftrightarrow> (\<exists>r \<in> set rs. only_checksum n r))"
proof -
  from assms obtain s where s: "fold_r count_report rs ([], []) = Inr s" "v = (sorted_dict (fst s), sorted_set (snd s))"
    by (auto simp: source_verification_def bind_r_Inr)
  from verify_fold [OF s(1), of k n] s(2) show ?thesis by (auto simp: dict_get_sorted_dict list_ex_iff)
qed


text \<open>A seeded snapshot of another image, and one of this run.\<close>

definition published_repository :: rev_tree where
  "published_repository =
     [(''reports/buildroot-a.json'', dumps_default (JObj [(''schema'', JInt 1), (''name'', JStr ''a''), (''packages'', JList []), (''image'', JStr ''q@sha256:1'')])),
      (''reports/buildroot-b.json'', dumps_default (JObj [(''schema'', JInt 1), (''name'', JStr ''b''), (''packages'', JList []), (''image'', JStr ''q@sha256:2'')])),
      (''reports/x.json'', dumps_default (JObj [(''package'', JStr ''x''), (''result'', JStr ''accepted''), (''verification'', JStr ''checksum'')])),
      (''x.rpm'', [])]"

definition sample_manifest_args :: manifest_args where
  "sample_manifest_args = \<lparr>fm_build_list = ''[]'', fm_digest = ''sha256:2'', fm_ref = [], fm_oci_digest = []\<rparr>"


end
