(* ===== verification/Mock_Config.thy ===== *)
theory Mock_Config
  imports Validate
begin

section \<open>The mock configuration (\<open>mock_config.py\<close>)\<close>

text \<open>
  The text of the configuration mock builds a package with, line by line, and what dnf reads out of the
  document it carries: which repository answers for a name.
\<close>

definition unlines :: "string list \<Rightarrow> string" where
  "unlines ls = concat (map (\<lambda>l. l @ [CHR 0x0A]) ls)"

definition hummingbird_wins :: "string list" where
  "hummingbird_wins = [''ruby-default-gems'', ''ruby3.3-default-gems'', ''ruby3.4-default-gems'', ''libicu'', ''icu'', ''gpgme'', ''qt6-qtbase'', ''sqlite'', ''sqlite-libs'']"

definition hummingbird_repo_exclude :: "string list" where
  "hummingbird_repo_exclude = [''ruby3.3-default-gems'', ''ruby3.4-default-gems'']"

definition fedora_releasever :: string where
  "fedora_releasever = ''44''"

text \<open>The template: the options of mock, the line that opens the dnf document, and its lines.\<close>

definition mock_options :: "string \<Rightarrow> string list" where
  "mock_options root =
     [''# Generated by tools/mock_config.py -- do not edit manually.'',
      ''#'',
      ''# The build root this factory needs: Fedora '' @ fedora_releasever @ '' paired with'',
      ''# Hummingbird, mirroring how Hummingbird pairs them in images/variables.yml.'',
      ''# Fedora is only the other half of the buildroot, the way a compiler is; the'',
      ''# packages built here are for Hummingbird and installed on Hummingbird.'',
      concat [''config_opts['', [CHR 0x27], ''root'', [CHR 0x27], ''] = '', [CHR 0x27], root, [CHR 0x27]],
      concat [''config_opts['', [CHR 0x27], ''target_arch'', [CHR 0x27], ''] = '', [CHR 0x27], ''x86_64'', [CHR 0x27]],
      concat [''config_opts['', [CHR 0x27], ''legal_host_arches'', [CHR 0x27], ''] = ('', [CHR 0x27], ''x86_64'', [CHR 0x27], '',)''],
      concat [''config_opts['', [CHR 0x27], ''chroot_setup_cmd'', [CHR 0x27], ''] = '', [CHR 0x27], ''install @buildsys-build'', [CHR 0x27]],
      concat [''config_opts['', [CHR 0x27], ''releasever'', [CHR 0x27], ''] = '', [CHR 0x27], fedora_releasever, [CHR 0x27]],
      concat [''config_opts['', [CHR 0x27], ''package_manager'', [CHR 0x27], ''] = '', [CHR 0x27], ''dnf5'', [CHR 0x27]],
      concat [''config_opts['', [CHR 0x27], ''extra_chroot_dirs'', [CHR 0x27], ''] = ['', [CHR 0x27], ''/run/lock'', [CHR 0x27], '']''],
      ''# rand_core ships its crate docs as %doc and its lib.rs does'',
      concat [''# #![doc = include_str!('', [CHR 0x22], ''../README.md'', [CHR 0x22], '')], so a root that drops documentation''],
      ''# cannot build rust-just. Mock keeps docs by default; this says so out loud'',
      ''# because the container path had to restore it.'',
      concat [''config_opts['', [CHR 0x27], ''nosync'', [CHR 0x27], ''] = False''],
      []]"

definition dnf_open :: string where
  "dnf_open = concat [''config_opts['', [CHR 0x27], ''dnf.conf'', [CHR 0x27], ''] = '', [CHR 0x22, CHR 0x22, CHR 0x22]]"

definition dnf_close :: string where
  "dnf_close = [CHR 0x22, CHR 0x22, CHR 0x22]"

definition dnf_main :: "string list" where
  "dnf_main =
     [''[main]'',
      ''keepcache=1'',
      ''debuglevel=2'',
      ''reposdir=/dev/null'',
      ''logfile=/var/log/yum.log'',
      ''retries=20'',
      ''obsoletes=1'',
      ''gpgcheck=0'',
      ''assumeyes=1'',
      ''install_weak_deps=0'',
      ''metadata_expire=0'',
      ''# Not best=1, although Hummingbird'' @ [CHR 0x27] @ ''s own mock.cfg sets it. Its repository'',
      ''# is internally consistent; this root mixes it with Fedora and with a'',
      ''# Hummingbird that carries superseded builds -- python3-gpg exists only at'',
      ''# gpgme 2.0.1-3.1 while gpgme-devel is at 2.0.1-6 -- and best=1 refuses the'',
      ''# older consistent set: samba'' @ [CHR 0x27] @ ''s hermetic lock failed on exactly that in run'',
      ''# 36207220192. The container lane, which built every published package,'',
      ''# resolves with dnf'' @ [CHR 0x27] @ ''s default, best=0; the hermetic lane now matches it.'',
      ''best=0'',
      ''protected_packages='',
      ''module_platform_id=platform:f'' @ fedora_releasever,
      ''user_agent=utah-packages-mock/1'',
      []]"

definition dnf_repos :: "string \<Rightarrow> string \<Rightarrow> string list" where
  "dnf_repos fedora hummingbird =
     [''[fedora]'',
      ''name=fedora'',
      ''metalink=https://mirrors.fedoraproject.org/metalink?repo=fedora-'' @ fedora_releasever @ ''&arch=x86_64'',
      ''gpgcheck=0'',
      ''skip_if_unavailable=False'',
      ''excludepkgs='' @ fedora,
      [],
      ''[updates]'',
      ''name=updates'',
      ''metalink=https://mirrors.fedoraproject.org/metalink?repo=updates-released-f'' @ fedora_releasever @ ''&arch=x86_64'',
      ''gpgcheck=0'',
      ''skip_if_unavailable=False'',
      ''excludepkgs='' @ fedora,
      [],
      ''[public-hummingbird-x86_64-rpms]'',
      ''name=public-hummingbird-x86_64-rpms'',
      ''baseurl=https://packages.redhat.com/api/pulp-content/public-hummingbird/x86_64/'',
      ''enabled=1'',
      ''sslverify=1'',
      ''gpgcheck=0'',
      ''priority=10'',
      ''zchunk=false'',
      ''excludepkgs='' @ hummingbird]"

definition stages_repo :: "string \<Rightarrow> string list" where
  "stages_repo stages =
     [[],
      ''[stages]'',
      ''name=stages'',
      ''baseurl=file://'' @ stages,
      ''enabled=1'',
      ''gpgcheck=0'',
      ''priority=1'']"

definition factory_repo :: "string \<Rightarrow> string list" where
  "factory_repo url =
     [[],
      ''[factory]'',
      ''name=factory'',
      ''baseurl='' @ url,
      ''enabled=1'',
      ''gpgcheck=0'',
      ''priority=5'']"

definition hermetic_lines :: "string \<Rightarrow> string list" where
  "hermetic_lines img =
     [[],
      concat [''config_opts['', [CHR 0x27], ''use_bootstrap_image'', [CHR 0x27], ''] = True''],
      concat [''config_opts['', [CHR 0x27], ''bootstrap_image'', [CHR 0x27], ''] = '', [CHR 0x27], img, [CHR 0x27]],
      concat [''config_opts['', [CHR 0x27], ''bootstrap_image_ready'', [CHR 0x27], ''] = True'']]"

record mock_args =
  mk_root :: string
  mk_factory :: string
  mk_stages :: string
  mk_prior :: "string list"
  mk_image :: string
  mk_excludes :: "string list"

definition extra_repos :: "mock_args \<Rightarrow> string list" where
  "extra_repos a = (if mk_stages a \<noteq> [] then stages_repo (mk_stages a) else []) @
     (if mk_factory a \<noteq> [] then factory_repo (mk_factory a) else [])"

definition render_lines :: "mock_args \<Rightarrow> string list" where
  "render_lines a = concat [mock_options (mk_root a), [dnf_open], dnf_main,
     dnf_repos (join '','' (hummingbird_wins @ mk_prior a)) (join '','' (hummingbird_repo_exclude @ mk_excludes a)),
     extra_repos a, [dnf_close], if mk_image a \<noteq> [] then hermetic_lines (mk_image a) else []]"

definition render :: "mock_args \<Rightarrow> string" where
  "render a = unlines (render_lines a)"

text \<open>The command: names from the commas of two options, and the line it prints.\<close>

definition comma_names :: "string \<Rightarrow> string list" where
  "comma_names s = filter (\<lambda>n. n \<noteq> []) (split_on CHR '','' s)"

definition mock_main :: "mock_args \<Rightarrow> string \<Rightarrow> string \<Rightarrow> string \<Rightarrow> string \<times> string" where
  "mock_main a output prior_built hummingbird_exclude =
     (let b = a\<lparr>mk_prior := comma_names prior_built, mk_excludes := comma_names hummingbird_exclude\<rparr> in
      (render b, dumps_default (canonical (JObj [(''config'', JStr output), (''root'', JStr (mk_root a)),
        (''factory_repo'', JBool (mk_factory a \<noteq> [])), (''stages'', JBool (mk_stages a \<noteq> [])),
        (''prior_built'', JInt (int (length (comma_names prior_built))))]))))"

subsection \<open>What dnf reads\<close>

text \<open>
  The document between the two triple quotes, its sections, the value of an option, and the names a list
  option holds; a smaller priority is preferred and the default is 99.
\<close>

definition dnf_document :: "string \<Rightarrow> string list" where
  "dnf_document s = takeWhile (\<lambda>l. l \<noteq> dnf_close) (drop 1 (dropWhile (\<lambda>l. l \<noteq> dnf_open) (split_on CHR 0x0A s)))"

definition section_lines :: "string \<Rightarrow> string list \<Rightarrow> string list" where
  "section_lines name ls = takeWhile (\<lambda>l. \<not> starts_with ''['' l) (drop 1 (dropWhile (\<lambda>l. l \<noteq> concat [''['', name, '']'']) ls))"

definition repo_option :: "string \<Rightarrow> string \<Rightarrow> string list \<Rightarrow> string option" where
  "repo_option name key ls = map_option (drop (length key + 1)) (find (starts_with (key @ ''='')) (section_lines name ls))"

definition excluded_names :: "string \<Rightarrow> string list \<Rightarrow> string list" where
  "excluded_names name ls = (case repo_option name ''excludepkgs'' ls of None \<Rightarrow> [] | Some v \<Rightarrow> split_on CHR '','' v)"

definition repo_priority :: "string \<Rightarrow> string list \<Rightarrow> nat" where
  "repo_priority name ls = (case repo_option name ''priority'' ls of None \<Rightarrow> 99 | Some v \<Rightarrow> read_nat v)"

text \<open>A text that stays within a line of the Python string it is written into.\<close>

definition plain_arg :: "string \<Rightarrow> bool" where
  "plain_arg s = list_all (\<lambda>c. c \<notin> {CHR 0x0A, CHR 0x22, CHR 0x27, CHR 0x5C}) s"

definition plain_pkg :: "string \<Rightarrow> bool" where
  "plain_pkg s = (plain_arg s \<and> CHR '','' \<notin> set s)"

lemma split_on_unlines: "list_all (\<lambda>l. CHR 0x0A \<notin> set l) ls \<Longrightarrow> split_on CHR 0x0A (unlines ls) = ls @ [[]]"
proof (induction ls)
  case (Cons l ls)
  then show ?case using split_on_append [of "CHR 0x0A" l "unlines ls"] by (simp add: unlines_def)
qed (simp add: unlines_def)


definition plain_args :: "mock_args \<Rightarrow> bool" where
  "plain_args a = (plain_arg (mk_root a) \<and> plain_arg (mk_factory a) \<and> plain_arg (mk_stages a) \<and> plain_arg (mk_image a) \<and>
     list_all plain_pkg (mk_prior a) \<and> list_all plain_pkg (mk_excludes a))"

definition all_single :: "string list \<Rightarrow> bool" where
  "all_single ls = list_all (\<lambda>l. CHR 0x0A \<notin> set l) ls"

lemma all_single_append: "all_single (xs @ ys) \<longleftrightarrow> all_single xs \<and> all_single ys"
  by (simp add: all_single_def)

lemma all_single_Cons [simp]: "all_single []" "all_single (l # ls) \<longleftrightarrow> CHR 0x0A \<notin> set l \<and> all_single ls"
  by (simp_all add: all_single_def)

lemma plain_arg_line: "plain_arg s \<Longrightarrow> CHR 0x0A \<notin> set s"
  by (auto simp: plain_arg_def list_all_iff)

lemma join_line: "all_single ns \<Longrightarrow> CHR 0x0A \<notin> set (join '','' ns)"
  by (induction "'',''" ns rule: join.induct) (auto simp: all_single_def)

lemma plain_pkgs_single: "list_all plain_pkg ns \<Longrightarrow> all_single ns"
  by (auto simp: list_all_iff all_single_def plain_pkg_def plain_arg_def)

lemma fixed_names: "list_all plain_pkg hummingbird_wins" "list_all plain_pkg hummingbird_repo_exclude"
  by code_simp+

lemma mock_options_single: "plain_arg root \<Longrightarrow> all_single (mock_options root)"
  by (auto simp: mock_options_def all_single_def fedora_releasever_def dest: plain_arg_line)

lemma dnf_main_single: "all_single dnf_main"
  by code_simp

lemma dnf_repos_single: "CHR 0x0A \<notin> set f \<Longrightarrow> CHR 0x0A \<notin> set h \<Longrightarrow> all_single (dnf_repos f h)"
  by (simp add: dnf_repos_def all_single_def fedora_releasever_def)

lemma extra_repos_single: "plain_args a \<Longrightarrow> all_single (extra_repos a)"
  by (auto simp: plain_args_def extra_repos_def stages_repo_def factory_repo_def all_single_def dest: plain_arg_line)

lemma hermetic_single: "plain_arg img \<Longrightarrow> all_single (hermetic_lines img)"
  by (auto simp: hermetic_lines_def all_single_def dest: plain_arg_line)

lemma dropWhile_app: "list_all P xs \<Longrightarrow> \<not> P y \<Longrightarrow> dropWhile P (xs @ y # ys) = y # ys"
  by (induction xs) auto

lemma takeWhile_app: "list_all P xs \<Longrightarrow> \<not> P y \<Longrightarrow> takeWhile P (xs @ y # ys) = xs"
  by (induction xs) auto

lemma options_not_open: "list_all (\<lambda>l. l \<noteq> dnf_open) (mock_options root)"
  by (simp add: mock_options_def dnf_open_def)

lemma main_not_close: "list_all (\<lambda>l. l \<noteq> dnf_close) dnf_main"
  by (simp add: dnf_main_def dnf_close_def)

lemma repos_not_close: "list_all (\<lambda>l. l \<noteq> dnf_close) (dnf_repos f h)"
  by (simp add: dnf_repos_def dnf_close_def)

lemma extra_not_close: "list_all (\<lambda>l. l \<noteq> dnf_close) (extra_repos a)"
  by (simp add: extra_repos_def stages_repo_def factory_repo_def dnf_close_def)

lemma document_of_render:
  assumes plain: "plain_args a"
  shows "dnf_document (render a) = dnf_main @ dnf_repos (join '','' (hummingbird_wins @ mk_prior a))
      (join '','' (hummingbird_repo_exclude @ mk_excludes a)) @ extra_repos a"
proof -
  let ?mid = "dnf_main @ dnf_repos (join '','' (hummingbird_wins @ mk_prior a)) (join '','' (hummingbird_repo_exclude @ mk_excludes a)) @ extra_repos a"
  let ?tail = "if mk_image a \<noteq> [] then hermetic_lines (mk_image a) else []"
  have lists: "CHR 0x0A \<notin> set (join '','' (hummingbird_wins @ mk_prior a))" "CHR 0x0A \<notin> set (join '','' (hummingbird_repo_exclude @ mk_excludes a))"
    using plain fixed_names by (auto intro!: join_line plain_pkgs_single simp: all_single_append plain_args_def)
  have quotes: "CHR 0x0A \<notin> set dnf_open" "CHR 0x0A \<notin> set dnf_close" by (simp_all add: dnf_open_def dnf_close_def)
  have "all_single (render_lines a)"
    using plain lists quotes mock_options_single hermetic_single
    by (simp add: render_lines_def all_single_append dnf_main_single dnf_repos_single extra_repos_single plain_args_def)
  then have "split_on CHR 0x0A (render a) = render_lines a @ [[]]"
    unfolding render_def by (intro split_on_unlines) (simp add: all_single_def)
  also have "\<dots> = mock_options (mk_root a) @ dnf_open # ?mid @ dnf_close # ?tail @ [[]]" by (simp add: render_lines_def)
  finally have split: "split_on CHR 0x0A (render a) = mock_options (mk_root a) @ dnf_open # ?mid @ dnf_close # ?tail @ [[]]" .
  have mid: "list_all (\<lambda>l. l \<noteq> dnf_close) ?mid" by (simp add: main_not_close repos_not_close extra_not_close)
  have "dropWhile (\<lambda>l. l \<noteq> dnf_open) (mock_options (mk_root a) @ dnf_open # ?mid @ dnf_close # ?tail @ [[]]) =
      dnf_open # ?mid @ dnf_close # ?tail @ [[]]" by (rule dropWhile_app [OF options_not_open]) simp
  then have "dnf_document (render a) = takeWhile (\<lambda>l. l \<noteq> dnf_close) (?mid @ dnf_close # ?tail @ [[]])"
    unfolding dnf_document_def split by (simp only: One_nat_def drop_Suc_Cons drop_0)
  also have "\<dots> = ?mid" by (rule takeWhile_app [OF mid]) simp
  finally show ?thesis .
qed

text \<open>The lines dnf reads for each repository.\<close>

lemma find_start [simp]: "find P [] = None" "find P (x # xs) = (if P x then Some x else find P xs)"
  by simp_all

lemma fedora_options:
  "repo_option ''fedora'' ''excludepkgs'' (dnf_main @ dnf_repos f h @ ex) = Some f \<and>
   repo_option ''fedora'' ''priority'' (dnf_main @ dnf_repos f h @ ex) = None"
  by (simp add: repo_option_def section_lines_def dnf_main_def dnf_repos_def fedora_releasever_def)

lemma updates_options:
  "repo_option ''updates'' ''excludepkgs'' (dnf_main @ dnf_repos f h @ ex) = Some f \<and>
   repo_option ''updates'' ''priority'' (dnf_main @ dnf_repos f h @ ex) = None"
  by (simp add: repo_option_def section_lines_def dnf_main_def dnf_repos_def fedora_releasever_def)

lemma hummingbird_options:
  "repo_option ''public-hummingbird-x86_64-rpms'' ''excludepkgs'' (dnf_main @ dnf_repos f h @ extra_repos a) = Some h \<and>
   repo_option ''public-hummingbird-x86_64-rpms'' ''priority'' (dnf_main @ dnf_repos f h @ extra_repos a) = Some ''10''"
  by (simp add: repo_option_def section_lines_def dnf_main_def dnf_repos_def fedora_releasever_def)

lemma no_stage_section:
  "section_lines ''stages'' (dnf_main @ dnf_repos f h @ ex) = section_lines ''stages'' ex"
  "section_lines ''factory'' (dnf_main @ dnf_repos f h @ ex) = section_lines ''factory'' ex"
  by (simp_all add: section_lines_def dnf_main_def dnf_repos_def fedora_releasever_def)

lemma stages_options:
  "repo_option ''stages'' ''baseurl'' (dnf_main @ dnf_repos f h @ extra_repos a) = (if mk_stages a \<noteq> [] then Some (''file://'' @ mk_stages a) else None) \<and>
   repo_option ''stages'' ''priority'' (dnf_main @ dnf_repos f h @ extra_repos a) = (if mk_stages a \<noteq> [] then Some ''1'' else None)"
  by (simp add: repo_option_def no_stage_section) (simp add: section_lines_def extra_repos_def stages_repo_def factory_repo_def)

lemma factory_options:
  "repo_option ''factory'' ''baseurl'' (dnf_main @ dnf_repos f h @ extra_repos a) = (if mk_factory a \<noteq> [] then Some (mk_factory a) else None) \<and>
   repo_option ''factory'' ''priority'' (dnf_main @ dnf_repos f h @ extra_repos a) = (if mk_factory a \<noteq> [] then Some ''5'' else None)"
  by (simp add: repo_option_def no_stage_section) (simp add: section_lines_def extra_repos_def stages_repo_def factory_repo_def)

lemma split_names: "list_all plain_pkg ns \<Longrightarrow> ns \<noteq> [] \<Longrightarrow> split_on CHR '','' (join '','' ns) = ns"
  by (rule split_on_join) (auto simp: list_all_iff plain_pkg_def)

text \<open>
  whatever an earlier stage built, and whatever Hummingbird ships newer, neither Fedora repository
  answers for; what Hummingbird may not answer for it excludes; and a package is preferred from the
  earlier stages, then from the published repository, then from Hummingbird, and last from Fedora.
\<close>

theorem mock_prefers_own_builds:
  assumes plain: "plain_args a"
  defines "doc \<equiv> dnf_document (render a)"
  shows "excluded_names ''fedora'' doc = hummingbird_wins @ mk_prior a \<and>
    excluded_names ''updates'' doc = hummingbird_wins @ mk_prior a \<and>
    excluded_names ''public-hummingbird-x86_64-rpms'' doc = hummingbird_repo_exclude @ mk_excludes a \<and>
    repo_option ''stages'' ''baseurl'' doc = (if mk_stages a \<noteq> [] then Some (''file://'' @ mk_stages a) else None) \<and>
    repo_option ''factory'' ''baseurl'' doc = (if mk_factory a \<noteq> [] then Some (mk_factory a) else None) \<and>
    repo_priority ''public-hummingbird-x86_64-rpms'' doc = 10 \<and>
    repo_priority ''fedora'' doc = 99 \<and> repo_priority ''updates'' doc = 99 \<and>
    (mk_stages a \<noteq> [] \<longrightarrow> repo_priority ''stages'' doc = 1) \<and>
    (mk_factory a \<noteq> [] \<longrightarrow> repo_priority ''factory'' doc = 5)"
proof -
  have names: "split_on CHR '','' (join '','' (hummingbird_wins @ mk_prior a)) = hummingbird_wins @ mk_prior a"
    "split_on CHR '','' (join '','' (hummingbird_repo_exclude @ mk_excludes a)) = hummingbird_repo_exclude @ mk_excludes a"
    using plain fixed_names by (auto intro!: split_names simp: plain_args_def hummingbird_wins_def hummingbird_repo_exclude_def)
  have numbers: "read_nat ''10'' = 10" "read_nat ''1'' = 1" "read_nat ''5'' = 5" by code_simp+
  show ?thesis
    unfolding doc_def document_of_render [OF plain]
    by (simp add: excluded_names_def repo_priority_def fedora_options updates_options hummingbird_options stages_options factory_options names numbers)
qed

definition sample_mock :: mock_args where
  "sample_mock = \<lparr>mk_root = ''utah'', mk_factory = ''https://f'', mk_stages = ''/stages'', mk_prior = [''accountsservice''],
     mk_image = [], mk_excludes = []\<rparr>"

theorem mock_prefers_own_builds_witness:
  "plain_args sample_mock \<and> ''accountsservice'' \<in> set (excluded_names ''updates'' (dnf_document (render sample_mock))) \<and>
   repo_priority ''stages'' (dnf_document (render sample_mock)) = 1"
proof -
  have plain: "plain_args sample_mock" by code_simp
  from mock_prefers_own_builds [OF plain] plain show ?thesis by (simp add: sample_mock_def)
qed

end
