(* ===== verification/Utah_Install_Set.thy ===== *)
theory Utah_Install_Set
  imports Source_Pipeline
begin

section \<open>What Utah installs (\<open>utah_install_set.py\<close>)\<close>

text \<open>
  The packages Utah installs, resolved against a candidate repository. Utah's own installer, which says
  what the packages are, and dnf, which answers with an exit code and its output, are arguments.
\<close>

subsection \<open>The base image\<close>

definition hex64 :: "string \<Rightarrow> bool" where
  "hex64 s = (length s = 64 \<and> list_all (\<lambda>c. is_digit c \<or> CHR ''a'' \<le> c \<and> c \<le> CHR ''f'') s)"

definition image_char :: "char \<Rightarrow> bool" where
  "image_char c = (let n = of_char c :: nat in 97 \<le> n \<and> n \<le> 122 \<or> 65 \<le> n \<and> n \<le> 90 \<or> is_digit c \<or> c \<in> set ''./:_-'')"

text \<open>\<open>[a-zA-Z0-9./:_-]+@sha256:[0-9a-f]{64}\<close>, all of the text.\<close>

definition pinned_image :: "string \<Rightarrow> bool" where
  "pinned_image s = (let n = takeWhile image_char s; r = drop (length n) s in
     n \<noteq> [] \<and> starts_with ''@sha256:'' r \<and> hex64 (drop 8 r))"

text \<open>\<open>(?m)^ARG BASE_IMAGE=(\S+)$\<close>.\<close>

definition base_image_line :: "string \<Rightarrow> string option" where
  "base_image_line l = (let v = drop 15 l in
     if starts_with ''ARG BASE_IMAGE='' l \<and> v \<noteq> [] \<and> list_all (\<lambda>c. \<not> is_space c) v then Some v else None)"

definition base_image :: "string \<Rightarrow> string \<Rightarrow> string result" where
  "base_image path containerfile = (case List.map_filter base_image_line (split_on CHR 0x0A containerfile) of
      v # _ \<Rightarrow> if pinned_image v then Inr v else Inl (ValueError (path @ '' does not pin ARG BASE_IMAGE by digest''))
    | [] \<Rightarrow> Inl (ValueError (path @ '' does not pin ARG BASE_IMAGE by digest'')))"

subsection \<open>The package set\<close>

text \<open>\<open>list(dict.fromkeys(xs))\<close>.\<close>

definition fromkeys :: "'a list \<Rightarrow> 'a list" where
  "fromkeys xs = rev (remdups (rev xs))"

definition install_set :: "string list \<Rightarrow> string list \<Rightarrow> string list" where
  "install_set contract_names build_section = fromkeys (contract_names @ build_section)"

definition packages_text :: "string list \<Rightarrow> string" where
  "packages_text names = concat (map (\<lambda>n. n @ [CHR 0x0A]) names)"

definition packages_of_text :: "string \<Rightarrow> string list" where
  "packages_of_text s = filter (\<lambda>l. l \<noteq> []) (map strip (splitlines s))"

subsection \<open>What dnf answers\<close>

text \<open>\<open>dnf install\<close> of names, which gives its exit code and output.\<close>

type_synonym dnf = "string list \<Rightarrow> int \<times> string"

definition has_error :: "string \<Rightarrow> bool" where
  "has_error s = (let t = lower s in
     list_ex (\<lambda>p. contains p t)
       [''no match for argument'', ''nothing provides'', ''conflicting requests'', ''cannot install both'', ''error:'', ''failed to''])"

definition blank_to_eol :: "string \<Rightarrow> bool" where
  "blank_to_eol s = (let gap = takeWhile is_space s in drop (length gap) s = [] \<or> CHR 0x0A \<in> set gap)"

definition skip_mark :: "char \<Rightarrow> string \<Rightarrow> string" where
  "skip_mark c s = (if s \<noteq> [] \<and> hd s = c then tl s else s)"

text \<open>\<open>(?m)^Transaction Summary:?\s*$|^Nothing to do\.?\s*$\<close>, at the start of a line.\<close>

definition summary_here :: "string \<Rightarrow> bool" where
  "summary_here s =
     (starts_with ''Transaction Summary'' s \<and> blank_to_eol (skip_mark CHR '':'' (drop 19 s)) \<or>
      starts_with ''Nothing to do'' s \<and> blank_to_eol (skip_mark CHR ''.'' (drop 13 s)))"

fun summary_after :: "bool \<Rightarrow> string \<Rightarrow> bool" where
  "summary_after bol [] = False"
| "summary_after bol (c # cs) = (bol \<and> summary_here (c # cs) \<or> summary_after (c = CHR 0x0A) cs)"

definition try_install :: "dnf \<Rightarrow> string list \<Rightarrow> bool \<times> string" where
  "try_install run names = (let (code, out) = run names in
     (code \<in> {0, 1} \<and> \<not> has_error out \<and> summary_after True out, out))"

text \<open>The problem lines of dnf, most specific first. \<open>requires .*, but none\<close> stays within a line.\<close>

definition requires_none :: "string \<Rightarrow> bool" where
  "requires_none l = (case after_first ''requires '' l of None \<Rightarrow> False | Some r \<Rightarrow> contains '', but none'' r)"

definition problem_patterns :: "(string \<Rightarrow> bool) list" where
  "problem_patterns =
     [\<lambda>l. contains ''nothing provides'' l \<or> contains ''No match for argument'' l,
      \<lambda>l. requires_none l \<or> contains ''cannot install both'' l \<or> contains ''conflicts with'' l,
      \<lambda>l. contains ''conflicting requests'' l]"

definition bare_line :: "string \<Rightarrow> string" where
  "bare_line l = take 300 (dropWhile (\<lambda>c. c = CHR ''-'' \<or> c = CHR '' '') l)"

text \<open>The line after the first line that has an error, if there is one after it.\<close>

fun after_error :: "string list \<Rightarrow> string option" where
  "after_error (l # m # ls) = (if has_error l then Some m else after_error (m # ls))"
| "after_error _ = None"

definition first_problem :: "string \<Rightarrow> string" where
  "first_problem out = (let ls = filter (\<lambda>l. l \<noteq> []) (map strip (splitlines out)) in
     case List.map_filter (\<lambda>p. find p ls) problem_patterns of
       l # _ \<Rightarrow> bare_line l
     | [] \<Rightarrow> (case after_error ls of
           Some l \<Rightarrow> bare_line l
         | None \<Rightarrow> if ls = [] then ''no output'' else take 300 (last ls)))"

subsection \<open>The report\<close>

record install_report =
  ir_requested :: nat
  ir_resolved :: bool
  ir_unresolved :: "(string, string) dict"

definition together :: string where
  "together = ''(the set together)''"

definition alone :: "dnf \<Rightarrow> string \<Rightarrow> (string \<times> string) option" where
  "alone run p = (let (ok, out) = try_install run [p] in if ok then None else Some (p, first_problem out))"

definition resolve_set :: "dnf \<Rightarrow> string list \<Rightarrow> install_report" where
  "resolve_set run names =
     (let (ok, out) = try_install run names; named = dict_of_pairs (List.map_filter (alone run) names) in
      \<lparr>ir_requested = length names, ir_resolved = ok,
       ir_unresolved = (if ok then [] else if named = [] then [(together, first_problem out)] else named)\<rparr>)"

definition report_json_of :: "install_report \<Rightarrow> json" where
  "report_json_of r = JObj [(''requested'', JInt (int (ir_requested r))), (''resolved'', JBool (ir_resolved r)),
     (''unresolved'', JObj (map (\<lambda>(k, v). (k, JStr v)) (ir_unresolved r)))]"

definition summary_row :: "string \<times> string \<Rightarrow> string" where
  "summary_row = (\<lambda>(p, why). concat [''| `'', p, ''` | `'', replace_all ''|'' ''/'' why, ''` |''])"

text \<open>\<open>summary\<close>; a report of the workflow itself holds only an error.\<close>

definition install_summary :: "string + install_report \<Rightarrow> string" where
  "install_summary v = join nl ([''### Utah install set'', []] @ (case v of
      Inl e \<Rightarrow> [''**Not checked:** '' @ e]
    | Inr r \<Rightarrow>
        if ir_resolved r then [concat [''All '', show_nat (ir_requested r), '' packages Utah installs resolve against this repository plus Hummingbird.'']]
        else [concat [''**'', show_nat (length (ir_unresolved r)), '' of '', show_nat (ir_requested r),
            '' packages Utah installs do not resolve** against this repository plus Hummingbird. Publication is not blocked by this; each gets a tracking issue on main.''],
          [], ''| package | why |'', ''| --- | --- |''] @ map summary_row (sort_key fst (ir_unresolved r)))) @ nl"

text \<open>The two commands: what \<open>fetch\<close> writes, and \<open>resolve\<close> on it.\<close>

definition utah_fetch :: "string list \<Rightarrow> string list \<Rightarrow> string \<Rightarrow> (string \<times> string) result" where
  "utah_fetch contract_names build_section containerfile =
     bind_r (base_image ''Containerfile'' containerfile) (\<lambda>img.
       Inr (packages_text (install_set contract_names build_section), img @ nl))"

definition utah_resolve :: "dnf \<Rightarrow> string \<Rightarrow> install_report \<times> string \<times> string" where
  "utah_resolve run packages_txt = (let r = resolve_set run (packages_of_text packages_txt) in
     (r, dumps_indent (canonical (report_json_of r)) @ nl, install_summary (Inr r)))"

subsection \<open>Every gap is named\<close>

text \<open>A name a line of the package list can hold.\<close>

definition line_name :: "string \<Rightarrow> bool" where
  "line_name n = (n \<noteq> [] \<and> list_all (\<lambda>c. \<not> is_space c \<and> \<not> is_line_end c) n)"

lemma set_fromkeys [simp]: "set (fromkeys xs) = set xs" "distinct (fromkeys xs)"
  by (simp_all add: fromkeys_def)

lemma strip_name: "line_name n \<Longrightarrow> strip n = n"
  by (rule strip_id) (auto simp: line_name_def list_all_iff)

lemma packages_roundtrip:
  assumes "list_all line_name names"
  shows "packages_of_text (packages_text names) = names"
proof -
  have "splitlines_from [] (packages_text names) = names"
    using assms
  proof (induction names)
    case (Cons n names)
    have "list_all (\<lambda>c. \<not> is_line_end c) n" using Cons.prems by (simp add: line_name_def list_all_iff)
    then have "splitlines_from acc (n @ CHR 0x0A # s) = (rev acc @ n) # splitlines_from [] s" for acc s
      by (induction n arbitrary: acc) (auto simp: is_line_end_def split: list.split)
    with Cons show ?case by (simp add: packages_text_def)
  qed (simp add: packages_text_def)
  then have "splitlines (packages_text names) = names" by (simp add: splitlines_def)
  moreover have "map strip names = names" using assms by (simp add: list_all_iff strip_name map_idI)
  moreover have "filter (\<lambda>l. l \<noteq> []) names = names" using assms by (auto simp: list_all_iff line_name_def)
  ultimately show ?thesis by (simp add: packages_of_text_def)
qed

lemma alone_keys: "fst ` set (List.map_filter (alone run) names) = {p \<in> set names. \<not> fst (try_install run [p])}"
  by (force simp: List.map_filter_def alone_def case_prod_beta split: if_splits)

text \<open>
  C34: the resolution asks for each package of Utah's contract and build section once; it reports success
  exactly when dnf resolves all of them in one transaction, and otherwise names exactly the packages dnf
  does not resolve on their own, or the set as a whole when there is none.
\<close>

theorem install_gaps_named:
  assumes names: "list_all line_name (contract_names @ build_section)"
    and fetched: "utah_fetch contract_names build_section containerfile = Inr (txt, img)"
    and run: "utah_resolve run txt = (r, out, shown)"
  shows "ir_requested r = card (set contract_names \<union> set build_section) \<and>
    (ir_resolved r \<longleftrightarrow> fst (try_install run (install_set contract_names build_section))) \<and>
    (ir_resolved r \<longrightarrow> ir_unresolved r = []) \<and>
    (\<not> ir_resolved r \<longrightarrow>
      (let failing = {p \<in> set contract_names \<union> set build_section. \<not> fst (try_install run [p])} in
       fst ` set (ir_unresolved r) = (if failing = {} then {together} else failing))) \<and>
    pinned_image (butlast img)"
proof -
  let ?names = "install_set contract_names build_section"
  from fetched obtain base where base: "base_image ''Containerfile'' containerfile = Inr base" "txt = packages_text ?names" "img = base @ nl"
    by (auto simp: utah_fetch_def bind_r_Inr)
  have "list_all line_name ?names" using names by (auto simp: install_set_def list_all_iff)
  from packages_roundtrip [OF this] run base(2) have r: "r = resolve_set run ?names" by (simp add: utah_resolve_def Let_def)
  have set: "set ?names = set contract_names \<union> set build_section" "length ?names = card (set contract_names \<union> set build_section)"
    by (simp_all add: install_set_def) (metis distinct_card set_append set_fromkeys)
  let ?failing = "{p \<in> set contract_names \<union> set build_section. \<not> fst (try_install run [p])}"
  have keys: "fst ` set (dict_of_pairs (List.map_filter (alone run) ?names)) = ?failing" by (simp only: keys_dict_of_pairs alone_keys set)
  have none: "dict_of_pairs (List.map_filter (alone run) ?names) = [] \<longleftrightarrow> ?failing = {}" unfolding keys [symmetric] by (simp del: keys_dict_of_pairs)
  have pinned: "pinned_image base" using base(1) by (auto simp: base_image_def split: list.splits if_splits)
  have named: "ir_requested r = length ?names" "ir_resolved r = fst (try_install run ?names)"
    "ir_unresolved r = (if fst (try_install run ?names) then [] else if dict_of_pairs (List.map_filter (alone run) ?names) = []
       then [(together, first_problem (snd (try_install run ?names)))] else dict_of_pairs (List.map_filter (alone run) ?names))"
    by (simp_all add: r resolve_set_def Let_def case_prod_beta)
  have gaps: "fst ` set (ir_unresolved r) = (if ?failing = {} then {together} else ?failing)" if "\<not> ir_resolved r"
  proof (cases "?failing = {}")
    case True
    with that named none show ?thesis by simp
  next
    case False
    with none have "dict_of_pairs (List.map_filter (alone run) ?names) \<noteq> []" by blast
    with that named(2) have "ir_unresolved r = dict_of_pairs (List.map_filter (alone run) ?names)" unfolding named(3) by (simp only: if_False)
    with False keys show ?thesis by (simp only: if_False)
  qed
  show ?thesis
    unfolding Let_def
    using named(1,2) set(2) pinned base(3) gaps by (intro conjI impI) (simp_all add: nl_def named(3))
qed

text \<open>Two packages, one of which needs what nothing provides.\<close>

definition sample_dnf :: dnf where
  "sample_dnf names = (if ''b'' \<in> set names then (1, ''nothing provides c needed by b'') else (1, ''Transaction Summary:''))"

definition sample_containerfile :: string where
  "sample_containerfile = ''ARG BASE_IMAGE=q@sha256:'' @ replicate 64 CHR ''0''"

theorem install_gaps_named_witness:
  "\<exists>txt img r out shown. utah_fetch [''a''] [''b'', ''a''] sample_containerfile = Inr (txt, img) \<and>
     utah_resolve sample_dnf txt = (r, out, shown) \<and> ir_requested r = 2 \<and> fst ` set (ir_unresolved r) = {''b''}"
proof -
  have base: "base_image ''Containerfile'' sample_containerfile = Inr (''q@sha256:'' @ replicate 64 CHR ''0'')"
    by code_simp
  obtain listing img where f: "utah_fetch [''a''] [''b'', ''a''] sample_containerfile = Inr (listing, img)"
    by (simp add: utah_fetch_def base)
  obtain r j shown where r: "utah_resolve sample_dnf listing = (r, j, shown)" by (cases "utah_resolve sample_dnf listing") auto
  have names: "list_all line_name ([''a''] @ [''b'', ''a''])" by code_simp
  have dnf: "fst (try_install sample_dnf (install_set [''a''] [''b'', ''a''])) = False" "fst (try_install sample_dnf [''a'']) = True"
    "fst (try_install sample_dnf [''b'']) = False" by code_simp+
  have fail: "{p. (p = ''b'' \<or> p = ''a'') \<and> \<not> fst (try_install sample_dnf [p])} = {''b''}" using dnf by auto
  from install_gaps_named [OF names f r] f r dnf fail show ?thesis by (simp add: Let_def insert_commute)
qed

end
