(* ===== verification/Factory_Contract.thy ===== *)
theory Factory_Contract
  imports Validate
begin

section \<open>The onboarding contract (\<open>factory_contract.py\<close>)\<close>

text \<open>
  What the shared contract of the factory asks of the tree: a router that indexes every skill, front
  matter in skills, the mandate in \<open>AGENTS.md\<close>, a pinned contract, no banned files, and links that
  lead somewhere. The checkout is its files; what lies outside of it, and the text of a JSON error, are
  arguments.
\<close>

definition contract_path :: string where "contract_path = ''config/factory-contract.json''"
definition router_path :: string where "router_path = ''docs/SKILL.md''"
definition mandate_path :: string where "mandate_path = ''docs/skills/skill-improvement.md''"
definition agents_path :: string where "agents_path = ''AGENTS.md''"

definition banned_names :: "string list" where
  "banned_names = [''CHANGELOG.md'', ''CHANGES.md'', ''IMPROVEMENTS.md'', ''SESSION.md'', ''NOTES.md'', ''PLAN.md'', ''TODO.md'']"

text \<open>The markers, each with the text that \<open>repr\<close> prints of it.\<close>

definition quoted_by :: "char \<Rightarrow> string \<Rightarrow> string" where
  "quoted_by q s = q # s @ [q]"

definition agents_markers :: "(string \<times> string) list" where
  "agents_markers = map (\<lambda>m. (m, quoted_by (CHR 0x27) m))
     [''## Self-Improvement'', ''docs/SKILL.md'', ''config/factory-contract.json'', ''No changelog files'',
      ''No session notes committed'', quoted_by (CHR 0x22) ''append here'']"

subsection \<open>Reading markdown\<close>

definition front_key_char :: "char \<Rightarrow> bool" where
  "front_key_char c = (let n = of_char c :: nat in 65 \<le> n \<and> n \<le> 90 \<or> 97 \<le> n \<and> n \<le> 122 \<or> c \<in> set ''_-'')"

definition front_line :: "string \<Rightarrow> (string \<times> string) option" where
  "front_line l = (let k = takeWhile front_key_char l; r = drop (length k) l in
     if k \<noteq> [] \<and> r \<noteq> [] \<and> hd r = CHR '':'' then Some (k, strip (tl r)) else None)"

definition front_matter :: "string \<Rightarrow> (string, string) dict" where
  "front_matter s = (case splitlines s of
      [] \<Rightarrow> []
    | l # ls \<Rightarrow>
        if strip l \<noteq> ''---'' \<or> ''---'' \<notin> set ls then []
        else dict_of_pairs (List.map_filter front_line (takeWhile (\<lambda>x. x \<noteq> ''---'') ls)))"

definition is_fence :: "string \<Rightarrow> bool" where
  "is_fence l = (let r = lstrip l in starts_with ''```'' r \<or> starts_with ''~~~'' r)"

fun outside_fences :: "bool \<Rightarrow> string list \<Rightarrow> string list" where
  "outside_fences inside [] = []"
| "outside_fences inside (l # ls) =
     (if is_fence l then outside_fences (\<not> inside) ls
      else if inside then outside_fences inside ls else l # outside_fences inside ls)"

definition strip_fences :: "string \<Rightarrow> string" where
  "strip_fences s = join nl (outside_fences False (splitlines s))"

text \<open>\<open>(?<!!)\[[^\]]*\]\(([^)]+)\)\<close>: the target at a place, with what is left.\<close>

definition link_here :: "string \<Rightarrow> (string \<times> string) option" where
  "link_here s =
     (let r = dropWhile (\<lambda>c. c \<noteq> CHR '']'') (tl s); w = takeWhile (\<lambda>c. c \<noteq> CHR '')'') (drop 2 r); e = drop (length w + 2) r in
      if s \<noteq> [] \<and> hd s = CHR ''['' \<and> starts_with ''](''  r \<and> w \<noteq> [] \<and> e \<noteq> [] then Some (w, tl e) else None)"

lemma link_here_shorter: "link_here s = Some (w, r) \<Longrightarrow> length r < length s"
proof -
  assume some: "link_here s = Some (w, r)"
  let ?r = "dropWhile (\<lambda>c. c \<noteq> CHR '']'') (tl s)"
  from some have "r = tl (drop (length w + 2) ?r)" and "s \<noteq> []" by (auto simp: link_here_def Let_def split: if_splits)
  moreover have "length ?r \<le> length (tl s)" by (rule length_dropWhile_le)
  ultimately show ?thesis by (cases s) auto
qed

text \<open>\<open>findall\<close>; the first argument is whether an exclamation mark is just before.\<close>

function find_links :: "bool \<Rightarrow> string \<Rightarrow> string list" where
  "find_links marked [] = []"
| "find_links marked (c # cs) =
     (case if marked then None else link_here (c # cs) of
        Some (w, r) \<Rightarrow> w # find_links False r
      | None \<Rightarrow> find_links (c = CHR ''!'') cs)"
  by pat_completeness auto
termination
  by (relation "measure (\<lambda>(b, s). length s)") (auto dest: link_here_shorter split: if_splits)

declare find_links.simps [simp del]

definition links_of :: "string \<Rightarrow> string list" where
  "links_of s = find_links False (strip_fences s)"

definition elsewhere_link :: "string \<Rightarrow> bool" where
  "elsewhere_link w = list_ex (\<lambda>p. starts_with p w) [''http://'', ''https://'', ''mailto:'', ''#'']"

subsection \<open>Paths\<close>

text \<open>\<open>os.path.normpath\<close> on the parts of a path below the checkout; a path that leaves it starts with
  \<open>..\<close>, and an absolute one with an empty part.\<close>

definition norm_part :: "string list \<Rightarrow> string \<Rightarrow> string list" where
  "norm_part ps p =
     (if p = [] \<or> p = ''.'' then ps
      else if p = ''..'' \<and> ps \<noteq> [] \<and> last ps \<noteq> ''..'' then butlast ps
      else ps @ [p])"

definition norm_join :: "string \<Rightarrow> string \<Rightarrow> string list" where
  "norm_join dir target =
     (if starts_with ''/'' target then [] # foldl norm_part [] (split_on CHR ''/'' target)
      else foldl norm_part [] (split_on CHR ''/'' dir @ split_on CHR ''/'' target))"

definition parent_path :: "string \<Rightarrow> string" where
  "parent_path p = join ''/'' (butlast (split_on CHR ''/'' p))"

definition last_name :: "string \<Rightarrow> string" where
  "last_name p = last (split_on CHR ''/'' p)"

definition tree_has :: "rev_tree \<Rightarrow> (string list \<Rightarrow> bool) \<Rightarrow> string list \<Rightarrow> bool" where
  "tree_has t outside ps =
     (if ps \<noteq> [] \<and> hd ps \<in> {[], ''..''} then outside ps
      else ps = [] \<or> dict_has t (join ''/'' ps) \<or> list_ex (starts_with (join ''/'' ps @ ''/'')) (map fst t))"

subsection \<open>The checks\<close>

definition agent_skills :: "rev_tree \<Rightarrow> string list" where
  "agent_skills t = map (\<lambda>n. concat [''.agents/skills/'', n, ''/SKILL.md'']) (sorted_set (List.map_filter (\<lambda>p.
     case split_on CHR ''/'' p of [a, b, n, f] \<Rightarrow> if a = ''.agents'' \<and> b = ''skills'' \<and> f = ''SKILL.md'' then Some n else None | _ \<Rightarrow> None)
     (map fst t)))"

definition doc_skills :: "rev_tree \<Rightarrow> string list" where
  "doc_skills t = map (\<lambda>f. ''docs/skills/'' @ f) (sorted_set (List.map_filter (\<lambda>p.
     case split_on CHR ''/'' p of [a, b, f] \<Rightarrow> if a = ''docs'' \<and> b = ''skills'' \<and> ends_with ''.md'' f \<and> f \<noteq> ''README.md'' then Some f else None | _ \<Rightarrow> None)
     (map fst t)))"

definition all_skills :: "rev_tree \<Rightarrow> string list" where
  "all_skills t = agent_skills t @ doc_skills t"

definition indexed_by :: "string \<Rightarrow> string list list" where
  "indexed_by router = map (\<lambda>w. norm_join ''docs'' (before CHR ''#'' w)) (filter (\<lambda>w. \<not> elsewhere_link w) (links_of router))"

definition missing_front :: "string \<Rightarrow> (string, string) dict \<Rightarrow> string list" where
  "missing_front path keys = map (\<lambda>k. concat [path, '': front-matter missing '', quoted_by (CHR 0x27) k])
     (filter (\<lambda>k. dict_get keys k [] = []) [''name'', ''description''])"

definition skill_errors :: "rev_tree \<Rightarrow> string list list \<Rightarrow> string \<Rightarrow> string list" where
  "skill_errors t indexed path = missing_front path (front_matter (dict_get t path [])) @
     (if foldl norm_part [] (split_on CHR ''/'' path) \<notin> set indexed then [path @ '': not indexed in docs/SKILL.md''] else [])"

definition check_skills :: "rev_tree \<Rightarrow> string list" where
  "check_skills t = (case map_of t router_path of
      None \<Rightarrow> [''missing skill router: docs/SKILL.md'']
    | Some router \<Rightarrow>
        (if dict_has t mandate_path then [] else [''missing skill-improvement mandate: docs/skills/skill-improvement.md'']) @
        (if all_skills t = [] then [''no skills found; the factory contract requires at least one''] else []) @
        concat (map (skill_errors t (indexed_by router)) (all_skills t)))"

definition check_agents :: "rev_tree \<Rightarrow> string list" where
  "check_agents t = (case map_of t agents_path of
      None \<Rightarrow> [''missing AGENTS.md'']
    | Some s \<Rightarrow> map (\<lambda>(m, r). ''AGENTS.md: missing required onboarding marker '' @ r)
        (filter (\<lambda>(m, r). \<not> contains m s) agents_markers))"

definition sha_text :: "string \<Rightarrow> bool" where
  "sha_text s = (length s = 40 \<and> list_all (\<lambda>c. is_digit c \<or> CHR ''a'' \<le> c \<and> c \<le> CHR ''f'') s)"

definition check_contract :: "(error \<Rightarrow> string) \<Rightarrow> rev_tree \<Rightarrow> string list result" where
  "check_contract shown t = (case map_of t contract_path of
      None \<Rightarrow> Inr [''missing pinned factory contract: '' @ contract_path]
    | Some s \<Rightarrow> (case loads s of
        Inl e \<Rightarrow> if e = decode_error then Inr [concat [contract_path, '': invalid JSON: '', shown e]] else Inl e
      | Inr data \<Rightarrow>
          bind_r (get_or data ''repository'' JNull) (\<lambda>repository.
          bind_r (get_or data ''commit'' (JStr [])) (\<lambda>c.
          bind_r (as_text c) (\<lambda>commit.
          bind_r (get_or data ''contracts'' JNull) (\<lambda>contracts. Inr (
            (if py_eq repository (JStr ''projectbluefin/common'') then [] else [contract_path @ '': repository must be projectbluefin/common'']) @
            (if sha_text commit then [] else [contract_path @ '': commit must be a full 40-character SHA, not a tag'']) @
            (if truthy contracts then [] else [contract_path @ '': no contracts pinned'']))))))))"

definition check_banned :: "string list \<Rightarrow> string list" where
  "check_banned files = map (\<lambda>p. p @ '': banned by the factory contract; route the content to docs/skills/ and delete the file'')
     (filter (\<lambda>p. last_name p \<in> set banned_names) files)"

definition angles :: "char \<Rightarrow> bool" where
  "angles c = (c = CHR ''<'' \<or> c = CHR ''>'')"

text \<open>\<open>target.split()[0].strip('<>')\<close>.\<close>

definition link_target :: "string \<Rightarrow> string result" where
  "link_target w = (case split_space w of
      [] \<Rightarrow> Inl IndexError
    | x # _ \<Rightarrow> Inr (rev (dropWhile angles (rev (dropWhile angles x)))))"

definition check_link :: "rev_tree \<Rightarrow> (string list \<Rightarrow> bool) \<Rightarrow> string \<Rightarrow> string \<Rightarrow> string list result" where
  "check_link t outside path w = bind_r (link_target w) (\<lambda>target. Inr (
     if elsewhere_link target \<or> tree_has t outside (norm_join (parent_path path) (before CHR ''#'' target)) then []
     else [concat [path, '': broken link to '', target]]))"

definition is_markdown :: "string \<Rightarrow> bool" where
  "is_markdown p = (ends_with ''.md'' (last_name p) \<and> last_name p \<noteq> ''.md'')"

definition check_file_links :: "rev_tree \<Rightarrow> (string list \<Rightarrow> bool) \<Rightarrow> string \<Rightarrow> string list result" where
  "check_file_links t outside path = (case map_of t path of
      None \<Rightarrow> Inl (OSError path)
    | Some s \<Rightarrow> bind_r (map_r (check_link t outside path) (links_of s)) (\<lambda>es. Inr (concat es)))"

definition check_links :: "rev_tree \<Rightarrow> (string list \<Rightarrow> bool) \<Rightarrow> string list \<Rightarrow> string list result" where
  "check_links t outside files = bind_r (map_r (check_file_links t outside) (filter is_markdown files)) (\<lambda>es. Inr (concat es))"

text \<open>The names git lists, in \<open>ls-files -z\<close>, and the run: the errors, or the number of files checked.\<close>

definition tracked_files :: "string \<Rightarrow> string list" where
  "tracked_files out = filter (\<lambda>n. n \<noteq> []) (split_on CHR 0x00 out)"

definition factory_contract :: "(error \<Rightarrow> string) \<Rightarrow> rev_tree \<Rightarrow> (string list \<Rightarrow> bool) \<Rightarrow> string \<Rightarrow> string list result" where
  "factory_contract shown t outside listed = (let files = tracked_files listed in
     bind_r (check_contract shown t) (\<lambda>es.
     bind_r (check_links t outside files) (\<lambda>ls.
       Inr (es @ check_agents t @ check_skills t @ check_banned files @ ls))))"

subsection \<open>A tree without errors\<close>

text \<open>The first link of a text that has no bracket before it.\<close>

lemma first_link:
  assumes "CHR ''['' \<notin> set a" "a = [] \<or> last a \<noteq> CHR ''!''" "CHR '']'' \<notin> set b" "CHR '')'' \<notin> set w" "w \<noteq> []"
  shows "find_links False (a @ ''['' @ b @ ''](''  @ w @ '')'' @ c) = w # find_links False c"
proof -
  let ?s = "CHR ''['' # b @ CHR '']'' # CHR ''('' # w @ CHR '')'' # c"
  have drop: "dropWhile (\<lambda>c. c \<noteq> CHR '']'') (b @ CHR '']'' # r) = CHR '']'' # r" for r
    using assms(3) by (induction b) auto
  have take: "takeWhile (\<lambda>c. c \<noteq> CHR '')'') (w @ CHR '')'' # c) = w" using assms(4) by (induction w) auto
  have here: "link_here ?s = Some (w, c)" using assms(5) by (simp add: link_here_def Let_def drop take)
  have skip: "find_links m (a @ ?s) = w # find_links False c" if "CHR ''['' \<notin> set a" "a = [] \<longrightarrow> \<not> m" "a \<noteq> [] \<longrightarrow> last a \<noteq> CHR ''!''" for a m
    using that
  proof (induction a arbitrary: m)
    case Nil
    then show ?case using here by (simp add: find_links.simps)
  next
    case (Cons x a)
    have "link_here (x # a @ ?s) = None" using Cons.prems(1) by (auto simp: link_here_def Let_def)
    with Cons show ?case by (cases a) (auto simp: find_links.simps)
  qed
  from skip [of a False] assms(1,2) show ?thesis by (cases "a = []") simp_all
qed

lemma map_r_concat_Nil: "map_r f xs = Inr yss \<Longrightarrow> concat yss = [] \<Longrightarrow> x \<in> set xs \<Longrightarrow> f x = Inr []"
  by (auto dest!: map_r_mem)

text \<open>
  C36: a run without an error shows that every markdown file git lists is there and each of its links
  leads elsewhere or to something in the tree, that no listed file is banned, that every skill names and
  describes itself and is the target of a link of the router, and that the contract is pinned to a full
  commit.
\<close>

theorem contract_met:
  assumes "factory_contract shown t outside listed = Inr []"
  shows "(\<forall>p \<in> set (tracked_files listed). last_name p \<notin> set banned_names \<and>
      (is_markdown p \<longrightarrow> (\<exists>s. map_of t p = Some s \<and> (\<forall>w \<in> set (links_of s). \<exists>target. link_target w = Inr target \<and>
        (elsewhere_link target \<or> tree_has t outside (norm_join (parent_path p) (before CHR ''#'' target))))))) \<and>
    all_skills t \<noteq> [] \<and>
    (\<forall>p \<in> set (all_skills t). \<forall>key \<in> {''name'', ''description''}. dict_get (front_matter (dict_get t p [])) key [] \<noteq> []) \<and>
    (\<exists>router. map_of t router_path = Some router \<and> (\<forall>p \<in> set (all_skills t). \<exists>w \<in> set (links_of router). \<not> elsewhere_link w \<and>
      norm_join ''docs'' (before CHR ''#'' w) = foldl norm_part [] (split_on CHR ''/'' p))) \<and>
    (\<exists>s data commit. map_of t contract_path = Some s \<and> loads s = Inr data \<and> get_or data ''commit'' (JStr []) = Inr (JStr commit) \<and> sha_text commit)"
proof -
  from assms have parts: "check_contract shown t = Inr []" "check_links t outside (tracked_files listed) = Inr []"
    "check_skills t = []" "check_banned (tracked_files listed) = []"
    by (auto simp: factory_contract_def Let_def bind_r_Inr)
  have banned: "last_name p \<notin> set banned_names" if "p \<in> set (tracked_files listed)" for p
    using parts(4) that by (auto simp: check_banned_def filter_empty_conv)
  have linked: "\<exists>s. map_of t p = Some s \<and> (\<forall>w \<in> set (links_of s). \<exists>target. link_target w = Inr target \<and>
        (elsewhere_link target \<or> tree_has t outside (norm_join (parent_path p) (before CHR ''#'' target))))"
    if p: "p \<in> set (tracked_files listed)" "is_markdown p" for p
  proof -
    from parts(2) obtain ess where "map_r (check_file_links t outside) (filter is_markdown (tracked_files listed)) = Inr ess" "concat ess = []"
      by (auto simp: check_links_def bind_r_Inr)
    with p have no_error: "check_file_links t outside p = Inr []" by (auto dest!: map_r_mem)
    then obtain s es where s: "map_of t p = Some s" "map_r (check_link t outside p) (links_of s) = Inr es" "concat es = []"
      by (auto simp: check_file_links_def bind_r_Inr split: option.splits)
    have "\<exists>target. link_target w = Inr target \<and> (elsewhere_link target \<or> tree_has t outside (norm_join (parent_path p) (before CHR ''#'' target)))"
      if "w \<in> set (links_of s)" for w
      using map_r_concat_Nil [OF s(2,3) that] by (auto simp: check_link_def bind_r_Inr split: if_splits)
    with s(1) show ?thesis by blast
  qed
  from parts(3) obtain router where router: "map_of t router_path = Some router" "all_skills t \<noteq> []"
    "\<forall>p \<in> set (all_skills t). skill_errors t (indexed_by router) p = []"
    by (auto simp: check_skills_def split: option.splits if_splits)
  have front: "dict_get (front_matter (dict_get t p [])) key [] \<noteq> []" if "p \<in> set (all_skills t)" "key \<in> {''name'', ''description''}" for p key
    using router(3) that by (auto simp: skill_errors_def missing_front_def split: if_splits)
  have indexed: "\<exists>w \<in> set (links_of router). \<not> elsewhere_link w \<and> norm_join ''docs'' (before CHR ''#'' w) = foldl norm_part [] (split_on CHR ''/'' p)"
    if p: "p \<in> set (all_skills t)" for p
  proof -
    from router(3) p have "foldl norm_part [] (split_on CHR ''/'' p) \<in> set (indexed_by router)"
      by (auto simp: skill_errors_def split: if_splits)
    then show ?thesis by (auto simp: indexed_by_def)
  qed
  have pinned: "\<exists>s data commit. map_of t contract_path = Some s \<and> loads s = Inr data \<and> get_or data ''commit'' (JStr []) = Inr (JStr commit) \<and> sha_text commit"
  proof -
    from parts(1) obtain s data c commit where s: "map_of t contract_path = Some s" "loads s = Inr data" "get_or data ''commit'' (JStr []) = Inr c"
      "as_text c = Inr commit" "sha_text commit"
      by (auto simp: check_contract_def bind_r_Inr split: option.splits sum.splits if_splits)
    from s(4) have "c = JStr commit" by (cases c) (auto simp: as_text_def)
    with s show ?thesis by blast
  qed
  have "\<exists>router. map_of t router_path = Some router \<and> (\<forall>p \<in> set (all_skills t). \<exists>w \<in> set (links_of router). \<not> elsewhere_link w \<and>
      norm_join ''docs'' (before CHR ''#'' w) = foldl norm_part [] (split_on CHR ''/'' p))"
    by (intro exI [of _ router] conjI ballI router(1) indexed)
  then show ?thesis by (intro conjI ballI impI banned linked router(2) front pinned)
qed

text \<open>A tree that meets the contract.\<close>

definition sample_skill :: string where
  "sample_skill = join nl [''---'', ''name: a'', ''description: b'', ''---'', ''[up](../SKILL.md)'']"

definition onboarded_tree :: rev_tree where
  "onboarded_tree =
     [(contract_path, dumps_default (JObj [(''repository'', JStr ''projectbluefin/common''), (''commit'', JStr (replicate 40 CHR ''0'')),
        (''contracts'', JList [JStr ''c''])])),
      (router_path, ''[m](skills/skill-improvement.md)''), (mandate_path, sample_skill),
      (agents_path, concat (map fst agents_markers))]"

theorem contract_met_witness:
  "factory_contract (\<lambda>_. []) onboarded_tree (\<lambda>_. False) (router_path @ [CHR 0x00] @ mandate_path @ [CHR 0x00]) = Inr [] \<and>
   (\<exists>s. map_of onboarded_tree mandate_path = Some s) \<and> dict_get (front_matter (dict_get onboarded_tree mandate_path [])) ''name'' [] \<noteq> []"
proof -
  have run: "factory_contract (\<lambda>_. []) onboarded_tree (\<lambda>_. False) (router_path @ [CHR 0x00] @ mandate_path @ [CHR 0x00]) = Inr []"
    by code_simp
  have mem: "mandate_path \<in> set (tracked_files (router_path @ [CHR 0x00] @ mandate_path @ [CHR 0x00]))" "is_markdown mandate_path"
    "mandate_path \<in> set (all_skills onboarded_tree)" by code_simp+
  from contract_met [OF run] mem run show ?thesis by blast
qed

lemma blank_link_raises: "find_links False ''[a]( )'' = ['' ''] \<and> link_target '' '' = Inl IndexError"
  by code_simp

lemma deleted_file_raises: "map_of t p = None \<Longrightarrow> check_file_links t outside p = Inl (OSError p)"
  by (simp add: check_file_links_def)

end
