(* ===== verification/Queue_Wait.thy ===== *)
theory Queue_Wait
  imports Validate "HOL-Library.Log_Nat"
begin

section \<open>How long CI runs wait (\<open>queue_wait.py\<close>)\<close>

text \<open>
  Runs and jobs are read page by page from the Actions API, which is an argument: a function of the
  address that gives a document or an HTTP status. The waits are whole seconds; percentiles are computed
  in double precision, which is written out as rationals rounded to 53 bits.
\<close>

subsection \<open>Double precision\<close>

definition pow2 :: "int \<Rightarrow> rat" where
  "pow2 n = (if 0 \<le> n then 2 ^ nat n else 1 / 2 ^ nat (- n))"

text \<open>The largest \<open>e\<close> with \<open>2^e \<le> x\<close>, of a positive number.\<close>

definition binary_exponent :: "rat \<Rightarrow> int" where
  "binary_exponent x = (let (p, q) = quotient_of x;
     a = int (floorlog 2 (nat p)) - int (floorlog 2 (nat q)) in
     if pow2 a \<le> x then a else a - 1)"

definition round_even :: "rat \<Rightarrow> int" where
  "round_even y = (let f = \<lfloor>y\<rfloor>; d = y - of_int f in
     if d < 1 / 2 \<or> d = 1 / 2 \<and> even f then f else f + 1)"

text \<open>The nearest number with 53 significant bits, ties to even; no overflow and no subnormals.\<close>

definition round_double :: "rat \<Rightarrow> rat" where
  "round_double x = (if x = 0 then 0 else
     let s = binary_exponent \<bar>x\<bar> - 52 in of_int (round_even (x * pow2 (- s))) * pow2 s)"

subsection \<open>Timestamps\<close>

definition leap :: "nat \<Rightarrow> bool" where
  "leap y = (4 dvd y \<and> (\<not> 100 dvd y \<or> 400 dvd y))"

definition month_days :: "nat \<Rightarrow> nat list" where
  "month_days y = [31, if leap y then 29 else 28, 31, 30, 31, 30, 31, 31, 30, 31, 30, 31]"

definition day_number :: "nat \<Rightarrow> nat \<Rightarrow> nat \<Rightarrow> nat" where
  "day_number y m d = 365 * (y - 1) + (y - 1) div 4 - (y - 1) div 100 + (y - 1) div 400 + sum_list (take (m - 1) (month_days y)) + d"

text \<open>
  \<open>datetime.fromisoformat\<close> of \<open>YYYY-MM-DDThh:mm:ssZ\<close>, the form the API sends, in seconds; any other form
  is not modelled.
\<close>

definition stamp_digits :: "string \<Rightarrow> bool" where
  "stamp_digits s = (length s = 20 \<and> s ! 4 = CHR ''-'' \<and> s ! 7 = CHR ''-'' \<and> s ! 10 = CHR ''T'' \<and> s ! 13 = CHR '':'' \<and>
     s ! 16 = CHR '':'' \<and> s ! 19 = CHR ''Z'' \<and> list_all (\<lambda>i. is_digit (s ! i)) [0, 1, 2, 3, 5, 6, 8, 9, 11, 12, 14, 15, 17, 18])"

definition stamp_part :: "string \<Rightarrow> nat \<Rightarrow> nat \<Rightarrow> nat" where
  "stamp_part s i n = read_nat (take n (drop i s))"

definition instant :: "string \<Rightarrow> int result" where
  "instant s = (if \<not> stamp_digits s then Inl Unmodelled
     else let y = stamp_part s 0 4; mo = stamp_part s 5 2; d = stamp_part s 8 2;
              h = stamp_part s 11 2; mi = stamp_part s 14 2; sec = stamp_part s 17 2 in
       if y < 1 \<or> mo < 1 \<or> 12 < mo \<or> d < 1 \<or> month_days y ! (mo - 1) < d \<or> 23 < h \<or> 59 < mi \<or> 59 < sec
       then Inl (ValueError ''timestamp'')
       else Inr (int (((day_number y mo d * 24 + h) * 60 + mi) * 60 + sec)))"

definition parse_timestamp :: "json \<Rightarrow> int option result" where
  "parse_timestamp v = (if \<not> truthy v then Inr None
     else case v of JStr s \<Rightarrow> bind_r (instant s) (\<lambda>n. Inr (Some n)) | _ \<Rightarrow> Inl AttributeError)"

subsection \<open>Waits\<close>

definition is_skipped :: "json \<Rightarrow> bool result" where
  "is_skipped job = bind_r (get_or job ''conclusion'' JNull) (\<lambda>c. Inr (py_eq c (JStr ''skipped'')))"

definition stamp_of :: "json \<Rightarrow> string \<Rightarrow> int option result" where
  "stamp_of v k = bind_r (get_or v k JNull) parse_timestamp"

definition started_of :: "json \<Rightarrow> int list result" where
  "started_of job = bind_r (is_skipped job) (\<lambda>s.
     if s then Inr [] else bind_r (stamp_of job ''started_at'') (\<lambda>ts. Inr (case ts of None \<Rightarrow> [] | Some n \<Rightarrow> [n])))"

definition first_started_at :: "json list \<Rightarrow> int option result" where
  "first_started_at jobs = bind_r (map_r started_of jobs) (\<lambda>ts.
     Inr (case concat ts of [] \<Rightarrow> None | n # ns \<Rightarrow> Some (fold min ns n)))"

definition queue_wait_seconds :: "json \<Rightarrow> json list \<Rightarrow> int option result" where
  "queue_wait_seconds run jobs =
     bind_r (get_or run ''run_started_at'' JNull) (\<lambda>a.
     bind_r (if truthy a then Inr a else get_or run ''created_at'' JNull) (\<lambda>c.
     bind_r (parse_timestamp c) (\<lambda>created. case created of
       None \<Rightarrow> Inr None
     | Some begin_at \<Rightarrow> bind_r (first_started_at jobs) (\<lambda>started. Inr (map_option (\<lambda>n. n - begin_at) started)))))"

definition job_wait_seconds :: "json \<Rightarrow> int option result" where
  "job_wait_seconds job = bind_r (is_skipped job) (\<lambda>s.
     if s then Inr None
     else bind_r (stamp_of job ''created_at'') (\<lambda>created. bind_r (stamp_of job ''started_at'') (\<lambda>started.
       Inr (case (created, started) of (Some a, Some b) \<Rightarrow> Some (b - a) | _ \<Rightarrow> None))))"

subsection \<open>Percentiles\<close>

text \<open>\<open>(pct / 100.0) * (len(ordered) - 1)\<close>, and the interpolation between its neighbours.\<close>

definition percentile_rank :: "nat \<Rightarrow> nat \<Rightarrow> rat" where
  "percentile_rank pct n = round_double (round_double (of_nat pct / 100) * of_nat (n - 1))"

definition percentile :: "int list \<Rightarrow> nat \<Rightarrow> rat" where
  "percentile values pct = (let ordered = sort values in
     if ordered = [] then 0
     else if length ordered = 1 then of_int (ordered ! 0)
     else let rank = percentile_rank pct (length ordered); low = nat \<lfloor>rank\<rfloor>; high = nat \<lceil>rank\<rceil> in
       if low = high then of_int (ordered ! low)
       else round_double (of_int (ordered ! low) +
         round_double (of_int (ordered ! high - ordered ! low) * (rank - of_nat low))))"

subsection \<open>Pages of the API\<close>

definition http_error :: "nat \<Rightarrow> error" where
  "http_error code = OSError (''HTTPError '' @ show_nat code)"

type_synonym api = "string \<Rightarrow> json result"

definition per_page :: nat where "per_page = 100"

definition runs_url :: "string \<Rightarrow> string \<Rightarrow> string \<Rightarrow> nat \<Rightarrow> string" where
  "runs_url owner repo workflow page = concat [''https://api.github.com/repos/'', owner, ''/'', repo, ''/actions/workflows/'', workflow,
     ''/runs?per_page='', show_nat per_page, ''&page='', show_nat page, ''&status=completed'']"

definition jobs_url :: "string \<Rightarrow> string \<Rightarrow> string \<Rightarrow> nat \<Rightarrow> string" where
  "jobs_url owner repo run_id page = concat [''https://api.github.com/repos/'', owner, ''/'', repo, ''/actions/runs/'', run_id,
     ''/jobs?per_page='', show_nat per_page, ''&page='', show_nat page]"

definition page_items :: "json \<Rightarrow> string \<Rightarrow> json list result" where
  "page_items payload key = bind_r (get_or payload key (JList [])) (\<lambda>v.
     case v of JList xs \<Rightarrow> Inr xs | _ \<Rightarrow> if truthy v then Inl Unmodelled else Inr [])"

text \<open>Each page that is not empty brings the loop closer to the limit.\<close>

function fetch_runs_from :: "(nat \<Rightarrow> json result) \<Rightarrow> nat \<Rightarrow> nat \<Rightarrow> json list \<Rightarrow> json list result" where
  "fetch_runs_from get limit page got =
     (if limit \<le> length got then Inr (take limit got)
      else bind_r (get page) (\<lambda>payload. bind_r (page_items payload ''workflow_runs'') (\<lambda>batch.
        if batch = [] then Inr (take limit got) else fetch_runs_from get limit (page + 1) (got @ batch))))"
  by pat_completeness auto
termination
  by (relation "measure (\<lambda>(get, limit, page, got). limit - length got)") (auto simp: length_greater_0_conv [symmetric] simp del: length_greater_0_conv)

declare fetch_runs_from.simps [simp del]

definition fetch_runs :: "api \<Rightarrow> string \<Rightarrow> string \<Rightarrow> string \<Rightarrow> int \<Rightarrow> json list result" where
  "fetch_runs get owner repo workflow limit = fetch_runs_from (\<lambda>page. get (runs_url owner repo workflow page)) (nat limit) 1 []"

text \<open>The jobs of a run: a status 404 on any page gives none; the loop trusts \<open>total_count\<close>, so that it
  ends is not for all replies.\<close>

definition page_total :: "json \<Rightarrow> int option result" where
  "page_total payload = bind_r (get_or payload ''total_count'' JNull) (\<lambda>v.
     if v = JNull then Inr None else case as_int v of Some n \<Rightarrow> Inr (Some n) | None \<Rightarrow> Inl TypeError)"

datatype step = Done "json list result" | More "json list"

definition jobs_step :: "(nat \<Rightarrow> json result) \<Rightarrow> nat \<Rightarrow> json list \<Rightarrow> step" where
  "jobs_step get page jobs = (case get page of
      Inl e \<Rightarrow> Done (if e = http_error 404 then Inr [] else Inl e)
    | Inr payload \<Rightarrow> (case page_items payload ''jobs'' of
        Inl e \<Rightarrow> Done (Inl e)
      | Inr batch \<Rightarrow>
          if batch = [] then Done (Inr jobs)
          else case page_total payload of
            Inl e \<Rightarrow> Done (Inl e)
          | Inr None \<Rightarrow> Done (Inr (jobs @ batch))
          | Inr (Some n) \<Rightarrow> if n \<le> int (length (jobs @ batch)) then Done (Inr (jobs @ batch)) else More (jobs @ batch)))"

partial_function (option) fetch_jobs_from :: "(nat \<Rightarrow> json result) \<Rightarrow> nat \<Rightarrow> json list \<Rightarrow> json list result option" where
  "fetch_jobs_from get page jobs = (case jobs_step get page jobs of
      Done r \<Rightarrow> Some r
    | More js \<Rightarrow> fetch_jobs_from get (page + 1) js)"

declare fetch_jobs_from.simps [code]

definition fetch_jobs :: "api \<Rightarrow> string \<Rightarrow> string \<Rightarrow> string \<Rightarrow> json list result option" where
  "fetch_jobs get owner repo run_id = fetch_jobs_from (\<lambda>page. get (jobs_url owner repo run_id page)) 1 []"

subsection \<open>Measuring\<close>

definition runner_pool :: "json \<Rightarrow> string result" where
  "runner_pool job =
     bind_r (get_or job ''labels'' JNull) (\<lambda>v.
     bind_r (if truthy v then iterate v else Inr []) (\<lambda>ls.
     bind_r (map_r py_str (filter truthy ls)) (\<lambda>labels.
       if labels \<noteq> [] then Inr (join '','' (sort labels))
       else bind_r (get_or job ''runner_group_name'' JNull) (\<lambda>g.
         if truthy g then (case g of JStr s \<Rightarrow> Inr s | _ \<Rightarrow> Inl Unmodelled) else Inr ''unknown''))))"

record run_wait =
  rw_workflow :: string
  rw_number :: json
  rw_branch :: json
  rw_conclusion :: json
  rw_wait :: "int option"

record job_wait =
  jw_pool :: string
  jw_id :: json
  jw_wait :: int
  jw_name :: json
  jw_branch :: json
  jw_conclusion :: json

definition run_record :: "string \<Rightarrow> json \<Rightarrow> json list \<Rightarrow> run_wait result" where
  "run_record workflow run jobs =
     bind_r (queue_wait_seconds run jobs) (\<lambda>wait.
     bind_r (get_or run ''run_number'' JNull) (\<lambda>n. bind_r (get_or run ''head_branch'' JNull) (\<lambda>b.
     bind_r (get_or run ''conclusion'' JNull) (\<lambda>c.
       Inr \<lparr>rw_workflow = workflow, rw_number = n, rw_branch = b, rw_conclusion = c, rw_wait = wait\<rparr>))))"

definition job_record :: "json \<Rightarrow> json \<Rightarrow> job_wait list result" where
  "job_record run job = bind_r (job_wait_seconds job) (\<lambda>w. case w of
      None \<Rightarrow> Inr []
    | Some wait \<Rightarrow>
        bind_r (runner_pool job) (\<lambda>pool. bind_r (get_or job ''runner_id'' JNull) (\<lambda>i. bind_r (get_or job ''name'' JNull) (\<lambda>n.
        bind_r (get_or run ''head_branch'' JNull) (\<lambda>b. bind_r (get_or run ''conclusion'' JNull) (\<lambda>c.
          Inr [\<lparr>jw_pool = pool, jw_id = i, jw_wait = wait, jw_name = n, jw_branch = b, jw_conclusion = c\<rparr>]))))))"

text \<open>Steps that may not end or may raise.\<close>

definition after :: "'a result option \<Rightarrow> ('a \<Rightarrow> 'b result option) \<Rightarrow> 'b result option" where
  "after m f = (case m of None \<Rightarrow> None | Some (Inl e) \<Rightarrow> Some (Inl e) | Some (Inr x) \<Rightarrow> f x)"

fun each_r :: "('a \<Rightarrow> 'b result option) \<Rightarrow> 'a list \<Rightarrow> 'b list result option" where
  "each_r f [] = Some (Inr [])"
| "each_r f (x # xs) = after (f x) (\<lambda>y. after (each_r f xs) (\<lambda>ys. Some (Inr (y # ys))))"

definition measure_run :: "api \<Rightarrow> string \<Rightarrow> string \<Rightarrow> string \<Rightarrow> json \<Rightarrow> (run_wait \<times> job_wait list) result option" where
  "measure_run get owner repo workflow run =
     after (Some (bind_r (item run ''id'') py_str)) (\<lambda>run_id.
     after (fetch_jobs get owner repo run_id) (\<lambda>jobs. Some (
       bind_r (run_record workflow run jobs) (\<lambda>r.
       bind_r (map_r (job_record run) jobs) (\<lambda>js. Inr (r, concat js))))))"

definition measure_workflow :: "api \<Rightarrow> string \<Rightarrow> string \<Rightarrow> int \<Rightarrow> string \<Rightarrow> (run_wait \<times> job_wait list) list result option" where
  "measure_workflow get owner repo limit workflow =
     after (Some (fetch_runs get owner repo workflow limit)) (\<lambda>rs. each_r (measure_run get owner repo workflow) rs)"

definition measure_waits :: "api \<Rightarrow> string \<Rightarrow> string \<Rightarrow> string list \<Rightarrow> int \<Rightarrow> (run_wait list \<times> job_wait list) result option" where
  "measure_waits get owner repo workflows limit =
     after (each_r (measure_workflow get owner repo limit) workflows) (\<lambda>ms.
       Some (Inr (map fst (concat ms), concat (map snd (concat ms)))))"

subsection \<open>The summary\<close>

record wait_stats =
  ws_count :: nat
  ws_p50 :: rat
  ws_p90 :: rat
  ws_max :: int
  ws_min :: int
  ws_exceeded :: bool
  ws_worst :: "run_wait option"

definition stats_of :: "int list \<Rightarrow> rat option \<Rightarrow> run_wait option \<Rightarrow> wait_stats" where
  "stats_of seconds threshold worst =
     \<lparr>ws_count = length seconds, ws_p50 = percentile seconds 50, ws_p90 = percentile seconds 90,
      ws_max = (case seconds of [] \<Rightarrow> 0 | n # ns \<Rightarrow> fold max ns n), ws_min = (case seconds of [] \<Rightarrow> 0 | n # ns \<Rightarrow> fold min ns n),
      ws_exceeded = (case threshold of None \<Rightarrow> False | Some th \<Rightarrow> seconds \<noteq> [] \<and> th < percentile seconds 50),
      ws_worst = worst\<rparr>"

text \<open>\<open>max(..., key=...)\<close>: the first of the largest.\<close>

fun worst_of :: "run_wait list \<Rightarrow> run_wait option" where
  "worst_of [] = None"
| "worst_of (w # waits) = (case rw_wait w of
      None \<Rightarrow> worst_of waits
    | Some n \<Rightarrow> (case worst_of waits of
        None \<Rightarrow> Some w
      | Some v \<Rightarrow> if the (rw_wait v) \<le> n then Some w else Some v))"

definition wait_bucket :: "rat option \<Rightarrow> run_wait list \<Rightarrow> wait_stats" where
  "wait_bucket threshold waits = stats_of (List.map_filter rw_wait waits) threshold (worst_of waits)"

definition pool_stats :: "job_wait list \<Rightarrow> (string \<times> wait_stats) list" where
  "pool_stats js = map (\<lambda>p. (p, stats_of (map jw_wait (filter (\<lambda>j. (if jw_pool j = [] then ''unknown'' else jw_pool j) = p) js)) None None))
     (sorted_set (map (\<lambda>j. if jw_pool j = [] then ''unknown'' else jw_pool j) js))"

record wait_report =
  wr_observed :: nat
  wr_measured :: nat
  wr_threshold :: "rat option"
  wr_overall :: wait_stats
  wr_workflows :: "(string \<times> wait_stats) list"
  wr_jobs :: wait_stats
  wr_pools :: "(string \<times> wait_stats) list"

definition summarize_waits :: "run_wait list \<Rightarrow> rat option \<Rightarrow> job_wait list \<Rightarrow> wait_report" where
  "summarize_waits waits threshold js =
     \<lparr>wr_observed = length waits, wr_measured = length (List.map_filter rw_wait waits), wr_threshold = threshold,
      wr_overall = wait_bucket threshold (filter (\<lambda>w. rw_wait w \<noteq> None) waits),
      wr_workflows = map (\<lambda>f. (f, wait_bucket threshold (filter (\<lambda>w. rw_workflow w = f) waits))) (rev (remdups (rev (map rw_workflow waits)))),
      wr_jobs = stats_of (map jw_wait js) None None, wr_pools = pool_stats js\<rparr>"

subsection \<open>The command\<close>

text \<open>\<open>_coerce_seconds\<close>: seconds, or a number with a unit; the units in the order the code tries them.\<close>

definition time_units :: "(string \<times> nat) list" where
  "time_units = [(''s'', 1), (''sec'', 1), (''second'', 1), (''seconds'', 1), (''m'', 60), (''min'', 60), (''minute'', 60), (''minutes'', 60),
     (''h'', 3600), (''hr'', 3600), (''hour'', 3600), (''hours'', 3600)]"

definition all_digits :: "string \<Rightarrow> bool" where
  "all_digits s = (s \<noteq> [] \<and> list_all is_digit s)"

definition unit_seconds :: "string \<Rightarrow> string \<times> nat \<Rightarrow> rat option" where
  "unit_seconds s = (\<lambda>(suffix, factor). let number = strip (take (length s - length suffix) s) in
     if ends_with suffix s \<and> all_digits number then Some (round_double (round_double (of_nat (read_nat number)) * of_nat factor)) else None)"

definition coerce_seconds :: "string \<Rightarrow> rat result" where
  "coerce_seconds v = (let s = lower (strip v) in
     if all_digits s then Inr (round_double (of_nat (read_nat s)))
     else case List.map_filter (unit_seconds s) time_units of
       x # _ \<Rightarrow> Inr x
     | [] \<Rightarrow> Inl (ValueError (concat [''could not parse duration '', CHR 0x27 # v @ [CHR 0x27]])))"

record wait_args =
  wa_owner :: string
  wa_repo :: string
  wa_workflows :: "string list"
  wa_limit :: int
  wa_threshold :: "rat option"
  wa_token :: string

text \<open>The exit code and the report: 2 when the API could not be read, 1 for the alert.\<close>

definition queue_wait :: "api \<Rightarrow> wait_args \<Rightarrow> (int \<times> wait_report option) result option" where
  "queue_wait get a =
     (if wa_token a = [] then Some (Inr (2, None))
      else case measure_waits get (wa_owner a) (wa_repo a) (if wa_workflows a = [] then [''rebuild-rpms.yml''] else wa_workflows a) (wa_limit a) of
        None \<Rightarrow> None
      | Some (Inl (OSError e)) \<Rightarrow> Some (Inr (2, None))
      | Some (Inl e) \<Rightarrow> Some (Inl e)
      | Some (Inr (waits, js)) \<Rightarrow> let r = summarize_waits waits (wa_threshold a) js in
          Some (Inr (if ws_exceeded (wr_overall r) then 1 else 0, Some r)))"

subsection \<open>Every page is read\<close>

text \<open>An API that serves a list of items in pages, and says how many there are.\<close>

definition page_of :: "nat \<Rightarrow> 'a list \<Rightarrow> 'a list" where
  "page_of p xs = take per_page (drop (per_page * (p - 1)) xs)"

definition serves_runs :: "(nat \<Rightarrow> json result) \<Rightarrow> json list \<Rightarrow> bool" where
  "serves_runs get rs = (\<forall>p \<ge> 1. \<exists>v. get p = Inr v \<and> page_items v ''workflow_runs'' = Inr (page_of p rs))"

definition serves_jobs :: "(nat \<Rightarrow> json result) \<Rightarrow> json list \<Rightarrow> bool" where
  "serves_jobs get js = (\<forall>p \<ge> 1. \<exists>v. get p = Inr v \<and> page_items v ''jobs'' = Inr (page_of p js) \<and>
     page_total v = Inr (Some (int (length js))))"

lemma next_page: "take (per_page * k) xs @ page_of (Suc k) xs = take (per_page * Suc k) xs"
  unfolding page_of_def by (simp add: take_add [symmetric] add.commute)

lemma page_empty: "page_of (Suc k) xs = [] \<longleftrightarrow> length xs \<le> per_page * k"
  by (auto simp: page_of_def per_page_def)

lemma runs_from_page:
  assumes "serves_runs get rs"
  shows "fetch_runs_from get limit (Suc k) (take (per_page * k) rs) = Inr (take limit rs)"
proof (induction "Suc (length rs) - per_page * k" arbitrary: k rule: less_induct)
  case less
  obtain v where v: "get (Suc k) = Inr v" "page_items v ''workflow_runs'' = Inr (page_of (Suc k) rs)"
    using assms by (auto simp: serves_runs_def)
  show ?case
  proof (cases "limit \<le> length (take (per_page * k) rs) \<or> length rs \<le> per_page * k")
    case True
    then show ?thesis by (auto simp: fetch_runs_from.simps [of get limit "Suc k"] v page_empty min_def)
  next
    case False
    then have "\<not> limit \<le> per_page * k" by auto
    with False have "fetch_runs_from get limit (Suc k) (take (per_page * k) rs) = fetch_runs_from get limit (Suc (Suc k)) (take (per_page * Suc k) rs)"
      by (simp add: fetch_runs_from.simps [of get limit "Suc k"] v page_empty next_page del: mult_Suc_right)
    also have "\<dots> = Inr (take limit rs)" by (rule less) (use False in \<open>simp add: per_page_def; arith\<close>)
    finally show ?thesis .
  qed
qed

lemma jobs_from_page:
  assumes "serves_jobs get js" and "per_page * k \<le> length js"
  shows "fetch_jobs_from get (Suc k) (take (per_page * k) js) = Some (Inr js)"
  using assms(2)
proof (induction "Suc (length js) - per_page * k" arbitrary: k rule: less_induct)
  case less
  obtain v where v: "get (Suc k) = Inr v" "page_items v ''jobs'' = Inr (page_of (Suc k) js)" "page_total v = Inr (Some (int (length js)))"
    using assms(1) by (auto simp: serves_jobs_def)
  show ?case
  proof (cases "length js \<le> per_page * Suc k")
    case True
    then have "jobs_step get (Suc k) (take (per_page * k) js) = Done (Inr js)"
      using less.prems by (auto simp: jobs_step_def v page_empty next_page simp del: mult_Suc_right)
    then show ?thesis by (simp add: fetch_jobs_from.simps)
  next
    case False
    then have "jobs_step get (Suc k) (take (per_page * k) js) = More (take (per_page * Suc k) js)"
      using less.prems by (simp add: jobs_step_def v page_empty next_page del: mult_Suc_right length_append) (simp add: per_page_def)?
    then have "fetch_jobs_from get (Suc k) (take (per_page * k) js) = fetch_jobs_from get (Suc (Suc k)) (take (per_page * Suc k) js)"
      by (subst fetch_jobs_from.simps) (simp del: mult_Suc_right)
    also have "\<dots> = Some (Inr js)" by (rule less) (use False in \<open>simp_all add: per_page_def\<close>)
    finally show ?thesis .
  qed
qed

text \<open>
  C27: however many pages a workflow's runs and a run's jobs fill, the loops end and give the newest runs
  up to the limit, and every job.
\<close>

theorem every_page_read:
  assumes "serves_runs (\<lambda>p. get (runs_url owner repo workflow p)) rs"
    and "serves_jobs (\<lambda>p. get (jobs_url owner repo run_id p)) js"
  shows "fetch_runs get owner repo workflow limit = Inr (take (nat limit) rs) \<and>
    fetch_jobs get owner repo run_id = Some (Inr js)"
  using runs_from_page [OF assms(1), of "nat limit" 0] jobs_from_page [OF assms(2), of 0]
  by (simp add: fetch_runs_def fetch_jobs_def)

subsection \<open>Percentiles in double precision\<close>

lemma pow2_pos [simp]: "0 < pow2 n"
  by (simp add: pow2_def)

lemma pow2_nat: "pow2 (int n) = 2 ^ n" "pow2 (- int n) = 1 / 2 ^ n"
  by (simp_all add: pow2_def)

lemma pow2_powr: "real_of_rat (pow2 n) = 2 powr real_of_int n"
  by (simp add: pow2_def of_rat_power of_rat_divide powr_real_of_int inverse_eq_divide)

lemma pow2_mono: "m \<le> n \<Longrightarrow> pow2 m \<le> pow2 n"
  by (simp add: pow2_powr of_rat_less_eq [symmetric, where 'a = real])

lemma pow2_less: "pow2 m < pow2 n \<Longrightarrow> m < n"
  by (meson leD linorder_not_less pow2_mono)

lemma pow2_add: "pow2 (m + n) = pow2 m * pow2 n"
proof -
  have "real_of_rat (pow2 (m + n)) = real_of_rat (pow2 m * pow2 n)" by (simp add: pow2_powr of_rat_mult powr_add)
  then show ?thesis by (simp only: of_rat_eq_iff)
qed

lemma floorlog_between: "0 < n \<Longrightarrow> pow2 (int (floorlog 2 n) - 1) \<le> of_nat n \<and> of_nat n \<le> pow2 (int (floorlog 2 n))"
proof -
  assume n: "0 < n"
  then have "2 ^ (floorlog 2 n - 1) \<le> n" "n < 2 ^ floorlog 2 n" using floorlog_bounds [of n 2] by simp_all
  then have "of_nat (2 ^ (floorlog 2 n - 1)) \<le> (of_nat n :: rat)" "(of_nat n :: rat) \<le> of_nat (2 ^ floorlog 2 n)"
    by (simp_all only: of_nat_le_iff less_imp_le)
  moreover have "1 \<le> floorlog 2 n" using n by (simp add: floorlog_def)
  then have eq: "int (floorlog 2 n) - 1 = int (floorlog 2 n - 1)" by simp
  ultimately show ?thesis unfolding eq pow2_nat(1) by (simp only: of_nat_power of_nat_numeral simp_thms)
qed

lemma binary_exponent_le:
  assumes "0 < x"
  shows "pow2 (binary_exponent x) \<le> x"
proof -
  obtain p q where pq: "quotient_of x = (p, q)" by (cases "quotient_of x")
  then have q: "0 < q" and x: "x = of_int p / of_int q" by (simp_all add: quotient_of_denom_pos quotient_of_div)
  with assms have p: "0 < p" by (simp add: zero_less_divide_iff)
  let ?a = "int (floorlog 2 (nat p)) - int (floorlog 2 (nat q))"
  have "pow2 (?a - 1) * of_int q \<le> pow2 (?a - 1) * pow2 (int (floorlog 2 (nat q)))"
    using floorlog_between [of "nat q"] q by (intro mult_left_mono) (simp_all add: less_imp_le)
  also have "\<dots> = pow2 (int (floorlog 2 (nat p)) - 1)" by (simp add: pow2_add [symmetric])
  also have "\<dots> \<le> of_int p" using floorlog_between [of "nat p"] p by simp
  finally have "pow2 (?a - 1) \<le> x" using q by (simp add: x pos_le_divide_eq)
  then show ?thesis by (simp add: binary_exponent_def pq Let_def)
qed

lemma round_even_bounds: "y \<le> of_int k \<Longrightarrow> round_even y \<le> k" "of_int k \<le> y \<Longrightarrow> k \<le> round_even y"
proof -
  assume le: "y \<le> of_int k"
  show "round_even y \<le> k"
  proof (cases "y = of_int \<lfloor>y\<rfloor>")
    case True
    with le show ?thesis by (simp add: round_even_def Let_def)
  next
    case False
    then have "of_int \<lfloor>y\<rfloor> < y" using of_int_floor_le [of y] by linarith
    with le have "of_int \<lfloor>y\<rfloor> < (of_int k :: rat)" by linarith
    then have "\<lfloor>y\<rfloor> < k" by (simp only: of_int_less_iff)
    then show ?thesis by (simp add: round_even_def Let_def)
  qed
next
  assume "of_int k \<le> y"
  then have "k \<le> \<lfloor>y\<rfloor>" by (simp add: le_floor_iff)
  then show "k \<le> round_even y" by (simp add: round_even_def Let_def)
qed

text \<open>Rounding keeps the order to a number \<open>m / 2^j\<close> that a double can hold.\<close>

lemma round_double_side:
  assumes "\<bar>x\<bar> < pow2 (53 - int j)"
  shows "x \<le> of_int m / 2 ^ j \<Longrightarrow> round_double x \<le> of_int m / 2 ^ j" "of_int m / 2 ^ j \<le> x \<Longrightarrow> of_int m / 2 ^ j \<le> round_double x"
proof -
  let ?e = "binary_exponent \<bar>x\<bar>"
  have both: "(x \<le> of_int m / 2 ^ j \<longrightarrow> round_double x \<le> of_int m / 2 ^ j) \<and> (of_int m / 2 ^ j \<le> x \<longrightarrow> of_int m / 2 ^ j \<le> round_double x)"
  proof (cases "x = 0")
    case False
    then have "pow2 ?e \<le> \<bar>x\<bar>" by (intro binary_exponent_le) simp
    with assms have "?e < 53 - int j" by (intro pow2_less) linarith
    then have "0 \<le> 52 - ?e - int j" by linarith
    then obtain d where "52 - ?e - int j = int d" by (rule zero_le_imp_eq_int [THEN exE])
    then have d: "52 - ?e = int (j + d)" by linarith
    let ?y = "x * 2 ^ (j + d)"
    have scale: "pow2 (- (?e - 52)) = 2 ^ (j + d)" "pow2 (?e - 52) = 1 / 2 ^ (j + d)"
    proof -
      have "- (?e - 52) = int (j + d)" "?e - 52 = - int (j + d)" using d by linarith+
      then show "pow2 (- (?e - 52)) = 2 ^ (j + d)" "pow2 (?e - 52) = 1 / 2 ^ (j + d)" by (simp_all only: pow2_nat)
    qed
    have r: "round_double x = of_int (round_even ?y) / 2 ^ (j + d)"
      using False unfolding round_double_def Let_def scale by (simp del: power_add)
    have m: "of_int m / 2 ^ j = (of_int (m * 2 ^ d) / 2 ^ (j + d) :: rat)" by (simp add: power_add)
    have "(x \<le> of_int m / 2 ^ j \<longleftrightarrow> ?y \<le> of_int (m * 2 ^ d)) \<and> (of_int m / 2 ^ j \<le> x \<longleftrightarrow> of_int (m * 2 ^ d) \<le> ?y)"
      unfolding m by (simp add: pos_le_divide_eq pos_divide_le_eq del: power_add)
    then show ?thesis
      unfolding r m using round_even_bounds(1) [of ?y "m * 2 ^ d"] round_even_bounds(2) [of "m * 2 ^ d" ?y]
      by (auto simp: divide_right_mono simp del: power_add of_int_mult of_int_power intro!: divide_right_mono)
  qed (auto simp: round_double_def)
  then show "x \<le> of_int m / 2 ^ j \<Longrightarrow> round_double x \<le> of_int m / 2 ^ j" "of_int m / 2 ^ j \<le> x \<Longrightarrow> of_int m / 2 ^ j \<le> round_double x" by blast+
qed

lemma round_double_exact: "\<bar>of_int m / 2 ^ j :: rat\<bar> < pow2 (53 - int j) \<Longrightarrow> round_double (of_int m / 2 ^ j) = of_int m / 2 ^ j"
  using round_double_side [of "of_int m / 2 ^ j" j m] by (intro antisym) auto

text \<open>Values whose differences a double can hold, and not more of them than that.\<close>

definition small_waits :: "int list \<Rightarrow> bool" where
  "small_waits xs = (list_all (\<lambda>x. \<bar>x\<bar> < 2 ^ 52) xs \<and> length xs \<le> 2 ^ 52)"

lemma pow2_53: "pow2 53 = 2 ^ 53" "pow2 52 = 2 ^ 52"
  by (simp_all add: pow2_def)

lemma round_int_side:
  assumes "\<bar>x\<bar> < 2 ^ 53"
  shows "x \<le> of_int m \<Longrightarrow> round_double x \<le> of_int m" "of_int m \<le> x \<Longrightarrow> of_int m \<le> round_double x"
  using round_double_side [of x 0 m] assms by (simp_all add: pow2_53)

lemma percentile_rank_bounds:
  assumes "pct \<le> 100" "0 < n" "n \<le> 2 ^ 52"
  shows "0 \<le> percentile_rank pct n \<and> percentile_rank pct n \<le> of_nat (n - 1)"
proof -
  let ?q = "round_double (of_nat pct / 100)"
  have pct: "0 \<le> (of_nat pct / 100 :: rat)" "(of_nat pct / 100 :: rat) \<le> 1" using assms(1) by simp_all
  then have q: "0 \<le> ?q" "?q \<le> 1" using round_int_side [of "of_nat pct / 100" 0] round_int_side [of "of_nat pct / 100" 1] by simp_all
  have "of_nat (n - 1) \<le> (of_nat (2 ^ 52) :: rat)" using assms(3) by (simp only: of_nat_le_iff)
  then have big: "of_nat (n - 1) < (2 ^ 53 :: rat)" by simp
  have p: "0 \<le> ?q * of_nat (n - 1)" "?q * of_nat (n - 1) \<le> of_nat (n - 1)" using q by (simp_all add: mult_left_le_one_le)
  with big have "\<bar>?q * of_nat (n - 1)\<bar> < 2 ^ 53" by linarith
  from round_int_side [OF this, of 0] round_int_side [OF this, of "int (n - 1)"] p show ?thesis by (simp add: percentile_rank_def)
qed

lemma small_sorted:
  assumes "small_waits xs" "i \<le> j" "j < length xs"
  defines "v \<equiv> sort xs"
  shows "v ! i \<le> v ! j" "\<bar>v ! i\<bar> < 2 ^ 52" "\<bar>v ! j\<bar> < 2 ^ 52"
proof -
  show "v ! i \<le> v ! j" using assms by (simp add: sorted_nth_mono)
  have "v ! i \<in> set xs" "v ! j \<in> set xs" using assms by (metis length_sort nth_mem set_sort le_less_trans)+
  with assms(1) show "\<bar>v ! i\<bar> < 2 ^ 52" "\<bar>v ! j\<bar> < 2 ^ 52" by (auto simp: small_waits_def list_all_iff)
qed

lemma interpolate_bounds:
  assumes "L \<le> H" "\<bar>L\<bar> < 2 ^ 52" "\<bar>H\<bar> < 2 ^ 52" "0 \<le> f" "f \<le> 1"
  defines "r \<equiv> round_double (of_int L + round_double (of_int (H - L) * f))"
  shows "of_int L \<le> r \<and> r \<le> of_int H"
proof -
  have ints: "of_int L \<le> (of_int H :: rat)" "\<bar>of_int L :: rat\<bar> < 2 ^ 52" "\<bar>of_int H :: rat\<bar> < 2 ^ 52"
  proof -
    show "of_int L \<le> (of_int H :: rat)" using assms(1) by simp
    have "of_int \<bar>L\<bar> < (of_int (2 ^ 52) :: rat)" "of_int \<bar>H\<bar> < (of_int (2 ^ 52) :: rat)" using assms(2,3) by (simp_all only: of_int_less_iff)
    then show "\<bar>of_int L :: rat\<bar> < 2 ^ 52" "\<bar>of_int H :: rat\<bar> < 2 ^ 52" by simp_all
  qed
  let ?d = "of_int (H - L) :: rat"
  have d: "0 \<le> ?d" "?d < 2 ^ 53" using ints by (simp_all add: abs_less_iff)
  have p: "0 \<le> ?d * f" "?d * f \<le> ?d" using d assms(4,5) by (simp_all add: mult_left_le)
  with d have "\<bar>?d * f\<bar> < 2 ^ 53" by linarith
  from round_int_side [OF this, of 0] round_int_side [OF this, of "H - L"] p
  have r: "0 \<le> round_double (?d * f)" "round_double (?d * f) \<le> ?d" by simp_all
  let ?x = "of_int L + round_double (?d * f)"
  have x: "of_int L \<le> ?x" "?x \<le> of_int H" using r by simp_all
  with ints have "\<bar>?x\<bar> < 2 ^ 53" by (simp add: abs_less_iff)
  from round_int_side [OF this, of L] round_int_side [OF this, of H] x show ?thesis by (simp add: r_def)
qed

text \<open>
  C25: in double precision, a percentile of at most 100 of waits below \<open>2^52\<close> seconds never reads past the
  ordered waits and lies between the smallest and the largest.
\<close>

theorem percentile_within:
  assumes "small_waits xs" and "xs \<noteq> []" and "pct \<le> 100"
  shows "of_int (Min (set xs)) \<le> percentile xs pct \<and> percentile xs pct \<le> of_int (Max (set xs)) \<and>
    nat \<lceil>percentile_rank pct (length xs)\<rceil> < length xs"
proof -
  let ?v = "sort xs" and ?rank = "percentile_rank pct (length xs)"
  let ?low = "nat \<lfloor>?rank\<rfloor>" and ?high = "nat \<lceil>?rank\<rceil>"
  from assms have rank: "0 \<le> ?rank" "?rank \<le> of_nat (length xs - 1)"
    using percentile_rank_bounds [of pct "length xs"] by (simp_all add: small_waits_def)
  have "\<lceil>?rank\<rceil> \<le> int (length xs - 1)" using rank(2) by (simp add: ceiling_le_iff)
  then have high: "?high < length xs" using assms(2) by (cases xs) auto
  have low: "?low \<le> ?high" by (intro nat_mono floor_le_ceiling)
  have mem: "of_int (Min (set xs)) \<le> (of_int (?v ! i) :: rat) \<and> (of_int (?v ! i) :: rat) \<le> of_int (Max (set xs))" if "i < length xs" for i
  proof -
    have "?v ! i \<in> set xs" using that by (metis length_sort nth_mem set_sort)
    then show ?thesis by simp
  qed
  have "0 \<le> ?rank - of_nat ?low" "?rank - of_nat ?low \<le> 1" using rank(1) floor_correct [of ?rank] by simp_all
  then have "of_int (?v ! ?low) \<le> round_double (of_int (?v ! ?low) + round_double (of_int (?v ! ?high - ?v ! ?low) * (?rank - of_nat ?low))) \<and>
      round_double (of_int (?v ! ?low) + round_double (of_int (?v ! ?high - ?v ! ?low) * (?rank - of_nat ?low))) \<le> of_int (?v ! ?high)"
    using small_sorted [OF assms(1) low high] by (intro interpolate_bounds) simp_all
  moreover have "?v \<noteq> []" using assms(2) by (metis set_empty set_sort)
  ultimately show ?thesis
    using mem [OF high] mem [of ?low] mem [of 0] low high unfolding percentile_def Let_def by auto
qed

text \<open>The 50th percentile is the median.\<close>

definition median :: "int list \<Rightarrow> rat" where
  "median xs = (let v = sort xs; n = length xs in of_int (v ! ((n - 1) div 2) + v ! (n div 2)) / 2)"

lemma round_half: "\<bar>k\<bar> < 2 ^ 53 \<Longrightarrow> round_double (of_int k / 2) = of_int k / 2"
proof -
  assume "\<bar>k\<bar> < 2 ^ 53"
  then have "of_int \<bar>k\<bar> < (of_int (2 ^ 53) :: rat)" by (simp only: of_int_less_iff)
  then have "\<bar>of_int k / 2 ^ 1 :: rat\<bar> < pow2 (53 - int 1)" by (simp add: pow2_53 abs_divide)
  from round_double_exact [OF this] show ?thesis by simp
qed

lemma median_rank:
  assumes "n \<le> 2 ^ 52"
  shows "percentile_rank 50 n = of_nat (n - 1) / 2"
proof -
  have half: "round_double (1 / 2) = 1 / 2" using round_half [of 1] by simp
  have "\<bar>int (n - 1)\<bar> < 2 ^ 53" using assms by simp
  from round_half [OF this] have "round_double (of_nat (n - 1) / 2) = of_nat (n - 1) / 2" by simp
  then show ?thesis by (simp add: percentile_rank_def half)
qed

lemma median_parts:
  fixes k :: nat
  shows "nat \<lfloor>of_nat k / 2 :: rat\<rfloor> = k div 2" "nat \<lceil>of_nat k / 2 :: rat\<rceil> = Suc k div 2"
proof -
  have "\<lfloor>of_nat k / 2 :: rat\<rfloor> = int (k div 2)" using floor_divide_of_nat_eq [of k 2] by simp
  then show "nat \<lfloor>of_nat k / 2 :: rat\<rfloor> = k div 2" by simp
  have "\<lceil>of_nat k / 2 :: rat\<rceil> = int (Suc k div 2)"
  proof (rule ceiling_unique)
    show "of_int (int (Suc k div 2)) - 1 < (of_nat k / 2 :: rat)" by (cases "even k") (auto elim!: evenE oddE)
    show "of_nat k / 2 \<le> (of_int (int (Suc k div 2)) :: rat)" by (cases "even k") (auto elim!: evenE oddE)
  qed
  then show "nat \<lceil>of_nat k / 2 :: rat\<rceil> = Suc k div 2" by simp
qed

lemma percentile_median:
  assumes "small_waits xs" and "xs \<noteq> []"
  shows "percentile xs 50 = median xs"
proof -
  let ?v = "sort xs" and ?n = "length xs"
  have n: "0 < ?n" "?n \<le> 2 ^ 52" using assms by (auto simp: small_waits_def)
  have rank: "percentile_rank 50 ?n = of_nat (?n - 1) / 2" by (rule median_rank [OF n(2)])
  have ne: "?v \<noteq> []" using assms(2) by (metis set_empty set_sort)
  have parts: "nat \<lfloor>percentile_rank 50 ?n\<rfloor> = (?n - 1) div 2" "nat \<lceil>percentile_rank 50 ?n\<rceil> = ?n div 2"
    using n(1) by (simp_all add: rank median_parts)
  show ?thesis
  proof (cases "even ?n")
    case True
    then obtain m where m: "?n = 2 * Suc m" using n(1) by (metis evenE not0_implies_Suc mult_0_right less_irrefl)
    let ?L = "?v ! m" and ?H = "?v ! Suc m"
    have idx: "(?n - 1) div 2 = m" "?n div 2 = Suc m" using m by simp_all
    note small = small_sorted [OF assms(1), of m "Suc m"]
    have bounds: "?L \<le> ?H" "\<bar>?L\<bar> < 2 ^ 52" "\<bar>?H\<bar> < 2 ^ 52" using small m by simp_all
    have frac: "percentile_rank 50 ?n - of_nat m = 1 / 2" unfolding rank unfolding m by (simp add: field_simps)
    have r1: "round_double (of_int (?H - ?L) * (1 / 2)) = of_int (?H - ?L) / 2"
      using round_half [of "?H - ?L"] bounds by (simp add: abs_less_iff)
    have r2: "round_double (of_int ?L + of_int (?H - ?L) / 2) = of_int (?L + ?H) / 2"
    proof -
      have "of_int ?L + of_int (?H - ?L) / 2 = (of_int (?L + ?H) / 2 :: rat)" by (simp add: field_simps)
      moreover have "round_double (of_int (?L + ?H) / 2) = of_int (?L + ?H) / 2" by (rule round_half) (use bounds in \<open>simp add: abs_less_iff\<close>)
      ultimately show ?thesis by (simp only:)
    qed
    have c: "?n \<noteq> 1" "m \<noteq> Suc m" using m by presburger simp
    show ?thesis
      unfolding percentile_def median_def Let_def length_sort parts idx frac by (simp only: ne c r1 r2 if_False)
  next
    case False
    then have idx: "(?n - 1) div 2 = ?n div 2" by presburger
    show ?thesis
      unfolding percentile_def median_def Let_def length_sort parts idx using ne by auto
  qed
qed

text \<open>
  C29: once the waits are measured, the run alerts exactly when a threshold is given and the median of the
  measured waits is above it: no rounding moves the median across the threshold, and a run that started
  no job does not count.
\<close>

theorem alert_is_median:
  assumes measured: "measure_waits get (wa_owner a) (wa_repo a) (if wa_workflows a = [] then [''rebuild-rpms.yml''] else wa_workflows a)
      (wa_limit a) = Some (Inr (waits, js))"
    and token: "wa_token a \<noteq> []" and small: "small_waits (List.map_filter rw_wait waits)"
  shows "\<exists>r. queue_wait get a = Some (Inr (
      case wa_threshold a of None \<Rightarrow> 0
      | Some th \<Rightarrow> if List.map_filter rw_wait waits \<noteq> [] \<and> th < median (List.map_filter rw_wait waits) then 1 else 0, Some r)) \<and>
    wr_observed r = length waits \<and> wr_measured r = length (List.map_filter rw_wait waits)"
proof -
  have same: "List.map_filter rw_wait (filter (\<lambda>w. rw_wait w \<noteq> None) waits) = List.map_filter rw_wait waits"
    by (induction waits) (auto simp: List.map_filter_def)
  have "ws_exceeded (wr_overall (summarize_waits waits (wa_threshold a) js)) \<longleftrightarrow>
      (case wa_threshold a of None \<Rightarrow> False | Some th \<Rightarrow> List.map_filter rw_wait waits \<noteq> [] \<and> th < percentile (List.map_filter rw_wait waits) 50)"
    by (simp add: summarize_waits_def wait_bucket_def stats_of_def same del: not_None_eq)
  then have exceeded: "ws_exceeded (wr_overall (summarize_waits waits (wa_threshold a) js)) \<longleftrightarrow>
      (case wa_threshold a of None \<Rightarrow> False | Some th \<Rightarrow> List.map_filter rw_wait waits \<noteq> [] \<and> th < median (List.map_filter rw_wait waits))"
    using percentile_median [OF small] by (auto split: option.splits)
  let ?r = "summarize_waits waits (wa_threshold a) js"
  have "queue_wait get a = Some (Inr (if ws_exceeded (wr_overall ?r) then 1 else 0, Some ?r))"
    by (simp add: queue_wait_def measured token Let_def)
  moreover have "wr_observed ?r = length waits" "wr_measured ?r = length (List.map_filter rw_wait waits)"
    by (simp_all add: summarize_waits_def)
  ultimately show ?thesis unfolding exceeded by (intro exI [of _ ?r]) (auto split: option.splits)
qed

subsection \<open>Examples\<close>

definition queued_job :: "nat \<Rightarrow> json" where
  "queued_job i = JObj [(''created_at'', JStr ''2026-01-01T00:00:00Z''), (''started_at'', JStr ''2026-01-01T00:01:00Z''), (''name'', JInt (int i))]"

definition sample_actions_run :: json where
  "sample_actions_run = JObj [(''id'', JInt 7), (''created_at'', JStr ''2026-01-01T00:00:00Z'')]"

theorem percentile_within_witness: "60 \<le> percentile [120, 60, 600] 90 \<and> percentile [120, 60, 600] 90 \<le> 600"
proof -
  have "small_waits [120, 60, 600]" by (simp add: small_waits_def)
  from percentile_within [OF this, of 90] show ?thesis by simp
qed

text \<open>One run with 150 jobs, on two pages.\<close>

definition queued_jobs :: "json list" where
  "queued_jobs = map queued_job [0..<150]"

definition runs_page :: "nat \<Rightarrow> json" where
  "runs_page p = JObj [(''workflow_runs'', JList (page_of p [sample_actions_run]))]"

definition jobs_page :: "nat \<Rightarrow> json" where
  "jobs_page p = JObj [(''total_count'', JInt 150), (''jobs'', JList (page_of p queued_jobs))]"

theorem every_page_read_witness:
  "\<exists>get. fetch_runs get ''o'' ''r'' ''w'' 50 = Inr [sample_actions_run] \<and> fetch_jobs get ''o'' ''r'' ''7'' = Some (Inr queued_jobs)"
proof -
  define get :: api where "get url = (if \<exists>p. url = jobs_url ''o'' ''r'' ''7'' p then Inr (jobs_page (SOME p. url = jobs_url ''o'' ''r'' ''7'' p))
     else Inr (runs_page (SOME p. url = runs_url ''o'' ''r'' ''w'' p)))" for url
  have jobs_inj: "jobs_url ''o'' ''r'' ''7'' p = jobs_url ''o'' ''r'' ''7'' q \<longleftrightarrow> p = q" for p q
    by (simp add: jobs_url_def show_nat_inj)
  have runs_inj: "runs_url ''o'' ''r'' ''w'' p = runs_url ''o'' ''r'' ''w'' q \<longleftrightarrow> p = q" for p q
    by (simp add: runs_url_def show_nat_inj)
  have apart: "runs_url ''o'' ''r'' ''w'' p \<noteq> jobs_url ''o'' ''r'' ''7'' q" for p q by (simp add: runs_url_def jobs_url_def)
  have jobs: "get (jobs_url ''o'' ''r'' ''7'' p) = Inr (jobs_page p)" for p by (auto simp: get_def jobs_inj)
  have listed: "get (runs_url ''o'' ''r'' ''w'' p) = Inr (runs_page p)" for p by (simp add: get_def apart runs_inj)
  have "serves_runs (\<lambda>p. get (runs_url ''o'' ''r'' ''w'' p)) [sample_actions_run]"
    by (simp add: serves_runs_def listed runs_page_def page_items_def get_or_def)
  moreover have "serves_jobs (\<lambda>p. get (jobs_url ''o'' ''r'' ''7'' p)) queued_jobs"
    by (simp add: serves_jobs_def jobs jobs_page_def page_items_def page_total_def get_or_def as_int_def queued_jobs_def)
  ultimately show ?thesis
    using every_page_read [of get "''o''" "''r''" "''w''" "[sample_actions_run]" "''7''" queued_jobs 50] by (intro exI [of _ get]) simp
qed

definition one_wait :: "json \<Rightarrow> api" where
  "one_wait run url = (if contains ''/jobs?'' url then Inr (JObj [(''jobs'', JList [queued_job 0])])
     else if contains ''&page=1&'' url then Inr (JObj [(''workflow_runs'', JList [run])]) else Inr (JObj []))"

definition sample_wait_args :: wait_args where
  "sample_wait_args = \<lparr>wa_owner = ''o'', wa_repo = ''r'', wa_workflows = [], wa_limit = 50, wa_threshold = Some 30, wa_token = ''t''\<rparr>"

theorem alert_is_median_witness:
  "\<exists>r. queue_wait (one_wait sample_actions_run) sample_wait_args = Some (Inr (1, Some r)) \<and> wr_measured r = 1"
proof -
  let ?w = "\<lparr>rw_workflow = ''rebuild-rpms.yml'', rw_number = JNull, rw_branch = JNull, rw_conclusion = JNull, rw_wait = Some 60\<rparr>"
  let ?j = "\<lparr>jw_pool = ''unknown'', jw_id = JNull, jw_wait = 60, jw_name = JInt 0, jw_branch = JNull, jw_conclusion = JNull\<rparr>"
  have stamps: "instant ''2026-01-01T00:00:00Z'' = Inr 63902908800" "instant ''2026-01-01T00:01:00Z'' = Inr 63902908860"
    by (simp_all add: instant_def stamp_digits_def stamp_part_def read_nat_def digit_val_def is_digit_def Let_def day_number_def month_days_def leap_def)
  have run: "measure_waits (one_wait sample_actions_run) ''o'' ''r'' [''rebuild-rpms.yml''] 50 = Some (Inr ([?w], [?j]))"
  proof -
    have listed: "fetch_runs (one_wait sample_actions_run) ''o'' ''r'' ''rebuild-rpms.yml'' 50 = Inr [sample_actions_run]" by code_simp
    have jobs: "fetch_jobs (one_wait sample_actions_run) ''o'' ''r'' ''7'' = Some (Inr [queued_job 0])" by code_simp
    have id: "bind_r (item sample_actions_run ''id'') py_str = Inr ''7''" by code_simp
    have "run_record ''rebuild-rpms.yml'' sample_actions_run [queued_job 0] = Inr ?w"
      by (simp add: run_record_def queue_wait_seconds_def first_started_at_def started_of_def is_skipped_def stamp_of_def
          parse_timestamp_def sample_actions_run_def queued_job_def get_or_def stamps py_eq.simps as_int_def)
    moreover have "job_record sample_actions_run (queued_job 0) = Inr [?j]"
      by (simp add: job_record_def job_wait_seconds_def is_skipped_def stamp_of_def runner_pool_def
          parse_timestamp_def sample_actions_run_def queued_job_def get_or_def stamps py_eq.simps as_int_def)
    ultimately show ?thesis by (simp add: measure_waits_def measure_workflow_def measure_run_def after_def listed jobs id)
  qed
  from alert_is_median [of "one_wait sample_actions_run" sample_wait_args "[?w]" "[?j]"] run
  show ?thesis by (auto simp: sample_wait_args_def small_waits_def List.map_filter_def median_def)
qed

text \<open>A reply that is no JSON is not caught, and an uncaught error ends with the exit code of the alert.\<close>

lemma undecodable_reply_raises: "queue_wait (\<lambda>_. Inl decode_error) sample_wait_args = Some (Inl decode_error)"
  by code_simp

end
