(* ===== verification/Spec2Isabelle.thy ===== *)
theory Spec2Isabelle
  imports Build_Waves Rebuild_Plan Cache_Key Factory_State Gate_Workflow Bump_Gate Rebuild_Matrix
    Canary_Verify Fork_Canary Backlog_Report Multimedia_Closure Repository_Contract Rawhide_Reimport
    Package_Index Rawhide_Scan Workflow_Checks Source_Bootstrap
    Factory_Manifest Mock_Config Utah_Install_Set Factory_Contract Queue_Wait
begin

text \<open>
  The package factory: a verification library for the Python tools under \<open>src/tools/\<close>.

  \<^bold>\<open>What the program does.\<close> The repository holds RPM recipes and the workflows that rebuild
  them in waves and publish the result as one repository image. The workflows are plumbing; their
  decisions are pure Python over parsed documents: which recipes to build (\<open>rebuild_plan.py\<close>,
  \<open>rebuild_matrix.py\<close>), in which wave (\<open>build_graph.py\<close>), under which cache key
  (\<open>package_cache_key.py\<close>, \<open>factory_state.py\<close>), what may be published after failures
  (\<open>publish_gate.py\<close>), how sources are fetched and verified (\<open>source_pipeline.py\<close>),
  which version bumps are proposed and applied (\<open>upstream_bump.py\<close>) and
  which may merge (\<open>bump_gate.py\<close>), whether the pipeline
  itself was proven (\<open>canary.py\<close>, \<open>fork_canary.py\<close>, \<open>bot_pr_trust.py\<close>), and which
  inventories agree with the recipes (\<open>package_inventory.py\<close>, \<open>source_lock_order.py\<close>,
  \<open>packit_workflow.py\<close>, \<open>dist_bump.py\<close>, \<open>factory_build_backlog.py\<close>,
  \<open>multimedia_closure.py\<close>), and the contract of the whole repository (\<open>validate.py\<close>).

  \<^bold>\<open>How the code is read.\<close> An exception is the value \<open>Inl e\<close> of a result, a dict an association
  list with distinct keys, a set a list that enumerates it in any order, a string a list of
  characters below 256, a JSON or TOML document a value of \<open>json\<close>; a value the code would treat
  in a way the model does not cover is the error \<open>Unmodelled\<close>, never a made-up result. A regular
  expression is a function that scans the text. Programs and libraries the tools call (\<open>gh\<close>,
  \<open>git\<close>, the RPM build, SHA-256, the XML, YAML and TOML parsers, decompressors) are arguments.

  \<^bold>\<open>The theories.\<close>

  \<^item> \<open>Py_Prelude\<close>, \<open>Py_Strings\<close>, \<open>Py_Json\<close>, \<open>Json_Parse\<close>: results, dicts, sets, the string
    methods, \<open>json.dumps\<close> and \<open>json.loads\<close>. The parser has fuel, the length of the text and
    one more, which \<open>parse_bound\<close> shows is enough; what \<open>dumps\<close> writes is read back
    (\<open>loads_dumps\<close> and its variants), and what is read is well formed (\<open>loads_wf\<close>).
  \<^item> \<open>Build_Graph\<close>, \<open>Scc_Tarjan\<close>, \<open>Scc_Correct\<close>, \<open>Build_Waves\<close> (\<open>build_graph.py\<close>): the
    capabilities of recipes, the iterative Tarjan statement by statement, its correctness through an
    invariant of the work stack, the cycle breaking, which uses its component solver through the
    contract \<open>scc_solver\<close>, and the memoised longest-path recursion, which is total.
  \<^item> \<open>Inventory\<close>, \<open>Dist_Bump\<close>: the source lock contract (stages 0 to 10), feeds, recipe
    directories, matrix chunks of at most 250, lock order, and release counters.
  \<^item> \<open>Primary_Xml\<close>, \<open>Rebuild_Plan\<close>: what a published listing says, the selection of packages,
    the reverse closure (at depth one or transitive, both instances of \<open>closure_depth\<close>) and the
    14 stage outputs with 4 early publications. \<open>Rebuild_Matrix\<close> is the planner's \<open>main\<close>: it
    composes the state, the graph, the plan and the waves.
  \<^item> \<open>Cache_Key\<close>, \<open>Factory_State\<close>: the byte streams that are hashed, and the state a publish
    records in an image label and the next run reads back.
  \<^item> \<open>Publish_Gate\<close>, \<open>Gate_Workflow\<close> (\<open>publish_gate.py\<close>): the repository a run with failures
    may publish, its reports, and the check that the workflow enforces the gate.
  \<^item> \<open>Bump_Gate\<close>: which bump pull requests merge, which packages are held back, and the trimming
    of a branch.
  \<^item> \<open>Version_Rules\<close>, \<open>Upstream_Plan\<close>, \<open>Spec_Rewrite\<close>, \<open>Upstream_Apply\<close>
    (\<open>upstream_bump.py\<close>): the order and cycles of versions, the moves planned from the release
    feeds, the texts a bump writes into a spec and a \<open>sources\<close> manifest, and a bump over the three
    files. The closure of the macros a version is computed from is two loops with a measure each; an
    operation on the tree gives the tree it leaves with its result, so that errors show what they leave.
  \<^item> \<open>Canary_Relevance\<close>, \<open>Canary_Verify\<close>, \<open>Fork_Canary\<close>: which changes the canary must prove,
    when a merge group is proven without building, what the jobs of a canary run must show, and which
    fork commits and bot dispatches are trusted.
  \<^item> \<open>Backlog_Specs\<close>, \<open>Backlog_Report\<close> (\<open>factory_build_backlog.py\<close>): the scanner of conditional
    subpackages, against a reference reading of the directives by RPM for any build target, and the
    report with its contract.
  \<^item> \<open>Release_Order\<close>, \<open>Multimedia_Closure\<close> (\<open>multimedia_closure.py\<close>): the newest published
    build by epoch, version and release, and the closure of a transaction.
  \<^item> \<open>Py_Effects\<close>, \<open>Source_Pipeline\<close>, \<open>Source_Integrity\<close>, \<open>Source_Staging\<close>
    (\<open>source_pipeline.py\<close>): steps over a world of files, directories and requests that may raise,
    with a calculus of triples; every step of fetching, generating, checking, accepting, staging and
    re-verifying a source; which files a step can touch; and what a run on a package leaves.
  \<^item> \<open>Py_Regex\<close>: regular expressions as written in the code, their matches as a relation and
    the list of all outcomes, which \<open>rests_matches\<close> shows equal. \<open>Suppressed_Tests\<close>
    (\<open>check_suppressed_tests.py\<close>), \<open>Buildroot_Lock\<close> (\<open>buildroot_lock.py\<close>,
    \<open>buildroot_pin.py\<close>), \<open>Validate\<close>, \<open>Repository_Contract\<close> (\<open>validate.py\<close>): the contract
    every pull request meets, over a checkout given as its files, and what follows from it.
  \<^item> \<open>Packit_Config\<close> (\<open>render_packit_config.py\<close>), \<open>Rawhide_Reimport\<close>
    (\<open>rawhide_reimport.py\<close>, \<open>import_rawhide.py\<close>): the Packit file, and which recipe may be replaced
    by the commit Koji built from without a human, with the whole run over a checkout; a dist-git
    repository is given by the trees of its commits and their ancestry, Koji by its replies.
  \<^item> \<open>Runtime_Contract\<close> (\<open>runtime_contract.py\<close>, \<open>recalculate_hummingbird_gaps.py\<close>),
    \<open>Rawhide_Scan\<close> (\<open>rawhide_sources.py\<close>, \<open>scan_rawhide_state.py\<close>,
    \<open>import_bluefin_rawhide.py\<close>): what consumers install and what is missing of it, what changed in
    Rawhide, and which sources are imported. \<open>Package_Index\<close> (\<open>package_index.py\<close>): the catalog of
    the published image. \<open>Workflow_Checks\<close> (\<open>check_workflow_quoting.py\<close>,
    \<open>check_build_container_pinning.py\<close>): two checks of the text of the workflows.
  \<^item> \<open>Tar_Repack\<close>, \<open>Tar_Records\<close>, \<open>Vendored_Crates\<close>, \<open>Generated_Sources\<close>
    (\<open>generated_sources.py\<close>): the archives made from pinned inputs, over the members of a tar archive
    or, for freerdp, over its 512-byte records, where the loop may not end and is a partial function;
    the scripts \<open>strip.py\<close>, \<open>make_tarball.sh\<close> and \<open>strip-rar-support.sh\<close> of the recipes, whose
    removal sets the code repeats; vendored crates; pins, lock records and runs.
    \<open>Source_Bootstrap\<close> (\<open>bootstrap_upstream_sources.py\<close>, \<open>import_proposal.py\<close>,
    \<open>packit_source0.py\<close>): how an entry gets into the source lock, an import that crosses the border
    between two jobs, and the archive Packit is told.
  \<^item> \<open>Factory_Manifest\<close> (\<open>factory_manifest.py\<close>), \<open>Mock_Config\<close> (\<open>mock_config.py\<close>): the
    manifest published beside the RPM files, and the text of the mock configuration with what dnf reads
    out of it. \<open>Utah_Install_Set\<close> (\<open>utah_install_set.py\<close>): what Utah installs, resolved against a
    candidate. \<open>Factory_Contract\<close> (\<open>factory_contract.py\<close>): the onboarding contract of the tree.
  \<^item> \<open>Queue_Wait\<close> (\<open>queue_wait.py\<close>): paging through the Actions API, where a reply that never
    reaches its own count keeps the loop going, so that the loop is a partial function; and percentiles
    in double precision, written out as rationals rounded to 53 bits.

  \<^bold>\<open>What is shown.\<close> Within a build set a provider is in an earlier wave than its consumer unless a
  configured cycle order says otherwise, and the waves are the longest, hence least, paths; the
  components are the strongly connected components; solving always returns. A skipped package is
  proven published and consumes nothing that changed; a package declared trusted is at its recorded
  digest; the stage lists deliver every selected package once, within the matrix cap, in wave order.
  After a publish the next run selects nothing new. A candidate repository holds the replaced,
  carried and nothing else. A planned move that no human sees stays within its cycle or major; an
  applied one pins the bytes it fetched and a skipped one leaves no trace; an unattended run changes
  only files the bump gate accepts. An accepted source has the pinned bytes, with its signature and
  checksum list checked, and so has every further source of its manifest; whatever goes wrong, no
  other bytes take its place, and what was staged passes the gate after Packit. In a validated repository every recipe has a sound
  provenance, lock and Packit entry and no new suppressed test, no line of a manifest is passed over and
  no plaintext address fetched from, and moving the build root pin keeps this. A re-import of a recipe takes the
  tree Koji built, loses no edit and leaves payload and build graph as they were. A bump merges exactly when every condition holds. An empty canary verdict
  and a proven merge group mean what they claim. The scanner of specs is sound for every target, the
  backlog report adds up, and a resolved closure answers its transaction.
  A generated archive depends on pinned bytes and the recipe only, and repacking removes what the
  scripts of the recipes remove and nothing else; a vendored crate holds the files its archive lists.
  An entry reaches the source lock only with its proof, and an import arrives as it was sent. The
  manifest attests each recipe, mock prefers the builds of its own stage, and the gaps of the install
  set and of the onboarding contract are named exactly. Paging reads every entry that was counted,
  a percentile lies between the shortest and the longest wait, and the alert compares the median.

  \<^bold>\<open>What is not modelled.\<close> Argument parsing and log output; files and the network outside the
  trees and worlds that the definitions pass on; the recursion and integer-size limits of Python other than the 4300 digits of \<open>int\<close>;
  characters above 255 and JSON floats. Of the tools, \<open>audit_gnome_build_meta.py\<close> (an audit report
  over BuildStream elements) and the Markdown summary \<open>queue_wait.py\<close> prints are left out. The
  workflow files enter only as the documents the checks read, and of the shell scripts only those
  of the recipes that remove files from a source archive.
\<close>

end
